(* ===== verification/Base.thy ===== *)
theory Base
  imports Main "HOL-Library.Word" "HOL-Library.Monad_Syntax" "HOL-Library.Signed_Division"
begin

text \<open>
  The prelude of the development: how a run of C code is represented, the two judgements about runs
  that every component proof uses, C's integer division and narrowing, and a few facts on lists.

  A C function that may call \<open>assert\<close> or dereference a pointer becomes a HOL function into an option
  type: \<open>None\<close> stands for a run that stops the process (a failed \<open>assert\<close>) or has undefined
  behaviour (a null or dangling pointer, an index outside an array, a division by zero), and
  \<open>Some (r, s)\<close> for a run that returns \<open>r\<close> and leaves the memory in the state \<open>s\<close>.  Error codes that
  the C code returns are ordinary values of \<open>r\<close>.
\<close>

named_theorems run_simps \<open>equations that move a judgement through the control structure of a run\<close>
named_theorems guarantee \<open>what each operation guarantees about its final state\<close>

section \<open>Judgements about runs\<close>

text \<open>
  \<open>ensures m Q\<close>: if the run \<open>m\<close> returns, its result satisfies \<open>Q\<close>.
  \<open>succeeds m Q\<close>: the run \<open>m\<close> returns, and its result satisfies \<open>Q\<close>.
\<close>

definition ensures :: "'a option \<Rightarrow> ('a \<Rightarrow> bool) \<Rightarrow> bool" where
  "ensures m Q \<longleftrightarrow> (\<forall>x. m = Some x \<longrightarrow> Q x)"

definition succeeds :: "'a option \<Rightarrow> ('a \<Rightarrow> bool) \<Rightarrow> bool" where
  "succeeds m Q \<longleftrightarrow> (\<exists>x. m = Some x \<and> Q x)"

definition C_assert :: "bool \<Rightarrow> unit option" where
  "C_assert b = (if b then Some () else None)"

lemma ensures_None [run_simps, simp]: "ensures None Q"
  by (simp add: ensures_def)

lemma ensures_Some [run_simps, simp]: "ensures (Some x) Q \<longleftrightarrow> Q x"
  by (simp add: ensures_def)

lemma ensures_bind [run_simps]:
  "ensures (Option.bind m f) Q \<longleftrightarrow> ensures m (\<lambda>x. ensures (f x) Q)"
  by (cases m) auto

lemma ensures_if [run_simps]:
  "ensures (if b then m else n) Q \<longleftrightarrow> (b \<longrightarrow> ensures m Q) \<and> (\<not> b \<longrightarrow> ensures n Q)"
  by simp

lemma ensures_case_option [run_simps]:
  "ensures (case x of None \<Rightarrow> m | Some a \<Rightarrow> f a) Q \<longleftrightarrow>
     (x = None \<longrightarrow> ensures m Q) \<and> (\<forall>a. x = Some a \<longrightarrow> ensures (f a) Q)"
  by (cases x) auto

lemma ensures_case_prod [run_simps]:
  "ensures (case p of (a, b) \<Rightarrow> f a b) Q \<longleftrightarrow> (case p of (a, b) \<Rightarrow> ensures (f a b) Q)"
  by (cases p) auto

lemma ensures_Let [run_simps]: "ensures (let x = a in f x) Q \<longleftrightarrow> (let x = a in ensures (f x) Q)"
  by (simp add: Let_def)

lemma ensures_assert [run_simps]: "ensures (C_assert b) Q \<longleftrightarrow> (b \<longrightarrow> Q ())"
  by (simp add: C_assert_def)

lemma ensures_mono: "ensures m Q \<Longrightarrow> (\<And>x. m = Some x \<Longrightarrow> Q x \<Longrightarrow> Q' x) \<Longrightarrow> ensures m Q'"
  by (simp add: ensures_def)

lemma ensuresI: "(\<And>x. m = Some x \<Longrightarrow> Q x) \<Longrightarrow> ensures m Q"
  by (simp add: ensures_def)

lemma ensuresD: "ensures m Q \<Longrightarrow> m = Some x \<Longrightarrow> Q x"
  by (simp add: ensures_def)

lemma ensures_True [simp]: "ensures m (\<lambda>x. True)"
  by (simp add: ensures_def)

lemma ensures_conj: "ensures m (\<lambda>x. P x \<and> Q x) \<longleftrightarrow> ensures m P \<and> ensures m Q"
  by (auto simp: ensures_def)

lemma succeeds_None [run_simps, simp]: "\<not> succeeds None Q"
  by (simp add: succeeds_def)

lemma succeeds_Some [run_simps, simp]: "succeeds (Some x) Q \<longleftrightarrow> Q x"
  by (simp add: succeeds_def)

lemma succeeds_bind [run_simps]:
  "succeeds (Option.bind m f) Q \<longleftrightarrow> succeeds m (\<lambda>x. succeeds (f x) Q)"
  by (cases m) auto

lemma succeeds_if [run_simps]:
  "succeeds (if b then m else n) Q \<longleftrightarrow> (b \<longrightarrow> succeeds m Q) \<and> (\<not> b \<longrightarrow> succeeds n Q)"
  by simp

lemma succeeds_case_option [run_simps]:
  "succeeds (case x of None \<Rightarrow> m | Some a \<Rightarrow> f a) Q \<longleftrightarrow>
     (x = None \<longrightarrow> succeeds m Q) \<and> (\<forall>a. x = Some a \<longrightarrow> succeeds (f a) Q)"
  by (cases x) auto

lemma succeeds_case_prod [run_simps]:
  "succeeds (case p of (a, b) \<Rightarrow> f a b) Q \<longleftrightarrow> (case p of (a, b) \<Rightarrow> succeeds (f a b) Q)"
  by (cases p) auto

lemma succeeds_Let [run_simps]:
  "succeeds (let x = a in f x) Q \<longleftrightarrow> (let x = a in succeeds (f x) Q)"
  by (simp add: Let_def)

lemma succeeds_assert [run_simps]: "succeeds (C_assert b) Q \<longleftrightarrow> b \<and> Q ()"
  by (simp add: C_assert_def)

lemma succeeds_mono: "succeeds m Q \<Longrightarrow> (\<And>x. m = Some x \<Longrightarrow> Q x \<Longrightarrow> Q' x) \<Longrightarrow> succeeds m Q'"
  by (auto simp: succeeds_def)

lemma succeedsD: "succeeds m Q \<Longrightarrow> \<exists>x. m = Some x \<and> Q x"
  by (simp add: succeeds_def)

lemma succeeds_ensures: "succeeds m P \<Longrightarrow> ensures m Q \<Longrightarrow> succeeds m (\<lambda>x. P x \<and> Q x)"
  by (auto simp: succeeds_def ensures_def)

lemma succeeds_SomeI: "m = Some x \<Longrightarrow> Q x \<Longrightarrow> succeeds m Q"
  by (simp add: succeeds_def)

section \<open>Sequencing under a reflexive and transitive guarantee\<close>

text \<open>
  Most safety properties of a stateful component say that every operation takes a state \<open>s\<close> to a
  state \<open>s'\<close> with \<open>R s s'\<close> for a preorder \<open>R\<close> (a counter never decreases, a field never changes).
  The locale proves the composition rules once; each component interprets it on its own relation.
\<close>

locale preorder_guarantee =
  fixes R :: "'s \<Rightarrow> 's \<Rightarrow> bool"
  assumes R_refl: "R s s"
    and R_trans: "R s t \<Longrightarrow> R t u \<Longrightarrow> R s u"
begin

lemma seq:
  assumes "ensures m (\<lambda>(x, t). R s t \<and> P x t)"
    and "\<And>x t. m = Some (x, t) \<Longrightarrow> R s t \<Longrightarrow> P x t \<Longrightarrow> Q (x, t)"
  shows "ensures m Q"
  using assms by (auto simp: ensures_def)

lemma seq':
  assumes "ensures m (\<lambda>(x, t). R s t)"
    and "\<And>x t. m = Some (x, t) \<Longrightarrow> R s t \<Longrightarrow> Q (x, t)"
  shows "ensures m Q"
  using assms by (auto simp: ensures_def)

lemma after:
  assumes "R s t" and "ensures m (\<lambda>(x, u). R t u)"
  shows "ensures m (\<lambda>(x, u). R s u)"
  using assms by (auto simp: ensures_def intro: R_trans)

lemma rtranclp_guarantee:
  assumes "\<And>s t. step s t \<Longrightarrow> R s t" and "step\<^sup>*\<^sup>* s t"
  shows "R s t"
  using assms(2)
proof (induction rule: rtranclp_induct)
  case base
  show ?case by (rule R_refl)
next
  case (step t u)
  then show ?case by (blast intro: R_trans assms(1))
qed

end

text \<open>Turning a guarantee of an operation into a rule for the code that follows it.\<close>

lemma ensures_pair_rule:
  "ensures m (\<lambda>(x, t). R x t) \<Longrightarrow> (\<And>x t. m = Some (x, t) \<Longrightarrow> R x t \<Longrightarrow> Q (x, t)) \<Longrightarrow> ensures m Q"
  by (auto simp: ensures_def)

lemma ensures_state_rule:
  "ensures m R \<Longrightarrow> (\<And>t. m = Some t \<Longrightarrow> R t \<Longrightarrow> Q t) \<Longrightarrow> ensures m Q"
  by (auto simp: ensures_def)

declare Option.bind_cong [fundef_cong]

section \<open>C integers\<close>

text \<open>
  Assigning a \<open>long\<close> to an \<open>int\<close> keeps the low 32 bits, read as two's complement (what the compilers
  the code is built with do).  \<open>c_rem\<close> is the C operator \<open>%\<close> on signed operands: the result has the
  sign of the dividend, and a zero divisor has no result.
\<close>

definition narrow32 :: "int \<Rightarrow> int" where
  "narrow32 x = (x + 2147483648) mod 4294967296 - 2147483648"

definition c_rem :: "int \<Rightarrow> int \<Rightarrow> int option" where
  "c_rem a b = (if b = 0 then None else Some (a smod b))"

lemma narrow32_id [simp]: "- 2147483648 \<le> x \<Longrightarrow> x < 2147483648 \<Longrightarrow> narrow32 x = x"
  by (simp add: narrow32_def)

lemma narrow32_range: "- 2147483648 \<le> narrow32 x \<and> narrow32 x < 2147483648"
  by (simp add: narrow32_def pos_mod_bound)

lemma c_rem_nonneg: "0 \<le> a \<Longrightarrow> 0 < b \<Longrightarrow> c_rem a b = Some (a mod b)"
  by (simp add: c_rem_def smod_mod_positive)

section \<open>Arrays as lists\<close>

text \<open>An array access outside the bounds has no result.\<close>

definition array_get :: "'a list \<Rightarrow> nat \<Rightarrow> 'a option" where
  "array_get xs i = (if i < length xs then Some (xs ! i) else None)"

definition array_set :: "'a list \<Rightarrow> nat \<Rightarrow> 'a \<Rightarrow> 'a list option" where
  "array_set xs i x = (if i < length xs then Some (xs[i := x]) else None)"

lemma array_get_Some [simp]: "i < length xs \<Longrightarrow> array_get xs i = Some (xs ! i)"
  by (simp add: array_get_def)

lemma array_set_Some [simp]: "i < length xs \<Longrightarrow> array_set xs i x = Some (xs[i := x])"
  by (simp add: array_set_def)

lemma array_get_eq_Some: "array_get xs i = Some x \<longleftrightarrow> i < length xs \<and> xs ! i = x"
  by (simp add: array_get_def)

lemma array_set_eq_Some: "array_set xs i x = Some ys \<longleftrightarrow> i < length xs \<and> ys = xs[i := x]"
  by (auto simp: array_set_def)

lemma filter_len_le_remove1_distinct:
  "distinct xs \<Longrightarrow> a \<in> set xs \<Longrightarrow> length (filter P (remove1 a xs)) \<le> length (filter P xs)"
  by (simp add: filter_remove1 length_remove1)

end
