(* ===== verification/Raft_Types.thy ===== *)
theory Raft_Types
  imports Base
begin

text \<open>
  The data of the Raft library (\<open>raft/raft/raft_types.h\<close>, \<open>raft.h\<close>): log entries, the four protocol
  messages with their responses, error codes, and the interface to the code the library calls.

  The library calls code it does not contain: the user's callbacks (\<open>raft_cbs_t\<close>), the allocator
  (\<open>__raft_calloc\<close>, \<open>__raft_realloc\<close>, replaceable by the user) and \<open>rand()\<close>.  Every such call is
  recorded as an \<open>event\<close>, and the called code is a function from the history of the events so far and
  the arguments to its answer.  As each call extends the history, no two calls of a run are answered
  from the same history, so every sequence of answers is the answer of some such function: theorems
  that hold for all callbacks hold for stateful and failing ones.  Callbacks that call back into the
  library, and the debugging callback \<open>log\<close>, are not modelled.

  Indices and terms (\<open>long\<close>) are exact integers; where the code narrows one to \<open>int\<close> the model does.
\<close>

type_synonym addr = nat
type_synonym raft_index = int
type_synonym raft_term = int
type_synonym raft_node_id = int
type_synonym raft_entry_id = int

section \<open>Constants\<close>

abbreviation (input) RAFT_ERR_NOT_LEADER :: int where "RAFT_ERR_NOT_LEADER \<equiv> - 2"
abbreviation (input) RAFT_ERR_ONE_VOTING_CHANGE_ONLY :: int where "RAFT_ERR_ONE_VOTING_CHANGE_ONLY \<equiv> - 3"
abbreviation (input) RAFT_ERR_SHUTDOWN :: int where "RAFT_ERR_SHUTDOWN \<equiv> - 4"
abbreviation (input) RAFT_ERR_NOMEM :: int where "RAFT_ERR_NOMEM \<equiv> - 5"
abbreviation (input) RAFT_ERR_NEEDS_SNAPSHOT :: int where "RAFT_ERR_NEEDS_SNAPSHOT \<equiv> - 6"
abbreviation (input) RAFT_ERR_SNAPSHOT_IN_PROGRESS :: int where "RAFT_ERR_SNAPSHOT_IN_PROGRESS \<equiv> - 7"
abbreviation (input) RAFT_ERR_SNAPSHOT_ALREADY_LOADED :: int
  where "RAFT_ERR_SNAPSHOT_ALREADY_LOADED \<equiv> - 8"

abbreviation (input) RAFT_REQUESTVOTE_ERR_GRANTED :: int where "RAFT_REQUESTVOTE_ERR_GRANTED \<equiv> 1"
abbreviation (input) RAFT_REQUESTVOTE_ERR_NOT_GRANTED :: int where "RAFT_REQUESTVOTE_ERR_NOT_GRANTED \<equiv> 0"
abbreviation (input) RAFT_REQUESTVOTE_ERR_UNKNOWN_NODE :: int
  where "RAFT_REQUESTVOTE_ERR_UNKNOWN_NODE \<equiv> - 1"

datatype raft_membership_e = RAFT_MEMBERSHIP_ADD | RAFT_MEMBERSHIP_REMOVE

datatype raft_state_e =
  RAFT_STATE_NONE | RAFT_STATE_FOLLOWER | RAFT_STATE_CANDIDATE | RAFT_STATE_LEADER

datatype raft_node_status =
  RAFT_NODE_STATUS_DISCONNECTED | RAFT_NODE_STATUS_CONNECTED
| RAFT_NODE_STATUS_CONNECTING | RAFT_NODE_STATUS_DISCONNECTING

text \<open>
  The entry type is an \<open>int\<close>; the library compares it with these five constants only, and users may
  choose any other number.
\<close>

datatype raft_logtype_e =
  RAFT_LOGTYPE_NORMAL | RAFT_LOGTYPE_ADD_NONVOTING_NODE | RAFT_LOGTYPE_ADD_NODE
| RAFT_LOGTYPE_DEMOTE_NODE | RAFT_LOGTYPE_REMOVE_NODE | RAFT_LOGTYPE_OTHER int

section \<open>Entries and messages\<close>

record raft_entry_data =
  data_buf :: nat
  data_len :: nat

record raft_entry =
  ety_term :: raft_term
  ety_id :: raft_entry_id
  ety_type :: raft_logtype_e
  ety_data :: raft_entry_data

text \<open>What \<open>calloc\<close> leaves in an entry slot.\<close>

definition zero_entry :: raft_entry where
  "zero_entry = \<lparr>ety_term = 0, ety_id = 0, ety_type = RAFT_LOGTYPE_NORMAL,
     ety_data = \<lparr>data_buf = 0, data_len = 0\<rparr>\<rparr>"

record msg_entry_response =
  mer_id :: raft_entry_id
  mer_term :: raft_term
  mer_idx :: raft_index

record msg_requestvote =
  rv_term :: raft_term
  rv_candidate_id :: raft_node_id
  rv_last_log_idx :: raft_index
  rv_last_log_term :: raft_term

record msg_requestvote_response =
  rvr_term :: raft_term
  rvr_vote_granted :: int

record msg_appendentries =
  ae_term :: raft_term
  ae_prev_log_idx :: raft_index
  ae_prev_log_term :: raft_term
  ae_leader_commit :: raft_index
  ae_n_entries :: int
  ae_entries :: "raft_entry list"

record msg_appendentries_response =
  aer_term :: raft_term
  aer_success :: int
  aer_current_idx :: raft_index
  aer_first_idx :: raft_index

definition raft_entry_is_voting_cfg_change :: "raft_entry \<Rightarrow> bool" where
  "raft_entry_is_voting_cfg_change ety \<longleftrightarrow>
     RAFT_LOGTYPE_ADD_NODE = ety_type ety \<or> RAFT_LOGTYPE_DEMOTE_NODE = ety_type ety"

definition raft_entry_is_cfg_change :: "raft_entry \<Rightarrow> bool" where
  "raft_entry_is_cfg_change ety \<longleftrightarrow>
     RAFT_LOGTYPE_ADD_NODE = ety_type ety \<or>
     RAFT_LOGTYPE_ADD_NONVOTING_NODE = ety_type ety \<or>
     RAFT_LOGTYPE_DEMOTE_NODE = ety_type ety \<or>
     RAFT_LOGTYPE_REMOVE_NODE = ety_type ety"

section \<open>Calls out of the library\<close>

text \<open>An event holds the arguments of a call and, where the library uses it, the answer.\<close>

datatype event =
  Ev_send_requestvote addr msg_requestvote int
| Ev_send_appendentries addr msg_appendentries int
| Ev_send_snapshot addr
| Ev_applylog raft_entry raft_index int
| Ev_persist_vote raft_node_id int
| Ev_persist_term raft_term raft_node_id int
| Ev_log_offer raft_entry raft_index int
| Ev_log_poll raft_entry raft_index int
| Ev_log_pop raft_entry raft_index int
| Ev_log_clear raft_entry raft_index
| Ev_log_get_node_id raft_entry raft_index raft_node_id
| Ev_node_has_sufficient_logs addr int
| Ev_membership "addr option" "raft_entry option" raft_membership_e
| Ev_alloc nat bool
| Ev_rand nat

type_synonym history = "event list"

text \<open>
  The callbacks; \<open>None\<close> is a null function pointer.  \<open>log_offer\<close> may re-assign the data pointer of the
  stored entry (\<open>raft.h\<close> asks users to do so for temporary memory), so it answers with the entry data
  as well.
\<close>

record raft_cbs =
  cb_send_requestvote :: "(history \<Rightarrow> addr \<Rightarrow> msg_requestvote \<Rightarrow> int) option"
  cb_send_appendentries :: "(history \<Rightarrow> addr \<Rightarrow> msg_appendentries \<Rightarrow> int) option"
  cb_send_snapshot :: "(history \<Rightarrow> addr \<Rightarrow> int) option"
  cb_applylog :: "(history \<Rightarrow> raft_entry \<Rightarrow> raft_index \<Rightarrow> int) option"
  cb_persist_vote :: "(history \<Rightarrow> raft_node_id \<Rightarrow> int) option"
  cb_persist_term :: "(history \<Rightarrow> raft_term \<Rightarrow> raft_node_id \<Rightarrow> int) option"
  cb_log_offer :: "(history \<Rightarrow> raft_entry \<Rightarrow> raft_index \<Rightarrow> int \<times> raft_entry_data) option"
  cb_log_poll :: "(history \<Rightarrow> raft_entry \<Rightarrow> raft_index \<Rightarrow> int) option"
  cb_log_pop :: "(history \<Rightarrow> raft_entry \<Rightarrow> raft_index \<Rightarrow> int) option"
  cb_log_clear :: "(history \<Rightarrow> raft_entry \<Rightarrow> raft_index \<Rightarrow> int) option"
  cb_log_get_node_id :: "(history \<Rightarrow> raft_entry \<Rightarrow> raft_index \<Rightarrow> raft_node_id) option"
  cb_node_has_sufficient_logs :: "(history \<Rightarrow> addr \<Rightarrow> int) option"
  cb_notify_membership_event ::
    "(history \<Rightarrow> addr option \<Rightarrow> raft_entry option \<Rightarrow> raft_membership_e \<Rightarrow> unit) option"

definition no_cbs :: raft_cbs where
  "no_cbs = \<lparr>cb_send_requestvote = None, cb_send_appendentries = None, cb_send_snapshot = None,
     cb_applylog = None, cb_persist_vote = None, cb_persist_term = None, cb_log_offer = None,
     cb_log_poll = None, cb_log_pop = None, cb_log_clear = None, cb_log_get_node_id = None,
     cb_node_has_sufficient_logs = None, cb_notify_membership_event = None\<rparr>"

text \<open>The allocator answers whether a request for so many bytes succeeds; \<open>rand()\<close> is not negative.\<close>

record raft_env =
  env_alloc :: "history \<Rightarrow> nat \<Rightarrow> bool"
  env_rand :: "history \<Rightarrow> nat"

text \<open>An allocator that serves no request of 64 GiB or more.\<close>

definition bounded_allocator :: "raft_env \<Rightarrow> bool" where
  "bounded_allocator E \<longleftrightarrow> (\<forall>h n. 68719476736 \<le> n \<longrightarrow> \<not> env_alloc E h n)"

end
