(* ===== verification/Raft_Log_Buffer.thy ===== *)
theory Raft_Log_Buffer
  imports Raft_Types
begin

text \<open>
  The ring buffer under the Raft log (\<open>raft/raft/raft_log.c\<close>): the record \<open>log_private\<close>, the operations
  that neither allocate nor call back, the list the buffer stands for (\<open>log_list\<close>), and the contract
  \<open>indexed_log\<close> that the server relies on: entries have consecutive indices \<open>base + 1, base + 2, \<dots>\<close>;
  pushing, popping and dropping the oldest entry leave the other indices alone.  The array positions
  and the count are natural numbers: the code starts them at 0, and decrements \<open>count\<close> only when it is
  not 0.  \<open>lp_cb\<close> says whether \<open>log_set_callbacks\<close> has set the pointers \<open>cb\<close> and \<open>raft\<close>.
\<close>

record log_private =
  lp_size :: nat
  lp_count :: nat
  lp_front :: nat
  lp_back :: nat
  lp_base :: raft_index
  lp_entries :: "raft_entry list"
  lp_cb :: bool

abbreviation (input) INITIAL_CAPACITY :: nat where "INITIAL_CAPACITY \<equiv> 10"

definition log_mod :: "int \<Rightarrow> int \<Rightarrow> int option" where
  "log_mod a b = do {
     r \<leftarrow> c_rem a b;
     let r = narrow32 r;
     Some (narrow32 (if r < 0 then r + b else r))
   }"

text \<open>The loop of \<open>__ensurecapacity\<close> that copies the entries to the front of the new array.\<close>

function ensurecapacity_copy ::
  "nat \<Rightarrow> nat \<Rightarrow> log_private \<Rightarrow> raft_entry list \<Rightarrow> raft_entry list option" where
  "ensurecapacity_copy i j me temp =
     (if i < lp_count me
      then do {
        let j = (if j = lp_size me then 0 else j);
        e \<leftarrow> array_get (lp_entries me) j;
        temp \<leftarrow> array_set temp i e;
        ensurecapacity_copy (i + 1) (j + 1) me temp
      }
      else Some temp)"
  by pat_completeness auto
termination
  by (relation "measure (\<lambda>(i, j, me, temp). lp_count me - i)") auto

declare ensurecapacity_copy.simps [simp del]

definition log_clear :: "log_private \<Rightarrow> log_private" where
  "log_clear me = me\<lparr>lp_count := 0, lp_back := 0, lp_front := 0, lp_base := 0\<rparr>"

definition log_empty :: "log_private \<Rightarrow> log_private" where
  "log_empty me = me\<lparr>lp_front := 0, lp_back := 0, lp_count := 0\<rparr>"

definition log_set_callbacks :: "log_private \<Rightarrow> log_private" where
  "log_set_callbacks me = me\<lparr>lp_cb := True\<rparr>"

definition log_count :: "log_private \<Rightarrow> raft_index" where
  "log_count me = int (lp_count me)"

definition log_get_base :: "log_private \<Rightarrow> raft_index" where
  "log_get_base me = lp_base me"

definition log_get_current_idx :: "log_private \<Rightarrow> raft_index" where
  "log_get_current_idx me = log_count me + lp_base me"

text \<open>
  The lookups.  The outer option is the run, the inner one the returned pointer (\<open>None\<close> for null).
  \<open>log_get_from_idx\<close> returns a pointer into the array with a count: the model returns the count and
  the entries from the pointer on, as many as the count says.
\<close>

definition log_slot :: "log_private \<Rightarrow> raft_index \<Rightarrow> nat option" where
  "log_slot me idx = do {
     i \<leftarrow> c_rem (int (lp_front me) + idx - lp_base me) (int (lp_size me));
     Some (nat i)
   }"

definition log_get_at_idx :: "log_private \<Rightarrow> raft_index \<Rightarrow> raft_entry option option" where
  "log_get_at_idx me idx =
     (if idx = 0 then Some None
      else if lp_base me + log_count me < idx \<or> idx \<le> lp_base me then Some None
      else do {
        let idx = idx - 1;
        i \<leftarrow> log_slot me idx;
        e \<leftarrow> array_get (lp_entries me) i;
        Some (Some e)
      })"

definition log_get_from_idx ::
  "log_private \<Rightarrow> raft_index \<Rightarrow> (int \<times> raft_entry list option) option" where
  "log_get_from_idx me idx = do {
     C_assert (0 \<le> idx - 1);
     if lp_base me + log_count me < idx \<or> idx \<le> lp_base me then Some (0, None)
     else do {
       let idx = idx - 1;
       i \<leftarrow> log_slot me idx;
       let logs_till_end_of_log =
         narrow32 (if i < lp_back me then int (lp_back me) - int i else int (lp_size me) - int i);
       C_assert (i < length (lp_entries me));
       Some (logs_till_end_of_log,
             Some (take (nat logs_till_end_of_log) (drop i (lp_entries me))))
     }
   }"

definition log_peektail :: "log_private \<Rightarrow> raft_entry option option" where
  "log_peektail me =
     (if lp_count me = 0 then Some None
      else if lp_back me = 0 then do {
        e \<leftarrow> array_get (lp_entries me) (lp_size me - 1); Some (Some e) }
      else do { e \<leftarrow> array_get (lp_entries me) (lp_back me - 1); Some (Some e) })"

text \<open>
  The updates of the fields that the mutating operations perform: storing an entry at \<open>back\<close> and
  counting it (\<open>log_append_entry\<close>), forgetting the youngest (\<open>log_delete\<close>) and the oldest entry
  (\<open>log_poll\<close>).
\<close>

definition log_store :: "raft_entry \<Rightarrow> log_private \<Rightarrow> log_private option" where
  "log_store e me = do {
     es \<leftarrow> array_set (lp_entries me) (lp_back me) e;
     Some (me\<lparr>lp_entries := es\<rparr>)
   }"

definition log_advance_back :: "log_private \<Rightarrow> log_private option" where
  "log_advance_back me = do {
     b \<leftarrow> c_rem (int (lp_back me) + 1) (int (lp_size me));
     Some (me\<lparr>lp_count := lp_count me + 1, lp_back := nat b\<rparr>)
   }"

definition log_retreat_back :: "nat \<Rightarrow> log_private \<Rightarrow> log_private" where
  "log_retreat_back b me = me\<lparr>lp_back := b, lp_count := lp_count me - 1\<rparr>"

definition log_advance_front :: "log_private \<Rightarrow> log_private option" where
  "log_advance_front me = do {
     f \<leftarrow> c_rem (int (lp_front me) + 1) (int (lp_size me));
     Some (me\<lparr>lp_front := nat f, lp_count := lp_count me - 1, lp_base := lp_base me + 1\<rparr>)
   }"

section \<open>The list a buffer stands for\<close>

definition log_list :: "log_private \<Rightarrow> raft_entry list" where
  "log_list me =
     map (\<lambda>k. lp_entries me ! ((lp_front me + k) mod lp_size me)) [0..<lp_count me]"

definition wf_log :: "log_private \<Rightarrow> bool" where
  "wf_log me \<longleftrightarrow>
     0 < lp_size me \<and> lp_size me < 2147483648 \<and> length (lp_entries me) = lp_size me \<and>
     lp_count me \<le> lp_size me \<and> lp_front me < lp_size me \<and>
     lp_back me = (lp_front me + lp_count me) mod lp_size me \<and> 0 \<le> lp_base me"

text \<open>The entry with index \<open>idx\<close>, if the log holds it.\<close>

definition log_at :: "log_private \<Rightarrow> raft_index \<Rightarrow> raft_entry option" where
  "log_at me idx =
     (if lp_base me < idx \<and> idx \<le> lp_base me + int (lp_count me)
      then Some (log_list me ! nat (idx - 1 - lp_base me)) else None)"

lemma length_log_list [simp]: "length (log_list me) = lp_count me"
  by (simp add: log_list_def)

lemma nth_log_list: "k < lp_count me \<Longrightarrow>
    log_list me ! k = lp_entries me ! ((lp_front me + k) mod lp_size me)"
  by (simp add: log_list_def)

lemma log_slot_eq:
  "wf_log me \<Longrightarrow> lp_base me \<le> idx \<Longrightarrow>
   log_slot me idx = Some ((lp_front me + nat (idx - lp_base me)) mod lp_size me)"
  by (simp add: log_slot_def wf_log_def c_rem_nonneg nat_mod_distrib nat_add_distrib
      add_diff_eq [symmetric] del: add_diff_eq)

lemma log_get_at_idx_eq: "wf_log me \<Longrightarrow> log_get_at_idx me idx = Some (log_at me idx)"
  by (auto simp: log_get_at_idx_def log_at_def log_slot_eq log_count_def nth_log_list wf_log_def
      array_get_def)

lemma log_at_None_iff:
  "log_at me idx = None \<longleftrightarrow> idx \<le> lp_base me \<or> lp_base me + int (lp_count me) < idx"
  by (auto simp: log_at_def)

section \<open>The contract of an indexed log\<close>

locale indexed_log =
  fixes invar :: "'l \<Rightarrow> bool"
    and room :: "'l \<Rightarrow> bool"
    and base :: "'l \<Rightarrow> int"
    and contents :: "'l \<Rightarrow> 'e list"
    and lookup :: "'l \<Rightarrow> int \<Rightarrow> 'e option"
    and push :: "'e \<Rightarrow> 'l \<Rightarrow> 'l"
    and pop :: "'l \<Rightarrow> 'l"
    and shift :: "'l \<Rightarrow> 'l"
  assumes lookup_def: "invar l \<Longrightarrow> lookup l i =
      (if base l < i \<and> i \<le> base l + int (length (contents l))
       then Some (contents l ! nat (i - 1 - base l)) else None)"
    and push_invar: "invar l \<Longrightarrow> room l \<Longrightarrow> invar (push e l)"
    and push_contents: "invar l \<Longrightarrow> room l \<Longrightarrow> contents (push e l) = contents l @ [e]"
    and push_base: "base (push e l) = base l"
    and pop_invar: "invar l \<Longrightarrow> contents l \<noteq> [] \<Longrightarrow> invar (pop l)"
    and pop_contents: "invar l \<Longrightarrow> contents l \<noteq> [] \<Longrightarrow> contents (pop l) = butlast (contents l)"
    and pop_base: "base (pop l) = base l"
    and shift_invar: "invar l \<Longrightarrow> contents l \<noteq> [] \<Longrightarrow> invar (shift l)"
    and shift_contents: "invar l \<Longrightarrow> contents l \<noteq> [] \<Longrightarrow> contents (shift l) = tl (contents l)"
    and shift_base: "base (shift l) = base l + 1"
begin

lemma lookup_push:
  assumes "invar l" "room l"
  shows "lookup (push e l) i =
    (if i = base l + int (length (contents l)) + 1 then Some e else lookup l i)"
  using assms by (auto simp: lookup_def push_invar push_contents push_base nth_append)

lemma lookup_pop:
  assumes "invar l" "contents l \<noteq> []"
  shows "lookup (pop l) i =
    (if i = base l + int (length (contents l)) then None else lookup l i)"
  using assms by (auto simp: lookup_def pop_invar pop_contents pop_base nth_butlast of_nat_diff
      Suc_le_eq)

lemma lookup_shift:
  assumes "invar l" "contents l \<noteq> []"
  shows "lookup (shift l) i = (if i = base l + 1 then None else lookup l i)"
  using assms by (auto simp: lookup_def shift_invar shift_contents shift_base nth_tl of_nat_diff
      Suc_le_eq intro!: arg_cong [where f = "nth (contents l)"])

lemma last_push: "invar l \<Longrightarrow> room l \<Longrightarrow>
    base (push e l) + int (length (contents (push e l))) = base l + int (length (contents l)) + 1"
  by (simp add: push_contents push_base)

lemma last_pop: "invar l \<Longrightarrow> contents l \<noteq> [] \<Longrightarrow>
    base (pop l) + int (length (contents (pop l))) = base l + int (length (contents l)) - 1"
  by (simp add: pop_contents pop_base of_nat_diff Suc_le_eq)

lemma last_shift: "invar l \<Longrightarrow> contents l \<noteq> [] \<Longrightarrow>
    base (shift l) + int (length (contents (shift l))) = base l + int (length (contents l))"
  by (simp add: shift_contents shift_base of_nat_diff Suc_le_eq)

end

section \<open>The ring buffer keeps the contract\<close>

text \<open>The net effect of the field updates above, on a well-formed buffer.\<close>

definition ring_push :: "raft_entry \<Rightarrow> log_private \<Rightarrow> log_private" where
  "ring_push e me = me\<lparr>lp_entries := (lp_entries me)[lp_back me := e], lp_count := lp_count me + 1,
     lp_back := (lp_back me + 1) mod lp_size me\<rparr>"

definition ring_pop :: "log_private \<Rightarrow> log_private" where
  "ring_pop me = me\<lparr>lp_back := (lp_front me + (lp_count me - 1)) mod lp_size me,
     lp_count := lp_count me - 1\<rparr>"

definition ring_shift :: "log_private \<Rightarrow> log_private" where
  "ring_shift me = me\<lparr>lp_front := (lp_front me + 1) mod lp_size me, lp_count := lp_count me - 1,
     lp_base := lp_base me + 1\<rparr>"

lemma ring_pos_le:
  assumes "(f + k) mod n = (f + c) mod n" and "k \<le> c" and "c < (n :: nat)"
  shows "k = c"
proof -
  have "n dvd (f + c) - (f + k)"
    using assms(1,2) by (intro mod_eq_dvd_iff_nat [THEN iffD1]) simp_all
  with assms(2,3) show ?thesis by (auto dest: dvd_imp_le)
qed

lemma ring_pos_inj: "(f + k) mod n = (f + c) mod n \<Longrightarrow> k < n \<Longrightarrow> c < (n :: nat) \<Longrightarrow> k = c"
  using ring_pos_le [of f k n c] ring_pos_le [of f c n k] by (cases "k \<le> c") auto

lemma ring_front_step: "0 < c \<Longrightarrow> (Suc f mod n + (c - Suc 0)) mod n = (f + c) mod (n :: nat)"
  by (cases c) (simp_all add: mod_simps)

lemma ring_push_list:
  assumes "wf_log me" "lp_count me < lp_size me"
  shows "log_list (ring_push e me) = log_list me @ [e]"
proof (rule nth_equalityI)
  show "length (log_list (ring_push e me)) = length (log_list me @ [e])"
    by (simp add: ring_push_def)
  fix k assume "k < length (log_list (ring_push e me))"
  then have k: "k < Suc (lp_count me)" by (simp add: ring_push_def)
  let ?n = "lp_size me"
  have bk: "lp_back me = (lp_front me + lp_count me) mod ?n"
    and len: "length (lp_entries me) = ?n" and pos: "0 < ?n"
    using assms(1) by (simp_all add: wf_log_def)
  show "log_list (ring_push e me) ! k = (log_list me @ [e]) ! k"
  proof (cases "k = lp_count me")
    case True
    then show ?thesis
      using pos len by (simp add: nth_log_list ring_push_def bk nth_append)
  next
    case False
    with k have "k < lp_count me" by simp
    moreover have "(lp_front me + k) mod ?n \<noteq> (lp_front me + lp_count me) mod ?n"
      using ring_pos_inj [of "lp_front me" k ?n "lp_count me"] assms(2)
        \<open>k < lp_count me\<close> by auto
    ultimately show ?thesis
      by (simp add: nth_log_list ring_push_def bk nth_append)
  qed
qed

lemma ring_push_wf: "wf_log me \<Longrightarrow> lp_count me < lp_size me \<Longrightarrow> wf_log (ring_push e me)"
  by (auto simp: wf_log_def ring_push_def mod_Suc_eq)

lemma ring_pop_wf: "wf_log me \<Longrightarrow> wf_log (ring_pop me)"
  by (auto simp: wf_log_def ring_pop_def)

lemma ring_pop_list: "wf_log me \<Longrightarrow> log_list (ring_pop me) = butlast (log_list me)"
  by (auto simp: ring_pop_def nth_log_list nth_butlast intro!: nth_equalityI)

lemma ring_shift_wf:
  assumes "wf_log me" "0 < lp_count me"
  shows "wf_log (ring_shift me)"
proof -
  have "(lp_front me + lp_count me) mod lp_size me =
      (Suc (lp_front me) mod lp_size me + (lp_count me - Suc 0)) mod lp_size me"
    using ring_front_step [of "lp_count me" "lp_front me" "lp_size me"] assms(2) by simp
  with assms show ?thesis by (simp only: wf_log_def ring_shift_def) auto
qed

lemma ring_shift_list: "wf_log me \<Longrightarrow> log_list (ring_shift me) = tl (log_list me)"
  by (auto simp: ring_shift_def nth_log_list nth_tl mod_simps wf_log_def intro!: nth_equalityI)

lemma log_list_Nil_iff: "log_list me \<noteq> [] \<longleftrightarrow> 0 < lp_count me"
  by (metis length_log_list length_greater_0_conv)

lemma ring_base [simp]:
  "lp_base (ring_push e me) = lp_base me" "lp_base (ring_pop me) = lp_base me"
  "lp_base (ring_shift me) = lp_base me + 1"
  by (simp_all add: ring_push_def ring_pop_def ring_shift_def)

lemma ring_count [simp]:
  "lp_count (ring_push e me) = Suc (lp_count me)" "lp_count (ring_pop me) = lp_count me - 1"
  "lp_count (ring_shift me) = lp_count me - 1"
  by (simp_all add: ring_push_def ring_pop_def ring_shift_def)

lemma ring_size [simp]:
  "lp_size (ring_push e me) = lp_size me" "lp_size (ring_pop me) = lp_size me"
  "lp_size (ring_shift me) = lp_size me"
  by (simp_all add: ring_push_def ring_pop_def ring_shift_def)

lemma ring_cb [simp]:
  "lp_cb (ring_push e me) = lp_cb me" "lp_cb (ring_pop me) = lp_cb me"
  "lp_cb (ring_shift me) = lp_cb me"
  by (simp_all add: ring_push_def ring_pop_def ring_shift_def)

interpretation ring: indexed_log wf_log "\<lambda>l. lp_count l < lp_size l" lp_base log_list log_at
    ring_push ring_pop ring_shift
  by unfold_locales
    (simp_all add: log_at_def ring_push_list ring_push_wf ring_pop_list ring_pop_wf
      ring_shift_list ring_shift_wf log_list_Nil_iff)

section \<open>The code's updates are the contract's\<close>

lemma log_store_eq:
  "wf_log me \<Longrightarrow> log_store e me = Some (me\<lparr>lp_entries := (lp_entries me)[lp_back me := e]\<rparr>)"
  by (simp add: log_store_def wf_log_def array_set_def)

lemma log_advance_back_eq:
  "wf_log me \<Longrightarrow> log_advance_back (me\<lparr>lp_entries := (lp_entries me)[lp_back me := e]\<rparr>)
     = Some (ring_push e me)"
  by (simp add: log_advance_back_def ring_push_def wf_log_def c_rem_nonneg nat_mod_distrib
      nat_add_distrib)

lemma log_list_store:
  assumes "wf_log me" "lp_count me < lp_size me"
  shows "log_list (me\<lparr>lp_entries := (lp_entries me)[lp_back me := e]\<rparr>) = log_list me"
proof (rule nth_equalityI)
  show "length (log_list (me\<lparr>lp_entries := (lp_entries me)[lp_back me := e]\<rparr>)) = length (log_list me)"
    by simp
  fix k assume "k < length (log_list (me\<lparr>lp_entries := (lp_entries me)[lp_back me := e]\<rparr>))"
  then have k: "k < lp_count me" by simp
  have "log_list (ring_push e me) ! k = log_list me ! k"
    using ring_push_list [OF assms] k by (simp add: nth_append)
  then show "log_list (me\<lparr>lp_entries := (lp_entries me)[lp_back me := e]\<rparr>) ! k = log_list me ! k"
    using k by (simp add: nth_log_list ring_push_def)
qed

lemma log_mod_back:
  assumes "wf_log me" "0 < lp_count me"
  shows "log_mod (int (lp_back me) - 1) (int (lp_size me)) =
    Some (int ((lp_front me + (lp_count me - 1)) mod lp_size me))"
proof -
  let ?n = "lp_size me" and ?p = "(lp_front me + (lp_count me - 1)) mod lp_size me"
  have n: "0 < ?n" "?n < 2147483648" using assms(1) by (simp_all add: wf_log_def)
  have "Suc (lp_front me + (lp_count me - 1)) = lp_front me + lp_count me"
    using assms(2) by simp
  then have bk: "lp_back me = (if Suc ?p = ?n then 0 else Suc ?p)"
    using assms(1) mod_Suc [of "lp_front me + (lp_count me - 1)" ?n] by (simp add: wf_log_def)
  have p: "?p < ?n" using n by simp
  show ?thesis
  proof (cases "Suc ?p = ?n")
    case True
    then have last: "?p = ?n - 1" by simp
    have b0: "lp_back me = 0" using bk True by simp
    show ?thesis
    proof (cases "?n = 1")
      case True
      then show ?thesis by (simp add: b0 log_mod_def c_rem_def smod_int_alt_def)
    next
      case False
      then have "(- 1 :: int) smod int ?n = - 1"
        using n by (simp add: smod_int_alt_def)
      then show ?thesis using n b0 last by (simp add: log_mod_def c_rem_def of_nat_diff)
    qed
  next
    case False
    then have b: "lp_back me = Suc ?p" using bk by simp
    have "c_rem (int (lp_back me) - 1) (int ?n) = Some (int ?p)"
      using p by (simp add: b c_rem_nonneg)
    moreover have "narrow32 (int ?p) = int ?p"
      by (rule narrow32_id) (use p n in linarith)+
    ultimately show ?thesis by (simp add: log_mod_def Let_def)
  qed
qed

lemma log_retreat_back_eq:
  "log_retreat_back ((lp_front me + (lp_count me - 1)) mod lp_size me) me = ring_pop me"
  by (simp add: log_retreat_back_def ring_pop_def)

lemma log_advance_front_eq: "wf_log me \<Longrightarrow> log_advance_front me = Some (ring_shift me)"
  by (simp add: log_advance_front_def ring_shift_def wf_log_def c_rem_nonneg nat_mod_distrib
      nat_add_distrib)

lemma ensurecapacity_copy_eq:
  assumes "wf_log me" "i \<le> lp_count me" "j \<le> lp_size me"
    and "j mod lp_size me = (lp_front me + i) mod lp_size me" "lp_count me \<le> length temp"
  shows "ensurecapacity_copy i j me temp =
    Some (take i temp @ drop i (log_list me) @ drop (lp_count me) temp)"
  using assms
proof (induction i j me temp rule: ensurecapacity_copy.induct)
  case (1 i j me temp)
  show ?case
  proof (cases "i < lp_count me")
    case False
    with "1.prems" show ?thesis by (subst ensurecapacity_copy.simps) simp
  next
    case True
    let ?j = "if j = lp_size me then 0 else j" and ?e = "log_list me ! i"
    have n: "0 < lp_size me" "length (lp_entries me) = lp_size me"
      using "1.prems"(1) by (simp_all add: wf_log_def)
    have j: "?j < lp_size me" "?j = (lp_front me + i) mod lp_size me"
      using "1.prems"(3,4) n by (auto split: if_splits)
    have e: "array_get (lp_entries me) ?j = Some ?e"
      using j n True by (simp add: nth_log_list)
    have it: "i < length temp" using True "1.prems"(5) by simp
    have st: "array_set temp i ?e = Some (temp[i := ?e])" using it by simp
    have "i + 1 \<le> lp_count me" "?j + 1 \<le> lp_size me" using True j(1) by linarith+
    moreover have "(?j + 1) mod lp_size me = (lp_front me + (i + 1)) mod lp_size me"
      by (subst j(2)) (simp add: mod_simps)
    moreover have "lp_count me \<le> length (temp[i := ?e])" using "1.prems"(5) by simp
    ultimately have "ensurecapacity_copy (i + 1) (?j + 1) me (temp[i := ?e]) =
        Some (take (i + 1) (temp[i := ?e]) @ drop (i + 1) (log_list me)
          @ drop (lp_count me) (temp[i := ?e]))"
      by (rule "1.IH" [OF True refl e st "1.prems"(1)])
    moreover have "take (i + 1) (temp[i := ?e]) = take i temp @ [?e]"
      using it by (simp add: take_Suc_conv_app_nth)
    moreover have "drop i (log_list me) = ?e # drop (i + 1) (log_list me)"
      using True by (simp add: Cons_nth_drop_Suc)
    ultimately show ?thesis
      using True e it by (simp add: ensurecapacity_copy.simps [of i j me temp] Let_def)
  qed
qed

end
