(* ===== verification/Raft_Node.thy ===== *)
theory Raft_Node
  imports Raft_Types
begin

unbundle bit_operations_syntax

text \<open>
  A peer as the server sees it (\<open>raft/raft/raft_node.c\<close>): its id, the replication indices the leader
  keeps for it, and six flags packed into one \<open>int\<close>.  Truth values that the C code passes as \<open>int\<close> are
  \<open>bool\<close>.  The contract \<open>flag_field\<close> says what a packed flag promises, \<open>flag_pair\<close> that two flags do
  not disturb each other; both are interpreted on the accessors of the code.
\<close>

record raft_node =
  node_udata :: nat
  next_idx :: raft_index
  match_idx :: raft_index
  node_flags :: "32 word"
  node_id :: raft_node_id

text \<open>\<open>1 << k\<close>\<close>

definition node_mask :: "nat \<Rightarrow> 32 word" where "node_mask k = push_bit k 1"

definition RAFT_NODE_VOTED_FOR_ME :: "32 word" where "RAFT_NODE_VOTED_FOR_ME = node_mask 0"
definition RAFT_NODE_VOTING :: "32 word" where "RAFT_NODE_VOTING = node_mask 1"
definition RAFT_NODE_HAS_SUFFICIENT_LOG :: "32 word"
  where "RAFT_NODE_HAS_SUFFICIENT_LOG = node_mask 2"
definition RAFT_NODE_INACTIVE :: "32 word" where "RAFT_NODE_INACTIVE = node_mask 3"
definition RAFT_NODE_VOTING_COMMITTED :: "32 word"
  where "RAFT_NODE_VOTING_COMMITTED = node_mask 4"
definition RAFT_NODE_ADDITION_COMMITTED :: "32 word"
  where "RAFT_NODE_ADDITION_COMMITTED = node_mask 5"

lemmas node_mask_defs = RAFT_NODE_VOTED_FOR_ME_def RAFT_NODE_VOTING_def
  RAFT_NODE_HAS_SUFFICIENT_LOG_def RAFT_NODE_INACTIVE_def RAFT_NODE_VOTING_COMMITTED_def
  RAFT_NODE_ADDITION_COMMITTED_def

text \<open>\<open>raft_node_new\<close> after its allocation succeeded.\<close>

definition raft_node_new :: "nat \<Rightarrow> raft_node_id \<Rightarrow> raft_node" where
  "raft_node_new udata i = \<lparr>node_udata = udata, next_idx = 1, match_idx = 0,
     node_flags = RAFT_NODE_VOTING, node_id = i\<rparr>"

definition raft_node_get_next_idx :: "raft_node \<Rightarrow> raft_index" where
  "raft_node_get_next_idx me = next_idx me"

definition raft_node_set_next_idx :: "raft_node \<Rightarrow> raft_index \<Rightarrow> raft_node" where
  "raft_node_set_next_idx me nextIdx = me\<lparr>next_idx := (if nextIdx < 1 then 1 else nextIdx)\<rparr>"

definition raft_node_get_match_idx :: "raft_node \<Rightarrow> raft_index" where
  "raft_node_get_match_idx me = match_idx me"

definition raft_node_set_match_idx :: "raft_node \<Rightarrow> raft_index \<Rightarrow> raft_node" where
  "raft_node_set_match_idx me matchIdx = me\<lparr>match_idx := matchIdx\<rparr>"

definition raft_node_get_udata :: "raft_node \<Rightarrow> nat" where
  "raft_node_get_udata me = node_udata me"

definition raft_node_set_udata :: "raft_node \<Rightarrow> nat \<Rightarrow> raft_node" where
  "raft_node_set_udata me udata = me\<lparr>node_udata := udata\<rparr>"

definition raft_node_get_id :: "raft_node \<Rightarrow> raft_node_id" where
  "raft_node_get_id me = node_id me"

definition raft_node_vote_for_me :: "raft_node \<Rightarrow> bool \<Rightarrow> raft_node" where
  "raft_node_vote_for_me me vote =
     (if vote then me\<lparr>node_flags := node_flags me OR RAFT_NODE_VOTED_FOR_ME\<rparr>
      else me\<lparr>node_flags := node_flags me AND NOT RAFT_NODE_VOTED_FOR_ME\<rparr>)"

definition raft_node_has_vote_for_me :: "raft_node \<Rightarrow> bool" where
  "raft_node_has_vote_for_me me \<longleftrightarrow> node_flags me AND RAFT_NODE_VOTED_FOR_ME \<noteq> 0"

definition raft_node_is_voting :: "raft_node \<Rightarrow> bool" where
  "raft_node_is_voting me \<longleftrightarrow> node_flags me AND RAFT_NODE_VOTING \<noteq> 0"

definition raft_node_set_voting :: "raft_node \<Rightarrow> bool \<Rightarrow> raft_node option" where
  "raft_node_set_voting me voting =
     (if voting
      then do {
        C_assert (\<not> raft_node_is_voting me);
        Some (me\<lparr>node_flags := node_flags me OR RAFT_NODE_VOTING\<rparr>)
      }
      else do {
        C_assert (raft_node_is_voting me);
        Some (me\<lparr>node_flags := node_flags me AND NOT RAFT_NODE_VOTING\<rparr>)
      })"

definition raft_node_has_sufficient_logs :: "raft_node \<Rightarrow> bool" where
  "raft_node_has_sufficient_logs me \<longleftrightarrow> node_flags me AND RAFT_NODE_HAS_SUFFICIENT_LOG \<noteq> 0"

definition raft_node_set_has_sufficient_logs :: "raft_node \<Rightarrow> raft_node" where
  "raft_node_set_has_sufficient_logs me =
     me\<lparr>node_flags := node_flags me OR RAFT_NODE_HAS_SUFFICIENT_LOG\<rparr>"

definition raft_node_set_active :: "raft_node \<Rightarrow> bool \<Rightarrow> raft_node" where
  "raft_node_set_active me active =
     (if \<not> active then me\<lparr>node_flags := node_flags me OR RAFT_NODE_INACTIVE\<rparr>
      else me\<lparr>node_flags := node_flags me AND NOT RAFT_NODE_INACTIVE\<rparr>)"

definition raft_node_is_active :: "raft_node \<Rightarrow> bool" where
  "raft_node_is_active me \<longleftrightarrow> node_flags me AND RAFT_NODE_INACTIVE = 0"

definition raft_node_set_voting_committed :: "raft_node \<Rightarrow> bool \<Rightarrow> raft_node" where
  "raft_node_set_voting_committed me voting =
     (if voting then me\<lparr>node_flags := node_flags me OR RAFT_NODE_VOTING_COMMITTED\<rparr>
      else me\<lparr>node_flags := node_flags me AND NOT RAFT_NODE_VOTING_COMMITTED\<rparr>)"

definition raft_node_is_voting_committed :: "raft_node \<Rightarrow> bool" where
  "raft_node_is_voting_committed me \<longleftrightarrow> node_flags me AND RAFT_NODE_VOTING_COMMITTED \<noteq> 0"

definition raft_node_set_addition_committed :: "raft_node \<Rightarrow> bool \<Rightarrow> raft_node" where
  "raft_node_set_addition_committed me committed =
     (if committed then me\<lparr>node_flags := node_flags me OR RAFT_NODE_ADDITION_COMMITTED\<rparr>
      else me\<lparr>node_flags := node_flags me AND NOT RAFT_NODE_ADDITION_COMMITTED\<rparr>)"

definition raft_node_is_addition_committed :: "raft_node \<Rightarrow> bool" where
  "raft_node_is_addition_committed me \<longleftrightarrow> node_flags me AND RAFT_NODE_ADDITION_COMMITTED \<noteq> 0"

section \<open>Packed flags\<close>

lemma bit_mask [simp]: "bit (node_mask k) i \<longleftrightarrow> i = k \<and> k < 32"
  by (auto simp: node_mask_def bit_simps)

lemma test_flag: "w AND node_mask k = 0 \<longleftrightarrow> \<not> bit w k"
  using and_exp_eq_0_iff_not_bit [of w k] by (simp add: node_mask_def push_bit_eq_mult)

lemma node_mask_nonzero [simp]: "k < 32 \<Longrightarrow> node_mask k \<noteq> 0"
  using bit_mask [of k k] by (metis bit_0_eq bot_apply bot_bool_def)

lemma bit_set_flag: "bit (w OR node_mask k) i \<longleftrightarrow> bit w i \<or> i = k \<and> k < 32"
  by (auto simp: bit_or_iff)

lemma bit_clear_flag: "i < 32 \<Longrightarrow> bit (w AND NOT (node_mask k)) i \<longleftrightarrow> bit w i \<and> i \<noteq> k"
  by (auto simp: bit_and_iff bit_not_iff)

lemmas node_getter_defs = raft_node_has_vote_for_me_def raft_node_is_voting_def
  raft_node_has_sufficient_logs_def raft_node_is_active_def raft_node_is_voting_committed_def
  raft_node_is_addition_committed_def

lemmas node_setter_defs = raft_node_vote_for_me_def raft_node_set_has_sufficient_logs_def
  raft_node_set_active_def raft_node_set_voting_committed_def
  raft_node_set_addition_committed_def raft_node_set_next_idx_def raft_node_set_match_idx_def
  raft_node_set_udata_def

locale flag_field =
  fixes test :: "'n \<Rightarrow> bool" and assign :: "'n \<Rightarrow> bool \<Rightarrow> 'n"
  assumes test_assign: "test (assign n b) = b"
    and assign_assign: "assign (assign n b) c = assign n c"
    and assign_test: "assign n (test n) = n"
begin

lemma assign_idem: "test n = b \<Longrightarrow> assign n b = n"
  using assign_test by blast

lemma undo: "assign (assign n (\<not> test n)) (test n) = n"
  by (simp add: assign_assign assign_test)

end

locale flag_pair = one: flag_field test1 assign1 + two: flag_field test2 assign2
  for test1 :: "'n \<Rightarrow> bool" and assign1 and test2 :: "'n \<Rightarrow> bool" and assign2 +
  assumes other1: "test1 (assign2 n b) = test1 n"
    and other2: "test2 (assign1 n b) = test2 n"
begin

lemma both: "test1 (assign1 (assign2 n c) b) = b \<and> test2 (assign1 (assign2 n c) b) = c"
  by (simp add: one.test_assign two.test_assign other2)

end

text \<open>
  The voting flag has an asserting writer; its effect, without the assertion, is \<open>node_put_voting\<close>.
\<close>

definition node_put_voting :: "raft_node \<Rightarrow> bool \<Rightarrow> raft_node" where
  "node_put_voting me voting =
     (if voting then me\<lparr>node_flags := node_flags me OR RAFT_NODE_VOTING\<rparr>
      else me\<lparr>node_flags := node_flags me AND NOT RAFT_NODE_VOTING\<rparr>)"

lemma raft_node_set_voting_eq:
  "raft_node_set_voting me voting =
     (if raft_node_is_voting me = voting then None else Some (node_put_voting me voting))"
  by (auto simp: raft_node_set_voting_def node_put_voting_def C_assert_def)

lemma flag_word_eqI: "(\<And>i. i < 32 \<Longrightarrow> bit (v :: 32 word) i = bit w i) \<Longrightarrow> v = w"
  by (rule bit_word_eqI) simp

lemma flags_or_and: "(w OR m) AND NOT m = (w :: 32 word) AND NOT m"
  by (rule flag_word_eqI) (auto simp: bit_simps)

lemma flags_and_or: "(w AND NOT m) OR m = (w :: 32 word) OR m"
  by (rule flag_word_eqI) (auto simp: bit_simps)

lemma flags_set_idem: "bit w k \<Longrightarrow> w OR node_mask k = w"
  by (rule flag_word_eqI) (auto simp: bit_set_flag)

lemma flags_clear_idem: "\<not> bit w k \<Longrightarrow> w AND NOT (node_mask k) = (w :: 32 word)"
  by (rule flag_word_eqI) (auto simp: bit_clear_flag)

lemmas flag_laws = node_mask_defs node_getter_defs node_setter_defs node_put_voting_def
  test_flag bit_set_flag bit_clear_flag flags_or_and flags_and_or flags_set_idem flags_clear_idem

interpretation vote_flag: flag_field raft_node_has_vote_for_me raft_node_vote_for_me
  by unfold_locales (auto simp: flag_laws)

interpretation voting_flag: flag_field raft_node_is_voting node_put_voting
  by unfold_locales (auto simp: flag_laws)

interpretation active_flag: flag_field raft_node_is_active raft_node_set_active
  by unfold_locales (auto simp: flag_laws)

interpretation voting_committed_flag:
  flag_field raft_node_is_voting_committed raft_node_set_voting_committed
  by unfold_locales (auto simp: flag_laws)

interpretation addition_committed_flag:
  flag_field raft_node_is_addition_committed raft_node_set_addition_committed
  by unfold_locales (auto simp: flag_laws)

interpretation vote_and_voting:
  flag_pair raft_node_has_vote_for_me raft_node_vote_for_me raft_node_is_voting node_put_voting
  by unfold_locales (auto simp: flag_laws)

interpretation active_and_voting:
  flag_pair raft_node_is_active raft_node_set_active raft_node_is_voting node_put_voting
  by unfold_locales (auto simp: flag_laws)

text \<open>No writer disturbs a flag or a field it does not name.\<close>

lemma node_flag_frame [simp]:
  "raft_node_is_voting (raft_node_vote_for_me n b) = raft_node_is_voting n"
  "raft_node_is_active (raft_node_vote_for_me n b) = raft_node_is_active n"
  "raft_node_has_vote_for_me (raft_node_vote_for_me n b) = b"
  "raft_node_is_voting (raft_node_set_active n b) = raft_node_is_voting n"
  "raft_node_is_active (raft_node_set_active n b) = b"
  "raft_node_has_vote_for_me (raft_node_set_active n b) = raft_node_has_vote_for_me n"
  "raft_node_is_voting (raft_node_set_voting_committed n b) = raft_node_is_voting n"
  "raft_node_is_active (raft_node_set_voting_committed n b) = raft_node_is_active n"
  "raft_node_has_vote_for_me (raft_node_set_voting_committed n b) = raft_node_has_vote_for_me n"
  "raft_node_is_voting (raft_node_set_addition_committed n b) = raft_node_is_voting n"
  "raft_node_is_active (raft_node_set_addition_committed n b) = raft_node_is_active n"
  "raft_node_has_vote_for_me (raft_node_set_addition_committed n b) = raft_node_has_vote_for_me n"
  "raft_node_is_voting (raft_node_set_has_sufficient_logs n) = raft_node_is_voting n"
  "raft_node_is_active (raft_node_set_has_sufficient_logs n) = raft_node_is_active n"
  "raft_node_has_vote_for_me (raft_node_set_has_sufficient_logs n) = raft_node_has_vote_for_me n"
  "raft_node_is_voting (node_put_voting n b) = b"
  "raft_node_is_active (node_put_voting n b) = raft_node_is_active n"
  "raft_node_has_vote_for_me (node_put_voting n b) = raft_node_has_vote_for_me n"
  "raft_node_is_voting (raft_node_set_next_idx n i) = raft_node_is_voting n"
  "raft_node_is_active (raft_node_set_next_idx n i) = raft_node_is_active n"
  "raft_node_has_vote_for_me (raft_node_set_next_idx n i) = raft_node_has_vote_for_me n"
  "raft_node_is_voting (raft_node_set_match_idx n i) = raft_node_is_voting n"
  "raft_node_is_active (raft_node_set_match_idx n i) = raft_node_is_active n"
  "raft_node_has_vote_for_me (raft_node_set_match_idx n i) = raft_node_has_vote_for_me n"
  by (auto simp: flag_laws)

lemma node_id_frame [simp]:
  "node_id (raft_node_vote_for_me n b) = node_id n"
  "node_id (raft_node_set_active n b) = node_id n"
  "node_id (raft_node_set_voting_committed n b) = node_id n"
  "node_id (raft_node_set_addition_committed n b) = node_id n"
  "node_id (raft_node_set_has_sufficient_logs n) = node_id n"
  "node_id (node_put_voting n b) = node_id n"
  "node_id (raft_node_set_next_idx n i) = node_id n"
  "node_id (raft_node_set_match_idx n i) = node_id n"
  by (simp_all add: node_setter_defs node_put_voting_def)

lemma raft_node_new_flags [simp]:
  "raft_node_is_voting (raft_node_new u i)" "raft_node_is_active (raft_node_new u i)"
  "\<not> raft_node_has_vote_for_me (raft_node_new u i)" "node_id (raft_node_new u i) = i"
  by (simp_all add: raft_node_new_def node_getter_defs node_mask_defs test_flag)

text \<open>
  Switching the voting flag: \<open>raft_node_set_voting\<close> stops at its assertion exactly when the flag
  already has the wanted value; otherwise the flag gets it, the five other flags, the id and the
  replication indices stay, and switching back restores the node.
\<close>

theorem set_voting_switches_one_flag:
  "case raft_node_set_voting n v of
     None \<Rightarrow> raft_node_is_voting n = v
   | Some n' \<Rightarrow> raft_node_is_voting n \<noteq> v \<and> raft_node_is_voting n' = v \<and>
       raft_node_has_vote_for_me n' = raft_node_has_vote_for_me n \<and>
       raft_node_has_sufficient_logs n' = raft_node_has_sufficient_logs n \<and>
       raft_node_is_active n' = raft_node_is_active n \<and>
       raft_node_is_voting_committed n' = raft_node_is_voting_committed n \<and>
       raft_node_is_addition_committed n' = raft_node_is_addition_committed n \<and>
       node_id n' = node_id n \<and> next_idx n' = next_idx n \<and> match_idx n' = match_idx n \<and>
       raft_node_set_voting n' (\<not> v) = Some n"
proof (cases "raft_node_is_voting n = v")
  case False
  then have "node_put_voting (node_put_voting n v) (\<not> v) = n"
    using voting_flag.undo [of n] by (cases v) auto
  with False show ?thesis
    by (auto simp: raft_node_set_voting_eq flag_laws)
qed (simp add: raft_node_set_voting_eq)

end
