(* ===== verification/Raft_State.thy ===== *)
theory Raft_State
  imports Raft_Log_Buffer Raft_Node
begin

text \<open>
  The server record (\<open>raft_server_private_t\<close> in \<open>raft/raft/raft_private.h\<close>) and its accessors
  (\<open>raft_server_properties.c\<close>).  Peers are heap objects referred to by pointers (\<open>nodes\<close>, \<open>node\<close>,
  \<open>current_leader\<close>), so the state holds a store from addresses to nodes: a null pointer is \<open>None\<close>, and
  following a pointer to an object that was freed has no result.  \<open>next_addr\<close> is the next address the
  allocator hands out, so a freed address is not used again.  \<open>hist\<close> is the history of calls out of the
  library and \<open>env\<close> the allocator and \<open>rand()\<close>; the opaque \<open>udata\<close> pointers are not part of the state.
\<close>

record raft_server =
  current_term :: raft_term
  voted_for :: raft_node_id
  rlog :: log_private
  commit_idx :: raft_index
  last_applied_idx :: raft_index
  rstate :: raft_state_e
  timeout_elapsed :: int
  nodes :: "addr list"
  election_timeout :: int
  election_timeout_rand :: int
  request_timeout :: int
  current_leader :: "addr option"
  cb :: raft_cbs
  my_node :: "addr option"
  voting_cfg_change_log_idx :: raft_index
  connected :: raft_node_status
  snapshot_in_progress :: bool
  snapshot_flags :: int
  snapshot_last_idx :: raft_index
  snapshot_last_term :: raft_term
  saved_snapshot_last_idx :: raft_index
  saved_snapshot_last_term :: raft_term
  heap :: "addr \<rightharpoonup> raft_node"
  next_addr :: addr
  hist :: history
  env :: raft_env

definition emit :: "event \<Rightarrow> raft_server \<Rightarrow> raft_server" where
  "emit e s = s\<lparr>hist := hist s @ [e]\<rparr>"

text \<open>Read and write a node through a pointer that is not null.\<close>

definition node_at :: "raft_server \<Rightarrow> addr \<Rightarrow> raft_node option" where
  "node_at s a = heap s a"

definition update_node :: "addr \<Rightarrow> (raft_node \<Rightarrow> raft_node) \<Rightarrow> raft_server \<Rightarrow> raft_server option" where
  "update_node a f s = do { n \<leftarrow> node_at s a; Some (s\<lparr>heap := (heap s)(a \<mapsto> f n)\<rparr>) }"

definition update_node_asserting ::
  "addr \<Rightarrow> (raft_node \<Rightarrow> raft_node option) \<Rightarrow> raft_server \<Rightarrow> raft_server option" where
  "update_node_asserting a f s =
     do { n \<leftarrow> node_at s a; n' \<leftarrow> f n; Some (s\<lparr>heap := (heap s)(a \<mapsto> n')\<rparr>) }"

section \<open>Time and randomness\<close>

definition raft_randomize_election_timeout :: "raft_server \<Rightarrow> raft_server option" where
  "raft_randomize_election_timeout me = do {
     let r = env_rand (env me) (hist me);
     let me = emit (Ev_rand r) me;
     k \<leftarrow> c_rem (int r) (election_timeout me);
     Some (me\<lparr>election_timeout_rand := election_timeout me + k\<rparr>)
   }"

definition raft_set_election_timeout :: "int \<Rightarrow> raft_server \<Rightarrow> raft_server option" where
  "raft_set_election_timeout millisec me =
     raft_randomize_election_timeout (me\<lparr>election_timeout := millisec\<rparr>)"

definition raft_set_request_timeout :: "int \<Rightarrow> raft_server \<Rightarrow> raft_server" where
  "raft_set_request_timeout millisec me = me\<lparr>request_timeout := millisec\<rparr>"

definition raft_get_election_timeout :: "raft_server \<Rightarrow> int" where
  "raft_get_election_timeout me = election_timeout me"

definition raft_get_request_timeout :: "raft_server \<Rightarrow> int" where
  "raft_get_request_timeout me = request_timeout me"

definition raft_get_timeout_elapsed :: "raft_server \<Rightarrow> int" where
  "raft_get_timeout_elapsed me = timeout_elapsed me"

section \<open>Nodes\<close>

definition raft_get_nodeid :: "raft_server \<Rightarrow> raft_node_id option" where
  "raft_get_nodeid me =
     (case my_node me of None \<Rightarrow> Some (- 1)
      | Some a \<Rightarrow> do { n \<leftarrow> node_at me a; Some (raft_node_get_id n) })"

definition raft_get_num_nodes :: "raft_server \<Rightarrow> int" where
  "raft_get_num_nodes me = int (length (nodes me))"

text \<open>
  The counting loops over \<open>nodes\<close>: \<open>skip\<close> is the pointer that the loop compares with before it looks
  into a node.
\<close>

fun count_nodes :: "(raft_node \<Rightarrow> bool) \<Rightarrow> addr option \<Rightarrow> raft_server \<Rightarrow> addr list \<Rightarrow> int option" where
  "count_nodes P skip me [] = Some 0"
| "count_nodes P skip me (a # as) =
     (if skip = Some a then count_nodes P skip me as
      else do {
        n \<leftarrow> node_at me a;
        k \<leftarrow> count_nodes P skip me as;
        Some (if P n then k + 1 else k)
      })"

definition raft_get_num_voting_nodes :: "raft_server \<Rightarrow> int option" where
  "raft_get_num_voting_nodes me =
     count_nodes (\<lambda>n. raft_node_is_active n \<and> raft_node_is_voting n) None me (nodes me)"

fun find_node :: "raft_server \<Rightarrow> raft_node_id \<Rightarrow> addr list \<Rightarrow> addr option option" where
  "find_node me nodeid [] = Some None"
| "find_node me nodeid (a # as) = do {
     n \<leftarrow> node_at me a;
     if nodeid = raft_node_get_id n then Some (Some a) else find_node me nodeid as
   }"

definition raft_get_node :: "raft_server \<Rightarrow> raft_node_id \<Rightarrow> addr option option" where
  "raft_get_node me nodeid = find_node me nodeid (nodes me)"

text \<open>The loop of \<open>raft_get_my_node\<close> asks for its own id only when there is a node to compare with.\<close>

definition raft_get_my_node :: "raft_server \<Rightarrow> addr option option" where
  "raft_get_my_node me =
     (if nodes me = [] then Some None
      else do { nodeid \<leftarrow> raft_get_nodeid me; find_node me nodeid (nodes me) })"

definition raft_get_node_from_idx :: "raft_server \<Rightarrow> raft_index \<Rightarrow> addr option" where
  "raft_get_node_from_idx me idx = (if 0 \<le> idx then array_get (nodes me) (nat idx) else None)"

text \<open>Whether the node behind a pointer votes; a null pointer has no answer.\<close>

definition is_voting_ptr :: "raft_server \<Rightarrow> addr option \<Rightarrow> bool option" where
  "is_voting_ptr me p = do { a \<leftarrow> p; n \<leftarrow> node_at me a; Some (raft_node_is_voting n) }"

definition raft_get_current_leader :: "raft_server \<Rightarrow> raft_node_id option" where
  "raft_get_current_leader me =
     (case current_leader me of None \<Rightarrow> Some (- 1)
      | Some a \<Rightarrow> do { n \<leftarrow> node_at me a; Some (raft_node_get_id n) })"

definition raft_get_current_leader_node :: "raft_server \<Rightarrow> addr option" where
  "raft_get_current_leader_node me = current_leader me"

section \<open>Terms, indices, states\<close>

definition raft_get_log_count :: "raft_server \<Rightarrow> raft_index" where
  "raft_get_log_count me = log_count (rlog me)"

definition raft_get_voted_for :: "raft_server \<Rightarrow> raft_node_id" where
  "raft_get_voted_for me = voted_for me"

definition raft_set_current_term :: "raft_term \<Rightarrow> raft_server \<Rightarrow> (int \<times> raft_server) option" where
  "raft_set_current_term term me =
     (if current_term me < term
      then case cb_persist_term (cb me) of
          None \<Rightarrow> Some (0, me\<lparr>current_term := term, voted_for := - 1\<rparr>)
        | Some f \<Rightarrow>
            (let e = f (hist me) term (- 1); me = emit (Ev_persist_term term (- 1) e) me
             in if e \<noteq> 0 then Some (e, me)
                else Some (0, me\<lparr>current_term := term, voted_for := - 1\<rparr>))
      else Some (0, me))"

definition raft_get_current_term :: "raft_server \<Rightarrow> raft_term" where
  "raft_get_current_term me = current_term me"

definition raft_get_current_idx :: "raft_server \<Rightarrow> raft_index" where
  "raft_get_current_idx me = log_get_current_idx (rlog me)"

definition raft_get_commit_idx :: "raft_server \<Rightarrow> raft_index" where
  "raft_get_commit_idx me = commit_idx me"

definition raft_set_commit_idx :: "raft_index \<Rightarrow> raft_server \<Rightarrow> raft_server option" where
  "raft_set_commit_idx idx me = do {
     C_assert (commit_idx me \<le> idx);
     C_assert (idx \<le> raft_get_current_idx me);
     Some (me\<lparr>commit_idx := idx\<rparr>)
   }"

definition raft_set_last_applied_idx :: "raft_index \<Rightarrow> raft_server \<Rightarrow> raft_server" where
  "raft_set_last_applied_idx idx me = me\<lparr>last_applied_idx := idx\<rparr>"

definition raft_get_last_applied_idx :: "raft_server \<Rightarrow> raft_index" where
  "raft_get_last_applied_idx me = last_applied_idx me"

definition raft_set_state :: "raft_state_e \<Rightarrow> raft_server \<Rightarrow> raft_server" where
  "raft_set_state st me =
     (let me = (if st = RAFT_STATE_LEADER then me\<lparr>current_leader := my_node me\<rparr> else me)
      in me\<lparr>rstate := st\<rparr>)"

definition raft_get_state :: "raft_server \<Rightarrow> raft_state_e" where
  "raft_get_state me = rstate me"

definition raft_is_follower :: "raft_server \<Rightarrow> bool" where
  "raft_is_follower me \<longleftrightarrow> raft_get_state me = RAFT_STATE_FOLLOWER"

definition raft_is_leader :: "raft_server \<Rightarrow> bool" where
  "raft_is_leader me \<longleftrightarrow> raft_get_state me = RAFT_STATE_LEADER"

definition raft_is_candidate :: "raft_server \<Rightarrow> bool" where
  "raft_is_candidate me \<longleftrightarrow> raft_get_state me = RAFT_STATE_CANDIDATE"

definition raft_get_entry_from_idx :: "raft_server \<Rightarrow> raft_index \<Rightarrow> raft_entry option option" where
  "raft_get_entry_from_idx me etyidx = log_get_at_idx (rlog me) etyidx"

definition raft_get_entries_from_idx ::
  "raft_server \<Rightarrow> raft_index \<Rightarrow> (int \<times> raft_entry list option) option" where
  "raft_get_entries_from_idx me idx = log_get_from_idx (rlog me) idx"

definition raft_get_last_log_term :: "raft_server \<Rightarrow> raft_term option" where
  "raft_get_last_log_term me =
     (let current_idx = raft_get_current_idx me
      in if 0 < current_idx
         then do {
           ety \<leftarrow> raft_get_entry_from_idx me current_idx;
           Some (case ety of Some e \<Rightarrow> ety_term e | None \<Rightarrow> 0)
         }
         else Some 0)"

definition raft_is_connected :: "raft_server \<Rightarrow> raft_node_status" where
  "raft_is_connected me = connected me"

definition raft_snapshot_is_in_progress :: "raft_server \<Rightarrow> bool" where
  "raft_snapshot_is_in_progress me \<longleftrightarrow> snapshot_in_progress me"

definition RAFT_SNAPSHOT_NONBLOCKING_APPLY :: int where "RAFT_SNAPSHOT_NONBLOCKING_APPLY = 1"

definition raft_is_apply_allowed :: "raft_server \<Rightarrow> bool" where
  "raft_is_apply_allowed me \<longleftrightarrow>
     \<not> raft_snapshot_is_in_progress me \<or> snapshot_flags me AND RAFT_SNAPSHOT_NONBLOCKING_APPLY \<noteq> 0"

definition raft_get_last_applied_entry :: "raft_server \<Rightarrow> raft_entry option option" where
  "raft_get_last_applied_entry me =
     (if raft_get_last_applied_idx me = 0 then Some None
      else log_get_at_idx (rlog me) (raft_get_last_applied_idx me))"

definition raft_get_snapshot_last_idx :: "raft_server \<Rightarrow> raft_index" where
  "raft_get_snapshot_last_idx me = snapshot_last_idx me"

definition raft_get_snapshot_last_term :: "raft_server \<Rightarrow> raft_term" where
  "raft_get_snapshot_last_term me = snapshot_last_term me"

definition raft_set_snapshot_metadata ::
  "raft_term \<Rightarrow> raft_index \<Rightarrow> raft_server \<Rightarrow> raft_server" where
  "raft_set_snapshot_metadata term idx me =
     me\<lparr>saved_snapshot_last_term := snapshot_last_term me,
        saved_snapshot_last_idx := snapshot_last_idx me,
        snapshot_last_term := term,
        snapshot_last_idx := idx\<rparr>"

definition raft_voting_change_is_in_progress :: "raft_server \<Rightarrow> bool" where
  "raft_voting_change_is_in_progress me \<longleftrightarrow> voting_cfg_change_log_idx me \<noteq> - 1"

lemmas raft_getter_defs = raft_get_election_timeout_def raft_get_request_timeout_def
  raft_get_timeout_elapsed_def raft_get_num_nodes_def raft_get_log_count_def raft_get_voted_for_def
  raft_get_current_term_def raft_get_commit_idx_def
  raft_get_last_applied_idx_def raft_get_state_def raft_is_follower_def raft_is_leader_def
  raft_is_candidate_def raft_is_connected_def raft_snapshot_is_in_progress_def
  raft_get_snapshot_last_idx_def raft_get_snapshot_last_term_def
  raft_get_current_leader_node_def

section \<open>What a step may change\<close>

text \<open>
  Three layers of guarantees, each a preorder on server states: nothing but the history changes
  (\<open>only_hist\<close>, sending messages); nothing but the history and the peers (\<open>only_nodes\<close>, membership);
  the term, the vote, the log, the commit and apply indices and the snapshot stay (\<open>quiet\<close>).  In all
  three the calls made are not ones that persist a term or a vote, or apply an entry.
\<close>

fun quiet_event :: "event \<Rightarrow> bool" where
  "quiet_event (Ev_persist_vote v e) = False"
| "quiet_event (Ev_persist_term t v e) = False"
| "quiet_event (Ev_applylog ety i e) = False"
| "quiet_event _ = True"

definition quiet_ext :: "history \<Rightarrow> history \<Rightarrow> bool" where
  "quiet_ext h h' \<longleftrightarrow> (\<exists>evs. h' = h @ evs \<and> list_all quiet_event evs)"

definition strip_hist :: "raft_server \<Rightarrow> raft_server" where
  "strip_hist s = s\<lparr>hist := []\<rparr>"

definition only_hist :: "raft_server \<Rightarrow> raft_server \<Rightarrow> bool" where
  "only_hist s s' \<longleftrightarrow> strip_hist s' = strip_hist s \<and> quiet_ext (hist s) (hist s')"

definition core :: "raft_server \<Rightarrow> raft_server" where
  "core s = s\<lparr>nodes := [], my_node := None, heap := Map.empty, next_addr := 0, hist := []\<rparr>"

definition only_nodes :: "raft_server \<Rightarrow> raft_server \<Rightarrow> bool" where
  "only_nodes s s' \<longleftrightarrow> core s' = core s \<and> quiet_ext (hist s) (hist s')"

definition quiet :: "raft_server \<Rightarrow> raft_server \<Rightarrow> bool" where
  "quiet s s' \<longleftrightarrow> current_term s' = current_term s \<and> voted_for s' = voted_for s \<and>
     rlog s' = rlog s \<and> commit_idx s' = commit_idx s \<and> last_applied_idx s' = last_applied_idx s \<and>
     cb s' = cb s \<and> env s' = env s \<and> snapshot_in_progress s' = snapshot_in_progress s \<and>
     snapshot_last_idx s' = snapshot_last_idx s \<and> snapshot_last_term s' = snapshot_last_term s \<and>
     quiet_ext (hist s) (hist s')"

lemma quiet_ext_refl [simp]: "quiet_ext h h"
  by (simp add: quiet_ext_def)

lemma quiet_ext_trans: "quiet_ext h h' \<Longrightarrow> quiet_ext h' h'' \<Longrightarrow> quiet_ext h h''"
  by (auto simp: quiet_ext_def)

lemma quiet_ext_snoc [simp]: "quiet_event e \<Longrightarrow> quiet_ext h (h @ [e])"
  by (simp add: quiet_ext_def)

interpretation oh: preorder_guarantee only_hist
  by unfold_locales (auto simp: only_hist_def intro: quiet_ext_trans)

interpretation on: preorder_guarantee only_nodes
  by unfold_locales (auto simp: only_nodes_def intro: quiet_ext_trans)

interpretation qu: preorder_guarantee quiet
  by unfold_locales (auto simp: quiet_def intro: quiet_ext_trans)

lemma strip_hist_fields:
  "strip_hist s' = strip_hist s \<Longrightarrow>
     core s' = core s \<and> nodes s' = nodes s \<and> my_node s' = my_node s \<and> heap s' = heap s \<and>
     next_addr s' = next_addr s"
  by (cases s; cases s') (simp add: strip_hist_def core_def)

lemma core_fields:
  "core s' = core s \<Longrightarrow>
     current_term s' = current_term s \<and> voted_for s' = voted_for s \<and> rlog s' = rlog s \<and>
     commit_idx s' = commit_idx s \<and> last_applied_idx s' = last_applied_idx s \<and>
     rstate s' = rstate s \<and> timeout_elapsed s' = timeout_elapsed s \<and>
     election_timeout s' = election_timeout s \<and>
     election_timeout_rand s' = election_timeout_rand s \<and>
     request_timeout s' = request_timeout s \<and> current_leader s' = current_leader s \<and>
     cb s' = cb s \<and> voting_cfg_change_log_idx s' = voting_cfg_change_log_idx s \<and>
     connected s' = connected s \<and> snapshot_in_progress s' = snapshot_in_progress s \<and>
     snapshot_flags s' = snapshot_flags s \<and> snapshot_last_idx s' = snapshot_last_idx s \<and>
     snapshot_last_term s' = snapshot_last_term s \<and>
     saved_snapshot_last_idx s' = saved_snapshot_last_idx s \<and>
     saved_snapshot_last_term s' = saved_snapshot_last_term s \<and> env s' = env s"
  by (cases s; cases s') (simp add: core_def)

lemma only_hist_only_nodes: "only_hist s s' \<Longrightarrow> only_nodes s s'"
  by (auto simp: only_hist_def only_nodes_def dest: strip_hist_fields)

lemma only_nodes_quiet: "only_nodes s s' \<Longrightarrow> quiet s s'"
  by (auto simp: only_nodes_def quiet_def dest: core_fields)

lemma only_nodes_fields: "only_nodes s s' \<Longrightarrow> core s' = core s"
  by (simp add: only_nodes_def)

lemma only_hist_nodes:
  "only_hist s s' \<Longrightarrow>
     nodes s' = nodes s \<and> my_node s' = my_node s \<and> heap s' = heap s \<and> next_addr s' = next_addr s"
  by (auto simp: only_hist_def dest: strip_hist_fields)

lemma emit_fields [simp]:
  "core (emit e s) = core s" "hist (emit e s) = hist s @ [e]" "nodes (emit e s) = nodes s"
  "my_node (emit e s) = my_node s" "heap (emit e s) = heap s" "next_addr (emit e s) = next_addr s"
  "current_term (emit e s) = current_term s" "voted_for (emit e s) = voted_for s"
  "rlog (emit e s) = rlog s" "commit_idx (emit e s) = commit_idx s"
  "last_applied_idx (emit e s) = last_applied_idx s" "rstate (emit e s) = rstate s"
  "cb (emit e s) = cb s" "env (emit e s) = env s" "node_at (emit e s) = node_at s"
  "strip_hist (emit e s) = strip_hist s" "snapshot_in_progress (emit e s) = snapshot_in_progress s"
  "snapshot_last_idx (emit e s) = snapshot_last_idx s"
  "snapshot_last_term (emit e s) = snapshot_last_term s"
  by (simp_all add: emit_def core_def strip_hist_def node_at_def fun_eq_iff)

lemma only_hist_emit [intro]: "only_hist s t \<Longrightarrow> quiet_event e \<Longrightarrow> only_hist s (emit e t)"
  by (auto simp: only_hist_def intro: quiet_ext_trans)

lemma only_nodes_emit [intro]: "only_nodes s t \<Longrightarrow> quiet_event e \<Longrightarrow> only_nodes s (emit e t)"
  by (auto simp: only_nodes_def intro: quiet_ext_trans)

lemma quiet_emit [intro]: "quiet s t \<Longrightarrow> quiet_event e \<Longrightarrow> quiet s (emit e t)"
  by (auto simp: quiet_def intro: quiet_ext_trans)

lemma only_nodes_update [simp]:
  "only_nodes s (t\<lparr>heap := h\<rparr>) = only_nodes s t" "only_nodes s (t\<lparr>nodes := ns\<rparr>) = only_nodes s t"
  "only_nodes s (t\<lparr>my_node := p\<rparr>) = only_nodes s t"
  "only_nodes s (t\<lparr>next_addr := a\<rparr>) = only_nodes s t"
  "only_nodes (s\<lparr>heap := h\<rparr>) t = only_nodes s t" "only_nodes (s\<lparr>nodes := ns\<rparr>) t = only_nodes s t"
  "only_nodes (s\<lparr>my_node := p\<rparr>) t = only_nodes s t"
  "only_nodes (s\<lparr>next_addr := a\<rparr>) t = only_nodes s t"
  by (simp_all add: only_nodes_def core_def)

lemma quiet_update [simp]:
  "quiet s (t\<lparr>heap := h\<rparr>) = quiet s t"
  "quiet s (t\<lparr>nodes := ns\<rparr>) = quiet s t"
  "quiet s (t\<lparr>my_node := p\<rparr>) = quiet s t"
  "quiet s (t\<lparr>next_addr := a\<rparr>) = quiet s t"
  "quiet s (t\<lparr>rstate := st\<rparr>) = quiet s t"
  "quiet s (t\<lparr>timeout_elapsed := n\<rparr>) = quiet s t"
  "quiet s (t\<lparr>current_leader := p\<rparr>) = quiet s t"
  "quiet s (t\<lparr>election_timeout := n\<rparr>) = quiet s t"
  "quiet s (t\<lparr>election_timeout_rand := n\<rparr>) = quiet s t"
  "quiet s (t\<lparr>request_timeout := n\<rparr>) = quiet s t"
  "quiet s (t\<lparr>voting_cfg_change_log_idx := i\<rparr>) = quiet s t"
  "quiet s (t\<lparr>connected := c\<rparr>) = quiet s t"
  "quiet s (t\<lparr>snapshot_flags := n\<rparr>) = quiet s t"
  "quiet s (t\<lparr>saved_snapshot_last_idx := i\<rparr>) = quiet s t"
  "quiet s (t\<lparr>saved_snapshot_last_term := i\<rparr>) = quiet s t"
  "quiet (s\<lparr>heap := h\<rparr>) t = quiet s t"
  "quiet (s\<lparr>nodes := ns\<rparr>) t = quiet s t"
  "quiet (s\<lparr>my_node := p\<rparr>) t = quiet s t"
  "quiet (s\<lparr>next_addr := a\<rparr>) t = quiet s t"
  "quiet (s\<lparr>rstate := st\<rparr>) t = quiet s t"
  "quiet (s\<lparr>timeout_elapsed := n\<rparr>) t = quiet s t"
  "quiet (s\<lparr>current_leader := p\<rparr>) t = quiet s t"
  "quiet (s\<lparr>election_timeout := n\<rparr>) t = quiet s t"
  "quiet (s\<lparr>election_timeout_rand := n\<rparr>) t = quiet s t"
  "quiet (s\<lparr>request_timeout := n\<rparr>) t = quiet s t"
  "quiet (s\<lparr>voting_cfg_change_log_idx := i\<rparr>) t = quiet s t"
  "quiet (s\<lparr>connected := c\<rparr>) t = quiet s t"
  "quiet (s\<lparr>snapshot_flags := n\<rparr>) t = quiet s t"
  "quiet (s\<lparr>saved_snapshot_last_idx := i\<rparr>) t = quiet s t"
  "quiet (s\<lparr>saved_snapshot_last_term := i\<rparr>) t = quiet s t"
  by (simp_all add: quiet_def)

lemmas reader_rules =
  ensuresI [where m = "node_at s a" for s a]
  ensuresI [where m = "raft_get_node s i" for s i]
  ensuresI [where m = "raft_get_my_node s" for s]
  ensuresI [where m = "raft_get_nodeid s" for s]
  ensuresI [where m = "raft_get_num_voting_nodes s" for s]
  ensuresI [where m = "is_voting_ptr s p" for s p]
  ensuresI [where m = "count_nodes P k s as" for P k s as]
  ensuresI [where m = "raft_get_entry_from_idx s i" for s i]
  ensuresI [where m = "raft_get_entries_from_idx s i" for s i]
  ensuresI [where m = "raft_get_last_log_term s" for s]
  ensuresI [where m = "c_rem i j" for i j]
  ensuresI [where m = "array_get xs i" for xs i]

lemma update_node_only_nodes: "ensures (update_node a f s) (only_nodes s)"
  by (auto simp: update_node_def run_simps on.R_refl intro!: reader_rules)

lemma update_node_asserting_only_nodes: "ensures (update_node_asserting a f s) (only_nodes s)"
  by (auto simp: update_node_asserting_def run_simps on.R_refl
      intro!: reader_rules ensuresI [where m = "f n" for n])

lemmas update_node_rules =
  update_node_only_nodes [THEN ensures_state_rule]
  update_node_asserting_only_nodes [THEN ensures_state_rule]

lemma node_at_only_hist: "only_hist s s' \<Longrightarrow> node_at s' a = node_at s a"
  by (auto simp: node_at_def dest: only_hist_nodes)

end
