(* ===== verification/Raft_Membership.thy ===== *)
theory Raft_Membership
  imports Raft_State
begin

text \<open>
  Adding and removing peers, and what a configuration entry does to them when it is put into the log
  (\<open>raft_offer_log\<close>) and when it is taken back from the tail (\<open>raft_pop_log\<close>); all from
  \<open>raft/raft/raft_server.c\<close>.  Allocations may fail.
\<close>

definition heap_request :: "nat \<Rightarrow> raft_server \<Rightarrow> bool \<times> raft_server" where
  "heap_request bytes me =
     (let ok = env_alloc (env me) (hist me) bytes in (ok, emit (Ev_alloc bytes ok) me))"

text \<open>\<open>raft_node_new\<close> with its allocation, and \<open>raft_node_free\<close>; freeing twice has no result.\<close>

definition alloc_node :: "nat \<Rightarrow> raft_node_id \<Rightarrow> raft_server \<Rightarrow> addr option \<times> raft_server" where
  "alloc_node udata i me =
     (case heap_request 32 me of (ok, me) \<Rightarrow>
       if ok
       then (Some (next_addr me),
             me\<lparr>heap := (heap me)(next_addr me \<mapsto> raft_node_new udata i),
                next_addr := next_addr me + 1\<rparr>)
       else (None, me))"

definition raft_node_free :: "addr \<Rightarrow> raft_server \<Rightarrow> raft_server option" where
  "raft_node_free a me = do { n \<leftarrow> node_at me a; Some (me\<lparr>heap := (heap me)(a := None)\<rparr>) }"

definition notify_membership_event ::
  "addr option \<Rightarrow> raft_entry option \<Rightarrow> raft_membership_e \<Rightarrow> raft_server \<Rightarrow> raft_server" where
  "notify_membership_event p ety t me =
     (case cb_notify_membership_event (cb me) of None \<Rightarrow> me
      | Some f \<Rightarrow> emit (Ev_membership p ety t) me)"

definition raft_add_node_internal ::
  "raft_entry option \<Rightarrow> nat \<Rightarrow> raft_node_id \<Rightarrow> bool \<Rightarrow> raft_server
    \<Rightarrow> (addr option \<times> raft_server) option" where
  "raft_add_node_internal ety udata i is_self me = do {
     node \<leftarrow> raft_get_node me i;
     case node of
       Some a \<Rightarrow> do {
         n \<leftarrow> node_at me a;
         if \<not> raft_node_is_voting n
         then do {
           me \<leftarrow> update_node_asserting a (\<lambda>n. raft_node_set_voting n True) me;
           Some (Some a, me)
         }
         else Some (None, me)
       }
     | None \<Rightarrow> (case alloc_node udata i me of
         (None, me) \<Rightarrow> Some (None, me)
       | (Some a, me) \<Rightarrow>
           (case heap_request (8 * (length (nodes me) + 1)) me of (ok, me) \<Rightarrow>
             if \<not> ok then do { me \<leftarrow> raft_node_free a me; Some (None, me) }
             else do {
               let me = me\<lparr>nodes := nodes me @ [a]\<rparr>;
               let me = (if is_self then me\<lparr>my_node := Some a\<rparr> else me);
               Some (Some a, notify_membership_event (Some a) ety RAFT_MEMBERSHIP_ADD me)
             }))
   }"

definition raft_add_node ::
  "nat \<Rightarrow> raft_node_id \<Rightarrow> bool \<Rightarrow> raft_server \<Rightarrow> (addr option \<times> raft_server) option" where
  "raft_add_node udata i is_self me = raft_add_node_internal None udata i is_self me"

definition raft_add_non_voting_node_internal ::
  "raft_entry option \<Rightarrow> nat \<Rightarrow> raft_node_id \<Rightarrow> bool \<Rightarrow> raft_server
    \<Rightarrow> (addr option \<times> raft_server) option" where
  "raft_add_non_voting_node_internal ety udata i is_self me = do {
     found \<leftarrow> raft_get_node me i;
     if found \<noteq> None then Some (None, me)
     else do {
       (node, me) \<leftarrow> raft_add_node_internal ety udata i is_self me;
       case node of
         None \<Rightarrow> Some (None, me)
       | Some a \<Rightarrow> do {
           me \<leftarrow> update_node_asserting a (\<lambda>n. raft_node_set_voting n False) me;
           Some (Some a, me)
         }
     }
   }"

definition raft_add_non_voting_node ::
  "nat \<Rightarrow> raft_node_id \<Rightarrow> bool \<Rightarrow> raft_server \<Rightarrow> (addr option \<times> raft_server) option" where
  "raft_add_non_voting_node udata i is_self me =
     raft_add_non_voting_node_internal None udata i is_self me"

text \<open>The callback comes first, before the pointer is checked, as in the code.\<close>

definition raft_remove_node :: "addr option \<Rightarrow> raft_server \<Rightarrow> raft_server option" where
  "raft_remove_node node me = do {
     let me = notify_membership_event node None RAFT_MEMBERSHIP_REMOVE me;
     C_assert (node \<noteq> None);
     a \<leftarrow> node;
     C_assert (a \<in> set (nodes me));
     let me = me\<lparr>nodes := remove1 a (nodes me)\<rparr>;
     raft_node_free a me
   }"

definition call_log_get_node_id ::
  "raft_entry \<Rightarrow> raft_index \<Rightarrow> raft_server \<Rightarrow> (raft_node_id \<times> raft_server) option" where
  "call_log_get_node_id ety idx me = do {
     f \<leftarrow> cb_log_get_node_id (cb me);
     let i = f (hist me) ety idx;
     Some (i, emit (Ev_log_get_node_id ety idx i) me)
   }"

definition raft_offer_log :: "raft_entry \<Rightarrow> raft_index \<Rightarrow> raft_server \<Rightarrow> raft_server option" where
  "raft_offer_log ety idx me =
     (if \<not> raft_entry_is_cfg_change ety then Some me
      else do {
        (i, me) \<leftarrow> call_log_get_node_id ety idx me;
        node \<leftarrow> raft_get_node me i;
        self \<leftarrow> raft_get_nodeid me;
        let is_self = (i = self);
        case ety_type ety of
          RAFT_LOGTYPE_ADD_NONVOTING_NODE \<Rightarrow>
            if is_self then Some me
            else (case node of
                Some a \<Rightarrow> do {
                  n \<leftarrow> node_at me a;
                  if \<not> raft_node_is_active n
                  then update_node a (\<lambda>n. raft_node_set_active n True) me
                  else Some me
                }
              | None \<Rightarrow> do {
                  (node, me) \<leftarrow> raft_add_non_voting_node_internal (Some ety) 0 i is_self me;
                  C_assert (node \<noteq> None);
                  Some me
                })
        | RAFT_LOGTYPE_ADD_NODE \<Rightarrow> do {
            (node, me) \<leftarrow> raft_add_node_internal (Some ety) 0 i is_self me;
            C_assert (node \<noteq> None);
            v \<leftarrow> is_voting_ptr me node;
            C_assert v;
            Some me
          }
        | RAFT_LOGTYPE_DEMOTE_NODE \<Rightarrow>
            (case node of None \<Rightarrow> Some me
             | Some a \<Rightarrow> update_node_asserting a (\<lambda>n. raft_node_set_voting n False) me)
        | RAFT_LOGTYPE_REMOVE_NODE \<Rightarrow>
            (case node of None \<Rightarrow> Some me
             | Some a \<Rightarrow> update_node a (\<lambda>n. raft_node_set_active n False) me)
        | _ \<Rightarrow> None
      })"

definition raft_pop_log :: "raft_entry \<Rightarrow> raft_index \<Rightarrow> raft_server \<Rightarrow> raft_server option" where
  "raft_pop_log ety idx me =
     (if \<not> raft_entry_is_cfg_change ety then Some me
      else do {
        (i, me) \<leftarrow> call_log_get_node_id ety idx me;
        case ety_type ety of
          RAFT_LOGTYPE_DEMOTE_NODE \<Rightarrow> do {
            node \<leftarrow> raft_get_node me i;
            a \<leftarrow> node;
            update_node_asserting a (\<lambda>n. raft_node_set_voting n True) me
          }
        | RAFT_LOGTYPE_REMOVE_NODE \<Rightarrow> do {
            node \<leftarrow> raft_get_node me i;
            a \<leftarrow> node;
            update_node a (\<lambda>n. raft_node_set_active n True) me
          }
        | RAFT_LOGTYPE_ADD_NONVOTING_NODE \<Rightarrow> do {
            self \<leftarrow> raft_get_nodeid me;
            node \<leftarrow> raft_get_node me i;
            me \<leftarrow> raft_remove_node node me;
            C_assert (i \<noteq> self);
            Some me
          }
        | RAFT_LOGTYPE_ADD_NODE \<Rightarrow> do {
            node \<leftarrow> raft_get_node me i;
            a \<leftarrow> node;
            update_node_asserting a (\<lambda>n. raft_node_set_voting n False) me
          }
        | _ \<Rightarrow> None
      })"

section \<open>What membership operations leave alone\<close>

lemma heap_request_only_hist: "heap_request b s = (ok, s') \<Longrightarrow> only_hist s s'"
  by (auto simp: heap_request_def Let_def oh.R_refl)

lemma heap_request_only_nodes: "heap_request b s = (ok, s') \<Longrightarrow> only_nodes s s'"
  by (blast dest: heap_request_only_hist only_hist_only_nodes)

lemma alloc_node_only_nodes: "alloc_node u i s = (p, s') \<Longrightarrow> only_nodes s s'"
  by (auto simp: alloc_node_def split: prod.splits if_splits dest!: heap_request_only_nodes)

lemma notify_only_nodes [intro]:
  "only_nodes s t \<Longrightarrow> only_nodes s (notify_membership_event p ety ty t)"
  by (auto simp: notify_membership_event_def split: option.split)

lemma raft_node_free_only_nodes: "ensures (raft_node_free a s) (only_nodes s)"
  by (auto simp: raft_node_free_def run_simps on.R_refl intro!: reader_rules)

lemmas raft_node_free_rule = raft_node_free_only_nodes [THEN ensures_state_rule]

lemma raft_add_node_internal_only_nodes:
  "ensures (raft_add_node_internal ety u i self s) (\<lambda>(r, s'). only_nodes s s')"
  unfolding raft_add_node_internal_def
  by (auto simp: run_simps Let_def on.R_refl split: prod.splits option.splits
      intro!: reader_rules update_node_rules raft_node_free_rule notify_only_nodes
      dest!: alloc_node_only_nodes heap_request_only_nodes
      intro: on.R_trans)

lemmas raft_add_node_internal_rule = raft_add_node_internal_only_nodes [THEN ensures_pair_rule]

lemma raft_add_node_only_nodes: "ensures (raft_add_node u i self s) (\<lambda>(r, s'). only_nodes s s')"
  unfolding raft_add_node_def by (rule raft_add_node_internal_only_nodes)

lemma raft_add_non_voting_node_internal_only_nodes:
  "ensures (raft_add_non_voting_node_internal ety u i self s) (\<lambda>(r, s'). only_nodes s s')"
  unfolding raft_add_non_voting_node_internal_def
  by (auto simp: run_simps on.R_refl split: prod.splits option.splits
      intro!: reader_rules update_node_rules raft_add_node_internal_rule intro: on.R_trans)

lemmas raft_add_non_voting_node_internal_rule =
  raft_add_non_voting_node_internal_only_nodes [THEN ensures_pair_rule]

lemma raft_add_non_voting_node_only_nodes:
  "ensures (raft_add_non_voting_node u i self s) (\<lambda>(r, s'). only_nodes s s')"
  unfolding raft_add_non_voting_node_def by (rule raft_add_non_voting_node_internal_only_nodes)

lemma raft_remove_node_only_nodes: "ensures (raft_remove_node p s) (only_nodes s)"
  unfolding raft_remove_node_def
  by (auto simp: run_simps Let_def on.R_refl intro!: raft_node_free_rule notify_only_nodes
      intro!: ensuresI [where m = p] intro: on.R_trans [OF notify_only_nodes [OF on.R_refl]])

lemmas raft_remove_node_rule = raft_remove_node_only_nodes [THEN ensures_state_rule]

lemma call_log_get_node_id_only_hist:
  "ensures (call_log_get_node_id ety idx s) (\<lambda>(i, s'). only_hist s s')"
  unfolding call_log_get_node_id_def
  by (auto simp: run_simps Let_def oh.R_refl intro!: ensuresI [where m = "cb_log_get_node_id c" for c])

lemma call_log_get_node_id_only_nodes:
  "ensures (call_log_get_node_id ety idx s) (\<lambda>(i, s'). only_nodes s s')"
  using call_log_get_node_id_only_hist by (auto simp: ensures_def intro: only_hist_only_nodes)

lemmas call_log_get_node_id_rule = call_log_get_node_id_only_nodes [THEN ensures_pair_rule]

lemma raft_offer_log_only_nodes: "ensures (raft_offer_log ety idx s) (only_nodes s)"
  unfolding raft_offer_log_def
  by (auto simp: run_simps Let_def on.R_refl split: raft_logtype_e.splits option.splits
      intro!: reader_rules update_node_rules call_log_get_node_id_rule raft_add_node_internal_rule
        raft_add_non_voting_node_internal_rule intro: on.R_trans)

lemma raft_pop_log_only_nodes: "ensures (raft_pop_log ety idx s) (only_nodes s)"
  unfolding raft_pop_log_def
  by (auto simp: run_simps Let_def on.R_refl split: raft_logtype_e.splits
      intro!: reader_rules update_node_rules call_log_get_node_id_rule raft_remove_node_rule
        ensuresI [where m = "p :: addr option" for p] intro: on.R_trans)

lemmas raft_offer_log_rule = raft_offer_log_only_nodes [THEN ensures_state_rule]
lemmas raft_pop_log_rule = raft_pop_log_only_nodes [THEN ensures_state_rule]

end
