(* ===== verification/Raft_Log.thy ===== *)
theory Raft_Log
  imports Raft_Membership
begin

text \<open>
  The operations of \<open>raft/raft/raft_log.c\<close> that allocate or call back.  The log holds pointers to the
  callbacks and to the server (\<open>log_set_callbacks\<close>), and \<open>log_append_entry\<close> and \<open>log_delete\<close> call
  \<open>raft_offer_log\<close> and \<open>raft_pop_log\<close> on it, so these operations act on the whole server state.
\<close>

definition sizeof_raft_entry :: nat where "sizeof_raft_entry = 32"

definition ensurecapacity :: "raft_server \<Rightarrow> (int \<times> raft_server) option" where
  "ensurecapacity s =
     (let me = rlog s in
      if lp_count me < lp_size me then Some (0, s)
      else (case heap_request (sizeof_raft_entry * lp_size me * 2) s of (ok, s) \<Rightarrow>
        if \<not> ok then Some (RAFT_ERR_NOMEM, s)
        else do {
          temp \<leftarrow> ensurecapacity_copy 0 (lp_front me) me (replicate (lp_size me * 2) zero_entry);
          Some (0, s\<lparr>rlog := me\<lparr>lp_size := lp_size me * 2, lp_entries := temp, lp_front := 0,
                        lp_back := lp_count me\<rparr>\<rparr>)
        }))"

text \<open>The guard \<open>me->cb && me->cb->f\<close> for a callback \<open>f\<close>.\<close>

definition log_callback :: "raft_server \<Rightarrow> (raft_cbs \<Rightarrow> 'f option) \<Rightarrow> 'f option" where
  "log_callback s sel = (if lp_cb (rlog s) then sel (cb s) else None)"

definition log_append_entry :: "raft_entry \<Rightarrow> raft_server \<Rightarrow> (int \<times> raft_server) option" where
  "log_append_entry ety s = do {
     let idx = lp_base (rlog s) + log_count (rlog s) + 1;
     (e, s) \<leftarrow> ensurecapacity s;
     if e \<noteq> 0 then Some (e, s)
     else do {
       l \<leftarrow> log_store ety (rlog s);
       let s = s\<lparr>rlog := l\<rparr>;
       (e, s) \<leftarrow> (case log_callback s cb_log_offer of
           None \<Rightarrow> Some (0, s)
         | Some f \<Rightarrow>
             (case f (hist s) ety idx of (e, d) \<Rightarrow> do {
               let s = emit (Ev_log_offer ety idx e) s;
               let stored = ety\<lparr>ety_data := d\<rparr>;
               l \<leftarrow> log_store stored (rlog s);
               let s = s\<lparr>rlog := l\<rparr>;
               if e \<noteq> 0 then Some (e, s)
               else do { s \<leftarrow> raft_offer_log stored idx s; Some (0, s) }
             }));
       if e \<noteq> 0 then Some (e, s)
       else do {
         l \<leftarrow> log_advance_back (rlog s);
         Some (0, s\<lparr>rlog := l\<rparr>)
       }
     }
   }"

text \<open>
  \<open>raft_pop_log\<close> on the server the log points to: without \<open>log_set_callbacks\<close> that pointer is null,
  which matters for configuration entries only.
\<close>

definition log_pop_hook :: "raft_entry \<Rightarrow> raft_index \<Rightarrow> raft_server \<Rightarrow> raft_server option" where
  "log_pop_hook ety idx s =
     (if \<not> lp_cb (rlog s) \<and> raft_entry_is_cfg_change ety then None else raft_pop_log ety idx s)"

text \<open>One round of the loop of \<open>log_delete\<close>, up to the callback's verdict.\<close>

definition log_delete_youngest :: "raft_server \<Rightarrow> (int \<times> raft_server) option" where
  "log_delete_youngest s = do {
     let me = rlog s;
     let idx_tmp = lp_base me + log_count me;
     back \<leftarrow> log_mod (int (lp_back me) - 1) (int (lp_size me));
     ety \<leftarrow> array_get (lp_entries me) (nat back);
     (e, s) \<leftarrow> (case log_callback s cb_log_pop of
         None \<Rightarrow> Some (0, s)
       | Some f \<Rightarrow> (let e = f (hist s) ety idx_tmp in Some (e, emit (Ev_log_pop ety idx_tmp e) s)));
     if e \<noteq> 0 then Some (e, s)
     else do {
       s \<leftarrow> log_pop_hook ety idx_tmp s;
       Some (0, s\<lparr>rlog := log_retreat_back (nat back) (rlog s)\<rparr>)
     }
   }"

lemma log_pop_hook_only_nodes: "ensures (log_pop_hook ety idx s) (only_nodes s)"
  by (auto simp: log_pop_hook_def run_simps intro: raft_pop_log_only_nodes)

lemmas log_pop_hook_rule = log_pop_hook_only_nodes [THEN ensures_state_rule]

lemma log_delete_youngest_count:
  "ensures (log_delete_youngest s) (\<lambda>(e, s'). e = 0 \<longrightarrow> lp_count (rlog s') = lp_count (rlog s) - 1)"
  unfolding log_delete_youngest_def
  by (auto simp: run_simps Let_def log_retreat_back_def
      dest!: only_nodes_fields core_fields
      intro!: ensuresI [where m = "log_mod i j" for i j] reader_rules log_pop_hook_rule)

function log_delete_loop :: "raft_index \<Rightarrow> raft_server \<Rightarrow> (int \<times> raft_server) option" where
  "log_delete_loop idx s =
     (if idx \<le> lp_base (rlog s) + log_count (rlog s) \<and> lp_count (rlog s) \<noteq> 0
      then do {
        r \<leftarrow> log_delete_youngest s;
        if fst r \<noteq> 0 then Some r else log_delete_loop idx (snd r)
      }
      else Some (0, s))"
  by pat_completeness auto
termination
  by (relation "measure (\<lambda>(idx, s). lp_count (rlog s))")
    (auto dest: ensuresD [OF log_delete_youngest_count])

declare log_delete_loop.simps [simp del]

definition log_delete :: "raft_index \<Rightarrow> raft_server \<Rightarrow> (int \<times> raft_server) option" where
  "log_delete idx s =
     (if idx = 0 then Some (- 1, s)
      else let idx = (if idx < lp_base (rlog s) then lp_base (rlog s) else idx)
           in log_delete_loop idx s)"

text \<open>
  The entry handed out by \<open>log_poll\<close> is returned by value; \<open>None\<close> stands for an untouched \<open>*etyp\<close>.
\<close>

definition log_poll :: "raft_server \<Rightarrow> (int \<times> raft_entry option \<times> raft_server) option" where
  "log_poll s = do {
     let me = rlog s;
     let idx = lp_base me + 1;
     if lp_count me = 0 then Some (- 1, None, s)
     else do {
       elem \<leftarrow> array_get (lp_entries me) (lp_front me);
       (e, s) \<leftarrow> (case log_callback s cb_log_poll of
           None \<Rightarrow> Some (0, s)
         | Some f \<Rightarrow> (let e = f (hist s) elem idx in Some (e, emit (Ev_log_poll elem idx e) s)));
       if e \<noteq> 0 then Some (e, None, s)
       else do {
         l \<leftarrow> log_advance_front (rlog s);
         Some (0, Some elem, s\<lparr>rlog := l\<rparr>)
       }
     }
   }"

text \<open>
  The loop of \<open>log_clear_entries\<close> runs \<open>i\<close> from \<open>base\<close> to \<open>base + count\<close>; \<open>k\<close> is \<open>i - base\<close>, and the
  list holds the values still to come.
\<close>

fun log_clear_entries_loop :: "nat list \<Rightarrow> raft_server \<Rightarrow> raft_server option" where
  "log_clear_entries_loop [] s = Some s"
| "log_clear_entries_loop (k # ks) s = do {
     j \<leftarrow> c_rem (int (lp_front (rlog s)) + int k) (int (lp_size (rlog s)));
     ety \<leftarrow> array_get (lp_entries (rlog s)) (nat j);
     log_clear_entries_loop ks (emit (Ev_log_clear ety (lp_base (rlog s) + int k)) s)
   }"

definition log_clear_entries :: "raft_server \<Rightarrow> raft_server option" where
  "log_clear_entries s =
     (if lp_count (rlog s) = 0 \<or> log_callback s cb_log_clear = None then Some s
      else log_clear_entries_loop [0..<lp_count (rlog s) + 1] s)"

definition log_load_from_snapshot ::
  "raft_index \<Rightarrow> raft_term \<Rightarrow> raft_server \<Rightarrow> (int \<times> raft_server) option" where
  "log_load_from_snapshot idx term s = do {
     s \<leftarrow> log_clear_entries s;
     Some (0, s\<lparr>rlog := (log_clear (rlog s))\<lparr>lp_base := idx\<rparr>\<rparr>)
   }"

text \<open>\<open>log_alloc\<close> runs before there is a server: it takes the environment and the history.\<close>

definition log_alloc ::
  "nat \<Rightarrow> raft_env \<Rightarrow> history \<Rightarrow> log_private option \<times> history" where
  "log_alloc initial_size E h =
     (let ok1 = env_alloc E h 64; h = h @ [Ev_alloc 64 ok1] in
      if \<not> ok1 then (None, h)
      else (let n = sizeof_raft_entry * initial_size; ok2 = env_alloc E h n; h = h @ [Ev_alloc n ok2] in
        if \<not> ok2 then (None, h)
        else (Some \<lparr>lp_size = initial_size, lp_count = 0, lp_front = 0, lp_back = 0, lp_base = 0,
                    lp_entries = replicate initial_size zero_entry, lp_cb = False\<rparr>, h)))"

definition log_new :: "raft_env \<Rightarrow> history \<Rightarrow> log_private option \<times> history" where
  "log_new E h = log_alloc INITIAL_CAPACITY E h"

end
