(* ===== verification/Raft_Election.thy ===== *)
theory Raft_Election
  imports Raft_Log
begin

text \<open>
  Creating a server, sending, voting and changing state (\<open>raft/raft/raft_server.c\<close>): the operations of
  an election, with the two message handlers \<open>raft_recv_requestvote\<close> and
  \<open>raft_recv_requestvote_response\<close>.
\<close>

section \<open>Creation\<close>

definition zero_server :: "raft_env \<Rightarrow> history \<Rightarrow> raft_server" where
  "zero_server E h = \<lparr>current_term = 0, voted_for = 0,
     rlog = \<lparr>lp_size = 0, lp_count = 0, lp_front = 0, lp_back = 0, lp_base = 0, lp_entries = [],
             lp_cb = False\<rparr>,
     commit_idx = 0, last_applied_idx = 0, rstate = RAFT_STATE_NONE, timeout_elapsed = 0,
     nodes = [], election_timeout = 0, election_timeout_rand = 0, request_timeout = 0,
     current_leader = None, cb = no_cbs, my_node = None, voting_cfg_change_log_idx = 0,
     connected = RAFT_NODE_STATUS_DISCONNECTED, snapshot_in_progress = False, snapshot_flags = 0,
     snapshot_last_idx = 0, snapshot_last_term = 0, saved_snapshot_last_idx = 0,
     saved_snapshot_last_term = 0, heap = Map.empty, next_addr = 1, hist = h, env = E\<rparr>"

text \<open>The inner \<open>None\<close> is the null pointer returned when an allocation fails.\<close>

definition raft_new :: "raft_env \<Rightarrow> history \<Rightarrow> raft_server option option" where
  "raft_new E h =
     (let ok = env_alloc E h 264; h = h @ [Ev_alloc 264 ok] in
      if \<not> ok then Some None
      else do {
        let me = (zero_server E h)\<lparr>current_term := 0, voted_for := - 1, timeout_elapsed := 0,
                    request_timeout := 200, election_timeout := 1000\<rparr>;
        me \<leftarrow> raft_randomize_election_timeout me;
        (case log_new E (hist me) of
           (None, h) \<Rightarrow> Some None
         | (Some l, h) \<Rightarrow> do {
             let me = me\<lparr>rlog := l, hist := h, voting_cfg_change_log_idx := - 1\<rparr>;
             let me = raft_set_state RAFT_STATE_FOLLOWER me;
             let me = me\<lparr>current_leader := None, snapshot_in_progress := False\<rparr>;
             Some (Some (raft_set_snapshot_metadata 0 0 me))
           })
      })"

definition raft_set_callbacks :: "raft_cbs \<Rightarrow> raft_server \<Rightarrow> raft_server" where
  "raft_set_callbacks funcs me = me\<lparr>cb := funcs, rlog := log_set_callbacks (rlog me)\<rparr>"

text \<open>The nodes stay allocated: only their count is reset.\<close>

definition raft_clear :: "raft_server \<Rightarrow> raft_server option" where
  "raft_clear me = do {
     let me = me\<lparr>current_term := 0, voted_for := - 1, timeout_elapsed := 0\<rparr>;
     me \<leftarrow> raft_randomize_election_timeout me;
     let me = me\<lparr>voting_cfg_change_log_idx := - 1\<rparr>;
     let me = raft_set_state RAFT_STATE_FOLLOWER me;
     let me = me\<lparr>current_leader := None, commit_idx := 0, last_applied_idx := 0, nodes := [],
                my_node := None\<rparr>;
     me \<leftarrow> log_clear_entries me;
     Some (me\<lparr>rlog := log_clear (rlog me)\<rparr>)
   }"

section \<open>Sending\<close>

definition raft_send_requestvote :: "addr option \<Rightarrow> raft_server \<Rightarrow> (int \<times> raft_server) option" where
  "raft_send_requestvote node me = do {
     a \<leftarrow> node;
     C_assert (node \<noteq> my_node me);
     last_term \<leftarrow> raft_get_last_log_term me;
     i \<leftarrow> raft_get_nodeid me;
     let rv = \<lparr>rv_term = current_term me, rv_candidate_id = i,
               rv_last_log_idx = raft_get_current_idx me, rv_last_log_term = last_term\<rparr>;
     case cb_send_requestvote (cb me) of
       None \<Rightarrow> Some (0, me)
     | Some f \<Rightarrow> (let e = f (hist me) a rv in Some (e, emit (Ev_send_requestvote a rv e) me))
   }"

definition call_send_snapshot :: "addr \<Rightarrow> raft_server \<Rightarrow> raft_server" where
  "call_send_snapshot a me =
     (case cb_send_snapshot (cb me) of None \<Rightarrow> me | Some f \<Rightarrow> emit (Ev_send_snapshot a) me)"

text \<open>The index and the term of the entry before the new ones.\<close>

definition ae_prev_log :: "raft_index \<Rightarrow> raft_server \<Rightarrow> (raft_index \<times> raft_term) option" where
  "ae_prev_log next me =
     (if 1 < next
      then do {
        prev_ety \<leftarrow> raft_get_entry_from_idx me (next - 1);
        Some (case prev_ety of
            None \<Rightarrow> (snapshot_last_idx me, snapshot_last_term me)
          | Some e \<Rightarrow> (next - 1, ety_term e))
      }
      else Some (0, 0))"

definition raft_send_appendentries :: "addr option \<Rightarrow> raft_server \<Rightarrow> (int \<times> raft_server) option" where
  "raft_send_appendentries node me = do {
     a \<leftarrow> node;
     C_assert (node \<noteq> my_node me);
     case cb_send_appendentries (cb me) of
       None \<Rightarrow> Some (- 1, me)
     | Some f \<Rightarrow> do {
         n \<leftarrow> node_at me a;
         let next = raft_node_get_next_idx n;
         if 0 < snapshot_last_idx me \<and> next < snapshot_last_idx me
         then Some (RAFT_ERR_NEEDS_SNAPSHOT, call_send_snapshot a me)
         else do {
           (n_entries, entries) \<leftarrow> raft_get_entries_from_idx me next;
           C_assert (entries = None \<and> n_entries = 0 \<or> entries \<noteq> None \<and> 0 < n_entries);
           (prev_idx, prev_term) \<leftarrow> ae_prev_log next me;
           let ae = \<lparr>ae_term = current_term me, ae_prev_log_idx = prev_idx,
                     ae_prev_log_term = prev_term, ae_leader_commit = raft_get_commit_idx me,
                     ae_n_entries = n_entries,
                     ae_entries = (case entries of None \<Rightarrow> [] | Some es \<Rightarrow> es)\<rparr>;
           let e = f (hist me) a ae;
           Some (e, emit (Ev_send_appendentries a ae e) me)
         }
       }
   }"

fun send_appendentries_loop :: "addr list \<Rightarrow> raft_server \<Rightarrow> (int \<times> raft_server) option" where
  "send_appendentries_loop [] me = Some (0, me)"
| "send_appendentries_loop (a # as) me =
     (if my_node me = Some a then send_appendentries_loop as me
      else do {
        n \<leftarrow> node_at me a;
        if \<not> raft_node_is_active n then send_appendentries_loop as me
        else do {
          (e, me) \<leftarrow> raft_send_appendentries (Some a) me;
          if e \<noteq> 0 then Some (e, me) else send_appendentries_loop as me
        }
      })"

definition raft_send_appendentries_all :: "raft_server \<Rightarrow> (int \<times> raft_server) option" where
  "raft_send_appendentries_all me =
     (let me = me\<lparr>timeout_elapsed := 0\<rparr> in send_appendentries_loop (nodes me) me)"

section \<open>Votes\<close>

definition raft_already_voted :: "raft_server \<Rightarrow> bool" where
  "raft_already_voted me \<longleftrightarrow> voted_for me \<noteq> - 1"

definition raft_vote_for_nodeid ::
  "raft_node_id \<Rightarrow> raft_server \<Rightarrow> (int \<times> raft_server) option" where
  "raft_vote_for_nodeid nodeid me =
     (case cb_persist_vote (cb me) of
        None \<Rightarrow> Some (0, me\<lparr>voted_for := nodeid\<rparr>)
      | Some f \<Rightarrow>
          (let e = f (hist me) nodeid; me = emit (Ev_persist_vote nodeid e) me
           in if e \<noteq> 0 then Some (e, me) else Some (0, me\<lparr>voted_for := nodeid\<rparr>)))"

definition raft_vote :: "addr option \<Rightarrow> raft_server \<Rightarrow> (int \<times> raft_server) option" where
  "raft_vote node me =
     (case node of
        None \<Rightarrow> raft_vote_for_nodeid (- 1) me
      | Some a \<Rightarrow> do { n \<leftarrow> node_at me a; raft_vote_for_nodeid (raft_node_get_id n) me })"

definition raft_get_nvotes_for_me :: "raft_server \<Rightarrow> int option" where
  "raft_get_nvotes_for_me me = do {
     votes \<leftarrow> count_nodes
       (\<lambda>n. raft_node_is_active n \<and> raft_node_is_voting n \<and> raft_node_has_vote_for_me n)
       (my_node me) me (nodes me);
     i \<leftarrow> raft_get_nodeid me;
     Some (if voted_for me = i then votes + 1 else votes)
   }"

definition raft_votes_is_majority :: "int \<Rightarrow> int \<Rightarrow> bool" where
  "raft_votes_is_majority num_nodes nvotes =
     (if num_nodes < nvotes then False
      else (let half = num_nodes div 2 in half + 1 \<le> nvotes))"

section \<open>State changes\<close>

definition raft_become_follower :: "raft_server \<Rightarrow> raft_server option" where
  "raft_become_follower me = do {
     let me = raft_set_state RAFT_STATE_FOLLOWER me;
     me \<leftarrow> raft_randomize_election_timeout me;
     Some (me\<lparr>timeout_elapsed := 0\<rparr>)
   }"

fun become_leader_loop :: "addr list \<Rightarrow> raft_server \<Rightarrow> raft_server option" where
  "become_leader_loop [] me = Some me"
| "become_leader_loop (a # as) me =
     (if my_node me = Some a then become_leader_loop as me
      else do {
        n \<leftarrow> node_at me a;
        if \<not> raft_node_is_active n then become_leader_loop as me
        else do {
          me \<leftarrow> update_node a
            (\<lambda>n. raft_node_set_next_idx n (raft_get_current_idx me + 1)) me;
          me \<leftarrow> update_node a (\<lambda>n. raft_node_set_match_idx n 0) me;
          (e, me) \<leftarrow> raft_send_appendentries (Some a) me;
          become_leader_loop as me
        }
      })"

definition raft_become_leader :: "raft_server \<Rightarrow> raft_server option" where
  "raft_become_leader me = do {
     let me = raft_set_state RAFT_STATE_LEADER me;
     let me = me\<lparr>timeout_elapsed := 0\<rparr>;
     become_leader_loop (nodes me) me
   }"

fun clear_votes_loop :: "addr list \<Rightarrow> raft_server \<Rightarrow> raft_server option" where
  "clear_votes_loop [] me = Some me"
| "clear_votes_loop (a # as) me = do {
     me \<leftarrow> update_node a (\<lambda>n. raft_node_vote_for_me n False) me;
     clear_votes_loop as me
   }"

fun request_votes_loop :: "addr list \<Rightarrow> raft_server \<Rightarrow> raft_server option" where
  "request_votes_loop [] me = Some me"
| "request_votes_loop (a # as) me =
     (if my_node me = Some a then request_votes_loop as me
      else do {
        n \<leftarrow> node_at me a;
        if raft_node_is_active n \<and> raft_node_is_voting n
        then do {
          (e, me) \<leftarrow> raft_send_requestvote (Some a) me;
          request_votes_loop as me
        }
        else request_votes_loop as me
      })"

text \<open>The result of \<open>raft_vote\<close> is not looked at.\<close>

definition candidate_campaign :: "raft_server \<Rightarrow> (int \<times> raft_server) option" where
  "candidate_campaign me = do {
     me \<leftarrow> clear_votes_loop (nodes me) me;
     (e, me) \<leftarrow> raft_vote (my_node me) me;
     let me = me\<lparr>current_leader := None\<rparr>;
     let me = raft_set_state RAFT_STATE_CANDIDATE me;
     me \<leftarrow> raft_randomize_election_timeout me;
     let me = me\<lparr>timeout_elapsed := 0\<rparr>;
     me \<leftarrow> request_votes_loop (nodes me) me;
     Some (0, me)
   }"

definition raft_become_candidate :: "raft_server \<Rightarrow> (int \<times> raft_server) option" where
  "raft_become_candidate me = do {
     (e, me) \<leftarrow> raft_set_current_term (raft_get_current_term me + 1) me;
     if e \<noteq> 0 then Some (e, me) else candidate_campaign me
   }"

definition raft_election_start :: "raft_server \<Rightarrow> (int \<times> raft_server) option" where
  "raft_election_start me = raft_become_candidate me"

section \<open>Receiving a vote request\<close>

text \<open>
  \<open>ety_term\<close> is an \<open>int\<close> of the code, although terms are \<open>long\<close>.
\<close>

definition should_grant_vote :: "raft_server \<Rightarrow> msg_requestvote \<Rightarrow> bool option" where
  "should_grant_vote me vr = do {
     p \<leftarrow> raft_get_my_node me;
     voting \<leftarrow> is_voting_ptr me p;
     if \<not> voting then Some False
     else if rv_term vr < raft_get_current_term me then Some False
     else if raft_already_voted me then Some False
     else do {
       let current_idx = raft_get_current_idx me;
       if current_idx = 0 then Some True
       else do {
         ety \<leftarrow> raft_get_entry_from_idx me current_idx;
         case (case ety of
                 Some e \<Rightarrow> Some (narrow32 (ety_term e))
               | None \<Rightarrow> if snapshot_last_idx me = current_idx
                         then Some (narrow32 (snapshot_last_term me)) else None) of
           None \<Rightarrow> Some False
         | Some et \<Rightarrow>
             if et < rv_last_log_term vr then Some True
             else Some (rv_last_log_term vr = et \<and> current_idx \<le> rv_last_log_idx vr)
       }
     }
   }"

text \<open>The tail of the function from the label \<open>done\<close>.\<close>

definition recv_requestvote_done ::
  "int \<Rightarrow> msg_requestvote_response \<Rightarrow> raft_server \<Rightarrow> (int \<times> msg_requestvote_response \<times> raft_server)" where
  "recv_requestvote_done e r me = (e, r\<lparr>rvr_term := raft_get_current_term me\<rparr>, me)"

definition raft_recv_requestvote ::
  "addr option \<Rightarrow> msg_requestvote \<Rightarrow> msg_requestvote_response \<Rightarrow> raft_server
    \<Rightarrow> (int \<times> msg_requestvote_response \<times> raft_server) option" where
  "raft_recv_requestvote node vr r me = do {
     node \<leftarrow> (if node = None then raft_get_node me (rv_candidate_id vr) else Some node);
     if current_leader me \<noteq> None \<and> current_leader me \<noteq> node \<and>
        timeout_elapsed me < election_timeout me
     then Some (recv_requestvote_done 0 (r\<lparr>rvr_vote_granted := 0\<rparr>) me)
     else do {
       (e, me) \<leftarrow>
         (if raft_get_current_term me < rv_term vr
          then do {
            (e, me) \<leftarrow> raft_set_current_term (rv_term vr) me;
            if e \<noteq> 0 then Some (e, me)
            else do {
              me \<leftarrow> raft_become_follower me;
              Some (0, me\<lparr>current_leader := None\<rparr>)
            }
          }
          else Some (0, me));
       if e \<noteq> 0 then Some (recv_requestvote_done e (r\<lparr>rvr_vote_granted := 0\<rparr>) me)
       else do {
         grant \<leftarrow> should_grant_vote me vr;
         if grant
         then do {
           C_assert (\<not> (raft_is_leader me \<or> raft_is_candidate me));
           (e, me) \<leftarrow> raft_vote_for_nodeid (rv_candidate_id vr) me;
           let r = r\<lparr>rvr_vote_granted := (if e = 0 then 1 else 0)\<rparr>;
           Some (recv_requestvote_done e r (me\<lparr>current_leader := None, timeout_elapsed := 0\<rparr>))
         }
         else if node = None
         then Some (recv_requestvote_done e
                (r\<lparr>rvr_vote_granted := RAFT_REQUESTVOTE_ERR_UNKNOWN_NODE\<rparr>) me)
         else Some (recv_requestvote_done e (r\<lparr>rvr_vote_granted := 0\<rparr>) me)
       }
     }
   }"

section \<open>Receiving a vote\<close>

definition raft_recv_requestvote_response ::
  "addr option \<Rightarrow> msg_requestvote_response \<Rightarrow> raft_server \<Rightarrow> (int \<times> raft_server) option" where
  "raft_recv_requestvote_response node r me =
     (if \<not> raft_is_candidate me then Some (0, me)
      else if raft_get_current_term me < rvr_term r
      then do {
        (e, me) \<leftarrow> raft_set_current_term (rvr_term r) me;
        if e \<noteq> 0 then Some (e, me)
        else do {
          me \<leftarrow> raft_become_follower me;
          Some (0, me\<lparr>current_leader := None\<rparr>)
        }
      }
      else if raft_get_current_term me \<noteq> rvr_term r then Some (0, me)
      else if rvr_vote_granted r = RAFT_REQUESTVOTE_ERR_GRANTED
      then do {
        me \<leftarrow> (case node of None \<Rightarrow> Some me
          | Some a \<Rightarrow> update_node a (\<lambda>n. raft_node_vote_for_me n True) me);
        votes \<leftarrow> raft_get_nvotes_for_me me;
        num \<leftarrow> raft_get_num_voting_nodes me;
        if raft_votes_is_majority num votes
        then do { me \<leftarrow> raft_become_leader me; Some (0, me) }
        else Some (0, me)
      }
      else if rvr_vote_granted r = RAFT_REQUESTVOTE_ERR_NOT_GRANTED then Some (0, me)
      else if rvr_vote_granted r = RAFT_REQUESTVOTE_ERR_UNKNOWN_NODE
      then do {
        p \<leftarrow> raft_get_my_node me;
        v \<leftarrow> is_voting_ptr me p;
        if v \<and> connected me = RAFT_NODE_STATUS_DISCONNECTING
        then Some (RAFT_ERR_SHUTDOWN, me) else Some (0, me)
      }
      else None)"

end
