(* ===== verification/Raft_Replication.thy ===== *)
theory Raft_Replication
  imports Raft_Election
begin

text \<open>
  Log replication (\<open>raft/raft/raft_server.c\<close>): the handlers of append-entries messages, of their
  responses and of client entries, and the application of committed entries to the state machine.
\<close>

section \<open>Changing the log\<close>

definition raft_append_entry :: "raft_entry \<Rightarrow> raft_server \<Rightarrow> (int \<times> raft_server) option" where
  "raft_append_entry ety me =
     (let me = (if raft_entry_is_voting_cfg_change ety
                then me\<lparr>voting_cfg_change_log_idx := raft_get_current_idx me\<rparr> else me)
      in log_append_entry ety me)"

definition raft_delete_entry_from_idx ::
  "raft_index \<Rightarrow> raft_server \<Rightarrow> (int \<times> raft_server) option" where
  "raft_delete_entry_from_idx idx me = do {
     C_assert (raft_get_commit_idx me < idx);
     let me = (if idx \<le> voting_cfg_change_log_idx me
               then me\<lparr>voting_cfg_change_log_idx := - 1\<rparr> else me);
     log_delete idx me
   }"

definition raft_poll_entry :: "raft_server \<Rightarrow> (int \<times> raft_entry option \<times> raft_server) option" where
  "raft_poll_entry me = do {
     (e, p, me) \<leftarrow> log_poll me;
     if e \<noteq> 0 then Some (e, p, me)
     else do { C_assert (p \<noteq> None); Some (0, p, me) }
   }"

section \<open>Receiving entries from the leader\<close>

text \<open>
  The code's \<open>goto out\<close> with the current \<open>e\<close> and response is the value \<open>Inl (e, r, me)\<close>; \<open>Inr\<close> goes
  on.  First part: compare the terms.
\<close>

type_synonym ae_out = "int \<times> msg_appendentries_response \<times> raft_server"

definition ae_check_term ::
  "msg_appendentries \<Rightarrow> msg_appendentries_response \<Rightarrow> raft_server
    \<Rightarrow> (ae_out + raft_server) option" where
  "ae_check_term ae r me =
     (if raft_is_candidate me \<and> current_term me = ae_term ae
      then do { me \<leftarrow> raft_become_follower me; Some (Inr me) }
      else if current_term me < ae_term ae
      then do {
        (e, me) \<leftarrow> raft_set_current_term (ae_term ae) me;
        if e \<noteq> 0 then Some (Inl (e, r, me))
        else do { me \<leftarrow> raft_become_follower me; Some (Inr me) }
      }
      else if ae_term ae < current_term me then Some (Inl (0, r, me))
      else Some (Inr me))"

text \<open>Second part: the entry before the new ones.\<close>

definition ae_check_prev ::
  "msg_appendentries \<Rightarrow> msg_appendentries_response \<Rightarrow> raft_server
    \<Rightarrow> (ae_out + raft_server) option" where
  "ae_check_prev ae r me =
     (if 0 < ae_prev_log_idx ae
      then do {
        ety \<leftarrow> raft_get_entry_from_idx me (ae_prev_log_idx ae);
        if ae_prev_log_idx ae = snapshot_last_idx me
        then (if snapshot_last_term me \<noteq> ae_prev_log_term ae
              then Some (Inl (RAFT_ERR_SHUTDOWN, r, me)) else Some (Inr me))
        else (case ety of
            None \<Rightarrow> Some (Inl (0, r, me))
          | Some e \<Rightarrow>
              if ety_term e \<noteq> ae_prev_log_term ae
              then (if ae_prev_log_idx ae \<le> raft_get_commit_idx me
                    then Some (Inl (RAFT_ERR_SHUTDOWN, r, me))
                    else do {
                      (e, me) \<leftarrow> raft_delete_entry_from_idx (ae_prev_log_idx ae) me;
                      Some (Inl (e, r, me))
                    })
              else Some (Inr me))
      }
      else Some (Inr me))"

text \<open>
  Third part: the first loop skips the entries the log already has and deletes a conflicting tail; it
  stops at the position of the first entry to append.
\<close>

function ae_skip_existing ::
  "nat \<Rightarrow> msg_appendentries \<Rightarrow> msg_appendentries_response \<Rightarrow> raft_server
    \<Rightarrow> (ae_out + nat \<times> msg_appendentries_response \<times> raft_server) option" where
  "ae_skip_existing i ae r me =
     (if int i < ae_n_entries ae
      then do {
        ety \<leftarrow> array_get (ae_entries ae) i;
        let ety_index = ae_prev_log_idx ae + 1 + int i;
        existing_ety \<leftarrow> raft_get_entry_from_idx me ety_index;
        (case existing_ety of
           Some ex \<Rightarrow>
             if ety_term ex \<noteq> ety_term ety
             then (if ety_index \<le> raft_get_commit_idx me
                   then Some (Inl (RAFT_ERR_SHUTDOWN, r, me))
                   else do {
                     (e, me) \<leftarrow> raft_delete_entry_from_idx ety_index me;
                     if e \<noteq> 0 then Some (Inl (e, r, me)) else Some (Inr (i, r, me))
                   })
             else ae_skip_existing (i + 1) ae (r\<lparr>aer_current_idx := ety_index\<rparr>) me
         | None \<Rightarrow> Some (Inr (i, r, me)))
      }
      else Some (Inr (i, r, me)))"
  by pat_completeness auto
termination
  by (relation "measure (\<lambda>(i, ae, r, me). nat (ae_n_entries ae) - i)") auto

text \<open>Fourth part: the second loop appends the remaining entries.\<close>

function ae_append_rest ::
  "nat \<Rightarrow> msg_appendentries \<Rightarrow> msg_appendentries_response \<Rightarrow> raft_server
    \<Rightarrow> (ae_out + msg_appendentries_response \<times> raft_server) option" where
  "ae_append_rest i ae r me =
     (if int i < ae_n_entries ae
      then do {
        ety \<leftarrow> array_get (ae_entries ae) i;
        (e, me) \<leftarrow> raft_append_entry ety me;
        if e \<noteq> 0 then Some (Inl (e, r, me))
        else ae_append_rest (i + 1) ae (r\<lparr>aer_current_idx := ae_prev_log_idx ae + 1 + int i\<rparr>) me
      }
      else Some (Inr (r, me)))"
  by pat_completeness auto
termination
  by (relation "measure (\<lambda>(i, ae, r, me). nat (ae_n_entries ae) - i)") auto

declare ae_skip_existing.simps [simp del] ae_append_rest.simps [simp del]

text \<open>Fifth part: follow the leader's commit index.\<close>

definition ae_update_commit ::
  "msg_appendentries \<Rightarrow> raft_server \<Rightarrow> raft_server option" where
  "ae_update_commit ae me =
     (if raft_get_commit_idx me < ae_leader_commit ae
      then (let last_log_idx = max (raft_get_current_idx me) 1
            in raft_set_commit_idx (min last_log_idx (ae_leader_commit ae)) me)
      else Some me)"

text \<open>The handler from the second loop, from the first loop, and as a whole up to \<open>out\<close>.\<close>

definition ae_finish ::
  "nat \<Rightarrow> msg_appendentries \<Rightarrow> msg_appendentries_response \<Rightarrow> raft_server \<Rightarrow> ae_out option" where
  "ae_finish i ae r me = do {
     x \<leftarrow> ae_append_rest i ae r me;
     case x of Inl out \<Rightarrow> Some out
     | Inr (r, me) \<Rightarrow> do { me \<leftarrow> ae_update_commit ae me; Some (0, r, me) }
   }"

definition ae_store_entries ::
  "msg_appendentries \<Rightarrow> msg_appendentries_response \<Rightarrow> raft_server \<Rightarrow> ae_out option" where
  "ae_store_entries ae r me = do {
     x \<leftarrow> ae_skip_existing 0 ae r me;
     case x of Inl out \<Rightarrow> Some out | Inr (i, r, me) \<Rightarrow> ae_finish i ae r me
   }"

definition ae_body ::
  "addr option \<Rightarrow> msg_appendentries \<Rightarrow> msg_appendentries_response \<Rightarrow> raft_server \<Rightarrow> ae_out option" where
  "ae_body node ae r me = do {
     let r = r\<lparr>aer_success := 0\<rparr>;
     x \<leftarrow> ae_check_term ae r me;
     case x of Inl out \<Rightarrow> Some out
     | Inr me \<Rightarrow> do {
         let me = me\<lparr>current_leader := node, timeout_elapsed := 0\<rparr>;
         x \<leftarrow> ae_check_prev ae r me;
         case x of Inl out \<Rightarrow> Some out
         | Inr me \<Rightarrow>
             ae_store_entries ae (r\<lparr>aer_success := 1, aer_current_idx := ae_prev_log_idx ae\<rparr>) me
       }
   }"

definition raft_recv_appendentries ::
  "addr option \<Rightarrow> msg_appendentries \<Rightarrow> msg_appendentries_response \<Rightarrow> raft_server \<Rightarrow> ae_out option" where
  "raft_recv_appendentries node ae r me = do {
     (e, r, me) \<leftarrow> ae_body node ae r me;
     let r = r\<lparr>aer_term := current_term me\<rparr>;
     let r = (if aer_success r = 0 then r\<lparr>aer_current_idx := raft_get_current_idx me\<rparr> else r);
     let r = r\<lparr>aer_first_idx := ae_prev_log_idx ae + 1\<rparr>;
     Some (e, r, me)
   }"

section \<open>Receiving a follower's answer\<close>

definition aer_failure ::
  "addr \<Rightarrow> raft_node \<Rightarrow> msg_appendentries_response \<Rightarrow> raft_server \<Rightarrow> (int \<times> raft_server) option" where
  "aer_failure a n r me = do {
     let next = raft_node_get_next_idx n;
     C_assert (0 < next);
     if aer_current_idx r < raft_node_get_match_idx n then Some (0, me)
     else do {
       me \<leftarrow> (if aer_current_idx r < next - 1
         then update_node a (\<lambda>n. raft_node_set_next_idx n
                (min (aer_current_idx r + 1) (raft_get_current_idx me))) me
         else update_node a (\<lambda>n. raft_node_set_next_idx n (next - 1)) me);
       (e, me) \<leftarrow> raft_send_appendentries (Some a) me;
       Some (0, me)
     }
   }"

text \<open>Promotion of a peer that does not vote yet and has caught up.\<close>

definition aer_sufficient_logs ::
  "addr \<Rightarrow> raft_node \<Rightarrow> msg_appendentries_response \<Rightarrow> raft_server \<Rightarrow> raft_server option" where
  "aer_sufficient_logs a n r me =
     (if \<not> raft_node_is_voting n \<and> \<not> raft_voting_change_is_in_progress me \<and>
         raft_get_current_idx me \<le> aer_current_idx r + 1 \<and>
         \<not> raft_node_is_voting_committed n
      then (case cb_node_has_sufficient_logs (cb me) of
          None \<Rightarrow> Some me
        | Some f \<Rightarrow>
            if \<not> raft_node_has_sufficient_logs n
            then (let e = f (hist me) a; me = emit (Ev_node_has_sufficient_logs a e) me
                  in if e = 0 then update_node a raft_node_set_has_sufficient_logs me else Some me)
            else Some me)
      else Some me)"

text \<open>The commit rule: a majority of the voting nodes has the entry, and it is of the current term.\<close>

definition aer_update_commit :: "raft_index \<Rightarrow> raft_server \<Rightarrow> raft_server option" where
  "aer_update_commit point me =
     (if point = 0 then Some me
      else do {
        ety \<leftarrow> raft_get_entry_from_idx me point;
        if raft_get_commit_idx me < point
        then do {
          e \<leftarrow> ety;
          if ety_term e = current_term me
          then do {
            k \<leftarrow> count_nodes (\<lambda>n. raft_node_is_active n \<and> raft_node_is_voting n \<and>
                                    point \<le> raft_node_get_match_idx n)
                   (my_node me) me (nodes me);
            let votes = 1 + k;
            num \<leftarrow> raft_get_num_voting_nodes me;
            if num div 2 < votes then raft_set_commit_idx point me else Some me
          }
          else Some me
        }
        else Some me
      })"

definition aer_success_tail ::
  "addr \<Rightarrow> msg_appendentries_response \<Rightarrow> raft_server \<Rightarrow> (int \<times> raft_server) option" where
  "aer_success_tail a r me = do {
     C_assert (aer_current_idx r \<le> raft_get_current_idx me);
     me \<leftarrow> update_node a (\<lambda>n. raft_node_set_next_idx n (aer_current_idx r + 1)) me;
     me \<leftarrow> update_node a (\<lambda>n. raft_node_set_match_idx n (aer_current_idx r)) me;
     me \<leftarrow> aer_update_commit (aer_current_idx r) me;
     n \<leftarrow> node_at me a;
     ety \<leftarrow> raft_get_entry_from_idx me (raft_node_get_next_idx n);
     if ety \<noteq> None
     then do { (e, me) \<leftarrow> raft_send_appendentries (Some a) me; Some (0, me) }
     else Some (0, me)
   }"

definition raft_recv_appendentries_response ::
  "addr option \<Rightarrow> msg_appendentries_response \<Rightarrow> raft_server \<Rightarrow> (int \<times> raft_server) option" where
  "raft_recv_appendentries_response node r me =
     (case node of
        None \<Rightarrow> Some (- 1, me)
      | Some a \<Rightarrow>
          if \<not> raft_is_leader me then Some (RAFT_ERR_NOT_LEADER, me)
          else if current_term me < aer_term r
          then do {
            (e, me) \<leftarrow> raft_set_current_term (aer_term r) me;
            if e \<noteq> 0 then Some (e, me)
            else do {
              me \<leftarrow> raft_become_follower me;
              Some (0, me\<lparr>current_leader := None\<rparr>)
            }
          }
          else if current_term me \<noteq> aer_term r then Some (0, me)
          else do {
            n \<leftarrow> node_at me a;
            if aer_success r = 0 then aer_failure a n r me
            else do {
              let match = raft_node_get_match_idx n;
              me \<leftarrow> aer_sufficient_logs a n r me;
              if aer_current_idx r \<le> match then Some (0, me)
              else aer_success_tail a r me
            }
          })"

section \<open>Receiving an entry from a client\<close>

fun recv_entry_loop :: "addr list \<Rightarrow> raft_server \<Rightarrow> raft_server option" where
  "recv_entry_loop [] me = Some me"
| "recv_entry_loop (a # as) me =
     (if my_node me = Some a then recv_entry_loop as me
      else do {
        n \<leftarrow> node_at me a;
        if \<not> raft_node_is_active n \<or> \<not> raft_node_is_voting n then recv_entry_loop as me
        else if raft_node_get_next_idx n = raft_get_current_idx me
        then do { (e, me) \<leftarrow> raft_send_appendentries (Some a) me; recv_entry_loop as me }
        else recv_entry_loop as me
      })"

text \<open>The entry is an in-out parameter: the handler stamps it with the term.\<close>

definition raft_recv_entry ::
  "raft_entry \<Rightarrow> msg_entry_response \<Rightarrow> raft_server
    \<Rightarrow> (int \<times> raft_entry \<times> msg_entry_response \<times> raft_server) option" where
  "raft_recv_entry ety r me =
     (if raft_entry_is_voting_cfg_change ety \<and> raft_voting_change_is_in_progress me
      then Some (RAFT_ERR_ONE_VOTING_CHANGE_ONLY, ety, r, me)
      else if raft_entry_is_voting_cfg_change ety \<and> \<not> raft_is_apply_allowed me
      then Some (RAFT_ERR_SNAPSHOT_IN_PROGRESS, ety, r, me)
      else if \<not> raft_is_leader me then Some (RAFT_ERR_NOT_LEADER, ety, r, me)
      else do {
        let ety = ety\<lparr>ety_term := current_term me\<rparr>;
        (e, me) \<leftarrow> raft_append_entry ety me;
        if e \<noteq> 0 then Some (e, ety, r, me)
        else do {
          me \<leftarrow> recv_entry_loop (nodes me) me;
          num \<leftarrow> raft_get_num_voting_nodes me;
          me \<leftarrow> (if num = 1 then raft_set_commit_idx (raft_get_current_idx me) me else Some me);
          let r = r\<lparr>mer_id := ety_id ety, mer_idx := raft_get_current_idx me,
                   mer_term := current_term me\<rparr>;
          let me = (if raft_entry_is_voting_cfg_change ety
                    then me\<lparr>voting_cfg_change_log_idx := raft_get_current_idx me\<rparr> else me);
          Some (0, ety, r, me)
        }
      })"

text \<open>\<open>int\<close> result: 1 committed, 0 not (yet), -1 superseded by another leader's entry.\<close>

definition raft_msg_entry_response_committed :: "msg_entry_response \<Rightarrow> raft_server \<Rightarrow> int option" where
  "raft_msg_entry_response_committed r me = do {
     ety \<leftarrow> raft_get_entry_from_idx me (mer_idx r);
     case ety of
       None \<Rightarrow> Some 0
     | Some e \<Rightarrow> if mer_term r \<noteq> ety_term e then Some (- 1)
                 else Some (if mer_idx r \<le> raft_get_commit_idx me then 1 else 0)
   }"

section \<open>Applying committed entries\<close>

text \<open>What the committed configuration entry \<open>ety\<close> does to the peer.\<close>

definition apply_cfg_change ::
  "raft_entry \<Rightarrow> raft_index \<Rightarrow> raft_server \<Rightarrow> (int \<times> raft_server) option" where
  "apply_cfg_change ety log_idx me = do {
     (i, me) \<leftarrow> call_log_get_node_id ety log_idx me;
     node \<leftarrow> raft_get_node me i;
     case ety_type ety of
       RAFT_LOGTYPE_ADD_NODE \<Rightarrow> do {
         a \<leftarrow> node;
         me \<leftarrow> update_node a (\<lambda>n. raft_node_set_addition_committed n True) me;
         me \<leftarrow> update_node a (\<lambda>n. raft_node_set_voting_committed n True) me;
         me \<leftarrow> update_node a raft_node_set_has_sufficient_logs me;
         self \<leftarrow> raft_get_nodeid me;
         Some (0, if i = self then me\<lparr>connected := RAFT_NODE_STATUS_CONNECTED\<rparr> else me)
       }
     | RAFT_LOGTYPE_ADD_NONVOTING_NODE \<Rightarrow> do {
         a \<leftarrow> node;
         me \<leftarrow> update_node a (\<lambda>n. raft_node_set_addition_committed n True) me;
         Some (0, me)
       }
     | RAFT_LOGTYPE_DEMOTE_NODE \<Rightarrow> (case node of
           None \<Rightarrow> Some (0, me)
         | Some a \<Rightarrow> do {
             me \<leftarrow> update_node a (\<lambda>n. raft_node_set_voting_committed n False) me;
             Some (0, me)
           })
     | RAFT_LOGTYPE_REMOVE_NODE \<Rightarrow> (case node of
           None \<Rightarrow> Some (0, me)
         | Some a \<Rightarrow> do { me \<leftarrow> raft_remove_node (Some a) me; Some (0, me) })
     | _ \<Rightarrow> Some (0, me)
   }"

definition call_applylog :: "raft_entry \<Rightarrow> raft_server \<Rightarrow> int \<times> raft_server" where
  "call_applylog ety me =
     (case cb_applylog (cb me) of
        None \<Rightarrow> (0, me)
      | Some f \<Rightarrow> (let e = f (hist me) ety (last_applied_idx me)
                  in (e, emit (Ev_applylog ety (last_applied_idx me) e) me)))"

definition clear_voting_cfg_change :: "raft_index \<Rightarrow> raft_server \<Rightarrow> raft_server" where
  "clear_voting_cfg_change log_idx me =
     (if log_idx = voting_cfg_change_log_idx me then me\<lparr>voting_cfg_change_log_idx := - 1\<rparr> else me)"

definition apply_next_entry :: "raft_entry \<Rightarrow> raft_server \<Rightarrow> (int \<times> raft_server) option" where
  "apply_next_entry ety me = do {
     let log_idx = last_applied_idx me + 1;
     let me = me\<lparr>last_applied_idx := last_applied_idx me + 1\<rparr>;
     let (e, me) = call_applylog ety me;
     if e = RAFT_ERR_SHUTDOWN then Some (RAFT_ERR_SHUTDOWN, me)
     else do {
       let me = clear_voting_cfg_change log_idx me;
       if \<not> raft_entry_is_cfg_change ety then Some (0, me)
       else apply_cfg_change ety log_idx me
     }
   }"

definition raft_apply_entry :: "raft_server \<Rightarrow> (int \<times> raft_server) option" where
  "raft_apply_entry me =
     (if \<not> raft_is_apply_allowed me then Some (- 1, me)
      else if last_applied_idx me = raft_get_commit_idx me then Some (- 1, me)
      else do {
        let log_idx = last_applied_idx me + 1;
        p \<leftarrow> raft_get_entry_from_idx me log_idx;
        case p of
          None \<Rightarrow> Some (- 1, me)
        | Some ety \<Rightarrow> apply_next_entry ety me
      })"

end
