(* ===== verification/Raft_Log_Correct.thy ===== *)
theory Raft_Log_Correct
  imports Raft_Log
begin

text \<open>
  The log operations refine operations on lists: appending is \<open>@\<close>, \<open>log_delete\<close> is \<open>take\<close>, \<open>log_poll\<close>
  is \<open>tl\<close>, whatever the callbacks answer, including the failures they report.  The steps go through the
  contract \<open>indexed_log\<close> of the ring buffer.
\<close>

section \<open>Operations that touch the log and the peers only\<close>

definition only_log :: "raft_server \<Rightarrow> raft_server \<Rightarrow> bool" where
  "only_log s s' \<longleftrightarrow> only_nodes s (s'\<lparr>rlog := rlog s\<rparr>)"

lemma only_log_alt:
  "only_log s s' \<longleftrightarrow> (core s')\<lparr>rlog := undefined\<rparr> = (core s)\<lparr>rlog := undefined\<rparr>
     \<and> quiet_ext (hist s) (hist s')"
  by (cases s; cases s') (auto simp: only_log_def only_nodes_def core_def)

interpretation ol: preorder_guarantee only_log
  by unfold_locales (auto simp: only_log_alt intro: quiet_ext_trans)

lemma only_nodes_only_log: "only_nodes s s' \<Longrightarrow> only_log s s'"
  by (simp add: only_log_alt only_nodes_def)

lemma only_log_rlog [simp]:
  "only_log s (t\<lparr>rlog := l\<rparr>) = only_log s t" "only_log (s\<lparr>rlog := l\<rparr>) t = only_log s t"
  by (simp_all add: only_log_alt core_def)

lemma only_log_emit [intro]: "only_log s t \<Longrightarrow> quiet_event e \<Longrightarrow> only_log s (emit e t)"
  by (auto simp: only_log_alt intro: quiet_ext_trans)

lemma only_log_then_nodes: "only_log s t \<Longrightarrow> only_nodes t u \<Longrightarrow> only_log s u"
  by (blast intro: ol.R_trans only_nodes_only_log)

lemma only_log_fields:
  "only_log s s' \<Longrightarrow>
     current_term s' = current_term s \<and> voted_for s' = voted_for s \<and>
     commit_idx s' = commit_idx s \<and> last_applied_idx s' = last_applied_idx s \<and>
     rstate s' = rstate s \<and> timeout_elapsed s' = timeout_elapsed s \<and>
     election_timeout s' = election_timeout s \<and>
     election_timeout_rand s' = election_timeout_rand s \<and>
     request_timeout s' = request_timeout s \<and> current_leader s' = current_leader s \<and>
     cb s' = cb s \<and> voting_cfg_change_log_idx s' = voting_cfg_change_log_idx s \<and>
     connected s' = connected s \<and> snapshot_in_progress s' = snapshot_in_progress s \<and>
     snapshot_flags s' = snapshot_flags s \<and> snapshot_last_idx s' = snapshot_last_idx s \<and>
     snapshot_last_term s' = snapshot_last_term s \<and>
     saved_snapshot_last_idx s' = saved_snapshot_last_idx s \<and>
     saved_snapshot_last_term s' = saved_snapshot_last_term s \<and> env s' = env s \<and>
     quiet_ext (hist s) (hist s')"
  by (drule only_log_def [THEN iffD1]) (auto simp: only_nodes_def dest: core_fields)

text \<open>Replacing the log by one with the same entries and indices.\<close>

definition same_entries :: "log_private \<Rightarrow> log_private \<Rightarrow> bool" where
  "same_entries l l' \<longleftrightarrow> wf_log l' \<and> log_list l' = log_list l \<and> lp_base l' = lp_base l \<and>
     lp_count l' = lp_count l \<and> lp_cb l' = lp_cb l"

lemma same_entries_refl: "wf_log l \<Longrightarrow> same_entries l l"
  by (simp add: same_entries_def)

lemma only_nodes_rlog: "only_nodes s s' \<Longrightarrow> rlog s' = rlog s"
  by (auto dest!: only_nodes_fields core_fields)

section \<open>Growing the buffer\<close>

lemma heap_request_fields:
  "heap_request b s = (ok, s') \<Longrightarrow> only_nodes s s' \<and> (ok \<longleftrightarrow> env_alloc (env s) (hist s) b)"
  by (auto simp: heap_request_def Let_def on.R_refl)

lemma ensurecapacity_spec:
  assumes wf: "wf_log (rlog s)" and "bounded_allocator (env s)"
  shows "succeeds (ensurecapacity s) (\<lambda>(e, s'). only_log s s' \<and> same_entries (rlog s) (rlog s') \<and>
     (e = 0 \<longrightarrow> lp_count (rlog s') < lp_size (rlog s')) \<and> (e \<noteq> 0 \<longrightarrow> e = RAFT_ERR_NOMEM))"
proof (cases "lp_count (rlog s) < lp_size (rlog s)")
  case True
  then show ?thesis
    by (simp add: ensurecapacity_def run_simps ol.R_refl same_entries_refl wf)
next
  case False
  obtain ok s1 where req: "heap_request (sizeof_raft_entry * lp_size (rlog s) * 2) s = (ok, s1)"
    by fastforce
  have s1: "only_nodes s s1" "rlog s1 = rlog s"
    using heap_request_fields [OF req] by (auto dest: only_nodes_rlog)
  show ?thesis
  proof (cases ok)
    case False
    then show ?thesis
      using \<open>\<not> lp_count (rlog s) < lp_size (rlog s)\<close> req s1
      by (simp add: ensurecapacity_def run_simps only_nodes_only_log same_entries_refl wf)
  next
    case True
    let ?l = "rlog s" and ?n = "lp_size (rlog s)"
    have full: "lp_count ?l = ?n" using False wf by (simp add: wf_log_def)
    have "sizeof_raft_entry * ?n * 2 < 68719476736"
      by (rule ccontr)
        (use True heap_request_fields [OF req] assms(2) in \<open>auto simp: bounded_allocator_def not_less\<close>)
    then have n: "?n * 2 < 2147483648" by (simp add: sizeof_raft_entry_def)
    have pos: "0 < ?n" using wf by (simp add: wf_log_def)
    let ?temp = "log_list ?l @ replicate ?n zero_entry"
    have copy: "ensurecapacity_copy 0 (lp_front ?l) ?l (replicate (?n * 2) zero_entry) = Some ?temp"
      using ensurecapacity_copy_eq [OF wf, of 0 "lp_front ?l" "replicate (?n * 2) zero_entry"] wf full
      by (simp add: wf_log_def)
    let ?l' = "?l\<lparr>lp_size := ?n * 2, lp_entries := ?temp, lp_front := 0, lp_back := lp_count ?l\<rparr>"
    have "wf_log ?l'"
      using wf n full pos by (simp add: wf_log_def)
    moreover have "log_list ?l' = log_list ?l"
      by (rule nth_equalityI) (use full in \<open>simp_all add: nth_log_list nth_append\<close>)
    ultimately have "same_entries ?l ?l'" by (simp add: same_entries_def)
    then show ?thesis
      using False True req copy s1 full pos
      by (simp add: ensurecapacity_def run_simps only_nodes_only_log)
  qed
qed

section \<open>Appending\<close>

lemma log_store_spec:
  assumes "wf_log l" "lp_count l < lp_size l"
  shows "\<exists>l'. log_store e l = Some l' \<and> same_entries l l' \<and> lp_size l' = lp_size l \<and>
     lp_back l' = lp_back l \<and> log_advance_back l' = Some (ring_push e l)"
proof -
  let ?l' = "l\<lparr>lp_entries := (lp_entries l)[lp_back l := e]\<rparr>"
  have "wf_log ?l'" using assms(1) by (simp add: wf_log_def)
  then have "same_entries l ?l'"
    by (simp add: same_entries_def log_list_store [OF assms])
  then show ?thesis
    by (simp add: log_store_eq assms log_advance_back_eq)
qed

definition appended :: "raft_entry \<Rightarrow> log_private \<Rightarrow> log_private \<Rightarrow> bool" where
  "appended ety l l' \<longleftrightarrow> wf_log l' \<and> lp_base l' = lp_base l \<and> lp_cb l' = lp_cb l \<and>
     (\<exists>d. log_list l' = log_list l @ [ety\<lparr>ety_data := d\<rparr>])"

lemma appended_push:
  assumes "same_entries l l'" "lp_count l' < lp_size l'"
  shows "appended ety l (ring_push (ety\<lparr>ety_data := d\<rparr>) l')"
  using assms by (auto simp: appended_def same_entries_def ring.push_invar ring.push_contents)

lemma same_entries_trans: "same_entries l l' \<Longrightarrow> same_entries l' l'' \<Longrightarrow> same_entries l l''"
  by (simp add: same_entries_def)

lemma log_append_entry_spec:
  assumes "wf_log (rlog s)" "bounded_allocator (env s)"
  shows "ensures (log_append_entry ety s) (\<lambda>(e, s'). only_log s s' \<and>
     (if e = 0 then appended ety (rlog s) (rlog s') else same_entries (rlog s) (rlog s')))"
proof -
  obtain e1 s1 where cap: "ensurecapacity s = Some (e1, s1)" and ol1: "only_log s s1"
    and se1: "same_entries (rlog s) (rlog s1)"
    and room: "e1 = 0 \<Longrightarrow> lp_count (rlog s1) < lp_size (rlog s1)"
    using succeedsD [OF ensurecapacity_spec [OF assms]] by auto
  have wf1: "wf_log (rlog s1)" using se1 by (simp add: same_entries_def)
  show ?thesis
  proof (cases "e1 = 0")
    case False
    then show ?thesis by (simp add: log_append_entry_def cap run_simps ol1 se1)
  next
    case True
    obtain l2 where st: "log_store ety (rlog s1) = Some l2" and se2: "same_entries (rlog s1) l2"
      and sz2: "lp_size l2 = lp_size (rlog s1)"
      and adv: "log_advance_back l2 = Some (ring_push ety (rlog s1))"
      using log_store_spec [OF wf1 room [OF True]] by blast
    have room2: "lp_count l2 < lp_size l2" using room [OF True] se2 sz2 by (simp add: same_entries_def)
    have wf2: "wf_log l2" using se2 by (simp add: same_entries_def)
    let ?s2 = "s1\<lparr>rlog := l2\<rparr>"
    show ?thesis
    proof (cases "log_callback ?s2 cb_log_offer")
      case None
      have "appended ety (rlog s) (ring_push ety (rlog s1))"
        using appended_push [OF se1 room [OF True], of ety "ety_data ety"] by simp
      then show ?thesis
        using True None by (simp add: log_append_entry_def cap st adv run_simps ol1)
    next
      case (Some f)
      have after: "ensures (do { l \<leftarrow> log_advance_back (rlog t); Some (0 :: int, t\<lparr>rlog := l\<rparr>) })
          (\<lambda>(e, s'). only_log s s' \<and>
            (if e = 0 then appended ety (rlog s) (rlog s') else same_entries (rlog s) (rlog s')))"
        if t: "only_nodes (?s2\<lparr>rlog := l3, hist := h\<rparr>) t" and h: "quiet_ext (hist s1) h"
          and l3: "log_store (ety\<lparr>ety_data := d\<rparr>) l2 = Some l3" for t l3 d h
      proof -
        have "rlog t = l3" using only_nodes_rlog [OF t] by simp
        moreover have "log_advance_back l3 = Some (ring_push (ety\<lparr>ety_data := d\<rparr>) l2)"
          using log_store_spec [OF wf2 room2, of "ety\<lparr>ety_data := d\<rparr>"] l3 by auto
        moreover have "appended ety (rlog s) (ring_push (ety\<lparr>ety_data := d\<rparr>) l2)"
          using appended_push [OF same_entries_trans [OF se1 se2] room2] .
        moreover have "only_log s t"
          using only_log_then_nodes [OF _ t, of s] ol1 h
          by (auto simp: only_log_alt core_def intro: quiet_ext_trans)
        ultimately show ?thesis by (simp add: run_simps)
      qed
      let ?idx = "lp_base (rlog s) + log_count (rlog s) + 1"
      obtain e d where ans: "f (hist s1) ety ?idx = (e, d)" by fastforce
      obtain l3 where st3: "log_store (ety\<lparr>ety_data := d\<rparr>) l2 = Some l3"
        and se3: "same_entries l2 l3"
        using log_store_spec [OF wf2 room2] by blast
      have se: "same_entries (rlog s) l3"
        by (rule same_entries_trans [OF same_entries_trans [OF se1 se2] se3])
      have ol3: "only_log s (emit (Ev_log_offer ety ?idx e) ?s2)" using ol1 by auto
      let ?s3 = "(emit (Ev_log_offer ety ?idx e) ?s2)\<lparr>rlog := l3\<rparr>"
      have s3: "?s3 = ?s2\<lparr>rlog := l3, hist := hist s1 @ [Ev_log_offer ety ?idx e]\<rparr>"
        by (simp add: emit_def)
      have "ensures (raft_offer_log (ety\<lparr>ety_data := d\<rparr>) ?idx ?s3)
          (\<lambda>t. ensures (do { l \<leftarrow> log_advance_back (rlog t); Some (0 :: int, t\<lparr>rlog := l\<rparr>) })
            (\<lambda>(e, s'). only_log s s' \<and>
              (if e = 0 then appended ety (rlog s) (rlog s') else same_entries (rlog s) (rlog s'))))"
        by (rule raft_offer_log_rule, rule after [OF _ _ st3]) (auto simp: s3)
      then show ?thesis
        using True Some ol3 se by (auto simp: log_append_entry_def cap st ans st3 run_simps Let_def)
    qed
  qed
qed

section \<open>Deleting from the tail\<close>

text \<open>The log after deletion holds the first \<open>m\<close> entries.\<close>

definition truncated :: "nat \<Rightarrow> log_private \<Rightarrow> log_private \<Rightarrow> bool" where
  "truncated m l l' \<longleftrightarrow> wf_log l' \<and> lp_base l' = lp_base l \<and> lp_cb l' = lp_cb l \<and>
     log_list l' = take m (log_list l)"

lemma truncated_all: "wf_log l \<Longrightarrow> lp_count l \<le> m \<Longrightarrow> truncated m l l"
  by (simp add: truncated_def)

lemma truncated_pop:
  assumes "wf_log l" "0 < lp_count l" "truncated m (ring_pop l) l'" "m \<le> lp_count l - 1"
  shows "truncated m l l'"
  using assms by (simp add: truncated_def ring_pop_list take_butlast)

lemma ring_pos_less: "wf_log l \<Longrightarrow> (lp_front l + k) mod lp_size l < length (lp_entries l)"
  by (simp add: wf_log_def)

lemma log_delete_youngest_spec:
  assumes "wf_log (rlog s)" "0 < lp_count (rlog s)"
  shows "ensures (log_delete_youngest s) (\<lambda>(e, s'). only_log s s' \<and>
     rlog s' = (if e = 0 then ring_pop (rlog s) else rlog s))"
proof -
  let ?b = "(lp_front (rlog s) + (lp_count (rlog s) - 1)) mod lp_size (rlog s)"
  have "only_log s t \<and> log_retreat_back ?b (rlog t) = ring_pop (rlog s)" if "only_nodes s t" for t
    using that only_nodes_rlog [OF that] log_retreat_back_eq [of "rlog s"]
    by (auto intro: only_nodes_only_log)
  moreover have "only_log s t \<and> log_retreat_back ?b (rlog t) = ring_pop (rlog s)"
    if "only_nodes (emit ev s) t" "quiet_event ev" for t ev
    using that only_nodes_rlog [OF that(1)] log_retreat_back_eq [of "rlog s"]
      only_log_then_nodes [OF only_log_emit [OF ol.R_refl that(2)] that(1)]
    by simp
  ultimately show ?thesis
    using ring_pos_less [OF assms(1), of "lp_count (rlog s) - 1"]
    unfolding log_delete_youngest_def
    by (auto simp: log_mod_back [OF assms] run_simps Let_def ol.R_refl
        intro!: log_pop_hook_rule)
qed

lemma log_delete_loop_spec:
  assumes "wf_log (rlog s)" "lp_base (rlog s) \<le> idx"
  shows "ensures (log_delete_loop idx s) (\<lambda>(e, s'). only_log s s' \<and>
     (\<exists>m. truncated m (rlog s) (rlog s') \<and> int m \<ge> idx - 1 - lp_base (rlog s) \<and>
       (e = 0 \<longrightarrow> m = nat (idx - 1 - lp_base (rlog s)))))"
  using assms
proof (induction idx s rule: log_delete_loop.induct)
  case (1 idx s)
  let ?l = "rlog s"
  show ?case
  proof (cases "idx \<le> lp_base ?l + log_count ?l \<and> lp_count ?l \<noteq> 0")
    case False
    then have "truncated (nat (idx - 1 - lp_base ?l)) ?l ?l"
      using 1(2,3) by (intro truncated_all) (auto simp: log_count_def)
    then show ?thesis
      using False by (subst log_delete_loop.simps) (auto simp: ol.R_refl)
  next
    case True
    then have pos: "0 < lp_count ?l" by simp
    have "ensures (if fst r \<noteq> 0 then Some r else log_delete_loop idx (snd r)) (\<lambda>(e, s'). only_log s s' \<and>
       (\<exists>m. truncated m ?l (rlog s') \<and> int m \<ge> idx - 1 - lp_base ?l \<and>
         (e = 0 \<longrightarrow> m = nat (idx - 1 - lp_base ?l))))"
      if r: "log_delete_youngest s = Some r" for r
    proof -
      obtain e t where rt: "r = (e, t)" by fastforce
      have ol: "only_log s t" and tl: "rlog t = (if e = 0 then ring_pop ?l else ?l)"
        using ensuresD [OF log_delete_youngest_spec [OF 1(2) pos] r] by (simp_all add: rt)
      show ?thesis
      proof (cases "e = 0")
        case False
        have "truncated (lp_count ?l) ?l ?l" by (rule truncated_all [OF 1(2)]) simp
        then show ?thesis
          using False True tl ol by (auto simp: rt run_simps log_count_def intro!: exI [of _ "lp_count ?l"])
      next
        case e0: True
        have "wf_log (rlog t)" "lp_base (rlog t) \<le> idx"
          using tl e0 1(2,3) by (simp_all add: ring_pop_wf)
        with e0 have "ensures (log_delete_loop idx t) (\<lambda>(e, s'). only_log t s' \<and>
           (\<exists>m. truncated m (rlog t) (rlog s') \<and> int m \<ge> idx - 1 - lp_base (rlog t) \<and>
             (e = 0 \<longrightarrow> m = nat (idx - 1 - lp_base (rlog t)))))"
          using 1(1) [OF True r] by (simp add: rt)
        moreover have "truncated (min m (lp_count ?l - 1)) ?l l'" if "truncated m (rlog t) l'" for m l'
          using that tl e0 pos 1(2)
          by (simp add: truncated_def ring_pop_list take_butlast min_def butlast_conv_take)
        ultimately show ?thesis
          using True tl e0 ol pos
          by (fastforce simp: rt ensures_def log_count_def intro: ol.R_trans)
      qed
    qed
    moreover have "log_delete_loop idx s = Option.bind (log_delete_youngest s)
        (\<lambda>r. if fst r \<noteq> 0 then Some r else log_delete_loop idx (snd r))"
      using True by (subst log_delete_loop.simps) simp
    ultimately show ?thesis
      by (simp only: ensures_bind) (rule ensuresI)
  qed
qed

lemma log_delete_spec:
  assumes "wf_log (rlog s)" "idx \<noteq> 0"
  shows "ensures (log_delete idx s) (\<lambda>(e, s'). only_log s s' \<and>
     (\<exists>m. truncated m (rlog s) (rlog s') \<and> int m \<ge> idx - 1 - lp_base (rlog s) \<and>
       (e = 0 \<longrightarrow> m = nat (idx - 1 - lp_base (rlog s)))))"
  using log_delete_loop_spec [OF assms(1), of "max idx (lp_base (rlog s))"] assms(2)
  by (auto simp: log_delete_def Let_def ensures_def max_def)

text \<open>Without configuration entries in the log, deletion always comes to an end.\<close>

definition plain_log :: "log_private \<Rightarrow> bool" where
  "plain_log l \<longleftrightarrow> (\<forall>e \<in> set (log_list l). \<not> raft_entry_is_cfg_change e)"

lemma log_delete_youngest_returns:
  assumes "wf_log (rlog s)" "0 < lp_count (rlog s)" "plain_log (rlog s)"
  shows "succeeds (log_delete_youngest s) (\<lambda>r. True)"
proof -
  let ?k = "lp_count (rlog s) - 1"
  let ?b = "(lp_front (rlog s) + ?k) mod lp_size (rlog s)"
  have "lp_entries (rlog s) ! ?b \<in> set (log_list (rlog s))"
    using assms(2) nth_mem [of ?k "log_list (rlog s)"] by (simp add: nth_log_list)
  then have "\<not> raft_entry_is_cfg_change (lp_entries (rlog s) ! ?b)"
    using assms(3) by (auto simp: plain_log_def)
  then show ?thesis
    using ring_pos_less [OF assms(1), of ?k]
    by (auto simp: log_delete_youngest_def log_mod_back [OF assms(1,2)] run_simps Let_def
        log_pop_hook_def raft_pop_log_def)
qed

lemma log_delete_loop_returns:
  assumes "wf_log (rlog s)" "plain_log (rlog s)"
  shows "succeeds (log_delete_loop idx s) (\<lambda>r. True)"
  using assms
proof (induction idx s rule: log_delete_loop.induct)
  case (1 idx s)
  show ?case
  proof (cases "idx \<le> lp_base (rlog s) + log_count (rlog s) \<and> lp_count (rlog s) \<noteq> 0")
    case False
    then show ?thesis by (subst log_delete_loop.simps) auto
  next
    case True
    then have pos: "0 < lp_count (rlog s)" by simp
    obtain e t where r: "log_delete_youngest s = Some (e, t)"
      using succeedsD [OF log_delete_youngest_returns [OF 1(2) pos 1(3)]] by auto
    have t: "rlog t = (if e = 0 then ring_pop (rlog s) else rlog s)"
      using ensuresD [OF log_delete_youngest_spec [OF 1(2) pos] r] by simp
    show ?thesis
    proof (cases "e = 0")
      case False
      then show ?thesis using True r by (subst log_delete_loop.simps) simp
    next
      case e0: True
      have "plain_log (rlog t)"
        using 1(2,3) t e0 by (auto simp: plain_log_def ring_pop_list dest: in_set_butlastD)
      then have "succeeds (log_delete_loop idx t) (\<lambda>r. True)"
        using 1(1) [OF True r] e0 t 1(2) by (simp add: ring_pop_wf)
      then show ?thesis using True r e0 by (subst log_delete_loop.simps) simp
    qed
  qed
qed

section \<open>Removing the oldest entry\<close>

lemma log_poll_spec:
  assumes "wf_log (rlog s)"
  shows "succeeds (log_poll s) (\<lambda>(e, p, s'). only_log s s' \<and>
     (if e = 0 then 0 < lp_count (rlog s) \<and> p = Some (hd (log_list (rlog s))) \<and>
         rlog s' = ring_shift (rlog s)
      else p = None \<and> rlog s' = rlog s) \<and>
     (lp_count (rlog s) = 0 \<longrightarrow> e = - 1))"
proof (cases "lp_count (rlog s) = 0")
  case True
  then show ?thesis by (simp add: log_poll_def run_simps ol.R_refl Let_def)
next
  case False
  then have "hd (log_list (rlog s)) = lp_entries (rlog s) ! lp_front (rlog s)"
    using assms by (simp add: hd_conv_nth log_list_Nil_iff nth_log_list wf_log_def)
  moreover have "lp_front (rlog s) < length (lp_entries (rlog s))"
    using assms by (simp add: wf_log_def)
  ultimately show ?thesis
    using False assms
    by (auto simp: log_poll_def run_simps Let_def log_advance_front_eq ol.R_refl)
qed

section \<open>What the entries at each index are afterwards\<close>

lemma appended_log_at:
  assumes "wf_log l" "appended ety l l'"
  shows "\<exists>d. \<forall>i. log_at l' i =
    (if i = lp_base l + log_count l + 1 then Some (ety\<lparr>ety_data := d\<rparr>) else log_at l i)"
proof -
  obtain d where l': "wf_log l'" "lp_base l' = lp_base l" "log_list l' = log_list l @ [ety\<lparr>ety_data := d\<rparr>]"
    using assms(2) by (auto simp: appended_def)
  then have "lp_count l' = Suc (lp_count l)"
    by (metis length_append_singleton length_log_list)
  then have "log_at l' i =
      (if i = lp_base l + log_count l + 1 then Some (ety\<lparr>ety_data := d\<rparr>) else log_at l i)" for i
    using l' by (auto simp: log_at_def nth_append log_count_def)
  then show ?thesis by blast
qed

lemma truncated_log_at:
  assumes "truncated m l l'"
  shows "log_at l' i = (if i \<le> lp_base l + int m then log_at l i else None)"
proof -
  have "lp_count l' = min (lp_count l) m"
    using assms by (metis truncated_def length_log_list length_take min.commute)
  then show ?thesis using assms by (auto simp: truncated_def log_at_def)
qed

lemma same_entries_log_at: "same_entries l l' \<Longrightarrow> log_at l' i = log_at l i"
  by (simp add: same_entries_def log_at_def)

end
