(* ===== verification/Raft_Frames.thy ===== *)
theory Raft_Frames
  imports Raft_Replication Raft_Log_Correct
begin

text \<open>
  Frame properties: sending changes nothing but the history, the loops over the peers and the state
  changes leave the term, the vote, the log and the commit and apply indices alone.  Each operation
  gets a rule (\<open>\<dots>_rule\<close>) that the proofs about its callers apply.
\<close>

lemma raft_randomize_quiet: "ensures (raft_randomize_election_timeout s) (quiet s)"
  by (auto simp: raft_randomize_election_timeout_def run_simps Let_def qu.R_refl intro!: reader_rules)

lemmas raft_randomize_rule = raft_randomize_quiet [THEN ensures_state_rule]

lemma raft_set_state_quiet [simp]: "quiet s (raft_set_state st t) = quiet s t"
  "quiet (raft_set_state st s) t = quiet s t"
  by (simp_all add: raft_set_state_def Let_def)

section \<open>Sending\<close>

lemma raft_send_requestvote_only_hist: "ensures (raft_send_requestvote p s) (\<lambda>(e, s'). only_hist s s')"
  unfolding raft_send_requestvote_def
  by (auto simp: run_simps Let_def oh.R_refl intro!: reader_rules ensuresI [where m = p])

lemma call_send_snapshot_only_hist [simp]: "only_hist s (call_send_snapshot a s)"
  by (auto simp: call_send_snapshot_def oh.R_refl split: option.split)

lemma raft_send_appendentries_only_hist:
  "ensures (raft_send_appendentries p s) (\<lambda>(e, s'). only_hist s s')"
  unfolding raft_send_appendentries_def
  by (auto simp: run_simps Let_def oh.R_refl
      intro!: reader_rules ensuresI [where m = p] ensuresI [where m = "ae_prev_log i s" for i s])

lemmas raft_send_requestvote_rule = raft_send_requestvote_only_hist [THEN ensures_pair_rule]
lemmas raft_send_appendentries_rule = raft_send_appendentries_only_hist [THEN ensures_pair_rule]

lemma send_appendentries_loop_only_hist:
  "ensures (send_appendentries_loop as s) (\<lambda>(e, s'). only_hist s s')"
proof (induction as arbitrary: s)
  case Nil
  show ?case by (simp add: oh.R_refl)
next
  case (Cons a as)
  show ?case
    by (auto simp: run_simps Cons.IH intro!: reader_rules raft_send_appendentries_rule
        intro: oh.after [OF _ Cons.IH])
qed

lemma only_hist_quiet: "only_hist s s' \<Longrightarrow> quiet s s'"
  by (blast intro: only_hist_only_nodes only_nodes_quiet)

lemma raft_send_appendentries_all_quiet:
  "ensures (raft_send_appendentries_all s) (\<lambda>(e, s'). quiet s s')"
  using send_appendentries_loop_only_hist [of "nodes s" "s\<lparr>timeout_elapsed := 0\<rparr>"]
  by (auto simp: raft_send_appendentries_all_def Let_def ensures_def dest!: only_hist_quiet)

section \<open>State changes\<close>

lemma raft_become_follower_quiet: "ensures (raft_become_follower s) (quiet s)"
  unfolding raft_become_follower_def
  by (auto simp: run_simps Let_def intro!: raft_randomize_rule)

lemmas raft_become_follower_rule = raft_become_follower_quiet [THEN ensures_state_rule]

lemma update_node_quiet: "ensures (update_node a f s) (quiet s)"
  by (rule update_node_rules(1)) (blast intro: only_nodes_quiet)

lemmas update_node_quiet_rule = update_node_quiet [THEN ensures_state_rule]

lemma become_leader_loop_only_nodes: "ensures (become_leader_loop as s) (only_nodes s)"
proof (induction as arbitrary: s)
  case Nil
  show ?case by (simp add: on.R_refl)
next
  case (Cons a as)
  have "ensures (become_leader_loop as t) (only_nodes s)" if "only_nodes s t" for t
    using Cons.IH [of t] that by (auto simp: ensures_def intro: on.R_trans)
  then show ?case
    by (auto simp: run_simps Cons.IH intro!: reader_rules update_node_rules(1) raft_send_appendentries_rule
        dest!: only_hist_only_nodes intro: on.R_trans)
qed

lemma raft_become_leader_quiet: "ensures (raft_become_leader s) (quiet s)"
  unfolding raft_become_leader_def
  by (auto simp: Let_def run_simps intro!: become_leader_loop_only_nodes [THEN ensures_state_rule]
      dest!: only_nodes_quiet)

lemmas raft_become_leader_rule = raft_become_leader_quiet [THEN ensures_state_rule]

lemma clear_votes_loop_only_nodes: "ensures (clear_votes_loop as s) (only_nodes s)"
proof (induction as arbitrary: s)
  case Nil
  show ?case by (simp add: on.R_refl)
next
  case (Cons a as)
  have "ensures (clear_votes_loop as t) (only_nodes s)" if "only_nodes s t" for t
    using Cons.IH [of t] that by (auto simp: ensures_def intro: on.R_trans)
  then show ?case
    by (auto simp: run_simps intro!: update_node_rules(1))
qed

lemma request_votes_loop_only_hist: "ensures (request_votes_loop as s) (only_hist s)"
proof (induction as arbitrary: s)
  case Nil
  show ?case by (simp add: oh.R_refl)
next
  case (Cons a as)
  have "ensures (request_votes_loop as t) (only_hist s)" if "only_hist s t" for t
    using Cons.IH [of t] that by (auto simp: ensures_def intro: oh.R_trans)
  then show ?case
    by (auto simp: run_simps Cons.IH intro!: reader_rules raft_send_requestvote_rule)
qed

lemma recv_entry_loop_only_hist: "ensures (recv_entry_loop as s) (only_hist s)"
proof (induction as arbitrary: s)
  case Nil
  show ?case by (simp add: oh.R_refl)
next
  case (Cons a as)
  have "ensures (recv_entry_loop as t) (only_hist s)" if "only_hist s t" for t
    using Cons.IH [of t] that by (auto simp: ensures_def intro: oh.R_trans)
  then show ?case
    by (auto simp: run_simps Cons.IH intro!: reader_rules raft_send_appendentries_rule)
qed

section \<open>Parts of the handlers\<close>

lemma aer_failure_only_nodes: "ensures (aer_failure a n r s) (\<lambda>(e, s'). only_nodes s s')"
  unfolding aer_failure_def
  by (auto simp: run_simps Let_def on.R_refl intro!: update_node_rules(1) raft_send_appendentries_rule
      dest!: only_hist_only_nodes intro: on.R_trans)

lemma only_nodes_from_emit: "only_nodes (emit e s) t \<Longrightarrow> quiet_event e \<Longrightarrow> only_nodes s t"
  by (meson on.R_refl on.R_trans only_nodes_emit)

lemma aer_sufficient_logs_only_nodes: "ensures (aer_sufficient_logs a n r s) (only_nodes s)"
  unfolding aer_sufficient_logs_def
  by (auto simp: run_simps Let_def on.R_refl intro!: update_node_rules(1)
      elim!: only_nodes_from_emit)

lemma apply_cfg_change_quiet: "ensures (apply_cfg_change ety i s) (\<lambda>(e, s'). quiet s s')"
  unfolding apply_cfg_change_def
  by (auto simp: run_simps Let_def qu.R_refl split: raft_logtype_e.splits option.splits
      intro!: reader_rules call_log_get_node_id_rule update_node_rules(1) raft_remove_node_rule
        ensuresI [where m = "p :: addr option" for p]
      dest!: only_nodes_quiet intro: qu.R_trans)

lemma apply_cfg_change_result: "ensures (apply_cfg_change ety i s) (\<lambda>(e, s'). e = 0)"
  unfolding apply_cfg_change_def
  by (auto simp: run_simps Let_def split: raft_logtype_e.splits option.splits
      intro!: ensuresI [where m = "call_log_get_node_id ety i s"] reader_rules
        ensuresI [where m = "update_node a f t" for a f t] ensuresI [where m = "raft_remove_node p t" for p t]
        ensuresI [where m = "p :: addr option" for p])

text \<open>
  Applying: the state is untouched, or the next entry is handed to the state machine, with index one
  above the last one applied.
\<close>

definition applied_next :: "raft_server \<Rightarrow> raft_server \<Rightarrow> bool" where
  "applied_next s s' \<longleftrightarrow>
     (\<exists>ety r t. raft_get_entry_from_idx s (last_applied_idx s + 1) = Some (Some ety) \<and>
        last_applied_idx s \<noteq> commit_idx s \<and>
        t = (if cb_applylog (cb s) = None then s
             else emit (Ev_applylog ety (last_applied_idx s + 1) r) s) \<and>
        quiet (t\<lparr>last_applied_idx := last_applied_idx s + 1\<rparr>) s')"

lemma call_applylog_eq:
  "\<exists>r. call_applylog ety s =
     (r, if cb_applylog (cb s) = None then s else emit (Ev_applylog ety (last_applied_idx s) r) s)"
  by (auto simp: call_applylog_def Let_def split: option.splits)

lemma clear_voting_cfg_change_quiet [simp]:
  "quiet (clear_voting_cfg_change i s) t \<longleftrightarrow> quiet s t"
  "quiet t (clear_voting_cfg_change i s) \<longleftrightarrow> quiet t s"
  by (simp_all add: clear_voting_cfg_change_def)

lemma apply_next_entry_spec:
  "ensures (apply_next_entry ety s) (\<lambda>(e, s'). (e = 0 \<or> e = RAFT_ERR_SHUTDOWN) \<and>
     (\<exists>r. quiet ((if cb_applylog (cb s) = None then s
              else emit (Ev_applylog ety (last_applied_idx s + 1) r) s)
           \<lparr>last_applied_idx := last_applied_idx s + 1\<rparr>) s'))"
proof -
  let ?s = "s\<lparr>last_applied_idx := last_applied_idx s + 1\<rparr>"
  obtain r where r: "call_applylog ety ?s =
      (r, if cb_applylog (cb s) = None then ?s
          else emit (Ev_applylog ety (last_applied_idx s + 1) r) ?s)" (is "_ = (r, ?t)")
    using call_applylog_eq [of ety ?s] by auto
  have t: "?t = (if cb_applylog (cb s) = None then s
        else emit (Ev_applylog ety (last_applied_idx s + 1) r) s)
      \<lparr>last_applied_idx := last_applied_idx s + 1\<rparr>"
    by (simp add: emit_def)
  have cfg: "ensures (apply_cfg_change ety i (clear_voting_cfg_change j ?t))
      (\<lambda>(e, s'). e = 0 \<and> quiet ?t s')" for i j
    using apply_cfg_change_quiet [of ety i "clear_voting_cfg_change j ?t"]
      apply_cfg_change_result [of ety i "clear_voting_cfg_change j ?t"]
    by (fastforce simp: ensures_def)
  have "ensures (apply_next_entry ety s)
      (\<lambda>(e, s'). (e = 0 \<or> e = RAFT_ERR_SHUTDOWN) \<and> quiet ?t s')"
    unfolding apply_next_entry_def Let_def r prod.case
    by (intro ensures_if [THEN iffD2] conjI impI ensures_mono [OF cfg])
      (auto simp: qu.R_refl)
  then show ?thesis
    unfolding t by (rule ensures_mono) blast
qed

lemma raft_apply_entry_cases:
  "ensures (raft_apply_entry s) (\<lambda>(e, s').
     e = - 1 \<and> s' = s \<or> (e = 0 \<or> e = RAFT_ERR_SHUTDOWN) \<and> applied_next s s')"
proof (cases "\<not> raft_is_apply_allowed s \<or> last_applied_idx s = commit_idx s")
  case True
  then show ?thesis
    by (auto simp: raft_apply_entry_def raft_get_commit_idx_def)
next
  case False
  then have "raft_apply_entry s = Option.bind (raft_get_entry_from_idx s (last_applied_idx s + 1))
      (\<lambda>p. case p of None \<Rightarrow> Some (- 1, s) | Some ety \<Rightarrow> apply_next_entry ety s)"
    by (simp add: raft_apply_entry_def raft_get_commit_idx_def)
  moreover have "ensures (apply_next_entry ety s) (\<lambda>(e, s').
      e = - 1 \<and> s' = s \<or> (e = 0 \<or> e = RAFT_ERR_SHUTDOWN) \<and> applied_next s s')"
    if "raft_get_entry_from_idx s (last_applied_idx s + 1) = Some (Some ety)" for ety
    using apply_next_entry_spec
    by (rule ensures_mono) (use that False in \<open>auto simp: applied_next_def\<close>)
  ultimately show ?thesis
    by (auto simp: run_simps intro!: ensuresI [where m = "raft_get_entry_from_idx a b" for a b])
qed

lemma applied_next_indices:
  "applied_next s s' \<Longrightarrow> last_applied_idx s' = last_applied_idx s + 1 \<and>
     commit_idx s' = commit_idx s \<and> rlog s' = rlog s \<and> last_applied_idx s \<noteq> commit_idx s"
  by (auto simp: applied_next_def quiet_def)

end
