(* ===== verification/Raft_Guarantee.thy ===== *)
theory Raft_Guarantee
  imports Raft_Snapshot
begin

text \<open>
  What every handler of the server guarantees: an invariant of a single server (\<open>server_ok\<close>) and a
  preorder between the states before and after (\<open>keeps\<close>), put together in \<open>guar\<close>.  The relation says
  that terms never decrease, that a vote is not taken back within a term, that the vote and the term on
  disk are those in memory, that the commit and apply indices never decrease, that entries are applied
  one after the other, and that committed entries are not changed.
\<close>

section \<open>Stable storage and the state machine, as the history shows them\<close>

text \<open>The term and the vote on disk, after a call that persists one of them and succeeds.\<close>

fun stable_write :: "event \<Rightarrow> raft_term \<times> raft_node_id \<Rightarrow> raft_term \<times> raft_node_id" where
  "stable_write (Ev_persist_term t v e) d = (if e = 0 then (t, v) else d)"
| "stable_write (Ev_persist_vote v e) d = (if e = 0 then (fst d, v) else d)"
| "stable_write _ d = d"

definition persisting :: "raft_cbs \<Rightarrow> bool" where
  "persisting c \<longleftrightarrow> cb_persist_term c \<noteq> None \<and> cb_persist_vote c \<noteq> None"

text \<open>The entries handed to the state machine, with their indices.\<close>

fun applied :: "history \<Rightarrow> (raft_index \<times> raft_entry) list" where
  "applied [] = []"
| "applied (Ev_applylog ety i e # h) = (i, ety) # applied h"
| "applied (_ # h) = applied h"

lemma stable_write_quiet: "quiet_event e \<Longrightarrow> stable_write e d = d"
  by (cases e) auto

lemma fold_stable_write_quiet: "list_all quiet_event evs \<Longrightarrow> fold stable_write evs d = d"
  by (induction evs) (auto simp: stable_write_quiet)

lemma applied_append: "applied (h @ h') = applied h @ applied h'"
  by (induction h rule: applied.induct) auto

lemma applied_quiet_event: "quiet_event e \<Longrightarrow> applied (e # h) = applied h"
  by (cases e) auto

lemma applied_quiet: "list_all quiet_event evs \<Longrightarrow> applied evs = []"
  by (induction evs) (auto simp: applied_quiet_event)

section \<open>The relation\<close>

definition server_ok :: "raft_server \<Rightarrow> bool" where
  "server_ok s \<longleftrightarrow> bounded_allocator (env s) \<and> wf_log (rlog s) \<and>
     lp_base (rlog s) \<le> last_applied_idx s \<and> last_applied_idx s \<le> commit_idx s \<and>
     commit_idx s \<le> raft_get_current_idx s \<and>
     (snapshot_in_progress s \<longrightarrow> snapshot_last_idx s \<le> last_applied_idx s)"

definition keeps_log :: "raft_server \<Rightarrow> raft_server \<Rightarrow> bool" where
  "keeps_log s s' \<longleftrightarrow> lp_base (rlog s) \<le> lp_base (rlog s') \<and>
     (\<forall>i. lp_base (rlog s') < i \<and> i \<le> commit_idx s \<longrightarrow> log_at (rlog s') i = log_at (rlog s) i)"

definition keeps_history :: "raft_server \<Rightarrow> raft_server \<Rightarrow> bool" where
  "keeps_history s s' \<longleftrightarrow> (\<exists>evs. hist s' = hist s @ evs \<and>
     (persisting (cb s) \<longrightarrow>
       fold stable_write evs (current_term s, voted_for s) = (current_term s', voted_for s')) \<and>
     (cb_applylog (cb s) \<noteq> None \<longrightarrow>
       map fst (applied evs) = [last_applied_idx s + 1..last_applied_idx s']) \<and>
     (\<forall>(i, ety) \<in> set (applied evs). i \<le> commit_idx s' \<and>
       (lp_base (rlog s') < i \<longrightarrow> log_at (rlog s') i = Some ety)))"

definition keeps_vote :: "raft_server \<Rightarrow> raft_server \<Rightarrow> bool" where
  "keeps_vote s s' \<longleftrightarrow> current_term s \<le> current_term s' \<and>
     (current_term s' = current_term s \<longrightarrow> voted_for s \<noteq> - 1 \<longrightarrow> voted_for s' = voted_for s)"

definition keeps :: "raft_server \<Rightarrow> raft_server \<Rightarrow> bool" where
  "keeps s s' \<longleftrightarrow> cb s' = cb s \<and> env s' = env s \<and> commit_idx s \<le> commit_idx s' \<and>
     last_applied_idx s \<le> last_applied_idx s' \<and>
     keeps_vote s s' \<and> keeps_history s s' \<and> keeps_log s s'"

definition guar :: "raft_server \<Rightarrow> raft_server \<Rightarrow> bool" where
  "guar s s' \<longleftrightarrow> (server_ok s \<longrightarrow> server_ok s' \<and> keeps s s')"

lemma keeps_vote_refl [simp]: "keeps_vote s s"
  by (simp add: keeps_vote_def)

lemma keeps_vote_trans: "keeps_vote s t \<Longrightarrow> keeps_vote t u \<Longrightarrow> keeps_vote s u"
  by (auto simp: keeps_vote_def)

lemma keeps_log_trans:
  assumes "keeps_log s t" "keeps_log t u" "commit_idx s \<le> commit_idx t"
  shows "keeps_log s u"
  using assms unfolding keeps_log_def by (auto intro: order_trans)

lemma keeps_history_trans:
  assumes st: "keeps_history s t" and tu: "keeps_history t u" and cb: "cb t = cb s"
    and lg: "keeps_log t u" "commit_idx t \<le> commit_idx u"
    and le: "last_applied_idx s \<le> last_applied_idx t" "last_applied_idx t \<le> last_applied_idx u"
  shows "keeps_history s u"
proof -
  obtain e1 where e1: "hist t = hist s @ e1"
    "persisting (cb s) \<longrightarrow> fold stable_write e1 (current_term s, voted_for s) = (current_term t, voted_for t)"
    "cb_applylog (cb s) \<noteq> None \<longrightarrow> map fst (applied e1) = [last_applied_idx s + 1..last_applied_idx t]"
    "\<forall>(i, ety) \<in> set (applied e1). i \<le> commit_idx t \<and>
       (lp_base (rlog t) < i \<longrightarrow> log_at (rlog t) i = Some ety)"
    using st by (auto simp: keeps_history_def)
  obtain e2 where e2: "hist u = hist t @ e2"
    "persisting (cb s) \<longrightarrow> fold stable_write e2 (current_term t, voted_for t) = (current_term u, voted_for u)"
    "cb_applylog (cb s) \<noteq> None \<longrightarrow> map fst (applied e2) = [last_applied_idx t + 1..last_applied_idx u]"
    "\<forall>(i, ety) \<in> set (applied e2). i \<le> commit_idx u \<and>
       (lp_base (rlog u) < i \<longrightarrow> log_at (rlog u) i = Some ety)"
    using tu cb by (auto simp: keeps_history_def)
  have upto: "[a + 1..b] @ [b + 1..c] = [a + 1..c]" if "a \<le> b" "b \<le> c" for a b c :: int
    using that upto_split1 [of "a + 1" "b + 1" c] by (cases "b = c") (auto simp: upto_rec1)
  have "hist u = hist s @ e1 @ e2" using e1(1) e2(1) by simp
  moreover have "persisting (cb s) \<longrightarrow>
      fold stable_write (e1 @ e2) (current_term s, voted_for s) = (current_term u, voted_for u)"
    using e1(2) e2(2) by (metis comp_apply fold_append)
  moreover have "cb_applylog (cb s) \<noteq> None \<longrightarrow>
      map fst (applied (e1 @ e2)) = [last_applied_idx s + 1..last_applied_idx u]"
    using e1(3) e2(3) upto [OF le] by (simp only: applied_append map_append) metis
  moreover have "\<forall>(i, ety) \<in> set (applied e1). i \<le> commit_idx u \<and>
      (lp_base (rlog u) < i \<longrightarrow> log_at (rlog u) i = Some ety)"
    using e1(4) lg by (fastforce simp: keeps_log_def)
  then have "\<forall>(i, ety) \<in> set (applied (e1 @ e2)). i \<le> commit_idx u \<and>
      (lp_base (rlog u) < i \<longrightarrow> log_at (rlog u) i = Some ety)"
    using e2(4) by (simp only: applied_append set_append ball_Un)
  ultimately show ?thesis unfolding keeps_history_def by blast
qed

lemma keeps_trans: "keeps s t \<Longrightarrow> keeps t u \<Longrightarrow> keeps s u"
  unfolding keeps_def
  by (elim conjE, intro conjI; (rule keeps_log_trans keeps_history_trans keeps_vote_trans; assumption)?) simp_all

lemma keeps_refl: "keeps s s"
  by (auto simp: keeps_def keeps_log_def keeps_history_def intro!: exI [of _ "[]"])

interpretation gu: preorder_guarantee guar
  by unfold_locales (auto simp: guar_def keeps_refl intro: keeps_trans)

section \<open>Leaves\<close>

lemma quiet_ext_history:
  assumes "quiet_ext (hist s) (hist s')" "current_term s' = current_term s"
    "voted_for s' = voted_for s" "last_applied_idx s' = last_applied_idx s"
  shows "keeps_history s s'"
proof -
  obtain evs where evs: "hist s' = hist s @ evs" "list_all quiet_event evs"
    using assms(1) by (auto simp: quiet_ext_def)
  then show ?thesis
    unfolding keeps_history_def using assms
    by (intro exI [of _ evs]) (simp add: fold_stable_write_quiet applied_quiet)
qed

lemma server_ok_current_idx: "server_ok s \<Longrightarrow> 0 \<le> commit_idx s"
  by (auto simp: server_ok_def wf_log_def)

lemma quiet_guar: "quiet s s' \<Longrightarrow> guar s s'"
  by (auto simp: quiet_def guar_def server_ok_def keeps_def keeps_log_def keeps_vote_def
      raft_get_current_idx_def intro: quiet_ext_history)

text \<open>A step that changes the log only, above the commit index.\<close>

lemma only_log_guar:
  assumes "only_log s s'" and "server_ok s"
    and "wf_log (rlog s')" "lp_base (rlog s') = lp_base (rlog s)"
    and "commit_idx s \<le> raft_get_current_idx s'"
    and "\<And>i. i \<le> commit_idx s \<Longrightarrow> log_at (rlog s') i = log_at (rlog s) i"
  shows "guar s s'"
proof -
  have "quiet_ext (hist s) (hist s')"
    using assms(1) by (simp add: only_log_alt)
  with assms only_log_fields [OF assms(1)] show ?thesis
    by (auto simp: guar_def server_ok_def keeps_def keeps_log_def keeps_vote_def
        intro: quiet_ext_history)
qed

end
