(* ===== verification/Raft_Steps.thy ===== *)
theory Raft_Steps
  imports Raft_Guarantee
begin

text \<open>
  Every operation of the server keeps the guarantee \<open>guar\<close>.  The leaves are the operations that change
  the term, the vote, the log or an index; the handlers follow by composition, since \<open>guar\<close> is a
  preorder.
\<close>

lemma guar_after: "guar s t \<Longrightarrow> ensures m (\<lambda>(e, u). guar t u) \<Longrightarrow> ensures m (\<lambda>(e, u). guar s u)"
  by (rule gu.after)

lemma guar_quiet_trans: "guar s t \<Longrightarrow> quiet t u \<Longrightarrow> guar s u"
  by (blast intro: gu.R_trans quiet_guar)

section \<open>Term, vote and commit index\<close>

lemma keeps_vote_newer: "current_term s < current_term s' \<Longrightarrow> keeps_vote s s'"
  by (simp add: keeps_vote_def)

text \<open>Setting the term: afterwards the vote is free when the term is new.\<close>

lemma set_current_term_guar:
  "ensures (raft_set_current_term term s) (\<lambda>(e, s'). guar s s' \<and> rlog s' = rlog s \<and>
     (e = 0 \<and> current_term s < term \<longrightarrow> current_term s' = term \<and> voted_for s' = - 1))"
proof -
  have new: "guar s (t\<lparr>current_term := term, voted_for := - 1\<rparr>)"
    if "current_term s < term" and t: "t = s \<and> cb_persist_term (cb s) = None \<or>
      t = emit (Ev_persist_term term (- 1) 0) s" for t
  proof -
    have "keeps_history s (t\<lparr>current_term := term, voted_for := - 1\<rparr>)"
      unfolding keeps_history_def using t
      by (intro exI [of _ "drop (length (hist s)) (hist t)"])
        (auto simp: persisting_def)
    then show ?thesis
      using that by (auto simp: guar_def keeps_def keeps_vote_def keeps_log_def server_ok_def
          raft_get_current_idx_def)
  qed
  have fail: "guar s (emit (Ev_persist_term term (- 1) e) s)" if "e \<noteq> 0" for e
  proof -
    have "keeps_history s (emit (Ev_persist_term term (- 1) e) s)"
      unfolding keeps_history_def using that
      by (intro exI [of _ "[Ev_persist_term term (- 1) e]"]) simp
    then show ?thesis
      by (auto simp: guar_def keeps_def keeps_vote_def keeps_log_def server_ok_def
          raft_get_current_idx_def)
  qed
  show ?thesis
    unfolding raft_set_current_term_def
    by (auto simp: Let_def gu.R_refl new fail split: option.split)
qed

lemmas set_current_term_rule = set_current_term_guar [THEN ensures_pair_rule]

text \<open>Voting, when the vote of this term is free or the term is newer than at the start.\<close>

lemma vote_for_nodeid_guar:
  assumes "guar s0 s" and "current_term s0 < current_term s \<or> voted_for s = - 1"
  shows "ensures (raft_vote_for_nodeid v s) (\<lambda>(e, s'). guar s0 s' \<and> rlog s' = rlog s)"
proof -
  have ext: "guar s0 u" if u: "rlog u = rlog s" "cb u = cb s" "env u = env s"
      "commit_idx u = commit_idx s" "last_applied_idx u = last_applied_idx s"
      "snapshot_in_progress u = snapshot_in_progress s"
      "snapshot_last_idx u = snapshot_last_idx s" "current_term u = current_term s"
      "keeps_history s u" for u
  proof -
    have "keeps_vote s0 u" if "keeps_vote s0 s"
      using that assms(2) u unfolding keeps_vote_def by auto
    moreover have "keeps_log s0 u" if "keeps_log s0 s"
      using that u by (simp add: keeps_log_def)
    moreover have "keeps_history s0 u" if "keeps s0 s"
      using that u by (intro keeps_history_trans [OF _ u(9)]) (simp_all add: keeps_def keeps_log_def)
    ultimately show ?thesis
      using assms(1) u by (simp add: guar_def keeps_def server_ok_def raft_get_current_idx_def)
  qed
  have "keeps_history s (t\<lparr>voted_for := v\<rparr>)"
    if "t = s \<and> cb_persist_vote (cb s) = None \<or> t = emit (Ev_persist_vote v 0) s" for t
    unfolding keeps_history_def using that
    by (intro exI [of _ "drop (length (hist s)) (hist t)"]) (auto simp: persisting_def)
  moreover have "keeps_history s (emit (Ev_persist_vote v e) s)" if "e \<noteq> 0" for e
    unfolding keeps_history_def using that
    by (intro exI [of _ "[Ev_persist_vote v e]"]) simp
  ultimately show ?thesis
    unfolding raft_vote_for_nodeid_def
    by (auto simp: Let_def split: option.split intro!: ext)
qed

lemma set_commit_idx_guar: "ensures (raft_set_commit_idx i s) (guar s)"
proof -
  have "keeps_history s (s\<lparr>commit_idx := i\<rparr>)"
    by (rule quiet_ext_history) simp_all
  then show ?thesis
    by (auto simp: raft_set_commit_idx_def run_simps guar_def keeps_def keeps_log_def keeps_vote_def
        server_ok_def raft_get_current_idx_def)
qed

lemmas set_commit_idx_rule = set_commit_idx_guar [THEN ensures_state_rule]

section \<open>The log\<close>

lemma guar_unless: "(server_ok s \<Longrightarrow> ensures m (\<lambda>(e, s'). guar s s')) \<Longrightarrow>
    ensures m (\<lambda>(e, s'). guar s s')"
  by (auto simp: ensures_def guar_def)

lemma log_append_entry_guar: "ensures (log_append_entry ety s) (\<lambda>(e, s'). guar s s')"
proof (rule guar_unless)
  assume ok: "server_ok s"
  then have wf: "wf_log (rlog s)" "bounded_allocator (env s)"
    and c: "commit_idx s \<le> lp_base (rlog s) + log_count (rlog s)"
    by (simp_all add: server_ok_def raft_get_current_idx_def log_get_current_idx_def)
  show "ensures (log_append_entry ety s) (\<lambda>(e, s'). guar s s')"
  proof (rule ensures_pair_rule [OF log_append_entry_spec [OF wf]], clarify)
    fix e s'
    assume ol: "only_log s s'"
      and r: "if e = 0 then appended ety (rlog s) (rlog s') else same_entries (rlog s) (rlog s')"
    show "guar s s'"
    proof (cases "e = 0")
      case True
      with r have ap: "appended ety (rlog s) (rlog s')" by simp
      then have "lp_count (rlog s') = Suc (lp_count (rlog s))"
        unfolding appended_def by (metis length_append_singleton length_log_list)
      with ap obtain d where "\<And>i. log_at (rlog s') i = (if i = lp_base (rlog s) + log_count (rlog s) + 1
          then Some (ety\<lparr>ety_data := d\<rparr>) else log_at (rlog s) i)"
        using appended_log_at [OF wf(1) ap] by auto
      with ap c \<open>lp_count (rlog s') = _\<close> show ?thesis
        by (intro only_log_guar [OF ol ok])
          (auto simp: appended_def raft_get_current_idx_def log_get_current_idx_def log_count_def)
    next
      case False
      with r have se: "same_entries (rlog s) (rlog s')" by simp
      with c show ?thesis
        by (intro only_log_guar [OF ol ok])
          (auto simp: same_entries_def same_entries_log_at [OF se] raft_get_current_idx_def
            log_get_current_idx_def log_count_def)
    qed
  qed
qed

lemma raft_append_entry_guar: "ensures (raft_append_entry ety s) (\<lambda>(e, s'). guar s s')"
  unfolding raft_append_entry_def Let_def
  by (rule guar_after [OF _ log_append_entry_guar]) (simp add: quiet_guar qu.R_refl)

lemma truncated_current_idx:
  "truncated m l l' \<Longrightarrow> log_get_current_idx l' = lp_base l + min (log_count l) (int m)"
  by (auto simp: truncated_def log_get_current_idx_def log_count_def
      simp flip: length_log_list)

lemma raft_delete_entry_from_idx_guar:
  "ensures (raft_delete_entry_from_idx idx s) (\<lambda>(e, s'). guar s s')"
proof (rule guar_unless)
  assume ok: "server_ok s"
  let ?t = "if idx \<le> voting_cfg_change_log_idx s then s\<lparr>voting_cfg_change_log_idx := - 1\<rparr> else s"
  have q: "quiet s ?t" by (simp add: qu.R_refl)
  have ok': "server_ok ?t" using ok quiet_guar [OF q] by (simp add: guar_def)
  have wf: "wf_log (rlog ?t)" and nonneg: "0 \<le> commit_idx s"
    using ok' ok server_ok_current_idx by (auto simp: server_ok_def)
  have "ensures (log_delete idx ?t) (\<lambda>(e, s'). guar s s')" if i: "commit_idx s < idx"
  proof (rule ensures_pair_rule [OF log_delete_spec [OF wf]], use i nonneg in simp, clarify)
    fix e s' m
    assume ol: "only_log ?t s'" and tr: "truncated m (rlog ?t) (rlog s')"
      and m: "idx - 1 - lp_base (rlog ?t) \<le> int m"
    have "commit_idx ?t \<le> lp_base (rlog ?t) + log_count (rlog ?t)" "commit_idx ?t = commit_idx s"
      using ok' by (simp_all add: server_ok_def raft_get_current_idx_def log_get_current_idx_def)
    with i m have "guar ?t s'"
      by (intro only_log_guar [OF ol ok'])
        (use tr in \<open>simp_all only: truncated_log_at [OF tr] truncated_current_idx [OF tr]
            raft_get_current_idx_def\<close>, auto simp: truncated_def)
    then show "guar s s'" using gu.R_trans [OF quiet_guar [OF q]] by blast
  qed
  then show "ensures (raft_delete_entry_from_idx idx s) (\<lambda>(e, s'). guar s s')"
    by (simp add: raft_delete_entry_from_idx_def run_simps Let_def raft_get_commit_idx_def)
qed

lemmas log_guar_rules =
  raft_append_entry_guar [THEN ensures_pair_rule] raft_delete_entry_from_idx_guar [THEN ensures_pair_rule]

section \<open>Fields the guarantee does not look at\<close>

lemmas guar_unfold = guar_def keeps_def keeps_vote_def keeps_log_def keeps_history_def server_ok_def
  raft_get_current_idx_def

lemma guar_update [simp]:
  "guar s (t\<lparr>rstate := st\<rparr>) = guar s t"
  "guar s (t\<lparr>timeout_elapsed := n\<rparr>) = guar s t"
  "guar s (t\<lparr>current_leader := p\<rparr>) = guar s t"
  "guar s (t\<lparr>voting_cfg_change_log_idx := i\<rparr>) = guar s t"
  "guar (s\<lparr>rstate := st\<rparr>) t = guar s t"
  "guar (s\<lparr>timeout_elapsed := n\<rparr>) t = guar s t"
  "guar (s\<lparr>current_leader := p\<rparr>) t = guar s t"
  "guar (s\<lparr>voting_cfg_change_log_idx := i\<rparr>) t = guar s t"
  by (simp_all add: guar_unfold)

lemma guar_set_state [simp]: "guar s (raft_set_state st t) = guar s t"
  by (simp add: raft_set_state_def Let_def)

text \<open>
  The state a handler starts from is \<open>z\<close> in these rules; it is fixed where they are applied.
\<close>

lemma quiet_rule:
  assumes "ensures m (quiet t)" "guar z t" "\<And>u. m = Some u \<Longrightarrow> guar z u \<Longrightarrow> Q u"
  shows "ensures m Q"
  using assms by (auto simp: ensures_def intro: guar_quiet_trans)

lemma guar_rule:
  assumes "ensures m (guar t)" "guar z t" "\<And>u. m = Some u \<Longrightarrow> guar z u \<Longrightarrow> Q u"
  shows "ensures m Q"
  using assms by (auto simp: ensures_def intro: gu.R_trans)

lemma guar_pair_rule:
  assumes "ensures m (\<lambda>(e, u). guar t u)" "guar z t"
    and "\<And>e u. m = Some (e, u) \<Longrightarrow> guar z u \<Longrightarrow> Q (e, u)"
  shows "ensures m Q"
proof (rule ensures_pair_rule [OF assms(1)])
  fix e u assume "m = Some (e, u)" "guar t u"
  with assms(2,3) show "Q (e, u)" by (blast intro: gu.R_trans)
qed

lemma quiet_pair_rule:
  assumes "ensures m (\<lambda>(e, u). quiet t u)" "guar z t"
    and "\<And>e u. m = Some (e, u) \<Longrightarrow> guar z u \<Longrightarrow> Q (e, u)"
  shows "ensures m Q"
proof (rule ensures_pair_rule [OF assms(1)])
  fix e u assume "m = Some (e, u)" "quiet t u"
  with assms(2,3) show "Q (e, u)" by (blast intro: gu.R_trans quiet_guar)
qed

lemma set_term_guar: "ensures (raft_set_current_term term s) (\<lambda>(e, s'). guar s s')"
  by (rule ensures_mono [OF set_current_term_guar]) auto

text \<open>The rules of the operations the handlers call, in one bundle.\<close>

lemmas step_rules =
  quiet_rule [OF raft_become_follower_quiet] quiet_rule [OF raft_become_leader_quiet]
  quiet_rule [OF raft_randomize_quiet] quiet_rule [OF update_node_quiet]
  quiet_pair_rule [OF raft_send_appendentries_all_quiet]
  guar_pair_rule [OF set_term_guar] guar_rule [OF set_commit_idx_guar]
  guar_pair_rule [OF raft_append_entry_guar] guar_pair_rule [OF raft_delete_entry_from_idx_guar]

lemmas more_readers = reader_rules ensuresI [where m = "raft_get_nvotes_for_me s" for s]

section \<open>The handlers\<close>

lemma raft_recv_requestvote_response_guar:
  "ensures (raft_recv_requestvote_response node r s) (\<lambda>(e, s'). guar s s')"
  unfolding raft_recv_requestvote_response_def
  by (auto simp: run_simps gu.R_refl intro!: more_readers step_rules [where z = s])

lemma aer_parts_quiet:
  "ensures (aer_failure a n r s) (\<lambda>(e, u). quiet s u)"
  "ensures (aer_sufficient_logs a n r s) (quiet s)"
  "ensures (raft_send_appendentries p s) (\<lambda>(e, u). quiet s u)"
  using aer_failure_only_nodes [of a n r s] aer_sufficient_logs_only_nodes [of a n r s]
    raft_send_appendentries_only_hist [of p s]
  by (auto simp: ensures_def intro: only_nodes_quiet only_hist_quiet)

lemma aer_update_commit_guar: "ensures (aer_update_commit point s) (guar s)"
  unfolding aer_update_commit_def
  by (auto simp: run_simps Let_def gu.R_refl intro!: more_readers set_commit_idx_guar
      ensuresI [where m = "p :: raft_entry option" for p])

lemma raft_recv_appendentries_response_guar:
  "ensures (raft_recv_appendentries_response node r s) (\<lambda>(e, s'). guar s s')"
  unfolding raft_recv_appendentries_response_def aer_success_tail_def
  by (auto simp: run_simps Let_def gu.R_refl
      intro!: more_readers step_rules [where z = s] quiet_pair_rule [OF aer_parts_quiet(1), where z = s]
        quiet_rule [OF aer_parts_quiet(2), where z = s] quiet_pair_rule [OF aer_parts_quiet(3), where z = s]
        guar_rule [OF aer_update_commit_guar, where z = s])

text \<open>An election: the vote is cast in a newer term, so it takes nothing back.\<close>

lemma raft_vote_guar:
  assumes "guar s0 s" and "current_term s0 < current_term s \<or> voted_for s = - 1"
  shows "ensures (raft_vote p s) (\<lambda>(e, s'). guar s0 s')"
  unfolding raft_vote_def
  by (auto simp: run_simps intro!: reader_rules ensures_mono [OF vote_for_nodeid_guar [OF assms]])

lemma request_votes_loop_quiet: "ensures (request_votes_loop as s) (quiet s)"
  using request_votes_loop_only_hist [of as s] by (auto simp: ensures_def intro: only_hist_quiet)

lemma raft_become_candidate_guar: "ensures (raft_become_candidate s) (\<lambda>(e, s'). guar s s')"
proof -
  have rest: "ensures (candidate_campaign t) (\<lambda>(e, s'). guar s s')"
    if t: "guar s t" "current_term s < current_term t" for t
  proof -
    have vote: "ensures (raft_vote p u) (\<lambda>(e, s'). guar s s')" if "only_nodes t u" for p u
      using that t only_nodes_quiet [OF that]
      by (intro raft_vote_guar) (auto simp: quiet_def intro: guar_quiet_trans only_nodes_quiet)
    show ?thesis
      unfolding candidate_campaign_def
      by (auto simp: run_simps Let_def
          intro!: clear_votes_loop_only_nodes [THEN ensures_state_rule] ensures_pair_rule [OF vote]
            quiet_rule [OF raft_randomize_quiet, where z = s]
            quiet_rule [OF request_votes_loop_quiet, where z = s])
  qed
  show ?thesis
    unfolding raft_become_candidate_def raft_get_current_term_def
    by (subst ensures_bind, rule ensures_mono [OF set_current_term_guar])
      (auto intro!: rest)
qed

lemma should_grant_vote_free: "should_grant_vote s vr = Some True \<Longrightarrow> voted_for s = - 1"
  by (auto simp: should_grant_vote_def Option.bind_eq_Some_conv raft_already_voted_def split: if_splits)

lemma raft_recv_requestvote_guar:
  "ensures (raft_recv_requestvote node vr r s) (\<lambda>(e, r, s'). guar s s')"
proof -
  have grant: "ensures (raft_vote_for_nodeid v t) (\<lambda>(e, u). guar s u)"
    if "guar s t" "should_grant_vote t vr = Some True" for v t
    by (rule ensures_mono [OF vote_for_nodeid_guar [OF that(1)]])
      (auto simp: should_grant_vote_free [OF that(2)])
  show ?thesis
    unfolding raft_recv_requestvote_def recv_requestvote_done_def
    by (auto simp: run_simps Let_def gu.R_refl
        intro!: more_readers step_rules [where z = s] ensuresI [where m = "should_grant_vote t vr" for t]
          ensures_pair_rule [OF grant])
qed

lemma recv_entry_loop_quiet: "ensures (recv_entry_loop as s) (quiet s)"
  using recv_entry_loop_only_hist [of as s] by (auto simp: ensures_def intro: only_hist_quiet)

lemma raft_recv_entry_guar: "ensures (raft_recv_entry ety r s) (\<lambda>(e, ety, r, s'). guar s s')"
  unfolding raft_recv_entry_def
  by (auto simp: run_simps Let_def gu.R_refl
      intro!: more_readers step_rules [where z = s] quiet_rule [OF recv_entry_loop_quiet, where z = s])

text \<open>Receiving entries: the parts of the handler, then the handler.\<close>

definition ae_guar :: "raft_server \<Rightarrow> ae_out \<Rightarrow> bool" where
  "ae_guar s out = guar s (snd (snd out))"

lemma ae_check_term_guar:
  "ensures (ae_check_term ae r s) (\<lambda>x. case x of Inl out \<Rightarrow> ae_guar s out | Inr s' \<Rightarrow> guar s s')"
  unfolding ae_check_term_def
  by (auto simp: run_simps ae_guar_def gu.R_refl intro!: more_readers step_rules [where z = s])

lemma ae_check_prev_guar:
  "ensures (ae_check_prev ae r s) (\<lambda>x. case x of Inl out \<Rightarrow> ae_guar s out | Inr s' \<Rightarrow> s' = s)"
  unfolding ae_check_prev_def
  by (auto simp: run_simps ae_guar_def gu.R_refl intro!: more_readers step_rules [where z = s])

lemma ae_skip_existing_guar:
  "ensures (ae_skip_existing i ae r s)
     (\<lambda>x. case x of Inl out \<Rightarrow> ae_guar s out | Inr (j, r', s') \<Rightarrow> guar s s')"
proof (induction i ae r s rule: ae_skip_existing.induct)
  case (1 i ae r s)
  show ?case
    by (subst ae_skip_existing.simps)
      (auto simp: run_simps Let_def ae_guar_def gu.R_refl
        intro!: more_readers step_rules [where z = s] "1.IH" [unfolded One_nat_def add_Suc_right add_0_right])
qed

lemma ae_append_rest_guar:
  "ensures (ae_append_rest i ae r s)
     (\<lambda>x. case x of Inl out \<Rightarrow> ae_guar z out | Inr (r', s') \<Rightarrow> guar z s')" if "guar z s"
  using that
proof (induction i ae r s rule: ae_append_rest.induct)
  case (1 i ae r s)
  show ?case
    by (subst ae_append_rest.simps)
      (auto simp: run_simps Let_def ae_guar_def "1.prems"
        intro!: more_readers step_rules [where z = z] "1.IH" [unfolded One_nat_def add_Suc_right add_0_right])
qed

lemma ae_update_commit_guar: "ensures (ae_update_commit ae s) (guar s)"
  by (auto simp: ae_update_commit_def run_simps Let_def gu.R_refl intro!: set_commit_idx_guar)

text \<open>Chaining a part that may leave the handler.\<close>

lemma ae_bind:
  assumes "ensures m (\<lambda>x. case x of Inl out \<Rightarrow> ae_guar z out | Inr y \<Rightarrow> P y)"
    and "\<And>y. P y \<Longrightarrow> ensures (f y) (ae_guar z)"
  shows "ensures (Option.bind m (\<lambda>x. case x of Inl out \<Rightarrow> Some out | Inr y \<Rightarrow> f y)) (ae_guar z)"
  using assms by (cases m) (auto split: sum.splits)

lemma ae_guar_mono:
  assumes "ensures m (\<lambda>x. case x of Inl out \<Rightarrow> ae_guar s out | Inr y \<Rightarrow> P y)"
    and "guar z s" and "\<And>y. P y \<Longrightarrow> Q y"
  shows "ensures m (\<lambda>x. case x of Inl out \<Rightarrow> ae_guar z out | Inr y \<Rightarrow> Q y)"
  by (rule ensures_mono [OF assms(1)])
    (use assms(2,3) in \<open>auto simp: ae_guar_def split: sum.splits intro: gu.R_trans\<close>)

lemma ae_finish_guar: "guar z s \<Longrightarrow> ensures (ae_finish i ae r s) (ae_guar z)"
  unfolding ae_finish_def
  by (rule ae_bind [where P = "\<lambda>(r, t). guar z t"], erule ae_append_rest_guar)
    (auto simp: run_simps ae_guar_def intro!: guar_rule [OF ae_update_commit_guar, where z = z])

lemma ae_store_entries_guar:
  assumes "guar z s"
  shows "ensures (ae_store_entries ae r s) (ae_guar z)"
  unfolding ae_store_entries_def
  by (rule ae_bind [where P = "\<lambda>(i, r, t). guar z t"],
      rule ae_guar_mono [OF ae_skip_existing_guar assms])
    (auto intro: gu.R_trans [OF assms] ae_finish_guar)

lemma ae_body_guar: "ensures (ae_body node ae r s) (ae_guar s)"
proof -
  have prev: "ensures (do {
        x \<leftarrow> ae_check_prev ae r t;
        case x of Inl out \<Rightarrow> Some out | Inr me \<Rightarrow> ae_store_entries ae r' me
      }) (ae_guar s)" if "guar s t" for r r' t
    by (rule ae_bind [where P = "\<lambda>u. u = t"], rule ae_guar_mono [OF ae_check_prev_guar that])
      (use that in \<open>auto intro: ae_store_entries_guar\<close>)
  show ?thesis
    unfolding ae_body_def Let_def
    by (rule ae_bind [where P = "guar s"], rule ae_check_term_guar) (rule prev, simp)
qed

lemma raft_recv_appendentries_guar:
  "ensures (raft_recv_appendentries node ae r s) (\<lambda>(e, r, s'). guar s s')"
  unfolding raft_recv_appendentries_def
  by (subst ensures_bind, rule ensures_mono [OF ae_body_guar])
    (auto simp: ae_guar_def Let_def)

section \<open>Applying, ticking, snapshots\<close>

lemma applied_next_guar:
  assumes "applied_next s s'"
  shows "guar s s'"
proof (cases "server_ok s")
  case True
  then have wf: "wf_log (rlog s)" by (simp add: server_ok_def)
  obtain ety r t where t: "t = (if cb_applylog (cb s) = None then s
      else emit (Ev_applylog ety (last_applied_idx s + 1) r) s)"
    and ne: "last_applied_idx s \<noteq> commit_idx s"
    and ety: "raft_get_entry_from_idx s (last_applied_idx s + 1) = Some (Some ety)"
    and q: "quiet (t\<lparr>last_applied_idx := last_applied_idx s + 1\<rparr>) s'"
    using assms by (auto simp: applied_next_def)
  have "log_at (rlog s) (last_applied_idx s + 1) = Some ety"
    using ety log_get_at_idx_eq [OF wf] by (simp add: raft_get_entry_from_idx_def)
  moreover have "last_applied_idx s + 1 \<le> commit_idx s"
    using True ne by (simp add: server_ok_def)
  ultimately have "keeps_history s (t\<lparr>last_applied_idx := last_applied_idx s + 1\<rparr>)"
    unfolding keeps_history_def t
    by (intro exI [of _ "drop (length (hist s)) (hist t)"]) (auto simp: t)
  then have "guar s (t\<lparr>last_applied_idx := last_applied_idx s + 1\<rparr>)"
    using True ne by (auto simp: guar_def keeps_def keeps_vote_def keeps_log_def server_ok_def
        raft_get_current_idx_def t)
  with q show ?thesis by (rule guar_quiet_trans [rotated])
qed (simp add: guar_def)

lemma raft_apply_entry_guar: "ensures (raft_apply_entry s) (\<lambda>(e, s'). guar s s')"
  by (rule ensures_mono [OF raft_apply_entry_cases]) (auto simp: gu.R_refl intro: applied_next_guar)

lemma raft_apply_loop_guar: "ensures (raft_apply_loop s) (\<lambda>(e, s'). guar s s')"
proof (induction s rule: raft_apply_loop.induct)
  case (1 s)
  show ?case
    by (subst raft_apply_loop.simps)
      (auto simp: run_simps gu.R_refl intro!: guar_pair_rule [OF raft_apply_entry_guar, where z = s]
        guar_after [OF _ "1.IH"])
qed

lemma raft_apply_all_guar: "ensures (raft_apply_all s) (\<lambda>(e, s'). guar s s')"
  by (auto simp: raft_apply_all_def gu.R_refl raft_apply_loop_guar)

lemma raft_periodic_guar: "ensures (raft_periodic msec s) (\<lambda>(e, s'). guar s s')"
  unfolding raft_periodic_def periodic_sole_voter_def periodic_timeouts_def raft_election_start_def
  by (auto simp: run_simps Let_def gu.R_refl
      intro!: more_readers step_rules [where z = s] guar_pair_rule [OF raft_become_candidate_guar, where z = s]
        guar_after [OF _ raft_apply_all_guar])

lemma raft_begin_snapshot_guar: "ensures (raft_begin_snapshot flags s) (\<lambda>(e, s'). guar s s')"
proof -
  have begun: "guar s (raft_set_snapshot_metadata term (commit_idx s) t
        \<lparr>snapshot_in_progress := True, snapshot_flags := flags\<rparr>)"
    if "guar s t" "commit_idx t = last_applied_idx t" for "term" t
    using that by (auto simp: guar_unfold raft_set_snapshot_metadata_def)
  show ?thesis
    unfolding raft_begin_snapshot_def
    by (auto simp: run_simps Let_def gu.R_refl raft_getter_defs
        intro!: more_readers guar_pair_rule [OF raft_apply_all_guar, where z = s] begun)
qed

lemma raft_cancel_snapshot_guar: "guar s (snd (raft_cancel_snapshot s))"
  by (auto simp: raft_cancel_snapshot_def gu.R_refl guar_unfold intro!: exI [of _ "[]"])

text \<open>Compaction: the oldest \<open>k\<close> entries go, the indices of the others stay.\<close>

definition compacted :: "nat \<Rightarrow> log_private \<Rightarrow> log_private \<Rightarrow> bool" where
  "compacted k l l' \<longleftrightarrow> wf_log l' \<and> lp_base l' = lp_base l + int k \<and>
     log_list l' = drop k (log_list l) \<and> k \<le> lp_count l"

lemma compacted_log_at:
  assumes "compacted k l l'"
  shows "log_at l' i = (if i \<le> lp_base l + int k then None else log_at l i)"
proof -
  have "lp_count l' = lp_count l - k"
    using assms by (metis compacted_def length_log_list length_drop)
  with assms show ?thesis
    by (auto simp: compacted_def log_at_def intro!: arg_cong [where f = "nth (log_list l)"])
qed

lemma compacted_current_idx:
  assumes "compacted k l l'"
  shows "log_get_current_idx l' = log_get_current_idx l"
proof -
  have "lp_count l' = lp_count l - k"
    using assms by (metis compacted_def length_log_list length_drop)
  with assms show ?thesis
    by (auto simp: compacted_def log_get_current_idx_def log_count_def)
qed

lemma compacted_shift:
  "wf_log l \<Longrightarrow> 0 < lp_count l \<Longrightarrow> compacted k (ring_shift l) l' \<Longrightarrow> compacted (Suc k) l l'"
  by (auto simp: compacted_def ring_shift_list drop_Suc)

lemma raft_poll_entry_spec:
  assumes "wf_log (rlog s)"
  shows "succeeds (raft_poll_entry s) (\<lambda>(e, p, s'). only_log s s' \<and>
     (if e = 0 then 0 < lp_count (rlog s) \<and> p = Some (hd (log_list (rlog s))) \<and>
         rlog s' = ring_shift (rlog s)
      else p = None \<and> rlog s' = rlog s) \<and>
     (lp_count (rlog s) = 0 \<longrightarrow> e = - 1))"
proof -
  obtain e p t where "log_poll s = Some (e, p, t)" "only_log s t"
    "if e = 0 then 0 < lp_count (rlog s) \<and> p = Some (hd (log_list (rlog s))) \<and>
       rlog t = ring_shift (rlog s) else p = None \<and> rlog t = rlog s"
    "lp_count (rlog s) = 0 \<longrightarrow> e = - 1"
    using succeedsD [OF log_poll_spec [OF assms]] by auto
  then show ?thesis by (cases "e = 0") (auto simp: raft_poll_entry_def C_assert_def)
qed

lemma poll_loop_spec:
  "wf_log (rlog s) \<Longrightarrow> succeeds (poll_loop k s) (\<lambda>(ok, s'). only_log s s' \<and>
     (\<exists>j \<le> k. compacted j (rlog s) (rlog s') \<and> (ok \<longrightarrow> j = k)))"
proof (induction k arbitrary: s)
  case 0
  then show ?case by (simp add: ol.R_refl compacted_def)
next
  case (Suc k)
  obtain e p t where t: "raft_poll_entry s = Some (e, p, t)" "only_log s t"
    and r: "if e = 0 then 0 < lp_count (rlog s) \<and> rlog t = ring_shift (rlog s) else rlog t = rlog s"
    using succeedsD [OF raft_poll_entry_spec [OF Suc.prems]] by (auto split: if_splits)
  show ?case
  proof (cases "e = 0")
    case False
    with t r Suc.prems show ?thesis by (auto simp: compacted_def intro!: exI [of _ 0])
  next
    case True
    with r have sh: "rlog t = ring_shift (rlog s)" "0 < lp_count (rlog s)" by simp_all
    then have "wf_log (rlog t)" using Suc.prems by (simp add: ring_shift_wf)
    from succeedsD [OF Suc.IH [OF this]] obtain ok u j where
      u: "poll_loop k t = Some (ok, u)" "only_log t u" "j \<le> k" "compacted j (rlog t) (rlog u)" "ok \<longrightarrow> j = k"
      by auto
    have "compacted (Suc j) (rlog s) (rlog u)"
      using u(4) sh Suc.prems compacted_shift by simp
    with u t True show ?thesis
      by (auto intro: ol.R_trans intro!: exI [of _ "Suc j"])
  qed
qed

lemma send_snapshot_loop_quiet: "quiet z s \<Longrightarrow> ensures (send_snapshot_loop as s) (quiet z)"
proof (induction as arbitrary: s)
  case (Cons a as)
  have "quiet z (call_send_snapshot a s)"
    using Cons.prems call_send_snapshot_only_hist [of s a] by (blast intro: qu.R_trans only_hist_quiet)
  with Cons show ?case by (auto simp: run_simps intro!: reader_rules)
qed simp

lemma compacted_guar:
  assumes ok: "server_ok s" and ol: "only_log s s'" and c: "compacted j (rlog s) (rlog s')"
    and j: "lp_base (rlog s) + int j \<le> last_applied_idx s"
  shows "guar s s'"
proof -
  have "quiet_ext (hist s) (hist s')"
    using ol by (simp add: only_log_alt)
  then have "keeps_history s s'" using only_log_fields [OF ol] by (auto intro: quiet_ext_history)
  moreover have "keeps_log s s'"
    using c by (auto simp: keeps_log_def compacted_log_at [OF c] compacted_def)
  moreover have "server_ok s'"
    using ok j only_log_fields [OF ol] c
    by (auto simp: server_ok_def raft_get_current_idx_def compacted_current_idx [OF c] compacted_def)
  ultimately show ?thesis
    using only_log_fields [OF ol] by (simp add: guar_def keeps_def keeps_vote_def)
qed

lemma guar_snapshot_done [simp]: "guar s t \<Longrightarrow> guar s (t\<lparr>snapshot_in_progress := False\<rparr>)"
  by (auto simp: guar_unfold)

lemma succeeds_imp_ensures: "succeeds m Q \<Longrightarrow> ensures m Q"
  by (auto simp: succeeds_def)

lemma raft_end_snapshot_guar: "ensures (raft_end_snapshot s) (\<lambda>(e, s'). guar s s')"
proof (rule guar_unless)
  assume ok: "server_ok s"
  then have wf: "wf_log (rlog s)" by (simp add: server_ok_def)
  have polled: "ensures (poll_loop (nat (raft_get_num_snapshottable_logs s)) s) (\<lambda>(b, t). guar s t)"
    if "snapshot_in_progress s" "snapshot_last_idx s = commit_idx s"
      "raft_get_num_snapshottable_logs s \<noteq> 0"
  proof -
    have n: "raft_get_num_snapshottable_logs s = commit_idx s - lp_base (rlog s)"
      using that(3) by (auto simp: raft_get_num_snapshottable_logs_def raft_getter_defs
          log_get_base_def split: if_splits)
    have la: "commit_idx s \<le> last_applied_idx s" "lp_base (rlog s) \<le> commit_idx s"
      using ok that by (auto simp: server_ok_def)
    show ?thesis
    proof (rule ensures_pair_rule [OF succeeds_imp_ensures [OF poll_loop_spec [OF wf]]])
      fix b t
      assume "only_log s t \<and> (\<exists>j\<le>nat (raft_get_num_snapshottable_logs s).
          compacted j (rlog s) (rlog t) \<and> (b \<longrightarrow> j = nat (raft_get_num_snapshottable_logs s)))"
      then obtain j where "only_log s t" "compacted j (rlog s) (rlog t)"
        "j \<le> nat (commit_idx s - lp_base (rlog s))"
        using n by auto
      with la show "case (b, t) of (b, t) \<Rightarrow> guar s t"
        using compacted_guar [OF ok \<open>only_log s t\<close>] by simp
    qed
  qed
  show "ensures (raft_end_snapshot s) (\<lambda>(e, s'). guar s s')"
    unfolding raft_end_snapshot_def raft_getter_defs
    by (auto simp: run_simps Let_def gu.R_refl
        intro!: ensures_pair_rule [OF polled]
          quiet_rule [OF send_snapshot_loop_quiet [OF qu.R_refl], where z = s])
qed

section \<open>Membership\<close>

lemma only_nodes_guar: "only_nodes s s' \<Longrightarrow> guar s s'"
  by (blast intro: quiet_guar only_nodes_quiet)

end
