(* ===== verification/Raft_Safety.thy ===== *)
theory Raft_Safety
  imports Raft_Steps
begin

text \<open>
  The server as a state machine: the calls an application makes on it, the states it can reach from
  \<open>raft_new\<close>, and the safety properties that hold in all of them.  The calls are the message handlers,
  the periodic tick, the client operations, taking a snapshot and the membership operations.  Left out
  are the calls that put a server into a state of the application's choice: \<open>raft_begin_load_snapshot\<close> and
  \<open>raft_end_load_snapshot\<close> (treated in \<open>Raft_Snapshot_Correct\<close>), \<open>raft_clear\<close>, and \<open>raft_vote_for_nodeid\<close>
  called from outside.
\<close>

section \<open>Calls and reachable states\<close>

datatype raft_call =
  Call_periodic int
| Call_recv_appendentries "addr option" msg_appendentries msg_appendentries_response
| Call_recv_appendentries_response "addr option" msg_appendentries_response
| Call_recv_requestvote "addr option" msg_requestvote msg_requestvote_response
| Call_recv_requestvote_response "addr option" msg_requestvote_response
| Call_recv_entry raft_entry msg_entry_response
| Call_append_entry raft_entry
| Call_apply_all
| Call_set_current_term raft_term
| Call_set_commit_idx raft_index
| Call_begin_snapshot int
| Call_cancel_snapshot
| Call_end_snapshot
| Call_add_node nat raft_node_id bool
| Call_add_non_voting_node nat raft_node_id bool
| Call_remove_node "addr option"

fun perform :: "raft_call \<Rightarrow> raft_server \<Rightarrow> raft_server option" where
  "perform (Call_periodic ms) s = map_option snd (raft_periodic ms s)"
| "perform (Call_recv_appendentries p ae r) s =
     map_option (snd \<circ> snd) (raft_recv_appendentries p ae r s)"
| "perform (Call_recv_appendentries_response p r) s =
     map_option snd (raft_recv_appendentries_response p r s)"
| "perform (Call_recv_requestvote p vr r) s =
     map_option (snd \<circ> snd) (raft_recv_requestvote p vr r s)"
| "perform (Call_recv_requestvote_response p r) s =
     map_option snd (raft_recv_requestvote_response p r s)"
| "perform (Call_recv_entry ety r) s = map_option (snd \<circ> snd \<circ> snd) (raft_recv_entry ety r s)"
| "perform (Call_append_entry ety) s = map_option snd (raft_append_entry ety s)"
| "perform Call_apply_all s = map_option snd (raft_apply_all s)"
| "perform (Call_set_current_term t) s = map_option snd (raft_set_current_term t s)"
| "perform (Call_set_commit_idx i) s = raft_set_commit_idx i s"
| "perform (Call_begin_snapshot flags) s = map_option snd (raft_begin_snapshot flags s)"
| "perform Call_cancel_snapshot s = Some (snd (raft_cancel_snapshot s))"
| "perform Call_end_snapshot s = map_option snd (raft_end_snapshot s)"
| "perform (Call_add_node u i self) s = map_option snd (raft_add_node u i self s)"
| "perform (Call_add_non_voting_node u i self) s =
     map_option snd (raft_add_non_voting_node u i self s)"
| "perform (Call_remove_node p) s = raft_remove_node p s"

fun perform_all :: "raft_call list \<Rightarrow> raft_server \<Rightarrow> raft_server option" where
  "perform_all [] s = Some s"
| "perform_all (c # cs) s = do { s \<leftarrow> perform c s; perform_all cs s }"

text \<open>A server starts as \<open>raft_new\<close> makes it, with the callbacks the application sets.\<close>

definition raft_start :: "raft_env \<Rightarrow> raft_cbs \<Rightarrow> raft_server option" where
  "raft_start E c = do { p \<leftarrow> raft_new E []; s \<leftarrow> p; Some (raft_set_callbacks c s) }"

inductive raft_reachable :: "raft_env \<Rightarrow> raft_cbs \<Rightarrow> raft_server \<Rightarrow> bool"
  for E :: raft_env and c :: raft_cbs where
  raft_init: "raft_start E c = Some s \<Longrightarrow> raft_reachable E c s"
| raft_call: "raft_reachable E c s \<Longrightarrow> perform call s = Some s' \<Longrightarrow> raft_reachable E c s'"

inductive_cases raft_reachableE: "raft_reachable E c s"

text \<open>Later states of the same server.\<close>

inductive raft_later :: "raft_server \<Rightarrow> raft_server \<Rightarrow> bool" where
  later_refl: "raft_later s s"
| later_call: "raft_later s t \<Longrightarrow> perform call t = Some u \<Longrightarrow> raft_later s u"

lemma perform_guar: "ensures (perform call s) (guar s)"
proof -
  have only: "ensures (map_option snd m) (guar s)"
    if "ensures m (\<lambda>(r, s'). only_nodes s s')" for m :: "('r \<times> raft_server) option"
    using that by (cases m) (auto intro: only_nodes_guar)
  have pair: "ensures (map_option snd m) (guar s)"
    if "ensures m (\<lambda>(r, s'). guar s s')" for m :: "('r \<times> raft_server) option"
    using that by (cases m) auto
  have triple: "ensures (map_option (snd \<circ> snd) m) (guar s)"
    if "ensures m (\<lambda>(r, q, s'). guar s s')" for m :: "('r \<times> 'q \<times> raft_server) option"
    using that by (cases m) auto
  have entry: "ensures (map_option (snd \<circ> snd \<circ> snd) (raft_recv_entry ety r s)) (guar s)" for ety r
    using raft_recv_entry_guar [of ety r s] by (cases "raft_recv_entry ety r s") auto
  have remove: "ensures (raft_remove_node p s) (guar s)" for p
    using raft_remove_node_only_nodes by (rule ensures_mono) (rule only_nodes_guar)
  show ?thesis
    by (cases call; simp only: perform.simps)
      (rule pair raft_periodic_guar triple raft_recv_appendentries_guar raft_recv_requestvote_guar
        raft_recv_appendentries_response_guar raft_recv_requestvote_response_guar entry
        raft_append_entry_guar raft_apply_all_guar set_term_guar set_commit_idx_guar
        raft_begin_snapshot_guar raft_end_snapshot_guar remove
        only [OF raft_add_node_only_nodes] only [OF raft_add_non_voting_node_only_nodes]
      | simp add: raft_cancel_snapshot_guar)+
qed

lemma raft_new_server:
  assumes "raft_new E [] = Some (Some s)"
  shows "env s = E \<and> wf_log (rlog s) \<and> lp_base (rlog s) = 0 \<and> lp_count (rlog s) = 0 \<and>
    commit_idx s = 0 \<and> last_applied_idx s = 0 \<and> current_term s = 0 \<and> voted_for s = - 1 \<and>
    \<not> snapshot_in_progress s \<and> list_all quiet_event (hist s)"
  using assms
  by (auto simp: raft_new_def log_new_def log_alloc_def Let_def zero_server_def emit_def wf_log_def
      raft_randomize_election_timeout_def raft_set_state_def raft_set_snapshot_metadata_def
      Option.bind_eq_Some_conv split: if_splits)

lemma raft_start_ok:
  assumes "raft_start E c = Some s" "bounded_allocator E"
  shows "server_ok s \<and> cb s = c \<and> env s = E \<and> lp_base (rlog s) = 0 \<and> commit_idx s = 0 \<and>
    last_applied_idx s = 0 \<and> current_term s = 0 \<and> voted_for s = - 1 \<and>
    list_all quiet_event (hist s)"
  using assms raft_new_server [of E]
  by (auto simp: raft_start_def Option.bind_eq_Some_conv raft_set_callbacks_def server_ok_def
      log_set_callbacks_def wf_log_def raft_get_current_idx_def log_get_current_idx_def log_count_def)

text \<open>The invariant of reachable states, relative to the start.\<close>

lemma raft_reachable_guar:
  assumes "raft_reachable E c s" "bounded_allocator E"
  shows "\<exists>s0. raft_start E c = Some s0 \<and> server_ok s \<and> keeps s0 s"
  using assms
proof (induction rule: raft_reachable.induct)
  case (raft_init s)
  then show ?case using raft_start_ok keeps_refl by blast
next
  case (raft_call s call s')
  then obtain s0 where s0: "raft_start E c = Some s0" "server_ok s" "keeps s0 s" by blast
  have "guar s s'" using perform_guar raft_call.hyps(2) by (auto simp: ensures_def)
  with s0 show ?case by (auto simp: guar_def intro: keeps_trans)
qed

lemma raft_later_guar: "raft_later s s' \<Longrightarrow> guar s s'"
proof (induction rule: raft_later.induct)
  case (later_call s t call u)
  then show ?case using perform_guar by (auto simp: ensures_def intro: gu.R_trans)
qed (rule gu.R_refl)

lemma raft_reachable_ok: "raft_reachable E c s \<Longrightarrow> bounded_allocator E \<Longrightarrow> server_ok s"
  using raft_reachable_guar by blast

lemma perform_all_reachable:
  "raft_reachable E c s \<Longrightarrow> perform_all cs s = Some s' \<Longrightarrow> raft_reachable E c s'"
  by (induction cs arbitrary: s) (auto simp: Option.bind_eq_Some_conv intro: raft_call)

lemma raft_later_trans: "raft_later s t \<Longrightarrow> perform_all cs t = Some u \<Longrightarrow> raft_later s u"
  by (induction cs arbitrary: t) (auto simp: Option.bind_eq_Some_conv intro: later_call)

lemma perform_all_later: "perform_all cs s = Some s' \<Longrightarrow> raft_later s s'"
  by (rule raft_later_trans [OF later_refl])

section \<open>A concrete run\<close>

text \<open>
  A server on its own: it joins, elects itself on the first tick, takes two entries from a client
  (committed at once, being the only voter) and applies them on the next tick.
\<close>

definition demo_env :: raft_env where
  "demo_env = \<lparr>env_alloc = (\<lambda>h n. n < 68719476736), env_rand = (\<lambda>h. 7)\<rparr>"

definition demo_cbs :: raft_cbs where
  "demo_cbs = no_cbs\<lparr>cb_persist_term := Some (\<lambda>h t v. 0), cb_persist_vote := Some (\<lambda>h v. 0),
     cb_applylog := Some (\<lambda>h e i. 0)\<rparr>"

definition demo_entry :: "raft_entry_id \<Rightarrow> raft_entry" where
  "demo_entry i = zero_entry\<lparr>ety_id := i\<rparr>"

definition demo_calls :: "raft_call list" where
  "demo_calls = [Call_add_node 0 1 True, Call_set_current_term 2, Call_periodic 10,
     Call_recv_entry (demo_entry 11) \<lparr>mer_id = 0, mer_term = 0, mer_idx = 0\<rparr>,
     Call_recv_entry (demo_entry 12) \<lparr>mer_id = 0, mer_term = 0, mer_idx = 0\<rparr>,
     Call_periodic 10]"

definition demo_vote :: "raft_node_id \<Rightarrow> raft_call" where
  "demo_vote i = Call_recv_requestvote None
     \<lparr>rv_term = 5, rv_candidate_id = i, rv_last_log_idx = 2, rv_last_log_term = 2\<rparr>
     \<lparr>rvr_term = 0, rvr_vote_granted = 0\<rparr>"

definition demo_state :: "raft_call list \<Rightarrow> raft_server option" where
  "demo_state cs = do { s \<leftarrow> raft_start demo_env demo_cbs; perform_all cs s }"

definition summary :: "raft_server \<Rightarrow> raft_term \<times> raft_node_id \<times> raft_index \<times> raft_index \<times> raft_index" where
  "summary s = (current_term s, voted_for s, last_applied_idx s, commit_idx s, raft_get_current_idx s)"

text \<open>The definitions that evaluate a run on concrete arguments by rewriting.\<close>

lemma replicate_10: "replicate 10 x = [x, x, x, x, x, x, x, x, x, x]"
  by (simp add: eval_nat_numeral)

lemmas raft_eval =
  Let_def smod_int_alt_def replicate_10 C_assert_def RAFT_NODE_ADDITION_COMMITTED_def
  RAFT_NODE_HAS_SUFFICIENT_LOG_def RAFT_NODE_INACTIVE_def RAFT_NODE_VOTED_FOR_ME_def
  RAFT_NODE_VOTING_def RAFT_NODE_VOTING_COMMITTED_def RAFT_SNAPSHOT_NONBLOCKING_APPLY_def
  ae_body_def ae_check_prev_def ae_check_term_def ae_prev_log_def ae_update_commit_def
  aer_failure_def aer_success_tail_def aer_sufficient_logs_def aer_update_commit_def
  alloc_node_def apply_cfg_change_def apply_next_entry_def call_applylog_def
  call_log_get_node_id_def call_send_snapshot_def candidate_campaign_def
  clear_voting_cfg_change_def demo_calls_def demo_cbs_def demo_entry_def demo_env_def
  demo_state_def demo_vote_def emit_def ensurecapacity_def heap_request_def is_voting_ptr_def
  log_advance_back_def log_advance_front_def log_alloc_def log_append_entry_def log_callback_def
  log_clear_def log_clear_entries_def log_count_def log_delete_def log_delete_youngest_def
  log_empty_def log_get_at_idx_def log_get_base_def log_get_current_idx_def log_get_from_idx_def
  log_load_from_snapshot_def log_mod_def log_new_def log_peektail_def log_poll_def
  log_pop_hook_def log_retreat_back_def log_set_callbacks_def log_slot_def log_store_def
  narrow32_def no_cbs_def node_at_def node_mask_def node_put_voting_def
  notify_membership_event_def periodic_sole_voter_def periodic_timeouts_def raft_add_node_def
  raft_add_node_internal_def raft_add_non_voting_node_def raft_add_non_voting_node_internal_def
  raft_already_voted_def raft_append_entry_def raft_apply_all_def raft_apply_entry_def
  raft_become_candidate_def raft_become_follower_def raft_become_leader_def
  raft_begin_load_snapshot_def raft_begin_snapshot_def raft_cancel_snapshot_def raft_clear_def
  raft_delete_entry_from_idx_def raft_election_start_def raft_end_load_snapshot_def
  raft_end_snapshot_def raft_entry_is_cfg_change_def raft_entry_is_voting_cfg_change_def
  raft_get_commit_idx_def raft_get_current_idx_def raft_get_current_leader_def
  raft_get_current_leader_node_def raft_get_current_term_def raft_get_election_timeout_def
  raft_get_entries_from_idx_def raft_get_entry_from_idx_def raft_get_first_entry_idx_def
  raft_get_last_applied_entry_def raft_get_last_applied_idx_def raft_get_last_log_term_def
  raft_get_log_count_def raft_get_my_node_def raft_get_node_def raft_get_node_from_idx_def
  raft_get_nodeid_def raft_get_num_nodes_def raft_get_num_snapshottable_logs_def
  raft_get_num_voting_nodes_def raft_get_nvotes_for_me_def raft_get_request_timeout_def
  raft_get_snapshot_last_idx_def raft_get_snapshot_last_term_def raft_get_state_def
  raft_get_timeout_elapsed_def raft_get_voted_for_def raft_is_apply_allowed_def
  raft_is_candidate_def raft_is_connected_def raft_is_follower_def raft_is_leader_def
  raft_msg_entry_response_committed_def raft_new_def raft_node_free_def raft_node_get_id_def
  raft_node_get_match_idx_def raft_node_get_next_idx_def raft_node_get_udata_def
  raft_node_has_sufficient_logs_def raft_node_has_vote_for_me_def raft_node_is_active_def
  raft_node_is_addition_committed_def raft_node_is_voting_def raft_node_is_voting_committed_def
  raft_node_new_def raft_node_set_active_def raft_node_set_addition_committed_def
  raft_node_set_has_sufficient_logs_def raft_node_set_match_idx_def raft_node_set_next_idx_def
  raft_node_set_udata_def raft_node_set_voting_def raft_node_set_voting_committed_def
  raft_node_vote_for_me_def raft_offer_log_def raft_periodic_def raft_poll_entry_def
  raft_pop_log_def raft_randomize_election_timeout_def raft_recv_appendentries_def
  raft_recv_appendentries_response_def raft_recv_entry_def raft_recv_requestvote_def
  raft_recv_requestvote_response_def raft_remove_node_def raft_send_appendentries_def
  raft_send_appendentries_all_def raft_send_requestvote_def raft_set_callbacks_def
  raft_set_commit_idx_def raft_set_current_term_def raft_set_election_timeout_def
  raft_set_last_applied_idx_def raft_set_request_timeout_def raft_set_snapshot_metadata_def
  raft_set_state_def raft_snapshot_is_in_progress_def raft_start_def raft_vote_def
  raft_vote_for_nodeid_def raft_votes_is_majority_def raft_voting_change_is_in_progress_def
  recv_requestvote_done_def should_grant_vote_def sizeof_raft_entry_def summary_def
  update_node_def update_node_asserting_def zero_entry_def zero_server_def raft_apply_loop.simps
  ae_finish_def ae_store_entries_def candidate_campaign_def ae_skip_existing.simps ae_append_rest.simps
  ensurecapacity_copy.simps log_delete_loop.simps
  c_rem_def array_get_def array_set_def

lemma demo_bounded: "bounded_allocator demo_env"
  by (simp add: demo_env_def bounded_allocator_def)

lemma demo_summary: "map_option summary (demo_state demo_calls) = Some (2, - 1, 2, 2, 2)"
  by (simp add: raft_eval)

text \<open>A follower that grants its vote to the candidate 7 in term 5, and refuses it to 8 afterwards.\<close>

definition demo_voter :: "raft_call list" where
  "demo_voter = [Call_add_node 0 1 True, Call_add_node 0 7 False, demo_vote 7]"

lemma demo_voter_summary:
  "map_option summary (demo_state demo_voter) = Some (5, 7, 0, 0, 0)"
  "map_option summary (demo_state (demo_voter @ [demo_vote 8])) = Some (5, 7, 0, 0, 0)"
  by (simp_all add: raft_eval demo_voter_def)

lemma perform_all_append:
  "perform_all (cs @ cs') s = Option.bind (perform_all cs s) (perform_all cs')"
proof (induction cs arbitrary: s)
  case (Cons c cs)
  then show ?case by (cases "perform c s") simp_all
qed simp

lemma demo_run:
  assumes "map_option f (demo_state (cs @ cs')) = Some x"
  obtains s s' where "demo_state cs = Some s" "raft_reachable demo_env demo_cbs s"
    "raft_later s s'" "demo_state (cs @ cs') = Some s'" "f s' = x"
  using assms
  by (auto simp: demo_state_def perform_all_append Option.bind_eq_Some_conv
      intro: perform_all_reachable [OF raft_init] perform_all_later)

lemma demo_run1:
  assumes "map_option f (demo_state cs) = Some x"
  obtains s where "demo_state cs = Some s" "raft_reachable demo_env demo_cbs s" "f s = x"
  using assms
  by (auto simp: demo_state_def Option.bind_eq_Some_conv intro: perform_all_reachable [OF raft_init])

section \<open>Properties of every reachable state\<close>

text \<open>
  C2.  A vote is final in every run of the calls above: the term of a server never decreases, and once
  the server has voted in a term it keeps that vote for as long as it stays in the term, whatever
  messages, ticks, client, snapshot-taking and membership calls come.  The allocator refuses blocks of
  2^31 entries or more.  Loading a snapshot is not one of these calls: it can free the vote
  (\<open>load_snapshot_allows_second_vote\<close> in \<open>Raft_Snapshot_Correct\<close>); neither are clearing the server and
  recording a vote from outside.
\<close>

theorem vote_is_final:
  assumes "raft_reachable E c s" "bounded_allocator E" "raft_later s s'"
  shows "current_term s \<le> current_term s' \<and>
    (current_term s' = current_term s \<and> voted_for s \<noteq> - 1 \<longrightarrow> voted_for s' = voted_for s)"
  using raft_later_guar [OF assms(3)] raft_reachable_ok [OF assms(1,2)]
  by (simp add: guar_def keeps_def keeps_vote_def)

lemma vote_is_final_witness:
  "\<exists>s s'. demo_state demo_voter = Some s \<and> demo_state (demo_voter @ [demo_vote 8]) = Some s' \<and>
     current_term s \<le> current_term s' \<and> voted_for s = 7 \<and>
     (current_term s' = current_term s \<and> voted_for s \<noteq> - 1 \<longrightarrow> voted_for s' = voted_for s)"
proof -
  obtain s s' where s: "demo_state demo_voter = Some s" "raft_reachable demo_env demo_cbs s"
    "raft_later s s'" "demo_state (demo_voter @ [demo_vote 8]) = Some s'"
    by (rule demo_run [OF demo_voter_summary(2)])
  moreover have "voted_for s = 7" using demo_voter_summary(1) s(1) by (simp add: summary_def)
  ultimately show ?thesis using vote_is_final [OF s(2) demo_bounded s(3)] by blast
qed

text \<open>
  C3.  Stable storage is never behind: when both persistence callbacks are installed, in every state that
  a run of the calls above reaches the term and the vote that the server has persisted, as the answers of
  \<open>persist_term\<close> and \<open>persist_vote\<close> in its history show, are exactly the term and the vote it works with.
  Loading a snapshot, which is not one of these calls, changes both without persisting them.
\<close>

theorem vote_is_durable:
  assumes "raft_reachable E c s" "bounded_allocator E" "persisting c"
  shows "fold stable_write (hist s) (0, - 1) = (current_term s, voted_for s)"
proof -
  obtain s0 where s0: "raft_start E c = Some s0" "keeps s0 s"
    using raft_reachable_guar [OF assms(1,2)] by blast
  note start = raft_start_ok [OF s0(1) assms(2)]
  obtain evs where "hist s = hist s0 @ evs"
    "fold stable_write evs (0, - 1) = (current_term s, voted_for s)"
    using s0(2) start assms(3) by (auto simp: keeps_def keeps_history_def)
  then show ?thesis using start by (simp add: fold_stable_write_quiet)
qed

lemma vote_is_durable_witness:
  "\<exists>s. demo_state demo_voter = Some s \<and> fold stable_write (hist s) (0, - 1) = (5, 7)"
proof -
  obtain s where s: "demo_state demo_voter = Some s" "raft_reachable demo_env demo_cbs s"
    "summary s = (5, 7, 0, 0, 0)"
    by (rule demo_run1 [OF demo_voter_summary(1)])
  have "persisting demo_cbs" by (simp add: demo_cbs_def persisting_def)
  from vote_is_durable [OF s(2) demo_bounded this] s show ?thesis
    by (simp add: summary_def)
qed

text \<open>
  C27.  The indices stay ordered: the log starts at or below the last applied entry, nothing is applied
  before it is committed, and nothing is committed that the log does not hold.
\<close>

theorem indices_ordered:
  assumes "raft_reachable E c s" "bounded_allocator E"
  shows "0 \<le> log_get_base (rlog s) \<and> log_get_base (rlog s) \<le> last_applied_idx s \<and>
    last_applied_idx s \<le> commit_idx s \<and> commit_idx s \<le> raft_get_current_idx s"
  using raft_reachable_ok [OF assms] by (simp add: server_ok_def wf_log_def log_get_base_def)

lemma indices_ordered_witness:
  "\<exists>s. demo_state demo_calls = Some s \<and> last_applied_idx s = 2 \<and>
     0 \<le> log_get_base (rlog s) \<and> log_get_base (rlog s) \<le> last_applied_idx s \<and>
     last_applied_idx s \<le> commit_idx s \<and> commit_idx s \<le> raft_get_current_idx s"
proof -
  obtain s where s: "demo_state demo_calls = Some s" "raft_reachable demo_env demo_cbs s"
    "summary s = (2, - 1, 2, 2, 2)"
    by (rule demo_run1 [OF demo_summary])
  with indices_ordered [OF s(2) demo_bounded] show ?thesis by (simp add: summary_def)
qed

text \<open>
  C1.  Committed entries are final: the commit index never decreases, and every later lookup of an
  index that was committed finds the very same entry, until compaction removes it (the log then starts
  above it).
\<close>

theorem committed_entries_stay:
  assumes "raft_reachable E c s" "bounded_allocator E" "raft_later s s'"
  shows "commit_idx s \<le> commit_idx s' \<and>
    (\<forall>i. log_get_base (rlog s') < i \<and> i \<le> commit_idx s \<longrightarrow>
      (\<exists>ety. raft_get_entry_from_idx s i = Some (Some ety) \<and>
         raft_get_entry_from_idx s' i = Some (Some ety)))"
proof -
  have ok: "server_ok s" and g: "guar s s'"
    using raft_reachable_ok [OF assms(1,2)] raft_later_guar [OF assms(3)] by simp_all
  then have k: "server_ok s'" "keeps s s'" by (simp_all add: guar_def)
  have wf: "wf_log (rlog s)" "wf_log (rlog s')" using ok k by (simp_all add: server_ok_def)
  have "\<exists>ety. log_at (rlog s) i = Some ety" if "log_get_base (rlog s') < i" "i \<le> commit_idx s" for i
    using ok k that by (auto simp: server_ok_def keeps_def keeps_log_def log_at_def log_get_base_def
        raft_get_current_idx_def log_get_current_idx_def log_count_def)
  with k show ?thesis
    by (auto simp: keeps_def keeps_log_def raft_get_entry_from_idx_def log_get_at_idx_eq wf
        log_get_base_def)
qed

lemma committed_entries_stay_witness:
  "\<exists>s s'. demo_state demo_calls = Some s \<and>
     demo_state (demo_calls @ [Call_begin_snapshot 0, Call_append_entry (demo_entry 13)]) = Some s' \<and>
     commit_idx s = 2 \<and> commit_idx s \<le> commit_idx s' \<and>
     (\<forall>i. log_get_base (rlog s') < i \<and> i \<le> commit_idx s \<longrightarrow>
      (\<exists>ety. raft_get_entry_from_idx s i = Some (Some ety) \<and>
         raft_get_entry_from_idx s' i = Some (Some ety)))"
proof -
  have "map_option summary
      (demo_state (demo_calls @ [Call_begin_snapshot 0, Call_append_entry (demo_entry 13)])) =
    Some (2, - 1, 2, 2, 3)"
    by (simp add: raft_eval)
  from demo_run [OF this] obtain s s' where s: "demo_state demo_calls = Some s"
    "raft_reachable demo_env demo_cbs s" "raft_later s s'"
    "demo_state (demo_calls @ [Call_begin_snapshot 0, Call_append_entry (demo_entry 13)]) = Some s'"
    by blast
  moreover have "commit_idx s = 2" using demo_summary s(1) by (simp add: summary_def)
  ultimately show ?thesis using committed_entries_stay [OF s(2) demo_bounded s(3)] by blast
qed

text \<open>
  C6.  The state machine sees the log in order and without gaps: when \<open>applylog\<close> is installed, in every
  state that a run of the calls above reaches the indices handed to it since the server was created are
  1, 2, ... up to the last applied index.  Loading a snapshot, which is not one of these calls, moves the
  last applied index without applying.
\<close>

theorem applied_in_order:
  assumes "raft_reachable E c s" "bounded_allocator E" "cb_applylog c \<noteq> None"
  shows "map fst (applied (hist s)) = [1..last_applied_idx s]"
proof -
  obtain s0 where s0: "raft_start E c = Some s0" "keeps s0 s"
    using raft_reachable_guar [OF assms(1,2)] by blast
  note start = raft_start_ok [OF s0(1) assms(2)]
  obtain evs where "hist s = hist s0 @ evs" "map fst (applied evs) = [1..last_applied_idx s]"
    using s0(2) start assms(3) by (auto simp: keeps_def keeps_history_def)
  then show ?thesis using start by (simp add: applied_append applied_quiet)
qed

lemma applied_in_order_witness:
  "\<exists>s. demo_state demo_calls = Some s \<and> map fst (applied (hist s)) = [1, 2]"
proof -
  obtain s where s: "demo_state demo_calls = Some s" "raft_reachable demo_env demo_cbs s"
    "summary s = (2, - 1, 2, 2, 2)"
    by (rule demo_run1 [OF demo_summary])
  have "cb_applylog demo_cbs \<noteq> None" by (simp add: demo_cbs_def)
  from applied_in_order [OF s(2) demo_bounded this] s show ?thesis
    by (simp add: summary_def upto.simps)
qed

text \<open>
  C26.  The state machine sees the committed log: an entry that was applied at index \<open>i\<close> is at a
  committed index, and it is the entry that the log returns for \<open>i\<close> as long as the log holds it.
\<close>

theorem applied_entries_are_committed:
  assumes "raft_reachable E c s" "bounded_allocator E" "(i, ety) \<in> set (applied (hist s))"
  shows "i \<le> commit_idx s \<and>
    (log_get_base (rlog s) < i \<longrightarrow> raft_get_entry_from_idx s i = Some (Some ety))"
proof -
  obtain s0 where s0: "raft_start E c = Some s0" "server_ok s" "keeps s0 s"
    using raft_reachable_guar [OF assms(1,2)] by blast
  obtain evs where evs: "hist s = hist s0 @ evs"
    "\<forall>(i, ety) \<in> set (applied evs). i \<le> commit_idx s \<and>
       (lp_base (rlog s) < i \<longrightarrow> log_at (rlog s) i = Some ety)"
    using s0(3) by (auto simp: keeps_def keeps_history_def)
  have "applied (hist s) = applied evs"
    using raft_start_ok [OF s0(1) assms(2)] evs(1) by (simp add: applied_append applied_quiet)
  with evs(2) assms(3) s0(2) show ?thesis
    by (auto simp: raft_get_entry_from_idx_def log_get_at_idx_eq server_ok_def log_get_base_def)
qed

lemma applied_entries_are_committed_witness:
  "\<exists>s ety. demo_state demo_calls = Some s \<and> (2, ety) \<in> set (applied (hist s)) \<and> 2 \<le> commit_idx s \<and>
     (log_get_base (rlog s) < 2 \<longrightarrow> raft_get_entry_from_idx s 2 = Some (Some ety))"
proof -
  have "map_option (\<lambda>s. applied (hist s)) (demo_state demo_calls) =
      Some [(1, (demo_entry 11)\<lparr>ety_term := 2\<rparr>), (2, (demo_entry 12)\<lparr>ety_term := 2\<rparr>)]"
    by (simp add: raft_eval)
  then obtain s where s: "demo_state demo_calls = Some s" "raft_reachable demo_env demo_cbs s"
    "applied (hist s) = [(1, (demo_entry 11)\<lparr>ety_term := 2\<rparr>), (2, (demo_entry 12)\<lparr>ety_term := 2\<rparr>)]"
    by (rule demo_run1)
  then have "(2, (demo_entry 12)\<lparr>ety_term := 2\<rparr>) \<in> set (applied (hist s))" by simp
  with s(1) applied_entries_are_committed [OF s(2) demo_bounded this] show ?thesis by blast
qed

end
