(* ===== verification/Raft_Functional.thy ===== *)
theory Raft_Functional
  imports Raft_Safety
begin

text \<open>
  What single operations of the Raft server do, on every branch: the log operations against the list of
  entries they stand for, the vote, the majority test, the commit rule, the append-entries handler, the
  client's entry, and the snapshot operations.
\<close>

section \<open>The log\<close>

lemma raft_get_entry_eq: "wf_log (rlog s) \<Longrightarrow> raft_get_entry_from_idx s i = Some (log_at (rlog s) i)"
  by (simp add: raft_get_entry_from_idx_def log_get_at_idx_eq)

text \<open>A well-formed log with two entries in a buffer of size three, wrapped around the end.\<close>

definition demo_log :: log_private where
  "demo_log = \<lparr>lp_size = 3, lp_count = 2, lp_front = 2, lp_back = 1, lp_base = 4,
     lp_entries = [demo_entry 6, zero_entry, demo_entry 5], lp_cb = False\<rparr>"

lemma demo_log_wf: "wf_log demo_log"
  by (simp add: demo_log_def wf_log_def)

definition demo_server :: raft_server where
  "demo_server = (zero_server demo_env [])\<lparr>rlog := demo_log, current_term := 3, voted_for := - 1,
     commit_idx := 4, last_applied_idx := 4, election_timeout := 1000, rstate := RAFT_STATE_FOLLOWER,
     voting_cfg_change_log_idx := - 1, cb := demo_cbs, nodes := [1, 2], my_node := Some 1,
     heap := [1 \<mapsto> raft_node_new 0 1, 2 \<mapsto> raft_node_new 0 2], next_addr := 3\<rparr>"

lemma demo_server_fields:
  "wf_log (rlog demo_server)" "env demo_server = demo_env" "server_ok demo_server"
  by (simp_all add: demo_server_def zero_server_def demo_log_wf server_ok_def demo_bounded)
    (simp_all add: demo_log_def raft_get_current_idx_def log_get_current_idx_def log_count_def)

text \<open>
  Appending: when \<open>log_append_entry\<close> succeeds the log is one entry longer, a lookup of the new
  index finds the entry (with the data pointer that \<open>log_offer\<close> may have re-assigned), and every other
  lookup is what it was; this includes the case that the buffer is full and is doubled.
\<close>

theorem log_append_entry_lookup:
  assumes "wf_log (rlog s)" "bounded_allocator (env s)" "log_append_entry ety s = Some (0, s')"
  shows "wf_log (rlog s') \<and> raft_get_current_idx s' = raft_get_current_idx s + 1 \<and>
    (\<exists>d. \<forall>i. raft_get_entry_from_idx s' i =
       (if i = raft_get_current_idx s + 1 then Some (Some (ety\<lparr>ety_data := d\<rparr>))
        else raft_get_entry_from_idx s i))"
proof -
  have ap: "appended ety (rlog s) (rlog s')"
    using ensuresD [OF log_append_entry_spec [OF assms(1,2)] assms(3)] by simp
  then have "lp_count (rlog s') = Suc (lp_count (rlog s))"
    unfolding appended_def by (metis length_append_singleton length_log_list)
  with ap appended_log_at [OF assms(1) ap] assms(1) show ?thesis
    by (auto simp: raft_get_entry_eq appended_def raft_get_current_idx_def log_get_current_idx_def
        log_count_def add.commute)
qed

lemma log_append_entry_lookup_witness:
  "\<exists>s'. log_append_entry (demo_entry 7) demo_server = Some (0, s') \<and> raft_get_current_idx s' = 7"
proof -
  have "\<exists>s'. log_append_entry (demo_entry 7) demo_server = Some (0, s')"
    by (simp add: raft_eval demo_server_def demo_log_def)
  then obtain s' where s': "log_append_entry (demo_entry 7) demo_server = Some (0, s')" by blast
  have "raft_get_current_idx demo_server = 6"
    by (simp add: raft_eval demo_server_def demo_log_def)
  with s' log_append_entry_lookup [OF demo_server_fields(1) _ s'] show ?thesis
    by (simp add: demo_server_fields demo_bounded)
qed

text \<open>
   Deleting a conflicting tail: when \<open>raft_delete_entry_from_idx\<close> succeeds, exactly the entries
  below the given index remain, and the log ends right before it (or where it ended, if that was
  below).
\<close>

theorem raft_delete_entry_lookup:
  assumes "server_ok s" "raft_delete_entry_from_idx idx s = Some (0, s')"
  shows "commit_idx s < idx \<and>
    raft_get_current_idx s' = min (raft_get_current_idx s) (idx - 1) \<and>
    (\<forall>i. raft_get_entry_from_idx s' i = (if i < idx then raft_get_entry_from_idx s i else Some None))"
proof -
  let ?t = "if idx \<le> voting_cfg_change_log_idx s then s\<lparr>voting_cfg_change_log_idx := - 1\<rparr> else s"
  have c: "commit_idx s < idx" and d: "log_delete idx ?t = Some (0, s')"
    using assms(2) by (auto simp: raft_delete_entry_from_idx_def C_assert_def raft_get_commit_idx_def
        Let_def split: if_splits)
  have wf: "wf_log (rlog ?t)" and rl: "rlog ?t = rlog s" and ix: "idx \<noteq> 0" "lp_base (rlog s) < idx"
    using assms(1) c server_ok_current_idx [OF assms(1)] by (auto simp: server_ok_def)
  have tr: "truncated (nat (idx - 1 - lp_base (rlog s))) (rlog s) (rlog s')"
    using ensuresD [OF log_delete_spec [OF wf ix(1)] d] rl by auto
  then have wf': "wf_log (rlog s')" by (simp add: truncated_def)
  have n: "int (nat (idx - 1 - lp_base (rlog s))) = idx - 1 - lp_base (rlog s)" using ix by simp
  have "raft_get_current_idx s' = min (raft_get_current_idx s) (idx - 1)"
    using truncated_current_idx [OF tr] n
    by (simp add: raft_get_current_idx_def log_get_current_idx_def min_def)
  moreover have "log_at (rlog s) i = None" if "i \<le> lp_base (rlog s)" for i
    using that by (simp add: log_at_None_iff)
  ultimately show ?thesis
    using c wf' wf rl n ix(2)
    by (auto simp: raft_get_entry_eq truncated_log_at [OF tr])
qed

lemma raft_delete_entry_lookup_witness:
  "\<exists>s'. raft_delete_entry_from_idx 6 demo_server = Some (0, s') \<and> raft_get_current_idx s' = 5"
proof -
  have "\<exists>s'. raft_delete_entry_from_idx 6 demo_server = Some (0, s')"
    by (simp add: raft_eval demo_server_def demo_log_def)
  then obtain s' where s': "raft_delete_entry_from_idx 6 demo_server = Some (0, s')" by blast
  have "raft_get_current_idx demo_server = 6"
    by (simp add: raft_eval demo_server_def demo_log_def)
  with s' raft_delete_entry_lookup [OF demo_server_fields(3) s'] show ?thesis by simp
qed

text \<open>
   The batch a leader sends: for an index the log holds, \<open>log_get_from_idx\<close> returns a positive number
  of entries, and they are the entries at that index and the ones right after it.
\<close>

theorem log_get_from_idx_batch:
  assumes "wf_log me" "lp_base me < idx" "idx \<le> log_get_current_idx me"
  shows "\<exists>n es. log_get_from_idx me idx = Some (n, Some es) \<and> 0 < n \<and> n = int (length es) \<and>
    idx + n - 1 \<le> log_get_current_idx me \<and>
    (\<forall>k < length es. log_get_at_idx me (idx + int k) = Some (Some (es ! k)))"
proof -
  define k0 where "k0 = nat (idx - 1 - lp_base me)"
  define i where "i = (lp_front me + k0) mod lp_size me"
  define m where "m = (if i < lp_back me then lp_back me - i else lp_size me - i)"
  have base: "0 \<le> lp_base me" and sz: "0 < lp_size me" "lp_size me < 2147483648"
    and len: "length (lp_entries me) = lp_size me" and cnt: "lp_count me \<le> lp_size me"
    and fr: "lp_front me < lp_size me"
    and bk: "lp_back me = (lp_front me + lp_count me) mod lp_size me"
    using assms(1) by (simp_all add: wf_log_def)
  have k0: "k0 < lp_count me" "int k0 = idx - 1 - lp_base me"
    using assms by (auto simp: k0_def log_get_current_idx_def log_count_def)
  have i: "i < lp_size me" using sz by (simp add: i_def)
  have i_eq: "i = (if lp_front me + k0 < lp_size me then lp_front me + k0
                   else lp_front me + k0 - lp_size me)"
    using k0 cnt fr by (simp add: i_def mod_if)
  have bk_eq: "lp_back me = (if lp_front me + lp_count me < lp_size me then lp_front me + lp_count me
                   else lp_front me + lp_count me - lp_size me)"
    using cnt fr by (auto simp: bk mod_if)
  have m: "0 < m" "k0 + m \<le> lp_count me" "i + m \<le> lp_size me"
    using i_eq bk_eq k0(1) cnt fr i by (auto simp: m_def split: if_splits)
  have slot: "log_slot me (idx - 1) = Some i"
    using log_slot_eq [OF assms(1), of "idx - 1"] assms(2) by (simp add: i_def k0_def)
  have n: "narrow32 (if i < lp_back me then int (lp_back me) - int i else int (lp_size me) - int i) = int m"
    using i sz m by (auto simp: m_def of_nat_diff)
  let ?es = "take m (drop i (lp_entries me))"
  have get: "log_get_from_idx me idx = Some (int m, Some ?es)"
    using assms base i len by (auto simp: log_get_from_idx_def slot n C_assert_def
        log_get_current_idx_def log_count_def Let_def)
  have l: "length ?es = m" using m i len by simp
  have "log_get_at_idx me (idx + int k) = Some (Some (?es ! k))" if "k < m" for k
  proof -
    have "(lp_front me + (k0 + k)) mod lp_size me = i + k"
      using that m(3) i by (metis add.assoc i_def add_less_cancel_left less_le_trans mod_add_left_eq
          mod_less)
    moreover have "nat (idx + int k - 1 - lp_base me) = k0 + k" using k0(2) by simp
    moreover have "?es ! k = lp_entries me ! (i + k)" using that m i len by simp
    ultimately show ?thesis
      using that m k0 by (simp add: log_get_at_idx_eq [OF assms(1)] log_at_def nth_log_list)
  qed
  with get l m k0 show ?thesis
    by (intro exI [of _ "int m"] exI [of _ ?es]) (auto simp: log_get_current_idx_def log_count_def)
qed

lemma log_get_from_idx_batch_witness:
  "\<exists>n es. log_get_from_idx demo_log 5 = Some (n, Some es) \<and> 0 < n \<and> n = int (length es) \<and>
    5 + n - 1 \<le> log_get_current_idx demo_log \<and>
    (\<forall>k < length es. log_get_at_idx demo_log (5 + int k) = Some (Some (es ! k)))"
  by (rule log_get_from_idx_batch [OF demo_log_wf])
    (simp_all add: demo_log_def log_get_current_idx_def log_count_def)

section \<open>Elections\<close>

text \<open>
   Two majorities share a voter: if two sets of voters out of the same cluster both pass the test
  \<open>raft_votes_is_majority\<close>, they have a member in common.
\<close>

theorem majorities_intersect:
  assumes "finite V" "A \<subseteq> V" "B \<subseteq> V"
    and "raft_votes_is_majority (int (card V)) (int (card A))"
    and "raft_votes_is_majority (int (card V)) (int (card B))"
  shows "A \<inter> B \<noteq> {}"
proof
  assume "A \<inter> B = {}"
  then have "card A + card B = card (A \<union> B)"
    using assms(1-3) by (metis card_Un_disjoint finite_subset)
  also have "\<dots> \<le> card V" using assms(1-3) by (simp add: card_mono)
  finally have "int (card A) + int (card B) \<le> int (card V)" by linarith
  moreover have "int (card V) div 2 + 1 \<le> int (card A)" "int (card V) div 2 + 1 \<le> int (card B)"
    using assms(4,5) by (simp_all add: raft_votes_is_majority_def Let_def split: if_splits)
  ultimately show False by linarith
qed

lemma majorities_intersect_witness: "{1, 2} \<inter> {2, 3 :: nat} \<noteq> {}"
  by (rule majorities_intersect [of "{1, 2, 3}"]) (simp_all add: raft_votes_is_majority_def)

text \<open>
  The election timeout is random in the promised range: with a positive timeout \<open>et\<close> the call
  returns, the new limit lies in \<open>[et, 2 et)\<close>, and nothing else of the server changes but the record of
  the random number drawn.
\<close>

theorem randomize_in_range:
  assumes "0 < election_timeout s"
  shows "\<exists>s' v. raft_randomize_election_timeout s = Some s' \<and>
    election_timeout s \<le> election_timeout_rand s' \<and>
    election_timeout_rand s' < 2 * election_timeout s \<and>
    s' = (emit (Ev_rand (env_rand (env s) (hist s))) s)\<lparr>election_timeout_rand := v\<rparr>"
proof -
  let ?r = "int (env_rand (env s) (hist s))"
  have et: "election_timeout (emit e s) = election_timeout s" for e by (simp add: emit_def)
  have "raft_randomize_election_timeout s = Some ((emit (Ev_rand (env_rand (env s) (hist s))) s)
      \<lparr>election_timeout_rand := election_timeout s + ?r mod election_timeout s\<rparr>)"
    using assms by (simp add: raft_randomize_election_timeout_def Let_def c_rem_nonneg et)
  moreover have "0 \<le> ?r mod election_timeout s" "?r mod election_timeout s < election_timeout s"
    using assms by simp_all
  ultimately show ?thesis by auto
qed

lemma randomize_in_range_witness:
  "\<exists>s' v. raft_randomize_election_timeout demo_server = Some s' \<and> 1000 \<le> election_timeout_rand s' \<and>
    election_timeout_rand s' < 2000 \<and>
    s' = (emit (Ev_rand (env_rand (env demo_server) (hist demo_server))) demo_server)
      \<lparr>election_timeout_rand := v\<rparr>"
proof -
  have "election_timeout demo_server = 1000" by (simp add: demo_server_def)
  then show ?thesis using randomize_in_range [of demo_server] by simp
qed

text \<open>
   The voting rule: a voting server whose log ends with an entry of term \<open>t\<close> grants its vote exactly
  when the candidate's term is not behind, the vote of this term is free, and the candidate's log is at
  least as up to date (a newer last term, or the same last term and no shorter log).  Terms are taken
  to fit the \<open>int\<close> that the code copies the last term into.
\<close>

theorem should_grant_vote_rule:
  assumes "wf_log (rlog s)"
    and "raft_get_my_node s = Some (Some a)" "node_at s a = Some n" "raft_node_is_voting n"
    and "raft_get_entry_from_idx s (raft_get_current_idx s) = Some (Some ety)"
    and "0 \<le> ety_term ety" "ety_term ety < 2147483648"
  shows "should_grant_vote s vr = Some (current_term s \<le> rv_term vr \<and> voted_for s = - 1 \<and>
    (ety_term ety < rv_last_log_term vr \<or>
     rv_last_log_term vr = ety_term ety \<and> raft_get_current_idx s \<le> rv_last_log_idx vr))"
proof -
  have "raft_get_current_idx s \<noteq> 0"
    using assms(5) by (auto simp: raft_get_entry_from_idx_def log_get_at_idx_def)
  with assms show ?thesis
    by (auto simp: should_grant_vote_def is_voting_ptr_def raft_already_voted_def
        raft_get_current_term_def Let_def)
qed

lemma should_grant_vote_rule_witness:
  "should_grant_vote demo_server
    \<lparr>rv_term = 3, rv_candidate_id = 2, rv_last_log_idx = 6, rv_last_log_term = 0\<rparr> = Some True"
  by (subst should_grant_vote_rule [where a = 1 and n = "raft_node_new 0 1" and ety = "demo_entry 6"])
    (simp_all add: demo_server_fields, simp_all add: raft_eval demo_server_def demo_log_def)

lemma set_term_then:
  "ensures (raft_set_current_term t s) (\<lambda>(e, s'). e = 0 \<and> current_term s < t \<longrightarrow> current_term s' = t)"
  by (rule ensures_mono [OF set_current_term_guar]) auto

text \<open>
  C29.  What a granted vote means: when the response grants the vote, the server was not leading or
  running in that term, it has recorded the vote for the candidate, it is in the candidate's term, and
  either that term is newer than the one it was in or its vote was still free.
\<close>

theorem granted_vote:
  assumes "raft_recv_requestvote node vr r s = Some (e, r', s')" "rvr_vote_granted r' = 1"
  shows "e = 0 \<and> voted_for s' = rv_candidate_id vr \<and> current_term s' = rv_term vr \<and>
    rvr_term r' = rv_term vr \<and> \<not> raft_is_leader s' \<and> \<not> raft_is_candidate s' \<and>
    (current_term s < rv_term vr \<or> current_term s = rv_term vr \<and> voted_for s = - 1)"
proof -
  have vote: "ensures (raft_vote_for_nodeid v t) (\<lambda>(e, u). current_term u = current_term t \<and>
      rstate u = rstate t \<and> (e = 0 \<longrightarrow> voted_for u = v))" for v t
    by (auto simp: raft_vote_for_nodeid_def Let_def split: option.split)
  have follower: "ensures (raft_become_follower t) (\<lambda>u. current_term u = current_term t)" for t
    by (rule ensures_mono [OF raft_become_follower_quiet]) (simp add: quiet_def)
  have grant: "ensures (should_grant_vote t vr) (\<lambda>g. g \<longrightarrow> current_term t \<le> rv_term vr \<and>
      voted_for t = - 1)" for t
    unfolding should_grant_vote_def raft_get_current_term_def raft_already_voted_def
    by (auto simp: run_simps Let_def intro!: reader_rules)
  have "ensures (raft_recv_requestvote node vr r s) (\<lambda>(e, r', s'). rvr_vote_granted r' = 1 \<longrightarrow>
    e = 0 \<and> voted_for s' = rv_candidate_id vr \<and> current_term s' = rv_term vr \<and>
    rvr_term r' = rv_term vr \<and> \<not> raft_is_leader s' \<and> \<not> raft_is_candidate s' \<and>
    (current_term s < rv_term vr \<or> current_term s = rv_term vr \<and> voted_for s = - 1))"
    unfolding raft_recv_requestvote_def recv_requestvote_done_def raft_get_current_term_def
      raft_is_leader_def raft_is_candidate_def raft_get_state_def
    by (auto simp: run_simps Let_def
        intro!: reader_rules ensures_pair_rule [OF vote] ensures_state_rule [OF follower]
          ensures_state_rule [OF grant] ensures_pair_rule [OF set_term_then]) (simp_all split: if_splits)
  with assms show ?thesis by (auto simp: ensures_def)
qed

lemma granted_vote_witness:
  "\<exists>r' s'. raft_recv_requestvote (Some 2)
      \<lparr>rv_term = 5, rv_candidate_id = 2, rv_last_log_idx = 6, rv_last_log_term = 0\<rparr>
      \<lparr>rvr_term = 0, rvr_vote_granted = 0\<rparr> demo_server = Some (0, r', s') \<and>
    rvr_vote_granted r' = 1 \<and> voted_for s' = 2 \<and> current_term s' = 5"
proof -
  let ?vr = "\<lparr>rv_term = 5, rv_candidate_id = 2, rv_last_log_idx = 6, rv_last_log_term = 0\<rparr>"
  let ?r = "\<lparr>rvr_term = 0, rvr_vote_granted = 0\<rparr>"
  have "\<exists>r' s'. raft_recv_requestvote (Some 2) ?vr ?r demo_server = Some (0, r', s') \<and>
      rvr_vote_granted r' = 1"
    by (simp add: raft_eval demo_server_def demo_log_def)
  then obtain r' s' where "raft_recv_requestvote (Some 2) ?vr ?r demo_server = Some (0, r', s')"
    "rvr_vote_granted r' = 1" by blast
  with granted_vote [OF this] show ?thesis by auto
qed

end
