(* ===== verification/Raft_Replication_Correct.thy ===== *)
theory Raft_Replication_Correct
  imports Raft_Functional
begin

text \<open>
  What the leader's and the follower's side of log replication do: winning an election, the commit rule,
  the answers to append-entries messages, the messages sent, a client's entry, and applying everything
  that is committed.
\<close>

section \<open>Voters\<close>

text \<open>
  The nodes that count: active ones with the voting flag, those of them that voted for this server, and
  those that hold the log up to some index.
\<close>

definition node_test :: "(raft_node \<Rightarrow> bool) \<Rightarrow> raft_server \<Rightarrow> addr \<Rightarrow> bool" where
  "node_test P s a \<longleftrightarrow> (case heap s a of None \<Rightarrow> False | Some n \<Rightarrow> P n)"

definition voter :: "raft_server \<Rightarrow> addr \<Rightarrow> bool" where
  "voter s = node_test (\<lambda>n. raft_node_is_active n \<and> raft_node_is_voting n) s"

definition voted_for_me :: "raft_server \<Rightarrow> addr \<Rightarrow> bool" where
  "voted_for_me s = node_test raft_node_has_vote_for_me s"

definition has_up_to :: "raft_index \<Rightarrow> raft_server \<Rightarrow> addr \<Rightarrow> bool" where
  "has_up_to i s = node_test (\<lambda>n. i \<le> raft_node_get_match_idx n) s"

lemma count_nodes_length:
  "count_nodes P skip s as = Some k \<Longrightarrow> k = int (length (filter (\<lambda>b. skip \<noteq> Some b \<and> node_test P s b) as))"
  by (induction as arbitrary: k) (auto simp: node_test_def node_at_def bind_eq_Some_conv split: if_splits)

lemma node_test_update:
  "heap t = (heap s)(a \<mapsto> n') \<Longrightarrow> node_test P t b = (if b = a then P n' else node_test P s b)"
  by (simp add: node_test_def)

lemma node_test_put:
  "heap s a = Some n \<Longrightarrow> heap t = (heap s)(a \<mapsto> n') \<Longrightarrow> P n' = P n \<Longrightarrow> node_test P t = node_test P s"
  by (auto simp: node_test_def fun_eq_iff)

lemma voters_counted: "raft_get_num_voting_nodes s = Some num \<Longrightarrow> num = int (length (filter (voter s) (nodes s)))"
  by (auto simp: raft_get_num_voting_nodes_def voter_def dest: count_nodes_length)

lemma node_test_conj: "node_test (\<lambda>n. P n \<and> Q n) s b \<longleftrightarrow> node_test P s b \<and> node_test Q s b"
  by (simp add: node_test_def split: option.split)

section \<open>Winning an election\<close>

text \<open>
  C28.  Leadership needs a majority: a candidate that leads after a vote response got a granted vote of
  its own term, and more than half of the active voting nodes have voted for it, counting the sender of
  this response and its own vote; the term does not change.
\<close>

theorem leader_by_majority:
  assumes "raft_recv_requestvote_response node r s = Some (e, s')"
    and "rstate s = RAFT_STATE_CANDIDATE" "rstate s' = RAFT_STATE_LEADER"
  shows "rvr_vote_granted r = 1 \<and> rvr_term r = current_term s \<and> current_term s' = current_term s \<and>
    length (filter (voter s) (nodes s)) <
      2 * (length (filter (\<lambda>b. voter s b \<and> my_node s \<noteq> Some b \<and> (node = Some b \<or> voted_for_me s b)) (nodes s)) +
        (if raft_get_nodeid s = Some (voted_for s) then 1 else 0))"
proof -
  have follower: "ensures (raft_become_follower t) (\<lambda>u. rstate u = RAFT_STATE_FOLLOWER)" for t
    unfolding raft_become_follower_def raft_randomize_election_timeout_def raft_set_state_def
    by (auto simp: run_simps Let_def emit_def intro!: reader_rules)
  have vote: "ensures (update_node a f t) (\<lambda>u. update_node a f t = Some u \<and>
      current_term u = current_term t \<and> rstate u = rstate t)" for a f t
    by (rule ensuresI) (auto dest!: ensuresD [OF update_node_only_nodes] only_nodes_fields core_fields)
  have leader: "ensures (raft_become_leader t) (\<lambda>u. current_term u = current_term t)" for t
    by (rule ensures_mono [OF raft_become_leader_quiet]) (simp add: quiet_def)
  have "ensures (raft_recv_requestvote_response node r s) (\<lambda>(e, s'). rstate s' = RAFT_STATE_LEADER \<longrightarrow>
    rvr_vote_granted r = 1 \<and> rvr_term r = current_term s \<and> current_term s' = current_term s \<and>
    (\<exists>t votes num.
      (case node of None \<Rightarrow> Some s | Some a \<Rightarrow> update_node a (\<lambda>n. raft_node_vote_for_me n True) s) = Some t \<and>
      raft_get_nvotes_for_me t = Some votes \<and> raft_get_num_voting_nodes t = Some num \<and>
      raft_votes_is_majority num votes))" if "node = p" for p
    using assms(2) that
    unfolding raft_recv_requestvote_response_def raft_get_current_term_def raft_is_candidate_def
      raft_get_state_def
    by (cases p)
      (auto simp: run_simps raft_set_current_term_def Let_def
        intro!: more_readers ensures_state_rule [OF vote] ensures_state_rule [OF follower]
          ensures_state_rule [OF leader] split: option.split)
  from this [OF refl] assms obtain t votes num where
    granted: "rvr_vote_granted r = 1" "rvr_term r = current_term s" "current_term s' = current_term s"
    and t: "(case node of None \<Rightarrow> Some s | Some a \<Rightarrow> update_node a (\<lambda>n. raft_node_vote_for_me n True) s) = Some t"
    and counts: "raft_get_nvotes_for_me t = Some votes" "raft_get_num_voting_nodes t = Some num"
      "raft_votes_is_majority num votes"
    by (auto simp: ensures_def)
  have same: "nodes t = nodes s" "my_node t = my_node s" "voted_for t = voted_for s"
    "raft_get_nodeid t = raft_get_nodeid s"
    using t by (auto simp: update_node_def node_at_def raft_get_nodeid_def raft_node_get_id_def bind_eq_Some_conv
        split: option.splits)
  have t': "t = s \<and> node = None \<or> (\<exists>a n. node = Some a \<and> heap s a = Some n \<and>
      t = s\<lparr>heap := (heap s)(a \<mapsto> raft_node_vote_for_me n True)\<rparr>)"
    using t by (auto simp: update_node_def node_at_def bind_eq_Some_conv split: option.splits)
  have "voter t = voter s"
    using t'
  proof (elim disjE exE conjE)
    fix a n assume "heap s a = Some n" "t = s\<lparr>heap := (heap s)(a \<mapsto> raft_node_vote_for_me n True)\<rparr>"
    with node_test_put [of s a n t] show ?thesis by (simp add: voter_def)
  qed simp
  then have tests: "voter t b = voter s b" for b by simp
  have votes: "voted_for_me t b \<longleftrightarrow> node = Some b \<or> voted_for_me s b" if "voter s b" for b
    using t' that
  proof (elim disjE exE conjE)
    fix a n assume "node = Some a" "heap s a = Some n" "t = s\<lparr>heap := (heap s)(a \<mapsto> raft_node_vote_for_me n True)\<rparr>"
    then show ?thesis using node_test_update [of t s a] by (auto simp: voted_for_me_def)
  qed simp
  obtain k i where k: "count_nodes (\<lambda>n. raft_node_is_active n \<and> raft_node_is_voting n \<and> raft_node_has_vote_for_me n)
      (my_node t) t (nodes t) = Some k" "raft_get_nodeid t = Some i" "votes = (if voted_for t = i then k + 1 else k)"
    using counts(1) by (auto simp: raft_get_nvotes_for_me_def bind_eq_Some_conv)
  have "k = int (length (filter (\<lambda>b. my_node t \<noteq> Some b \<and> voter t b \<and> voted_for_me t b) (nodes t)))"
    using count_nodes_length [OF k(1)] by (simp add: voter_def voted_for_me_def node_test_conj conj_assoc)
  also have "filter (\<lambda>b. my_node t \<noteq> Some b \<and> voter t b \<and> voted_for_me t b) (nodes t) =
      filter (\<lambda>b. voter s b \<and> my_node s \<noteq> Some b \<and> (node = Some b \<or> voted_for_me s b)) (nodes s)"
    using tests votes by (intro filter_cong) (auto simp: same)
  finally have "votes = int (length (filter (\<lambda>b. voter s b \<and> my_node s \<noteq> Some b \<and> (node = Some b \<or> voted_for_me s b)) (nodes s)) +
      (if raft_get_nodeid s = Some (voted_for s) then 1 else 0))"
    using k(2,3) by (auto simp: same)
  moreover have "num = int (length (filter (voter s) (nodes s)))"
    using voters_counted [OF counts(2)] tests by (simp add: same cong: filter_cong)
  moreover have "num < 2 * votes" using counts(3) by (auto simp: raft_votes_is_majority_def Let_def split: if_splits)
  ultimately have "int (length (filter (voter s) (nodes s))) <
      int (2 * (length (filter (\<lambda>b. voter s b \<and> my_node s \<noteq> Some b \<and> (node = Some b \<or> voted_for_me s b)) (nodes s)) +
        (if raft_get_nodeid s = Some (voted_for s) then 1 else 0)))" by simp
  with granted show ?thesis by (simp only: of_nat_less_iff)
qed

definition demo_candidate :: raft_server where
  "demo_candidate = demo_server\<lparr>rstate := RAFT_STATE_CANDIDATE, voted_for := 1\<rparr>"

lemma leader_by_majority_witness:
  "\<exists>s'. raft_recv_requestvote_response (Some 2) \<lparr>rvr_term = 3, rvr_vote_granted = 1\<rparr> demo_candidate =
      Some (0, s') \<and> rstate s' = RAFT_STATE_LEADER \<and> current_term s' = 3 \<and>
    0 < length (filter (\<lambda>b. voter demo_candidate b \<and> my_node demo_candidate \<noteq> Some b \<and>
      (Some 2 = Some b \<or> voted_for_me demo_candidate b)) (nodes demo_candidate)) +
      (if raft_get_nodeid demo_candidate = Some (voted_for demo_candidate) then 1 else (0 :: nat))"
proof -
  let ?r = "\<lparr>rvr_term = 3, rvr_vote_granted = 1\<rparr>"
  have "\<exists>s'. raft_recv_requestvote_response (Some 2) ?r demo_candidate = Some (0, s') \<and>
      rstate s' = RAFT_STATE_LEADER"
    by (simp add: raft_eval demo_candidate_def demo_server_def demo_log_def)
  moreover have "rstate demo_candidate = RAFT_STATE_CANDIDATE" "current_term demo_candidate = 3"
    by (simp_all add: demo_candidate_def demo_server_def)
  ultimately obtain s' where s: "raft_recv_requestvote_response (Some 2) ?r demo_candidate = Some (0, s')"
    "rstate s' = RAFT_STATE_LEADER" "rstate demo_candidate = RAFT_STATE_CANDIDATE" "current_term demo_candidate = 3" by blast
  from leader_by_majority [OF s(1,3,2)] s show ?thesis by (intro exI [of _ s']) auto
qed

section \<open>The commit rule\<close>

lemma update_commit_rule:
  assumes "aer_update_commit point s = Some s'" "commit_idx s' \<noteq> commit_idx s"
  shows "commit_idx s' = point \<and> commit_idx s < point \<and> point \<le> raft_get_current_idx s \<and>
    (\<exists>ety. raft_get_entry_from_idx s point = Some (Some ety) \<and> ety_term ety = current_term s) \<and>
    length (filter (voter s) (nodes s)) <
      2 * (1 + length (filter (\<lambda>b. my_node s \<noteq> Some b \<and> voter s b \<and> has_up_to point s b) (nodes s)))"
proof -
  from assms obtain ety k num where
    1: "commit_idx s' = point" "commit_idx s < point" "point \<le> raft_get_current_idx s"
      "raft_get_entry_from_idx s point = Some (Some ety)" "ety_term ety = current_term s"
    and k: "count_nodes (\<lambda>n. raft_node_is_active n \<and> raft_node_is_voting n \<and> point \<le> raft_node_get_match_idx n)
       (my_node s) s (nodes s) = Some k"
      "raft_get_num_voting_nodes s = Some num" "num div 2 < 1 + k"
    by (auto simp: aer_update_commit_def raft_set_commit_idx_def C_assert_def raft_get_commit_idx_def
        Let_def bind_eq_Some_conv split: if_splits)
  have "k = int (length (filter (\<lambda>b. my_node s \<noteq> Some b \<and> voter s b \<and> has_up_to point s b) (nodes s)))"
    using count_nodes_length [OF k(1)] by (simp add: voter_def has_up_to_def node_test_conj conj_assoc)
  moreover have "num < 2 * (1 + k)" using k(3) by presburger
  ultimately have "int (length (filter (voter s) (nodes s))) <
      int (2 * (1 + length (filter (\<lambda>b. my_node s \<noteq> Some b \<and> voter s b \<and> has_up_to point s b) (nodes s))))"
    using voters_counted [OF k(2)] by simp
  with 1 show ?thesis by (simp only: of_nat_less_iff) blast
qed

text \<open>Only the success path moves the commit index.\<close>

lemma response_commits:
  assumes run: "raft_recv_appendentries_response node r s = Some (e, s')" and moved: "commit_idx s' \<noteq> commit_idx s"
  obtains a t where "node = Some a" "rstate s = RAFT_STATE_LEADER" "aer_term r = current_term s" "aer_success r \<noteq> 0"
    "aer_sufficient_logs a (the (node_at s a)) r s = Some t" "aer_success_tail a r t = Some (e, s')"
proof -
  have quiet: "commit_idx u = commit_idx v" if "quiet v u" for u v using that by (simp add: quiet_def)
  have step: "ensures (raft_set_current_term k s) (\<lambda>(e, u). commit_idx u = commit_idx s)" for k
    by (auto simp: raft_set_current_term_def run_simps Let_def emit_def raft_get_current_term_def split: option.split)
  have follower: "commit_idx u = commit_idx s" if "raft_set_current_term k s = Some (x, v)"
    "raft_become_follower v = Some u" for k x u v
    using ensuresD [OF step that(1)] quiet [OF ensuresD [OF raft_become_follower_quiet that(2)]] by simp
  have newer: "commit_idx v = commit_idx s" if "raft_set_current_term k s = Some (x, v)" for k x v
    using ensuresD [OF step that] by simp
  have failure: "commit_idx v = commit_idx s" if "aer_failure a n r s = Some (x, v)" for a n x v
    using ensuresD [OF aer_parts_quiet(1) that] quiet by simp
  have logs: "commit_idx v = commit_idx s" if "aer_sufficient_logs a n r s = Some v" for a n v
    using ensuresD [OF aer_parts_quiet(2) that] quiet by simp
  obtain a where a: "node = Some a"
    using run moved by (cases node) (auto simp: raft_recv_appendentries_response_def)
  have l: "raft_is_leader s"
    using run moved by (auto simp: raft_recv_appendentries_response_def a split: if_splits)
  have cur: "\<not> current_term s < aer_term r"
  proof
    assume "current_term s < aer_term r"
    with run l obtain x v where x: "raft_set_current_term (aer_term r) s = Some (x, v)"
      "(if x \<noteq> 0 then Some (x, v) else do { me \<leftarrow> raft_become_follower v; Some (0, me\<lparr>current_leader := None\<rparr>) }) = Some (e, s')"
      by (auto simp: raft_recv_appendentries_response_def a bind_eq_Some_conv)
    with newer [OF x(1)] follower [OF x(1)] moved show False by (auto simp: bind_eq_Some_conv split: if_splits)
  qed
  have eq_term: "current_term s = aer_term r"
    using run moved l cur by (auto simp: raft_recv_appendentries_response_def a split: if_splits)
  obtain n where n: "node_at s a = Some n"
    "(if aer_success r = 0 then aer_failure a n r s
      else do { me \<leftarrow> aer_sufficient_logs a n r s;
        if aer_current_idx r \<le> raft_node_get_match_idx n then Some (0, me) else aer_success_tail a r me }) = Some (e, s')"
    using run l eq_term by (auto simp: raft_recv_appendentries_response_def a Let_def bind_eq_Some_conv cong: if_cong)
  have "aer_success r \<noteq> 0" using n(2) failure moved by (auto split: if_splits)
  moreover from this n(2) obtain t where t: "aer_sufficient_logs a n r s = Some t"
    "(if aer_current_idx r \<le> raft_node_get_match_idx n then Some (0, t) else aer_success_tail a r t) = Some (e, s')"
    by (auto simp: bind_eq_Some_conv)
  moreover have "aer_success_tail a r t = Some (e, s')"
    using t(2) logs [OF t(1)] moved by (auto split: if_splits)
  ultimately show ?thesis
    using that [of a t] a l eq_term n(1) by (simp add: raft_is_leader_def raft_get_state_def)
qed

lemma sufficient_logs_nodes:
  assumes "aer_sufficient_logs a n r s = Some t"
  shows "nodes t = nodes s" "my_node t = my_node s" "rlog t = rlog s" "commit_idx t = commit_idx s"
    "current_term t = current_term s" "voter t = voter s" "has_up_to i t = has_up_to i s"
proof -
  have "nodes t = nodes s \<and> my_node t = my_node s \<and> rlog t = rlog s \<and> commit_idx t = commit_idx s \<and>
      current_term t = current_term s \<and>
      (heap t = heap s \<or> (\<exists>m. heap s a = Some m \<and> heap t = (heap s)(a \<mapsto> raft_node_set_has_sufficient_logs m)))"
    using assms unfolding aer_sufficient_logs_def
    by (auto simp: Let_def update_node_def node_at_def emit_def bind_eq_Some_conv
        split: option.splits if_splits)
  then have h: "heap t = heap s \<or> (\<exists>m. heap s a = Some m \<and> heap t = (heap s)(a \<mapsto> raft_node_set_has_sufficient_logs m))"
    and "nodes t = nodes s \<and> my_node t = my_node s \<and> rlog t = rlog s \<and> commit_idx t = commit_idx s \<and>
      current_term t = current_term s" by blast+
  then show "nodes t = nodes s" "my_node t = my_node s" "rlog t = rlog s" "commit_idx t = commit_idx s"
    "current_term t = current_term s" by simp_all
  have match: "raft_node_get_match_idx (raft_node_set_has_sufficient_logs m) = raft_node_get_match_idx m" for m
    by (simp add: raft_node_get_match_idx_def raft_node_set_has_sufficient_logs_def)
  have "node_test P t = node_test P s" if "\<And>m. P (raft_node_set_has_sufficient_logs m) = P m" for P
    using h
  proof (elim disjE exE conjE)
    fix m assume "heap s a = Some m" "heap t = (heap s)(a \<mapsto> raft_node_set_has_sufficient_logs m)"
    then show ?thesis using that by (rule node_test_put)
  qed (simp add: node_test_def fun_eq_iff)
  then show "voter t = voter s" "has_up_to i t = has_up_to i s"
    by (simp_all add: voter_def has_up_to_def match)
qed

text \<open>
  C4.  The commit rule: when a response to an append-entries message moves the commit index, the receiver
  leads, the response is a success of the current term, and the index moves forward to the acknowledged
  one; the entry there is of the current term, and the active voting nodes that hold the log up to it
  (the sender among them if it votes), with the leader itself counted as one, are more than half of the
  active voting nodes.
\<close>

theorem commit_rule:
  assumes "raft_recv_appendentries_response node r s = Some (e, s')" "commit_idx s' \<noteq> commit_idx s"
  shows "\<exists>a ety. node = Some a \<and> rstate s = RAFT_STATE_LEADER \<and> aer_term r = current_term s \<and> aer_success r \<noteq> 0 \<and>
    commit_idx s' = aer_current_idx r \<and> commit_idx s < aer_current_idx r \<and>
    aer_current_idx r \<le> raft_get_current_idx s \<and>
    raft_get_entry_from_idx s (aer_current_idx r) = Some (Some ety) \<and> ety_term ety = current_term s \<and>
    length (filter (voter s) (nodes s)) <
      2 * (1 + length (filter (\<lambda>b. my_node s \<noteq> Some b \<and> voter s b \<and>
        (b = a \<or> has_up_to (aer_current_idx r) s b)) (nodes s)))"
proof -
  let ?p = "aer_current_idx r"
  obtain a t where a: "node = Some a" "rstate s = RAFT_STATE_LEADER" "aer_term r = current_term s" "aer_success r \<noteq> 0"
    "aer_sufficient_logs a (the (node_at s a)) r s = Some t" "aer_success_tail a r t = Some (e, s')"
    by (rule response_commits [OF assms])
  note same = sufficient_logs_nodes [OF a(5)]
  obtain n where n: "heap t a = Some n"
    using a(6) by (auto simp: aer_success_tail_def update_node_def node_at_def bind_eq_Some_conv)
  define n' where "n' = raft_node_set_match_idx (raft_node_set_next_idx n (?p + 1)) ?p"
  have m: "raft_node_is_active n' = raft_node_is_active n" "raft_node_is_voting n' = raft_node_is_voting n"
    "raft_node_get_match_idx n' = ?p"
    by (simp_all add: n'_def) (simp add: raft_node_get_match_idx_def raft_node_set_match_idx_def)
  define u where "u = t\<lparr>heap := (heap t)(a \<mapsto> n')\<rparr>"
  have up: "update_node a (\<lambda>n. raft_node_set_next_idx n (?p + 1)) t \<bind> update_node a (\<lambda>n. raft_node_set_match_idx n ?p) = Some u"
    by (simp add: update_node_def node_at_def n u_def n'_def)
  obtain v where v: "aer_update_commit ?p u = Some v"
    "(do { n \<leftarrow> node_at v a; ety \<leftarrow> raft_get_entry_from_idx v (raft_node_get_next_idx n);
       if ety \<noteq> None then do { (e, me) \<leftarrow> raft_send_appendentries (Some a) v; Some (0, me) } else Some (0, v) }) = Some (e, s')"
    using a(6) up by (auto simp: aer_success_tail_def bind_eq_Some_conv)
  have sent: "commit_idx w = commit_idx v" if "raft_send_appendentries (Some a) v = Some (x, w)" for x w
    using ensuresD [OF aer_parts_quiet(3) that] by (simp add: quiet_def)
  have commit: "commit_idx s' = commit_idx v"
    using v(2) sent by (auto simp: bind_eq_Some_conv split: if_splits)
  have "commit_idx v \<noteq> commit_idx u" using commit assms(2) same(4) by (simp add: u_def)
  note c = update_commit_rule [OF v(1) this]
  have u: "nodes u = nodes s" "my_node u = my_node s" "rlog u = rlog s" "commit_idx u = commit_idx s"
    "current_term u = current_term s" by (simp_all add: u_def same)
  have idx: "raft_get_current_idx u = raft_get_current_idx s" "raft_get_entry_from_idx u = raft_get_entry_from_idx s"
    by (simp_all add: raft_get_current_idx_def raft_get_entry_from_idx_def fun_eq_iff u(3))
  have tests: "voter u b = voter s b" "voter s b \<Longrightarrow> has_up_to ?p u b \<longleftrightarrow> b = a \<or> has_up_to ?p s b" for b
  proof -
    have h: "heap u = (heap t)(a \<mapsto> n')" by (simp add: u_def)
    show "voter u b = voter s b"
      using node_test_put [OF n h] m(1,2) same(6) by (simp add: voter_def)
    show "has_up_to ?p u b \<longleftrightarrow> b = a \<or> has_up_to ?p s b" if "voter s b"
      using node_test_update [OF h] m(3) same(7) [of ?p] by (simp add: has_up_to_def)
  qed
  have "filter (\<lambda>b. my_node u \<noteq> Some b \<and> voter u b \<and> has_up_to ?p u b) (nodes u) =
      filter (\<lambda>b. my_node s \<noteq> Some b \<and> voter s b \<and> (b = a \<or> has_up_to ?p s b)) (nodes s)"
    "filter (voter u) (nodes u) = filter (voter s) (nodes s)"
    using tests by (intro filter_cong; auto simp: u)+
  with c a(1-4) commit show ?thesis by (simp add: u idx)
qed

definition demo_leader :: raft_server where
  "demo_leader = demo_server\<lparr>rstate := RAFT_STATE_LEADER, current_term := 0,
     heap := [1 \<mapsto> raft_node_new 0 1, 2 \<mapsto> raft_node_new 0 2]\<rparr>"

lemma commit_rule_witness:
  "\<exists>e s'. raft_recv_appendentries_response (Some 2)
      \<lparr>aer_term = 0, aer_success = 1, aer_current_idx = 6, aer_first_idx = 0\<rparr> demo_leader = Some (e, s') \<and>
    commit_idx s' = 6 \<and> 6 \<le> raft_get_current_idx demo_leader"
proof -
  let ?r = "\<lparr>aer_term = 0, aer_success = 1, aer_current_idx = 6, aer_first_idx = 0\<rparr>"
  have "\<exists>e s'. raft_recv_appendentries_response (Some 2) ?r demo_leader = Some (e, s') \<and>
      commit_idx s' \<noteq> commit_idx demo_leader"
    by (simp add: raft_eval demo_leader_def demo_server_def demo_log_def)
  then obtain e s' where "raft_recv_appendentries_response (Some 2) ?r demo_leader = Some (e, s')"
    "commit_idx s' \<noteq> commit_idx demo_leader" by blast
  with commit_rule [OF this] show ?thesis by auto
qed

section \<open>Receiving entries\<close>

text \<open>
  A message from a stale leader changes nothing: an append-entries message of an older term is
  answered with failure, the current term and the end of the log, and the server is left as it was.
\<close>

theorem stale_appendentries:
  assumes "ae_term ae < current_term s"
  shows "raft_recv_appendentries node ae r s = Some (0, r\<lparr>aer_success := 0, aer_term := current_term s,
    aer_current_idx := raft_get_current_idx s, aer_first_idx := ae_prev_log_idx ae + 1\<rparr>, s)"
  using assms
  by (simp add: raft_recv_appendentries_def ae_body_def ae_check_term_def Let_def)

definition demo_ae :: "raft_term \<Rightarrow> raft_index \<Rightarrow> raft_entry list \<Rightarrow> msg_appendentries" where
  "demo_ae t prev es = \<lparr>ae_term = t, ae_prev_log_idx = prev, ae_prev_log_term = 0,
     ae_leader_commit = 0, ae_n_entries = int (length es), ae_entries = es\<rparr>"

definition demo_aer :: msg_appendentries_response where
  "demo_aer = \<lparr>aer_term = 0, aer_success = 0, aer_current_idx = 0, aer_first_idx = 0\<rparr>"

lemma stale_appendentries_witness:
  "raft_recv_appendentries (Some 2) (demo_ae 1 6 []) demo_aer demo_server =
     Some (0, \<lparr>aer_term = 3, aer_success = 0, aer_current_idx = 6, aer_first_idx = 7\<rparr>, demo_server)"
proof -
  have "ae_term (demo_ae 1 6 []) < current_term demo_server"
    "current_term demo_server = 3" "raft_get_current_idx demo_server = 6"
    by (simp_all add: demo_ae_def demo_server_def demo_log_def raft_eval)
  then show ?thesis
    by (subst stale_appendentries) (simp_all add: demo_ae_def demo_aer_def)
qed

text \<open>
  For the success path: \<open>holds\<close> says that the log has, from the position after the previous entry on,
  entries with the terms of the first \<open>m\<close> entries of the message.
\<close>

definition holds :: "msg_appendentries \<Rightarrow> nat \<Rightarrow> log_private \<Rightarrow> bool" where
  "holds ae m l \<longleftrightarrow> (\<forall>k < m. \<exists>ety. log_at l (ae_prev_log_idx ae + 1 + int k) = Some ety \<and>
     ety_term ety = ety_term (ae_entries ae ! k))"

lemma holds_Suc: "holds ae (Suc m) l \<longleftrightarrow> holds ae m l \<and>
    (\<exists>ety. log_at l (ae_prev_log_idx ae + 1 + int m) = Some ety \<and>
       ety_term ety = ety_term (ae_entries ae ! m))"
  by (auto simp: holds_def less_Suc_eq)

lemma holds_cong:
  assumes "holds ae m l" "\<And>i. i < ae_prev_log_idx ae + 1 + int m \<Longrightarrow> log_at l' i = log_at l i"
  shows "holds ae m l'"
  using assms by (auto simp: holds_def)

text \<open>Where the first loop stops: the log ends right before the first entry to append.\<close>

definition ready_at :: "msg_appendentries \<Rightarrow> nat \<Rightarrow> raft_server \<Rightarrow> bool" where
  "ready_at ae j s \<longleftrightarrow> server_ok s \<and> holds ae j (rlog s) \<and>
     (int j < ae_n_entries ae \<longrightarrow> raft_get_current_idx s = ae_prev_log_idx ae + int j)"

lemma log_at_Some_le: "log_at l i = Some e \<Longrightarrow> lp_base l < i \<and> i \<le> log_get_current_idx l"
  by (auto simp: log_at_def log_get_current_idx_def log_count_def split: if_splits)

lemma ae_skip_existing_ready:
  assumes "server_ok s" "lp_base (rlog s) \<le> ae_prev_log_idx ae + int i" "holds ae i (rlog s)"
    "ae_prev_log_idx ae + int i \<le> raft_get_current_idx s"
  shows "ensures (ae_skip_existing i ae r s)
    (\<lambda>x. \<forall>j r' s'. x = Inr (j, r', s') \<longrightarrow> aer_success r' = aer_success r \<and> ready_at ae j s')"
  using assms
proof (induction i ae r s rule: ae_skip_existing.induct)
  case (1 i ae r s)
  let ?x = "ae_prev_log_idx ae + 1 + int i"
  have wf: "wf_log (rlog s)" using "1.prems"(1) by (simp add: server_ok_def)
  have ready: "ready_at ae i t \<and> e = 0" if "raft_delete_entry_from_idx ?x s = Some (e, t)" "e = 0" for e t
  proof -
    have t: "raft_delete_entry_from_idx ?x s = Some (0, t)" using that by simp
    have "server_ok t"
      using ensuresD [OF raft_delete_entry_from_idx_guar t] "1.prems"(1) by (simp add: guar_def)
    moreover have "holds ae i (rlog t)"
    proof (rule holds_cong [OF "1.prems"(3)])
      have "wf_log (rlog t)" using \<open>server_ok t\<close> by (simp add: server_ok_def)
      fix k assume "k < ?x"
      with raft_delete_entry_lookup [OF "1.prems"(1) t]
      have "raft_get_entry_from_idx t k = raft_get_entry_from_idx s k" by simp
      then show "log_at (rlog t) k = log_at (rlog s) k"
        by (simp add: raft_get_entry_eq [OF wf] raft_get_entry_eq [OF \<open>wf_log (rlog t)\<close>])
    qed
    ultimately show ?thesis
      using raft_delete_entry_lookup [OF "1.prems"(1) t] "1.prems"(4) that(2) by (simp add: ready_at_def)
  qed
  have stop: "ready_at ae i s" if "log_at (rlog s) ?x = None"
    using that "1.prems" unfolding ready_at_def log_at_None_iff
    by (auto simp: raft_get_current_idx_def log_get_current_idx_def log_count_def)
  have go: "ensures (ae_skip_existing (i + 1) ae (r\<lparr>aer_current_idx := ?x\<rparr>) s)
      (\<lambda>x. \<forall>j r' s'. x = Inr (j, r', s') \<longrightarrow> aer_success r' = aer_success r \<and> ready_at ae j s')"
    if "int i < ae_n_entries ae" "array_get (ae_entries ae) i = Some ety"
      "log_at (rlog s) ?x = Some ex" "ety_term ex = ety_term ety" for ety ex
  proof -
    have "holds ae (i + 1) (rlog s)"
      using "1.prems"(3) that by (simp add: holds_Suc array_get_eq_Some)
    moreover have "ae_prev_log_idx ae + int (i + 1) \<le> raft_get_current_idx s"
      using log_at_Some_le [OF that(3)] by (simp add: raft_get_current_idx_def)
    ultimately show ?thesis
      using "1.IH" [OF that(1,2) refl _ refl] that(3,4) "1.prems"(1,2) raft_get_entry_eq [OF wf]
      by simp
  qed
  show ?case
  proof (cases "int i < ae_n_entries ae")
    case False
    with "1.prems" show ?thesis by (subst ae_skip_existing.simps) (simp add: ready_at_def)
  next
    case True
    then show ?thesis
      using go [OF True] stop ready
      by (subst ae_skip_existing.simps)
        (auto simp: run_simps Let_def raft_get_entry_eq [OF wf] simp del: of_nat_add
          intro!: ensuresI [where m = "array_get xs k" for xs k]
            ensuresI [where m = "raft_delete_entry_from_idx k t" for k t] split: if_splits)
  qed
qed

lemma ae_append_rest_holds:
  assumes "ready_at ae i s"
  shows "ensures (ae_append_rest i ae r s)
    (\<lambda>x. \<forall>r' s'. x = Inr (r', s') \<longrightarrow> aer_success r' = aer_success r \<and> server_ok s' \<and>
       holds ae (nat (ae_n_entries ae)) (rlog s'))"
  using assms
proof (induction i ae r s rule: ae_append_rest.induct)
  case (1 i ae r s)
  show ?case
  proof (cases "int i < ae_n_entries ae")
    case False
    with "1.prems" show ?thesis
      by (subst ae_append_rest.simps) (auto simp: ready_at_def holds_def)
  next
    case True
    have next_ready: "ready_at ae (i + 1) t"
      if "array_get (ae_entries ae) i = Some ety" "raft_append_entry ety s = Some (0, t)" for ety t
    proof -
      let ?s = "if raft_entry_is_voting_cfg_change ety
        then s\<lparr>voting_cfg_change_log_idx := raft_get_current_idx s\<rparr> else s"
      have ok: "server_ok s" "server_ok t"
        using "1.prems" ensuresD [OF raft_append_entry_guar that(2)] by (auto simp: ready_at_def guar_def)
      then have wf: "wf_log (rlog ?s)" "bounded_allocator (env ?s)" "wf_log (rlog s)" "wf_log (rlog t)"
        by (simp_all add: server_ok_def)
      have "log_append_entry ety ?s = Some (0, t)"
        using that(2) by (simp add: raft_append_entry_def Let_def)
      note app = log_append_entry_lookup [OF wf(1,2) this]
      have same: "raft_get_current_idx ?s = raft_get_current_idx s" "rlog ?s = rlog s"
        by (simp_all add: raft_get_current_idx_def)
      obtain d where all: "\<forall>i. raft_get_entry_from_idx t i =
          (if i = raft_get_current_idx s + 1 then Some (Some (ety\<lparr>ety_data := d\<rparr>))
           else raft_get_entry_from_idx ?s i)"
        using app unfolding same by blast
      have at: "log_at (rlog t) k = (if k = raft_get_current_idx s + 1
          then Some (ety\<lparr>ety_data := d\<rparr>) else log_at (rlog s) k)" for k
        using all [rule_format, of k] raft_get_entry_eq [OF wf(4)] raft_get_entry_eq [OF wf(1)] same(2)
        by (simp split: if_splits)
      have cur: "raft_get_current_idx t = raft_get_current_idx s + 1" using app same(1) by simp
      have "raft_get_current_idx s = ae_prev_log_idx ae + int i"
        using "1.prems" True by (simp add: ready_at_def)
      with at that(1) "1.prems" cur ok show ?thesis
        by (auto simp: ready_at_def holds_Suc array_get_eq_Some elim: holds_cong)
    qed
    show ?thesis
      using "1.IH" [OF True _ _ refl] next_ready True
      by (subst ae_append_rest.simps)
        (auto simp: run_simps Let_def simp del: of_nat_add
          intro!: ensuresI [where m = "array_get xs k" for xs k]
            ensuresI [where m = "raft_append_entry k t" for k t] split: if_splits)
  qed
qed

lemma ae_check_term_result:
  "ensures (ae_check_term ae r s) (\<lambda>x. case x of Inl (e, r', s') \<Rightarrow> r' = r
     | Inr s' \<Rightarrow> rlog s' = rlog s \<and> snapshot_last_idx s' = snapshot_last_idx s \<and> guar s s')"
proof -
  have follower: "ensures (raft_become_follower t) (\<lambda>u. rlog u = rlog t \<and>
      snapshot_last_idx u = snapshot_last_idx t)" for t
    by (rule ensures_mono [OF raft_become_follower_quiet]) (simp add: quiet_def)
  have setterm: "ensures (raft_set_current_term k t) (\<lambda>(e, u). rlog u = rlog t \<and>
      snapshot_last_idx u = snapshot_last_idx t)" for k t
    by (auto simp: raft_set_current_term_def Let_def split: option.split)
  have "ensures (ae_check_term ae r s) (\<lambda>x. case x of Inl (e, r', s') \<Rightarrow> r' = r
     | Inr s' \<Rightarrow> rlog s' = rlog s \<and> snapshot_last_idx s' = snapshot_last_idx s)"
    unfolding ae_check_term_def
    by (auto simp: run_simps intro!: ensures_state_rule [OF follower] ensures_pair_rule [OF setterm])
  with ae_check_term_guar [of ae r s] show ?thesis
    by (auto simp: ensures_def split: sum.splits)
qed

lemma ae_check_prev_result:
  assumes "server_ok s" "snapshot_last_idx s \<le> raft_get_current_idx s"
  shows "ensures (ae_check_prev ae r s) (\<lambda>x. case x of Inl (e, r', s') \<Rightarrow> r' = r
     | Inr s' \<Rightarrow> s' = s \<and> ae_prev_log_idx ae \<le> raft_get_current_idx s)"
proof -
  have "0 \<le> raft_get_current_idx s" and wf: "wf_log (rlog s)"
    using assms(1) server_ok_current_idx [OF assms(1)] by (simp_all add: server_ok_def)
  then show ?thesis
    unfolding ae_check_prev_def
    using assms(2)
    by (auto simp: run_simps raft_get_entry_eq raft_get_current_idx_def
        intro!: ensuresI [where m = "raft_delete_entry_from_idx k t" for k t]
        dest!: log_at_Some_le)
qed

text \<open>The error codes on the way out: leaving a loop early is never reported as 0.\<close>

lemma ae_skip_existing_error:
  "ensures (ae_skip_existing i ae r s) (\<lambda>x. \<forall>e r' s'. x = Inl (e, r', s') \<longrightarrow> e \<noteq> 0)"
proof (induction i ae r s rule: ae_skip_existing.induct)
  case (1 i ae r s)
  then show ?case
    by (subst ae_skip_existing.simps)
      (auto simp: run_simps Let_def simp del: of_nat_add intro!: reader_rules
        ensuresI [where m = "raft_delete_entry_from_idx k t" for k t])
qed

lemma ae_append_rest_error:
  "ensures (ae_append_rest i ae r s) (\<lambda>x. \<forall>e r' s'. x = Inl (e, r', s') \<longrightarrow> e \<noteq> 0)"
proof (induction i ae r s rule: ae_append_rest.induct)
  case (1 i ae r s)
  then show ?case
    by (subst ae_append_rest.simps)
      (auto simp: run_simps Let_def simp del: of_nat_add intro!: reader_rules
        ensuresI [where m = "raft_append_entry k t" for k t])
qed

text \<open>What the handler reports with \<open>e = 0\<close> and success.\<close>

definition reports_entries :: "msg_appendentries \<Rightarrow> ae_out \<Rightarrow> bool" where
  "reports_entries ae out \<longleftrightarrow> (case out of (e, r', s') \<Rightarrow> e = 0 \<and> aer_success r' = 1 \<longrightarrow>
     server_ok s' \<and> holds ae (nat (ae_n_entries ae)) (rlog s'))"

lemma ae_update_commit_frame:
  "ensures (ae_update_commit ae t) (\<lambda>u. rlog u = rlog t \<and> guar t u)"
  using ae_update_commit_guar [of ae t]
  by (auto simp: ensures_def ae_update_commit_def raft_set_commit_idx_def C_assert_def Let_def
      Option.bind_eq_Some_conv split: if_splits)

lemma ae_finish_reports:
  assumes "ready_at ae i s"
  shows "ensures (ae_finish i ae r s) (reports_entries ae)"
  using ae_append_rest_holds [OF assms, of r] ae_append_rest_error [of i ae r s]
  unfolding ae_finish_def
  by (cases "ae_append_rest i ae r s")
    (auto simp: run_simps guar_def reports_entries_def
      intro!: ensures_state_rule [OF ae_update_commit_frame] split: sum.split)

lemma ae_store_entries_reports:
  assumes "server_ok s" "lp_base (rlog s) \<le> ae_prev_log_idx ae"
    "ae_prev_log_idx ae \<le> raft_get_current_idx s"
  shows "ensures (ae_store_entries ae r s) (reports_entries ae)"
proof -
  have "holds ae 0 (rlog s)" by (simp add: holds_def)
  with assms have "ensures (ae_skip_existing 0 ae r s)
      (\<lambda>x. \<forall>j r' s'. x = Inr (j, r', s') \<longrightarrow> aer_success r' = aer_success r \<and> ready_at ae j s')"
    by (intro ae_skip_existing_ready) simp_all
  with ae_skip_existing_error [of 0 ae r s] show ?thesis
    unfolding ae_store_entries_def
    by (cases "ae_skip_existing 0 ae r s")
      (auto simp: run_simps reports_entries_def [of ae "(e, r, s)" for e r s] ae_finish_reports
        split: sum.split)
qed

lemma ae_body_reports:
  assumes "server_ok s" "snapshot_last_idx s \<le> raft_get_current_idx s"
    "lp_base (rlog s) \<le> ae_prev_log_idx ae"
  shows "ensures (ae_body node ae r s) (reports_entries ae)"
proof -
  let ?r = "r\<lparr>aer_success := 0\<rparr>"
  have prev: "ensures (do {
        x \<leftarrow> ae_check_prev ae ?r t;
        case x of Inl out \<Rightarrow> Some out | Inr me \<Rightarrow> ae_store_entries ae r' me
      }) (reports_entries ae)"
    if "rlog t = rlog s" "snapshot_last_idx t = snapshot_last_idx s" "server_ok t" for r' t
  proof -
    have "raft_get_current_idx t = raft_get_current_idx s" using that by (simp add: raft_get_current_idx_def)
    with that assms ae_check_prev_result [OF that(3), of ae ?r] show ?thesis
      by (cases "ae_check_prev ae ?r t")
        (auto simp: reports_entries_def [of ae "(e, r, s)" for e r s] intro!: ae_store_entries_reports
          split: sum.split)
  qed
  show ?thesis
    unfolding ae_body_def Let_def ensures_bind
  proof (rule ensures_mono [OF ae_check_term_result], goal_cases)
    case (1 x)
    show ?case
    proof (cases x)
      case (Inl out)
      with 1 show ?thesis by (cases out) (auto simp: reports_entries_def)
    next
      case (Inr t)
      let ?t = "t\<lparr>current_leader := node, timeout_elapsed := 0\<rparr>"
      have "server_ok t" using 1 Inr assms(1) by (simp add: guar_def)
      then have "server_ok ?t" by (simp add: server_ok_def raft_get_current_idx_def)
      with prev [of ?t] 1 Inr show ?thesis by (simp add: ensures_bind)
    qed
  qed
qed

text \<open>
  C5.  A successful answer means the follower has the entries: when \<open>raft_recv_appendentries\<close> reports
  success, the log holds at each position of the message an entry of the term the leader sent for it,
  found before or appended now.  The message must not point below the start of the follower's log (see
  the property on late messages for what happens then).
\<close>

theorem appendentries_success:
  assumes "server_ok s" "snapshot_last_idx s \<le> raft_get_current_idx s"
    and "log_get_base (rlog s) \<le> ae_prev_log_idx ae"
    and "ae_n_entries ae = int (length (ae_entries ae))"
    and "raft_recv_appendentries node ae r s = Some (0, r', s')" "aer_success r' = 1"
  shows "\<forall>k < length (ae_entries ae). \<exists>ety.
    raft_get_entry_from_idx s' (ae_prev_log_idx ae + 1 + int k) = Some (Some ety) \<and>
    ety_term ety = ety_term (ae_entries ae ! k)"
proof -
  have "reports_entries ae (0, r'', s')" if "ae_body node ae r s = Some (0, r'', s')" for r''
    using ae_body_reports assms(1-3) that by (auto simp: ensures_def log_get_base_def)
  then have "server_ok s' \<and> holds ae (length (ae_entries ae)) (rlog s')"
    using assms(4-6) by (auto simp: raft_recv_appendentries_def Option.bind_eq_Some_conv Let_def
        reports_entries_def split: if_splits)
  then show ?thesis by (simp add: raft_get_entry_eq server_ok_def holds_def)
qed

lemma appendentries_success_witness:
  "\<exists>r' s'. raft_recv_appendentries (Some 2) (demo_ae 3 6 [demo_entry 8, demo_entry 9]) demo_aer demo_server =
      Some (0, r', s') \<and> aer_success r' = 1 \<and>
    (\<forall>k < 2. \<exists>ety. raft_get_entry_from_idx s' (7 + int k) = Some (Some ety) \<and> ety_term ety = 0)"
proof -
  let ?ae = "demo_ae 3 6 [demo_entry 8, demo_entry 9]"
  have "\<exists>r' s'. raft_recv_appendentries (Some 2) ?ae demo_aer demo_server = Some (0, r', s') \<and>
      aer_success r' = 1"
    by (simp add: raft_eval demo_ae_def demo_aer_def demo_server_def demo_log_def)
  then obtain r' s' where r: "raft_recv_appendentries (Some 2) ?ae demo_aer demo_server = Some (0, r', s')"
    "aer_success r' = 1" by blast
  have hyp: "snapshot_last_idx demo_server \<le> raft_get_current_idx demo_server"
    "log_get_base (rlog demo_server) \<le> ae_prev_log_idx ?ae"
    "ae_n_entries ?ae = int (length (ae_entries ?ae))"
    by (simp_all add: raft_eval demo_ae_def demo_server_def demo_log_def)
  have "ety_term (ae_entries ?ae ! k) = 0" if "k < 2" for k
    using that by (auto simp: demo_ae_def less_2_cases_iff demo_entry_def zero_entry_def)
  with appendentries_success [OF demo_server_fields(3) hyp r] r show ?thesis
    by (simp add: demo_ae_def)
qed

lemma poll_loop_2: "poll_loop 2 s = poll_loop (Suc (Suc 0)) s"
  by (simp add: numeral_2_eq_2)

text \<open>A message that brings two entries and commits them, and a run that ends with a snapshot.\<close>

definition late_message :: raft_call where
  "late_message = Call_recv_appendentries (Some 2)
     ((demo_ae 1 0 [demo_entry 8, demo_entry 9])\<lparr>ae_leader_commit := 2\<rparr>) demo_aer"

definition late_run :: "raft_call list" where
  "late_run = [Call_add_node 0 1 True, Call_add_node 0 2 False, late_message, Call_periodic 1,
     Call_begin_snapshot 0, Call_end_snapshot]"

text \<open>
   The message below the start of the log.  A follower that has taken its two committed entries into
  a snapshot receives the message that brought them once more (a network may deliver it late): the
  lookup of index 1 finds nothing in the compacted log, so the handler appends both entries again, at
  the indices 3 and 4, and reports success.  The entry at index 3 is then the one the leader sent for
  index 1.
\<close>

theorem late_message_misplaces_entries:
  "\<exists>s s'. demo_state late_run = Some s \<and> demo_state (late_run @ [late_message]) = Some s' \<and>
     raft_reachable demo_env demo_cbs s \<and> raft_later s s' \<and>
     applied (hist s) = [(1, demo_entry 8), (2, demo_entry 9)] \<and> raft_get_current_idx s = 2 \<and>
     raft_get_current_idx s' = 4 \<and>
     raft_get_entry_from_idx s' 3 = Some (Some (demo_entry 8)) \<and>
     raft_get_entry_from_idx s' 4 = Some (Some (demo_entry 9))"
proof -
  let ?f = "\<lambda>s. (applied (hist s), raft_get_current_idx s)"
  let ?g = "\<lambda>s. (raft_get_current_idx s, raft_get_entry_from_idx s 3, raft_get_entry_from_idx s 4)"
  have f: "map_option ?f (demo_state late_run) = Some ([(1, demo_entry 8), (2, demo_entry 9)], 2)"
    by (simp add: raft_eval late_run_def late_message_def demo_ae_def demo_aer_def poll_loop_2)
  have "map_option ?g (demo_state (late_run @ [late_message])) =
      Some (4, Some (Some (demo_entry 8)), Some (Some (demo_entry 9)))"
    by (simp add: raft_eval late_run_def late_message_def demo_ae_def demo_aer_def poll_loop_2)
  from demo_run [OF this] obtain s s' where "demo_state late_run = Some s"
    "raft_reachable demo_env demo_cbs s" "raft_later s s'"
    "demo_state (late_run @ [late_message]) = Some s'"
    "?g s' = (4, Some (Some (demo_entry 8)), Some (Some (demo_entry 9)))" by blast
  with f show ?thesis by auto
qed

section \<open>A client's entry\<close>

text \<open>
  Accepting a client's entry: when \<open>raft_recv_entry\<close> answers 0 the server is the leader, the entry
  has been stamped with the current term and appended right after the end of the log, the response names
  its id, index and term, and a voting change is accepted only when none was under way and is recorded
  at its index.
\<close>

theorem recv_entry_appends:
  assumes "server_ok s" "raft_recv_entry ety r s = Some (0, ety', r', s')"
  shows "raft_is_leader s \<and> ety' = ety\<lparr>ety_term := current_term s\<rparr> \<and>
    r' = \<lparr>mer_id = ety_id ety, mer_term = current_term s, mer_idx = raft_get_current_idx s + 1\<rparr> \<and>
    raft_get_current_idx s' = raft_get_current_idx s + 1 \<and>
    (\<exists>d. raft_get_entry_from_idx s' (mer_idx r') = Some (Some (ety'\<lparr>ety_data := d\<rparr>))) \<and>
    (raft_entry_is_voting_cfg_change ety \<longrightarrow>
       \<not> raft_voting_change_is_in_progress s \<and> voting_cfg_change_log_idx s' = mer_idx r')"
proof -
  let ?e = "ety\<lparr>ety_term := current_term s\<rparr>"
  have append: "ensures (raft_append_entry ?e s) (\<lambda>(e, t). e = 0 \<longrightarrow>
      current_term t = current_term s \<and> raft_get_current_idx t = raft_get_current_idx s + 1 \<and>
      (\<exists>d. raft_get_entry_from_idx t (raft_get_current_idx s + 1) = Some (Some (?e\<lparr>ety_data := d\<rparr>))))"
  proof (rule ensuresI, clarify)
    fix t assume t: "raft_append_entry ?e s = Some (0, t)"
    let ?s = "if raft_entry_is_voting_cfg_change ?e
      then s\<lparr>voting_cfg_change_log_idx := raft_get_current_idx s\<rparr> else s"
    have s: "log_append_entry ?e ?s = Some (0, t)" "wf_log (rlog ?s)" "bounded_allocator (env ?s)"
      "raft_get_current_idx ?s = raft_get_current_idx s" "current_term ?s = current_term s"
      using t assms(1) by (simp_all add: raft_append_entry_def server_ok_def raft_get_current_idx_def)
    have "only_log ?s t" using ensuresD [OF log_append_entry_spec [OF s(2,3)] s(1)] by simp
    then have "current_term t = current_term s" using only_log_fields s(5) by metis
    with log_append_entry_lookup [OF s(2,3,1)] s(4)
    show "current_term t = current_term s \<and> raft_get_current_idx t = raft_get_current_idx s + 1 \<and>
      (\<exists>d. raft_get_entry_from_idx t (raft_get_current_idx s + 1) = Some (Some (?e\<lparr>ety_data := d\<rparr>)))"
      by auto
  qed
  have loop: "ensures (recv_entry_loop as t) (\<lambda>u. rlog u = rlog t \<and> current_term u = current_term t)" for as t
    by (rule ensures_mono [OF recv_entry_loop_quiet]) (simp add: quiet_def)
  have commit: "ensures (raft_set_commit_idx i t) (\<lambda>u. rlog u = rlog t \<and> current_term u = current_term t)" for i t
    by (auto simp: raft_set_commit_idx_def run_simps)
  have cfg: "raft_entry_is_voting_cfg_change ?e = raft_entry_is_voting_cfg_change ety"
    by (simp add: raft_entry_is_voting_cfg_change_def)
  have "ensures (raft_recv_entry ety r s) (\<lambda>(e, ety', r', s'). e = 0 \<longrightarrow>
    raft_is_leader s \<and> ety' = ?e \<and>
    r' = \<lparr>mer_id = ety_id ety, mer_term = current_term s, mer_idx = raft_get_current_idx s + 1\<rparr> \<and>
    raft_get_current_idx s' = raft_get_current_idx s + 1 \<and>
    (\<exists>d. raft_get_entry_from_idx s' (mer_idx r') = Some (Some (ety'\<lparr>ety_data := d\<rparr>))) \<and>
    (raft_entry_is_voting_cfg_change ety \<longrightarrow>
       \<not> raft_voting_change_is_in_progress s \<and> voting_cfg_change_log_idx s' = mer_idx r'))"
    unfolding raft_recv_entry_def
    by (auto simp: run_simps Let_def cfg raft_get_current_idx_def raft_get_entry_from_idx_def
        intro!: reader_rules ensures_state_rule [OF loop] ensures_state_rule [OF commit]
          ensures_pair_rule [OF append])
  with assms(2) show ?thesis by (auto simp: ensures_def)
qed

lemma recv_entry_appends_witness:
  "\<exists>r' s'. raft_recv_entry (demo_entry 9) \<lparr>mer_id = 0, mer_term = 0, mer_idx = 0\<rparr>
      (demo_server\<lparr>rstate := RAFT_STATE_LEADER\<rparr>) =
      Some (0, (demo_entry 9)\<lparr>ety_term := 3\<rparr>, r', s') \<and> mer_idx r' = 7"
proof -
  let ?s = "demo_server\<lparr>rstate := RAFT_STATE_LEADER\<rparr>"
  let ?r = "\<lparr>mer_id = 0, mer_term = 0, mer_idx = 0\<rparr>"
  have "\<exists>r' s'. raft_recv_entry (demo_entry 9) ?r ?s = Some (0, (demo_entry 9)\<lparr>ety_term := 3\<rparr>, r', s')"
    by (simp add: raft_eval demo_server_def demo_log_def)
  then obtain r' s' where
    r: "raft_recv_entry (demo_entry 9) ?r ?s = Some (0, (demo_entry 9)\<lparr>ety_term := 3\<rparr>, r', s')" by blast
  have "server_ok ?s" "raft_get_current_idx ?s = 6"
    using demo_server_fields(3)
    by (simp_all add: server_ok_def raft_get_current_idx_def)
      (simp add: raft_eval demo_server_def demo_log_def)
  with recv_entry_appends [OF _ r] r show ?thesis by auto
qed

end
