(* ===== verification/Raft_Snapshot_Correct.thy ===== *)
theory Raft_Snapshot_Correct
  imports Raft_Replication_Correct
begin

text \<open>
  What the leader sends, applying everything that is committed, and the snapshot operations: taking,
  cancelling, finishing and loading a snapshot, and clearing the log.
\<close>

section \<open>What a leader sends\<close>

text \<open>
  C36.  Append-entries messages are cut from the log: unless the peer needs a snapshot,
  \<open>raft_send_appendentries\<close> hands the callback exactly one message, with the current term and commit
  index, the entries from the peer's next index on (none when the log ends before it), and the index and
  term of the entry before them.
\<close>

theorem sent_entries_match_log:
  assumes "server_ok s" "my_node s \<noteq> Some a" "node_at s a = Some n"
    and "cb_send_appendentries (cb s) = Some f" "1 \<le> next_idx n"
    and "\<not> (0 < snapshot_last_idx s \<and> next_idx n < snapshot_last_idx s)"
  shows "\<exists>ae e. raft_send_appendentries (Some a) s = Some (e, emit (Ev_send_appendentries a ae e) s) \<and>
    ae_term ae = current_term s \<and> ae_leader_commit ae = commit_idx s \<and>
    ae_n_entries ae = int (length (ae_entries ae)) \<and>
    (\<forall>k < length (ae_entries ae).
       raft_get_entry_from_idx s (next_idx n + int k) = Some (Some (ae_entries ae ! k))) \<and>
    (log_get_base (rlog s) < next_idx n \<and> next_idx n \<le> raft_get_current_idx s \<longrightarrow> ae_entries ae \<noteq> []) \<and>
    (\<forall>ety. 1 < next_idx n \<and> raft_get_entry_from_idx s (next_idx n - 1) = Some (Some ety) \<longrightarrow>
       ae_prev_log_idx ae = next_idx n - 1 \<and> ae_prev_log_term ae = ety_term ety)"
proof -
  have wf: "wf_log (rlog s)" using assms(1) by (simp add: server_ok_def)
  have "\<exists>pi pt. ae_prev_log (next_idx n) s = Some (pi, pt) \<and>
    (\<forall>ety. 1 < next_idx n \<and> raft_get_entry_from_idx s (next_idx n - 1) = Some (Some ety) \<longrightarrow>
      pi = next_idx n - 1 \<and> pt = ety_term ety)"
    by (cases "log_at (rlog s) (next_idx n - 1)")
      (simp_all add: ae_prev_log_def raft_get_entry_eq [OF wf])
  then obtain pi pt where prev: "ae_prev_log (next_idx n) s = Some (pi, pt)"
    and prev_ety: "\<And>ety. 1 < next_idx n \<Longrightarrow> raft_get_entry_from_idx s (next_idx n - 1) = Some (Some ety) \<Longrightarrow>
      pi = next_idx n - 1 \<and> pt = ety_term ety" by blast
  obtain m es where batch: "raft_get_entries_from_idx s (next_idx n) = Some (m, es)"
    and sane: "es = None \<and> m = 0 \<or> es \<noteq> None \<and> 0 < m"
    and len: "\<And>xs. es = Some xs \<Longrightarrow> m = int (length xs)"
    and at: "\<And>xs k. es = Some xs \<Longrightarrow> k < length xs \<Longrightarrow>
      raft_get_entry_from_idx s (next_idx n + int k) = Some (Some (xs ! k))"
    and some: "lp_base (rlog s) < next_idx n \<Longrightarrow> next_idx n \<le> raft_get_current_idx s \<Longrightarrow> es \<noteq> None"
  proof (cases "lp_base (rlog s) < next_idx n \<and> next_idx n \<le> log_get_current_idx (rlog s)")
    case True
    with log_get_from_idx_batch [OF wf] that show ?thesis
      unfolding raft_get_entries_from_idx_def raft_get_entry_from_idx_def by fastforce
  next
    case False
    then have "log_get_from_idx (rlog s) (next_idx n) = Some (0, None)"
      using assms(5) by (auto simp: log_get_from_idx_def C_assert_def log_get_current_idx_def add.commute)
    with False that [of 0 None] show ?thesis
      by (auto simp: raft_get_entries_from_idx_def raft_get_current_idx_def)
  qed
  let ?ae = "\<lparr>ae_term = current_term s, ae_prev_log_idx = pi, ae_prev_log_term = pt,
    ae_leader_commit = commit_idx s, ae_n_entries = m,
    ae_entries = (case es of None \<Rightarrow> [] | Some xs \<Rightarrow> xs)\<rparr>"
  have "raft_send_appendentries (Some a) s =
      Some (f (hist s) a ?ae, emit (Ev_send_appendentries a ?ae (f (hist s) a ?ae)) s)"
    using assms(2-6) batch sane prev
    by (auto simp: raft_send_appendentries_def C_assert_def raft_node_get_next_idx_def
        raft_get_commit_idx_def Let_def)
  moreover have "ae_entries ?ae \<noteq> []"
    if "log_get_base (rlog s) < next_idx n" "next_idx n \<le> raft_get_current_idx s"
    using some that sane len by (auto simp: log_get_base_def)
  ultimately show ?thesis
    using len at sane prev_ety
    by (intro exI [of _ ?ae] exI [of _ "f (hist s) a ?ae"]) (auto split: option.splits)
qed

definition demo_sender :: raft_server where
  "demo_sender = demo_server\<lparr>cb := demo_cbs\<lparr>cb_send_appendentries := Some (\<lambda>h a ae. 0)\<rparr>,
     heap := [1 \<mapsto> raft_node_new 0 1, 2 \<mapsto> (raft_node_new 0 2)\<lparr>next_idx := 6\<rparr>]\<rparr>"

lemma sent_entries_match_log_witness:
  "\<exists>ae e. raft_send_appendentries (Some 2) demo_sender =
      Some (e, emit (Ev_send_appendentries 2 ae e) demo_sender) \<and>
    (\<forall>k < length (ae_entries ae). raft_get_entry_from_idx demo_sender (6 + int k) =
       Some (Some (ae_entries ae ! k))) \<and> ae_entries ae \<noteq> [] \<and> ae_prev_log_idx ae = 5"
proof -
  let ?n = "(raft_node_new 0 2)\<lparr>next_idx := 6\<rparr>"
  have hyp: "server_ok demo_sender" "my_node demo_sender \<noteq> Some 2" "node_at demo_sender 2 = Some ?n"
    "cb_send_appendentries (cb demo_sender) = Some (\<lambda>h a ae. 0)" "1 \<le> next_idx ?n"
    "\<not> (0 < snapshot_last_idx demo_sender \<and> next_idx ?n < snapshot_last_idx demo_sender)"
    using demo_server_fields(3)
    by (simp_all add: demo_sender_def server_ok_def raft_get_current_idx_def)
      (simp_all add: demo_server_def zero_server_def node_at_def)
  have "raft_get_entry_from_idx demo_sender 5 = Some (Some (demo_entry 5))"
    "log_get_base (rlog demo_sender) < 6" "6 \<le> raft_get_current_idx demo_sender"
    by (simp_all add: raft_eval demo_sender_def demo_server_def demo_log_def)
  with sent_entries_match_log [OF hyp] show ?thesis by auto
qed

section \<open>Applying what is committed\<close>

lemma raft_apply_entry_plain:
  assumes "server_ok s" "raft_is_apply_allowed s" "last_applied_idx s < commit_idx s"
    and "raft_get_entry_from_idx s (last_applied_idx s + 1) = Some (Some ety)"
    and "\<not> raft_entry_is_cfg_change ety"
    and "\<And>f h e i. cb_applylog (cb s) = Some f \<Longrightarrow> f h e i \<noteq> RAFT_ERR_SHUTDOWN"
  shows "\<exists>t. raft_apply_entry s = Some (0, t) \<and> last_applied_idx t = last_applied_idx s + 1 \<and>
    commit_idx t = commit_idx s \<and> rlog t = rlog s \<and> cb t = cb s \<and> raft_is_apply_allowed t"
  using assms
  by (auto simp: raft_apply_entry_def apply_next_entry_def call_applylog_def Let_def raft_get_commit_idx_def
      clear_voting_cfg_change_def raft_is_apply_allowed_def raft_snapshot_is_in_progress_def emit_def
      split: option.split)

text \<open>
  C37.  Everything committed gets applied: \<open>raft_apply_all\<close> returns 0 with the last applied index at the
  commit index, provided that applying is allowed, the entries to apply are not configuration entries
  and the state machine never answers with the shutdown code; the log does not change.
\<close>

theorem apply_all_completes:
  assumes "server_ok s" "raft_is_apply_allowed s"
    and "\<And>i ety. last_applied_idx s < i \<Longrightarrow> i \<le> commit_idx s \<Longrightarrow>
      raft_get_entry_from_idx s i = Some (Some ety) \<Longrightarrow> \<not> raft_entry_is_cfg_change ety"
    and "\<And>f h e i. cb_applylog (cb s) = Some f \<Longrightarrow> f h e i \<noteq> RAFT_ERR_SHUTDOWN"
  shows "\<exists>s'. raft_apply_all s = Some (0, s') \<and> last_applied_idx s' = commit_idx s \<and> rlog s' = rlog s"
proof -
  have "\<exists>s'. raft_apply_loop s = Some (0, s') \<and> last_applied_idx s' = commit_idx s \<and> rlog s' = rlog s"
    using assms
  proof (induction s rule: raft_apply_loop.induct)
    case (1 s)
    show ?case
    proof (cases "last_applied_idx s < commit_idx s")
      case False
      with "1.prems"(1) show ?thesis
        by (subst raft_apply_loop.simps) (auto simp: raft_getter_defs server_ok_def)
    next
      case True
      have wf: "wf_log (rlog s)" using "1.prems"(1) by (simp add: server_ok_def)
      have "log_at (rlog s) (last_applied_idx s + 1) \<noteq> None"
        using "1.prems"(1) True by (auto simp: server_ok_def log_at_None_iff raft_get_current_idx_def
            log_get_current_idx_def log_count_def)
      then obtain ety where ety: "raft_get_entry_from_idx s (last_applied_idx s + 1) = Some (Some ety)"
        by (auto simp: raft_get_entry_eq [OF wf])
      obtain t where t: "raft_apply_entry s = Some (0, t)" "last_applied_idx t = last_applied_idx s + 1"
        "commit_idx t = commit_idx s" "rlog t = rlog s" "cb t = cb s" "raft_is_apply_allowed t"
        using raft_apply_entry_plain [OF "1.prems"(1,2) True ety] "1.prems"(3) [OF _ _ ety] "1.prems"(4) True
        by auto
      have "server_ok t"
        using ensuresD [OF raft_apply_entry_guar t(1)] "1.prems"(1) by (simp add: guar_def)
      moreover have "\<not> raft_entry_is_cfg_change e"
        if "last_applied_idx t < i" "i \<le> commit_idx t" "raft_get_entry_from_idx t i = Some (Some e)" for i e
        using "1.prems"(3) [of i e] that t by (simp add: raft_get_entry_from_idx_def)
      ultimately have "\<exists>s'. raft_apply_loop t = Some (0, s') \<and> last_applied_idx s' = commit_idx t \<and>
          rlog s' = rlog t"
        using "1.IH" [of "(0, t)"] t True "1.prems"(4) by (simp add: raft_getter_defs)
      with t True show ?thesis
        by (subst raft_apply_loop.simps) (simp add: raft_getter_defs)
    qed
  qed
  with assms(2) show ?thesis by (simp add: raft_apply_all_def)
qed

lemma apply_all_completes_witness:
  "\<exists>s'. raft_apply_all (demo_server\<lparr>commit_idx := 6\<rparr>) = Some (0, s') \<and> last_applied_idx s' = 6 \<and>
    rlog s' = demo_log"
proof -
  let ?s = "demo_server\<lparr>commit_idx := 6\<rparr>"
  have "server_ok ?s" using demo_server_fields(3)
    by (simp add: server_ok_def raft_get_current_idx_def)
      (simp add: demo_server_def demo_log_def log_get_current_idx_def log_count_def)
  moreover have "raft_is_apply_allowed ?s" by (simp add: raft_eval demo_server_def)
  moreover have "\<not> raft_entry_is_cfg_change ety"
    if "last_applied_idx ?s < i" "i \<le> commit_idx ?s" "raft_get_entry_from_idx ?s i = Some (Some ety)" for i ety
  proof -
    have "i = 5 \<or> i = 6" using that(1,2) by (auto simp: demo_server_def)
    then show ?thesis
      using that(3) by (auto simp: raft_eval demo_server_def demo_log_def)
  qed
  moreover have "f h e i \<noteq> RAFT_ERR_SHUTDOWN" if "cb_applylog (cb ?s) = Some f" for f h e i
    using that by (auto simp: demo_server_def demo_cbs_def)
  moreover have "rlog ?s = demo_log" "commit_idx ?s = 6" by (simp_all add: demo_server_def)
  ultimately show ?thesis using apply_all_completes [of ?s] by simp
qed

section \<open>Taking a snapshot\<close>

definition apply_frame :: "raft_server \<Rightarrow> raft_server \<Rightarrow> bool" where
  "apply_frame s t \<longleftrightarrow> rlog t = rlog s \<and> commit_idx t = commit_idx s \<and>
     snapshot_last_idx t = snapshot_last_idx s \<and> snapshot_last_term t = snapshot_last_term s"

interpretation af: preorder_guarantee apply_frame
  by unfold_locales (auto simp: apply_frame_def)

lemma raft_apply_all_frame: "ensures (raft_apply_all s) (\<lambda>(e, t). apply_frame s t)"
proof -
  have entry: "ensures (raft_apply_entry s) (\<lambda>(e, t). apply_frame s t)" for s
    by (rule ensures_mono [OF raft_apply_entry_cases])
      (auto simp: apply_frame_def applied_next_def quiet_def)
  have "ensures (raft_apply_loop s) (\<lambda>(e, t). apply_frame s t)"
  proof (induction s rule: raft_apply_loop.induct)
    case (1 s)
    show ?case
      by (subst raft_apply_loop.simps)
        (auto simp: run_simps af.R_refl intro!: ensures_pair_rule [OF entry] af.after [OF _ "1.IH"])
  qed
  then show ?thesis by (auto simp: raft_apply_all_def af.R_refl)
qed

text \<open>
  Beginning and cancelling a snapshot: when \<open>raft_begin_snapshot\<close> succeeds everything committed has
  been applied, the snapshot is marked at the commit index with the term of the entry there, and the log
  is untouched; cancelling then restores the index and the term of the snapshot before.
\<close>

theorem begin_cancel_snapshot:
  assumes "server_ok s" "raft_begin_snapshot flags s = Some (0, s')"
  shows "snapshot_in_progress s' \<and> rlog s' = rlog s \<and> commit_idx s' = commit_idx s \<and>
    last_applied_idx s' = commit_idx s \<and> snapshot_last_idx s' = commit_idx s \<and>
    (\<exists>ety. raft_get_entry_from_idx s (commit_idx s) = Some (Some ety) \<and>
       snapshot_last_term s' = ety_term ety) \<and>
    (\<exists>s''. raft_cancel_snapshot s' = (0, s'') \<and> \<not> snapshot_in_progress s'' \<and>
       snapshot_last_idx s'' = snapshot_last_idx s \<and> snapshot_last_term s'' = snapshot_last_term s)"
proof -
  have "ensures (raft_begin_snapshot flags s) (\<lambda>(e, s'). e = 0 \<longrightarrow>
    snapshot_in_progress s' \<and> rlog s' = rlog s \<and> commit_idx s' = commit_idx s \<and>
    last_applied_idx s' = commit_idx s \<and> snapshot_last_idx s' = commit_idx s \<and>
    (\<exists>ety. raft_get_entry_from_idx s (commit_idx s) = Some (Some ety) \<and>
       snapshot_last_term s' = ety_term ety) \<and>
    (\<exists>s''. raft_cancel_snapshot s' = (0, s'') \<and> \<not> snapshot_in_progress s'' \<and>
       snapshot_last_idx s'' = snapshot_last_idx s \<and> snapshot_last_term s'' = snapshot_last_term s))"
    unfolding raft_begin_snapshot_def raft_cancel_snapshot_def raft_set_snapshot_metadata_def
    by (auto simp: run_simps Let_def raft_getter_defs apply_frame_def
        intro!: reader_rules ensures_pair_rule [OF raft_apply_all_frame])
  with assms show ?thesis by (auto simp: ensures_def)
qed

lemma begin_cancel_snapshot_witness:
  "\<exists>s'. raft_begin_snapshot 0 (demo_server\<lparr>commit_idx := 6\<rparr>) = Some (0, s') \<and>
    snapshot_last_idx s' = 6 \<and> snapshot_last_idx (snd (raft_cancel_snapshot s')) = 0"
proof -
  let ?s = "demo_server\<lparr>commit_idx := 6\<rparr>"
  have ok: "server_ok ?s" using demo_server_fields(3)
    by (simp add: server_ok_def raft_get_current_idx_def)
      (simp add: demo_server_def demo_log_def log_get_current_idx_def log_count_def)
  have "\<exists>s'. raft_begin_snapshot 0 ?s = Some (0, s')"
    by (simp add: raft_eval demo_server_def demo_log_def)
  then obtain s' where s': "raft_begin_snapshot 0 ?s = Some (0, s')" by blast
  have "commit_idx ?s = 6" "snapshot_last_idx ?s = 0" by (simp_all add: demo_server_def zero_server_def)
  with s' begin_cancel_snapshot [OF ok s'] show ?thesis by auto
qed

text \<open>
  C38.  Finishing a snapshot compacts the log: when \<open>raft_end_snapshot\<close> succeeds the log starts right
  after the commit index, which is the snapshot's; the entries up to there are gone, those above and the
  end of the log are as before.
\<close>

theorem end_snapshot_compacts:
  assumes "server_ok s" "raft_end_snapshot s = Some (0, s')"
  shows "\<not> snapshot_in_progress s' \<and> commit_idx s' = commit_idx s \<and>
    snapshot_last_idx s = commit_idx s \<and> snapshot_last_idx s' = commit_idx s \<and>
    log_get_base (rlog s') = commit_idx s \<and> raft_get_current_idx s' = raft_get_current_idx s \<and>
    (\<forall>i. raft_get_entry_from_idx s' i =
       (if i \<le> commit_idx s then Some None else raft_get_entry_from_idx s i))"
proof -
  have wf: "wf_log (rlog s)" and le: "lp_base (rlog s) \<le> commit_idx s"
    using assms(1) by (auto simp: server_ok_def)
  let ?k = "nat (raft_get_num_snapshottable_logs s)"
  have guard: "raft_get_num_snapshottable_logs s \<noteq> 0" "snapshot_last_idx s = commit_idx s"
    using assms(2) by (auto simp: raft_end_snapshot_def C_assert_def raft_get_commit_idx_def split: if_splits)
  then have k: "int ?k = commit_idx s - lp_base (rlog s)"
    using le by (auto simp: raft_get_num_snapshottable_logs_def raft_getter_defs log_get_base_def
        split: if_splits)
  obtain b t j where t: "poll_loop ?k s = Some (b, t)" "only_log s t" "compacted j (rlog s) (rlog t)"
    "b \<longrightarrow> j = ?k"
    using succeedsD [OF poll_loop_spec [OF wf, of ?k]] by auto
  let ?t = "t\<lparr>snapshot_in_progress := False\<rparr>"
  have run: "raft_end_snapshot s = (if \<not> b then Some (- 1, t) else if \<not> raft_is_leader ?t then Some (0, ?t)
      else Option.bind (send_snapshot_loop (nodes ?t) ?t) (\<lambda>me. Some (0, me)))"
    using assms(2) guard t(1)
    by (auto simp: raft_end_snapshot_def Let_def C_assert_def raft_get_commit_idx_def split: if_splits)
  have "ensures (send_snapshot_loop (nodes ?t) ?t) (quiet ?t)"
    by (rule send_snapshot_loop_quiet [OF qu.R_refl])
  with trans [OF run [symmetric] assms(2)] have "b \<and> quiet ?t s'"
    by (auto simp: Option.bind_eq_Some_conv ensures_def qu.R_refl split: if_splits)
  then have c: "compacted ?k (rlog s) (rlog t)" and q: "quiet ?t s'"
    using t by auto
  have l: "rlog s' = rlog t" using q by (simp add: quiet_def)
  have "wf_log (rlog s')" "log_get_base (rlog s') = commit_idx s"
    "raft_get_current_idx s' = raft_get_current_idx s"
    using c k compacted_current_idx [OF c]
    by (simp_all add: l compacted_def log_get_base_def raft_get_current_idx_def)
  moreover have "log_at (rlog s') i = (if i \<le> commit_idx s then None else log_at (rlog s) i)" for i
    using compacted_log_at [OF c] k by (simp add: l)
  ultimately show ?thesis
    using q guard only_log_fields [OF t(2)] by (simp add: raft_get_entry_eq wf quiet_def)
qed

lemma end_snapshot_compacts_witness:
  "\<exists>s s'. raft_end_snapshot s = Some (0, s') \<and> raft_get_current_idx s = 6 \<and> log_get_base (rlog s') = 6 \<and>
    raft_get_current_idx s' = 6"
proof -
  let ?s = "demo_server\<lparr>commit_idx := 6, last_applied_idx := 6, snapshot_last_idx := 6,
    snapshot_in_progress := True\<rparr>"
  have ok: "server_ok ?s" using demo_server_fields(3)
    by (simp add: server_ok_def raft_get_current_idx_def)
      (simp add: demo_server_def demo_log_def log_get_current_idx_def log_count_def)
  have "\<exists>s'. raft_end_snapshot ?s = Some (0, s')"
    by (simp add: raft_eval poll_loop_2 demo_server_def demo_log_def)
  then obtain s' where s': "raft_end_snapshot ?s = Some (0, s')" by blast
  have "commit_idx ?s = 6" "raft_get_current_idx ?s = 6"
    by (simp_all add: raft_eval demo_server_def demo_log_def)
  with end_snapshot_compacts [OF ok s'] s' show ?thesis by metis
qed

section \<open>Clearing the log and loading a snapshot\<close>

text \<open>The callback events of \<open>log_clear_entries\<close>, in order.\<close>

definition clear_events :: "nat \<Rightarrow> log_private \<Rightarrow> history" where
  "clear_events n l = map (\<lambda>k. Ev_log_clear (lp_entries l ! ((lp_front l + k) mod lp_size l))
     (lp_base l + int k)) [0..<n]"

lemma log_clear_entries_loop_eq:
  assumes "wf_log (rlog s)"
  shows "log_clear_entries_loop ks s = Some (s\<lparr>hist := hist s @
    map (\<lambda>k. Ev_log_clear (lp_entries (rlog s) ! ((lp_front (rlog s) + k) mod lp_size (rlog s)))
      (lp_base (rlog s) + int k)) ks\<rparr>)"
  using assms
proof (induction ks arbitrary: s)
  case (Cons k ks)
  have "c_rem (int (lp_front (rlog s)) + int k) (int (lp_size (rlog s))) =
      Some (int ((lp_front (rlog s) + k) mod lp_size (rlog s)))"
    using Cons.prems by (simp add: c_rem_nonneg wf_log_def zmod_int)
  with Cons show ?case
    by (simp add: ring_pos_less emit_def)
qed simp

lemma quiet_clear_events: "list_all quiet_event (clear_events n l)"
  by (simp add: clear_events_def list_all_iff)

lemma log_clear_entries_cases:
  assumes "wf_log (rlog s)"
  shows "\<exists>n. log_clear_entries s = Some (s\<lparr>hist := hist s @ clear_events n (rlog s)\<rparr>)"
proof (cases "lp_count (rlog s) = 0 \<or> log_callback s cb_log_clear = None")
  case True
  then show ?thesis
    by (intro exI [of _ 0]) (simp add: log_clear_entries_def clear_events_def)
next
  case False
  then have "log_clear_entries s = log_clear_entries_loop [0..<lp_count (rlog s) + 1] s"
    by (auto simp: log_clear_entries_def)
  then show ?thesis
    by (intro exI [of _ "lp_count (rlog s) + 1"])
      (simp only: log_clear_entries_loop_eq [OF assms] clear_events_def)
qed

text \<open>
  Clearing calls back once too often: with a \<open>log_clear\<close> callback and \<open>n > 0\<close> entries,
  \<open>log_clear_entries\<close> makes \<open>n + 1\<close> calls with the indices \<open>base\<close> to \<open>base + n\<close>, each one below the index
  of the entry it hands over; the last call gets the slot behind the youngest entry (or, in a full
  buffer, the oldest entry a second time).
\<close>

theorem clear_entries_one_too_many:
  assumes "wf_log (rlog s)" "0 < lp_count (rlog s)" "log_callback s cb_log_clear = Some f"
  shows "log_clear_entries s =
      Some (s\<lparr>hist := hist s @ clear_events (lp_count (rlog s) + 1) (rlog s)\<rparr>) \<and>
    (\<forall>k < lp_count (rlog s). \<exists>ety. raft_get_entry_from_idx s (lp_base (rlog s) + int k + 1) = Some (Some ety) \<and>
       clear_events (lp_count (rlog s) + 1) (rlog s) ! k = Ev_log_clear ety (lp_base (rlog s) + int k)) \<and>
    last (clear_events (lp_count (rlog s) + 1) (rlog s)) =
      Ev_log_clear (lp_entries (rlog s) ! lp_back (rlog s)) (raft_get_current_idx s)"
proof -
  have "log_at (rlog s) (lp_base (rlog s) + int k + 1) =
      Some (lp_entries (rlog s) ! ((lp_front (rlog s) + k) mod lp_size (rlog s)))"
    if "k < lp_count (rlog s)" for k
    using that by (simp add: log_at_def nth_log_list)
  moreover have "lp_back (rlog s) = (lp_front (rlog s) + lp_count (rlog s)) mod lp_size (rlog s)"
    using assms(1) by (simp add: wf_log_def)
  moreover have "log_clear_entries s =
      Some (s\<lparr>hist := hist s @ clear_events (lp_count (rlog s) + 1) (rlog s)\<rparr>)"
    using assms log_clear_entries_loop_eq [OF assms(1), of "[0..<lp_count (rlog s) + 1]"]
    by (simp add: log_clear_entries_def clear_events_def)
  ultimately show ?thesis
    using assms(1) by (simp add: clear_events_def raft_get_entry_eq nth_append raft_get_current_idx_def
        log_get_current_idx_def log_count_def)
qed

lemma clear_entries_one_too_many_witness:
  "\<exists>s'. log_clear_entries (demo_server\<lparr>cb := demo_cbs\<lparr>cb_log_clear := Some (\<lambda>h e i. 0)\<rparr>,
      rlog := demo_log\<lparr>lp_cb := True\<rparr>\<rparr>) = Some s' \<and>
    hist s' = [Ev_log_clear (demo_entry 5) 4, Ev_log_clear (demo_entry 6) 5, Ev_log_clear zero_entry 6]"
proof -
  let ?s = "demo_server\<lparr>cb := demo_cbs\<lparr>cb_log_clear := Some (\<lambda>h e i. 0)\<rparr>,
      rlog := demo_log\<lparr>lp_cb := True\<rparr>\<rparr>"
  have hyp: "wf_log (rlog ?s)" "0 < lp_count (rlog ?s)" "log_callback ?s cb_log_clear = Some (\<lambda>h e i. 0)"
    using demo_log_wf by (simp_all add: wf_log_def demo_log_def log_callback_def)
  have "clear_events (lp_count (rlog ?s) + 1) (rlog ?s) =
      [Ev_log_clear (demo_entry 5) 4, Ev_log_clear (demo_entry 6) 5, Ev_log_clear zero_entry 6]"
    by (simp add: clear_events_def demo_log_def upt_rec)
  with clear_entries_one_too_many [OF hyp] show ?thesis
    by (simp add: demo_server_def zero_server_def)
qed

lemma deactivate_loop_only_nodes:
  "only_nodes z s \<Longrightarrow> ensures (deactivate_loop i k as s) (\<lambda>(m, t). only_nodes z t)"
proof (induction as arbitrary: i k s)
  case (Cons a as)
  have update: "ensures (update_node a f s) (\<lambda>t. only_nodes z t)" for f
    using update_node_only_nodes [of a f s] Cons.prems by (auto simp: ensures_def intro: on.R_trans)
  show ?case
    by (auto simp: run_simps Cons.prems intro!: reader_rules ensures_state_rule [OF update] Cons.IH)
qed simp

lemma catch_up_commit_idx:
  assumes "commit_idx s \<le> i" "raft_get_current_idx s = i"
  shows "(if raft_get_commit_idx s < i then raft_set_commit_idx i s else Some s) = Some (s\<lparr>commit_idx := i\<rparr>)"
  using assms by (cases s) (auto simp: raft_get_commit_idx_def raft_set_commit_idx_def C_assert_def)

lemma load_snapshot_run:
  assumes "i \<noteq> - 1" "\<not> (i = 0 \<or> t = 0)" "\<not> i < last_applied_idx s" "\<not> i < raft_get_current_idx s"
    and "\<not> (t = snapshot_last_term s \<and> i = snapshot_last_idx s)"
    and "log_load_from_snapshot i t ((raft_set_state RAFT_STATE_FOLLOWER
      (s\<lparr>current_term := t, voted_for := - 1\<rparr>))\<lparr>current_leader := None\<rparr>) = Some (0, c)"
    and "(if raft_get_commit_idx c < i then raft_set_commit_idx i c else Some c) = Some d"
  shows "raft_begin_load_snapshot t i s = do {
    let me = raft_set_snapshot_metadata t i (d\<lparr>last_applied_idx := i\<rparr>);
    (mine, me) \<leftarrow> deactivate_loop 0 0 (nodes me) me;
    a \<leftarrow> array_get (nodes me) mine;
    Some (0, me\<lparr>nodes := [a]\<rparr>)
  }"
proof -
  have applied_idx: "last_applied_idx (d\<lparr>last_applied_idx := i\<rparr>) = i" by simp
  show ?thesis
    unfolding raft_begin_load_snapshot_def Let_def
    by (simp only: assms(1-5) if_False, simp only: assms(6) bind.bind_lunit prod.case,
        simp only: assms(7) bind.bind_lunit applied_idx)
qed

text \<open>
  Loading a snapshot replaces the log: when \<open>raft_begin_load_snapshot\<close> succeeds the snapshot covers
  everything that was in the log, the log is empty and starts after the snapshot's index, which is also
  the commit and the last applied index, the server is a follower without a vote in the snapshot's term,
  and only one node (its own) is left.  Neither the term nor the vote is persisted.
\<close>

theorem load_snapshot_replaces_log:
  assumes "server_ok s" "raft_begin_load_snapshot t i s = Some (0, s')"
  shows "raft_get_current_idx s \<le> i \<and> last_applied_idx s \<le> i \<and> log_get_base (rlog s') = i \<and>
    raft_get_log_count s' = 0 \<and> commit_idx s' = i \<and> last_applied_idx s' = i \<and>
    snapshot_last_idx s' = i \<and> snapshot_last_term s' = t \<and> current_term s' = t \<and> voted_for s' = - 1 \<and>
    raft_is_follower s' \<and> length (nodes s') = 1 \<and>
    fold stable_write (hist s') d = fold stable_write (hist s) d"
proof -
  let ?s1 = "(raft_set_state RAFT_STATE_FOLLOWER (s\<lparr>current_term := t, voted_for := - 1\<rparr>))\<lparr>current_leader := None\<rparr>"
  have guard: "i \<noteq> - 1" "\<not> (i = 0 \<or> t = 0)" "\<not> i < last_applied_idx s" "\<not> i < raft_get_current_idx s"
    "\<not> (t = snapshot_last_term s \<and> i = snapshot_last_idx s)"
    using assms(2) by (simp_all add: raft_begin_load_snapshot_def split: if_splits)
  have wf: "wf_log (rlog ?s1)" and ci: "commit_idx s \<le> i"
    using assms(1) guard(4) by (simp_all add: server_ok_def raft_set_state_def)
  obtain n where clear: "log_clear_entries ?s1 = Some (?s1\<lparr>hist := hist ?s1 @ clear_events n (rlog ?s1)\<rparr>)"
    using log_clear_entries_cases [OF wf] by blast
  let ?c = "?s1\<lparr>hist := hist ?s1 @ clear_events n (rlog ?s1), rlog := (log_clear (rlog ?s1))\<lparr>lp_base := i\<rparr>\<rparr>"
  let ?s2 = "raft_set_snapshot_metadata t i (?c\<lparr>commit_idx := i, last_applied_idx := i\<rparr>)"
  have load: "log_load_from_snapshot i t ?s1 = Some (0, ?c)"
    by (simp only: log_load_from_snapshot_def clear Option.bind.simps) simp
  have "commit_idx ?c \<le> i" "raft_get_current_idx ?c = i"
    using ci by (simp_all add: raft_set_state_def raft_get_current_idx_def log_get_current_idx_def
        log_count_def log_clear_def)
  note commit = catch_up_commit_idx [OF this]
  have run: "raft_begin_load_snapshot t i s = Option.bind (deactivate_loop 0 0 (nodes ?s2) ?s2)
      (\<lambda>(mine, me). Option.bind (array_get (nodes me) mine) (\<lambda>a. Some (0, me\<lparr>nodes := [a]\<rparr>)))"
    using load_snapshot_run [OF guard load commit] unfolding Let_def by simp
  obtain m u a where u: "deactivate_loop 0 0 (nodes ?s2) ?s2 = Some (m, u)" and s': "s' = u\<lparr>nodes := [a]\<rparr>"
    using trans [OF run [symmetric] assms(2)] by (auto simp: Option.bind_eq_Some_conv)
  have "only_nodes ?s2 u"
    using ensuresD [OF deactivate_loop_only_nodes [OF on.R_refl] u] by simp
  then have fields: "core u = core ?s2" and "quiet_ext (hist ?s2) (hist u)" by (simp_all add: only_nodes_def)
  then obtain evs where evs: "hist u = hist ?s2 @ evs" "list_all quiet_event evs"
    by (auto simp: quiet_ext_def)
  have "hist ?s2 = hist s @ clear_events n (rlog s)"
    by (simp add: raft_set_snapshot_metadata_def raft_set_state_def)
  with evs have "fold stable_write (hist s') d = fold stable_write (hist s) d"
    by (simp add: s' fold_stable_write_quiet quiet_clear_events)
  moreover have "current_term ?s2 = t" "voted_for ?s2 = - 1" "commit_idx ?s2 = i" "last_applied_idx ?s2 = i"
    "rstate ?s2 = RAFT_STATE_FOLLOWER" "snapshot_last_idx ?s2 = i" "snapshot_last_term ?s2 = t"
    "lp_base (rlog ?s2) = i" "lp_count (rlog ?s2) = 0"
    by (simp_all add: raft_set_snapshot_metadata_def raft_set_state_def log_clear_def)
  ultimately show ?thesis
    using guard core_fields [OF fields]
    by (simp add: s' log_get_base_def raft_getter_defs log_count_def)
qed

lemma load_snapshot_replaces_log_witness:
  "\<exists>s'. raft_begin_load_snapshot 2 9 demo_server = Some (0, s') \<and> log_get_base (rlog s') = 9 \<and>
    current_term s' = 2 \<and> voted_for s' = - 1"
proof -
  have "\<exists>s'. raft_begin_load_snapshot 2 9 demo_server = Some (0, s')"
    by (simp add: raft_eval demo_server_def demo_log_def)
  then obtain s' where s': "raft_begin_load_snapshot 2 9 demo_server = Some (0, s')" by blast
  with load_snapshot_replaces_log [OF demo_server_fields(3) s'] show ?thesis by blast
qed

text \<open>
  Loading a snapshot of an older term lets the server vote twice: a server that has voted for 7 in
  term 5 loads a snapshot of term 1, goes back to term 1 with a free vote while the disk still says
  term 5 and vote 7, and then grants the vote of term 5 to candidate 8.
\<close>

theorem load_snapshot_allows_second_vote:
  "\<exists>s s1 s2. demo_state demo_voter = Some s \<and> current_term s = 5 \<and> voted_for s = 7 \<and>
     raft_begin_load_snapshot 1 4 s = Some (0, s1) \<and> current_term s1 = 1 \<and> voted_for s1 = - 1 \<and>
     fold stable_write (hist s1) (0, - 1) = (5, 7) \<and>
     perform (demo_vote 8) s1 = Some s2 \<and> current_term s2 = 5 \<and> voted_for s2 = 8"
proof -
  let ?f = "\<lambda>s. (current_term s, voted_for s, map_option (\<lambda>(e, s1). (e, current_term s1, voted_for s1,
    fold stable_write (hist s1) (0, - 1), map_option (\<lambda>s2. (current_term s2, voted_for s2))
      (perform (demo_vote 8) s1))) (raft_begin_load_snapshot 1 4 s))"
  have "map_option ?f (demo_state demo_voter) = Some (5, 7, Some (0, 1, - 1, (5, 7), Some (5, 8)))"
    by (simp add: raft_eval demo_voter_def)
  then show ?thesis by (auto split: prod.splits)
qed

end

