(* ===== verification/Kcp_Codec.thy ===== *)
theory Kcp_Codec
  imports Base
begin

unbundle bit_operations_syntax

text \<open>
  The wire format of KCP (\<open>kcp/cc/ikcp.c\<close>): little-endian integers of 8, 16 and 32 bits, the segment
  header made of them, and the arithmetic on 32-bit sequence numbers and times.  The contract \<open>codec\<close>
  says what an encoder and a decoder promise together; it is interpreted on the three integer codecs
  and on the header.
\<close>

type_synonym byte = "8 word"
type_synonym u32 = "32 word"

section \<open>Constants\<close>

definition IKCP_RTO_NDL :: u32 where "IKCP_RTO_NDL = 30"
definition IKCP_RTO_MIN :: u32 where "IKCP_RTO_MIN = 100"
definition IKCP_RTO_DEF :: u32 where "IKCP_RTO_DEF = 200"
definition IKCP_RTO_MAX :: u32 where "IKCP_RTO_MAX = 60000"
definition IKCP_CMD_PUSH :: u32 where "IKCP_CMD_PUSH = 81"
definition IKCP_CMD_ACK :: u32 where "IKCP_CMD_ACK = 82"
definition IKCP_CMD_WASK :: u32 where "IKCP_CMD_WASK = 83"
definition IKCP_CMD_WINS :: u32 where "IKCP_CMD_WINS = 84"
definition IKCP_ASK_SEND :: u32 where "IKCP_ASK_SEND = 1"
definition IKCP_ASK_TELL :: u32 where "IKCP_ASK_TELL = 2"
definition IKCP_WND_SND :: u32 where "IKCP_WND_SND = 32"
definition IKCP_WND_RCV :: u32 where "IKCP_WND_RCV = 128"
definition IKCP_MTU_DEF :: u32 where "IKCP_MTU_DEF = 1400"
definition IKCP_INTERVAL :: u32 where "IKCP_INTERVAL = 100"
definition IKCP_OVERHEAD :: u32 where "IKCP_OVERHEAD = 24"
definition IKCP_DEADLINK :: u32 where "IKCP_DEADLINK = 20"
definition IKCP_THRESH_INIT :: u32 where "IKCP_THRESH_INIT = 2"
definition IKCP_THRESH_MIN :: u32 where "IKCP_THRESH_MIN = 2"
definition IKCP_PROBE_INIT :: u32 where "IKCP_PROBE_INIT = 7000"
definition IKCP_PROBE_LIMIT :: u32 where "IKCP_PROBE_LIMIT = 120000"
definition IKCP_FASTACK_LIMIT :: int where "IKCP_FASTACK_LIMIT = 5"

lemmas kcp_constants = IKCP_RTO_NDL_def IKCP_RTO_MIN_def IKCP_RTO_DEF_def IKCP_RTO_MAX_def
  IKCP_CMD_PUSH_def IKCP_CMD_ACK_def IKCP_CMD_WASK_def IKCP_CMD_WINS_def IKCP_ASK_SEND_def
  IKCP_ASK_TELL_def IKCP_WND_SND_def IKCP_WND_RCV_def IKCP_MTU_DEF_def IKCP_INTERVAL_def
  IKCP_OVERHEAD_def IKCP_DEADLINK_def IKCP_THRESH_INIT_def IKCP_THRESH_MIN_def IKCP_PROBE_INIT_def
  IKCP_PROBE_LIMIT_def IKCP_FASTACK_LIMIT_def

section \<open>Integers on the wire\<close>

text \<open>
  An encoder gives the bytes it writes; a decoder reads from the front of the remaining input and gives
  the value with what is left, or nothing when it would read past the end.
\<close>

definition ikcp_encode8u :: "8 word \<Rightarrow> byte list" where "ikcp_encode8u c = [c]"

fun ikcp_decode8u :: "byte list \<Rightarrow> (8 word \<times> byte list) option" where
  "ikcp_decode8u (b0 # p) = Some (b0, p)"
| "ikcp_decode8u _ = None"

definition ikcp_encode16u :: "16 word \<Rightarrow> byte list" where
  "ikcp_encode16u w = [ucast w, ucast (drop_bit 8 w)]"

fun ikcp_decode16u :: "byte list \<Rightarrow> (16 word \<times> byte list) option" where
  "ikcp_decode16u (b0 # b1 # p) = Some (ucast b0 + push_bit 8 (ucast b1), p)"
| "ikcp_decode16u _ = None"

definition ikcp_encode32u :: "u32 \<Rightarrow> byte list" where
  "ikcp_encode32u l = [ucast l, ucast (drop_bit 8 l), ucast (drop_bit 16 l), ucast (drop_bit 24 l)]"

fun ikcp_decode32u :: "byte list \<Rightarrow> (u32 \<times> byte list) option" where
  "ikcp_decode32u (b0 # b1 # b2 # b3 # p) =
     Some (ucast b0 + push_bit 8 (ucast b1 + push_bit 8 (ucast b2 + push_bit 8 (ucast b3))), p)"
| "ikcp_decode32u _ = None"

definition ikcp_getconv :: "byte list \<Rightarrow> u32 option" where
  "ikcp_getconv ptr = map_option fst (ikcp_decode32u ptr)"

definition imin :: "u32 \<Rightarrow> u32 \<Rightarrow> u32" where "imin a b = (if a \<le> b then a else b)"
definition imax :: "u32 \<Rightarrow> u32 \<Rightarrow> u32" where "imax a b = (if b \<le> a then a else b)"

definition ibound :: "u32 \<Rightarrow> u32 \<Rightarrow> u32 \<Rightarrow> u32" where
  "ibound lower middle upper = imin (imax lower middle) upper"

definition itimediff :: "u32 \<Rightarrow> u32 \<Rightarrow> int" where
  "itimediff later earlier = sint (later - earlier)"

text \<open>Arithmetic on \<open>int\<close> has no result when it overflows.\<close>

definition c_int :: "int \<Rightarrow> int option" where
  "c_int x = (if - 2147483648 \<le> x \<and> x < 2147483648 then Some x else None)"

text \<open>An unsigned value assigned to an \<open>int\<close>, and back: the bits stay.\<close>

abbreviation to_int :: "u32 \<Rightarrow> int" where "to_int w \<equiv> sint w"
abbreviation to_u32 :: "int \<Rightarrow> u32" where "to_u32 i \<equiv> word_of_int i"

definition c_udiv :: "u32 \<Rightarrow> u32 \<Rightarrow> u32 option" where
  "c_udiv a b = (if b = 0 then None else Some (a div b))"

text \<open>C's \<open>/\<close> on signed operands truncates towards zero.\<close>

definition c_quot :: "int \<Rightarrow> int \<Rightarrow> int" where "c_quot a b = a sdiv b"

section \<open>The contract of a codec\<close>

locale codec =
  fixes enc :: "'a \<Rightarrow> byte list"
    and dec :: "byte list \<Rightarrow> ('a \<times> byte list) option"
    and width :: nat
  assumes width_enc: "length (enc a) = width"
    and dec_enc: "dec (enc a @ r) = Some (a, r)"
    and dec_None: "dec p = None \<longleftrightarrow> length p < width"
    and enc_dec: "dec p = Some (a, r) \<Longrightarrow> p = enc a @ r"
begin

lemma enc_inj: "enc a = enc b \<longleftrightarrow> a = b"
  by (metis Pair_inject dec_enc option.inject)

lemma dec_Some_iff: "dec p = Some (a, r) \<longleftrightarrow> p = enc a @ r"
  using dec_enc enc_dec by blast

lemma dec_total:
  assumes "width \<le> length p"
  obtains a r where "dec p = Some (a, r)" "length r = length p - width" "r = drop width p"
proof -
  obtain a r where d: "dec p = Some (a, r)"
    using dec_None [of p] assms by (cases "dec p") auto
  then have "p = enc a @ r" by (rule enc_dec)
  then have "r = drop width p" using width_enc by (simp add: append_eq_conv_conj)
  with d that show thesis by simp
qed

lemma prefix_free: "enc a @ r = enc b @ r' \<Longrightarrow> a = b \<and> r = r'"
  by (metis Pair_inject dec_enc option.inject)

end

section \<open>The integers keep the contract\<close>

lemma bit_byte: "8 \<le> n \<Longrightarrow> \<not> bit (b :: byte) n"
  by (auto dest: bit_imp_le_length)

lemma join16: "ucast b + push_bit 8 h = (ucast (b :: byte) OR push_bit 8 h :: 16 word)"
  by (subst disjunctive_add) (auto simp: bit_simps bit_byte)

lemma join32: "ucast b + push_bit 8 h = (ucast (b :: byte) OR push_bit 8 h :: u32)"
  by (subst disjunctive_add) (auto simp: bit_simps bit_byte)

lemma low_high16: "ucast (ucast w :: byte) OR push_bit 8 (ucast (ucast (drop_bit 8 w) :: byte)) = (w :: 16 word)"
  by (auto simp: bit_simps bit_eq_iff)

lemma low_high32: "ucast (ucast h :: byte) OR push_bit 8 (drop_bit 8 h) = (h :: u32)"
proof (rule bit_word_eqI)
  fix n assume "n < LENGTH(32)"
  then show "bit (ucast (ucast h :: byte) OR push_bit 8 (drop_bit 8 h)) n = bit h n"
    by (cases "n < 8") (auto simp: bit_simps)
qed

lemma high_byte32: "ucast (ucast (drop_bit 24 l) :: byte) = (drop_bit 24 l :: u32)"
  by (auto simp: bit_simps bit_eq_iff dest: bit_imp_le_length)

lemma low_join16: "ucast (ucast b0 OR push_bit 8 h :: 16 word) = (b0 :: byte)"
  by (auto simp: bit_simps bit_eq_iff)

lemma low_join32: "ucast (ucast b0 OR push_bit 8 h :: u32) = (b0 :: byte)"
  by (auto simp: bit_simps bit_eq_iff)

lemma high_join16: "ucast (drop_bit 8 (ucast (b0 :: byte) OR push_bit 8 (ucast b1) :: 16 word)) = (b1 :: byte)"
  by (auto simp: bit_simps bit_eq_iff dest: bit_imp_le_length)

lemma high_join32: "bit (drop_bit 8 (ucast (b0 :: byte) OR push_bit 8 h :: u32)) n = (bit h n \<and> n < 24)"
  by (auto simp: bit_simps bit_byte)

lemma ikcp_code16: "ikcp_decode16u (ikcp_encode16u w @ r) = Some (w, r)"
  by (simp add: ikcp_encode16u_def join16 low_high16)

lemma ikcp_code32: "ikcp_decode32u (ikcp_encode32u l @ r) = Some (l, r)"
proof -
  have "drop_bit 8 (drop_bit 8 l) = drop_bit 16 l" "drop_bit 8 (drop_bit 16 l) = drop_bit 24 l" by simp_all
  then show ?thesis
  unfolding ikcp_encode32u_def append.simps ikcp_decode32u.simps join32 high_byte32
  using low_high32 [of l] low_high32 [of "drop_bit 8 l"] low_high32 [of "drop_bit 16 l"] 
  by (simp only: )
qed

lemma dec16_enc: "ikcp_decode16u p = Some (a, r) \<Longrightarrow> p = ikcp_encode16u a @ r"
  by (elim ikcp_decode16u.elims) (simp_all add: ikcp_encode16u_def join16 low_join16 high_join16 del: push_bit_or drop_bit_or)

lemma dec32_enc: "ikcp_decode32u p = Some (a, r) \<Longrightarrow> p = ikcp_encode32u a @ r"
proof (cases p rule: ikcp_decode32u.cases)
  case (1 b0 b1 b2 b3 p')
  note p = this
  assume d: "ikcp_decode32u p = Some (a, r)"
  from d have a: "a = ucast b0 OR push_bit 8 (ucast b1 OR push_bit 8 (ucast b2 OR push_bit 8 (ucast b3)))" and r: "r = p'"
    by (simp_all only: p ikcp_decode32u.simps join32 option.inject prod.inject)
  have "ucast a = b0" unfolding a by (rule low_join32)
  moreover have "ucast (drop_bit 8 a) = b1" "ucast (drop_bit 16 a) = b2" "ucast (drop_bit 24 a) = b3"
    unfolding a by (auto simp: bit_simps bit_eq_iff bit_byte)
  ultimately show ?thesis by (simp add: ikcp_encode32u_def p r)
qed simp_all

interpretation u8: codec ikcp_encode8u ikcp_decode8u 1
  by unfold_locales
    (auto simp: ikcp_encode8u_def Suc_le_eq elim: ikcp_decode8u.elims split: list.splits)

lemma decode16_None: "ikcp_decode16u p = None \<longleftrightarrow> length p < 2"
  by (cases p rule: ikcp_decode16u.cases) simp_all
lemma decode32_None: "ikcp_decode32u p = None \<longleftrightarrow> length p < 4"
  by (cases p rule: ikcp_decode32u.cases) simp_all

interpretation u16: codec ikcp_encode16u ikcp_decode16u 2
  by unfold_locales
    (simp_all add: ikcp_code16 dec16_enc decode16_None, simp add: ikcp_encode16u_def)
interpretation u32: codec ikcp_encode32u ikcp_decode32u 4
  by unfold_locales
    (simp_all add: ikcp_code32 dec32_enc decode32_None, simp add: ikcp_encode32u_def)

section \<open>The segment header\<close>

text \<open>
  The 24 bytes before the payload, with the widths they have on the wire: the locals that \<open>ikcp_input\<close>
  decodes.  It reads the conversation id first and checks it before it reads the rest.
\<close>

record kcp_header =
  h_conv :: u32
  h_cmd :: "8 word"
  h_frg :: "8 word"
  h_wnd :: "16 word"
  h_ts :: u32
  h_sn :: u32
  h_una :: u32
  h_len :: u32

definition encode_header :: "kcp_header \<Rightarrow> byte list" where
  "encode_header h = ikcp_encode32u (h_conv h) @ ikcp_encode8u (h_cmd h) @ ikcp_encode8u (h_frg h) @
     ikcp_encode16u (h_wnd h) @ ikcp_encode32u (h_ts h) @ ikcp_encode32u (h_sn h) @
     ikcp_encode32u (h_una h) @ ikcp_encode32u (h_len h)"

definition decode_fields :: "u32 \<Rightarrow> byte list \<Rightarrow> (kcp_header \<times> byte list) option" where
  "decode_fields conv data = do {
     (cmd, data) \<leftarrow> ikcp_decode8u data;
     (frg, data) \<leftarrow> ikcp_decode8u data;
     (wnd, data) \<leftarrow> ikcp_decode16u data;
     (ts, data) \<leftarrow> ikcp_decode32u data;
     (sn, data) \<leftarrow> ikcp_decode32u data;
     (una, data) \<leftarrow> ikcp_decode32u data;
     (len, data) \<leftarrow> ikcp_decode32u data;
     Some (\<lparr>h_conv = conv, h_cmd = cmd, h_frg = frg, h_wnd = wnd, h_ts = ts, h_sn = sn,
            h_una = una, h_len = len\<rparr>, data)
   }"

definition decode_header :: "byte list \<Rightarrow> (kcp_header \<times> byte list) option" where
  "decode_header data = do { (conv, data) \<leftarrow> ikcp_decode32u data; decode_fields conv data }"

lemma decode_header_enc: "decode_header (encode_header h @ r) = Some (h, r)"
  by (simp add: decode_header_def decode_fields_def encode_header_def u8.dec_enc u16.dec_enc u32.dec_enc)

lemma decode_header_Some:
  assumes "24 \<le> length p"
  shows "decode_header p \<noteq> None"
proof -
  obtain a p1 where 1: "ikcp_decode32u p = Some (a, p1)" "length p1 = length p - 4"
    by (rule u32.dec_total [of p]) (use assms in auto)
  obtain b p2 where 2: "ikcp_decode8u p1 = Some (b, p2)" "length p2 = length p1 - 1"
    by (rule u8.dec_total [of p1]) (use assms 1 in auto)
  obtain c p3 where 3: "ikcp_decode8u p2 = Some (c, p3)" "length p3 = length p2 - 1"
    by (rule u8.dec_total [of p2]) (use assms 1 2 in auto)
  obtain d p4 where 4: "ikcp_decode16u p3 = Some (d, p4)" "length p4 = length p3 - 2"
    by (rule u16.dec_total [of p3]) (use assms 1 2 3 in auto)
  obtain e p5 where 5: "ikcp_decode32u p4 = Some (e, p5)" "length p5 = length p4 - 4"
    by (rule u32.dec_total [of p4]) (use assms 1 2 3 4 in auto)
  obtain f p6 where 6: "ikcp_decode32u p5 = Some (f, p6)" "length p6 = length p5 - 4"
    by (rule u32.dec_total [of p5]) (use assms 1 2 3 4 5 in auto)
  obtain g p7 where 7: "ikcp_decode32u p6 = Some (g, p7)" "length p7 = length p6 - 4"
    by (rule u32.dec_total [of p6]) (use assms 1 2 3 4 5 6 in auto)
  obtain i p8 where 8: "ikcp_decode32u p7 = Some (i, p8)"
    by (rule u32.dec_total [of p7]) (use assms 1 2 3 4 5 6 7 in auto)
  show ?thesis by (simp add: decode_header_def decode_fields_def 1 2 3 4 5 6 7 8)
qed

lemma enc_decode_header: "decode_header p = Some (h, r) \<Longrightarrow> p = encode_header h @ r"
  by (auto simp: decode_header_def decode_fields_def encode_header_def Option.bind_eq_Some_conv
      u8.dec_Some_iff u16.dec_Some_iff u32.dec_Some_iff)

lemma length_encode_header: "length (encode_header h) = 24"
  by (simp add: encode_header_def u8.width_enc u16.width_enc u32.width_enc)

lemma decode_header_None: "decode_header p = None \<longleftrightarrow> length p < 24"
proof
  assume "decode_header p = None"
  then show "length p < 24" using decode_header_Some [of p] by fastforce
next
  assume l: "length p < 24"
  show "decode_header p = None"
  proof (rule ccontr)
    assume "decode_header p \<noteq> None"
    then obtain h r where "decode_header p = Some (h, r)" by auto
    from enc_decode_header [OF this] l show False by (simp add: length_encode_header)
  qed
qed

interpretation header: codec encode_header decode_header 24
  by unfold_locales
    (auto simp: length_encode_header decode_header_enc decode_header_None enc_decode_header)

end
