(* ===== verification/Kcp_State.thy ===== *)
theory Kcp_State
  imports Kcp_Codec
begin

text \<open>
  The data of KCP (\<open>kcp/cc/ikcp.h\<close>): segments and the control block, and the operations of
  \<open>ikcp.c\<close> that create, configure and release it.  An intrusive queue (\<open>IQUEUEHEAD\<close>) is the list of its
  segments in order.  A segment's \<open>data\<close> is the list of the bytes allocated for it.  The send buffer holds
  nothing between calls, so \<open>buffer\<close> is its size in bytes.  \<open>packets\<close> is the history of what the
  output callback was given; \<open>user\<close>, the log mask and the log callback are not part of the state.
\<close>

section \<open>Allocation\<close>

text \<open>
  The allocator and the content of fresh memory are parameters: whether the \<open>n\<close>-th request for so many
  bytes is served, and the bytes and words that a fresh block holds before it is written.
\<close>

record kcp_env =
  kenv_alloc :: "nat \<Rightarrow> nat \<Rightarrow> bool"
  kenv_byte :: "nat \<Rightarrow> nat \<Rightarrow> byte"
  kenv_word :: "nat \<Rightarrow> nat \<Rightarrow> u32"

section \<open>Segments and the control block\<close>

record IKCPSEG =
  seg_conv :: u32
  seg_cmd :: u32
  seg_frg :: u32
  seg_wnd :: u32
  seg_ts :: u32
  seg_sn :: u32
  seg_una :: u32
  seg_len :: u32
  seg_resendts :: u32
  seg_rto :: u32
  seg_fastack :: u32
  seg_xmit :: u32
  seg_data :: "byte list"

record ikcpcb =
  conv :: u32
  mtu :: u32
  mss :: u32
  kstate :: u32
  snd_una :: u32
  snd_nxt :: u32
  rcv_nxt :: u32
  ts_recent :: u32
  ts_lastack :: u32
  ssthresh :: u32
  rx_rttval :: int
  rx_srtt :: int
  rx_rto :: int
  rx_minrto :: int
  snd_wnd :: u32
  rcv_wnd :: u32
  rmt_wnd :: u32
  cwnd :: u32
  probe :: u32
  current :: u32
  interval :: u32
  ts_flush :: u32
  xmit :: u32
  nrcv_buf :: u32
  nsnd_buf :: u32
  nrcv_que :: u32
  nsnd_que :: u32
  nodelay :: u32
  updated :: u32
  ts_probe :: u32
  probe_wait :: u32
  dead_link :: u32
  incr :: u32
  snd_queue :: "IKCPSEG list"
  rcv_queue :: "IKCPSEG list"
  snd_buf :: "IKCPSEG list"
  rcv_buf :: "IKCPSEG list"
  acklist :: "u32 list option"
  ackcount :: u32
  ackblock :: u32
  buffer :: nat
  fastresend :: int
  fastlimit :: int
  nocwnd :: int
  stream :: int
  koutput :: "(byte list \<Rightarrow> int) option"
  packets :: "byte list list"
  kenv :: kcp_env
  requests :: nat

definition ikcp_malloc :: "nat \<Rightarrow> ikcpcb \<Rightarrow> bool \<times> ikcpcb" where
  "ikcp_malloc n kcp = (kenv_alloc (kenv kcp) (requests kcp) n, kcp\<lparr>requests := requests kcp + 1\<rparr>)"

definition sizeof_IKCPSEG :: nat where "sizeof_IKCPSEG = 72"

definition sizeof_IKCPCB :: nat where "sizeof_IKCPCB = 272"

definition fresh_segment :: "kcp_env \<Rightarrow> nat \<Rightarrow> nat \<Rightarrow> IKCPSEG" where
  "fresh_segment E k n = (let w = kenv_word E k in
     \<lparr>seg_conv = w 0, seg_cmd = w 1, seg_frg = w 2, seg_wnd = w 3, seg_ts = w 4, seg_sn = w 5,
      seg_una = w 6, seg_len = w 7, seg_resendts = w 8, seg_rto = w 9, seg_fastack = w 10,
      seg_xmit = w 11, seg_data = map (kenv_byte E k) [0..<n]\<rparr>)"

text \<open>A null result is \<open>None\<close> in the first component.\<close>

definition ikcp_segment_new :: "nat \<Rightarrow> ikcpcb \<Rightarrow> IKCPSEG option \<times> ikcpcb" where
  "ikcp_segment_new n kcp =
     (case ikcp_malloc (sizeof_IKCPSEG + n) kcp of (ok, kcp') \<Rightarrow>
       (if ok then Some (fresh_segment (kenv kcp) (requests kcp) n) else None, kcp'))"

text \<open>The payload that the code copies out of a segment: \<open>len\<close> bytes from \<open>data\<close>.\<close>

definition seg_payload :: "IKCPSEG \<Rightarrow> byte list option" where
  "seg_payload seg = (if unat (seg_len seg) \<le> length (seg_data seg)
                      then Some (take (unat (seg_len seg)) (seg_data seg)) else None)"

section \<open>Creation and release\<close>

definition ikcp_create :: "kcp_env \<Rightarrow> u32 \<Rightarrow> ikcpcb option" where
  "ikcp_create E c =
     (let size = unat ((IKCP_MTU_DEF + IKCP_OVERHEAD) * 3) in
      if \<not> kenv_alloc E 0 sizeof_IKCPCB then None
      else if \<not> kenv_alloc E 1 size then None
      else Some \<lparr>conv = c, mtu = IKCP_MTU_DEF, mss = IKCP_MTU_DEF - IKCP_OVERHEAD, kstate = 0,
        snd_una = 0, snd_nxt = 0, rcv_nxt = 0, ts_recent = 0, ts_lastack = 0,
        ssthresh = IKCP_THRESH_INIT, rx_rttval = 0, rx_srtt = 0, rx_rto = to_int IKCP_RTO_DEF,
        rx_minrto = to_int IKCP_RTO_MIN, snd_wnd = IKCP_WND_SND, rcv_wnd = IKCP_WND_RCV,
        rmt_wnd = IKCP_WND_RCV, cwnd = 0, probe = 0, current = 0, interval = IKCP_INTERVAL,
        ts_flush = IKCP_INTERVAL, xmit = 0, nrcv_buf = 0, nsnd_buf = 0, nrcv_que = 0, nsnd_que = 0,
        nodelay = 0, updated = 0, ts_probe = 0, probe_wait = 0, dead_link = IKCP_DEADLINK, incr = 0,
        snd_queue = [], rcv_queue = [], snd_buf = [], rcv_buf = [], acklist = None, ackcount = 0,
        ackblock = 0, buffer = size, fastresend = 0, fastlimit = IKCP_FASTACK_LIMIT, nocwnd = 0,
        stream = 0, koutput = None, packets = [], kenv = E, requests = 2\<rparr>)"

text \<open>
  Releasing deletes the segments of the four queues, then the send buffer and the acknowledge list; the
  result is the segments handed to the allocator, in order, and the block as it is when it is freed.
\<close>

definition ikcp_release :: "ikcpcb \<Rightarrow> IKCPSEG list \<times> ikcpcb" where
  "ikcp_release kcp =
     (snd_buf kcp @ rcv_buf kcp @ snd_queue kcp @ rcv_queue kcp,
      kcp\<lparr>snd_buf := [], rcv_buf := [], snd_queue := [], rcv_queue := [], nrcv_buf := 0, nsnd_buf := 0,
          nrcv_que := 0, nsnd_que := 0, ackcount := 0, buffer := 0, acklist := None\<rparr>)"

definition ikcp_setoutput :: "(byte list \<Rightarrow> int) option \<Rightarrow> ikcpcb \<Rightarrow> ikcpcb" where
  "ikcp_setoutput f kcp = kcp\<lparr>koutput := f\<rparr>"

section \<open>Configuration\<close>

text \<open>The size that is allocated is computed with unsigned 32-bit arithmetic.\<close>

definition ikcp_setmtu :: "int \<Rightarrow> ikcpcb \<Rightarrow> int \<times> ikcpcb" where
  "ikcp_setmtu m kcp =
     (if m < 50 \<or> m < to_int IKCP_OVERHEAD then (- 1, kcp)
      else let size = unat ((to_u32 m + IKCP_OVERHEAD) * 3) in
        case ikcp_malloc size kcp of (ok, kcp) \<Rightarrow>
          if \<not> ok then (- 2, kcp)
          else (0, kcp\<lparr>mtu := to_u32 m, mss := to_u32 m - IKCP_OVERHEAD, buffer := size\<rparr>))"

definition clamp_interval :: "int \<Rightarrow> int" where
  "clamp_interval i = (if 5000 < i then 5000 else if i < 10 then 10 else i)"

definition ikcp_interval :: "int \<Rightarrow> ikcpcb \<Rightarrow> int \<times> ikcpcb" where
  "ikcp_interval i kcp = (0, kcp\<lparr>interval := to_u32 (clamp_interval i)\<rparr>)"

definition ikcp_nodelay :: "int \<Rightarrow> int \<Rightarrow> int \<Rightarrow> int \<Rightarrow> ikcpcb \<Rightarrow> int \<times> ikcpcb" where
  "ikcp_nodelay nd i resend nc kcp =
     (let kcp = (if 0 \<le> nd
            then kcp\<lparr>nodelay := to_u32 nd,
              rx_minrto := (if nd \<noteq> 0 then to_int IKCP_RTO_NDL else to_int IKCP_RTO_MIN)\<rparr>
            else kcp);
          kcp = (if 0 \<le> i then kcp\<lparr>interval := to_u32 (clamp_interval i)\<rparr> else kcp);
          kcp = (if 0 \<le> resend then kcp\<lparr>fastresend := resend\<rparr> else kcp);
          kcp = (if 0 \<le> nc then kcp\<lparr>nocwnd := nc\<rparr> else kcp)
      in (0, kcp))"

definition ikcp_wndsize :: "int \<Rightarrow> int \<Rightarrow> ikcpcb \<Rightarrow> int \<times> ikcpcb" where
  "ikcp_wndsize sndwnd rcvwnd kcp =
     (let kcp = (if 0 < sndwnd then kcp\<lparr>snd_wnd := to_u32 sndwnd\<rparr> else kcp);
          kcp = (if 0 < rcvwnd then kcp\<lparr>rcv_wnd := imax (to_u32 rcvwnd) IKCP_WND_RCV\<rparr> else kcp)
      in (0, kcp))"

definition ikcp_waitsnd :: "ikcpcb \<Rightarrow> int" where
  "ikcp_waitsnd kcp = to_int (nsnd_buf kcp + nsnd_que kcp)"

end
