(* ===== verification/Kcp_Queues.thy ===== *)
theory Kcp_Queues
  imports Kcp_State
begin

text \<open>
  The user's side of KCP (\<open>ikcp_send\<close>, \<open>ikcp_recv\<close>, \<open>ikcp_peeksize\<close>) and the queue operations on
  acknowledgements and received segments that \<open>ikcp_input\<close> is made of.  \<open>None\<close> stands for a failed
  assertion or an access out of bounds.
\<close>

section \<open>Receiving: from \<open>rcv_buf\<close> to \<open>rcv_queue\<close> to the user\<close>

fun peek_length :: "u32 \<Rightarrow> IKCPSEG list \<Rightarrow> u32" where
  "peek_length n [] = n"
| "peek_length n (seg # p) =
     (let n = n + seg_len seg in if seg_frg seg = 0 then n else peek_length n p)"

definition ikcp_peeksize :: "ikcpcb \<Rightarrow> int" where
  "ikcp_peeksize kcp =
     (case rcv_queue kcp of
        [] \<Rightarrow> - 1
      | seg # _ \<Rightarrow>
          if seg_frg seg = 0 then to_int (seg_len seg)
          else if nrcv_que kcp < seg_frg seg + 1 then - 1
          else to_int (peek_length 0 (rcv_queue kcp)))"

text \<open>Move the segments that are next in order; both \<open>ikcp_recv\<close> and \<open>ikcp_parse_data\<close> end with it.\<close>

function rcv_move :: "ikcpcb \<Rightarrow> ikcpcb" where
  "rcv_move kcp =
     (case rcv_buf kcp of
        [] \<Rightarrow> kcp
      | seg # p \<Rightarrow>
          if seg_sn seg = rcv_nxt kcp \<and> nrcv_que kcp < rcv_wnd kcp
          then rcv_move (kcp\<lparr>rcv_buf := p, nrcv_buf := nrcv_buf kcp - 1,
                 rcv_queue := rcv_queue kcp @ [seg], nrcv_que := nrcv_que kcp + 1,
                 rcv_nxt := rcv_nxt kcp + 1\<rparr>)
          else kcp)"
  by pat_completeness auto
termination
  by (relation "measure (\<lambda>kcp. length (rcv_buf kcp))") auto

declare rcv_move.simps [simp del]

text \<open>
  The merging loop.  \<open>cap\<close> is the size of the user's buffer (\<open>None\<close> for a null pointer), \<open>out\<close> what has
  been copied into it.  The length is added up in 32 bits.
\<close>

fun recv_merge :: "nat option \<Rightarrow> bool \<Rightarrow> IKCPSEG list \<Rightarrow> byte list \<Rightarrow> u32 \<Rightarrow> ikcpcb
    \<Rightarrow> (byte list \<times> u32 \<times> ikcpcb) option" where
  "recv_merge cap ispeek [] out len kcp = Some (out, len, kcp)"
| "recv_merge cap ispeek (seg # p) out len kcp = do {
     out \<leftarrow> (case cap of None \<Rightarrow> Some out
       | Some c \<Rightarrow> do {
           d \<leftarrow> seg_payload seg;
           C_assert (length out + length d \<le> c);
           Some (out @ d)
         });
     let len = len + seg_len seg;
     let kcp = (if ispeek then kcp else kcp\<lparr>rcv_queue := p, nrcv_que := nrcv_que kcp - 1\<rparr>);
     if seg_frg seg = 0 then Some (out, len, kcp) else recv_merge cap ispeek p out len kcp
   }"

definition recv_recover :: "bool \<Rightarrow> ikcpcb \<Rightarrow> ikcpcb" where
  "recv_recover recover kcp =
     (if nrcv_que kcp < rcv_wnd kcp \<and> recover
      then kcp\<lparr>probe := probe kcp OR IKCP_ASK_TELL\<rparr> else kcp)"

definition ikcp_recv :: "nat option \<Rightarrow> int \<Rightarrow> ikcpcb \<Rightarrow> (int \<times> byte list \<times> ikcpcb) option" where
  "ikcp_recv cap len kcp =
     (let ispeek = len < 0 in
      if rcv_queue kcp = [] then Some (- 1, [], kcp)
      else do {
        len \<leftarrow> (if len < 0 then c_int (- len) else Some len);
        let peeksize = ikcp_peeksize kcp;
        if peeksize < 0 then Some (- 2, [], kcp)
        else if len < peeksize then Some (- 3, [], kcp)
        else do {
          let recover = rcv_wnd kcp \<le> nrcv_que kcp;
          (out, len, kcp) \<leftarrow> recv_merge cap ispeek (rcv_queue kcp) [] 0 kcp;
          C_assert (to_int len = peeksize);
          let kcp = recv_recover recover (rcv_move kcp);
          Some (to_int len, out, kcp)
        }
      })"

section \<open>Sending: fragments into \<open>snd_queue\<close>\<close>

text \<open>Copying \<open>n\<close> bytes from the front of the user's buffer.\<close>

definition take_bytes :: "int \<Rightarrow> byte list \<Rightarrow> byte list option" where
  "take_bytes n b = (if 0 \<le> n \<and> nat n \<le> length b then Some (take (nat n) b) else None)"

text \<open>
  The part for streams: fill up the last segment of the queue.  The result is the bytes sent, the rest of
  the user's buffer and its length.
\<close>

definition send_extend :: "byte list option \<Rightarrow> int \<Rightarrow> ikcpcb
    \<Rightarrow> (int \<times> byte list option \<times> int \<times> ikcpcb) option" where
  "send_extend buf len kcp =
     (if snd_queue kcp = [] then Some (0, buf, len, kcp)
      else do {
        let old = last (snd_queue kcp);
        if seg_len old < mss kcp
        then do {
          let capacity = to_int (mss kcp - seg_len old);
          let extend = (if len < capacity then len else capacity);
          C_assert (0 \<le> extend);
          let (p, kcp) = ikcp_segment_new (nat (sint (seg_len old + to_u32 extend))) kcp;
          seg \<leftarrow> p;
          d \<leftarrow> seg_payload old;
          b \<leftarrow> (case buf of
              None \<Rightarrow> Some (take (nat extend) (drop (length d) (seg_data seg)))
            | Some b \<Rightarrow> take_bytes extend b);
          let seg = seg\<lparr>seg_data := d @ b, seg_len := seg_len old + to_u32 extend, seg_frg := 0\<rparr>;
          Some (extend, map_option (drop (nat extend)) buf, len - extend,
            kcp\<lparr>snd_queue := butlast (snd_queue kcp) @ [seg]\<rparr>)
        }
        else Some (0, buf, len, kcp)
      })"

text \<open>The fragment loop; the first argument is the number of rounds left, \<open>count - i\<close>.\<close>

fun send_fragments :: "nat \<Rightarrow> byte list option \<Rightarrow> int \<Rightarrow> int \<Rightarrow> ikcpcb \<Rightarrow> (int \<times> ikcpcb) option" where
  "send_fragments 0 buf len sent kcp = Some (sent, kcp)"
| "send_fragments (Suc k) buf len sent kcp = do {
     let n = (if to_int (mss kcp) < len then to_int (mss kcp) else len);
     C_assert (0 \<le> n);
     let (p, kcp) = ikcp_segment_new (nat n) kcp;
     seg \<leftarrow> p;
     d \<leftarrow> (case buf of
         Some b \<Rightarrow> if 0 < len then take_bytes n b else Some (seg_data seg)
       | None \<Rightarrow> Some (seg_data seg));
     let seg = seg\<lparr>seg_data := d, seg_len := to_u32 n,
       seg_frg := (if stream kcp = 0 then of_nat k else 0)\<rparr>;
     let kcp = kcp\<lparr>snd_queue := snd_queue kcp @ [seg], nsnd_que := nsnd_que kcp + 1\<rparr>;
     send_fragments k (map_option (drop (nat n)) buf) (len - n) (sent + n) kcp
   }"

definition fragment_count :: "int \<Rightarrow> u32 \<Rightarrow> int" where
  "fragment_count len m =
     (if len \<le> to_int m then 1 else to_int ((to_u32 len + m - 1) div m))"

definition send_rest :: "byte list option \<Rightarrow> int \<Rightarrow> int \<Rightarrow> ikcpcb \<Rightarrow> (int \<times> ikcpcb) option" where
  "send_rest buf len sent kcp =
     (let count = fragment_count len (mss kcp) in
      if to_int IKCP_WND_RCV \<le> count
      then Some (if stream kcp \<noteq> 0 \<and> 0 < sent then sent else - 2, kcp)
      else let count = (if count = 0 then 1 else count)
           in send_fragments (nat count) buf len sent kcp)"

definition ikcp_send :: "byte list option \<Rightarrow> int \<Rightarrow> ikcpcb \<Rightarrow> (int \<times> ikcpcb) option" where
  "ikcp_send buf len kcp = do {
     C_assert (0 < mss kcp);
     if len < 0 then Some (- 1, kcp)
     else if stream kcp \<noteq> 0
     then do {
       (sent, buf, len, kcp) \<leftarrow> send_extend buf len kcp;
       if len \<le> 0 then Some (sent, kcp) else send_rest buf len sent kcp
     }
     else send_rest buf len 0 kcp
   }"

end
