(* ===== verification/Kcp_Input.thy ===== *)
theory Kcp_Input
  imports Kcp_Queues
begin

text \<open>
  What KCP does with a packet of the peer (\<open>ikcp_input\<close> and the static functions before it in \<open>ikcp.c\<close>):
  acknowledgements shrink the send buffer and adjust the retransmission timeout and the congestion
  window; pushed segments are acknowledged and sorted into the receive buffer.
\<close>

section \<open>Acknowledgements of what was sent\<close>

text \<open>
  The arithmetic is on \<open>int\<close> and has no result when it overflows; \<open>delta\<close> is a \<open>long\<close>, whose sum is
  narrowed when it is stored.
\<close>

definition ikcp_update_ack :: "int \<Rightarrow> ikcpcb \<Rightarrow> ikcpcb option" where
  "ikcp_update_ack rtt kcp = do {
     kcp \<leftarrow> (if rx_srtt kcp = 0 then Some (kcp\<lparr>rx_srtt := rtt, rx_rttval := c_quot rtt 2\<rparr>)
       else do {
         delta \<leftarrow> c_int (rtt - rx_srtt kcp);
         let delta = (if delta < 0 then - delta else delta);
         v \<leftarrow> c_int (3 * rx_rttval kcp);
         let rttval = narrow32 (c_quot (v + delta) 4);
         s7 \<leftarrow> c_int (7 * rx_srtt kcp);
         s \<leftarrow> c_int (s7 + rtt);
         let srtt = c_quot s 8;
         Some (kcp\<lparr>rx_rttval := rttval, rx_srtt := (if srtt < 1 then 1 else srtt)\<rparr>)
       });
     v4 \<leftarrow> c_int (4 * rx_rttval kcp);
     let rto = to_u32 (rx_srtt kcp) + imax (interval kcp) (to_u32 v4);
     Some (kcp\<lparr>rx_rto := to_int (ibound (to_u32 (rx_minrto kcp)) rto IKCP_RTO_MAX)\<rparr>)
   }"

definition ikcp_shrink_buf :: "ikcpcb \<Rightarrow> ikcpcb" where
  "ikcp_shrink_buf kcp =
     (case snd_buf kcp of
        seg # _ \<Rightarrow> kcp\<lparr>snd_una := seg_sn seg\<rparr>
      | [] \<Rightarrow> kcp\<lparr>snd_una := snd_nxt kcp\<rparr>)"

text \<open>The loops give the remaining queue and the number of segments deleted.\<close>

fun parse_ack_loop :: "u32 \<Rightarrow> IKCPSEG list \<Rightarrow> IKCPSEG list \<times> u32" where
  "parse_ack_loop sn [] = ([], 0)"
| "parse_ack_loop sn (seg # p) =
     (if sn = seg_sn seg then (p, 1)
      else if itimediff sn (seg_sn seg) < 0 then (seg # p, 0)
      else (case parse_ack_loop sn p of (p, n) \<Rightarrow> (seg # p, n)))"

definition ikcp_parse_ack :: "u32 \<Rightarrow> ikcpcb \<Rightarrow> ikcpcb" where
  "ikcp_parse_ack sn kcp =
     (if itimediff sn (snd_una kcp) < 0 \<or> 0 \<le> itimediff sn (snd_nxt kcp) then kcp
      else (case parse_ack_loop sn (snd_buf kcp) of (p, n) \<Rightarrow>
              kcp\<lparr>snd_buf := p, nsnd_buf := nsnd_buf kcp - n\<rparr>))"

fun parse_una_loop :: "u32 \<Rightarrow> IKCPSEG list \<Rightarrow> IKCPSEG list \<times> u32" where
  "parse_una_loop una [] = ([], 0)"
| "parse_una_loop una (seg # p) =
     (if 0 < itimediff una (seg_sn seg)
      then (case parse_una_loop una p of (p, n) \<Rightarrow> (p, n + 1))
      else (seg # p, 0))"

definition ikcp_parse_una :: "u32 \<Rightarrow> ikcpcb \<Rightarrow> ikcpcb" where
  "ikcp_parse_una una kcp =
     (case parse_una_loop una (snd_buf kcp) of (p, n) \<Rightarrow>
        kcp\<lparr>snd_buf := p, nsnd_buf := nsnd_buf kcp - n\<rparr>)"

fun parse_fastack_loop :: "u32 \<Rightarrow> u32 \<Rightarrow> IKCPSEG list \<Rightarrow> IKCPSEG list" where
  "parse_fastack_loop sn ts [] = []"
| "parse_fastack_loop sn ts (seg # p) =
     (if itimediff sn (seg_sn seg) < 0 then seg # p
      else if sn \<noteq> seg_sn seg \<and> 0 \<le> itimediff ts (seg_ts seg)
      then seg\<lparr>seg_fastack := seg_fastack seg + 1\<rparr> # parse_fastack_loop sn ts p
      else seg # parse_fastack_loop sn ts p)"

definition ikcp_parse_fastack :: "u32 \<Rightarrow> u32 \<Rightarrow> ikcpcb \<Rightarrow> ikcpcb" where
  "ikcp_parse_fastack sn ts kcp =
     (if itimediff sn (snd_una kcp) < 0 \<or> 0 \<le> itimediff sn (snd_nxt kcp) then kcp
      else kcp\<lparr>snd_buf := parse_fastack_loop sn ts (snd_buf kcp)\<rparr>)"

section \<open>Acknowledgements to send\<close>

text \<open>
  The new capacity is doubled in 32 bits until it suffices.  The loop does not end when the size asked
  for is above \<open>2 ^ 31\<close>, since doubling then reaches 0.
\<close>

partial_function (option) ack_newblock :: "u32 \<Rightarrow> u32 \<Rightarrow> u32 option" where
  "ack_newblock newsize newblock =
     (if newblock < newsize then ack_newblock newsize (push_bit 1 newblock) else Some newblock)"

fun ack_copy :: "nat list \<Rightarrow> u32 list \<Rightarrow> u32 list \<Rightarrow> u32 list option" where
  "ack_copy [] old new = Some new"
| "ack_copy (x # xs) old new = do {
     sn \<leftarrow> array_get old (x * 2 + 0);
     new \<leftarrow> array_set new (x * 2 + 0) sn;
     ts \<leftarrow> array_get old (x * 2 + 1);
     new \<leftarrow> array_set new (x * 2 + 1) ts;
     ack_copy xs old new
   }"

definition ack_grow :: "u32 \<Rightarrow> ikcpcb \<Rightarrow> ikcpcb option" where
  "ack_grow newsize kcp = do {
     newblock \<leftarrow> ack_newblock newsize 8;
     let (ok, kcp') = ikcp_malloc (unat newblock * 4 * 2) kcp;
     C_assert ok;
     let new = map (kenv_word (kenv kcp) (requests kcp)) [0..<unat newblock * 2];
     new \<leftarrow> (case acklist kcp of None \<Rightarrow> Some new
       | Some old \<Rightarrow> ack_copy [0..<unat (ackcount kcp)] old new);
     Some (kcp'\<lparr>acklist := Some new, ackblock := newblock\<rparr>)
   }"

definition ikcp_ack_push :: "u32 \<Rightarrow> u32 \<Rightarrow> ikcpcb \<Rightarrow> ikcpcb option" where
  "ikcp_ack_push sn ts kcp = do {
     let newsize = ackcount kcp + 1;
     kcp \<leftarrow> (if ackblock kcp < newsize then ack_grow newsize kcp else Some kcp);
     l \<leftarrow> acklist kcp;
     let ptr = unat (ackcount kcp * 2);
     l \<leftarrow> array_set l (ptr + 0) sn;
     l \<leftarrow> array_set l (ptr + 1) ts;
     Some (kcp\<lparr>acklist := Some l, ackcount := ackcount kcp + 1\<rparr>)
   }"

definition ikcp_ack_get :: "ikcpcb \<Rightarrow> nat \<Rightarrow> (u32 \<times> u32) option" where
  "ikcp_ack_get kcp p = do {
     l \<leftarrow> acklist kcp;
     sn \<leftarrow> array_get l (p * 2 + 0);
     ts \<leftarrow> array_get l (p * 2 + 1);
     Some (sn, ts)
   }"

section \<open>Received data\<close>

text \<open>
  The search from the back of \<open>rcv_buf\<close> (the argument is the queue backwards): whether the number is
  there already, and how many segments stay before the new one.
\<close>

fun parse_data_loop :: "u32 \<Rightarrow> IKCPSEG list \<Rightarrow> bool \<times> nat" where
  "parse_data_loop sn [] = (False, 0)"
| "parse_data_loop sn (seg # prev) =
     (if seg_sn seg = sn then (True, length (seg # prev))
      else if 0 < itimediff sn (seg_sn seg) then (False, length (seg # prev))
      else parse_data_loop sn prev)"

definition ikcp_parse_data :: "IKCPSEG \<Rightarrow> ikcpcb \<Rightarrow> ikcpcb" where
  "ikcp_parse_data newseg kcp =
     (let sn = seg_sn newseg in
      if 0 \<le> itimediff sn (rcv_nxt kcp + rcv_wnd kcp) \<or> itimediff sn (rcv_nxt kcp) < 0 then kcp
      else (case parse_data_loop sn (rev (rcv_buf kcp)) of (repeat, p) \<Rightarrow>
        rcv_move
          (if \<not> repeat
           then kcp\<lparr>rcv_buf := take p (rcv_buf kcp) @ newseg # drop p (rcv_buf kcp),
                    nrcv_buf := nrcv_buf kcp + 1\<rparr>
           else kcp)))"

text \<open>
  The segment that \<open>ikcp_input\<close> makes of a pushed header and the \<open>len\<close> bytes after it.  A null segment is
  dereferenced: the allocation is not checked.
\<close>

definition input_segment :: "kcp_header \<Rightarrow> byte list \<Rightarrow> ikcpcb \<Rightarrow> (IKCPSEG \<times> ikcpcb) option" where
  "input_segment h data kcp = do {
     let (p, kcp) = ikcp_segment_new (unat (h_len h)) kcp;
     seg \<leftarrow> p;
     d \<leftarrow> take_bytes (uint (h_len h)) data;
     Some (seg\<lparr>seg_conv := h_conv h, seg_cmd := ucast (h_cmd h), seg_frg := ucast (h_frg h),
               seg_wnd := ucast (h_wnd h), seg_ts := h_ts h, seg_sn := h_sn h, seg_una := h_una h,
               seg_len := h_len h, seg_data := d\<rparr>, kcp)
   }"

definition input_push :: "kcp_header \<Rightarrow> byte list \<Rightarrow> ikcpcb \<Rightarrow> ikcpcb option" where
  "input_push h data kcp =
     (if itimediff (h_sn h) (rcv_nxt kcp + rcv_wnd kcp) < 0
      then do {
        kcp \<leftarrow> ikcp_ack_push (h_sn h) (h_ts h) kcp;
        if 0 \<le> itimediff (h_sn h) (rcv_nxt kcp)
        then do {
          (seg, kcp) \<leftarrow> input_segment h data kcp;
          Some (ikcp_parse_data seg kcp)
        }
        else Some kcp
      }
      else Some kcp)"

text \<open>
  What one call of \<open>ikcp_input\<close> remembers of the acknowledgements it has seen: \<open>None\<close> is \<open>flag = 0\<close>, and
  otherwise \<open>maxack\<close> and \<open>latest_ts\<close>.
\<close>

type_synonym ack_mark = "(u32 \<times> u32) option"

definition note_ack :: "u32 \<Rightarrow> u32 \<Rightarrow> ack_mark \<Rightarrow> ack_mark" where
  "note_ack sn ts mark =
     (case mark of
        None \<Rightarrow> Some (sn, ts)
      | Some (maxack, latest_ts) \<Rightarrow>
          if 0 < itimediff sn maxack \<and> 0 < itimediff ts latest_ts then Some (sn, ts) else mark)"

definition input_ack :: "kcp_header \<Rightarrow> ikcpcb \<Rightarrow> ikcpcb option" where
  "input_ack h kcp = do {
     kcp \<leftarrow> (if 0 \<le> itimediff (current kcp) (h_ts h)
             then ikcp_update_ack (itimediff (current kcp) (h_ts h)) kcp else Some kcp);
     Some (ikcp_shrink_buf (ikcp_parse_ack (h_sn h) kcp))
   }"

text \<open>One segment of the packet, after its header was accepted.\<close>

definition input_segment_body :: "kcp_header \<Rightarrow> byte list \<Rightarrow> ack_mark \<Rightarrow> ikcpcb
    \<Rightarrow> (ack_mark \<times> ikcpcb) option" where
  "input_segment_body h data mark kcp = do {
     let cmd = ucast (h_cmd h);
     let kcp = ikcp_shrink_buf (ikcp_parse_una (h_una h) (kcp\<lparr>rmt_wnd := ucast (h_wnd h)\<rparr>));
     if cmd = IKCP_CMD_ACK
     then do { kcp \<leftarrow> input_ack h kcp; Some (note_ack (h_sn h) (h_ts h) mark, kcp) }
     else if cmd = IKCP_CMD_PUSH then do { kcp \<leftarrow> input_push h data kcp; Some (mark, kcp) }
     else if cmd = IKCP_CMD_WASK then Some (mark, kcp\<lparr>probe := probe kcp OR IKCP_ASK_TELL\<rparr>)
     else Some (mark, kcp)
   }"

definition known_command :: "u32 \<Rightarrow> bool" where
  "known_command cmd \<longleftrightarrow> cmd = IKCP_CMD_PUSH \<or> cmd = IKCP_CMD_ACK \<or> cmd = IKCP_CMD_WASK \<or> cmd = IKCP_CMD_WINS"

text \<open>
  The loop: \<open>Inl\<close> is an early return with its code, \<open>Inr\<close> leaves the loop.  \<open>data\<close> is the memory from
  the read position on and \<open>size\<close> what is left according to the caller.
\<close>

function input_loop :: "byte list \<Rightarrow> int \<Rightarrow> ack_mark \<Rightarrow> ikcpcb
    \<Rightarrow> (int \<times> ikcpcb + ack_mark \<times> ikcpcb) option" where
  "input_loop data n mark kcp =
     (if n < to_int IKCP_OVERHEAD then Some (Inr (mark, kcp))
      else do {
        (c, data) \<leftarrow> ikcp_decode32u data;
        if c \<noteq> conv kcp then Some (Inl (- 1, kcp))
        else do {
          (h, data) \<leftarrow> decode_fields c data;
          let n = n - to_int IKCP_OVERHEAD;
          if n < uint (h_len h) \<or> to_int (h_len h) < 0 then Some (Inl (- 2, kcp))
          else if \<not> known_command (ucast (h_cmd h)) then Some (Inl (- 3, kcp))
          else do {
            (mark, kcp) \<leftarrow> input_segment_body h data mark kcp;
            input_loop (drop (unat (h_len h)) data) (n - uint (h_len h)) mark kcp
          }
        }
      })"
  by pat_completeness auto
termination
  by (relation "measure (\<lambda>(data, n, mark, kcp). nat n)")
    (auto simp: IKCP_OVERHEAD_def intro: order.strict_trans2 [of _ 0])

declare input_loop.simps [simp del]

section \<open>The congestion window\<close>

definition input_cwnd :: "u32 \<Rightarrow> ikcpcb \<Rightarrow> ikcpcb option" where
  "input_cwnd prev_una kcp =
     (if 0 < itimediff (snd_una kcp) prev_una \<and> cwnd kcp < rmt_wnd kcp
      then do {
        let m = mss kcp;
        kcp \<leftarrow> (if cwnd kcp < ssthresh kcp
            then Some (kcp\<lparr>cwnd := cwnd kcp + 1, incr := incr kcp + m\<rparr>)
            else do {
              let i = (if incr kcp < m then m else incr kcp);
              q \<leftarrow> c_udiv (m * m) i;
              let i = i + (q + m div 16);
              Some (kcp\<lparr>incr := i, cwnd := (if (cwnd kcp + 1) * m \<le> i
                then (i + m - 1) div (if 0 < m then m else 1) else cwnd kcp)\<rparr>)
            });
        Some (if rmt_wnd kcp < cwnd kcp
              then kcp\<lparr>cwnd := rmt_wnd kcp, incr := rmt_wnd kcp * m\<rparr> else kcp)
      }
      else Some kcp)"

text \<open>After the loop: the fast acknowledgements and the congestion window.\<close>

definition input_tail :: "u32 \<Rightarrow> ack_mark \<Rightarrow> ikcpcb \<Rightarrow> (int \<times> ikcpcb) option" where
  "input_tail prev_una mark kcp = do {
     let kcp = (case mark of None \<Rightarrow> kcp
       | Some (maxack, latest_ts) \<Rightarrow> ikcp_parse_fastack maxack latest_ts kcp);
     kcp \<leftarrow> input_cwnd prev_una kcp;
     Some (0, kcp)
   }"

text \<open>A null \<open>data\<close> pointer is \<open>None\<close>; \<open>size\<close> is a \<open>long\<close> that the first test narrows to \<open>int\<close>.\<close>

definition ikcp_input :: "byte list option \<Rightarrow> int \<Rightarrow> ikcpcb \<Rightarrow> (int \<times> ikcpcb) option" where
  "ikcp_input data n kcp =
     (let prev_una = snd_una kcp in
      case data of
        None \<Rightarrow> Some (- 1, kcp)
      | Some data \<Rightarrow>
          if narrow32 n < to_int IKCP_OVERHEAD then Some (- 1, kcp)
          else do {
            r \<leftarrow> input_loop data n None kcp;
            case r of
              Inl r \<Rightarrow> Some r
            | Inr (mark, kcp) \<Rightarrow> input_tail prev_una mark kcp
          })"

end
