(* ===== verification/Kcp_Flush.thy ===== *)
theory Kcp_Flush
  imports Kcp_Input
begin

text \<open>
  What KCP sends (\<open>ikcp_flush\<close>) and when (\<open>ikcp_update\<close>, \<open>ikcp_check\<close>).  \<open>ikcp_flush\<close> writes segments into
  the send buffer and hands it to the output callback when the next segment would exceed the mtu.  The
  bytes between the start of the buffer and \<open>ptr\<close> are the list \<open>out\<close>; writing past the end of the buffer
  has no result.
\<close>

section \<open>Writing segments\<close>

definition ikcp_encode_seg :: "IKCPSEG \<Rightarrow> byte list" where
  "ikcp_encode_seg seg = ikcp_encode32u (seg_conv seg) @ ikcp_encode8u (ucast (seg_cmd seg)) @
     ikcp_encode8u (ucast (seg_frg seg)) @ ikcp_encode16u (ucast (seg_wnd seg)) @
     ikcp_encode32u (seg_ts seg) @ ikcp_encode32u (seg_sn seg) @ ikcp_encode32u (seg_una seg) @
     ikcp_encode32u (seg_len seg)"

definition ikcp_wnd_unused :: "ikcpcb \<Rightarrow> int" where
  "ikcp_wnd_unused kcp =
     (if nrcv_que kcp < rcv_wnd kcp then to_int (rcv_wnd kcp - nrcv_que kcp) else 0)"

definition ikcp_output :: "byte list \<Rightarrow> ikcpcb \<Rightarrow> (int \<times> ikcpcb) option" where
  "ikcp_output data kcp = do {
     f \<leftarrow> koutput kcp;
     if data = [] then Some (0, kcp)
     else Some (f data, kcp\<lparr>packets := packets kcp @ [data]\<rparr>)
   }"

text \<open>\<open>if (size + need > mtu) { ikcp_output(kcp, buffer, size); ptr = buffer; }\<close>\<close>

definition flush_room :: "int \<Rightarrow> byte list \<Rightarrow> ikcpcb \<Rightarrow> (byte list \<times> ikcpcb) option" where
  "flush_room need out kcp = do {
     total \<leftarrow> c_int (int (length out) + need);
     if to_int (mtu kcp) < total
     then do { (_, kcp) \<leftarrow> ikcp_output out kcp; Some ([], kcp) }
     else Some (out, kcp)
   }"

definition buffer_write :: "byte list \<Rightarrow> byte list \<Rightarrow> ikcpcb \<Rightarrow> byte list option" where
  "buffer_write bs out kcp =
     (if length out + length bs \<le> buffer kcp then Some (out @ bs) else None)"

section \<open>Acknowledgements and window probes\<close>

definition flush_ack :: "nat \<Rightarrow> IKCPSEG \<Rightarrow> byte list \<Rightarrow> ikcpcb
    \<Rightarrow> (IKCPSEG \<times> byte list \<times> ikcpcb) option" where
  "flush_ack i seg out kcp = do {
     (out, kcp) \<leftarrow> flush_room (to_int IKCP_OVERHEAD) out kcp;
     (sn, ts) \<leftarrow> ikcp_ack_get kcp i;
     let seg = seg\<lparr>seg_sn := sn, seg_ts := ts\<rparr>;
     out \<leftarrow> buffer_write (ikcp_encode_seg seg) out kcp;
     Some (seg, out, kcp)
   }"

fun flush_acks :: "nat list \<Rightarrow> IKCPSEG \<Rightarrow> byte list \<Rightarrow> ikcpcb
    \<Rightarrow> (IKCPSEG \<times> byte list \<times> ikcpcb) option" where
  "flush_acks [] seg out kcp = Some (seg, out, kcp)"
| "flush_acks (i # is) seg out kcp = do {
     (seg, out, kcp) \<leftarrow> flush_ack i seg out kcp;
     flush_acks is seg out kcp
   }"

definition probe_timer :: "ikcpcb \<Rightarrow> ikcpcb" where
  "probe_timer kcp =
     (if rmt_wnd kcp = 0
      then if probe_wait kcp = 0
        then kcp\<lparr>probe_wait := IKCP_PROBE_INIT, ts_probe := current kcp + IKCP_PROBE_INIT\<rparr>
        else if 0 \<le> itimediff (current kcp) (ts_probe kcp)
        then let w = (if probe_wait kcp < IKCP_PROBE_INIT then IKCP_PROBE_INIT else probe_wait kcp);
                 w = w + w div 2;
                 w = (if IKCP_PROBE_LIMIT < w then IKCP_PROBE_LIMIT else w)
             in kcp\<lparr>probe_wait := w, ts_probe := current kcp + w, probe := probe kcp OR IKCP_ASK_SEND\<rparr>
        else kcp
      else kcp\<lparr>ts_probe := 0, probe_wait := 0\<rparr>)"

definition flush_probe :: "u32 \<Rightarrow> u32 \<Rightarrow> IKCPSEG \<Rightarrow> byte list \<Rightarrow> ikcpcb
    \<Rightarrow> (IKCPSEG \<times> byte list \<times> ikcpcb) option" where
  "flush_probe ask cmd seg out kcp =
     (if probe kcp AND ask \<noteq> 0
      then do {
        let seg = seg\<lparr>seg_cmd := cmd\<rparr>;
        (out, kcp) \<leftarrow> flush_room (to_int IKCP_OVERHEAD) out kcp;
        out \<leftarrow> buffer_write (ikcp_encode_seg seg) out kcp;
        Some (seg, out, kcp)
      }
      else Some (seg, out, kcp))"

text \<open>The local \<open>seg\<close> at the start; fields that are not set are never read.\<close>

definition flush_seg :: "ikcpcb \<Rightarrow> IKCPSEG" where
  "flush_seg kcp = \<lparr>seg_conv = conv kcp, seg_cmd = IKCP_CMD_ACK, seg_frg = 0,
     seg_wnd = to_u32 (ikcp_wnd_unused kcp), seg_ts = 0, seg_sn = 0, seg_una = rcv_nxt kcp, seg_len = 0,
     seg_resendts = 0, seg_rto = 0, seg_fastack = 0, seg_xmit = 0, seg_data = []\<rparr>"

text \<open>The first half of the function, up to \<open>kcp->probe = 0\<close>.\<close>

definition flush_control :: "ikcpcb \<Rightarrow> (IKCPSEG \<times> byte list \<times> ikcpcb) option" where
  "flush_control kcp = do {
     let count = to_int (ackcount kcp);
     (seg, out, kcp) \<leftarrow> flush_acks [0..<nat count] (flush_seg kcp) [] kcp;
     let kcp = probe_timer (kcp\<lparr>ackcount := 0\<rparr>);
     (seg, out, kcp) \<leftarrow> flush_probe IKCP_ASK_SEND IKCP_CMD_WASK seg out kcp;
     (seg, out, kcp) \<leftarrow> flush_probe IKCP_ASK_TELL IKCP_CMD_WINS seg out kcp;
     Some (seg, out, kcp\<lparr>probe := 0\<rparr>)
   }"

section \<open>Data segments\<close>

definition flush_window :: "ikcpcb \<Rightarrow> u32" where
  "flush_window kcp =
     (let w = imin (snd_wnd kcp) (rmt_wnd kcp) in if nocwnd kcp = 0 then imin (cwnd kcp) w else w)"

definition number_segment :: "u32 \<Rightarrow> ikcpcb \<Rightarrow> IKCPSEG \<Rightarrow> IKCPSEG" where
  "number_segment wnd kcp newseg = newseg\<lparr>seg_conv := conv kcp, seg_cmd := IKCP_CMD_PUSH, seg_wnd := wnd,
     seg_ts := current kcp, seg_sn := snd_nxt kcp, seg_una := rcv_nxt kcp, seg_resendts := current kcp,
     seg_rto := to_u32 (rx_rto kcp), seg_fastack := 0, seg_xmit := 0\<rparr>"

function flush_move :: "u32 \<Rightarrow> u32 \<Rightarrow> ikcpcb \<Rightarrow> ikcpcb" where
  "flush_move wnd w kcp =
     (if itimediff (snd_nxt kcp) (snd_una kcp + w) < 0
      then case snd_queue kcp of
          [] \<Rightarrow> kcp
        | newseg # p \<Rightarrow>
            flush_move wnd w (kcp\<lparr>snd_queue := p, snd_buf := snd_buf kcp @ [number_segment wnd kcp newseg],
              nsnd_que := nsnd_que kcp - 1, nsnd_buf := nsnd_buf kcp + 1, snd_nxt := snd_nxt kcp + 1\<rparr>)
      else kcp)"
  by pat_completeness auto
termination
  by (relation "measure (\<lambda>(wnd, w, kcp). length (snd_queue kcp))") auto

declare flush_move.simps [simp del]

text \<open>The reasons to send a segment of \<open>snd_buf\<close> now.\<close>

datatype send_reason = Not_due | First | Timeout | Fast

definition why_send :: "u32 \<Rightarrow> ikcpcb \<Rightarrow> IKCPSEG \<Rightarrow> send_reason" where
  "why_send resent kcp segment =
     (if seg_xmit segment = 0 then First
      else if 0 \<le> itimediff (current kcp) (seg_resendts segment) then Timeout
      else if resent \<le> seg_fastack segment \<and>
        (to_int (seg_xmit segment) \<le> fastlimit kcp \<or> fastlimit kcp \<le> 0) then Fast
      else Not_due)"

definition backoff :: "ikcpcb \<Rightarrow> u32 \<Rightarrow> u32" where
  "backoff kcp rto =
     (if nodelay kcp = 0 then rto + imax rto (to_u32 (rx_rto kcp))
      else let step = (if nodelay kcp < 2 then to_int rto else rx_rto kcp)
           in rto + to_u32 (c_quot step 2))"

text \<open>The timers of the segment for each reason.\<close>

definition retime :: "send_reason \<Rightarrow> u32 \<Rightarrow> ikcpcb \<Rightarrow> IKCPSEG \<Rightarrow> IKCPSEG" where
  "retime reason rtomin kcp segment =
     (case reason of
        Not_due \<Rightarrow> segment
      | First \<Rightarrow> segment\<lparr>seg_xmit := seg_xmit segment + 1, seg_rto := to_u32 (rx_rto kcp),
          seg_resendts := current kcp + to_u32 (rx_rto kcp) + rtomin\<rparr>
      | Timeout \<Rightarrow> segment\<lparr>seg_xmit := seg_xmit segment + 1, seg_rto := backoff kcp (seg_rto segment),
          seg_resendts := current kcp + backoff kcp (seg_rto segment)\<rparr>
      | Fast \<Rightarrow> segment\<lparr>seg_xmit := seg_xmit segment + 1, seg_fastack := 0,
          seg_resendts := current kcp + seg_rto segment\<rparr>)"

text \<open>The part under \<open>if (needsend)\<close>.\<close>

definition flush_emit :: "u32 \<Rightarrow> IKCPSEG \<Rightarrow> byte list \<Rightarrow> ikcpcb
    \<Rightarrow> (IKCPSEG \<times> byte list \<times> ikcpcb) option" where
  "flush_emit wnd segment out kcp = do {
     let segment = segment\<lparr>seg_ts := current kcp, seg_wnd := wnd, seg_una := rcv_nxt kcp\<rparr>;
     (out, kcp) \<leftarrow> flush_room (to_int (IKCP_OVERHEAD + seg_len segment)) out kcp;
     out \<leftarrow> buffer_write (ikcp_encode_seg segment) out kcp;
     d \<leftarrow> seg_payload segment;
     out \<leftarrow> buffer_write d out kcp;
     Some (segment, out,
       if dead_link kcp \<le> seg_xmit segment then kcp\<lparr>kstate := - 1\<rparr> else kcp)
   }"

text \<open>
  The loop over \<open>snd_buf\<close>: the list given is what is left of it, the list returned its new content;
  \<open>change\<close> and \<open>lost\<close> are the flags of the code.
\<close>

fun flush_data :: "u32 \<Rightarrow> u32 \<Rightarrow> u32 \<Rightarrow> IKCPSEG list \<Rightarrow> bool \<Rightarrow> bool \<Rightarrow> byte list \<Rightarrow> ikcpcb
    \<Rightarrow> (IKCPSEG list \<times> bool \<times> bool \<times> byte list \<times> ikcpcb) option" where
  "flush_data wnd resent rtomin [] change lost out kcp = Some ([], change, lost, out, kcp)"
| "flush_data wnd resent rtomin (segment # p) change lost out kcp = do {
     let reason = why_send resent kcp segment;
     let segment = retime reason rtomin kcp segment;
     let kcp = (if reason = Timeout then kcp\<lparr>xmit := xmit kcp + 1\<rparr> else kcp);
     (segment, out, kcp) \<leftarrow>
       (if reason \<noteq> Not_due then flush_emit wnd segment out kcp else Some (segment, out, kcp));
     (p, change, lost, out, kcp) \<leftarrow>
       flush_data wnd resent rtomin p (change \<or> reason = Fast) (lost \<or> reason = Timeout) out kcp;
     Some (segment # p, change, lost, out, kcp)
   }"

section \<open>Congestion control\<close>

definition at_least :: "u32 \<Rightarrow> u32 \<Rightarrow> u32" where
  "at_least m x = (if x < m then m else x)"

definition flush_cwnd :: "bool \<Rightarrow> bool \<Rightarrow> u32 \<Rightarrow> u32 \<Rightarrow> ikcpcb \<Rightarrow> ikcpcb" where
  "flush_cwnd change lost resent w kcp =
     (let kcp = (if change
            then let t = at_least IKCP_THRESH_MIN ((snd_nxt kcp - snd_una kcp) div 2)
                 in kcp\<lparr>ssthresh := t, cwnd := t + resent, incr := (t + resent) * mss kcp\<rparr>
            else kcp);
          kcp = (if lost
            then kcp\<lparr>ssthresh := at_least IKCP_THRESH_MIN (w div 2), cwnd := 1, incr := mss kcp\<rparr>
            else kcp)
      in if cwnd kcp < 1 then kcp\<lparr>cwnd := 1, incr := mss kcp\<rparr> else kcp)"

section \<open>Flush\<close>

definition ikcp_flush :: "ikcpcb \<Rightarrow> ikcpcb option" where
  "ikcp_flush kcp =
     (if updated kcp = 0 then Some kcp
      else do {
        (seg, out, kcp) \<leftarrow> flush_control kcp;
        let w = flush_window kcp;
        let kcp = flush_move (seg_wnd seg) w kcp;
        let resent = (if 0 < fastresend kcp then to_u32 (fastresend kcp) else 4294967295);
        let rtomin = (if nodelay kcp = 0 then to_u32 (rx_rto kcp div 8) else 0);
        (buf, change, lost, out, kcp) \<leftarrow>
          flush_data (seg_wnd seg) resent rtomin (snd_buf kcp) False False out kcp;
        let kcp = kcp\<lparr>snd_buf := buf\<rparr>;
        kcp \<leftarrow> (if 0 < length out then do { (_, kcp) \<leftarrow> ikcp_output out kcp; Some kcp } else Some kcp);
        Some (flush_cwnd change lost resent w kcp)
      })"

section \<open>Time\<close>

definition ikcp_update :: "u32 \<Rightarrow> ikcpcb \<Rightarrow> ikcpcb option" where
  "ikcp_update now kcp =
     (let kcp = kcp\<lparr>current := now\<rparr>;
          kcp = (if updated kcp = 0 then kcp\<lparr>updated := 1, ts_flush := current kcp\<rparr> else kcp);
          slap = itimediff (current kcp) (ts_flush kcp);
          (slap, kcp) = (if 10000 \<le> slap \<or> slap < - 10000
                         then (0, kcp\<lparr>ts_flush := current kcp\<rparr>) else (slap, kcp))
      in if 0 \<le> slap
         then let kcp = kcp\<lparr>ts_flush := ts_flush kcp + interval kcp\<rparr>;
                  kcp = (if 0 \<le> itimediff (current kcp) (ts_flush kcp)
                         then kcp\<lparr>ts_flush := current kcp + interval kcp\<rparr> else kcp)
              in ikcp_flush kcp
         else Some kcp)"

text \<open>The loop of \<open>ikcp_check\<close> over \<open>snd_buf\<close>; \<open>None\<close> is its early return.\<close>

fun check_packets :: "u32 \<Rightarrow> IKCPSEG list \<Rightarrow> int \<Rightarrow> int option" where
  "check_packets now [] tm_packet = Some tm_packet"
| "check_packets now (seg # p) tm_packet =
     (let diff = itimediff (seg_resendts seg) now in
      if diff \<le> 0 then None
      else check_packets now p (if diff < tm_packet then diff else tm_packet))"

definition ikcp_check :: "ikcpcb \<Rightarrow> u32 \<Rightarrow> u32" where
  "ikcp_check kcp now =
     (if updated kcp = 0 then now
      else let ts = ts_flush kcp;
               ts = (if 10000 \<le> itimediff now ts \<or> itimediff now ts < - 10000 then now else ts)
           in if 0 \<le> itimediff now ts then now
              else case check_packets now (snd_buf kcp) 2147483647 of
                  None \<Rightarrow> now
                | Some tm_packet \<Rightarrow>
                    let tm_flush = itimediff ts now;
                        minimal = to_u32 (if tm_packet < tm_flush then tm_packet else tm_flush);
                        minimal = (if interval kcp \<le> minimal then interval kcp else minimal)
                    in now + minimal)"

end
