(* ===== verification/Kcp_Words.thy ===== *)
theory Kcp_Words
  imports Kcp_Codec
begin

text \<open>
  Facts on 32-bit words that the KCP proofs share: signed readings of small words, and sequence numbers
  as offsets from a base, where \<open>itimediff\<close> is the difference of the offsets.
\<close>

lemma unat_less_max: "unat (w :: u32) < 4294967296"
  using unsigned_less [where 'a = nat and w = w] by simp

lemma u32_nat: obtains n where "uint (w :: u32) = int n" "unat w = n" "n < 4294967296"
  using unat_less_max by (metis uint_nat)

lemma sint_cases: "sint (w :: u32) =
    (if unat w < 2147483648 then int (unat w) else int (unat w) - 4294967296)"
proof -
  obtain n where n: "uint w = int n" "unat w = n" "n < 4294967296" by (rule u32_nat)
  have "sint w = (int n + 2147483648) mod 4294967296 - 2147483648"
    using int_word_sint [where 'a = 32, of "uint w"] unfolding n(1) by (simp flip: n(1))
  moreover have "(int n + 2147483648) mod 4294967296 = int n - 2147483648" if "2147483648 \<le> n"
  proof -
    have "(int n + 2147483648) mod 4294967296 = (int n - 2147483648 + 4294967296) mod 4294967296"
      by (simp add: add.commute)
    also have "\<dots> = int n - 2147483648" unfolding mod_add_self2 using that n(3) by simp
    finally show ?thesis .
  qed
  ultimately show ?thesis unfolding n(2) using n(3) by auto
qed

lemma sint_unat: "unat (w :: u32) < 2147483648 \<Longrightarrow> sint w = int (unat w)"
  by (simp only: sint_cases if_True)

lemma sint_nonneg: "0 \<le> sint (w :: u32) \<longleftrightarrow> unat w < 2147483648"
proof -
  obtain n where "uint w = int n" "unat w = n" "n < 4294967296" by (rule u32_nat)
  then show ?thesis by (simp add: sint_cases)
qed

lemma sint_range: "- 2147483648 \<le> sint (w :: u32)" "sint w < 2147483648"
proof -
  obtain n where "uint w = int n" "unat w = n" "n < 4294967296" by (rule u32_nat)
  then show "- 2147483648 \<le> sint (w :: u32)" "sint w < 2147483648" by (simp_all add: sint_cases)
qed

lemma sint_nonneg_eq: "0 \<le> sint (w :: u32) \<Longrightarrow> sint w = int (unat w)"
  by (rule sint_unat) (simp add: sint_nonneg)

lemma unat_to_u32: "0 \<le> i \<Longrightarrow> i < 4294967296 \<Longrightarrow> unat (to_u32 i) = nat i"
  by (simp add: unat_eq_nat_uint uint_word_of_int)

lemma sint_to_u32 [simp]: "- 2147483648 \<le> i \<Longrightarrow> i < 2147483648 \<Longrightarrow> sint (to_u32 i) = i"
  by (simp add: int_word_sint)

lemma unat_add_u32: "unat (a + b :: u32) = (unat a + unat b) mod 4294967296"
  using unat_word_ariths(1) [of a b] by simp

lemma unat_sub_u32: "unat (a - b :: u32) =
    (if unat b \<le> unat a then unat a - unat b else unat a + 4294967296 - unat b)"
proof -
  obtain m where m: "uint a = int m" "unat a = m" "m < 4294967296" by (rule u32_nat)
  obtain n where n: "uint b = int n" "unat b = n" "n < 4294967296" by (rule u32_nat)
  obtain k where k: "uint (a - b) = int k" "unat (a - b) = k" by (rule u32_nat)
  have "2 ^ LENGTH(32) = (4294967296 :: int)" by simp
  then have "int k = (if int n \<le> int m then int m - int n else int m - int n + 4294967296)"
    using uint_sub_if' [of a b] unfolding m(1) n(1) k(1) by (simp only:)
  then show ?thesis unfolding m(2) n(2) k(2) using m(3) n(3) by (simp split: if_splits)
qed

section \<open>Offsets\<close>

definition offset :: "u32 \<Rightarrow> u32 \<Rightarrow> nat" where
  "offset b x = unat (x - b)"

lemma offset_self [simp]: "offset b b = 0"
  by (simp add: offset_def)

lemma offset_less: "offset b x < 4294967296"
  unfolding offset_def by (rule unat_less_max)

lemma offset_eq_iff: "offset b x = offset b y \<longleftrightarrow> x = y"
  by (simp add: offset_def flip: word_unat_eq_iff)

lemma offset_add: "offset b x + unat n < 4294967296 \<Longrightarrow> offset b (x + n) = offset b x + unat n"
proof -
  have "x + n - b = (x - b) + n" by simp
  then show "offset b x + unat n < 4294967296 \<Longrightarrow> offset b (x + n) = offset b x + unat n"
    by (simp only: offset_def unat_add_u32 mod_less)
qed

lemma offset_diff:
  "offset b c \<le> offset b x \<Longrightarrow> offset c x = offset b x - offset b c"
proof -
  have "x - c = (x - b) - (c - b)" by simp
  then show "offset b c \<le> offset b x \<Longrightarrow> offset c x = offset b x - offset b c"
    by (simp only: offset_def unat_sub_u32 if_True)
qed

lemma itimediff_sint: "itimediff x y = sint (x - y)"
  by (simp add: itimediff_def)

lemma itimediff_offset:
  assumes "offset b x < 2147483648" "offset b y < 2147483648"
  shows "itimediff x y = int (offset b x) - int (offset b y)"
proof -
  have "x - y = (x - b) - (y - b)" by simp
  then have d: "unat (x - y) = (if offset b y \<le> offset b x then offset b x - offset b y
      else offset b x + 4294967296 - offset b y)"
    by (simp only: offset_def unat_sub_u32)
  show ?thesis unfolding itimediff_def sint_cases d using assms by auto
qed

lemma itimediff_nonneg_offset: "0 \<le> itimediff x y \<longleftrightarrow> offset y x < 2147483648"
  by (simp add: itimediff_def sint_nonneg offset_def)

lemma itimediff_nonneg: "0 \<le> itimediff x y \<Longrightarrow> itimediff x y = int (offset y x)"
  by (simp add: itimediff_def sint_nonneg_eq offset_def)

end
