(* ===== verification/Kcp_Queues_Correct.thy ===== *)
theory Kcp_Queues_Correct
  imports Kcp_Queues Kcp_Words
begin

text \<open>
  The user's side is correct: \<open>ikcp_send\<close> cuts a message into numbered fragments that concatenate to it,
  and \<open>ikcp_recv\<close> puts such fragments together again.
\<close>

section \<open>Allocation\<close>

definition reliable :: "ikcpcb \<Rightarrow> bool" where
  "reliable kcp \<longleftrightarrow> (\<forall>n k. kenv_alloc (kenv kcp) n k)"

lemma segment_new_reliable:
  "reliable kcp \<Longrightarrow> ikcp_segment_new n kcp =
     (Some (fresh_segment (kenv kcp) (requests kcp) n), kcp\<lparr>requests := requests kcp + 1\<rparr>)"
  by (simp add: ikcp_segment_new_def ikcp_malloc_def reliable_def)

lemma length_fresh_segment [simp]: "length (seg_data (fresh_segment E k n)) = n"
  by (simp add: fresh_segment_def Let_def)

lemma fresh_segment_0 [simp]: "seg_data (fresh_segment E k 0) = []"
  by (simp add: fresh_segment_def Let_def)

lemma reliable_update [simp]:
  "reliable (kcp\<lparr>requests := r\<rparr>) = reliable kcp"
  "reliable (kcp\<lparr>snd_queue := q\<rparr>) = reliable kcp"
  "reliable (kcp\<lparr>nsnd_que := n\<rparr>) = reliable kcp"
  by (simp_all add: reliable_def)

section \<open>Sending\<close>

definition seg_ok :: "IKCPSEG \<Rightarrow> bool" where
  "seg_ok seg \<longleftrightarrow> length (seg_data seg) = unat (seg_len seg) \<and> seg_len seg < 2147483648"

lemma seg_payload_ok: "seg_ok seg \<Longrightarrow> seg_payload seg = Some (seg_data seg)"
  by (simp add: seg_ok_def seg_payload_def)

text \<open>The fragments of a message: whole payloads of at most \<open>m\<close> bytes, counting down to 0.\<close>

definition fragments_of :: "u32 \<Rightarrow> byte list \<Rightarrow> IKCPSEG list \<Rightarrow> bool" where
  "fragments_of m msg segs \<longleftrightarrow> concat (map seg_data segs) = msg \<and>
     (\<forall>s \<in> set segs. seg_ok s \<and> seg_len s \<le> m) \<and>
     map seg_frg segs = rev (map of_nat [0..<length segs]) \<and> segs \<noteq> []"

lemma fragments_of_Cons:
  "fragments_of m msg segs \<Longrightarrow> seg_ok s \<Longrightarrow> seg_len s \<le> m \<Longrightarrow> seg_frg s = of_nat (length segs) \<Longrightarrow>
   fragments_of m (seg_data s @ msg) (s # segs)"
  by (simp add: fragments_of_def)

lemma send_fragments_step:
  assumes "reliable kcp" "stream kcp = 0" "0 < sint (mss kcp)" "length b < 2147483648"
    and "n = min (length b) (unat (mss kcp))"
  obtains seg where "seg_ok seg" "seg_len seg \<le> mss kcp" "seg_frg seg = of_nat k" "seg_data seg = take n b"
    "send_fragments (Suc k) (Some b) (int (length b)) sent kcp =
     send_fragments k (Some (drop n b)) (int (length (drop n b))) (sent + int n)
       (kcp\<lparr>requests := requests kcp + 1, snd_queue := snd_queue kcp @ [seg],
           nsnd_que := nsnd_que kcp + 1\<rparr>)"
proof -
  have m: "sint (mss kcp) = int (unat (mss kcp))" by (rule sint_nonneg_eq) (use assms(3) in simp)
  let ?f = "fresh_segment (kenv kcp) (requests kcp) n"
  let ?seg = "?f\<lparr>seg_data := take n b, seg_len := to_u32 (int n), seg_frg := of_nat k\<rparr>"
  have n: "(if sint (mss kcp) < int (length b) then sint (mss kcp) else int (length b)) = int n"
    using assms(5) by (simp only: m of_nat_less_iff) (simp add: min_def)
  have un: "unat (to_u32 (int n)) = n" using assms(4,5) unat_to_u32 [of "int n"] by simp
  have "seg_ok ?seg" using assms(4,5) un by (simp add: seg_ok_def word_less_nat_alt)
  moreover have "seg_len ?seg \<le> mss kcp" using assms(5) un by (simp add: word_le_nat_alt)
  moreover have "take_bytes (int n) b = Some (take n b)"
    using assms(5) by (simp add: take_bytes_def)
  moreover have "send_fragments (Suc k) (Some b) (int (length b)) sent kcp =
     send_fragments k (Some (drop n b)) (int (length (drop n b))) (sent + int n)
       (kcp\<lparr>requests := requests kcp + 1, snd_queue := snd_queue kcp @ [?seg],
           nsnd_que := nsnd_que kcp + 1\<rparr>)"
  proof (cases "b = []")
    case True
    then have "n = 0" "\<not> sint (mss kcp) < 0" using assms(3,5) by simp_all
    with True show ?thesis
      by (simp add: segment_new_reliable [OF assms(1)] C_assert_def assms(2) fresh_segment_def Let_def)
  next
    case False
    with calculation(3) n assms(5) show ?thesis
      by (simp add: segment_new_reliable [OF assms(1)] C_assert_def assms(2) of_nat_diff Let_def del: of_nat_min)
  qed
  ultimately show thesis using that [of ?seg] by simp
qed

lemma send_fragments_spec:
  assumes "reliable kcp" "stream kcp = 0" "0 < sint (mss kcp)"
    and "k * unat (mss kcp) < length b \<or> k = 0" "length b \<le> Suc k * unat (mss kcp)"
    and "length b < 2147483648"
  shows "\<exists>segs. fragments_of (mss kcp) b segs \<and> length segs = Suc k \<and>
    send_fragments (Suc k) (Some b) (int (length b)) sent kcp = Some (sent + int (length b),
      kcp\<lparr>requests := requests kcp + Suc k, snd_queue := snd_queue kcp @ segs,
          nsnd_que := nsnd_que kcp + of_nat (Suc k)\<rparr>)"
  using assms
proof (induction k arbitrary: b sent kcp)
  case 0
  then have n: "length b = min (length b) (unat (mss kcp))" by simp
  obtain seg where "seg_ok seg" "seg_len seg \<le> mss kcp" "seg_frg seg = of_nat 0"
      "seg_data seg = take (length b) b"
    and r: "send_fragments (Suc 0) (Some b) (int (length b)) sent kcp =
     send_fragments 0 (Some (drop (length b) b)) (int (length (drop (length b) b))) (sent + int (length b))
       (kcp\<lparr>requests := requests kcp + 1, snd_queue := snd_queue kcp @ [seg],
           nsnd_que := nsnd_que kcp + 1\<rparr>)"
    by (rule send_fragments_step [OF 0(1-3,6) n])
  then have "fragments_of (mss kcp) b [seg]" by (simp add: fragments_of_def)
  moreover note r
  ultimately show ?case by (intro exI [of _ "[seg]"]) simp
next
  case (Suc k)
  let ?m = "unat (mss kcp)"
  have n: "?m = min (length b) ?m" using Suc.prems(4) by auto
  obtain seg where seg: "seg_ok seg" "seg_len seg \<le> mss kcp" "seg_frg seg = of_nat (Suc k)"
      "seg_data seg = take ?m b"
    and r: "send_fragments (Suc (Suc k)) (Some b) (int (length b)) sent kcp =
     send_fragments (Suc k) (Some (drop ?m b)) (int (length (drop ?m b))) (sent + int ?m)
       (kcp\<lparr>requests := requests kcp + 1, snd_queue := snd_queue kcp @ [seg],
           nsnd_que := nsnd_que kcp + 1\<rparr>)" (is "_ = send_fragments _ _ _ _ ?kcp")
    by (rule send_fragments_step [OF Suc.prems(1-3,6) n])
  have "\<exists>segs. fragments_of (mss ?kcp) (drop ?m b) segs \<and> length segs = Suc k \<and>
    send_fragments (Suc k) (Some (drop ?m b)) (int (length (drop ?m b))) (sent + int ?m) ?kcp =
    Some (sent + int ?m + int (length (drop ?m b)),
      ?kcp\<lparr>requests := requests ?kcp + Suc k, snd_queue := snd_queue ?kcp @ segs,
          nsnd_que := nsnd_que ?kcp + of_nat (Suc k)\<rparr>)"
    by (rule Suc.IH) (use Suc.prems in auto)
  then obtain segs where segs: "fragments_of (mss kcp) (drop ?m b) segs" "length segs = Suc k"
    and e: "send_fragments (Suc k) (Some (drop ?m b)) (int (length (drop ?m b))) (sent + int ?m) ?kcp =
    Some (sent + int ?m + int (length (drop ?m b)),
      ?kcp\<lparr>requests := requests ?kcp + Suc k, snd_queue := snd_queue ?kcp @ segs,
          nsnd_que := nsnd_que ?kcp + of_nat (Suc k)\<rparr>)" by auto
  have l: "sent + int ?m + int (length (drop ?m b)) = sent + int (length b)"
    using Suc.prems(4) by (auto simp: of_nat_diff)
  have "fragments_of (mss kcp) (take ?m b @ drop ?m b) (seg # segs)"
    using fragments_of_Cons [OF segs(1) seg(1,2)] seg(3,4) segs(2) by simp
  then show ?case unfolding r e l using segs(2)
    by (intro exI [of _ "seg # segs"]) (simp add: ac_simps)
qed


text \<open>The number of fragments: rounded up, and 1 for the empty message.\<close>

definition fragments_needed :: "nat \<Rightarrow> nat \<Rightarrow> nat" where
  "fragments_needed n m = (if n \<le> m then 1 else (n + m - 1) div m)"

lemma fragments_needed_le: "0 < m \<Longrightarrow> m < n \<Longrightarrow> (n + m - 1) div m \<le> (n :: nat)"
proof -
  assume "0 < m" "m < n"
  then have "n + m - 1 \<le> n * m" by (cases m; cases n) simp_all
  from div_le_mono [OF this, of m] \<open>0 < m\<close> show ?thesis by simp
qed

lemma fragment_count_eq:
  assumes "0 < sint m" "n < 2147483648"
  shows "fragment_count (int n) m = int (fragments_needed n (unat m))"
proof -
  have m: "sint m = int (unat m)" "unat m < 2147483648" "0 < unat m"
    using assms(1) sint_nonneg [of m] sint_nonneg_eq [of m] by (auto simp del: of_nat_unat)
  have n: "unat (to_u32 (int n)) = n" using assms(2) unat_to_u32 [of "int n"] by simp
  have "unat (to_u32 (int n) + m) = n + unat m"
    using m(2) assms(2) by (simp only: unat_add_u32 n) simp
  then have "unat (to_u32 (int n) + m - 1) = n + unat m - 1"
    using m(3) by (simp only: unat_sub_u32) simp
  then have "unat ((to_u32 (int n) + m - 1) div m) = (n + unat m - 1) div unat m"
    by (simp only: unat_div)
  moreover have "(n + unat m - 1) div unat m < 2147483648" if "unat m < n"
    using fragments_needed_le [OF m(3) that] assms(2) by simp
  ultimately show ?thesis
    using m(1) by (auto simp: fragment_count_def fragments_needed_def sint_unat simp del: of_nat_unat)
qed

lemma send_splits:
  assumes "reliable kcp" "stream kcp = 0" "0 < to_int (mss kcp)" "length msg < 2147483648"
    and "n = fragments_needed (length msg) (unat (mss kcp))"
  shows "if n < 128
    then \<exists>segs. fragments_of (mss kcp) msg segs \<and> length segs = n \<and>
      ikcp_send (Some msg) (int (length msg)) kcp = Some (int (length msg),
        kcp\<lparr>requests := requests kcp + n, snd_queue := snd_queue kcp @ segs,
            nsnd_que := nsnd_que kcp + of_nat n\<rparr>)
    else ikcp_send (Some msg) (int (length msg)) kcp = Some (- 2, kcp)"
proof -
  let ?m = "unat (mss kcp)"
  have pos: "0 < ?m" "mss kcp \<noteq> 0" using assms(3) by (cases "mss kcp = 0"; auto simp: unat_gt_0)+
  have c: "fragment_count (int (length msg)) (mss kcp) = int n"
    unfolding assms(5) by (rule fragment_count_eq [OF assms(3,4)])
  have send: "ikcp_send (Some msg) (int (length msg)) kcp = send_rest (Some msg) (int (length msg)) 0 kcp"
    using pos assms(2) by (simp add: ikcp_send_def C_assert_def word_greater_zero_iff)
  show ?thesis
  proof (cases "n < 128")
    case True
    have n: "0 < n" unfolding assms(5) fragments_needed_def using pos(1) by (auto simp: div_greater_zero_iff)
    have "length msg \<le> n * ?m \<and> ((n - 1) * ?m < length msg \<or> n - 1 = 0)"
    proof (cases "length msg \<le> ?m")
      case False
      then have "n = (length msg + ?m - 1) div ?m" by (simp add: assms(5) fragments_needed_def)
      then have "n * ?m \<le> length msg + ?m - 1" "length msg + ?m - 1 < (n + 1) * ?m"
        using pos(1) div_times_less_eq_dividend [of "length msg + ?m - 1" ?m]
          dividend_less_div_times [of ?m "length msg + ?m - 1"] by (simp_all add: algebra_simps)
      moreover have "(n - 1) * ?m = n * ?m - ?m" "(n + 1) * ?m = n * ?m + ?m"
        by (simp_all add: diff_mult_distrib)
      ultimately show ?thesis using False pos(1) by linarith
    qed (simp add: assms(5) fragments_needed_def)
    moreover have "Suc (n - 1) = n" using n by simp
    ultimately obtain segs where "fragments_of (mss kcp) msg segs" "length segs = n"
      "send_fragments n (Some msg) (int (length msg)) 0 kcp = Some (int (length msg),
        kcp\<lparr>requests := requests kcp + n, snd_queue := snd_queue kcp @ segs,
            nsnd_que := nsnd_que kcp + of_nat n\<rparr>)"
      using send_fragments_spec [OF assms(1-3), of "n - 1" msg 0] assms(4) by auto
    then show ?thesis using True n
      by (auto simp: send send_rest_def c Let_def IKCP_WND_RCV_def)
  next
    case False
    then show ?thesis using assms(2) by (simp add: send send_rest_def c Let_def IKCP_WND_RCV_def)
  qed
qed

text \<open>
  C9.  Sending cuts a message into fragments: in message mode, with memory available, \<open>ikcp_send\<close> appends
  to the send queue as many segments as needed (at least one), whose payloads of at most \<open>mss\<close> bytes
  concatenate to the message and whose fragment numbers count down to 0, and returns its length; a
  message that needs 128 fragments or more is refused with -2 and nothing changes.
\<close>

theorem send_splits_message:
  assumes "reliable kcp" "stream kcp = 0" "0 < to_int (mss kcp)" "length msg < 2147483648"
    and "n = fragments_needed (length msg) (unat (mss kcp))"
  shows "if n < 128
    then \<exists>segs. fragments_of (mss kcp) msg segs \<and> length segs = n \<and>
      ikcp_send (Some msg) (int (length msg)) kcp = Some (int (length msg),
        kcp\<lparr>requests := requests kcp + n, snd_queue := snd_queue kcp @ segs,
            nsnd_que := nsnd_que kcp + of_nat n\<rparr>)
    else ikcp_send (Some msg) (int (length msg)) kcp = Some (- 2, kcp)"
  by (rule send_splits [OF assms])

section \<open>Receiving\<close>

lemma rcv_move_frame:
  "\<exists>moved. rcv_buf kcp = moved @ rcv_buf (rcv_move kcp) \<and> rcv_queue (rcv_move kcp) = rcv_queue kcp @ moved"
proof (induction kcp rule: rcv_move.induct)
  case (1 kcp)
  show ?case
  proof (cases "rcv_buf kcp")
    case (Cons seg p)
    show ?thesis
    proof (cases "seg_sn seg = rcv_nxt kcp \<and> nrcv_que kcp < rcv_wnd kcp")
      case True
      from 1 [OF Cons True] show ?thesis using Cons True by (subst (1 2) rcv_move.simps) auto
    qed (use Cons in \<open>auto simp: rcv_move.simps [of kcp]\<close>)
  qed (simp add: rcv_move.simps [of kcp])
qed

lemma fragments_of_Cons_iff:
  "fragments_of m msg (s # segs) \<longleftrightarrow> seg_ok s \<and> seg_len s \<le> m \<and> seg_frg s = of_nat (length segs) \<and>
     (if segs = [] then msg = seg_data s
      else \<exists>msg'. msg = seg_data s @ msg' \<and> fragments_of m msg' segs)"
  by (auto simp: fragments_of_def)

lemma of_nat_length_neq_0: "segs \<noteq> [] \<Longrightarrow> length segs < 4294967296 \<Longrightarrow> (of_nat (length segs) :: u32) \<noteq> 0"
  by (simp add: word_of_nat_eq_0_iff nat_dvd_not_less)


lemma recv_merge_fragments:
  assumes "fragments_of m msg segs" "length segs < 4294967296" "length out + length msg \<le> c"
  shows "recv_merge (Some c) False (segs @ rest) out n kcp = Some (out @ msg, n + of_nat (length msg),
    kcp\<lparr>rcv_queue := rest, nrcv_que := nrcv_que kcp - of_nat (length segs)\<rparr>)"
  using assms
proof (induction segs arbitrary: msg out n kcp)
  case (Cons s segs)
  have s: "seg_ok s" "seg_frg s = of_nat (length segs)"
    and l: "of_nat (length (seg_data s)) = seg_len s"
    using Cons.prems(1) by (simp_all add: fragments_of_Cons_iff seg_ok_def)
  show ?case
  proof (cases "segs = []")
    case True
    then show ?thesis using Cons.prems s l
      by (simp add: fragments_of_Cons_iff seg_payload_ok C_assert_def Let_def)
  next
    case False
    then obtain msg' where msg: "msg = seg_data s @ msg'" "fragments_of m msg' segs"
      using Cons.prems(1) by (auto simp: fragments_of_Cons_iff)
    have "(of_nat (length segs) :: u32) \<noteq> 0"
      using False Cons.prems(2) by (intro of_nat_length_neq_0) auto
    then show ?thesis
      using Cons.IH [OF msg(2), of "out @ seg_data s"] Cons.prems(2,3) s l msg(1)
      by (simp add: seg_payload_ok C_assert_def Let_def ac_simps)
  qed
qed (simp add: fragments_of_def)

lemma peek_length_fragments:
  assumes "fragments_of m msg segs" "length segs < 4294967296"
  shows "peek_length n (segs @ rest) = n + of_nat (length msg)"
  using assms
proof (induction segs arbitrary: msg n)
  case (Cons s segs)
  have s: "seg_frg s = of_nat (length segs)" and l: "of_nat (length (seg_data s)) = seg_len s"
    using Cons.prems(1) by (simp_all add: fragments_of_Cons_iff seg_ok_def)
  show ?case
  proof (cases "segs = []")
    case False
    then obtain msg' where msg: "msg = seg_data s @ msg'" "fragments_of m msg' segs"
      using Cons.prems(1) by (auto simp: fragments_of_Cons_iff)
    have "(of_nat (length segs) :: u32) \<noteq> 0"
      using False Cons.prems(2) by (intro of_nat_length_neq_0) auto
    then show ?thesis
      using Cons.IH [OF msg(2)] Cons.prems(2) s l msg(1) by (simp add: Let_def ac_simps)
  qed (use Cons.prems s l in \<open>simp add: fragments_of_Cons_iff Let_def\<close>)
qed (simp add: fragments_of_def)

definition counted :: "ikcpcb \<Rightarrow> bool" where
  "counted kcp \<longleftrightarrow> nrcv_que kcp = of_nat (length (rcv_queue kcp)) \<and> length (rcv_queue kcp) < 4294967296"

lemma peeksize_fragments:
  assumes "counted kcp" "rcv_queue kcp = segs @ rest" "fragments_of m msg segs" "length msg < 2147483648"
  shows "ikcp_peeksize kcp = int (length msg)"
proof -
  have len: "length segs < 4294967296" using assms(1,2) by (simp add: counted_def)
  obtain s segs' where segs: "segs = s # segs'" using assms(3) by (cases segs) (auto simp: fragments_of_def)
  have u: "unat (of_nat (length msg) :: u32) = length msg"
    using assms(4) unat_to_u32 [of "int (length msg)"] by simp
  have i: "to_int (of_nat (length msg)) = int (length msg)"
    using sint_to_u32 [of "int (length msg)"] assms(4) by simp
  show ?thesis
  proof (cases "segs' = []")
    case True
    then have "seg_frg s = 0" "seg_len s = of_nat (length msg)"
      using assms(3) by (auto simp: segs fragments_of_Cons_iff seg_ok_def)
    then show ?thesis using i by (simp add: ikcp_peeksize_def assms(2) segs)
  next
    case False
    have "(of_nat (length segs') :: u32) \<noteq> 0"
      using False len by (intro of_nat_length_neq_0) (auto simp: segs)
    moreover have "seg_frg s = of_nat (length segs')"
      using assms(3) by (simp add: segs fragments_of_Cons_iff)
    moreover have "\<not> nrcv_que kcp < of_nat (length segs') + 1"
    proof -
      have "unat (of_nat (length segs) :: u32) = length segs"
        "unat (nrcv_que kcp) = length (rcv_queue kcp)"
        using len assms(1) unat_to_u32 [of "int (length segs)"]
          unat_to_u32 [of "int (length (rcv_queue kcp))"] by (simp_all add: counted_def)
      then have "\<not> nrcv_que kcp < of_nat (length segs)"
        using assms(2) by (simp add: word_less_nat_alt)
      then show ?thesis by (simp add: segs add.commute)
    qed
    ultimately show ?thesis
      using peek_length_fragments [OF assms(3) len, of 0 rest] i
      by (simp add: ikcp_peeksize_def assms(2) segs)
  qed
qed

lemma recv_fragments:
  assumes "counted kcp" "rcv_queue kcp = segs @ rest" "fragments_of m msg segs"
    and "length msg < 2147483648" "0 \<le> n" "int (length msg) \<le> int c"
  shows "if int (length msg) \<le> n
    then \<exists>kcp' moved. ikcp_recv (Some c) n kcp = Some (int (length msg), msg, kcp') \<and>
      rcv_queue kcp' = rest @ moved \<and> rcv_buf kcp = moved @ rcv_buf kcp'
    else ikcp_recv (Some c) n kcp = Some (- 3, [], kcp)"
proof -
  have ne: "segs \<noteq> []" using assms(3) by (auto simp: fragments_of_def)
  have len: "length segs < 4294967296" using assms(1,2) by (simp add: counted_def)
  have p: "ikcp_peeksize kcp = int (length msg)" by (rule peeksize_fragments [OF assms(1-4)])
  have i: "to_int (of_nat (length msg)) = int (length msg)"
    using sint_to_u32 [of "int (length msg)"] assms(4) by simp
  let ?k = "kcp\<lparr>rcv_queue := rest, nrcv_que := nrcv_que kcp - of_nat (length segs)\<rparr>"
  have merge: "recv_merge (Some c) False (segs @ rest) [] 0 kcp = Some (msg, of_nat (length msg), ?k)"
    using recv_merge_fragments [OF assms(3) len, of "[]" c rest 0 kcp] assms(6) by simp
  obtain moved where moved: "rcv_buf kcp = moved @ rcv_buf (rcv_move ?k)"
    "rcv_queue (rcv_move ?k) = rest @ moved"
    using rcv_move_frame [of ?k] by auto
  have "rcv_buf (recv_recover r k) = rcv_buf k" "rcv_queue (recv_recover r k) = rcv_queue k" for r k
    by (simp_all add: recv_recover_def)
  with moved ne assms(5) show ?thesis
    by (simp add: ikcp_recv_def assms(2) p merge i C_assert_def Let_def)
qed

text \<open>
  C10.  Receiving reassembles a message: when the receive queue starts with the fragments of a message,
  \<open>ikcp_recv\<close> with a buffer that is large enough copies exactly the message, returns its length, and
  removes exactly these fragments (segments that had arrived early may then follow at the end of the
  queue); with a smaller buffer it returns -3 and keeps everything.
\<close>

theorem recv_reassembles:
  assumes "counted kcp" "rcv_queue kcp = segs @ rest" "fragments_of m msg segs"
    and "length msg < 2147483648" "0 \<le> n" "int (length msg) \<le> int c"
  shows "if int (length msg) \<le> n
    then \<exists>kcp' moved. ikcp_recv (Some c) n kcp = Some (int (length msg), msg, kcp') \<and>
      rcv_queue kcp' = rest @ moved \<and> rcv_buf kcp = moved @ rcv_buf kcp'
    else ikcp_recv (Some c) n kcp = Some (- 3, [], kcp)"
  by (rule recv_fragments [OF assms])

end
