(* ===== verification/Kcp_Sender.thy ===== *)
theory Kcp_Sender
  imports Kcp_Flush Kcp_Queues_Correct
begin

text \<open>
  The sender's queues: the segments in \<open>snd_buf\<close> carry ascending sequence numbers between \<open>snd_una\<close> and
  \<open>snd_nxt\<close>, which are never more than 65535 apart, and the counters are the lengths of the queues.
\<close>

section \<open>Ascending sequence numbers\<close>

text \<open>Positions of the segments, as offsets from a base.\<close>

definition positions :: "u32 \<Rightarrow> IKCPSEG list \<Rightarrow> nat list" where
  "positions b segs = map (\<lambda>s. offset b (seg_sn s)) segs"

definition ascending :: "u32 \<Rightarrow> nat \<Rightarrow> IKCPSEG list \<Rightarrow> bool" where
  "ascending b n segs \<longleftrightarrow> sorted_wrt (<) (positions b segs) \<and> (\<forall>i \<in> set (positions b segs). i < n)"

lemma ascending_Nil [simp]: "ascending b n []"
  by (simp add: ascending_def positions_def)

lemma ascending_Cons: "ascending b n (s # segs) \<longleftrightarrow> offset b (seg_sn s) < n \<and> ascending b n segs \<and>
    (\<forall>t \<in> set segs. offset b (seg_sn s) < offset b (seg_sn t))"
  by (auto simp: ascending_def positions_def)

lemma ascending_append: "ascending b n (xs @ ys) \<longleftrightarrow> ascending b n xs \<and> ascending b n ys \<and>
    (\<forall>x \<in> set xs. \<forall>y \<in> set ys. offset b (seg_sn x) < offset b (seg_sn y))"
  by (auto simp: ascending_def positions_def sorted_wrt_append)

lemma ascending_mono: "ascending b m segs \<Longrightarrow> m \<le> n \<Longrightarrow> ascending b n segs"
  by (auto simp: ascending_def)

lemma ascending_filter: "ascending b n segs \<Longrightarrow> ascending b n (filter P segs)"
  by (induction segs) (auto simp: ascending_Cons)

lemma ascending_sn_cong: "map seg_sn xs = map seg_sn ys \<Longrightarrow> ascending b n xs = ascending b n ys"
  by (simp add: ascending_def positions_def flip: map_map [where f = "offset b" and g = seg_sn, unfolded comp_def])

text \<open>Moving the base forward, not past the first segment.\<close>

lemma ascending_rebase:
  assumes "ascending b n segs" "\<And>s. s \<in> set segs \<Longrightarrow> offset b c \<le> offset b (seg_sn s)"
  shows "ascending c (n - offset b c) segs"
  using assms
proof (induction segs)
  case (Cons s segs)
  have "offset c (seg_sn t) = offset b (seg_sn t) - offset b c" if "t \<in> set (s # segs)" for t
    by (rule offset_diff) (use Cons.prems(2) that in auto)
  then show ?case using Cons by (auto simp: ascending_Cons less_diff_conv2 diff_less_mono)
qed simp

lemma ascending_distinct: "ascending b n segs \<Longrightarrow> distinct (map seg_sn segs)"
  by (induction segs) (auto simp: ascending_Cons)

section \<open>The invariant\<close>

text \<open>
  \<open>send_core\<close> holds also between the deletion of acknowledged segments and \<open>ikcp_shrink_buf\<close>, which
  restores the last part of \<open>send_ok\<close>: \<open>snd_una\<close> is the first number not acknowledged.
\<close>

definition tagged :: "u32 \<Rightarrow> IKCPSEG \<Rightarrow> bool" where
  "tagged c s \<longleftrightarrow> seg_conv s = c \<and> seg_cmd s = IKCP_CMD_PUSH"

definition send_core :: "ikcpcb \<Rightarrow> bool" where
  "send_core kcp \<longleftrightarrow> nsnd_buf kcp = of_nat (length (snd_buf kcp)) \<and>
     nsnd_que kcp = of_nat (length (snd_queue kcp)) \<and>
     ascending (snd_una kcp) (offset (snd_una kcp) (snd_nxt kcp)) (snd_buf kcp) \<and>
     offset (snd_una kcp) (snd_nxt kcp) \<le> 65535 \<and> rmt_wnd kcp \<le> 65535 \<and>
     (\<forall>s \<in> set (snd_buf kcp) \<union> set (snd_queue kcp). seg_ok s) \<and>
     (\<forall>s \<in> set (snd_buf kcp). tagged (conv kcp) s)"

definition first_sn :: "u32 \<Rightarrow> IKCPSEG list \<Rightarrow> u32" where
  "first_sn n q = (case q of [] \<Rightarrow> n | seg # _ \<Rightarrow> seg_sn seg)"

definition send_ok :: "ikcpcb \<Rightarrow> bool" where
  "send_ok kcp \<longleftrightarrow> send_core kcp \<and> snd_una kcp = first_sn (snd_nxt kcp) (snd_buf kcp)"

lemma first_sn_simps [simp]: "first_sn n [] = n" "first_sn n (seg # q) = seg_sn seg"
  by (simp_all add: first_sn_def)

lemma first_sn_cong: "map seg_sn xs = map seg_sn ys \<Longrightarrow> first_sn n xs = first_sn n ys"
  by (cases xs; cases ys) simp_all

lemma shrink_buf_ok: "send_core kcp \<Longrightarrow> send_ok (ikcp_shrink_buf kcp)"
proof (cases "snd_buf kcp")
  case Nil
  then show "send_core kcp \<Longrightarrow> send_ok (ikcp_shrink_buf kcp)"
    by (simp add: ikcp_shrink_buf_def send_ok_def send_core_def)
next
  case (Cons seg p)
  assume c: "send_core kcp"
  let ?b = "snd_una kcp"
  have a: "ascending ?b (offset ?b (snd_nxt kcp)) (seg # p)" using c by (simp add: send_core_def Cons)
  then have le: "offset ?b (seg_sn seg) \<le> offset ?b (seg_sn s)" if "s \<in> set (seg # p)" for s
    using that by (auto simp: ascending_Cons)
  have "offset (seg_sn seg) (snd_nxt kcp) = offset ?b (snd_nxt kcp) - offset ?b (seg_sn seg)"
    by (rule offset_diff) (use a in \<open>simp add: ascending_Cons\<close>)
  with ascending_rebase [OF a le] c show ?thesis
    by (auto simp: ikcp_shrink_buf_def send_ok_def send_core_def Cons)
qed

section \<open>Acknowledgements\<close>

lemma parse_una_loop_eq: "parse_una_loop una q =
    (dropWhile (\<lambda>s. 0 < itimediff una (seg_sn s)) q,
     of_nat (length (takeWhile (\<lambda>s. 0 < itimediff una (seg_sn s)) q)))"
  by (induction q) (simp_all add: add.commute)

lemma parse_ack_loop_eq:
  assumes "ascending b n q" "n \<le> 2147483648" "offset b sn < 2147483648"
  shows "parse_ack_loop sn q = (filter (\<lambda>s. seg_sn s \<noteq> sn) q,
    of_nat (length (filter (\<lambda>s. seg_sn s = sn) q)))"
  using assms(1)
proof (induction q)
  case (Cons s q)
  then have IH: "parse_ack_loop sn q = (filter (\<lambda>s. seg_sn s \<noteq> sn) q,
      of_nat (length (filter (\<lambda>s. seg_sn s = sn) q)))"
    and above: "\<And>t. t \<in> set q \<Longrightarrow> offset b (seg_sn s) < offset b (seg_sn t)"
    and s: "offset b (seg_sn s) < 2147483648"
    using assms(2) by (auto simp: ascending_Cons)
  show ?case
  proof (cases "seg_sn s = sn")
    case True
    then have "\<forall>t \<in> set q. seg_sn t \<noteq> sn" using above by fastforce
    then have "filter (\<lambda>t. seg_sn t \<noteq> sn) q = q" "filter (\<lambda>t. seg_sn t = sn) q = []"
      by (simp_all add: filter_id_conv filter_empty_conv)
    with True show ?thesis by simp
  next
    case ne: False
    show ?thesis
    proof (cases "itimediff sn (seg_sn s) < 0")
      case True
      then have "offset b sn < offset b (seg_sn s)"
        using itimediff_offset [OF assms(3) s] by simp
      then have "\<forall>t \<in> set q. seg_sn t \<noteq> sn" using above by fastforce
      then have "filter (\<lambda>t. seg_sn t \<noteq> sn) q = q" "filter (\<lambda>t. seg_sn t = sn) q = []"
        by (simp_all add: filter_id_conv filter_empty_conv)
      with True ne show ?thesis by simp
    qed (use IH ne in auto)
  qed
qed simp


lemma parse_una_core: "send_core kcp \<Longrightarrow> send_core (ikcp_parse_una una kcp)"
proof -
  let ?P = "\<lambda>s. 0 < itimediff una (seg_sn s)"
  let ?b = "snd_una kcp"
  assume c: "send_core kcp"
  have split: "takeWhile ?P (snd_buf kcp) @ dropWhile ?P (snd_buf kcp) = snd_buf kcp" by simp
  have "ascending ?b (offset ?b (snd_nxt kcp)) (takeWhile ?P (snd_buf kcp) @ dropWhile ?P (snd_buf kcp))"
    using c by (simp add: send_core_def)
  then have "ascending ?b (offset ?b (snd_nxt kcp)) (dropWhile ?P (snd_buf kcp))"
    by (simp only: ascending_append)
  moreover have "length (snd_buf kcp) =
      length (takeWhile ?P (snd_buf kcp)) + length (dropWhile ?P (snd_buf kcp))"
    by (metis split length_append)
  ultimately show ?thesis using c
    by (auto simp: ikcp_parse_una_def parse_una_loop_eq send_core_def dest: set_dropWhileD)
qed

lemma parse_ack_eq:
  assumes "send_core kcp"
  shows "ikcp_parse_ack sn kcp = kcp\<lparr>snd_buf := filter (\<lambda>s. seg_sn s \<noteq> sn) (snd_buf kcp),
    nsnd_buf := of_nat (length (filter (\<lambda>s. seg_sn s \<noteq> sn) (snd_buf kcp)))\<rparr>"
proof -
  let ?b = "snd_una kcp"
  have a: "ascending ?b (offset ?b (snd_nxt kcp)) (snd_buf kcp)" "offset ?b (snd_nxt kcp) \<le> 65535"
    and n: "nsnd_buf kcp = of_nat (length (snd_buf kcp))"
    using assms by (simp_all add: send_core_def)
  have le: "offset ?b (snd_nxt kcp) \<le> 2147483648" "offset ?b (snd_nxt kcp) < 2147483648"
    using a(2) by simp_all
  show ?thesis
  proof (cases "itimediff sn ?b < 0 \<or> 0 \<le> itimediff sn (snd_nxt kcp)")
    case True
    have "seg_sn s \<noteq> sn" if "s \<in> set (snd_buf kcp)" for s
    proof
      assume "seg_sn s = sn"
      then have lt: "offset ?b sn < offset ?b (snd_nxt kcp)"
        using a(1) that by (auto simp: ascending_def positions_def)
      then show False
        using True itimediff_offset [of ?b sn "snd_nxt kcp"] itimediff_offset [of ?b sn ?b] le by simp
    qed
    then have "filter (\<lambda>s. seg_sn s \<noteq> sn) (snd_buf kcp) = snd_buf kcp" by (simp add: filter_id_conv)
    with True n show ?thesis by (simp add: ikcp_parse_ack_def)
  next
    case False
    then have o: "offset ?b sn < 2147483648" by (simp flip: itimediff_nonneg_offset)
    have "length (snd_buf kcp) = length (filter (\<lambda>s. seg_sn s = sn) (snd_buf kcp)) +
        length (filter (\<lambda>s. seg_sn s \<noteq> sn) (snd_buf kcp))"
      by (simp add: sum_length_filter_compl)
    with False n parse_ack_loop_eq [OF a(1) le(1) o] show ?thesis by (simp add: ikcp_parse_ack_def)
  qed
qed

lemma parse_ack_core: "send_core kcp \<Longrightarrow> send_core (ikcp_parse_ack sn kcp)"
  by (subst parse_ack_eq) (auto simp: send_core_def ascending_filter)

lemma parse_fastack_loop_frame:
  "map seg_sn (parse_fastack_loop sn ts q) = map seg_sn q"
  "length (parse_fastack_loop sn ts q) = length q"
  "(\<forall>s \<in> set (parse_fastack_loop sn ts q). seg_ok s) \<longleftrightarrow> (\<forall>s \<in> set q. seg_ok s)"
  "(\<forall>s \<in> set (parse_fastack_loop sn ts q). tagged c s) \<longleftrightarrow> (\<forall>s \<in> set q. tagged c s)"
  by (induction q) (simp_all add: seg_ok_def tagged_def)

lemma parse_fastack_ok: "send_ok kcp \<Longrightarrow> send_ok (ikcp_parse_fastack sn ts kcp)"
  using parse_fastack_loop_frame(1-3) [of sn ts "snd_buf kcp"]
    parse_fastack_loop_frame(4) [of sn ts "snd_buf kcp" "conv kcp"]
    ascending_sn_cong [OF parse_fastack_loop_frame(1)] first_sn_cong [OF parse_fastack_loop_frame(1)]
  by (auto simp: ikcp_parse_fastack_def send_ok_def send_core_def ball_Un)

end
