(* ===== verification/Kcp_Receiver.thy ===== *)
theory Kcp_Receiver
  imports Kcp_Sender
begin

text \<open>
  The receiver's queues: \<open>rcv_queue\<close> holds consecutive sequence numbers that end right before \<open>rcv_nxt\<close>,
  \<open>rcv_buf\<close> holds later numbers in ascending order, each at most once, and the counters are the lengths
  of the queues.
\<close>

section \<open>The invariant\<close>

text \<open>Consecutive numbers that end before \<open>nxt\<close>.\<close>

definition in_order :: "u32 \<Rightarrow> IKCPSEG list \<Rightarrow> bool" where
  "in_order nxt q \<longleftrightarrow> (\<forall>i < length q. seg_sn (q ! i) = nxt - of_nat (length q) + of_nat i)"

lemma in_order_Nil [simp]: "in_order nxt []"
  by (simp add: in_order_def)

lemma in_order_snoc: "in_order nxt q \<Longrightarrow> seg_sn s = nxt \<Longrightarrow> in_order (nxt + 1) (q @ [s])"
  by (auto simp: in_order_def nth_append less_Suc_eq)

lemma in_order_tl: "in_order nxt (s # q) \<Longrightarrow> in_order nxt q"
proof (unfold in_order_def, intro allI impI)
  fix i assume o: "\<forall>i < length (s # q). seg_sn ((s # q) ! i) = nxt - of_nat (length (s # q)) + of_nat i"
    and i: "i < length q"
  have "seg_sn (q ! i) = nxt - of_nat (length (s # q)) + of_nat (Suc i)"
    using o i by (metis Suc_less_eq length_Cons nth_Cons_Suc)
  then show "seg_sn (q ! i) = nxt - of_nat (length q) + of_nat i" by simp
qed

definition recv_ok :: "ikcpcb \<Rightarrow> bool" where
  "recv_ok kcp \<longleftrightarrow> nrcv_buf kcp = of_nat (length (rcv_buf kcp)) \<and>
     nrcv_que kcp = of_nat (length (rcv_queue kcp)) \<and> length (rcv_queue kcp) < 2147483648 \<and>
     in_order (rcv_nxt kcp) (rcv_queue kcp) \<and> ascending (rcv_nxt kcp) 2147483648 (rcv_buf kcp) \<and>
     128 \<le> rcv_wnd kcp \<and> rcv_wnd kcp < 2147483648 \<and>
     (\<forall>s \<in> set (rcv_queue kcp) \<union> set (rcv_buf kcp). seg_ok s)"

lemma recv_ok_counted: "recv_ok kcp \<Longrightarrow> counted kcp"
  by (simp add: recv_ok_def counted_def)

lemma unat_of_nat_small: "n < 4294967296 \<Longrightarrow> unat (of_nat n :: u32) = n"
  using unat_to_u32 [of "int n"] by simp

section \<open>Moving segments in order\<close>

lemma rcv_move_step:
  assumes "recv_ok kcp" "rcv_buf kcp = seg # p" "seg_sn seg = rcv_nxt kcp" "nrcv_que kcp < rcv_wnd kcp"
  shows "recv_ok (kcp\<lparr>rcv_buf := p, nrcv_buf := nrcv_buf kcp - 1, rcv_queue := rcv_queue kcp @ [seg],
    nrcv_que := nrcv_que kcp + 1, rcv_nxt := rcv_nxt kcp + 1\<rparr>)"
proof -
  let ?n = "rcv_nxt kcp"
  have one: "offset ?n (?n + 1) = 1" using offset_add [of ?n ?n 1] by simp
  have a: "ascending ?n 2147483648 p" "\<And>t. t \<in> set p \<Longrightarrow> 0 < offset ?n (seg_sn t)"
    using assms(1-3) by (auto simp: recv_ok_def ascending_Cons)
  have "ascending (?n + 1) (2147483648 - offset ?n (?n + 1)) p"
    by (rule ascending_rebase [OF a(1)]) (use a(2) one in fastforce)
  then have "ascending (?n + 1) 2147483648 p" by (rule ascending_mono) simp
  moreover have "length (rcv_queue kcp) + 1 < 2147483648"
  proof -
    have "unat (nrcv_que kcp) < unat (rcv_wnd kcp)" "unat (rcv_wnd kcp) < 2147483648"
      using assms(1,4) by (simp_all add: recv_ok_def word_less_nat_alt)
    then show ?thesis using assms(1) unat_of_nat_small by (simp add: recv_ok_def)
  qed
  ultimately show ?thesis
    using assms(1-3) by (auto simp: recv_ok_def intro: in_order_snoc)
qed

lemma rcv_move_ok: "recv_ok kcp \<Longrightarrow> recv_ok (rcv_move kcp)"
proof (induction kcp rule: rcv_move.induct)
  case (1 kcp)
  then show ?case
    using rcv_move_step [OF 1(2)]
    by (subst rcv_move.simps) (auto split: list.split)
qed

text \<open>After the move nothing that could be delivered is left in \<open>rcv_buf\<close>.\<close>

definition drained :: "ikcpcb \<Rightarrow> bool" where
  "drained kcp \<longleftrightarrow> (case rcv_buf kcp of [] \<Rightarrow> True
     | seg # _ \<Rightarrow> seg_sn seg \<noteq> rcv_nxt kcp \<or> rcv_wnd kcp \<le> nrcv_que kcp)"

lemma rcv_move_drained: "drained (rcv_move kcp)"
proof (induction kcp rule: rcv_move.induct)
  case (1 kcp)
  then show ?case
    by (subst rcv_move.simps) (auto simp: drained_def split: list.split)
qed

section \<open>Sorting a segment in\<close>

lemma parse_data_loop_eq:
  assumes "ascending b 2147483648 q" "offset b sn < 2147483648"
  shows "parse_data_loop sn (rev q) = (rep, p) \<Longrightarrow>
    (if rep then sn \<in> set (map seg_sn q)
     else sn \<notin> set (map seg_sn q) \<and> p \<le> length q \<and>
       (\<forall>s \<in> set (take p q). offset b (seg_sn s) < offset b sn) \<and>
       (\<forall>s \<in> set (drop p q). offset b sn < offset b (seg_sn s)))"
  using assms(1)
proof (induction q rule: rev_induct)
  case (snoc s q)
  have a: "ascending b 2147483648 q" "offset b (seg_sn s) < 2147483648"
    and below: "\<And>t. t \<in> set q \<Longrightarrow> offset b (seg_sn t) < offset b (seg_sn s)"
    using snoc.prems(2) by (auto simp: ascending_append ascending_Cons)
  have d: "itimediff sn (seg_sn s) = int (offset b sn) - int (offset b (seg_sn s))"
    by (rule itimediff_offset [OF assms(2) a(2)])
  show ?case
  proof (cases "seg_sn s = sn")
    case True
    then show ?thesis using snoc.prems(1) by auto
  next
    case ne: False
    then have nq: "offset b sn \<noteq> offset b (seg_sn s)" by (simp add: offset_eq_iff)
    show ?thesis
    proof (cases "0 < itimediff sn (seg_sn s)")
      case True
      then have lt: "offset b (seg_sn s) < offset b sn" using d by simp
      then have "\<forall>t \<in> set q. offset b (seg_sn t) < offset b sn" using below by fastforce
      then show ?thesis using snoc.prems(1) True ne lt by auto
    next
      case False
      then have gt: "offset b sn < offset b (seg_sn s)" using d nq by simp
      have "parse_data_loop sn (rev q) = (rep, p)" using snoc.prems(1) False ne by simp
      from snoc.IH [OF this a(1)] gt ne show ?thesis by (auto split: if_splits)
    qed
  qed
qed auto

lemma insert_ascending:
  assumes "ascending b n q" "p \<le> length q" "offset b (seg_sn x) < n"
    and "\<forall>s \<in> set (take p q). offset b (seg_sn s) < offset b (seg_sn x)"
    and "\<forall>s \<in> set (drop p q). offset b (seg_sn x) < offset b (seg_sn s)"
  shows "ascending b n (take p q @ x # drop p q)"
proof -
  have "ascending b n (take p q @ drop p q)" using assms(1) by simp
  then have "ascending b n (take p q)" "ascending b n (drop p q)"
    "\<forall>s \<in> set (take p q). \<forall>t \<in> set (drop p q). offset b (seg_sn s) < offset b (seg_sn t)"
    unfolding ascending_append by simp_all
  then show ?thesis using assms(3-5) by (auto simp: ascending_append ascending_Cons)
qed

text \<open>What \<open>ikcp_parse_data\<close> does before it moves segments on.\<close>

definition accepts :: "ikcpcb \<Rightarrow> u32 \<Rightarrow> bool" where
  "accepts kcp sn \<longleftrightarrow> 0 \<le> itimediff sn (rcv_nxt kcp) \<and>
     itimediff sn (rcv_nxt kcp + rcv_wnd kcp) < 0 \<and> sn \<notin> set (map seg_sn (rcv_buf kcp))"

lemma parse_data_eq:
  assumes "recv_ok kcp" "seg_ok newseg"
  shows "if accepts kcp (seg_sn newseg)
    then \<exists>xs ys. rcv_buf kcp = xs @ ys \<and>
      recv_ok (kcp\<lparr>rcv_buf := xs @ newseg # ys, nrcv_buf := nrcv_buf kcp + 1\<rparr>) \<and>
      ikcp_parse_data newseg kcp =
        rcv_move (kcp\<lparr>rcv_buf := xs @ newseg # ys, nrcv_buf := nrcv_buf kcp + 1\<rparr>)
    else ikcp_parse_data newseg kcp = kcp \<or> ikcp_parse_data newseg kcp = rcv_move kcp"
proof (cases "0 \<le> itimediff (seg_sn newseg) (rcv_nxt kcp + rcv_wnd kcp) \<or>
    itimediff (seg_sn newseg) (rcv_nxt kcp) < 0")
  case True
  then show ?thesis by (auto simp: ikcp_parse_data_def accepts_def Let_def)
next
  case False
  let ?sn = "seg_sn newseg" let ?q = "rcv_buf kcp"
  have o: "offset (rcv_nxt kcp) ?sn < 2147483648" using False by (simp flip: itimediff_nonneg_offset)
  have a: "ascending (rcv_nxt kcp) 2147483648 ?q" using assms(1) by (simp add: recv_ok_def)
  obtain rep p where r: "parse_data_loop ?sn (rev ?q) = (rep, p)" by fastforce
  note found = parse_data_loop_eq [OF a o r]
  have eq: "ikcp_parse_data newseg kcp = rcv_move
      (if \<not> rep then kcp\<lparr>rcv_buf := take p ?q @ newseg # drop p ?q, nrcv_buf := nrcv_buf kcp + 1\<rparr> else kcp)"
    using False r by (simp add: ikcp_parse_data_def Let_def)
  show ?thesis
  proof (cases rep)
    case True
    then show ?thesis using found eq by (simp add: accepts_def)
  next
    case nr: False
    then have acc: "accepts kcp ?sn" using found False by (simp add: accepts_def)
    have "set ?q = set (take p ?q) \<union> set (drop p ?q)" by (metis append_take_drop_id set_append)
    then have "recv_ok (kcp\<lparr>rcv_buf := take p ?q @ newseg # drop p ?q, nrcv_buf := nrcv_buf kcp + 1\<rparr>)"
      using assms found nr insert_ascending [OF a, of p newseg] o by (auto simp: recv_ok_def)
    then show ?thesis
      unfolding eq using nr acc by (simp add: exI [of _ "take p ?q"] exI [of _ "drop p ?q"])
  qed
qed


lemma parse_data_ok: "recv_ok kcp \<Longrightarrow> seg_ok newseg \<Longrightarrow> recv_ok (ikcp_parse_data newseg kcp)"
  using parse_data_eq [of kcp newseg] rcv_move_ok by (fastforce split: if_splits)

text \<open>Taking a message out of the queue.\<close>

lemma recv_merge_frame:
  assumes "recv_ok kcp" "rcv_queue kcp = q"
  shows "ensures (recv_merge cap ispeek q out n kcp) (\<lambda>(out, n, kcp'). recv_ok kcp' \<and>
    kcp' = kcp\<lparr>rcv_queue := rcv_queue kcp', nrcv_que := nrcv_que kcp'\<rparr>)"
  using assms
proof (induction q arbitrary: cap ispeek out n kcp)
  case (Cons s q)
  have tl: "recv_ok (kcp\<lparr>rcv_queue := q, nrcv_que := nrcv_que kcp - 1\<rparr>)"
    using Cons.prems by (auto simp: recv_ok_def intro: in_order_tl)
  let ?k = "kcp\<lparr>rcv_queue := q, nrcv_que := nrcv_que kcp - 1\<rparr>"
  have rec: "ensures (recv_merge cap False q out n ?k) (\<lambda>(out, n, kcp'). recv_ok kcp' \<and>
      kcp' = kcp\<lparr>rcv_queue := rcv_queue kcp', nrcv_que := nrcv_que kcp'\<rparr>)" for cap out n
    by (rule ensures_mono [OF Cons.IH [OF tl]]) auto
  have peek: "ensures (recv_merge cap True q' out n kcp) (\<lambda>(out, n, kcp'). recv_ok kcp' \<and>
      kcp' = kcp\<lparr>rcv_queue := rcv_queue kcp', nrcv_que := nrcv_que kcp'\<rparr>)" for q' out n
    using Cons.prems(1)
    by (induction q' arbitrary: out n) (auto simp: run_simps Let_def seg_payload_def)
  show ?case using tl rec peek [of "s # q"]
    by (cases ispeek) (auto simp: run_simps Let_def seg_payload_def)
qed simp

lemma recv_recv_ok: "recv_ok kcp \<Longrightarrow> ensures (ikcp_recv cap n kcp) (\<lambda>(r, out, kcp'). recv_ok kcp')"
proof -
  assume ok: "recv_ok kcp"
  have r: "recv_ok (recv_recover b (rcv_move k))" if "recv_ok k" for b k
    using rcv_move_ok [OF that] by (simp add: recv_recover_def recv_ok_def)
  have m: "ensures (recv_merge cap b (rcv_queue kcp) [] 0 kcp) (\<lambda>x. recv_ok (snd (snd x)))" for b
    by (rule ensures_mono [OF recv_merge_frame [OF ok refl]]) auto
  show ?thesis using ok
    by (auto simp: ikcp_recv_def run_simps Let_def c_int_def intro!: ensures_mono [OF m] intro: r)
qed

end
