(* ===== verification/Kcp_Acks.thy ===== *)
theory Kcp_Acks
  imports Kcp_Receiver
begin

text \<open>
  The list of acknowledgements to send: its block is always large enough, pushing appends a pair, and the
  doubling loop ends exactly for requests up to \<open>2 ^ 31\<close>.  Then the timers: the retransmission timeout
  stays between its bounds.
\<close>

section \<open>The doubling loop\<close>

text \<open>The values the loop variable can take: powers of two, and 0 after an overflow.\<close>

definition doubling :: "u32 \<Rightarrow> bool" where
  "doubling b \<longleftrightarrow> b = 0 \<or> (\<exists>j \<le> 31. unat b = 2 ^ j)"

lemma unat_double: "unat (push_bit 1 b :: u32) = (2 * unat b) mod 4294967296"
proof -
  have "push_bit 1 b = b + b" by (simp add: push_bit_eq_mult)
  then show ?thesis by (simp only: unat_add_u32 mult_2)
qed

lemma doubling_step: "doubling b \<Longrightarrow> doubling (push_bit 1 b)"
proof (cases "b = 0")
  case False
  assume "doubling b"
  with False obtain j where j: "j \<le> 31" "unat b = 2 ^ j" by (auto simp: doubling_def)
  show ?thesis
  proof (cases "j = 31")
    case True
    then have "unat (push_bit 1 b) = 0" unfolding unat_double j(2) by simp
    then show ?thesis by (simp add: doubling_def unsigned_eq_0_iff)
  next
    case False
    then have "2 ^ Suc j \<le> (2 :: nat) ^ 31" using j(1) by (intro power_increasing) auto
    then have "unat (push_bit 1 b) = 2 ^ Suc j" unfolding unat_double j(2) by simp
    then show ?thesis using False j(1) by (auto simp: doubling_def intro!: exI [of _ "Suc j"])
  qed
qed (simp add: doubling_def)

lemma doubling_le: "doubling b \<Longrightarrow> unat b \<le> 2147483648"
proof (cases "b = 0")
  case False
  assume "doubling b"
  with False obtain j where j: "j \<le> 31" "unat b = 2 ^ j" by (auto simp: doubling_def)
  have "(2 :: nat) ^ j \<le> 2 ^ 31" using j(1) by (rule power_increasing) simp
  then show ?thesis unfolding j(2) by simp
qed simp

lemma ack_newblock_spec:
  assumes "ack_newblock n b = Some r"
  shows "doubling b \<longrightarrow> n \<le> r \<and> doubling r"
  using assms
proof (rule ack_newblock.raw_induct [rotated, where P = "\<lambda>n b r. doubling b \<longrightarrow> n \<le> r \<and> doubling r"])
  fix f :: "u32 \<Rightarrow> u32 \<Rightarrow> u32 option" and n b r :: u32
  assume IH: "\<And>n b r. f n b = Some r \<Longrightarrow> doubling b \<longrightarrow> n \<le> r \<and> doubling r"
    and e: "(if b < n then f n (push_bit 1 b) else Some b) = Some r"
  show "doubling b \<longrightarrow> n \<le> r \<and> doubling r"
  proof (cases "b < n")
    case True
    from e have "f n (push_bit 1 b) = Some r" unfolding if_P [OF True] .
    from IH [OF this] doubling_step show ?thesis by blast
  next
    case False
    from e have "b = r" unfolding if_not_P [OF False] by (rule option.inject [THEN iffD1])
    with False show ?thesis by (simp add: not_less)
  qed
qed

lemma ack_newblock_total:
  assumes "unat n \<le> 2147483648" "unat b = 2 ^ j" "j \<le> 31"
  shows "\<exists>r. ack_newblock n b = Some r"
  using assms(2,3)
proof (induction "31 - j" arbitrary: j b)
  case 0
  then have "\<not> b < n" using assms(1) by (simp add: word_less_nat_alt)
  then show ?case by (simp add: ack_newblock.simps)
next
  case (Suc k)
  then have "2 ^ Suc j \<le> (2 :: nat) ^ 31" by (intro power_increasing) auto
  then have "unat (push_bit 1 b) = 2 ^ Suc j" unfolding unat_double Suc.prems(1) by simp
  then have "\<exists>r. ack_newblock n (push_bit 1 b) = Some r"
    by (intro Suc.hyps(1) [of "Suc j"]) (use Suc.hyps(2) Suc.prems in auto)
  then show ?case by (subst ack_newblock.simps) auto
qed

section \<open>The list\<close>

definition ack_ok :: "ikcpcb \<Rightarrow> bool" where
  "ack_ok kcp \<longleftrightarrow> unat (ackcount kcp) \<le> unat (ackblock kcp) \<and> unat (ackblock kcp) \<le> 2147483648 \<and>
     (case acklist kcp of None \<Rightarrow> ackblock kcp = 0 | Some l \<Rightarrow> length l = 2 * unat (ackblock kcp))"

text \<open>The pairs that the list stands for.\<close>

definition acks :: "ikcpcb \<Rightarrow> (u32 \<times> u32) list" where
  "acks kcp = (case acklist kcp of None \<Rightarrow> []
     | Some l \<Rightarrow> map (\<lambda>i. (l ! (2 * i), l ! (2 * i + 1))) [0..<unat (ackcount kcp)])"

lemma ack_copy_spec:
  assumes "\<forall>x \<in> set xs. 2 * x + 1 < length old \<and> 2 * x + 1 < length new"
  shows "\<exists>r. ack_copy xs old new = Some r \<and> length r = length new \<and>
    (\<forall>i. r ! i = (if i div 2 \<in> set xs then old ! i else new ! i))"
  using assms
proof (induction xs arbitrary: new)
  case (Cons x xs)
  let ?new = "new[x * 2 := old ! (x * 2), x * 2 + 1 := old ! (x * 2 + 1)]"
  have "\<exists>r. ack_copy xs old ?new = Some r \<and> length r = length ?new \<and>
      (\<forall>i. r ! i = (if i div 2 \<in> set xs then old ! i else ?new ! i))"
    by (rule Cons.IH) (use Cons.prems in auto)
  then obtain r where r: "ack_copy xs old ?new = Some r" "length r = length new"
    "\<And>i. r ! i = (if i div 2 \<in> set xs then old ! i else ?new ! i)" by auto
  have "?new ! i = (if i div 2 = x then old ! i else new ! i)" for i
  proof -
    have "i div 2 = x \<longleftrightarrow> i = x * 2 \<or> i = x * 2 + 1" by presburger
    then show ?thesis using Cons.prems by (auto simp: nth_list_update)
  qed
  with r Cons.prems show ?case by (auto simp: mult.commute)
qed simp


lemma ack_grow_spec:
  assumes "ack_ok kcp"
  shows "ensures (ack_grow (ackcount kcp + 1) kcp) (\<lambda>kcp'. \<exists>l b r. kcp' = kcp\<lparr>acklist := Some l,
      ackblock := b, requests := r\<rparr> \<and> ackcount kcp + 1 \<le> b \<and> unat b \<le> 2147483648 \<and>
      length l = 2 * unat b \<and> (\<forall>i < unat (ackcount kcp).
        (l ! (2 * i), l ! (2 * i + 1)) = acks kcp ! i))"
proof (rule ensuresI)
  fix kcp' assume "ack_grow (ackcount kcp + 1) kcp = Some kcp'"
  then obtain b ok where b: "ack_newblock (ackcount kcp + 1) 8 = Some b"
    and l: "(case acklist kcp of None \<Rightarrow> Some (map (kenv_word (kenv kcp) (requests kcp)) [0..<unat b * 2])
       | Some old \<Rightarrow> ack_copy [0..<unat (ackcount kcp)] old
           (map (kenv_word (kenv kcp) (requests kcp)) [0..<unat b * 2])) =
      Some ok" and kcp': "kcp' = kcp\<lparr>acklist := Some ok, ackblock := b, requests := requests kcp + 1\<rparr>"
    by (auto simp: ack_grow_def ikcp_malloc_def C_assert_def Option.bind_eq_Some_conv Let_def
        split: if_splits)
  have "doubling 8" by (auto simp: doubling_def intro!: exI [of _ 3])
  then have bb: "ackcount kcp + 1 \<le> b" "doubling b" using ack_newblock_spec [OF b] by simp_all
  have cb: "unat (ackcount kcp) \<le> unat b"
  proof -
    have "unat (ackcount kcp) \<le> 2147483648" using assms by (simp add: ack_ok_def)
    then have "unat (ackcount kcp + 1) = unat (ackcount kcp) + 1" by (simp only: unat_add_u32) simp
    with bb(1) show ?thesis by (simp add: word_le_nat_alt)
  qed
  have "length ok = 2 * unat b \<and> (\<forall>i < unat (ackcount kcp). (ok ! (2 * i), ok ! (2 * i + 1)) = acks kcp ! i)"
  proof (cases "acklist kcp")
    case None
    then show ?thesis using l assms by (auto simp: ack_ok_def mult.commute)
  next
    case (Some old)
    let ?new = "map (kenv_word (kenv kcp) (requests kcp)) [0..<unat b * 2]"
    have "\<exists>r. ack_copy [0..<unat (ackcount kcp)] old ?new = Some r \<and> length r = length ?new \<and>
        (\<forall>i. r ! i = (if i div 2 \<in> set [0..<unat (ackcount kcp)] then old ! i else ?new ! i))"
      by (rule ack_copy_spec) (use cb assms Some in \<open>auto simp: ack_ok_def\<close>)
    then show ?thesis using l Some by (auto simp: acks_def mult.commute)
  qed
  then show "\<exists>l b r. kcp' = kcp\<lparr>acklist := Some l, ackblock := b, requests := r\<rparr> \<and>
      ackcount kcp + 1 \<le> b \<and> unat b \<le> 2147483648 \<and> length l = 2 * unat b \<and>
      (\<forall>i < unat (ackcount kcp). (l ! (2 * i), l ! (2 * i + 1)) = acks kcp ! i)"
    using kcp' bb doubling_le by blast
qed


lemma unat_times_2: "unat (c :: u32) < 2147483648 \<Longrightarrow> unat (c * 2) = 2 * unat c"
proof -
  have "c * 2 = c + c" by simp
  then show "unat c < 2147483648 \<Longrightarrow> unat (c * 2) = 2 * unat c"
    by (simp only: unat_add_u32) simp
qed

lemma ack_store:
  fixes sn ts b c :: u32
  assumes "length l = 2 * unat b" "unat b \<le> 2147483648" "unat c < unat b"
    and "\<forall>i < unat c. (l ! (2 * i), l ! (2 * i + 1)) = a ! i" "length a = unat c"
  defines "l' \<equiv> l[2 * unat c := sn, 2 * unat c + 1 := ts]"
  shows "do { l \<leftarrow> array_set l (unat (c * 2) + 0) sn; l \<leftarrow> array_set l (unat (c * 2) + 1) ts; Some (f l) } =
      Some (f l')"
    and "length l' = length l"
    and "map (\<lambda>i. (l' ! (2 * i), l' ! (2 * i + 1))) [0..<unat (c + 1)] = a @ [(sn, ts)]"
proof -
  have c: "unat (c * 2) = 2 * unat c" by (rule unat_times_2) (use assms(2,3) in simp)
  show "do { l \<leftarrow> array_set l (unat (c * 2) + 0) sn; l \<leftarrow> array_set l (unat (c * 2) + 1) ts; Some (f l) } =
      Some (f l')"
    unfolding c l'_def using assms(1,3) by simp
  show "length l' = length l" by (simp add: l'_def)
  have "unat (c + 1) = Suc (unat c)" using assms(2,3) by (simp only: unat_add_u32) simp
  moreover have "l' ! (2 * i) = l ! (2 * i)" "l' ! (2 * i + 1) = l ! (2 * i + 1)" if "i < unat c" for i
    using that by (simp_all add: l'_def)
  moreover have "l' ! (2 * unat c) = sn" "l' ! (2 * unat c + 1) = ts"
    using assms(1,3) by (simp_all add: l'_def)
  moreover have "map (\<lambda>i. (l ! (2 * i), l ! (2 * i + 1))) [0..<unat c] = a"
    using assms(4,5) by (intro nth_equalityI) auto
  ultimately show "map (\<lambda>i. (l' ! (2 * i), l' ! (2 * i + 1))) [0..<unat (c + 1)] = a @ [(sn, ts)]"
    by (auto intro!: map_cong)
qed

lemma length_acks: "ack_ok kcp \<Longrightarrow> length (acks kcp) = unat (ackcount kcp)"
  by (auto simp: acks_def ack_ok_def unsigned_eq_0_iff split: option.splits)

lemma ack_push_spec:
  assumes "ack_ok kcp"
  shows "ensures (ikcp_ack_push sn ts kcp) (\<lambda>k'. ack_ok k' \<and> acks k' = acks kcp @ [(sn, ts)] \<and>
    (\<exists>l b r. k' = kcp\<lparr>acklist := Some l, ackblock := b, requests := r, ackcount := ackcount kcp + 1\<rparr>))"
proof -
  let ?c = "ackcount kcp"
  let ?Q = "\<lambda>k'. ack_ok k' \<and> acks k' = acks kcp @ [(sn, ts)] \<and>
    (\<exists>l b r. k' = kcp\<lparr>acklist := Some l, ackblock := b, requests := r, ackcount := ackcount kcp + 1\<rparr>)"
  have c: "unat (?c + 1) = unat ?c + 1"
    using assms by (simp only: unat_add_u32) (simp add: ack_ok_def)
  have store: "ensures (do { l \<leftarrow> array_set l (unat (?c * 2) + 0) sn;
        l \<leftarrow> array_set l (unat (?c * 2) + 1) ts;
        Some (kcp\<lparr>ackblock := b, requests := r, acklist := Some l, ackcount := ?c + 1\<rparr>) }) ?Q"
    if l: "length l = 2 * unat b" "unat b \<le> 2147483648" "unat ?c < unat b"
      "\<forall>i < unat ?c. (l ! (2 * i), l ! (2 * i + 1)) = acks kcp ! i" for l b r
  proof -
    let ?l = "l[2 * unat ?c := sn, 2 * unat ?c + 1 := ts]"
    let ?k = "kcp\<lparr>ackblock := b, requests := r, acklist := Some ?l, ackcount := ?c + 1\<rparr>"
    note st = ack_store [OF l length_acks [OF assms], of sn ts]
    have "ack_ok ?k" using st(2) l(1-3) by (simp add: ack_ok_def c)
    moreover have "acks ?k = acks kcp @ [(sn, ts)]"
      using st(3) by (simp add: acks_def)
    moreover have "?k = kcp\<lparr>acklist := Some ?l, ackblock := b, requests := r, ackcount := ?c + 1\<rparr>" by simp
    ultimately have "?Q ?k" by blast
    then show ?thesis unfolding st(1) [where f = "\<lambda>l. kcp\<lparr>ackblock := b, requests := r, acklist := Some l,
      ackcount := ?c + 1\<rparr>"] ensures_Some .
  qed
  show ?thesis
  proof (cases "ackblock kcp < ?c + 1")
    case True
    have "ensures (ikcp_ack_push sn ts kcp) ?Q = ensures (ack_grow (?c + 1) kcp) (\<lambda>k. ensures (do {
        l \<leftarrow> acklist k;
        let ptr = unat (ackcount k * 2);
        l \<leftarrow> array_set l (ptr + 0) sn;
        l \<leftarrow> array_set l (ptr + 1) ts;
        Some (k\<lparr>acklist := Some l, ackcount := ackcount k + 1\<rparr>) }) ?Q)"
      using True by (simp add: ikcp_ack_push_def ensures_bind Let_def)
    also have "\<dots>"
    proof (rule ensures_mono [OF ack_grow_spec [OF assms]])
      fix k assume "\<exists>l b r. k = kcp\<lparr>acklist := Some l, ackblock := b, requests := r\<rparr> \<and> ?c + 1 \<le> b \<and>
        unat b \<le> 2147483648 \<and> length l = 2 * unat b \<and>
        (\<forall>i < unat ?c. (l ! (2 * i), l ! (2 * i + 1)) = acks kcp ! i)"
      then obtain l b r where k: "k = kcp\<lparr>acklist := Some l, ackblock := b, requests := r\<rparr>"
        and l: "?c + 1 \<le> b" "unat b \<le> 2147483648" "length l = 2 * unat b"
          "\<forall>i < unat ?c. (l ! (2 * i), l ! (2 * i + 1)) = acks kcp ! i" by blast
      have "unat ?c < unat b" using l(1) c by (simp add: word_le_nat_alt)
      from store [OF l(3,2) this l(4), of r] show "ensures (do {
        l \<leftarrow> acklist k;
        let ptr = unat (ackcount k * 2);
        l \<leftarrow> array_set l (ptr + 0) sn;
        l \<leftarrow> array_set l (ptr + 1) ts;
        Some (k\<lparr>acklist := Some l, ackcount := ackcount k + 1\<rparr>) }) ?Q"
        by (simp add: k Let_def)
    qed
    finally show ?thesis .
  next
    case False
    then have lt: "unat ?c < unat (ackblock kcp)" using c by (simp add: word_less_nat_alt)
    then obtain l where l: "acklist kcp = Some l" "length l = 2 * unat (ackblock kcp)"
      using assms by (cases "acklist kcp") (auto simp: ack_ok_def)
    have "\<forall>i < unat ?c. (l ! (2 * i), l ! (2 * i + 1)) = acks kcp ! i" by (simp add: acks_def l(1))
    from store [OF l(2) _ lt this, of "requests kcp"] show ?thesis
      using False assms l(1) by (simp add: ikcp_ack_push_def Let_def ack_ok_def)
  qed
qed


lemma ack_copy_returns:
  "\<forall>x \<in> set xs. 2 * x + 1 < length old \<and> 2 * x + 1 < length new \<Longrightarrow> ack_copy xs old new \<noteq> None"
  using ack_copy_spec by fastforce

lemma ack_push_total:
  assumes "ack_ok kcp" "reliable kcp" "unat (ackcount kcp) < 2147483648"
  shows "\<exists>kcp'. ikcp_ack_push sn ts kcp = Some kcp' \<and> acks kcp' = acks kcp @ [(sn, ts)] \<and> ack_ok kcp'"
proof -
  let ?c = "ackcount kcp"
  have c: "unat (?c + 1) = unat ?c + 1" using assms(3) by (simp only: unat_add_u32) simp
  have grow: "ack_grow (?c + 1) kcp \<noteq> None" if "ackblock kcp < ?c + 1"
  proof -
    have "\<exists>r. ack_newblock (?c + 1) 8 = Some r"
      by (rule ack_newblock_total [where j = 3]) (use assms(3) c in simp_all)
    then obtain b where b: "ack_newblock (?c + 1) 8 = Some b" by blast
    have "doubling 8" by (auto simp: doubling_def intro!: exI [of _ 3])
    then have "?c + 1 \<le> b" using ack_newblock_spec [OF b] by simp
    then have cb: "unat ?c < unat b" using c by (simp add: word_le_nat_alt)
    show ?thesis
    proof (cases "acklist kcp")
      case None
      then show ?thesis using assms(2)
        by (simp add: ack_grow_def b ikcp_malloc_def reliable_def C_assert_def)
    next
      case (Some old)
      have "ack_copy [0..<unat ?c] old (map (kenv_word (kenv kcp) (requests kcp)) [0..<unat b * 2]) \<noteq> None"
        by (rule ack_copy_returns) (use cb assms(1) Some in \<open>auto simp: ack_ok_def\<close>)
      then show ?thesis using assms(2) Some
        by (auto simp: ack_grow_def b ikcp_malloc_def reliable_def C_assert_def)
    qed
  qed
  have "ikcp_ack_push sn ts kcp \<noteq> None"
  proof (cases "ackblock kcp < ?c + 1")
    case True
    then obtain k where k: "ack_grow (?c + 1) kcp = Some k" using grow by auto
    obtain l b r where "k = kcp\<lparr>acklist := Some l, ackblock := b, requests := r\<rparr>" "?c + 1 \<le> b"
      "length l = 2 * unat b"
      using ensuresD [OF ack_grow_spec [OF assms(1)] k] by blast
    then show ?thesis using True k c assms(3)
      by (simp add: ikcp_ack_push_def Let_def unat_times_2 word_le_nat_alt)
  next
    case False
    then have "unat ?c < unat (ackblock kcp)" using c by (simp add: word_less_nat_alt)
    then show ?thesis using False assms(1,3)
      by (cases "acklist kcp") (auto simp: ikcp_ack_push_def Let_def unat_times_2 ack_ok_def)
  qed
  then obtain kcp' where "ikcp_ack_push sn ts kcp = Some kcp'" by auto
  with ensuresD [OF ack_push_spec [OF assms(1)] this] show ?thesis by blast
qed

text \<open>
  Acknowledgements are queued without loss: while fewer than \<open>2 ^ 31\<close> are waiting and memory is
  available, \<open>ikcp_ack_push\<close> returns (its doubling loop ends) with the pair appended to those waiting and
  the block of the list large enough for them.
\<close>

theorem ack_push_appends:
  assumes "ack_ok kcp" "reliable kcp" "unat (ackcount kcp) < 2147483648"
  shows "\<exists>kcp'. ikcp_ack_push sn ts kcp = Some kcp' \<and> acks kcp' = acks kcp @ [(sn, ts)] \<and> ack_ok kcp'"
  by (rule ack_push_total [OF assms])

section \<open>Timers\<close>

definition timing_ok :: "ikcpcb \<Rightarrow> bool" where
  "timing_ok kcp \<longleftrightarrow> 10 \<le> interval kcp \<and> interval kcp \<le> 5000 \<and>
     (rx_minrto kcp = 30 \<or> rx_minrto kcp = 100) \<and> 30 \<le> rx_rto kcp \<and> rx_rto kcp \<le> 60000"

text \<open>Measuring a round trip changes three fields only.\<close>

definition no_rtt :: "ikcpcb \<Rightarrow> ikcpcb" where
  "no_rtt kcp = kcp\<lparr>rx_rttval := 0, rx_srtt := 0, rx_rto := 0\<rparr>"

lemma update_ack_frame: "ensures (ikcp_update_ack rtt kcp) (\<lambda>kcp'. no_rtt kcp' = no_rtt kcp)"
  by (simp add: ikcp_update_ack_def run_simps c_int_def no_rtt_def)

lemma ibound_range:
  "lower \<le> upper \<Longrightarrow> lower \<le> ibound lower x upper \<and> ibound lower x upper \<le> upper"
  by (auto simp: ibound_def imin_def imax_def)

lemma update_ack_rto:
  assumes "0 \<le> rx_minrto kcp" "rx_minrto kcp \<le> 60000"
  shows "ensures (ikcp_update_ack rtt kcp) (\<lambda>kcp'. rx_minrto kcp \<le> rx_rto kcp' \<and> rx_rto kcp' \<le> 60000)"
proof -
  have "rx_minrto kcp \<le> to_int (ibound (to_u32 (rx_minrto kcp)) x IKCP_RTO_MAX) \<and>
      to_int (ibound (to_u32 (rx_minrto kcp)) x IKCP_RTO_MAX) \<le> 60000" for x
  proof -
    have m: "unat (to_u32 (rx_minrto kcp)) = nat (rx_minrto kcp)" using assms by (simp add: unat_to_u32)
    let ?r = "ibound (to_u32 (rx_minrto kcp)) x IKCP_RTO_MAX"
    have "to_u32 (rx_minrto kcp) \<le> IKCP_RTO_MAX"
      using assms(2) by (simp add: word_le_nat_alt m IKCP_RTO_MAX_def)
    then have "nat (rx_minrto kcp) \<le> unat ?r" "unat ?r \<le> 60000"
      using ibound_range [of "to_u32 (rx_minrto kcp)" IKCP_RTO_MAX x]
      by (simp_all add: word_le_nat_alt m IKCP_RTO_MAX_def)
    moreover have "to_int ?r = int (unat ?r)" by (rule sint_unat) (use calculation in simp)
    ultimately show ?thesis using assms(1) by linarith
  qed
  then show ?thesis by (simp add: ikcp_update_ack_def run_simps c_int_def)
qed

end
