(* ===== verification/Kcp_Steps.thy ===== *)
theory Kcp_Steps
  imports Kcp_Acks
begin

text \<open>
  Every operation of KCP keeps the invariant \<open>kcp_ok\<close>: the sender's and the receiver's queues, the
  acknowledge list, the timers and the sizes.  Each of these five depends on its own group of fields, and
  the interface \<open>depends_on\<close> turns an operation's frame (the groups it leaves alone) into a step of the
  invariant's proof.
\<close>

section \<open>The invariant and the fields it reads\<close>

definition layout_ok :: "ikcpcb \<Rightarrow> bool" where
  "layout_ok kcp \<longleftrightarrow> 50 \<le> mtu kcp \<and> mtu kcp < 2147483648 \<and> mss kcp = mtu kcp - 24 \<and>
     buffer kcp = unat ((mtu kcp + 24) * 3)"

definition kcp_ok :: "ikcpcb \<Rightarrow> bool" where
  "kcp_ok kcp \<longleftrightarrow> send_ok kcp \<and> recv_ok kcp \<and> ack_ok kcp \<and> timing_ok kcp \<and> layout_ok kcp"

definition send_part where
  "send_part kcp = (snd_una kcp, snd_nxt kcp, snd_buf kcp, nsnd_buf kcp, snd_queue kcp, nsnd_que kcp, rmt_wnd kcp, conv kcp)"

definition recv_part where
  "recv_part kcp = (rcv_nxt kcp, rcv_wnd kcp, rcv_buf kcp, nrcv_buf kcp, rcv_queue kcp, nrcv_que kcp)"

definition ack_part where
  "ack_part kcp = (acklist kcp, ackcount kcp, ackblock kcp)"

definition time_part where
  "time_part kcp = (interval kcp, rx_minrto kcp, rx_rto kcp)"

definition layout_part where
  "layout_part kcp = (mtu kcp, mss kcp, buffer kcp)"

lemmas part_defs = send_part_def recv_part_def ack_part_def time_part_def layout_part_def

locale depends_on =
  fixes part :: "ikcpcb \<Rightarrow> 'a" and inv :: "ikcpcb \<Rightarrow> bool"
  assumes part_inv: "part a = part b \<Longrightarrow> inv a \<Longrightarrow> inv b"
begin

lemma carry: "part b = part a \<Longrightarrow> inv a \<Longrightarrow> inv b"
  by (rule part_inv [OF sym])

lemma ensures_keeps:
  assumes "ensures m (\<lambda>kcp'. part kcp' = part kcp)" "inv kcp"
  shows "ensures m inv"
  by (rule ensures_mono [OF assms(1)]) (use assms(2) carry in blast)

end

interpretation send: depends_on send_part send_ok
  by unfold_locales (auto simp: send_part_def send_ok_def send_core_def)

interpretation recv: depends_on recv_part recv_ok
  by unfold_locales (auto simp: recv_part_def recv_ok_def)

interpretation ack: depends_on ack_part ack_ok
  by unfold_locales (auto simp: ack_part_def ack_ok_def split: option.splits)

interpretation time: depends_on time_part timing_ok
  by unfold_locales (auto simp: time_part_def timing_ok_def)

interpretation layout: depends_on layout_part layout_ok
  by unfold_locales (auto simp: layout_part_def layout_ok_def)

text \<open>The groups an operation may leave alone, and what follows for the whole invariant.\<close>

lemma kcp_ok_send:
  "kcp_ok kcp \<Longrightarrow> send_ok kcp' \<Longrightarrow> recv_part kcp' = recv_part kcp \<Longrightarrow> ack_part kcp' = ack_part kcp \<Longrightarrow>
   time_part kcp' = time_part kcp \<Longrightarrow> layout_part kcp' = layout_part kcp \<Longrightarrow> kcp_ok kcp'"
  using recv.carry [of kcp' kcp] ack.carry [of kcp' kcp] time.carry [of kcp' kcp] layout.carry [of kcp' kcp]
  by (simp add: kcp_ok_def)

lemma kcp_ok_recv:
  "kcp_ok kcp \<Longrightarrow> recv_ok kcp' \<Longrightarrow> send_part kcp' = send_part kcp \<Longrightarrow> ack_part kcp' = ack_part kcp \<Longrightarrow>
   time_part kcp' = time_part kcp \<Longrightarrow> layout_part kcp' = layout_part kcp \<Longrightarrow> kcp_ok kcp'"
  using send.carry [of kcp' kcp] ack.carry [of kcp' kcp] time.carry [of kcp' kcp] layout.carry [of kcp' kcp]
  by (simp add: kcp_ok_def)

lemma kcp_ok_ack:
  "kcp_ok kcp \<Longrightarrow> ack_ok kcp' \<Longrightarrow> send_part kcp' = send_part kcp \<Longrightarrow> recv_part kcp' = recv_part kcp \<Longrightarrow>
   time_part kcp' = time_part kcp \<Longrightarrow> layout_part kcp' = layout_part kcp \<Longrightarrow> kcp_ok kcp'"
  using send.carry [of kcp' kcp] recv.carry [of kcp' kcp] time.carry [of kcp' kcp] layout.carry [of kcp' kcp]
  by (simp add: kcp_ok_def)

lemma kcp_ok_time:
  "kcp_ok kcp \<Longrightarrow> timing_ok kcp' \<Longrightarrow> send_part kcp' = send_part kcp \<Longrightarrow> recv_part kcp' = recv_part kcp \<Longrightarrow>
   ack_part kcp' = ack_part kcp \<Longrightarrow> layout_part kcp' = layout_part kcp \<Longrightarrow> kcp_ok kcp'"
  using send.carry [of kcp' kcp] recv.carry [of kcp' kcp] ack.carry [of kcp' kcp] layout.carry [of kcp' kcp]
  by (simp add: kcp_ok_def)

lemma kcp_ok_layout:
  "kcp_ok kcp \<Longrightarrow> layout_ok kcp' \<Longrightarrow> send_part kcp' = send_part kcp \<Longrightarrow> recv_part kcp' = recv_part kcp \<Longrightarrow>
   ack_part kcp' = ack_part kcp \<Longrightarrow> time_part kcp' = time_part kcp \<Longrightarrow> kcp_ok kcp'"
  using send.carry [of kcp' kcp] recv.carry [of kcp' kcp] ack.carry [of kcp' kcp] time.carry [of kcp' kcp]
  by (simp add: kcp_ok_def)

lemma kcp_ok_same:
  "kcp_ok kcp \<Longrightarrow> send_part kcp' = send_part kcp \<Longrightarrow> recv_part kcp' = recv_part kcp \<Longrightarrow>
   ack_part kcp' = ack_part kcp \<Longrightarrow> time_part kcp' = time_part kcp \<Longrightarrow> layout_part kcp' = layout_part kcp \<Longrightarrow>
   kcp_ok kcp'"
  using send.carry [of kcp' kcp] recv.carry [of kcp' kcp] ack.carry [of kcp' kcp] time.carry [of kcp' kcp] layout.carry [of kcp' kcp]
  by (simp add: kcp_ok_def)

section \<open>Creation and configuration\<close>

lemma create_ok: "ensures (ikcp_create E c) kcp_ok"
  by (simp add: ikcp_create_def ensures_if Let_def kcp_constants kcp_ok_def send_ok_def send_core_def
      recv_ok_def ack_ok_def timing_ok_def layout_ok_def)

lemma setoutput_ok: "kcp_ok kcp \<Longrightarrow> kcp_ok (ikcp_setoutput f kcp)"
  by (erule kcp_ok_same) (simp_all add: ikcp_setoutput_def part_defs)

lemma unat_int_arg: "0 \<le> i \<Longrightarrow> i < 2147483648 \<Longrightarrow> unat (to_u32 i) = nat i"
  by (simp add: unat_to_u32)

lemma setmtu_ok:
  assumes "kcp_ok kcp" "m < 2147483648"
  shows "kcp_ok (snd (ikcp_setmtu m kcp))"
proof -
  have "50 \<le> m \<Longrightarrow> unat (to_u32 m) = nat m" using assms(2) by (simp add: unat_to_u32)
  then have "50 \<le> m \<Longrightarrow> 50 \<le> to_u32 m \<and> to_u32 m < 2147483648"
    using assms(2) by (simp add: word_le_nat_alt word_less_nat_alt le_nat_iff nat_less_iff)
  then show ?thesis
    by (intro kcp_ok_layout [OF assms(1)]) (use assms(1) in \<open>auto simp: ikcp_setmtu_def ikcp_malloc_def
        Let_def IKCP_OVERHEAD_def part_defs layout_ok_def kcp_ok_def\<close>)
qed

lemma clamp_interval_range: "10 \<le> to_u32 (clamp_interval i) \<and> to_u32 (clamp_interval i) \<le> 5000"
proof -
  have "10 \<le> clamp_interval i" "clamp_interval i \<le> 5000" by (simp_all add: clamp_interval_def)
  then show ?thesis by (simp add: word_le_nat_alt unat_to_u32 le_nat_iff)
qed

lemma interval_ok: "kcp_ok kcp \<Longrightarrow> kcp_ok (snd (ikcp_interval i kcp))"
  by (rule kcp_ok_time) (use clamp_interval_range [of i] in
    \<open>simp_all add: ikcp_interval_def timing_ok_def part_defs kcp_ok_def\<close>)

lemma nodelay_ok:
  assumes "kcp_ok kcp"
  shows "kcp_ok (snd (ikcp_nodelay nd i resend nc kcp))"
proof (rule kcp_ok_time [OF assms])
  show "timing_ok (snd (ikcp_nodelay nd i resend nc kcp))"
    using assms clamp_interval_range [of i]
    by (simp add: ikcp_nodelay_def Let_def timing_ok_def kcp_ok_def IKCP_RTO_NDL_def IKCP_RTO_MIN_def)
qed (simp_all add: ikcp_nodelay_def Let_def part_defs)

lemma wndsize_ok:
  assumes "kcp_ok kcp" "r < 2147483648"
  shows "kcp_ok (snd (ikcp_wndsize s r kcp))"
proof (rule kcp_ok_recv [OF assms(1)])
  have "0 < r \<Longrightarrow> unat (to_u32 r) = nat r" using assms(2) by (simp add: unat_to_u32)
  then have "0 < r \<Longrightarrow> 128 \<le> imax (to_u32 r) 128 \<and> imax (to_u32 r) 128 < 2147483648"
    using assms(2) by (simp add: imax_def word_le_nat_alt word_less_nat_alt nat_less_iff)
  then show "recv_ok (snd (ikcp_wndsize s r kcp))"
    using assms(1) by (auto simp: ikcp_wndsize_def Let_def IKCP_WND_RCV_def kcp_ok_def recv_ok_def)
qed (auto simp: ikcp_wndsize_def Let_def part_defs)

section \<open>Sending and receiving\<close>

lemma queue_segment_ok:
  assumes "kcp_ok kcp" "seg_ok seg"
  shows "kcp_ok (kcp\<lparr>requests := r, snd_queue := snd_queue kcp @ [seg], nsnd_que := nsnd_que kcp + 1\<rparr>)"
  by (rule kcp_ok_send [OF assms(1)])
    (use assms in \<open>auto simp: part_defs kcp_ok_def send_ok_def send_core_def\<close>)

lemma segment_new_Some:
  "ikcp_segment_new n kcp = (Some seg, kcp') \<Longrightarrow>
     seg = fresh_segment (kenv kcp) (requests kcp) n \<and> kcp' = kcp\<lparr>requests := requests kcp + 1\<rparr>"
  by (auto simp: ikcp_segment_new_def ikcp_malloc_def split: if_splits)

lemma seg_ok_fragment:
  assumes "length d = nat n" "0 \<le> n" "n < 2147483648"
  shows "seg_ok (seg\<lparr>seg_data := d, seg_len := to_u32 n, seg_frg := f\<rparr>)"
  using assms unat_to_u32 [of n] by (simp add: seg_ok_def word_less_nat_alt nat_less_iff)

lemma take_bytes_length: "take_bytes n b = Some d \<Longrightarrow> 0 \<le> n \<and> length d = nat n"
  by (auto simp: take_bytes_def split: if_splits)

lemma send_fragments_ok:
  "kcp_ok kcp \<Longrightarrow> ensures (send_fragments k buf len sent kcp) (\<lambda>(r, kcp'). kcp_ok kcp')"
proof (induction k arbitrary: buf len sent kcp)
  case (Suc k)
  show ?case
  proof (rule ensuresI)
    fix x assume e: "send_fragments (Suc k) buf len sent kcp = Some x"
    let ?n = "if to_int (mss kcp) < len then to_int (mss kcp) else len"
    have n: "?n < 2147483648" using sint_range(2) [of "mss kcp"] by simp
    from e obtain seg kcp1 d where a: "0 \<le> ?n" "ikcp_segment_new (nat ?n) kcp = (Some seg, kcp1)"
      "(case buf of Some b \<Rightarrow> if 0 < len then take_bytes ?n b else Some (seg_data seg)
        | None \<Rightarrow> Some (seg_data seg)) = Some d"
      and r: "send_fragments k (map_option (drop (nat ?n)) buf) (len - ?n) (sent + ?n)
        (kcp1\<lparr>snd_queue := snd_queue kcp1 @ [seg\<lparr>seg_data := d, seg_len := to_u32 ?n,
           seg_frg := (if stream kcp1 = 0 then of_nat k else 0)\<rparr>], nsnd_que := nsnd_que kcp1 + 1\<rparr>) = Some x"
      by (auto simp: C_assert_def Option.bind_eq_Some_conv Let_def split: prod.splits if_split_asm)
    note new = segment_new_Some [OF a(2)]
    have "length d = nat ?n"
      using a(3) new take_bytes_length by (auto split: option.splits if_split_asm)
    then have "seg_ok (seg\<lparr>seg_data := d, seg_len := to_u32 ?n,
        seg_frg := (if stream kcp1 = 0 then of_nat k else 0)\<rparr>)"
      by (rule seg_ok_fragment [OF _ a(1) n])
    from queue_segment_ok [OF Suc.prems this, of "requests kcp1"] new
    have "kcp_ok (kcp1\<lparr>snd_queue := snd_queue kcp1 @ [seg\<lparr>seg_data := d, seg_len := to_u32 ?n,
        seg_frg := (if stream kcp1 = 0 then of_nat k else 0)\<rparr>], nsnd_que := nsnd_que kcp1 + 1\<rparr>)"
      by simp
    from ensuresD [OF Suc.IH [OF this] r] show "case x of (r, kcp') \<Rightarrow> kcp_ok kcp'" .
  qed
qed simp

lemma extend_segment_ok:
  assumes "kcp_ok kcp" "snd_queue kcp \<noteq> []" "seg_ok seg"
  shows "kcp_ok (kcp\<lparr>requests := r, snd_queue := butlast (snd_queue kcp) @ [seg]\<rparr>)"
  by (rule kcp_ok_send [OF assms(1)])
    (use assms in \<open>auto simp: part_defs kcp_ok_def send_ok_def send_core_def in_set_butlastD\<close>)

lemma send_extend_ok:
  assumes "kcp_ok kcp"
  shows "ensures (send_extend buf len kcp) (\<lambda>(s, b, l, kcp'). kcp_ok kcp')"
proof (cases "snd_queue kcp = [] \<or> \<not> seg_len (last (snd_queue kcp)) < mss kcp")
  case True
  then show ?thesis using assms by (auto simp: send_extend_def Let_def)
next
  case False
  let ?old = "last (snd_queue kcp)"
  let ?e = "if len < to_int (mss kcp - seg_len ?old) then len else to_int (mss kcp - seg_len ?old)"
  have lt: "unat (seg_len ?old) < unat (mss kcp)" using False by (simp add: word_less_nat_alt)
  have mss: "unat (mss kcp) < 2147483648"
  proof -
    have "mtu kcp < 2147483648" "50 \<le> mtu kcp" "mss kcp = mtu kcp - 24"
      using assms by (simp_all add: kcp_ok_def layout_ok_def)
    then show ?thesis by (simp add: word_less_nat_alt word_le_nat_alt unat_sub_u32)
  qed
  show ?thesis
  proof (rule ensuresI)
    fix x assume "send_extend buf len kcp = Some x"
    with False obtain seg kcp1 d b where e: "0 \<le> ?e"
      and new: "ikcp_segment_new (nat (sint (seg_len ?old + to_u32 ?e))) kcp = (Some seg, kcp1)"
      and d: "seg_payload ?old = Some d"
      and b: "(case buf of None \<Rightarrow> Some (take (nat ?e) (drop (length d) (seg_data seg)))
            | Some b \<Rightarrow> take_bytes ?e b) = Some b"
      and x: "x = (?e, map_option (drop (nat ?e)) buf, len - ?e, kcp1\<lparr>snd_queue := butlast (snd_queue kcp1) @
            [seg\<lparr>seg_data := d @ b, seg_len := seg_len ?old + to_u32 ?e, seg_frg := 0\<rparr>]\<rparr>)"
      by (auto simp: send_extend_def C_assert_def Option.bind_eq_Some_conv Let_def
          split: prod.splits if_split_asm)
    have cap: "to_int (mss kcp - seg_len ?old) = int (unat (mss kcp)) - int (unat (seg_len ?old))"
    proof -
      have "unat (mss kcp - seg_len ?old) = unat (mss kcp) - unat (seg_len ?old)"
        using lt by (simp only: unat_sub_u32) simp
      then show ?thesis using lt mss sint_unat [of "mss kcp - seg_len ?old"] by (simp add: of_nat_diff)
    qed
    have le: "?e \<le> int (unat (mss kcp)) - int (unat (seg_len ?old))" unfolding cap by simp
    have ue: "unat (to_u32 ?e) = nat ?e"
      by (rule unat_to_u32 [OF e]) (use le mss in linarith)
    have sum: "unat (seg_len ?old + to_u32 ?e) = unat (seg_len ?old) + nat ?e"
      unfolding unat_add_u32 ue by (rule mod_less) (use le mss e in linarith)
    have sum': "sint (seg_len ?old + to_u32 ?e) = int (unat (seg_len ?old) + nat ?e)"
      using sint_unat [of "seg_len ?old + to_u32 ?e"] le mss e unfolding sum by linarith
    have ld: "length d = unat (seg_len ?old)"
      using d by (auto simp: seg_payload_def split: if_splits)
    note seg = segment_new_Some [OF new]
    have "length (seg_data seg) = unat (seg_len ?old) + nat ?e"
      unfolding conjunct1 [OF seg] sum' length_fresh_segment nat_int by (rule refl)
    then have lb: "length b = nat ?e"
      using b ld take_bytes_length by (cases buf) auto
    have "unat (seg_len ?old + to_u32 ?e) < 2147483648" unfolding sum using le mss e by linarith
    then have "seg_ok (seg\<lparr>seg_data := d @ b, seg_len := seg_len ?old + to_u32 ?e, seg_frg := 0\<rparr>)"
      using ld lb sum by (simp add: seg_ok_def word_less_nat_alt)
    from extend_segment_ok [OF assms _ this, of "requests kcp + 1"] False seg x
    show "case x of (s, b, l, kcp') \<Rightarrow> kcp_ok kcp'" by simp
  qed
qed

lemma send_rest_ok: "kcp_ok kcp \<Longrightarrow> ensures (send_rest buf len sent kcp) (\<lambda>(r, kcp'). kcp_ok kcp')"
  using send_fragments_ok by (simp add: send_rest_def Let_def)

lemma send_call_ok: "kcp_ok kcp \<Longrightarrow> ensures (ikcp_send buf len kcp) (\<lambda>(r, kcp'). kcp_ok kcp')"
  unfolding ikcp_send_def
  by (auto simp: run_simps send_rest_ok intro!: ensures_mono [OF send_extend_ok])

text \<open>Operations that touch the receiver's queues only.\<close>

definition only_recv :: "ikcpcb \<Rightarrow> ikcpcb \<Rightarrow> bool" where
  "only_recv kcp kcp' \<longleftrightarrow> send_part kcp' = send_part kcp \<and> ack_part kcp' = ack_part kcp \<and>
     time_part kcp' = time_part kcp \<and> layout_part kcp' = layout_part kcp"

lemma rcv_move_only: "only_recv kcp (rcv_move kcp)"
proof (induction kcp rule: rcv_move.induct)
  case (1 kcp)
  then show ?case
    by (subst rcv_move.simps) (auto simp: only_recv_def part_defs split: list.splits)
qed

lemma only_recv_ok: "kcp_ok kcp \<Longrightarrow> only_recv kcp kcp' \<Longrightarrow> recv_ok kcp' \<Longrightarrow> kcp_ok kcp'"
  by (rule kcp_ok_recv) (simp_all add: only_recv_def)

lemma recv_call_ok: "kcp_ok kcp \<Longrightarrow> ensures (ikcp_recv cap n kcp) (\<lambda>(r, out, kcp'). kcp_ok kcp')"
proof -
  assume ok: "kcp_ok kcp"
  then have r: "recv_ok kcp" by (simp add: kcp_ok_def)
  have after: "only_recv kcp (recv_recover b (rcv_move k))"
    if "k = kcp\<lparr>rcv_queue := q, nrcv_que := m\<rparr>" for b k q m
    using rcv_move_only [of k] that by (simp add: recv_recover_def only_recv_def part_defs)
  have m: "ensures (recv_merge cap b (rcv_queue kcp) [] 0 kcp)
      (\<lambda>(out, n, k). \<exists>q m. k = kcp\<lparr>rcv_queue := q, nrcv_que := m\<rparr>)" for b
    by (rule ensures_mono [OF recv_merge_frame [OF r refl]]) blast
  have "ensures (ikcp_recv cap n kcp) (\<lambda>(r, out, kcp'). only_recv kcp kcp')"
    by (auto simp: ikcp_recv_def run_simps Let_def c_int_def only_recv_def [of kcp kcp]
        intro!: ensures_mono [OF m] intro: after)
  from ensures_conj [THEN iffD2, OF conjI [OF this recv_recv_ok [OF r]]] show ?thesis
    by (rule ensures_mono) (use only_recv_ok [OF ok] in auto)
qed

end
