(* ===== verification/Kcp_Input_Steps.thy ===== *)
theory Kcp_Input_Steps
  imports Kcp_Steps
begin

text \<open>\<open>ikcp_input\<close> keeps the invariant, whatever bytes the packet holds.\<close>

section \<open>Acknowledgements\<close>

definition only_send :: "ikcpcb \<Rightarrow> ikcpcb \<Rightarrow> bool" where
  "only_send kcp kcp' \<longleftrightarrow> recv_part kcp' = recv_part kcp \<and> ack_part kcp' = ack_part kcp \<and>
     time_part kcp' = time_part kcp \<and> layout_part kcp' = layout_part kcp"

lemma only_send_ok: "kcp_ok kcp \<Longrightarrow> only_send kcp kcp' \<Longrightarrow> send_ok kcp' \<Longrightarrow> kcp_ok kcp'"
  by (rule kcp_ok_send) (simp_all add: only_send_def)

lemma only_send_trans: "only_send a b \<Longrightarrow> only_send b c \<Longrightarrow> only_send a c"
  by (simp add: only_send_def)

lemma shrink_only: "only_send kcp (ikcp_shrink_buf kcp)"
  by (simp add: ikcp_shrink_buf_def only_send_def part_defs split: list.split)

lemma parse_una_only: "only_send kcp (ikcp_parse_una una kcp)"
  by (simp add: ikcp_parse_una_def only_send_def part_defs split: prod.split)

lemma parse_ack_only: "only_send kcp (ikcp_parse_ack sn kcp)"
  by (simp add: ikcp_parse_ack_def only_send_def part_defs split: prod.split)

lemma parse_fastack_only: "only_send kcp (ikcp_parse_fastack sn ts kcp)"
  by (simp add: ikcp_parse_fastack_def only_send_def part_defs)

lemma rmt_wnd_core: "send_ok kcp \<Longrightarrow> send_core (kcp\<lparr>rmt_wnd := ucast (w :: 16 word)\<rparr>)"
proof -
  have "unat w < 65536" using unsigned_less [where 'a = nat and w = w] by simp
  then have "(ucast w :: u32) \<le> 65535" by (simp add: word_le_nat_alt unsigned_ucast_eq take_bit_nat_eq_self)
  then show "send_ok kcp \<Longrightarrow> send_core (kcp\<lparr>rmt_wnd := ucast w\<rparr>)"
    by (auto simp: send_ok_def send_core_def)
qed

text \<open>The window and the cumulative acknowledgement of any segment.\<close>

lemma input_una_ok:
  assumes "kcp_ok kcp"
  shows "kcp_ok (ikcp_shrink_buf (ikcp_parse_una una (kcp\<lparr>rmt_wnd := ucast (w :: 16 word)\<rparr>)))"
proof -
  let ?k = "kcp\<lparr>rmt_wnd := ucast w\<rparr>"
  have "only_send kcp ?k" by (simp add: only_send_def part_defs)
  then have "only_send kcp (ikcp_shrink_buf (ikcp_parse_una una ?k))"
    using parse_una_only shrink_only only_send_trans by blast
  moreover have "send_ok (ikcp_shrink_buf (ikcp_parse_una una ?k))"
    using assms by (intro shrink_buf_ok parse_una_core rmt_wnd_core) (simp add: kcp_ok_def)
  ultimately show ?thesis by (rule only_send_ok [OF assms])
qed

lemma no_rtt_parts:
  assumes "no_rtt kcp' = no_rtt kcp"
  shows "send_part kcp' = send_part kcp" "recv_part kcp' = recv_part kcp" "ack_part kcp' = ack_part kcp"
    "layout_part kcp' = layout_part kcp" "interval kcp' = interval kcp" "rx_minrto kcp' = rx_minrto kcp"
    "conv kcp' = conv kcp"
  using arg_cong [OF assms, of send_part] arg_cong [OF assms, of recv_part]
    arg_cong [OF assms, of ack_part] arg_cong [OF assms, of layout_part]
    arg_cong [OF assms, of interval] arg_cong [OF assms, of rx_minrto] arg_cong [OF assms, of conv]
  by (simp_all add: no_rtt_def part_defs)

lemma update_ack_ok:
  assumes "kcp_ok kcp"
  shows "ensures (ikcp_update_ack rtt kcp) (\<lambda>kcp'. kcp_ok kcp' \<and> conv kcp' = conv kcp)"
proof -
  have t: "timing_ok kcp" using assms by (simp add: kcp_ok_def)
  have "ensures (ikcp_update_ack rtt kcp) (\<lambda>kcp'. rx_minrto kcp \<le> rx_rto kcp' \<and> rx_rto kcp' \<le> 60000)"
    by (rule update_ack_rto) (use t in \<open>auto simp: timing_ok_def\<close>)
  from ensures_conj [THEN iffD2, OF conjI [OF this update_ack_frame]] show ?thesis
  proof (rule ensures_mono)
    fix k assume k: "(rx_minrto kcp \<le> rx_rto k \<and> rx_rto k \<le> 60000) \<and> no_rtt k = no_rtt kcp"
    note parts = no_rtt_parts [of k kcp, OF conjunct2 [OF k]]
    have "timing_ok k" using t k parts by (auto simp: timing_ok_def)
    with kcp_ok_time [OF assms this] parts show "kcp_ok k \<and> conv k = conv kcp" by simp
  qed
qed

lemma input_ack_ok:
  assumes "kcp_ok kcp"
  shows "ensures (input_ack h kcp) (\<lambda>kcp'. kcp_ok kcp' \<and> conv kcp' = conv kcp)"
proof -
  have ack: "kcp_ok (ikcp_shrink_buf (ikcp_parse_ack sn k))" if "kcp_ok k" for k sn
  proof (rule only_send_ok [OF that])
    show "only_send k (ikcp_shrink_buf (ikcp_parse_ack sn k))"
      using parse_ack_only shrink_only only_send_trans by blast
    show "send_ok (ikcp_shrink_buf (ikcp_parse_ack sn k))"
      using that by (intro shrink_buf_ok parse_ack_core) (simp add: kcp_ok_def send_ok_def)
  qed
  have conv: "conv (ikcp_shrink_buf (ikcp_parse_ack sn k)) = conv k" for sn k
    by (simp add: ikcp_shrink_buf_def ikcp_parse_ack_def split: list.split prod.split)
  show ?thesis using assms
    by (auto simp: input_ack_def run_simps ack conv intro!: ensures_mono [OF update_ack_ok [OF assms]])
qed

section \<open>Pushed data\<close>

lemma parse_data_only: "only_recv kcp (ikcp_parse_data seg kcp)"
proof -
  have "only_recv kcp (rcv_move (kcp\<lparr>rcv_buf := b, nrcv_buf := n\<rparr>))" for b n
    using rcv_move_only [of "kcp\<lparr>rcv_buf := b, nrcv_buf := n\<rparr>"] by (simp add: only_recv_def part_defs)
  moreover have "only_recv kcp kcp" by (simp add: only_recv_def)
  ultimately show ?thesis using rcv_move_only [of kcp]
    by (simp add: ikcp_parse_data_def Let_def split: prod.split)
qed

lemma rcv_move_conv: "conv (rcv_move kcp) = conv kcp"
  by (induction kcp rule: rcv_move.induct) (subst rcv_move.simps, auto split: list.split)

lemma input_segment_spec:
  assumes "0 \<le> to_int (h_len h)"
  shows "ensures (input_segment h data kcp) (\<lambda>(seg, kcp'). seg_ok seg \<and> kcp' = kcp\<lparr>requests := requests kcp + 1\<rparr>)"
proof (rule ensuresI)
  fix x assume "input_segment h data kcp = Some x"
  then obtain seg kcp1 d where "ikcp_segment_new (unat (h_len h)) kcp = (Some seg, kcp1)"
    and d: "take_bytes (uint (h_len h)) data = Some d"
    and x: "x = (seg\<lparr>seg_conv := h_conv h, seg_cmd := ucast (h_cmd h), seg_frg := ucast (h_frg h),
        seg_wnd := ucast (h_wnd h), seg_ts := h_ts h, seg_sn := h_sn h, seg_una := h_una h,
        seg_len := h_len h, seg_data := d\<rparr>, kcp1)"
    by (auto simp: input_segment_def Option.bind_eq_Some_conv Let_def split: prod.splits)
  then have "kcp1 = kcp\<lparr>requests := requests kcp + 1\<rparr>" using segment_new_Some by blast
  moreover have "length d = unat (h_len h)"
    using take_bytes_length [OF d] by simp
  ultimately show "case x of (seg, kcp') \<Rightarrow> seg_ok seg \<and> kcp' = kcp\<lparr>requests := requests kcp + 1\<rparr>"
    using x assms by (simp add: seg_ok_def sint_nonneg word_less_nat_alt)
qed

lemma input_push_ok:
  assumes "kcp_ok kcp" "0 \<le> to_int (h_len h)"
  shows "ensures (input_push h data kcp) (\<lambda>kcp'. kcp_ok kcp' \<and> conv kcp' = conv kcp)"
proof -
  have push: "ensures (ikcp_ack_push sn ts kcp) (\<lambda>k. kcp_ok k \<and> conv k = conv kcp)" for sn ts
  proof (rule ensures_mono [OF ack_push_spec [of kcp sn ts]])
    show "ack_ok kcp" using assms by (simp add: kcp_ok_def)
    fix k assume "ack_ok k \<and> acks k = acks kcp @ [(sn, ts)] \<and> (\<exists>l b r. k = kcp\<lparr>acklist := Some l,
      ackblock := b, requests := r, ackcount := ackcount kcp + 1\<rparr>)"
    then obtain l b r where "ack_ok k" "k = kcp\<lparr>acklist := Some l, ackblock := b, requests := r,
      ackcount := ackcount kcp + 1\<rparr>" by blast
    with kcp_ok_ack [OF assms(1) this(1)] show "kcp_ok k \<and> conv k = conv kcp" by (simp add: part_defs)
  qed
  have data: "ensures (input_segment h data k) (\<lambda>(seg, k'). kcp_ok (ikcp_parse_data seg k') \<and>
      conv (ikcp_parse_data seg k') = conv k)" if "kcp_ok k" for k
  proof (rule ensures_mono [OF input_segment_spec [OF assms(2)]])
    fix x assume "case x of (seg, k') \<Rightarrow> seg_ok seg \<and> k' = k\<lparr>requests := requests k + 1\<rparr>"
    then obtain seg where x: "x = (seg, k\<lparr>requests := requests k + 1\<rparr>)" "seg_ok seg" by auto
    let ?k = "k\<lparr>requests := requests k + 1\<rparr>"
    have ok: "kcp_ok ?k" by (rule kcp_ok_same [OF that]) (simp_all add: part_defs)
    then have "recv_ok ?k" by (simp add: kcp_ok_def)
    have "kcp_ok (ikcp_parse_data seg ?k)"
      by (rule only_recv_ok [OF ok parse_data_only parse_data_ok [OF \<open>recv_ok ?k\<close> x(2)]])
    moreover have "conv (ikcp_parse_data seg ?k) = conv k"
      by (simp add: ikcp_parse_data_def Let_def rcv_move_conv split: prod.split)
    ultimately show "case x of (seg, k') \<Rightarrow> kcp_ok (ikcp_parse_data seg k') \<and>
        conv (ikcp_parse_data seg k') = conv k" by (simp add: x(1))
  qed
  show ?thesis using assms(1)
    by (auto simp: input_push_def run_simps intro!: ensures_mono [OF push] ensures_mono [OF data])
qed

section \<open>The packet\<close>

lemma input_segment_body_ok:
  assumes "kcp_ok kcp" "0 \<le> to_int (h_len h)"
  shows "ensures (input_segment_body h data mark kcp) (\<lambda>(mark, kcp'). kcp_ok kcp' \<and> conv kcp' = conv kcp)"
proof -
  let ?k = "ikcp_shrink_buf (ikcp_parse_una (h_una h) (kcp\<lparr>rmt_wnd := ucast (h_wnd h)\<rparr>))"
  have ok: "kcp_ok ?k" by (rule input_una_ok [OF assms(1)])
  have conv: "conv ?k = conv kcp"
    by (simp add: ikcp_shrink_buf_def ikcp_parse_una_def split: list.split prod.split)
  have "kcp_ok (?k\<lparr>probe := p\<rparr>)" for p by (rule kcp_ok_same [OF ok]) (simp_all add: part_defs)
  then show ?thesis unfolding input_segment_body_def Let_def
    using input_ack_ok [OF ok, of h] input_push_ok [OF ok assms(2), of data] ok conv
    by (simp add: run_simps)
qed

text \<open>
  Any property of the control block that the treatment of one segment, the fast acknowledgements and the
  congestion window keep is kept by \<open>ikcp_input\<close>.
\<close>

locale input_invariant =
  fixes I :: "ikcpcb \<Rightarrow> bool"
  assumes body: "I kcp \<Longrightarrow> 0 \<le> to_int (h_len h) \<Longrightarrow>
      ensures (input_segment_body h data mark kcp) (\<lambda>(m, k). I k)"
    and fastack: "I kcp \<Longrightarrow> I (ikcp_parse_fastack sn ts kcp)"
    and window: "I kcp \<Longrightarrow> I (kcp\<lparr>cwnd := c, incr := i\<rparr>)"
begin

lemma loop_keeps:
  "I kcp \<Longrightarrow> ensures (input_loop data n mark kcp)
    (\<lambda>r. case r of Inl (e, kcp') \<Rightarrow> I kcp' | Inr (m, kcp') \<Rightarrow> I kcp')"
proof (induction data n mark kcp rule: input_loop.induct)
  case (1 data n mark kcp)
  let ?Q = "\<lambda>r. case r of Inl (e, kcp') \<Rightarrow> I kcp' | Inr (m, kcp') \<Rightarrow> I kcp'"
  show ?case
  proof (cases "n < to_int IKCP_OVERHEAD")
    case True
    then show ?thesis using 1(2) by (simp add: input_loop.simps [of data n])
  next
    case big: False
    show ?thesis
    proof (rule ensuresI)
      fix r assume e: "input_loop data n mark kcp = Some r"
      then obtain c data1 where d: "ikcp_decode32u data = Some (c, data1)"
        using big by (subst (asm) input_loop.simps) (auto simp: Option.bind_eq_Some_conv)
      show "?Q r"
      proof (cases "c = conv kcp")
        case False
        then show ?thesis using e big d 1(2) by (subst (asm) input_loop.simps) auto
      next
        case conv: True
        obtain h data2 where h: "decode_fields c data1 = Some (h, data2)"
          using e big d conv by (subst (asm) input_loop.simps) (auto simp: Option.bind_eq_Some_conv)
        let ?n = "n - to_int IKCP_OVERHEAD"
        show ?thesis
        proof (cases "?n < uint (h_len h) \<or> to_int (h_len h) < 0 \<or> \<not> known_command (ucast (h_cmd h))")
          case True
          then show ?thesis using e big d conv h 1(2)
            by (subst (asm) input_loop.simps) (auto simp: Let_def split: if_splits)
        next
          case ok: False
          obtain m k where b: "input_segment_body h data2 mark kcp = Some (m, k)"
            and l: "input_loop (drop (unat (h_len h)) data2) (?n - uint (h_len h)) m k = Some r"
            using e big d conv h ok
            by (subst (asm) input_loop.simps) (auto simp: Let_def Option.bind_eq_Some_conv)
          have "0 \<le> to_int (h_len h)" using ok by simp
          from ensuresD [OF body [OF 1(2) this] b] have "I k" by simp
          with 1(1) [OF big d refl _ h refl refl _ _ b refl this] conv ok l show ?thesis
            by (auto simp: ensures_def)
        qed
      qed
    qed
  qed
qed

lemma tail_keeps: "I kcp \<Longrightarrow> ensures (input_tail u m kcp) (\<lambda>(r, kcp'). I kcp')"
proof -
  have w: "I (k\<lparr>incr := i, cwnd := c\<rparr>)" if "I k" for k i c
  proof -
    have "k\<lparr>incr := i, cwnd := c\<rparr> = k\<lparr>cwnd := c, incr := i\<rparr>" by simp
    then show ?thesis using window [OF that] by metis
  qed
  have c: "ensures (input_cwnd u k) I" if "I k" for k
    using that window w by (auto simp: input_cwnd_def run_simps Let_def c_udiv_def)
  show "I kcp \<Longrightarrow> ensures (input_tail u m kcp) (\<lambda>(r, kcp'). I kcp')"
    using fastack c by (auto simp: input_tail_def run_simps Let_def split: option.split)
qed

lemma input_keeps: "I kcp \<Longrightarrow> ensures (ikcp_input data n kcp) (\<lambda>(r, kcp'). I kcp')"
proof (rule ensuresI)
  fix x assume ok: "I kcp" and "ikcp_input data n kcp = Some x"
  then consider (early) "x = (- 1, kcp)"
    | (loop) d r where "input_loop d n None kcp = Some r"
        "(case r of Inl r \<Rightarrow> Some r | Inr (mark, kcp') \<Rightarrow> input_tail (snd_una kcp) mark kcp') = Some x"
    by (auto simp: ikcp_input_def Let_def Option.bind_eq_Some_conv split: option.splits if_splits)
  then show "case x of (r, kcp') \<Rightarrow> I kcp'"
  proof cases
    case loop
    note l = ensuresD [OF loop_keeps [OF ok] loop(1)]
    show ?thesis
    proof (cases r)
      case (Inl y)
      then show ?thesis using l loop(2) by (cases y) auto
    next
      case (Inr y)
      obtain m k where y: "y = (m, k)" by (cases y)
      then show ?thesis using ensuresD [OF tail_keeps [of k "snd_una kcp" m]] l loop(2) by (simp add: Inr)
    qed
  qed (simp add: ok)
qed

end

interpretation ok_input: input_invariant kcp_ok
proof unfold_locales
  show "kcp_ok k \<Longrightarrow> 0 \<le> to_int (h_len h) \<Longrightarrow>
      ensures (input_segment_body h d m k) (\<lambda>(m, k). kcp_ok k)" for k h d m
    by (rule ensures_mono [OF input_segment_body_ok]) auto
  show "kcp_ok (ikcp_parse_fastack sn ts k)" if "kcp_ok k" for sn ts k
    by (rule only_send_ok [OF that parse_fastack_only])
      (use that in \<open>simp add: parse_fastack_ok kcp_ok_def\<close>)
  show "kcp_ok (k\<lparr>cwnd := c, incr := i\<rparr>)" if "kcp_ok k" for k c i
    by (rule kcp_ok_same [OF that]) (simp_all add: part_defs)
qed

end
