(* ===== verification/Kcp_Flush_Steps.thy ===== *)
theory Kcp_Flush_Steps
  imports Kcp_Input_Steps
begin

text \<open>
  \<open>ikcp_flush\<close> and \<open>ikcp_update\<close> keep the invariant; what they write into the send buffer is the subject
  of the next theory.
\<close>

section \<open>Writing leaves the state alone\<close>

text \<open>The fields that writing segments and probing may change.\<close>

definition no_wire :: "ikcpcb \<Rightarrow> ikcpcb" where
  "no_wire kcp = kcp\<lparr>packets := [], kstate := 0, probe := 0, probe_wait := 0, ts_probe := 0, xmit := 0\<rparr>"

lemma no_wire_parts:
  assumes "no_wire a = no_wire b"
  shows "send_part a = send_part b" "recv_part a = recv_part b" "ack_part a = ack_part b"
    "time_part a = time_part b" "layout_part a = layout_part b"
  using arg_cong [OF assms, of send_part] arg_cong [OF assms, of recv_part]
    arg_cong [OF assms, of ack_part] arg_cong [OF assms, of time_part] arg_cong [OF assms, of layout_part]
  by (simp_all add: no_wire_def part_defs)

lemma no_wire_kcp_ok:
  assumes "no_wire a = no_wire b" "kcp_ok b"
  shows "kcp_ok a"
  by (rule kcp_ok_same [OF assms(2)]) (use no_wire_parts [OF assms(1)] in simp_all)

lemma no_wire_update [simp]:
  "no_wire (kcp\<lparr>packets := p\<rparr>) = no_wire kcp" "no_wire (kcp\<lparr>kstate := s\<rparr>) = no_wire kcp"
  "no_wire (kcp\<lparr>probe := b\<rparr>) = no_wire kcp" "no_wire (kcp\<lparr>xmit := x\<rparr>) = no_wire kcp"
  by (simp_all add: no_wire_def)

lemma output_wire: "ensures (ikcp_output d kcp) (\<lambda>(r, k). no_wire k = no_wire kcp)"
  by (auto simp: ikcp_output_def run_simps intro!: ensuresI)

lemma flush_room_wire: "ensures (flush_room need out kcp) (\<lambda>(out', k). no_wire k = no_wire kcp)"
  by (auto simp: flush_room_def run_simps c_int_def intro!: ensures_mono [OF output_wire])

lemma flush_ack_wire: "ensures (flush_ack i seg out kcp) (\<lambda>(seg', out', k). no_wire k = no_wire kcp \<and>
    seg_wnd seg' = seg_wnd seg)"
proof -
  have "ensures (ikcp_ack_get k i) Q" if "\<And>x. Q x" for Q k using that by (simp add: ensures_def)
  then show ?thesis
    by (auto simp: flush_ack_def run_simps Let_def buffer_write_def
        intro!: ensures_mono [OF flush_room_wire])
qed

lemma flush_acks_wire: "ensures (flush_acks is seg out kcp) (\<lambda>(seg', out', k). no_wire k = no_wire kcp \<and>
    seg_wnd seg' = seg_wnd seg)"
proof (induction "is" arbitrary: seg out kcp)
  case (Cons i "is")
  have "ensures (flush_acks is seg' out' k) (\<lambda>(seg'', out', k). no_wire k = no_wire kcp \<and>
      seg_wnd seg'' = seg_wnd seg)"
    if "no_wire k = no_wire kcp" "seg_wnd seg' = seg_wnd seg" for seg' out' k
    by (rule ensures_mono [OF Cons.IH]) (use that in auto)
  then show ?case by (auto simp: run_simps intro!: ensures_mono [OF flush_ack_wire])
qed simp

lemma probe_timer_wire: "no_wire (probe_timer kcp) = no_wire kcp"
  by (simp add: probe_timer_def no_wire_def Let_def)

lemma flush_probe_wire: "ensures (flush_probe a c seg out kcp) (\<lambda>(seg', out', k). no_wire k = no_wire kcp \<and>
    seg_wnd seg' = seg_wnd seg)"
  by (auto simp: flush_probe_def run_simps Let_def buffer_write_def intro!: ensures_mono [OF flush_room_wire])

lemma no_wire_ackcount: "no_wire (k\<lparr>ackcount := c\<rparr>) = (no_wire k)\<lparr>ackcount := c\<rparr>"
  by (simp add: no_wire_def)

lemma flush_control_wire:
  "ensures (flush_control kcp) (\<lambda>(seg, out, k). no_wire k = no_wire (kcp\<lparr>ackcount := 0\<rparr>) \<and>
    seg_wnd seg = to_u32 (ikcp_wnd_unused kcp))"
proof (rule ensuresI)
  fix x assume "flush_control kcp = Some x"
  then obtain s1 o1 k1 s2 o2 k2 s3 o3 k3
    where 1: "flush_acks [0..<nat (to_int (ackcount kcp))] (flush_seg kcp) [] kcp = Some (s1, o1, k1)"
      and 2: "flush_probe IKCP_ASK_SEND IKCP_CMD_WASK s1 o1 (probe_timer (k1\<lparr>ackcount := 0\<rparr>)) = Some (s2, o2, k2)"
      and 3: "flush_probe IKCP_ASK_TELL IKCP_CMD_WINS s2 o2 k2 = Some (s3, o3, k3)"
      and x: "x = (s3, o3, k3\<lparr>probe := 0\<rparr>)"
    by (auto simp: flush_control_def Option.bind_eq_Some_conv Let_def)
  have "seg_wnd (flush_seg kcp) = to_u32 (ikcp_wnd_unused kcp)" by (simp add: flush_seg_def)
  with ensuresD [OF flush_acks_wire 1] ensuresD [OF flush_probe_wire 2] ensuresD [OF flush_probe_wire 3]
  show "case x of (seg, out, k) \<Rightarrow> no_wire k = no_wire (kcp\<lparr>ackcount := 0\<rparr>) \<and>
      seg_wnd seg = to_u32 (ikcp_wnd_unused kcp)"
    by (simp add: x probe_timer_wire no_wire_ackcount)
qed

section \<open>Moving segments into the window\<close>

lemma flush_move_step:
  assumes "send_ok kcp" "itimediff (snd_nxt kcp) (snd_una kcp + w) < 0" "unat w \<le> 65535"
    and "snd_queue kcp = newseg # p"
  shows "send_ok (kcp\<lparr>snd_queue := p, snd_buf := snd_buf kcp @ [number_segment wnd kcp newseg],
    nsnd_que := nsnd_que kcp - 1, nsnd_buf := nsnd_buf kcp + 1, snd_nxt := snd_nxt kcp + 1\<rparr>)"
proof -
  let ?u = "snd_una kcp" let ?n = "snd_nxt kcp"
  have c: "ascending ?u (offset ?u ?n) (snd_buf kcp)" "offset ?u ?n \<le> 65535"
    using assms(1) unfolding send_ok_def send_core_def by blast+
  have "offset ?u (?u + w) = unat w" using assms(3) offset_add [of ?u ?u w] by simp
  then have "offset ?u ?n < unat w"
    using itimediff_offset [of ?u ?n "?u + w"] c(2) assms(2,3) by (simp del: of_nat_unat)
  then have lt: "offset ?u ?n < 65535" using assms(3) by simp
  have nxt: "offset ?u (?n + 1) = offset ?u ?n + 1" using offset_add [of ?u ?n 1] lt by simp
  have "ascending ?u (offset ?u ?n + 1) (snd_buf kcp @ [number_segment wnd kcp newseg])"
  proof -
    have "offset ?u (seg_sn s) < offset ?u ?n" if "s \<in> set (snd_buf kcp)" for s
      using c(1) that by (auto simp: ascending_def positions_def)
    then show ?thesis using ascending_mono [OF c(1), of "offset ?u ?n + 1"]
      by (simp add: ascending_append ascending_Cons number_segment_def)
  qed
  moreover have "snd_una kcp = first_sn (?n + 1) (snd_buf kcp @ [number_segment wnd kcp newseg])"
    using assms(1) by (cases "snd_buf kcp") (simp_all add: send_ok_def number_segment_def)
  ultimately show ?thesis
    using assms(1,4) nxt lt
    by (auto simp: send_ok_def send_core_def number_segment_def seg_ok_def tagged_def)
qed

lemma flush_move_ok:
  "kcp_ok kcp \<Longrightarrow> unat w \<le> 65535 \<Longrightarrow> kcp_ok (flush_move wnd w kcp)"
proof (induction wnd w kcp rule: flush_move.induct)
  case (1 wnd w kcp)
  show ?case
  proof (cases "itimediff (snd_nxt kcp) (snd_una kcp + w) < 0 \<and> snd_queue kcp \<noteq> []")
    case True
    then obtain newseg p where q: "snd_queue kcp = newseg # p" by (cases "snd_queue kcp") auto
    let ?k = "kcp\<lparr>snd_queue := p, snd_buf := snd_buf kcp @ [number_segment wnd kcp newseg],
      nsnd_que := nsnd_que kcp - 1, nsnd_buf := nsnd_buf kcp + 1, snd_nxt := snd_nxt kcp + 1\<rparr>"
    have "send_ok kcp" using 1(2) by (simp add: kcp_ok_def)
    with True q 1(3) have "send_ok ?k" by (intro flush_move_step) auto
    then have "kcp_ok ?k" by (rule kcp_ok_send [OF 1(2)]) (simp_all add: part_defs)
    from 1(1) [OF _ q this 1(3)] True q show ?thesis by (simp add: flush_move.simps [of wnd w kcp])
  next
    case False
    then show ?thesis using 1(2)
      by (auto simp: flush_move.simps [of wnd w kcp] split: list.split)
  qed
qed

lemma flush_window_le: "flush_window kcp \<le> rmt_wnd kcp"
  by (auto simp: flush_window_def imin_def Let_def)

section \<open>The data loop\<close>

text \<open>What the loop leaves of each segment: its number, length, payload, id and command.\<close>

definition seg_core :: "IKCPSEG \<Rightarrow> u32 \<times> u32 \<times> byte list \<times> u32 \<times> u32" where
  "seg_core s = (seg_sn s, seg_len s, seg_data s, seg_conv s, seg_cmd s)"

lemma seg_core_retime [simp]: "seg_core (retime reason rtomin kcp s) = seg_core s"
  by (simp add: retime_def seg_core_def split: send_reason.split)

lemma flush_emit_wire:
  "ensures (flush_emit wnd s out kcp) (\<lambda>(s', out', k). seg_core s' = seg_core s \<and> no_wire k = no_wire kcp)"
  by (auto simp: flush_emit_def run_simps Let_def buffer_write_def seg_payload_def seg_core_def
      intro!: ensures_mono [OF flush_room_wire])

lemma flush_data_wire:
  "ensures (flush_data wnd resent rtomin p change lost out kcp) (\<lambda>(p', c, l, out', k).
     map seg_core p' = map seg_core p \<and> no_wire k = no_wire kcp)"
proof (induction p arbitrary: change lost out kcp)
  case (Cons s p)
  have rec: "ensures (flush_data wnd resent rtomin p c l out' k) (\<lambda>(p', c, l, out', k').
     map seg_core p' = map seg_core p \<and> no_wire k' = no_wire kcp)" if "no_wire k = no_wire kcp" for c l out' k
    by (rule ensures_mono [OF Cons.IH]) (use that in auto)
  have emit: "ensures (flush_emit wnd s' out' k) (\<lambda>(s'', out', k). seg_core s'' = seg_core s' \<and>
      no_wire k = no_wire kcp)" if "no_wire k = no_wire kcp" for s' out' k
    by (rule ensures_mono [OF flush_emit_wire]) (use that in auto)
  show ?case
    by (auto simp: run_simps Let_def intro!: ensures_mono [OF rec] ensures_mono [OF emit])
qed simp

lemma send_ok_core_cong:
  assumes "map seg_core xs = map seg_core (snd_buf kcp)" "send_ok kcp"
  shows "send_ok (kcp\<lparr>snd_buf := xs\<rparr>)"
proof -
  have sn: "map seg_sn xs = map seg_sn (snd_buf kcp)"
    using arg_cong [OF assms(1), of "map fst"] by (simp add: seg_core_def comp_def)
  have l: "length xs = length (snd_buf kcp)" using arg_cong [OF assms(1), of length] by simp
  have ok: "(\<forall>s \<in> set ss. seg_ok s) \<longleftrightarrow> (\<forall>(n, l, d, c, m) \<in> set (map seg_core ss). length d = unat l \<and> l < 2147483648)"
    and tag: "(\<forall>s \<in> set ss. tagged t s) \<longleftrightarrow> (\<forall>(n, l, d, c, m) \<in> set (map seg_core ss). c = t \<and> m = IKCP_CMD_PUSH)"
    for ss t by (auto simp: seg_core_def seg_ok_def tagged_def)
  have "(\<forall>s \<in> set xs. seg_ok s) \<longleftrightarrow> (\<forall>s \<in> set (snd_buf kcp). seg_ok s)"
    unfolding ok assms(1) ..
  moreover have "(\<forall>s \<in> set xs. tagged t s) \<longleftrightarrow> (\<forall>s \<in> set (snd_buf kcp). tagged t s)" for t
    unfolding tag assms(1) ..
  ultimately show ?thesis
    using assms(2) ascending_sn_cong [OF sn] first_sn_cong [OF sn] l
    by (auto simp: send_ok_def send_core_def ball_Un)
qed

section \<open>The whole function\<close>

lemma flush_cwnd_ok: "kcp_ok kcp \<Longrightarrow> kcp_ok (flush_cwnd change lost resent w kcp)"
  by (erule kcp_ok_same) (simp_all add: flush_cwnd_def Let_def part_defs)

lemma flush_stages:
  assumes "ikcp_flush kcp = Some kcp'" "updated kcp \<noteq> 0"
  obtains seg out k1 buf change lost out2 k2 k3 resent rtomin w where
    "flush_control kcp = Some (seg, out, k1)" "w = flush_window k1"
    "flush_data (seg_wnd seg) resent rtomin (snd_buf (flush_move (seg_wnd seg) w k1)) False False out
       (flush_move (seg_wnd seg) w k1) = Some (buf, change, lost, out2, k2)"
    "(if 0 < length out2 then do { (_, k) \<leftarrow> ikcp_output out2 (k2\<lparr>snd_buf := buf\<rparr>); Some k }
      else Some (k2\<lparr>snd_buf := buf\<rparr>)) = Some k3"
    "kcp' = flush_cwnd change lost resent w k3"
  using assms by (auto simp: ikcp_flush_def Option.bind_eq_Some_conv Let_def)

lemma control_ok:
  assumes "kcp_ok kcp" "flush_control kcp = Some (seg, out, k1)"
  shows "kcp_ok k1"
proof -
  have "kcp_ok (kcp\<lparr>ackcount := 0\<rparr>)"
    by (rule kcp_ok_ack [OF assms(1)])
      (use assms(1) in \<open>auto simp: kcp_ok_def ack_ok_def part_defs split: option.split\<close>)
  then show ?thesis using ensuresD [OF flush_control_wire assms(2)] no_wire_kcp_ok by auto
qed

lemma move_window_ok:
  assumes "kcp_ok kcp"
  shows "kcp_ok (flush_move wnd (flush_window kcp) kcp)"
proof (rule flush_move_ok [OF assms])
  have "rmt_wnd kcp \<le> 65535" using assms by (auto simp: kcp_ok_def send_ok_def send_core_def)
  then show "unat (flush_window kcp) \<le> 65535"
    using flush_window_le [of kcp] by (simp add: word_le_nat_alt)
qed

lemma flush_ok:
  assumes "kcp_ok kcp"
  shows "ensures (ikcp_flush kcp) kcp_ok"
proof (rule ensuresI)
  fix kcp' assume f: "ikcp_flush kcp = Some kcp'"
  show "kcp_ok kcp'"
  proof (cases "updated kcp = 0")
    case True
    then show ?thesis using f assms by (simp add: ikcp_flush_def)
  next
    case False
    then obtain seg out k1 buf change lost out2 k2 k3 resent rtomin w where
      c: "flush_control kcp = Some (seg, out, k1)" "w = flush_window k1"
      and d: "flush_data (seg_wnd seg) resent rtomin (snd_buf (flush_move (seg_wnd seg) w k1)) False False out
       (flush_move (seg_wnd seg) w k1) = Some (buf, change, lost, out2, k2)"
      and o: "(if 0 < length out2 then do { (_, k) \<leftarrow> ikcp_output out2 (k2\<lparr>snd_buf := buf\<rparr>); Some k }
      else Some (k2\<lparr>snd_buf := buf\<rparr>)) = Some k3"
      and e: "kcp' = flush_cwnd change lost resent w k3"
      by (rule flush_stages [OF f])
    let ?m = "flush_move (seg_wnd seg) w k1"
    have m: "kcp_ok ?m" unfolding c(2) by (rule move_window_ok [OF control_ok [OF assms c(1)]])
    have w: "map seg_core buf = map seg_core (snd_buf ?m)" "no_wire k2 = no_wire ?m"
      using ensuresD [OF flush_data_wire d] by simp_all
    have k2: "kcp_ok k2" by (rule no_wire_kcp_ok [OF w(2) m])
    have sb: "snd_buf k2 = snd_buf ?m" using no_wire_parts(1) [OF w(2)] by (simp add: send_part_def)
    have "send_ok (k2\<lparr>snd_buf := buf\<rparr>)"
      by (rule send_ok_core_cong) (use w(1) sb k2 in \<open>simp_all add: kcp_ok_def\<close>)
    then have "kcp_ok (k2\<lparr>snd_buf := buf\<rparr>)" by (rule kcp_ok_send [OF k2]) (simp_all add: part_defs)
    then have "kcp_ok k3"
      using o no_wire_kcp_ok
      by (auto simp: Option.bind_eq_Some_conv split: if_splits dest: ensuresD [OF output_wire])
    then show ?thesis unfolding e by (rule flush_cwnd_ok)
  qed
qed

lemma update_ok:
  assumes "kcp_ok kcp"
  shows "ensures (ikcp_update now kcp) kcp_ok"
proof -
  have same: "kcp_ok (kcp\<lparr>current := c, updated := u, ts_flush := t\<rparr>)" "kcp_ok (kcp\<lparr>current := c, ts_flush := t\<rparr>)"
      "kcp_ok (kcp\<lparr>current := c\<rparr>)" for c u t
    by (rule kcp_ok_same [OF assms]; simp add: part_defs)+
  show ?thesis using same
    by (simp add: ikcp_update_def Let_def flush_ok split: prod.split)
qed

end
