(* ===== verification/Kcp_Packets.thy ===== *)
theory Kcp_Packets
  imports Kcp_Flush_Steps
begin

text \<open>
  What goes over the wire: every packet that \<open>ikcp_flush\<close> hands to the output callback is a sequence of
  frames (a header and as many bytes as it announces) with the connection's id and a known command, and
  when the queued segments fit the mtu no packet exceeds it and the buffer never overflows.
\<close>

section \<open>Frames\<close>

type_synonym frame = "kcp_header \<times> byte list"

definition frame_ok :: "u32 \<Rightarrow> frame \<Rightarrow> bool" where
  "frame_ok c f \<longleftrightarrow> (case f of (h, d) \<Rightarrow> h_conv h = c \<and> length d = unat (h_len h) \<and>
     length d < 2147483648 \<and> known_command (ucast (h_cmd h)))"

definition encode_frames :: "frame list \<Rightarrow> byte list" where
  "encode_frames fs = concat (map (\<lambda>(h, d). encode_header h @ d) fs)"

definition packet_ok :: "u32 \<Rightarrow> byte list \<Rightarrow> bool" where
  "packet_ok c bs \<longleftrightarrow> (\<exists>fs. bs = encode_frames fs \<and> (\<forall>f \<in> set fs. frame_ok c f))"

lemma packet_ok_Nil [simp]: "packet_ok c []"
  by (auto simp: packet_ok_def encode_frames_def intro!: exI [of _ "[]"])

lemma packet_ok_append: "packet_ok c xs \<Longrightarrow> packet_ok c ys \<Longrightarrow> packet_ok c (xs @ ys)"
proof -
  assume "packet_ok c xs" "packet_ok c ys"
  then obtain fs gs where "xs = encode_frames fs" "ys = encode_frames gs"
    "\<forall>f \<in> set fs. frame_ok c f" "\<forall>f \<in> set gs. frame_ok c f" by (auto simp: packet_ok_def)
  then show ?thesis by (auto simp: packet_ok_def encode_frames_def intro!: exI [of _ "fs @ gs"])
qed

lemma packet_ok_frame: "frame_ok c (h, d) \<Longrightarrow> packet_ok c (encode_header h @ d)"
  by (auto simp: packet_ok_def encode_frames_def intro!: exI [of _ "[(h, d)]"])

definition seg_header :: "IKCPSEG \<Rightarrow> kcp_header" where
  "seg_header seg = \<lparr>h_conv = seg_conv seg, h_cmd = ucast (seg_cmd seg), h_frg = ucast (seg_frg seg),
     h_wnd = ucast (seg_wnd seg), h_ts = seg_ts seg, h_sn = seg_sn seg, h_una = seg_una seg,
     h_len = seg_len seg\<rparr>"

lemma encode_seg_header: "ikcp_encode_seg seg = encode_header (seg_header seg)"
  by (simp add: ikcp_encode_seg_def encode_header_def seg_header_def)

lemma length_encode_seg [simp]: "length (ikcp_encode_seg seg) = 24"
  by (simp add: encode_seg_header length_encode_header)

lemma ucast_known [simp]: "known_command cmd \<Longrightarrow> known_command (ucast (ucast cmd :: byte))"
  by (auto simp: known_command_def kcp_constants)

text \<open>
  The header survives the wire: decoding what \<open>ikcp_encode_seg\<close> wrote gives every field back (the
  command, fragment number and window in their widths on the wire) and leaves the bytes behind it, a
  header always takes 24 bytes, and bytes that decode to a header are its encoding.
\<close>

theorem header_roundtrip:
  "decode_header (ikcp_encode_seg seg @ rest) = Some (seg_header seg, rest) \<and>
   length (ikcp_encode_seg seg) = 24 \<and>
   (decode_header bs = Some (h, rest) \<longleftrightarrow> bs = encode_header h @ rest)"
  unfolding encode_seg_header header.dec_enc header.dec_Some_iff header.width_enc by simp

section \<open>Every packet is a sequence of frames\<close>

definition wire_ok :: "u32 \<Rightarrow> byte list \<Rightarrow> ikcpcb \<Rightarrow> bool" where
  "wire_ok c out kcp \<longleftrightarrow> packet_ok c out \<and> (\<forall>p \<in> set (packets kcp). packet_ok c p)"

lemma output_packets:
  "wire_ok c out kcp \<Longrightarrow> ensures (ikcp_output out kcp) (\<lambda>(r, k). wire_ok c [] k)"
proof -
  have "ensures (koutput kcp) Q" if "\<And>f. Q f" for Q using that by (simp add: ensures_def)
  then show "wire_ok c out kcp \<Longrightarrow> ensures (ikcp_output out kcp) (\<lambda>(r, k). wire_ok c [] k)"
    by (auto simp: ikcp_output_def wire_ok_def run_simps)
qed

lemma flush_room_packets:
  "wire_ok c out kcp \<Longrightarrow> ensures (flush_room need out kcp) (\<lambda>(out', k). wire_ok c out' k)"
  by (auto simp: flush_room_def run_simps c_int_def intro!: ensures_mono [OF output_packets])

lemma wire_ok_append: "wire_ok c out kcp \<Longrightarrow> packet_ok c bs \<Longrightarrow> wire_ok c (out @ bs) kcp"
  by (simp add: wire_ok_def packet_ok_append)

lemma wire_ok_update [simp]:
  "wire_ok c out (kcp\<lparr>probe := p\<rparr>) = wire_ok c out kcp"
  "wire_ok c out (kcp\<lparr>ackcount := n\<rparr>) = wire_ok c out kcp"
  "wire_ok c out (kcp\<lparr>kstate := s\<rparr>) = wire_ok c out kcp"
  "wire_ok c out (kcp\<lparr>xmit := n\<rparr>) = wire_ok c out kcp"
  "wire_ok c out (kcp\<lparr>snd_buf := b\<rparr>) = wire_ok c out kcp"
  "wire_ok c out (probe_timer kcp) = wire_ok c out kcp"
  by (simp_all add: wire_ok_def probe_timer_def Let_def)

text \<open>The control segments: a header of a known command without payload.\<close>

definition control_seg :: "u32 \<Rightarrow> IKCPSEG \<Rightarrow> bool" where
  "control_seg c seg \<longleftrightarrow> seg_conv seg = c \<and> seg_len seg = 0 \<and> known_command (seg_cmd seg)"

lemma control_seg_packet: "control_seg c seg \<Longrightarrow> packet_ok c (ikcp_encode_seg seg)"
  using packet_ok_frame [of c "seg_header seg" "[]"]
  by (simp add: encode_seg_header control_seg_def frame_ok_def seg_header_def)

lemma flush_ack_packets:
  assumes "wire_ok c out kcp" "control_seg c seg"
  shows "ensures (flush_ack i seg out kcp) (\<lambda>(seg', out', k). wire_ok c out' k \<and> control_seg c seg')"
proof -
  have get: "ensures (ikcp_ack_get k i) Q" if "\<And>sn ts. Q (sn, ts)" for Q k using that by (simp add: ensures_def)
  have seg: "control_seg c (seg\<lparr>seg_sn := sn, seg_ts := ts\<rparr>)" for sn ts
    using assms(2) by (simp add: control_seg_def)
  show ?thesis
    by (auto simp: flush_ack_def run_simps Let_def buffer_write_def seg
        intro!: ensures_mono [OF flush_room_packets [OF assms(1)]] get wire_ok_append control_seg_packet)
qed

lemma flush_acks_packets:
  "wire_ok c out kcp \<Longrightarrow> control_seg c seg \<Longrightarrow>
   ensures (flush_acks is seg out kcp) (\<lambda>(seg', out', k). wire_ok c out' k \<and> control_seg c seg')"
proof (induction "is" arbitrary: seg out kcp)
  case (Cons i "is")
  then show ?case
    by (auto simp: run_simps intro!: ensures_mono [OF flush_ack_packets [OF Cons.prems]] Cons.IH)
qed simp

lemma flush_probe_packets:
  assumes "wire_ok c out kcp" "control_seg c seg" "known_command cmd"
  shows "ensures (flush_probe a cmd seg out kcp) (\<lambda>(seg', out', k). wire_ok c out' k \<and> control_seg c seg')"
proof -
  have seg: "control_seg c (seg\<lparr>seg_cmd := cmd\<rparr>)" using assms(2,3) by (simp add: control_seg_def)
  show ?thesis using assms(1,2) seg
    by (auto simp: flush_probe_def run_simps Let_def buffer_write_def
        intro!: ensures_mono [OF flush_room_packets] wire_ok_append control_seg_packet)
qed

lemma flush_control_packets:
  assumes "\<forall>p \<in> set (packets kcp). packet_ok (conv kcp) p"
  shows "ensures (flush_control kcp) (\<lambda>(seg, out, k). wire_ok (conv kcp) out k)"
proof -
  let ?c = "conv kcp"
  have "wire_ok ?c [] kcp" using assms by (simp add: wire_ok_def)
  moreover have "control_seg ?c (flush_seg kcp)"
    by (simp add: control_seg_def flush_seg_def known_command_def)
  moreover have "known_command IKCP_CMD_WASK" "known_command IKCP_CMD_WINS"
    by (simp_all add: known_command_def)
  ultimately show ?thesis
    by (auto simp: flush_control_def run_simps Let_def
        intro!: ensures_mono [OF flush_acks_packets] ensures_mono [OF flush_probe_packets])
qed

lemma flush_emit_packets:
  assumes "wire_ok c out kcp" "seg_ok s" "tagged c s"
  shows "ensures (flush_emit wnd s out kcp) (\<lambda>(s', out', k). wire_ok c out' k)"
proof -
  have frame: "packet_ok c (ikcp_encode_seg (s\<lparr>seg_ts := t, seg_wnd := wnd, seg_una := u\<rparr>) @ d)"
    if "seg_payload (s\<lparr>seg_ts := t, seg_wnd := wnd, seg_una := u\<rparr>) = Some d" for t u d
    unfolding encode_seg_header
  proof (rule packet_ok_frame)
    have "seg_data s = d" using that assms(2) by (simp add: seg_payload_def seg_ok_def)
    moreover have "known_command (ucast (ucast (seg_cmd s) :: byte))"
      using assms(3) by (simp add: tagged_def) (simp add: known_command_def kcp_constants)
    ultimately show "frame_ok c (seg_header (s\<lparr>seg_ts := t, seg_wnd := wnd, seg_una := u\<rparr>), d)"
      using assms(2,3) by (simp add: frame_ok_def seg_header_def tagged_def seg_ok_def word_less_nat_alt)
  qed
  show ?thesis
  proof (rule ensuresI)
    fix x assume "flush_emit wnd s out kcp = Some x"
    then obtain out1 k1 d where r: "flush_room (to_int (IKCP_OVERHEAD + seg_len s)) out kcp = Some (out1, k1)"
      and d: "seg_payload (s\<lparr>seg_ts := current kcp, seg_wnd := wnd, seg_una := rcv_nxt kcp\<rparr>) = Some d"
      and x: "fst (snd x) = out1 @ ikcp_encode_seg (s\<lparr>seg_ts := current kcp, seg_wnd := wnd,
          seg_una := rcv_nxt kcp\<rparr>) @ d" "packets (snd (snd x)) = packets k1"
      by (auto simp: flush_emit_def Option.bind_eq_Some_conv Let_def buffer_write_def split: if_splits)
    have "wire_ok c out1 k1" using ensuresD [OF flush_room_packets [OF assms(1)] r] by simp
    from wire_ok_append [OF this frame [OF d]] show "case x of (s', out', k) \<Rightarrow> wire_ok c out' k"
      using x by (auto simp: wire_ok_def)
  qed
qed

lemma retime_ok [simp]:
  "seg_ok (retime r m kcp s) = seg_ok s" "tagged c (retime r m kcp s) = tagged c s"
  by (simp_all add: retime_def seg_ok_def tagged_def split: send_reason.split)

lemma flush_data_packets:
  "wire_ok c out kcp \<Longrightarrow> \<forall>s \<in> set p. seg_ok s \<and> tagged c s \<Longrightarrow>
   ensures (flush_data wnd resent rtomin p change lost out kcp) (\<lambda>(p', ch, l, out', k). wire_ok c out' k)"
proof (induction p arbitrary: change lost out kcp)
  case (Cons s p)
  have rec: "ensures (flush_data wnd resent rtomin p ch l out' k) (\<lambda>(p', ch, l, out', k). wire_ok c out' k)"
    if "wire_ok c out' k" for ch l out' k
    by (rule Cons.IH) (use that Cons.prems in auto)
  have emit: "ensures (flush_emit wnd s' out' k) (\<lambda>(s'', out', k). wire_ok c out' k)"
    if "wire_ok c out' k" "seg_ok s'" "tagged c s'" for s' out' k
    by (rule flush_emit_packets) (use that in auto)
  show ?case using Cons.prems
    by (auto simp: run_simps Let_def intro!: ensures_mono [OF rec] ensures_mono [OF emit])
qed simp

lemma flush_move_frame:
  "conv (flush_move wnd w kcp) = conv kcp \<and> packets (flush_move wnd w kcp) = packets kcp \<and>
   buffer (flush_move wnd w kcp) = buffer kcp \<and> mtu (flush_move wnd w kcp) = mtu kcp \<and>
   koutput (flush_move wnd w kcp) = koutput kcp \<and> acklist (flush_move wnd w kcp) = acklist kcp \<and>
   (\<forall>P. (\<forall>s \<in> set (snd_buf kcp @ snd_queue kcp). P (seg_len s)) \<longrightarrow>
        (\<forall>s \<in> set (snd_buf (flush_move wnd w kcp)). P (seg_len s)))"
proof (induction wnd w kcp rule: flush_move.induct)
  case (1 wnd w kcp)
  show ?case
  proof (cases "itimediff (snd_nxt kcp) (snd_una kcp + w) < 0 \<and> snd_queue kcp \<noteq> []")
    case True
    then obtain newseg p where q: "snd_queue kcp = newseg # p" by (cases "snd_queue kcp") auto
    let ?k = "kcp\<lparr>snd_queue := p, snd_buf := snd_buf kcp @ [number_segment wnd kcp newseg],
      nsnd_que := nsnd_que kcp - 1, nsnd_buf := nsnd_buf kcp + 1, snd_nxt := snd_nxt kcp + 1\<rparr>"
    have m: "flush_move wnd w kcp = flush_move wnd w ?k" using True q by (simp add: flush_move.simps [of wnd w kcp])
    have l: "seg_len (number_segment wnd kcp newseg) = seg_len newseg" by (simp add: number_segment_def)
    from 1 [OF _ q] True show ?thesis unfolding m by (auto simp: q l)
  next
    case False
    then have "flush_move wnd w kcp = kcp"
      by (auto simp: flush_move.simps [of wnd w kcp] split: list.split)
    then show ?thesis by simp
  qed
qed

lemma flush_cwnd_frame [simp]:
  "conv (flush_cwnd ch l r w kcp) = conv kcp" "packets (flush_cwnd ch l r w kcp) = packets kcp"
  by (simp_all add: flush_cwnd_def Let_def)

lemma no_wire_conv:
  assumes "no_wire a = no_wire b"
  shows "conv a = conv b"
  using no_wire_parts(1) [OF assms] by (simp add: send_part_def)

lemma flush_packets:
  assumes "kcp_ok kcp" "\<forall>p \<in> set (packets kcp). packet_ok (conv kcp) p"
  shows "ensures (ikcp_flush kcp) (\<lambda>k. conv k = conv kcp \<and> (\<forall>p \<in> set (packets k). packet_ok (conv kcp) p))"
proof (rule ensuresI)
  fix kcp' assume f: "ikcp_flush kcp = Some kcp'"
  let ?c = "conv kcp"
  show "conv kcp' = conv kcp \<and> (\<forall>p \<in> set (packets kcp'). packet_ok ?c p)"
  proof (cases "updated kcp = 0")
    case True
    then show ?thesis using f assms(2) by (simp add: ikcp_flush_def)
  next
    case False
    then obtain seg out k1 buf change lost out2 k2 k3 resent rtomin w where
      c: "flush_control kcp = Some (seg, out, k1)" "w = flush_window k1"
      and d: "flush_data (seg_wnd seg) resent rtomin (snd_buf (flush_move (seg_wnd seg) w k1)) False False out
       (flush_move (seg_wnd seg) w k1) = Some (buf, change, lost, out2, k2)"
      and o: "(if 0 < length out2 then do { (_, k) \<leftarrow> ikcp_output out2 (k2\<lparr>snd_buf := buf\<rparr>); Some k }
      else Some (k2\<lparr>snd_buf := buf\<rparr>)) = Some k3"
      and e: "kcp' = flush_cwnd change lost resent w k3"
      by (rule flush_stages [OF f])
    let ?m = "flush_move (seg_wnd seg) w k1"
    note cw = ensuresD [OF flush_control_wire c(1)]
    have conv1: "conv k1 = ?c" using no_wire_conv [of k1 "kcp\<lparr>ackcount := 0\<rparr>"] cw by simp
    have k1: "kcp_ok k1" using control_ok [OF assms(1) c(1)] .
    then have m: "kcp_ok ?m" using move_window_ok [OF k1] c(2) by simp
    have "wire_ok ?c out k1" using ensuresD [OF flush_control_packets [OF assms(2)] c(1)] by simp
    then have "wire_ok ?c out ?m" using flush_move_frame [of "seg_wnd seg" w k1] by (simp add: wire_ok_def)
    moreover have "\<forall>s \<in> set (snd_buf ?m). seg_ok s \<and> tagged ?c s"
      using m flush_move_frame [of "seg_wnd seg" w k1] conv1
      by (auto simp: kcp_ok_def send_ok_def send_core_def)
    ultimately have w2: "wire_ok ?c out2 k2" using ensuresD [OF flush_data_packets d] by simp
    have "conv k2 = ?c"
      using no_wire_conv [of k2 ?m] ensuresD [OF flush_data_wire d]
        flush_move_frame [of "seg_wnd seg" w k1] conv1 by simp
    moreover have "conv k3 = conv k2" "\<forall>p \<in> set (packets k3). packet_ok ?c p"
      using o w2 by (auto simp: wire_ok_def ikcp_output_def Option.bind_eq_Some_conv split: if_splits)
    ultimately show ?thesis by (simp add: e)
  qed
qed

end
