(* ===== verification/Kcp_Fits.thy ===== *)
theory Kcp_Fits
  imports Kcp_Packets
begin

text \<open>
  \<open>ikcp_flush\<close> returns, and no packet exceeds the mtu, when the queued segments fit the mtu: no write
  leaves the send buffer and no sum of sizes overflows.  The hypothesis on the segments is needed:
  \<open>ikcp_setmtu\<close> may shrink the buffer after segments of the old size were queued, and then \<open>ikcp_flush\<close>
  writes past its end.
\<close>

section \<open>Room in the buffer\<close>

definition fits :: "ikcpcb \<Rightarrow> bool" where
  "fits kcp \<longleftrightarrow> koutput kcp \<noteq> None \<and> mtu kcp < 1073741824 \<and>
     (\<forall>s \<in> set (snd_buf kcp @ snd_queue kcp). seg_len s \<le> mss kcp)"

definition sent_within :: "nat \<Rightarrow> ikcpcb \<Rightarrow> ikcpcb \<Rightarrow> bool" where
  "sent_within m kcp kcp' \<longleftrightarrow> (\<exists>new. packets kcp' = packets kcp @ new \<and>
     (\<forall>p \<in> set new. p \<noteq> [] \<and> length p \<le> m))"

text \<open>The state in the middle of a flush that began in \<open>k0\<close>.\<close>

definition roomy :: "ikcpcb \<Rightarrow> byte list \<Rightarrow> ikcpcb \<Rightarrow> bool" where
  "roomy k0 out k \<longleftrightarrow> koutput k \<noteq> None \<and> mtu k = mtu k0 \<and> buffer k = buffer k0 \<and>
     acklist k = acklist k0 \<and> length out \<le> unat (mtu k0) \<and> sent_within (unat (mtu k0)) k0 k"

lemma roomy_update [simp]:
  "roomy k0 out (kcp\<lparr>probe := p\<rparr>) = roomy k0 out kcp"
  "roomy k0 out (kcp\<lparr>ackcount := n\<rparr>) = roomy k0 out kcp"
  "roomy k0 out (kcp\<lparr>kstate := s\<rparr>) = roomy k0 out kcp"
  "roomy k0 out (kcp\<lparr>xmit := n\<rparr>) = roomy k0 out kcp"
  "roomy k0 out (kcp\<lparr>snd_buf := b\<rparr>) = roomy k0 out kcp"
  "roomy k0 out (probe_timer kcp) = roomy k0 out kcp"
  by (simp_all add: roomy_def sent_within_def probe_timer_def Let_def)

lemma layout_unat:
  assumes "layout_ok k" "mtu k < 1073741824"
  shows "50 \<le> unat (mtu k)" "unat (mtu k) < 1073741824" "sint (mtu k) = int (unat (mtu k))"
    "unat (mss k) = unat (mtu k) - 24" "buffer k = 3 * (unat (mtu k) + 24)"
proof -
  show m: "50 \<le> unat (mtu k)" "unat (mtu k) < 1073741824"
    using assms by (simp_all add: layout_ok_def word_le_nat_alt word_less_nat_alt)
  show "sint (mtu k) = int (unat (mtu k))" by (rule sint_unat) (use m in linarith)
  show "unat (mss k) = unat (mtu k) - 24"
    using m assms(1) by (simp add: layout_ok_def unat_sub_u32)
  have "(mtu k + 24) * 3 = (mtu k + 24) + ((mtu k + 24) + (mtu k + 24))" by simp
  then have "unat ((mtu k + 24) * 3) = 3 * (unat (mtu k) + 24)"
    using m by (simp only: unat_add_u32) simp
  then show "buffer k = 3 * (unat (mtu k) + 24)" using assms(1) by (simp add: layout_ok_def)
qed

lemma output_roomy:
  assumes "roomy k0 out k"
  shows "succeeds (ikcp_output out k) (\<lambda>(r, k'). roomy k0 [] k')"
proof -
  obtain f where f: "koutput k = Some f" using assms by (auto simp: roomy_def)
  obtain new where "packets k = packets k0 @ new" "\<forall>p \<in> set new. p \<noteq> [] \<and> length p \<le> unat (mtu k0)"
    using assms by (auto simp: roomy_def sent_within_def)
  then have "out \<noteq> [] \<Longrightarrow> sent_within (unat (mtu k0)) k0 (k\<lparr>packets := packets k @ [out]\<rparr>)"
    using assms by (auto simp: sent_within_def roomy_def intro!: exI [of _ "new @ [out]"])
  then show ?thesis using assms f by (auto simp: ikcp_output_def roomy_def run_simps)
qed

lemma flush_room_roomy:
  assumes "layout_ok k0" "mtu k0 < 1073741824" "roomy k0 out k" "0 \<le> need" "need \<le> int (unat (mtu k0))"
  shows "succeeds (flush_room need out k) (\<lambda>(out', k'). roomy k0 out' k' \<and>
    int (length out') + need \<le> int (unat (mtu k0)))"
proof -
  note m = layout_unat [OF assms(1,2)]
  have l: "length out \<le> unat (mtu k0)" "mtu k = mtu k0" using assms(3) by (simp_all add: roomy_def)
  have c: "c_int (int (length out) + need) = Some (int (length out) + need)"
    unfolding c_int_def using l(1) m(2) assms(4,5) by (simp del: of_nat_unat)
  have o: "succeeds (ikcp_output out k) (\<lambda>(r, k'). roomy k0 [] k')" by (rule output_roomy [OF assms(3)])
  show ?thesis unfolding flush_room_def c
    using assms(3,5) l m(3)
    by (auto simp del: of_nat_unat simp: run_simps intro!: succeeds_mono [OF o])
qed

lemma buffer_write_roomy:
  assumes "layout_ok k0" "mtu k0 < 1073741824" "roomy k0 out k"
    and "length out + length bs \<le> unat (mtu k0)"
  shows "buffer_write bs out k = Some (out @ bs) \<and> roomy k0 (out @ bs) k"
  using assms(3,4) layout_unat(5) [OF assms(1,2)] by (simp add: buffer_write_def roomy_def)

section \<open>The control segments\<close>

lemma overhead_room:
  assumes "layout_ok k0" "mtu k0 < 1073741824" "roomy k0 out k"
  shows "succeeds (flush_room (to_int IKCP_OVERHEAD) out k) (\<lambda>(out', k').
    roomy k0 out' k' \<and> length out' + 24 \<le> unat (mtu k0))"
  by (rule succeeds_mono [OF flush_room_roomy [OF assms]])
    (use layout_unat(1) [OF assms(1,2)] in \<open>auto simp: IKCP_OVERHEAD_def simp del: of_nat_unat\<close>)

lemma flush_ack_roomy:
  assumes "layout_ok k0" "mtu k0 < 1073741824" "roomy k0 out k"
    and "acklist k0 = Some l" "2 * i + 1 < length l"
  shows "succeeds (flush_ack i seg out k) (\<lambda>(seg', out', k'). roomy k0 out' k')"
proof -
  have get: "ikcp_ack_get k' i = Some (l ! (i * 2 + 0), l ! (i * 2 + 1))" if "acklist k' = Some l" for k'
    using that assms(5) by (simp add: ikcp_ack_get_def)
  have body: "succeeds (do { (sn, ts) \<leftarrow> ikcp_ack_get k' i;
      let seg = seg\<lparr>seg_sn := sn, seg_ts := ts\<rparr>;
      out \<leftarrow> buffer_write (ikcp_encode_seg seg) out' k';
      Some (seg, out, k') }) (\<lambda>(seg', out', k'). roomy k0 out' k')"
    if r: "roomy k0 out' k'" "length out' + 24 \<le> unat (mtu k0)" for out' k'
  proof -
    have "acklist k' = Some l" using r(1) assms(4) by (simp add: roomy_def)
    from get [OF this] buffer_write_roomy [OF assms(1,2) r(1)] r(2) show ?thesis
      by (simp add: Let_def)
  qed
  show ?thesis unfolding flush_ack_def succeeds_bind
    by (rule succeeds_mono [OF overhead_room [OF assms(1-3)]]) (use body in auto)
qed

lemma flush_acks_roomy:
  assumes "layout_ok k0" "mtu k0 < 1073741824" "acklist k0 = Some l"
  shows "roomy k0 out k \<Longrightarrow> \<forall>i \<in> set is. 2 * i + 1 < length l \<Longrightarrow>
    succeeds (flush_acks is seg out k) (\<lambda>(seg', out', k'). roomy k0 out' k')"
proof (induction "is" arbitrary: seg out k)
  case (Cons i "is")
  have "2 * i + 1 < length l" using Cons.prems(2) by simp
  from flush_ack_roomy [OF assms(1,2) Cons.prems(1) assms(3) this, of seg] show ?case
    using Cons.IH Cons.prems(2) by (auto simp: run_simps elim!: succeeds_mono)
qed simp

lemma flush_probe_roomy:
  assumes "layout_ok k0" "mtu k0 < 1073741824" "roomy k0 out k"
  shows "succeeds (flush_probe a c seg out k) (\<lambda>(seg', out', k'). roomy k0 out' k')"
proof -
  have body: "succeeds (do { out \<leftarrow> buffer_write (ikcp_encode_seg s) out' k'; Some (s, out, k') })
      (\<lambda>(seg', out', k'). roomy k0 out' k')"
    if r: "roomy k0 out' k'" "length out' + 24 \<le> unat (mtu k0)" for s out' k'
    using buffer_write_roomy [OF assms(1,2) r(1)] r(2) by simp
  show ?thesis
    by (simp add: flush_probe_def assms(3) Let_def succeeds_bind)
      (use body in \<open>auto intro!: succeeds_mono [OF overhead_room [OF assms]]\<close>)
qed

lemma flush_control_roomy:
  assumes "kcp_ok kcp" "fits kcp"
  shows "succeeds (flush_control kcp) (\<lambda>(seg, out, k). roomy kcp out k)"
proof -
  have l: "layout_ok kcp" "mtu kcp < 1073741824" "ack_ok kcp" using assms by (simp_all add: kcp_ok_def fits_def)
  have r: "roomy kcp [] kcp" using assms(2) by (simp add: roomy_def sent_within_def fits_def)
  have ac: "unat (ackcount kcp) \<le> 2147483648" using l(3) by (simp add: ack_ok_def)
  have acks: "succeeds (flush_acks [0..<nat (to_int (ackcount kcp))] (flush_seg kcp) [] kcp)
      (\<lambda>(seg', out', k'). roomy kcp out' k')"
  proof (cases "acklist kcp")
    case None
    then have "ackcount kcp = 0" using l(3) by (auto simp: ack_ok_def unsigned_eq_0_iff)
    then show ?thesis using r by simp
  next
    case (Some al)
    have "nat (to_int (ackcount kcp)) \<le> unat (ackcount kcp)"
      using sint_unat [of "ackcount kcp"] sint_nonneg [of "ackcount kcp"]
      by (cases "unat (ackcount kcp) < 2147483648") (simp_all del: of_nat_unat)
    then show ?thesis
      by (intro flush_acks_roomy [OF l(1,2) Some r]) (use l(3) Some in \<open>auto simp: ack_ok_def\<close>)
  qed
  show ?thesis
    by (auto simp: flush_control_def run_simps Let_def
        intro!: succeeds_mono [OF acks] succeeds_mono [OF flush_probe_roomy [OF l(1,2)]])
qed

section \<open>The data segments\<close>

lemma flush_emit_roomy:
  assumes "layout_ok k0" "mtu k0 < 1073741824" "roomy k0 out k" "seg_ok s" "seg_len s \<le> mss k0"
  shows "succeeds (flush_emit wnd s out k) (\<lambda>(s', out', k'). roomy k0 out' k')"
proof -
  note m = layout_unat [OF assms(1,2)]
  have l: "unat (seg_len s) + 24 \<le> unat (mtu k0)" using assms(5) m by (simp add: word_le_nat_alt)
  then have u: "unat (24 + seg_len s) = unat (seg_len s) + 24"
    using m(2) by (simp only: unat_add_u32) simp
  then have i: "sint (24 + seg_len s) = int (unat (seg_len s) + 24)"
    using sint_unat [of "24 + seg_len s"] l m(2) by linarith
  have room: "succeeds (flush_room (sint (24 + seg_len s)) out k) (\<lambda>(out', k').
      roomy k0 out' k' \<and> int (length out') + sint (24 + seg_len s) \<le> int (unat (mtu k0)))"
    by (rule flush_room_roomy [OF assms(1-3)]) (use i l in linarith)+
  define s' where "s' = s\<lparr>seg_ts := current k, seg_wnd := wnd, seg_una := rcv_nxt k\<rparr>"
  have pay: "seg_payload s' = Some (seg_data s)" "length (seg_data s) = unat (seg_len s)"
    using assms(4) by (simp_all add: s'_def seg_payload_def seg_ok_def)
  have len: "seg_len s' = seg_len s" by (simp add: s'_def)
  have body: "succeeds (do {
      out \<leftarrow> buffer_write (ikcp_encode_seg s') out' k';
      d \<leftarrow> seg_payload s';
      out \<leftarrow> buffer_write d out k';
      Some (s', out, if dead_link k' \<le> seg_xmit s' then k'\<lparr>kstate := - 1\<rparr> else k') })
      (\<lambda>(s', out', k'). roomy k0 out' k')"
    if r: "roomy k0 out' k'" "int (length out') + sint (24 + seg_len s) \<le> int (unat (mtu k0))" for out' k'
  proof -
    have "length out' + (unat (seg_len s) + 24) \<le> unat (mtu k0)" using r(2) i by linarith
    then have "length out' + length (ikcp_encode_seg s') \<le> unat (mtu k0)"
      "length (out' @ ikcp_encode_seg s') + length (seg_data s) \<le> unat (mtu k0)"
      using pay(2) by (simp_all del: of_nat_unat)
    from buffer_write_roomy [OF assms(1,2) r(1) this(1)]
      buffer_write_roomy [OF assms(1,2) _ this(2)] show ?thesis by (simp add: pay(1))
  qed
  show ?thesis
    unfolding flush_emit_def Let_def s'_def [symmetric] len IKCP_OVERHEAD_def succeeds_bind
    by (rule succeeds_mono [OF room]) (use body in \<open>auto simp: succeeds_bind simp del: of_nat_unat\<close>)
qed

lemma flush_data_roomy:
  assumes "layout_ok k0" "mtu k0 < 1073741824"
  shows "roomy k0 out k \<Longrightarrow> \<forall>s \<in> set p. seg_ok s \<and> seg_len s \<le> mss k0 \<Longrightarrow>
    succeeds (flush_data wnd resent rtomin p change lost out k) (\<lambda>(p', c, l, out', k'). roomy k0 out' k')"
proof (induction p arbitrary: change lost out k)
  case (Cons s p)
  let ?r = "why_send resent k s"
  let ?s = "retime ?r rtomin k s"
  let ?k = "if ?r = Timeout then k\<lparr>xmit := xmit k + 1\<rparr> else k"
  have rec: "succeeds (flush_data wnd resent rtomin p c l out' k') (\<lambda>(p', c, l, out', k'). roomy k0 out' k')"
    if "roomy k0 out' k'" for c l out' k'
    by (rule Cons.IH) (use that Cons.prems in auto)
  have k: "roomy k0 out ?k" using Cons.prems(1) by simp
  have s: "seg_ok ?s" "seg_len ?s \<le> mss k0"
    using Cons.prems(2) by (simp_all add: retime_def split: send_reason.split)
      (simp_all add: seg_ok_def)
  have emit: "succeeds (if ?r \<noteq> Not_due then flush_emit wnd ?s out ?k else Some (?s, out, ?k))
      (\<lambda>(s', out', k'). roomy k0 out' k')"
    using flush_emit_roomy [OF assms k s] Cons.prems(1) by simp
  show ?case
    unfolding flush_data.simps Let_def succeeds_bind
    by (rule succeeds_mono [OF emit]) (auto simp: run_simps intro!: succeeds_mono [OF rec])
qed simp

section \<open>The whole function\<close>

lemma flush_roomy:
  assumes "kcp_ok kcp" "fits kcp"
  shows "succeeds (ikcp_flush kcp) (sent_within (unat (mtu kcp)) kcp)"
proof (cases "updated kcp = 0")
  case True
  then show ?thesis by (simp add: ikcp_flush_def sent_within_def)
next
  case False
  have l: "layout_ok kcp" "mtu kcp < 1073741824" using assms by (simp_all add: kcp_ok_def fits_def)
  obtain seg out k1 where c: "flush_control kcp = Some (seg, out, k1)" "roomy kcp out k1"
    using flush_control_roomy [OF assms] by (auto simp: succeeds_def)
  let ?m = "flush_move (seg_wnd seg) (flush_window k1) k1"
  note frame = flush_move_frame [of "seg_wnd seg" "flush_window k1" k1]
  have "kcp_ok ?m" by (rule move_window_ok [OF control_ok [OF assms(1) c(1)]])
  then have so: "send_ok ?m" by (simp add: kcp_ok_def)
  have w: "no_wire k1 = no_wire (kcp\<lparr>ackcount := 0\<rparr>)" using ensuresD [OF flush_control_wire c(1)] by simp
  have q: "snd_buf k1 = snd_buf kcp" "snd_queue k1 = snd_queue kcp"
    using no_wire_parts(1) [OF w] by (simp_all add: send_part_def)
  have "\<forall>s \<in> set (snd_buf ?m). seg_len s \<le> mss kcp"
    using frame assms(2) unfolding fits_def q by blast
  then have s: "\<forall>s \<in> set (snd_buf ?m). seg_ok s \<and> seg_len s \<le> mss kcp"
    using so by (auto simp: send_ok_def send_core_def)
  have r: "roomy kcp out ?m" using c(2) frame by (simp add: roomy_def sent_within_def)
  let ?resent = "if 0 < fastresend ?m then to_u32 (fastresend ?m) else 4294967295"
  let ?rtomin = "if nodelay ?m = 0 then to_u32 (rx_rto ?m div 8) else 0"
  obtain buf change lost out2 k2 where
    d: "flush_data (seg_wnd seg) ?resent ?rtomin (snd_buf ?m) False False out ?m = Some (buf, change, lost, out2, k2)"
      "roomy kcp out2 k2"
    using flush_data_roomy [OF l r s, of "seg_wnd seg" ?resent ?rtomin False False] by (auto simp: succeeds_def)
  have "succeeds (ikcp_output out2 (k2\<lparr>snd_buf := buf\<rparr>)) (\<lambda>(r, k'). roomy kcp [] k')"
    by (rule output_roomy) (simp add: d(2))
  then show ?thesis
    using False c(1) d by (auto simp: ikcp_flush_def Let_def succeeds_bind roomy_def sent_within_def
        elim!: succeeds_mono)
qed

end
