(* ===== verification/Kcp_Links.thy ===== *)
theory Kcp_Links
  imports Kcp_Fits
begin

text \<open>
  What no operation but the configuration calls changes: the connection id, the output callback and the
  sizes; and only \<open>ikcp_flush\<close> and \<open>ikcp_update\<close> hand packets to the callback.  Segments that are
  queued never become longer than the mss of the moment.
\<close>

section \<open>The relation\<close>

definition lens :: "ikcpcb \<Rightarrow> u32 set" where
  "lens kcp = seg_len ` set (snd_buf kcp @ snd_queue kcp)"

definition link :: "ikcpcb \<Rightarrow> u32 \<times> (byte list \<Rightarrow> int) option \<times> u32 \<times> u32 \<times> nat" where
  "link kcp = (conv kcp, koutput kcp, mtu kcp, mss kcp, buffer kcp)"

definition linked :: "ikcpcb \<Rightarrow> ikcpcb \<Rightarrow> bool" where
  "linked k k' \<longleftrightarrow> link k' = link k \<and> lens k' \<subseteq> lens k \<union> {..mss k}"

definition silent :: "ikcpcb \<Rightarrow> ikcpcb \<Rightarrow> bool" where
  "silent k k' \<longleftrightarrow> linked k k' \<and> packets k' = packets k"

interpretation linked: preorder_guarantee linked
  by unfold_locales (auto simp: linked_def link_def)

interpretation silent: preorder_guarantee silent
proof unfold_locales
  show "silent k k'' " if "silent k k'" "silent k' k''" for k k' k''
    using linked.R_trans [of k k' k''] that by (simp add: silent_def)
qed (simp add: silent_def linked.R_refl)

text \<open>Operations that leave the sender's queues and the link alone.\<close>

definition no_link :: "ikcpcb \<Rightarrow> _" where
  "no_link k = (link k, packets k, snd_buf k, snd_queue k)"

lemma quiet_same: "no_link k' = no_link k \<Longrightarrow> silent k k'"
  by (auto simp: no_link_def silent_def linked_def lens_def)

lemma quiet_into: "silent k k' \<Longrightarrow> no_link k'' = no_link k' \<Longrightarrow> silent k k''"
  by (rule silent.R_trans [OF _ quiet_same])

section \<open>Receiving\<close>

lemma rcv_move_link: "no_link (rcv_move kcp) = no_link kcp"
  by (induction kcp rule: rcv_move.induct)
    (subst rcv_move.simps, auto simp: no_link_def link_def split: list.split)

lemma recv_merge_link: "ensures (recv_merge cap b q out n kcp) (\<lambda>(out, n, k). no_link k = no_link kcp)"
proof (induction q arbitrary: out n kcp)
  case (Cons s q)
  have l: "no_link (kcp\<lparr>rcv_queue := q, nrcv_que := m\<rparr>) = no_link kcp" for q m
    by (simp add: no_link_def link_def)
  have rec: "ensures (recv_merge cap b q out n (kcp\<lparr>rcv_queue := q', nrcv_que := m\<rparr>))
      (\<lambda>(out, n, k). no_link k = no_link kcp)" for out n q' m
    using Cons.IH [of out n "kcp\<lparr>rcv_queue := q', nrcv_que := m\<rparr>"] by (simp only: l)
  show ?case using rec Cons.IH
    by (cases b; cases cap) (simp_all add: run_simps Let_def seg_payload_def l)
qed simp

lemma recv_quiet: "ensures (ikcp_recv cap n kcp) (\<lambda>(r, out, k). silent kcp k)"
proof -
  have "silent kcp (recv_recover b (rcv_move k))" if "no_link k = no_link kcp" for b k
    by (rule quiet_same) (use that rcv_move_link [of k] in \<open>simp add: recv_recover_def no_link_def link_def\<close>)
  then show ?thesis
    by (auto simp: ikcp_recv_def run_simps Let_def c_int_def silent.R_refl
        intro!: ensures_mono [OF recv_merge_link])
qed

section \<open>Sending\<close>

lemma send_fragments_quiet: "ensures (send_fragments k buf len sent kcp) (\<lambda>(r, k'). silent kcp k')"
proof (induction k arbitrary: buf len sent kcp)
  case (Suc k)
  show ?case
  proof (rule ensuresI)
    fix x assume e: "send_fragments (Suc k) buf len sent kcp = Some x"
    let ?n = "if to_int (mss kcp) < len then to_int (mss kcp) else len"
    from e obtain seg kcp1 d where a: "0 \<le> ?n" "ikcp_segment_new (nat ?n) kcp = (Some seg, kcp1)"
      and r: "send_fragments k (map_option (drop (nat ?n)) buf) (len - ?n) (sent + ?n)
        (kcp1\<lparr>snd_queue := snd_queue kcp1 @ [seg\<lparr>seg_data := d, seg_len := to_u32 ?n,
           seg_frg := (if stream kcp1 = 0 then of_nat k else 0)\<rparr>], nsnd_que := nsnd_que kcp1 + 1\<rparr>) = Some x"
      by (auto simp: C_assert_def Option.bind_eq_Some_conv Let_def split: prod.splits if_split_asm)
    let ?k = "kcp1\<lparr>snd_queue := snd_queue kcp1 @ [seg\<lparr>seg_data := d, seg_len := to_u32 ?n,
           seg_frg := (if stream kcp1 = 0 then of_nat k else 0)\<rparr>], nsnd_que := nsnd_que kcp1 + 1\<rparr>"
    have len: "to_u32 ?n \<le> mss kcp"
    proof -
      have n: "0 \<le> to_int (mss kcp) \<or> ?n = len \<and> len \<le> to_int (mss kcp)" "?n \<le> to_int (mss kcp)"
        using a(1) by auto
      then have "0 \<le> to_int (mss kcp)" using a(1) by linarith
      then have m: "to_int (mss kcp) = int (unat (mss kcp))" by (rule sint_nonneg_eq)
      have "?n < 4294967296" using n(2) sint_range(2) [of "mss kcp"] by linarith
      then have "unat (to_u32 ?n) = nat ?n" by (rule unat_to_u32 [OF a(1)])
      then show ?thesis using n(2) a(1) unfolding m by (simp add: word_le_nat_alt del: of_nat_unat)
    qed
    have "silent kcp ?k"
      using segment_new_Some [OF a(2)] len by (auto simp: silent_def linked_def link_def lens_def)
    with silent.after [OF this Suc.IH] r show "case x of (r, k') \<Rightarrow> silent kcp k'"
      by (auto simp: ensures_def)
  qed
qed (simp add: silent.R_refl)

lemma send_extend_quiet:
  assumes "kcp_ok kcp"
  shows "ensures (send_extend buf len kcp) (\<lambda>(s, b, l, k). silent kcp k)"
proof (cases "snd_queue kcp = [] \<or> \<not> seg_len (last (snd_queue kcp)) < mss kcp")
  case True
  then show ?thesis by (auto simp: send_extend_def Let_def silent.R_refl)
next
  case False
  let ?old = "last (snd_queue kcp)"
  let ?c = "to_int (mss kcp - seg_len ?old)"
  let ?e = "if len < ?c then len else ?c"
  have lt: "unat (seg_len ?old) < unat (mss kcp)" using False by (simp add: word_less_nat_alt)
  show ?thesis
  proof (rule ensuresI)
    fix x assume "send_extend buf len kcp = Some x"
    with False obtain seg kcp1 d b y where e: "0 \<le> ?e"
      and new: "ikcp_segment_new (nat (sint (seg_len ?old + to_u32 ?e))) kcp = (Some seg, kcp1)"
      and x: "x = (?e, map_option (drop (nat ?e)) buf, len - ?e, kcp1\<lparr>snd_queue := butlast (snd_queue kcp1) @
            [seg\<lparr>seg_data := d @ b, seg_len := seg_len ?old + to_u32 ?e, seg_frg := 0\<rparr>]\<rparr>)"
      by (auto simp: send_extend_def C_assert_def Option.bind_eq_Some_conv Let_def
          split: prod.splits if_split_asm)
    have le: "?e \<le> ?c" by simp
    then have "0 \<le> ?c" using e by linarith
    then have c: "?c = int (unat (mss kcp - seg_len ?old))" by (rule sint_nonneg_eq)
    have "?e < 4294967296" using le sint_range(2) [of "mss kcp - seg_len ?old"] by linarith
    then have ue: "unat (to_u32 ?e) = nat ?e" by (rule unat_to_u32 [OF e])
    have "nat ?e \<le> unat (mss kcp - seg_len ?old)" using le unfolding c by linarith
    then have "unat (seg_len ?old) + nat ?e \<le> unat (mss kcp)"
      using lt by (simp only: unat_sub_u32) (simp del: of_nat_unat)
    then have "seg_len ?old + to_u32 ?e \<le> mss kcp"
      using unat_less_max [of "mss kcp"] unfolding word_le_nat_alt unat_add_u32 ue by simp
    then show "case x of (s, b, l, k) \<Rightarrow> silent kcp k"
      using segment_new_Some [OF new] x
      by (auto simp: silent_def linked_def link_def lens_def dest: in_set_butlastD)
  qed
qed

lemma send_quiet:
  assumes "kcp_ok kcp"
  shows "ensures (ikcp_send buf len kcp) (\<lambda>(r, k). silent kcp k)"
proof -
  have rest: "ensures (send_rest b n sent k) (\<lambda>(r, k'). silent kcp k')" if "silent kcp k" for b n sent k
    using silent.after [OF that send_fragments_quiet] that by (simp add: send_rest_def Let_def)
  show ?thesis unfolding ikcp_send_def
    by (auto simp: run_simps rest silent.R_refl intro!: ensures_mono [OF send_extend_quiet [OF assms]])
qed

section \<open>Packets of the peer\<close>

lemma shrink_quiet: "silent k (ikcp_shrink_buf k)"
  by (rule quiet_same) (simp add: ikcp_shrink_buf_def no_link_def link_def split: list.split)

lemma quiet_fewer:
  assumes "set b \<subseteq> set (snd_buf k)"
  shows "silent k (k\<lparr>snd_buf := b, nsnd_buf := n\<rparr>)"
  using assms by (auto simp: silent_def linked_def link_def lens_def)

lemma parse_una_quiet: "silent k (ikcp_parse_una una k)"
  using quiet_fewer [of "dropWhile (\<lambda>s. 0 < itimediff una (seg_sn s)) (snd_buf k)" k]
  by (auto simp: ikcp_parse_una_def parse_una_loop_eq dest: set_dropWhileD)

lemma parse_ack_loop_subset: "set (fst (parse_ack_loop sn q)) \<subseteq> set q"
  by (induction q) (auto split: prod.split)

lemma parse_ack_quiet: "silent k (ikcp_parse_ack sn k)"
  using quiet_fewer [OF parse_ack_loop_subset [of sn "snd_buf k"]]
  by (auto simp: ikcp_parse_ack_def silent.R_refl split: prod.split)

lemma parse_fastack_loop_len: "map seg_len (parse_fastack_loop sn ts q) = map seg_len q"
  by (induction q) simp_all

lemma parse_fastack_quiet: "silent k (ikcp_parse_fastack sn ts k)"
  using arg_cong [OF parse_fastack_loop_len [of sn ts "snd_buf k"], of set]
  by (auto simp: ikcp_parse_fastack_def silent_def linked_def link_def lens_def image_Un)

lemma update_ack_quiet: "ensures (ikcp_update_ack rtt k) (silent k)"
proof (rule ensures_mono [OF update_ack_frame])
  fix k' assume "no_rtt k' = no_rtt k"
  from arg_cong [OF this, of no_link] show "silent k k'"
    by (intro quiet_same) (simp add: no_link_def link_def no_rtt_def)
qed

lemma input_ack_quiet: "ensures (input_ack h k) (silent k)"
proof -
  have after: "silent k (ikcp_shrink_buf (ikcp_parse_ack sn k'))" if "silent k k'" for sn k'
    by (rule silent.R_trans [OF silent.R_trans [OF that parse_ack_quiet] shrink_quiet])
  show ?thesis
    by (auto simp: input_ack_def run_simps after silent.R_refl intro!: ensures_mono [OF update_ack_quiet])
qed

lemma ack_push_link: "ack_ok k \<Longrightarrow> ensures (ikcp_ack_push sn ts k) (\<lambda>k'. no_link k' = no_link k \<and> ack_ok k')"
  by (rule ensures_mono [OF ack_push_spec]) (auto simp: no_link_def link_def)

lemma parse_data_link: "no_link (ikcp_parse_data seg k) = no_link k"
proof -
  have "no_link (rcv_move (k\<lparr>rcv_buf := b, nrcv_buf := n\<rparr>)) = no_link k" for b n
    by (simp only: rcv_move_link) (simp add: no_link_def link_def)
  then show ?thesis
    by (simp add: ikcp_parse_data_def Let_def rcv_move_link split: prod.split)
qed

lemma input_push_quiet:
  assumes "ack_ok k" "0 \<le> to_int (h_len h)"
  shows "ensures (input_push h data k) (silent k)"
proof -
  have data: "ensures (input_segment h data k') (\<lambda>(seg, k''). no_link (ikcp_parse_data seg k'') = no_link k')" for k'
    by (rule ensures_mono [OF input_segment_spec [OF assms(2)]])
      (auto simp: parse_data_link, auto simp: no_link_def link_def)
  have "ensures (input_push h data k) (\<lambda>k'. no_link k' = no_link k)"
    by (auto simp: input_push_def run_simps
        intro!: ensures_mono [OF ack_push_link [OF assms(1)]] ensures_mono [OF data])
  then show ?thesis by (rule ensures_mono) (rule quiet_same)
qed

lemma input_body_quiet:
  assumes "kcp_ok k" "0 \<le> to_int (h_len h)"
  shows "ensures (input_segment_body h data mark k) (\<lambda>(m, k'). silent k k')"
proof -
  let ?k = "ikcp_shrink_buf (ikcp_parse_una (h_una h) (k\<lparr>rmt_wnd := ucast (h_wnd h)\<rparr>))"
  have q: "silent k ?k"
    by (rule silent.R_trans [OF silent.R_trans [OF quiet_same parse_una_quiet] shrink_quiet])
      (simp add: no_link_def link_def)
  have "ack_ok ?k" using input_una_ok [OF assms(1)] by (simp add: kcp_ok_def)
  note push = input_push_quiet [OF this assms(2)]
  have t: "silent ?k k' \<Longrightarrow> silent k k'" for k' by (rule silent.R_trans [OF q])
  have p: "silent k (?k\<lparr>probe := p\<rparr>)" for p by (rule quiet_into [OF q]) (simp add: no_link_def link_def)
  show ?thesis unfolding input_segment_body_def Let_def
    by (simp add: run_simps q p) (blast intro: ensures_mono [OF input_ack_quiet] ensures_mono [OF push] t)
qed

interpretation silent_input: input_invariant "\<lambda>k. kcp_ok k \<and> silent k0 k" for k0
proof unfold_locales
  show "ensures (input_segment_body h d m k) (\<lambda>(m, k'). kcp_ok k' \<and> silent k0 k')"
    if "kcp_ok k \<and> silent k0 k" "0 \<le> to_int (h_len h)" for k h d m
  proof -
    have "ensures (input_segment_body h d m k) (\<lambda>x. kcp_ok (snd x))"
      by (rule ensures_mono [OF input_segment_body_ok]) (use that in auto)
    moreover have "ensures (input_segment_body h d m k) (\<lambda>x. silent k0 (snd x))"
      by (rule ensures_mono [OF input_body_quiet]) (use that silent.R_trans in auto)
    ultimately show ?thesis by (simp add: ensures_def)
  qed
  show "kcp_ok (ikcp_parse_fastack sn ts k) \<and> silent k0 (ikcp_parse_fastack sn ts k)"
    if "kcp_ok k \<and> silent k0 k" for sn ts k
    using that ok_input.fastack [of k] silent.R_trans [OF _ parse_fastack_quiet] by blast
  show "kcp_ok (k\<lparr>cwnd := c, incr := i\<rparr>) \<and> silent k0 (k\<lparr>cwnd := c, incr := i\<rparr>)"
    if "kcp_ok k \<and> silent k0 k" for k c i
    using that ok_input.window [of k] quiet_into [of k0 k] by (simp add: no_link_def link_def)
qed

lemma input_quiet:
  assumes "kcp_ok k"
  shows "ensures (ikcp_input data n k) (\<lambda>(r, k'). silent k k')"
  by (rule ensures_mono [OF silent_input.input_keeps [of k k]]) (use assms silent.R_refl in auto)

section \<open>Flushing\<close>

lemma no_wire_linked:
  assumes "no_wire k' = no_wire k"
  shows "linked k k'"
  using arg_cong [OF assms, of link] arg_cong [OF assms, of lens]
  by (simp add: no_wire_def link_def linked_def lens_def)

lemma flush_move_linked: "link (flush_move wnd w k) = link k \<and> lens (flush_move wnd w k) = lens k"
proof (induction wnd w k rule: flush_move.induct)
  case (1 wnd w k)
  have step: "link (k\<lparr>snd_queue := p, snd_buf := snd_buf k @ [number_segment wnd k newseg],
      nsnd_que := a, nsnd_buf := b, snd_nxt := c\<rparr>) = link k"
    "lens (k\<lparr>snd_queue := p, snd_buf := snd_buf k @ [number_segment wnd k newseg],
      nsnd_que := a, nsnd_buf := b, snd_nxt := c\<rparr>) = lens k"
    if "snd_queue k = newseg # p" for newseg p a b c
    using that by (auto simp: link_def lens_def number_segment_def)
  show ?case using 1 step
    by (subst (1 2) flush_move.simps) (auto split: list.split)
qed

lemma flush_linked:
  assumes "ikcp_flush k = Some k'"
  shows "linked k k'"
proof (cases "updated k = 0")
  case True
  then show ?thesis using assms by (simp add: ikcp_flush_def linked.R_refl)
next
  case False
  then obtain seg out k1 buf change lost out2 k2 k3 resent rtomin w where
    c: "flush_control k = Some (seg, out, k1)" "w = flush_window k1"
    and d: "flush_data (seg_wnd seg) resent rtomin (snd_buf (flush_move (seg_wnd seg) w k1)) False False out
     (flush_move (seg_wnd seg) w k1) = Some (buf, change, lost, out2, k2)"
    and o: "(if 0 < length out2 then do { (_, k) \<leftarrow> ikcp_output out2 (k2\<lparr>snd_buf := buf\<rparr>); Some k }
    else Some (k2\<lparr>snd_buf := buf\<rparr>)) = Some k3"
    and e: "k' = flush_cwnd change lost resent w k3"
    by (rule flush_stages [OF assms])
  let ?m = "flush_move (seg_wnd seg) w k1"
  have "linked (k\<lparr>ackcount := 0\<rparr>) k1"
    by (rule no_wire_linked) (use ensuresD [OF flush_control_wire c(1)] in simp)
  then have 1: "linked k k1" by (simp add: linked_def link_def lens_def)
  have "linked k1 ?m" using flush_move_linked [of "seg_wnd seg" w k1] by (simp add: linked_def)
  with 1 have m: "linked k ?m" by (rule linked.R_trans)
  have dw: "map seg_core buf = map seg_core (snd_buf ?m)" "no_wire k2 = no_wire ?m"
    using ensuresD [OF flush_data_wire d] by simp_all
  have "seg_len ` set b = (\<lambda>(n, l, d, c, m). l) ` set (map seg_core b)" for b
    by (force simp: seg_core_def)
  then have "seg_len ` set buf = seg_len ` set (snd_buf ?m)" using dw(1) by metis
  moreover have "snd_queue k2 = snd_queue ?m" using no_wire_parts(1) [OF dw(2)] by (simp add: send_part_def)
  ultimately have "lens (k2\<lparr>snd_buf := buf\<rparr>) = lens ?m" by (simp add: lens_def image_Un)
  moreover have "link (k2\<lparr>snd_buf := buf\<rparr>) = link ?m"
    using no_wire_linked [OF dw(2)] by (simp add: linked_def link_def)
  ultimately have "linked ?m (k2\<lparr>snd_buf := buf\<rparr>)" by (simp add: linked_def)
  then have 2: "linked k (k2\<lparr>snd_buf := buf\<rparr>)" by (rule linked.R_trans [OF m])
  have "linked (k2\<lparr>snd_buf := buf\<rparr>) k3"
    using o by (intro no_wire_linked)
      (auto simp: Option.bind_eq_Some_conv split: if_splits dest: ensuresD [OF output_wire])
  with 2 have "linked k k3" by (rule linked.R_trans)
  then show ?thesis by (simp add: e flush_cwnd_def Let_def linked_def link_def lens_def)
qed

end
