(* ===== verification/Kcp_Runs.thy ===== *)
theory Kcp_Runs
  imports Kcp_Links
begin

text \<open>
  Sequences of calls on one control block: the user's operations and the packets of the network in any
  order and with any arguments.  What holds in every state that can be reached this way.
\<close>

section \<open>Calls\<close>

datatype kcp_call =
    Create_output "(byte list \<Rightarrow> int) option"
  | Send "byte list option" int
  | Recv "nat option" int
  | Input "byte list option" int
  | Update u32
  | Flush
  | Set_mtu int
  | Set_interval int
  | Set_nodelay int int int int
  | Set_wndsize int int
  | Set_stream int

definition kcp_perform :: "kcp_call \<Rightarrow> ikcpcb \<Rightarrow> ikcpcb option" where
  "kcp_perform call kcp =
     (case call of
        Create_output f \<Rightarrow> Some (ikcp_setoutput f kcp)
      | Send buf n \<Rightarrow> map_option snd (ikcp_send buf n kcp)
      | Recv cap n \<Rightarrow> map_option (\<lambda>(r, out, k). k) (ikcp_recv cap n kcp)
      | Input data n \<Rightarrow> map_option snd (ikcp_input data n kcp)
      | Update now \<Rightarrow> ikcp_update now kcp
      | Flush \<Rightarrow> ikcp_flush kcp
      | Set_mtu m \<Rightarrow> Some (snd (ikcp_setmtu m kcp))
      | Set_interval i \<Rightarrow> Some (snd (ikcp_interval i kcp))
      | Set_nodelay nd i resend nc \<Rightarrow> Some (snd (ikcp_nodelay nd i resend nc kcp))
      | Set_wndsize s r \<Rightarrow> Some (snd (ikcp_wndsize s r kcp))
      | Set_stream b \<Rightarrow> Some (kcp\<lparr>stream := b\<rparr>))"

text \<open>The arguments of type \<open>int\<close> are in its range; the size of a packet is a \<open>long\<close>.\<close>

definition is_int :: "int \<Rightarrow> bool" where
  "is_int i \<longleftrightarrow> - 2147483648 \<le> i \<and> i < 2147483648"

definition int_arguments :: "kcp_call \<Rightarrow> bool" where
  "int_arguments call \<longleftrightarrow>
     (case call of
        Send buf n \<Rightarrow> is_int n
      | Recv cap n \<Rightarrow> is_int n
      | Set_mtu m \<Rightarrow> is_int m
      | Set_interval i \<Rightarrow> is_int i
      | Set_nodelay nd i resend nc \<Rightarrow> is_int nd \<and> is_int i \<and> is_int resend \<and> is_int nc
      | Set_wndsize s r \<Rightarrow> is_int s \<and> is_int r
      | Set_stream b \<Rightarrow> is_int b
      | _ \<Rightarrow> True)"

inductive kcp_reachable :: "kcp_env \<Rightarrow> u32 \<Rightarrow> ikcpcb \<Rightarrow> bool" for E c where
  created: "ikcp_create E c = Some kcp \<Longrightarrow> kcp_reachable E c kcp"
| called: "kcp_reachable E c kcp \<Longrightarrow> int_arguments call \<Longrightarrow> kcp_perform call kcp = Some kcp' \<Longrightarrow>
    kcp_reachable E c kcp'"

section \<open>The invariant of all runs\<close>

text \<open>\<open>ikcp_update\<close> in two steps: the bookkeeping of the first call, and the flush if it is due.\<close>

definition started :: "u32 \<Rightarrow> ikcpcb \<Rightarrow> ikcpcb" where
  "started now kcp = (if updated kcp = 0 then kcp\<lparr>current := now, updated := 1, ts_flush := now\<rparr>
     else kcp\<lparr>current := now\<rparr>)"

definition skewed :: "u32 \<Rightarrow> u32 \<Rightarrow> bool" where
  "skewed now t \<longleftrightarrow> 10000 \<le> itimediff now t \<or> itimediff now t < - 10000"

definition next_flush :: "u32 \<Rightarrow> u32 \<Rightarrow> u32 \<Rightarrow> u32" where
  "next_flush now t i = (let t' = (if skewed now t then now else t) + i
     in if 0 \<le> itimediff now t' then now + i else t')"

lemma update_eq: "ikcp_update now kcp = (let k = started now kcp in
  if 0 \<le> itimediff now (ts_flush k) \<or> skewed now (ts_flush k)
  then ikcp_flush (k\<lparr>ts_flush := next_flush now (ts_flush k) (interval k)\<rparr>) else Some k)"
proof (cases "updated kcp = 0")
  case True
  then show ?thesis
    by (simp add: ikcp_update_def started_def next_flush_def skewed_def Let_def itimediff_def)
next
  case False
  show ?thesis
  proof (cases "skewed now (ts_flush kcp)")
    case True
    with False show ?thesis
      by (simp add: ikcp_update_def started_def next_flush_def Let_def itimediff_def) (auto simp: skewed_def itimediff_def)
  next
    case nskewed: False
    with False show ?thesis
      by (simp add: ikcp_update_def started_def next_flush_def Let_def) (simp add: skewed_def)
  qed
qed

definition link_ok :: "u32 \<Rightarrow> ikcpcb \<Rightarrow> bool" where
  "link_ok c kcp \<longleftrightarrow> kcp_ok kcp \<and> conv kcp = c \<and> (\<forall>p \<in> set (packets kcp). packet_ok c p)"

lemma link_ok_quiet: "link_ok c k \<Longrightarrow> kcp_ok k' \<Longrightarrow> silent k k' \<Longrightarrow> link_ok c k'"
  by (simp add: link_ok_def silent_def linked_def link_def)

lemma link_ok_config:
  "link_ok c k \<Longrightarrow> kcp_ok k' \<Longrightarrow> conv k' = conv k \<Longrightarrow> packets k' = packets k \<Longrightarrow> link_ok c k'"
  by (simp add: link_ok_def)

lemma flush_link_ok: "link_ok c k \<Longrightarrow> ikcp_flush k = Some k' \<Longrightarrow> link_ok c k'"
  using ensuresD [OF flush_packets [of k], of k'] ensuresD [OF flush_ok [of k], of k']
  by (simp add: link_ok_def)

lemma update_link_ok:
  assumes "link_ok c k" "ikcp_update now k = Some k'"
  shows "link_ok c k'"
proof -
  have l: "link_ok c (k\<lparr>current := now, updated := u, ts_flush := t\<rparr>)" "link_ok c (k\<lparr>current := now\<rparr>)"
      "link_ok c (k\<lparr>current := now, ts_flush := t\<rparr>)" for u t
    using assms(1) kcp_ok_same [of k "k\<lparr>current := now, updated := u, ts_flush := t\<rparr>"]
      kcp_ok_same [of k "k\<lparr>current := now\<rparr>"] kcp_ok_same [of k "k\<lparr>current := now, ts_flush := t\<rparr>"]
    by (simp_all add: link_ok_def part_defs)
  have s: "link_ok c (started now k)" "link_ok c (started now k\<lparr>ts_flush := t\<rparr>)" for t
    using l by (simp_all add: started_def)
  show ?thesis
    using assms(2) s(1) flush_link_ok [OF s(2)] by (auto simp: update_eq Let_def split: if_splits)
qed

lemma config_frame:
  "conv (snd (ikcp_setmtu m k)) = conv k" "packets (snd (ikcp_setmtu m k)) = packets k"
  "conv (snd (ikcp_interval i k)) = conv k" "packets (snd (ikcp_interval i k)) = packets k"
  "conv (snd (ikcp_nodelay nd i r nc k)) = conv k" "packets (snd (ikcp_nodelay nd i r nc k)) = packets k"
  "conv (snd (ikcp_wndsize s w k)) = conv k" "packets (snd (ikcp_wndsize s w k)) = packets k"
  by (simp_all add: ikcp_setmtu_def ikcp_malloc_def ikcp_interval_def ikcp_nodelay_def ikcp_wndsize_def Let_def)

lemma perform_link_ok:
  assumes "link_ok c k" "int_arguments call" "kcp_perform call k = Some k'"
  shows "link_ok c k'"
proof -
  have ok: "kcp_ok k" using assms(1) by (simp add: link_ok_def)
  note config = link_ok_config [OF assms(1)]
  show ?thesis
  proof (cases call)
    case (Send b n)
    then obtain r where "ikcp_send b n k = Some (r, k')" using assms(3) by (auto simp: kcp_perform_def)
    with ensuresD [OF send_call_ok [OF ok]] ensuresD [OF send_quiet [OF ok]] show ?thesis
      by (intro link_ok_quiet [OF assms(1)]) auto
  next
    case (Recv b n)
    then obtain r out where "ikcp_recv b n k = Some (r, out, k')" using assms(3) by (auto simp: kcp_perform_def)
    with ensuresD [OF recv_call_ok [OF ok]] ensuresD [OF recv_quiet] show ?thesis
      by (intro link_ok_quiet [OF assms(1)]) auto
  next
    case (Input d n)
    then obtain r where "ikcp_input d n k = Some (r, k')" using assms(3) by (auto simp: kcp_perform_def)
    with ensuresD [OF ok_input.input_keeps [OF ok]] ensuresD [OF input_quiet [OF ok]] show ?thesis
      by (intro link_ok_quiet [OF assms(1)]) auto
  next
    case (Update now)
    then show ?thesis using assms(1,3) update_link_ok by (simp add: kcp_perform_def)
  next
    case Flush
    then show ?thesis using assms(1,3) flush_link_ok by (simp add: kcp_perform_def)
  next
    case (Set_mtu m)
    then show ?thesis using assms(2,3) config setmtu_ok [OF ok]
      by (auto simp: kcp_perform_def config_frame int_arguments_def is_int_def)
  next
    case (Set_wndsize s r)
    then show ?thesis using assms(2,3) config wndsize_ok [OF ok]
      by (auto simp: kcp_perform_def config_frame int_arguments_def is_int_def)
  next
    case (Create_output f)
    then show ?thesis using assms(3) config setoutput_ok [OF ok]
      by (auto simp: kcp_perform_def ikcp_setoutput_def)
  next
    case (Set_stream b)
    then show ?thesis using assms(3) config kcp_ok_same [OF ok, of "k\<lparr>stream := b\<rparr>"]
      by (auto simp: kcp_perform_def part_defs)
  qed (use assms(3) config interval_ok [OF ok] nodelay_ok [OF ok] in \<open>auto simp: kcp_perform_def config_frame\<close>)
qed

lemma create_conv: "ikcp_create E c = Some k \<Longrightarrow> conv k = c \<and> packets k = []"
  by (auto simp: ikcp_create_def Let_def split: if_splits)

lemma reachable_link_ok: "kcp_reachable E c k \<Longrightarrow> link_ok c k"
proof (induction rule: kcp_reachable.induct)
  case (created kcp)
  then show ?case using ensuresD [OF create_ok] create_conv by (fastforce simp: link_ok_def)
next
  case (called kcp call kcp')
  then show ?case using perform_link_ok by blast
qed

end
