(* ===== verification/Kcp_Runs_Correct.thy ===== *)
theory Kcp_Runs_Correct
  imports Kcp_Runs
begin

text \<open>
  What holds of a KCP endpoint after any sequence of calls: the send window, the order of what is
  received, the timers, the form of what is sent; and when \<open>ikcp_flush\<close> returns, with what bounds.
\<close>

section \<open>An example run\<close>

declare ack_newblock.simps [code]

definition kcp_demo_env :: kcp_env where
  "kcp_demo_env = \<lparr>kenv_alloc = \<lambda>n k. True, kenv_byte = \<lambda>n k. 0, kenv_word = \<lambda>n k. 0\<rparr>"

fun kcp_perform_all :: "kcp_call list \<Rightarrow> ikcpcb \<Rightarrow> ikcpcb option" where
  "kcp_perform_all [] kcp = Some kcp"
| "kcp_perform_all (call # calls) kcp = do { kcp \<leftarrow> kcp_perform call kcp; kcp_perform_all calls kcp }"

lemma kcp_calls_reachable:
  "kcp_reachable E c k \<Longrightarrow> \<forall>call \<in> set calls. int_arguments call \<Longrightarrow> kcp_perform_all calls k = Some k' \<Longrightarrow>
   kcp_reachable E c k'"
proof (induction calls arbitrary: k)
  case (Cons call calls)
  then obtain k1 where "kcp_perform call k = Some k1" "kcp_perform_all calls k1 = Some k'"
    by (auto simp: Option.bind_eq_Some_conv)
  with Cons show ?case by (meson called list.set_intros)
qed simp

text \<open>Two messages of 30 and 3 bytes over an mtu of 50, flushed twice.\<close>

definition kcp_demo_calls :: "kcp_call list" where
  "kcp_demo_calls = [Create_output (Some (\<lambda>d. 0)), Set_mtu 50, Set_nodelay 1 10 2 1,
     Send (Some (replicate 30 1)) 30, Send (Some [1, 2, 3]) 3, Update 100, Update 110]"

definition demo :: ikcpcb where
  "demo = (case Option.bind (ikcp_create kcp_demo_env 7) (kcp_perform_all kcp_demo_calls) of Some k \<Rightarrow> k
     | None \<Rightarrow> (case ikcp_create kcp_demo_env 7 of Some k \<Rightarrow> k))"

lemma demo_returns: "Option.bind (ikcp_create kcp_demo_env 7) (kcp_perform_all kcp_demo_calls) = Some demo"
proof -
  have "\<not> Option.is_none (Option.bind (ikcp_create kcp_demo_env 7) (kcp_perform_all kcp_demo_calls))"
    by code_simp
  then show ?thesis by (auto simp: demo_def Option.is_none_def)
qed

lemma demo_reachable: "kcp_reachable kcp_demo_env 7 demo"
proof -
  obtain k where k: "ikcp_create kcp_demo_env 7 = Some k" "kcp_perform_all kcp_demo_calls k = Some demo"
    using demo_returns by (auto simp: Option.bind_eq_Some_conv)
  have "\<forall>call \<in> set kcp_demo_calls. int_arguments call"
    by (simp add: kcp_demo_calls_def int_arguments_def is_int_def)
  with k show ?thesis using kcp_calls_reachable created by blast
qed

section \<open>Every reachable state\<close>

text \<open>
  C8.  The send window: after any calls, the segments in flight carry strictly ascending sequence numbers
  between \<open>snd_una\<close>, which is the first of them, and \<open>snd_nxt\<close>, at most 65535 apart; they carry the
  connection's id and the push command; and the counters are the lengths of the queues.
\<close>

theorem sender_window:
  assumes "kcp_reachable E c kcp"
  shows "sorted_wrt (<) (map (\<lambda>s. offset (snd_una kcp) (seg_sn s)) (snd_buf kcp)) \<and>
    (\<forall>s \<in> set (snd_buf kcp). offset (snd_una kcp) (seg_sn s) < offset (snd_una kcp) (snd_nxt kcp) \<and>
       seg_conv s = c \<and> seg_cmd s = IKCP_CMD_PUSH \<and> length (seg_data s) = unat (seg_len s)) \<and>
    snd_una kcp = (case snd_buf kcp of [] \<Rightarrow> snd_nxt kcp | s # _ \<Rightarrow> seg_sn s) \<and>
    offset (snd_una kcp) (snd_nxt kcp) \<le> 65535 \<and>
    nsnd_buf kcp = of_nat (length (snd_buf kcp)) \<and> nsnd_que kcp = of_nat (length (snd_queue kcp))"
  using reachable_link_ok [OF assms]
  by (auto simp: link_ok_def kcp_ok_def send_ok_def send_core_def ascending_def positions_def
      tagged_def seg_ok_def first_sn_def split: list.split)

theorem sender_window_witness:
  "map seg_sn (snd_buf demo) = [0, 1, 2] \<and> offset (snd_una demo) (snd_nxt demo) \<le> 65535"
proof -
  have "map seg_sn (snd_buf demo) = [0, 1, 2]" by code_simp
  then show ?thesis using sender_window [OF demo_reachable] by blast
qed

text \<open>
  C7.  In order, without gaps or duplicates: after any calls and any packets, the segments waiting for the
  user are exactly those with the consecutive sequence numbers that end right before \<open>rcv_nxt\<close>, and the
  segments that arrived early have strictly ascending numbers from \<open>rcv_nxt\<close> on.
\<close>

theorem receiver_order:
  assumes "kcp_reachable E c kcp"
  shows "(\<forall>i < length (rcv_queue kcp).
      seg_sn (rcv_queue kcp ! i) = rcv_nxt kcp - of_nat (length (rcv_queue kcp)) + of_nat i) \<and>
    sorted_wrt (<) (map (\<lambda>s. offset (rcv_nxt kcp) (seg_sn s)) (rcv_buf kcp)) \<and>
    (\<forall>s \<in> set (rcv_buf kcp). offset (rcv_nxt kcp) (seg_sn s) < 2147483648) \<and>
    nrcv_buf kcp = of_nat (length (rcv_buf kcp)) \<and> nrcv_que kcp = of_nat (length (rcv_queue kcp))"
  using reachable_link_ok [OF assms]
  by (auto simp: link_ok_def kcp_ok_def recv_ok_def ascending_def positions_def in_order_def)

definition demo_frame :: "u32 \<Rightarrow> byte list" where
  "demo_frame sn = encode_header \<lparr>h_conv = 7, h_cmd = 81, h_frg = 0, h_wnd = 128, h_ts = 5, h_sn = sn,
     h_una = 0, h_len = 1\<rparr> @ [ucast sn]"

definition demo_receiver :: ikcpcb where
  "demo_receiver = (case kcp_perform_all (map (\<lambda>sn. Input (Some (demo_frame sn)) 25) [0, 2, 1, 4, 2]) demo of
     Some k \<Rightarrow> k | None \<Rightarrow> demo)"

lemma demo_receiver_reachable: "kcp_reachable kcp_demo_env 7 demo_receiver"
proof -
  have "\<forall>call \<in> set (map (\<lambda>sn. Input (Some (demo_frame sn)) 25) [0, 2, 1, 4, 2]). int_arguments call"
    by (simp add: int_arguments_def)
  from kcp_calls_reachable [OF demo_reachable this] show ?thesis
    by (simp del: kcp_perform_all.simps list.map add: demo_receiver_def demo_reachable split: option.split)
qed

theorem receiver_order_witness:
  "map seg_sn (rcv_queue demo_receiver) = [0, 1, 2] \<and> map seg_sn (rcv_buf demo_receiver) = [4] \<and>
   seg_sn (rcv_queue demo_receiver ! 2) = rcv_nxt demo_receiver - of_nat (length (rcv_queue demo_receiver)) + of_nat 2"
proof -
  have "map seg_sn (rcv_queue demo_receiver) = [0, 1, 2]" by code_simp
  moreover have "map seg_sn (rcv_buf demo_receiver) = [4]" by code_simp
  moreover have "2 < length (rcv_queue demo_receiver)"
    using arg_cong [OF calculation(1), of length] by simp
  ultimately show ?thesis using receiver_order [OF demo_receiver_reachable] by blast
qed

text \<open>
  The timers are bounded: after any calls and any acknowledgements, forged ones included, the
  retransmission timeout is between 30 ms and 60 s, the minimum that is in force is 30 or 100 ms, and
  the flush interval is between 10 ms and 5 s.
\<close>

theorem timers_bounded:
  assumes "kcp_reachable E c kcp"
  shows "30 \<le> rx_rto kcp \<and> rx_rto kcp \<le> 60000 \<and> (rx_minrto kcp = 30 \<or> rx_minrto kcp = 100) \<and>
    10 \<le> interval kcp \<and> interval kcp \<le> 5000"
  using reachable_link_ok [OF assms] by (auto simp: link_ok_def kcp_ok_def timing_ok_def)

theorem timers_bounded_witness: "rx_minrto demo_receiver = 30 \<and> rx_rto demo_receiver \<le> 60000"
proof -
  have "rx_minrto demo_receiver = 30" by code_simp
  then show ?thesis using timers_bounded [OF demo_receiver_reachable] by simp
qed

text \<open>
  C31.  What is sent is well formed: after any calls, every packet that was given to the output callback is
  a sequence of frames, each a header with the connection's id, a known command and the length of the
  payload behind it.
\<close>

theorem packets_well_formed:
  assumes "kcp_reachable E c kcp" "p \<in> set (packets kcp)"
  shows "\<exists>fs. p = encode_frames fs \<and> (\<forall>(h, d) \<in> set fs. h_conv h = c \<and>
    known_command (ucast (h_cmd h)) \<and> length d = unat (h_len h) \<and> length d < 2147483648)"
proof -
  have "packet_ok c p" using reachable_link_ok [OF assms(1)] assms(2) by (simp add: link_ok_def)
  then show ?thesis by (fastforce simp: packet_ok_def frame_ok_def)
qed

theorem packets_well_formed_witness:
  "\<exists>fs. packets demo ! 1 = encode_frames fs \<and> (\<forall>(h, d) \<in> set fs. h_conv h = 7 \<and>
    known_command (ucast (h_cmd h)) \<and> length d = unat (h_len h) \<and> length d < 2147483648)"
proof -
  have "1 < length (packets demo)" by code_simp
  then have "packets demo ! 1 \<in> set (packets demo)" by (rule nth_mem)
  from packets_well_formed [OF demo_reachable this] show ?thesis .
qed

end
