(* ===== verification/Kcp_Flow.thy ===== *)
theory Kcp_Flow
  imports Kcp_Runs_Correct
begin

text \<open>
  Flow control and schedule: a flush returns and keeps to the mtu and the windows, loses nothing that is
  queued, and \<open>ikcp_update\<close> flushes when \<open>ikcp_check\<close> says so.
\<close>

section \<open>A flush returns\<close>

lemma fits_linked: "linked k k' \<Longrightarrow> fits k \<Longrightarrow> fits k'"
  by (auto simp: fits_def linked_def link_def lens_def)

definition keeps_mtu :: "kcp_call \<Rightarrow> bool" where
  "keeps_mtu call \<longleftrightarrow> (case call of Set_mtu m \<Rightarrow> False | Create_output f \<Rightarrow> f \<noteq> None | _ \<Rightarrow> True)"

lemma linked_started: "linked k (started now k)" "linked k (started now k\<lparr>ts_flush := t\<rparr>)"
  by (simp_all add: started_def linked_def link_def lens_def)

lemma update_linked: "ikcp_update now k = Some k' \<Longrightarrow> linked k k'"
  using linked_started linked.R_trans [OF linked_started(2) flush_linked]
  by (auto simp: update_eq Let_def split: if_splits)

lemma config_linked:
  "linked k (snd (ikcp_interval i k))" "linked k (snd (ikcp_nodelay nd i r nc k))"
  "linked k (snd (ikcp_wndsize s w k))" "linked k (k\<lparr>stream := b\<rparr>)"
  by (simp_all add: linked_def link_def lens_def ikcp_interval_def ikcp_nodelay_def ikcp_wndsize_def Let_def)

lemma perform_fits:
  assumes "kcp_ok k" "fits k" "keeps_mtu call" "kcp_perform call k = Some k'"
  shows "fits k'"
proof (cases call)
  case (Create_output f)
  then show ?thesis using assms by (auto simp: kcp_perform_def fits_def ikcp_setoutput_def keeps_mtu_def)
next
  case (Send b n)
  then obtain r where "ikcp_send b n k = Some (r, k')" using assms(4) by (auto simp: kcp_perform_def)
  with ensuresD [OF send_quiet [OF assms(1)]] have "linked k k'" by (fastforce simp: silent_def)
  then show ?thesis by (rule fits_linked [OF _ assms(2)])
next
  case (Recv b n)
  then obtain r out where "ikcp_recv b n k = Some (r, out, k')" using assms(4) by (auto simp: kcp_perform_def)
  with ensuresD [OF recv_quiet] have "linked k k'" by (fastforce simp: silent_def)
  then show ?thesis by (rule fits_linked [OF _ assms(2)])
next
  case (Input d n)
  then obtain r where "ikcp_input d n k = Some (r, k')" using assms(4) by (auto simp: kcp_perform_def)
  with ensuresD [OF input_quiet [OF assms(1)]] have "linked k k'" by (fastforce simp: silent_def)
  then show ?thesis by (rule fits_linked [OF _ assms(2)])
next
  case (Update now)
  then show ?thesis using assms(2,4) update_linked [of now k k'] fits_linked [of k k']
    by (simp add: kcp_perform_def)
next
  case Flush
  then show ?thesis using assms(2,4) flush_linked [of k k'] fits_linked [of k k']
    by (simp add: kcp_perform_def)
next
  case (Set_mtu m)
  then show ?thesis using assms by (simp add: keeps_mtu_def)
qed (use assms(4) config_linked [THEN fits_linked, OF assms(2)] in \<open>auto simp: kcp_perform_def\<close>)

lemma perform_all_fits:
  "link_ok c k \<Longrightarrow> fits k \<Longrightarrow> \<forall>call \<in> set calls. int_arguments call \<and> keeps_mtu call \<Longrightarrow>
   kcp_perform_all calls k = Some k' \<Longrightarrow> link_ok c k' \<and> fits k'"
proof (induction calls arbitrary: k)
  case (Cons call calls)
  then obtain k1 where k1: "kcp_perform call k = Some k1" "kcp_perform_all calls k1 = Some k'"
    by (auto simp: Option.bind_eq_Some_conv)
  have "link_ok c k1" "fits k1"
    using perform_link_ok [OF Cons.prems(1) _ k1(1)] perform_fits [OF _ Cons.prems(2) _ k1(1)] Cons.prems
    by (auto simp: link_ok_def)
  with Cons.IH k1(2) Cons.prems(3) show ?case by simp
qed simp

text \<open>
  C32.  Flushing returns and keeps to the mtu: from a state in which an output callback is set, the mtu is
  below \<open>2 ^ 30\<close> and no queued segment is longer than the mss, and after any calls that do not change
  the mtu or take the callback away, \<open>ikcp_flush\<close> returns (no write leaves the send buffer), and every
  packet it sends is not empty and not longer than the mtu.
\<close>

theorem flush_within_mtu:
  assumes "kcp_reachable E c k" "fits k"
    and "\<forall>call \<in> set calls. int_arguments call \<and> keeps_mtu call" "kcp_perform_all calls k = Some kcp"
  shows "\<exists>kcp' sent. ikcp_flush kcp = Some kcp' \<and> packets kcp' = packets kcp @ sent \<and>
    (\<forall>p \<in> set sent. p \<noteq> [] \<and> length p \<le> unat (mtu kcp))"
proof -
  have "link_ok c kcp" "fits kcp"
    using perform_all_fits [OF reachable_link_ok [OF assms(1)] assms(2-4)] by simp_all
  with flush_roomy [of kcp] show ?thesis by (auto simp: link_ok_def succeeds_def sent_within_def)
qed

lemma demo_fits: "fits demo"
proof -
  have "\<not> Option.is_none (koutput demo)" by code_simp
  moreover have "mtu demo < 1073741824" by code_simp
  moreover have "list_all (\<lambda>s. seg_len s \<le> mss demo) (snd_buf demo @ snd_queue demo)" by code_simp
  ultimately show ?thesis by (simp add: fits_def Option.is_none_def list_all_iff)
qed

definition demo_later :: ikcpcb where
  "demo_later = (case kcp_perform_all [Send (Some (replicate 40 2)) 40, Input (Some (demo_frame 0)) 25, Update 150] demo of
     Some k \<Rightarrow> k | None \<Rightarrow> demo)"

lemma demo_later_run:
  "kcp_perform_all [Send (Some (replicate 40 2)) 40, Input (Some (demo_frame 0)) 25, Update 150] demo = Some demo_later"
proof -
  have "\<not> Option.is_none (kcp_perform_all [Send (Some (replicate 40 2)) 40, Input (Some (demo_frame 0)) 25,
      Update 150] demo)"
    by code_simp
  then show ?thesis
    by (simp del: kcp_perform_all.simps add: demo_later_def Option.is_none_def split: option.split)
qed

theorem flush_within_mtu_witness:
  "\<exists>kcp' sent. ikcp_flush demo_later = Some kcp' \<and> packets kcp' = packets demo_later @ sent \<and>
    (\<forall>p \<in> set sent. p \<noteq> [] \<and> length p \<le> unat (mtu demo_later))"
  by (rule flush_within_mtu [OF demo_reachable demo_fits _ demo_later_run])
    (simp add: int_arguments_def keeps_mtu_def is_int_def)

section \<open>A flush keeps to the windows\<close>

lemma flush_move_payload:
  "map seg_data (snd_buf (flush_move wnd w k) @ snd_queue (flush_move wnd w k)) =
   map seg_data (snd_buf k @ snd_queue k) \<and> snd_una (flush_move wnd w k) = snd_una k \<and>
   ts_flush (flush_move wnd w k) = ts_flush k \<and> current (flush_move wnd w k) = current k"
proof (induction wnd w k rule: flush_move.induct)
  case (1 wnd w k)
  show ?case using 1
    by (subst (1 2 3 4 5) flush_move.simps) (auto simp: number_segment_def split: list.split)
qed

lemma flush_move_window:
  assumes "kcp_ok k" "unat w \<le> 65535"
  shows "offset (snd_una k) (snd_nxt (flush_move wnd w k)) \<le> max (offset (snd_una k) (snd_nxt k)) (unat w)"
  using assms
proof (induction wnd w k rule: flush_move.induct)
  case (1 wnd w kcp)
  let ?u = "snd_una kcp" let ?n = "snd_nxt kcp"
  show ?case
  proof (cases "itimediff ?n (?u + w) < 0 \<and> snd_queue kcp \<noteq> []")
    case True
    then obtain newseg p where q: "snd_queue kcp = newseg # p" by (cases "snd_queue kcp") auto
    let ?k = "kcp\<lparr>snd_queue := p, snd_buf := snd_buf kcp @ [number_segment wnd kcp newseg],
      nsnd_que := nsnd_que kcp - 1, nsnd_buf := nsnd_buf kcp + 1, snd_nxt := ?n + 1\<rparr>"
    have c: "send_ok kcp" "offset ?u ?n \<le> 65535"
      using 1(2) unfolding kcp_ok_def send_ok_def send_core_def by blast+
    have "offset ?u (?u + w) = unat w" using 1(3) offset_add [of ?u ?u w] by simp
    then have lt: "offset ?u ?n < unat w"
      using itimediff_offset [of ?u ?n "?u + w"] c(2) True 1(3) by (simp del: of_nat_unat)
    have nxt: "offset ?u (?n + 1) = offset ?u ?n + 1" using offset_add [of ?u ?n 1] lt 1(3) by simp
    have "send_ok ?k" using flush_move_step [OF c(1) _ 1(3) q] True by simp
    then have "kcp_ok ?k" by (rule kcp_ok_send [OF 1(2)]) (simp_all add: part_defs)
    from 1(1) [OF _ q this 1(3)] True q nxt lt show ?thesis
      by (simp add: flush_move.simps [of wnd w kcp])
  next
    case False
    then show ?thesis by (auto simp: flush_move.simps [of wnd w kcp] split: list.split)
  qed
qed

text \<open>The window of a flush: the congestion window counts unless it is switched off.\<close>

definition window_limit :: "ikcpcb \<Rightarrow> nat" where
  "window_limit kcp = (let w = min (unat (snd_wnd kcp)) (unat (rmt_wnd kcp))
     in if nocwnd kcp = 0 then min (unat (cwnd kcp)) w else w)"

lemma unat_flush_window: "unat (flush_window kcp) = window_limit kcp"
  by (auto simp: flush_window_def window_limit_def imin_def Let_def word_le_nat_alt)

definition window_part where
  "window_part k = (snd_wnd k, rmt_wnd k, cwnd k, nocwnd k, snd_una k, snd_nxt k, snd_buf k, snd_queue k,
     ts_flush k, current k)"

lemma window_limit_part: "window_part a = window_part b \<Longrightarrow> window_limit a = window_limit b"
  by (simp add: window_part_def window_limit_def Let_def)

lemma no_wire_window:
  assumes "no_wire a = no_wire b"
  shows "window_part a = window_part b"
  using arg_cong [OF assms, of window_part] by (simp add: no_wire_def window_part_def)

lemma flush_windows:
  assumes "kcp_ok k" "ikcp_flush k = Some k'"
  shows "offset (snd_una k) (snd_nxt k') \<le> max (offset (snd_una k) (snd_nxt k)) (window_limit k) \<and>
    snd_una k' = snd_una k \<and>
    map seg_data (snd_buf k' @ snd_queue k') = map seg_data (snd_buf k @ snd_queue k) \<and>
    (updated k \<noteq> 0 \<longrightarrow> 1 \<le> cwnd k') \<and> ts_flush k' = ts_flush k \<and> current k' = current k"
proof (cases "updated k = 0")
  case True
  then show ?thesis using assms by (simp add: ikcp_flush_def)
next
  case False
  then obtain seg out k1 buf change lost out2 k2 k3 resent rtomin w where
    c: "flush_control k = Some (seg, out, k1)" "w = flush_window k1"
    and d: "flush_data (seg_wnd seg) resent rtomin (snd_buf (flush_move (seg_wnd seg) w k1)) False False out
     (flush_move (seg_wnd seg) w k1) = Some (buf, change, lost, out2, k2)"
    and o: "(if 0 < length out2 then do { (_, k) \<leftarrow> ikcp_output out2 (k2\<lparr>snd_buf := buf\<rparr>); Some k }
    else Some (k2\<lparr>snd_buf := buf\<rparr>)) = Some k3"
    and e: "k' = flush_cwnd change lost resent w k3"
    by (rule flush_stages [OF assms(2)])
  let ?m = "flush_move (seg_wnd seg) w k1"
  have "no_wire k1 = no_wire (k\<lparr>ackcount := 0\<rparr>)" using ensuresD [OF flush_control_wire c(1)] by simp
  from no_wire_window [OF this] have p1: "window_part k1 = window_part k" by (simp add: window_part_def)
  have ok: "kcp_ok k1" by (rule control_ok [OF assms(1) c(1)])
  have "rmt_wnd k1 \<le> 65535" using ok by (simp add: kcp_ok_def send_ok_def send_core_def)
  then have w: "unat w \<le> 65535" using flush_window_le [of k1] by (simp add: c(2) word_le_nat_alt)
  have wl: "unat w = window_limit k" unfolding c(2) unat_flush_window by (rule window_limit_part [OF p1])
  note move = flush_move_window [OF ok w, of "seg_wnd seg"] flush_move_payload [of "seg_wnd seg" w k1]
  have dw: "map seg_core buf = map seg_core (snd_buf ?m)" "no_wire k2 = no_wire ?m"
    using ensuresD [OF flush_data_wire d] by simp_all
  have "map seg_data b = map (\<lambda>(n, l, d, c, m). d) (map seg_core b)" for b
    by (simp add: seg_core_def)
  then have pay: "map seg_data buf = map seg_data (snd_buf ?m)" by (simp only: dw(1))
  have "no_wire k3 = no_wire (k2\<lparr>snd_buf := buf\<rparr>)"
    using o by (cases "out2 = []") (auto simp: Option.bind_eq_Some_conv dest: ensuresD [OF output_wire])
  then have "window_part k3 = window_part (k2\<lparr>snd_buf := buf\<rparr>)" by (rule no_wire_window)
  moreover have "window_part k2 = window_part ?m" by (rule no_wire_window [OF dw(2)])
  ultimately have k3: "snd_nxt k3 = snd_nxt ?m" "snd_una k3 = snd_una ?m" "snd_buf k3 = buf"
    "snd_queue k3 = snd_queue ?m" "ts_flush k3 = ts_flush ?m" "current k3 = current ?m" by (simp_all add: window_part_def)
  have k': "snd_nxt k' = snd_nxt k3" "snd_una k' = snd_una k3" "snd_buf k' = snd_buf k3"
    "snd_queue k' = snd_queue k3" "ts_flush k' = ts_flush k3" "current k' = current k3"
    by (simp_all add: e flush_cwnd_def Let_def)
  have one: "1 \<le> x" if "\<not> x < 1" for x :: u32 using that by (simp only: not_less)
  have cw: "1 \<le> cwnd k'" using one by (simp add: e flush_cwnd_def Let_def)
  have k: "snd_nxt k = snd_nxt k1" "snd_una k = snd_una k1" "snd_buf k = snd_buf k1"
    "snd_queue k = snd_queue k1" "ts_flush k = ts_flush k1" "current k = current k1" using p1 by (simp_all add: window_part_def)
  show ?thesis using move cw unfolding k' k3 k wl map_append pay by simp
qed

text \<open>
  C33.  A flush respects the windows and loses nothing: it returns, and afterwards no more segments are in
  flight than before or than the smallest of the send window, the peer's window and (unless it is
  switched off) the congestion window; the payloads in flight and waiting are the same in the same
  order; and the congestion window is at least one segment.
\<close>

theorem flush_respects_windows:
  assumes "kcp_reachable E c kcp" "fits kcp" "updated kcp \<noteq> 0"
  shows "\<exists>kcp'. ikcp_flush kcp = Some kcp' \<and> snd_una kcp' = snd_una kcp \<and>
    offset (snd_una kcp) (snd_nxt kcp') \<le> max (offset (snd_una kcp) (snd_nxt kcp)) (window_limit kcp) \<and>
    map seg_data (snd_buf kcp' @ snd_queue kcp') = map seg_data (snd_buf kcp @ snd_queue kcp) \<and>
    1 \<le> cwnd kcp'"
proof -
  have ok: "kcp_ok kcp" using reachable_link_ok [OF assms(1)] by (simp add: link_ok_def)
  then obtain kcp' where "ikcp_flush kcp = Some kcp'"
    using flush_roomy [OF _ assms(2)] by (auto simp: succeeds_def)
  with flush_windows [OF ok this] assms(3) show ?thesis by auto
qed

theorem flush_respects_windows_witness:
  "\<exists>kcp'. ikcp_flush demo = Some kcp' \<and>
    offset (snd_una demo) (snd_nxt kcp') \<le> max (offset (snd_una demo) (snd_nxt demo)) (window_limit demo)"
proof -
  have "updated demo \<noteq> 0" by code_simp
  from flush_respects_windows [OF demo_reachable demo_fits this] show ?thesis by blast
qed

section \<open>The schedule\<close>

lemma check_packets_range: "check_packets now p tm = Some r \<Longrightarrow> 0 < tm \<Longrightarrow> 0 < r \<and> r \<le> tm"
  by (induction p arbitrary: tm) (fastforce simp: Let_def split: if_splits)+

text \<open>A deadline at most 10 seconds ahead, as an offset from now.\<close>

lemma ahead:
  assumes "itimediff now ts < 0" "- 10000 \<le> itimediff now ts"
  shows "int (offset now ts) = - itimediff now ts" "itimediff ts now = - itimediff now ts"
proof -
  have u: "unat (now - ts) \<ge> 4294957296"
    using assms sint_cases [of "now - ts"] unat_less_max [of "now - ts"]
    by (auto simp: itimediff_def simp del: of_nat_unat split: if_splits)
  have "ts - now = 0 - (now - ts)" by simp
  then have "unat (ts - now) = 4294967296 - unat (now - ts)"
    using u by (simp only: unat_sub_u32) simp
  then have o: "int (unat (ts - now)) = - itimediff now ts" "unat (ts - now) \<le> 10000"
    using u sint_cases [of "now - ts"] unat_less_max [of "now - ts"]
    by (simp_all add: itimediff_def of_nat_diff del: of_nat_unat)
  then show "int (offset now ts) = - itimediff now ts" by (simp add: offset_def del: of_nat_unat)
  show "itimediff ts now = - itimediff now ts"
    using o sint_unat [of "ts - now"] by (simp add: itimediff_def del: of_nat_unat)
qed

lemma not_due:
  assumes "updated kcp \<noteq> 0" "itimediff now (ts_flush kcp) < 0" "- 10000 \<le> itimediff now (ts_flush kcp)"
  shows "ikcp_update now kcp = Some (kcp\<lparr>current := now\<rparr>)"
  using assms by (simp add: update_eq started_def skewed_def Let_def)

lemma check_cases:
  assumes "updated kcp \<noteq> 0" "interval kcp \<le> 5000"
  obtains "ikcp_check kcp now = now"
  | "itimediff now (ts_flush kcp) < 0" "- 10000 \<le> itimediff now (ts_flush kcp)"
    "offset now (ikcp_check kcp now) \<le> unat (interval kcp)"
    "int (offset now (ikcp_check kcp now)) \<le> - itimediff now (ts_flush kcp)"
proof (cases "0 \<le> itimediff now (ts_flush kcp) \<or> itimediff now (ts_flush kcp) < - 10000 \<or>
    check_packets now (snd_buf kcp) 2147483647 = None")
  case True
  then have "ikcp_check kcp now = now"
    using assms(1) by (auto simp: ikcp_check_def Let_def itimediff_def split: option.split)
  then show thesis by (rule that(1))
next
  case False
  let ?t = "ts_flush kcp"
  obtain tm where tm: "check_packets now (snd_buf kcp) 2147483647 = Some tm" using False by auto
  have d: "itimediff now ?t < 0" "- 10000 \<le> itimediff now ?t" using False by auto
  note ah = ahead [OF d]
  define x where "x = (if tm < itimediff ?t now then tm else itimediff ?t now)"
  have x: "0 < x" "x \<le> - itimediff now ?t" "x \<le> 10000"
    using check_packets_range [OF tm] ah(2) d by (auto simp: x_def)
  have u: "unat (to_u32 x) = nat x" by (rule unat_to_u32) (use x in linarith)+
  let ?m = "if interval kcp \<le> to_u32 x then interval kcp else to_u32 x"
  have eq: "ikcp_check kcp now = now + ?m"
    using assms(1) d tm by (simp add: ikcp_check_def Let_def x_def)
  have m: "unat ?m \<le> unat (interval kcp)" "unat ?m \<le> nat x"
    using u by (simp_all add: word_le_nat_alt)
  have i: "unat (interval kcp) \<le> 5000" using assms(2) by (simp add: word_le_nat_alt)
  have "offset now (now + ?m) = unat ?m" using offset_add [of now now ?m] m(1) i by simp
  then have "offset now (ikcp_check kcp now) \<le> unat (interval kcp)"
    "int (offset now (ikcp_check kcp now)) \<le> - itimediff now ?t"
    unfolding eq using m x by linarith+
  with d show thesis by (rule that(2))
qed

text \<open>
  \<open>ikcp_check\<close> tells when to call \<open>ikcp_update\<close> next: at most one flush interval ahead, and a call of
  \<open>ikcp_update\<close> at any earlier time only sets the clock.
\<close>

theorem check_schedules:
  assumes "kcp_reachable E c kcp" "updated kcp \<noteq> 0"
  shows "offset now (ikcp_check kcp now) \<le> unat (interval kcp) \<and>
    (\<forall>now'. offset now now' < offset now (ikcp_check kcp now) \<longrightarrow>
       ikcp_update now' kcp = Some (kcp\<lparr>current := now'\<rparr>))"
proof -
  have "interval kcp \<le> 5000" using reachable_link_ok [OF assms(1)] by (simp add: link_ok_def kcp_ok_def timing_ok_def)
  from assms(2) this show ?thesis
  proof (cases rule: check_cases [of _ now])
    case 2
    note ah = ahead [OF 2(1,2)]
    have "ikcp_update now' kcp = Some (kcp\<lparr>current := now'\<rparr>)"
      if "offset now now' < offset now (ikcp_check kcp now)" for now'
    proof (rule not_due [OF assms(2)])
      have o: "int (offset now now') < - itimediff now (ts_flush kcp)" using that 2(4) by linarith
      have "itimediff now' (ts_flush kcp) = int (offset now now') - int (offset now (ts_flush kcp))"
        by (rule itimediff_offset) (use o ah(1) 2(2) in linarith)+
      then show "itimediff now' (ts_flush kcp) < 0" "- 10000 \<le> itimediff now' (ts_flush kcp)"
        using o ah(1) 2(2) by linarith+
    qed
    then show ?thesis using 2(3) by blast
  qed simp
qed

theorem check_schedules_witness:
  "ikcp_check demo 113 = 120 \<and> ikcp_update 119 demo = Some (demo\<lparr>current := 119\<rparr>)"
proof -
  have c: "ikcp_check demo 113 = 120" by code_simp
  have "updated demo \<noteq> 0" by code_simp
  from check_schedules [OF demo_reachable this, of 113] show ?thesis by (simp add: c offset_def)
qed

lemma next_flush_ahead:
  assumes "10 \<le> i" "i \<le> 5000" "0 \<le> itimediff now t \<or> skewed now t"
  shows "0 < itimediff (next_flush now t i) now \<and> itimediff (next_flush now t i) now \<le> int (unat i)"
proof -
  have u: "10 \<le> unat i" "unat i \<le> 5000" using assms(1,2) by (simp_all add: word_le_nat_alt)
  have fwd: "itimediff (now + i) now = int (unat i)" "itimediff now (now + i) = - int (unat i)"
  proof -
    have o: "offset now (now + i) = unat i" using offset_add [of now now i] u by simp
    show "itimediff (now + i) now = int (unat i)" using itimediff_offset [of now "now + i" now] o u by simp
    show "itimediff now (now + i) = - int (unat i)" using itimediff_offset [of now now "now + i"] o u by simp
  qed
  show ?thesis
  proof (cases "skewed now t")
    case True
    then show ?thesis using fwd u by (simp add: next_flush_def Let_def del: of_nat_unat)
  next
    case False
    then have d: "0 \<le> itimediff now t" "itimediff now t < 10000" using assms(3) by (auto simp: skewed_def)
    then have o: "int (offset t now) = itimediff now t" using itimediff_nonneg by simp
    have ti: "offset t (t + i) = unat i" using offset_add [of t t i] u by simp
    have "itimediff now (t + i) = int (offset t now) - int (unat i)"
      "itimediff (t + i) now = int (unat i) - int (offset t now)"
      using itimediff_offset [of t now "t + i"] itimediff_offset [of t "t + i" now] ti o d u
      by (simp_all del: of_nat_unat)
    then show ?thesis using False fwd d o u by (simp add: next_flush_def Let_def del: of_nat_unat)
  qed
qed

text \<open>
  C34.  The clock never stalls: \<open>ikcp_update\<close> returns for any time, also one that jumped or wrapped around,
  sets \<open>current\<close> to it, and leaves the next flush strictly ahead of it, by at most 10 seconds.
\<close>

theorem update_advances:
  assumes "kcp_reachable E c kcp" "fits kcp"
  shows "\<exists>kcp'. ikcp_update now kcp = Some kcp' \<and> current kcp' = now \<and>
    0 < itimediff (ts_flush kcp') now \<and> itimediff (ts_flush kcp') now \<le> 10000"
proof -
  let ?k = "started now kcp"
  have ok: "kcp_ok kcp" using reachable_link_ok [OF assms(1)] by (simp add: link_ok_def)
  show ?thesis
  proof (cases "0 \<le> itimediff now (ts_flush ?k) \<or> skewed now (ts_flush ?k)")
    case True
    let ?t = "next_flush now (ts_flush ?k) (interval ?k)"
    have "kcp_ok (?k\<lparr>ts_flush := ?t\<rparr>)"
      by (rule kcp_ok_same [OF ok]) (simp_all add: started_def part_defs)
    moreover have "fits (?k\<lparr>ts_flush := ?t\<rparr>)" by (rule fits_linked [OF linked_started(2) assms(2)])
    ultimately obtain k' where k': "ikcp_flush (?k\<lparr>ts_flush := ?t\<rparr>) = Some k'"
      "ts_flush k' = ?t" "current k' = current ?k"
      using flush_roomy flush_windows by (fastforce simp: succeeds_def)
    have i: "interval ?k = interval kcp" "current ?k = now" by (simp_all add: started_def)
    have b: "10 \<le> interval kcp" "interval kcp \<le> 5000" using ok by (simp_all add: kcp_ok_def timing_ok_def)
    then have "unat (interval kcp) \<le> 5000" by (simp add: word_le_nat_alt)
    with next_flush_ahead [OF b True] k' i True show ?thesis
      by (simp add: update_eq Let_def del: of_nat_unat)
  next
    case False
    then have d: "itimediff now (ts_flush ?k) < 0" "- 10000 \<le> itimediff now (ts_flush ?k)"
      by (auto simp: skewed_def)
    from ahead(2) [OF d] d False show ?thesis by (simp add: update_eq Let_def started_def)
  qed
qed

theorem update_advances_witness:
  "\<exists>kcp'. ikcp_update 4294967295 demo = Some kcp' \<and> current kcp' = 4294967295 \<and>
    0 < itimediff (ts_flush kcp') 4294967295 \<and> itimediff (ts_flush kcp') 4294967295 \<le> 10000"
  by (rule update_advances [OF demo_reachable demo_fits])

end
