(* ===== verification/Kcp_Accept.thy ===== *)
theory Kcp_Accept
  imports Kcp_Flow
begin

text \<open>
  The receiving side of a genuine packet (a sequence of frames of this connection): \<open>ikcp_input\<close> takes it
  frame by frame, never refuses it, and returns as long as memory lasts and the round trips it measures
  are not absurd.
\<close>

section \<open>One frame\<close>

lemma decode_conv: "ikcp_decode32u (encode_header h @ r) =
  Some (h_conv h, ikcp_encode8u (h_cmd h) @ ikcp_encode8u (h_frg h) @ ikcp_encode16u (h_wnd h) @
    ikcp_encode32u (h_ts h) @ ikcp_encode32u (h_sn h) @ ikcp_encode32u (h_una h) @ ikcp_encode32u (h_len h) @ r)"
  by (simp add: encode_header_def u32.dec_enc)

lemma decode_rest: "decode_fields (h_conv h) (ikcp_encode8u (h_cmd h) @ ikcp_encode8u (h_frg h) @
    ikcp_encode16u (h_wnd h) @ ikcp_encode32u (h_ts h) @ ikcp_encode32u (h_sn h) @ ikcp_encode32u (h_una h) @
    ikcp_encode32u (h_len h) @ r) = Some (h, r)"
  by (simp add: decode_fields_def u8.dec_enc u16.dec_enc u32.dec_enc)

lemma input_loop_frame:
  assumes "frame_ok (conv k) (h, d)" "24 + int (length d) \<le> n"
  shows "input_loop (encode_header h @ d @ r) n mark k =
    do { (mark, k) \<leftarrow> input_segment_body h (d @ r) mark k; input_loop r (n - 24 - int (length d)) mark k }"
proof -
  have h: "h_conv h = conv k" "length d = unat (h_len h)" "length d < 2147483648" "known_command (ucast (h_cmd h))"
    using assms(1) by (simp_all add: frame_ok_def)
  have u: "uint (h_len h) = int (length d)" by (simp add: h(2))
  have s: "0 \<le> to_int (h_len h)" using h(2,3) by (simp add: sint_nonneg)
  have o: "to_int IKCP_OVERHEAD = 24" by (simp add: IKCP_OVERHEAD_def)
  have dr: "decode_fields (conv k) (ikcp_encode8u (h_cmd h) @ ikcp_encode8u (h_frg h) @
    ikcp_encode16u (h_wnd h) @ ikcp_encode32u (h_ts h) @ ikcp_encode32u (h_sn h) @ ikcp_encode32u (h_una h) @
    ikcp_encode32u (h_len h) @ d @ r) = Some (h, d @ r)"
    unfolding h(1) [symmetric] by (rule decode_rest)
  show ?thesis
    by (subst input_loop.simps, simp only: decode_conv o bind.bind_lunit prod.case h(1) dr u)
      (use assms(2) s h(4) in \<open>simp add: Let_def h(2) [symmetric] del: of_nat_unat\<close>)
qed

lemma length_encode_frames: "length (encode_frames fs) = (\<Sum>(h, d) \<leftarrow> fs. 24 + length d)"
  by (induction fs) (auto simp: encode_frames_def length_encode_header)

lemma encode_frames_Cons: "encode_frames ((h, d) # fs) = encode_header h @ d @ encode_frames fs"
  by (simp add: encode_frames_def)

lemma encode_frames_Nil [simp]: "encode_frames [] = []"
  by (simp add: encode_frames_def)

section \<open>Round trips within reason\<close>

text \<open>
  The smoothed round-trip time is kept in an \<open>int\<close> and multiplied by 7; with times below \<open>2 ^ 26\<close>
  milliseconds (18 hours) nothing overflows.
\<close>

definition calm :: "ikcpcb \<Rightarrow> bool" where
  "calm k \<longleftrightarrow> reliable k \<and> 0 \<le> rx_srtt k \<and> rx_srtt k \<le> 67108864 \<and> 0 \<le> rx_rttval k \<and> rx_rttval k \<le> 67108864"

lemma c_quot_nonneg: "0 \<le> a \<Longrightarrow> 0 < b \<Longrightarrow> c_quot a b = a div b"
  by (cases "a = 0") (simp_all add: c_quot_def signed_divide_int_def)

lemma c_int_small: "- 2147483648 \<le> x \<Longrightarrow> x < 2147483648 \<Longrightarrow> c_int x = Some x"
  by (simp add: c_int_def)

lemma update_ack_total:
  assumes "calm k" "0 \<le> rtt" "rtt \<le> 67108864"
  shows "succeeds (ikcp_update_ack rtt k) (\<lambda>k'. calm k' \<and> no_rtt k' = no_rtt k)"
proof -
  let ?B = "67108864 :: int"
  have k: "reliable k" "0 \<le> rx_srtt k" "rx_srtt k \<le> ?B" "0 \<le> rx_rttval k" "rx_rttval k \<le> ?B"
    using assms(1) by (simp_all add: calm_def)
  have rel: "reliable (k\<lparr>rx_srtt := a, rx_rttval := b, rx_rto := c\<rparr>)"
    "reliable (k\<lparr>rx_rttval := b, rx_srtt := a, rx_rto := c\<rparr>)" for a b c
    using k(1) by (simp_all add: reliable_def)
  show ?thesis
  proof (cases "rx_srtt k = 0")
    case True
    then show ?thesis using assms(2,3) k rel
      by (simp add: ikcp_update_ack_def run_simps c_quot_nonneg c_int_small Let_def calm_def no_rtt_def)
  next
    case False
    define d where "d = (if rtt - rx_srtt k < 0 then - (rtt - rx_srtt k) else rtt - rx_srtt k)"
    define v where "v = (3 * rx_rttval k + d) div 4"
    define t where "t = (7 * rx_srtt k + rtt) div 8"
    have d: "0 \<le> d" "d \<le> ?B" using k assms(2,3) by (auto simp: d_def)
    have v: "0 \<le> v" "v \<le> ?B" and t: "0 \<le> t" "t \<le> ?B"
      unfolding v_def t_def using d k assms(2,3) by linarith+
    have c: "c_int (rtt - rx_srtt k) = Some (rtt - rx_srtt k)" "c_int (3 * rx_rttval k) = Some (3 * rx_rttval k)"
      "c_int (7 * rx_srtt k) = Some (7 * rx_srtt k)" "c_int (7 * rx_srtt k + rtt) = Some (7 * rx_srtt k + rtt)"
      "c_int (4 * v) = Some (4 * v)"
      by (rule c_int_small; use k assms(2,3) v in linarith)+
    have q: "c_quot (3 * rx_rttval k + d) 4 = v" "c_quot (7 * rx_srtt k + rtt) 8 = t"
      unfolding v_def t_def by (rule c_quot_nonneg; use k d assms(2) in linarith)+
    have n: "narrow32 v = v" by (rule narrow32_id) (use v in linarith)+
    show ?thesis
      unfolding ikcp_update_ack_def c bind.bind_lunit Let_def d_def [symmetric] q n if_not_P [OF False]
      using v t rel c(5) by (simp add: calm_def no_rtt_def)
  qed
qed

section \<open>One segment\<close>

text \<open>What the steps of \<open>ikcp_input\<close> leave alone.\<close>

definition steady :: "ikcpcb \<Rightarrow> _" where
  "steady k = (kenv k, rx_srtt k, rx_rttval k, current k, conv k)"

lemma calm_steady: "steady k' = steady k \<Longrightarrow> calm k' = calm k"
  by (simp add: steady_def calm_def reliable_def)

lemma rcv_move_steady: "steady (rcv_move k) = steady k"
  by (induction k rule: rcv_move.induct)
    (subst rcv_move.simps, auto simp: steady_def split: list.split)

lemma rcv_move_ackcount: "ackcount (rcv_move k) = ackcount k"
  by (induction k rule: rcv_move.induct) (subst rcv_move.simps, auto split: list.split)

lemma parse_data_steady: "steady (ikcp_parse_data seg k) = steady k \<and> ackcount (ikcp_parse_data seg k) = ackcount k"
proof -
  have "steady (rcv_move (k\<lparr>rcv_buf := b, nrcv_buf := n\<rparr>)) = steady k \<and>
      ackcount (rcv_move (k\<lparr>rcv_buf := b, nrcv_buf := n\<rparr>)) = ackcount k" for b n
    by (simp add: rcv_move_steady rcv_move_ackcount) (simp add: steady_def)
  then show ?thesis
    by (simp add: ikcp_parse_data_def Let_def rcv_move_steady rcv_move_ackcount split: prod.split)
qed

lemma input_una_steady:
  "steady (ikcp_shrink_buf (ikcp_parse_una u (k\<lparr>rmt_wnd := w\<rparr>))) = steady k \<and>
   ackcount (ikcp_shrink_buf (ikcp_parse_una u (k\<lparr>rmt_wnd := w\<rparr>))) = ackcount k"
  by (simp add: steady_def ikcp_shrink_buf_def ikcp_parse_una_def split: list.split prod.split)

lemma input_segment_total:
  assumes "reliable k" "length d = unat (h_len h)"
  shows "succeeds (input_segment h (d @ r) k) (\<lambda>(seg, k'). k' = k\<lparr>requests := requests k + 1\<rparr> \<and>
    seg_sn seg = h_sn h \<and> seg_frg seg = ucast (h_frg h) \<and> seg_len seg = h_len h \<and> seg_data seg = d)"
proof -
  have u: "uint (h_len h) = int (length d)" by (simp add: assms(2))
  have "take_bytes (int (length d)) (d @ r) = Some d" by (simp add: take_bytes_def)
  then show ?thesis by (simp add: input_segment_def segment_new_reliable [OF assms(1)] u)
qed

lemma input_push_total:
  assumes "kcp_ok k" "reliable k" "unat (ackcount k) < 2147483647" "length d = unat (h_len h)"
  shows "succeeds (input_push h (d @ r) k) (\<lambda>k'. steady k' = steady k \<and>
    unat (ackcount k') \<le> unat (ackcount k) + 1)"
proof -
  have c: "unat (ackcount k + 1) = unat (ackcount k) + 1"
    using assms(3) by (simp only: unat_add_u32) simp
  have "ack_ok k" using assms(1) by (simp add: kcp_ok_def)
  from ack_push_appends [OF this assms(2)] ack_push_spec [OF this] assms(3)
  have push: "succeeds (ikcp_ack_push (h_sn h) (h_ts h) k) (\<lambda>k'. steady k' = steady k \<and>
      ackcount k' = ackcount k + 1)"
    by (fastforce simp: succeeds_def ensures_def steady_def)
  have data: "succeeds (input_segment h (d @ r) k') (\<lambda>(seg, k'').
      steady (ikcp_parse_data seg k'') = steady k \<and> ackcount (ikcp_parse_data seg k'') = ackcount k + 1)"
    if "steady k' = steady k" "ackcount k' = ackcount k + 1" for k'
  proof -
    have "reliable k'" using that(1) assms(2) by (simp add: steady_def reliable_def)
    from input_segment_total [OF this assms(4)] show ?thesis
      by (rule succeeds_mono) (use that in \<open>auto simp: parse_data_steady, simp add: steady_def\<close>)
  qed
  have data': "succeeds (do { (seg, k'') \<leftarrow> input_segment h (d @ r) k'; Some (ikcp_parse_data seg k'') })
      (\<lambda>k'. steady k' = steady k \<and> unat (ackcount k') \<le> unat (ackcount k) + 1)"
    if "steady k' = steady k" "ackcount k' = ackcount k + 1" for k'
    unfolding succeeds_bind by (rule succeeds_mono [OF data [OF that]]) (auto simp: c)
  show ?thesis
    unfolding input_push_def succeeds_if succeeds_bind
    by (intro conjI impI succeeds_mono [OF push]) (use data' c in \<open>auto simp: succeeds_if succeeds_bind\<close>)
qed

lemma input_ack_steady:
  "steady (ikcp_shrink_buf (ikcp_parse_ack sn k)) = steady k \<and>
   ackcount (ikcp_shrink_buf (ikcp_parse_ack sn k)) = ackcount k"
  by (simp add: steady_def ikcp_shrink_buf_def ikcp_parse_ack_def split: list.split prod.split)

lemma no_rtt_clock:
  assumes "no_rtt k' = no_rtt k"
  shows "current k' = current k" "conv k' = conv k" "ackcount k' = ackcount k"
  using arg_cong [OF assms, of current] arg_cong [OF assms, of conv] arg_cong [OF assms, of ackcount]
  by (simp_all add: no_rtt_def)

lemma input_ack_total:
  assumes "calm k" "itimediff (current k) (h_ts h) \<le> 67108864"
  shows "succeeds (input_ack h k) (\<lambda>k'. calm k' \<and> current k' = current k \<and> conv k' = conv k \<and>
    ackcount k' = ackcount k)"
proof -
  have post: "calm k'' \<and> current k'' = current k \<and> conv k'' = conv k \<and> ackcount k'' = ackcount k"
    if "k'' = ikcp_shrink_buf (ikcp_parse_ack (h_sn h) k')" "calm k'" "current k' = current k"
      "conv k' = conv k" "ackcount k' = ackcount k" for k' k''
  proof -
    have "steady k'' = steady k'" "ackcount k'' = ackcount k'" unfolding that(1) using input_ack_steady by blast+
    then show ?thesis using that(2-5) calm_steady [of k'' k'] by (simp add: steady_def)
  qed
  show ?thesis
  proof (cases "0 \<le> itimediff (current k) (h_ts h)")
    case True
    show ?thesis
      unfolding input_ack_def succeeds_bind if_P [OF True] succeeds_Some
    proof (rule succeeds_mono [OF update_ack_total [OF assms(1) True assms(2)]])
      fix k' assume "calm k' \<and> no_rtt k' = no_rtt k"
      then show "calm (ikcp_shrink_buf (ikcp_parse_ack (h_sn h) k')) \<and>
          current (ikcp_shrink_buf (ikcp_parse_ack (h_sn h) k')) = current k \<and>
          conv (ikcp_shrink_buf (ikcp_parse_ack (h_sn h) k')) = conv k \<and>
          ackcount (ikcp_shrink_buf (ikcp_parse_ack (h_sn h) k')) = ackcount k"
        using no_rtt_clock [of k' k] by (intro post [OF refl]) blast+
    qed
  next
    case False
    then have "input_ack h k = Some (ikcp_shrink_buf (ikcp_parse_ack (h_sn h) k))" by (simp add: input_ack_def)
    then show ?thesis using post [OF refl assms(1) refl refl refl] by simp
  qed
qed

definition round_trip_ok :: "u32 \<Rightarrow> frame \<Rightarrow> bool" where
  "round_trip_ok now f \<longleftrightarrow> (case f of (h, d) \<Rightarrow>
     ucast (h_cmd h) = IKCP_CMD_ACK \<longrightarrow> itimediff now (h_ts h) \<le> 67108864)"

lemma input_body_total:
  assumes "kcp_ok k" "calm k" "unat (ackcount k) < 2147483647" "frame_ok (conv k) (h, d)"
    "round_trip_ok (current k) (h, d)"
  shows "succeeds (input_segment_body h (d @ r) mark k) (\<lambda>(m, k'). kcp_ok k' \<and> calm k' \<and>
    current k' = current k \<and> conv k' = conv k \<and> unat (ackcount k') \<le> unat (ackcount k) + 1)"
proof -
  let ?k = "ikcp_shrink_buf (ikcp_parse_una (h_una h) (k\<lparr>rmt_wnd := ucast (h_wnd h)\<rparr>))"
  have len: "length d = unat (h_len h)" "0 \<le> to_int (h_len h)"
    using assms(4) by (auto simp: frame_ok_def sint_nonneg)
  have ok: "kcp_ok ?k" by (rule input_una_ok [OF assms(1)])
  have st: "steady ?k = steady k" "ackcount ?k = ackcount k" using input_una_steady by simp_all
  have c: "calm ?k" using assms(2) calm_steady [OF st(1)] by simp
  have cur: "current ?k = current k" "conv ?k = conv k" using st(1) by (simp_all add: steady_def)
  have push: "succeeds (input_push h (d @ r) ?k) (\<lambda>k'. calm k' \<and> current k' = current k \<and> conv k' = conv k \<and>
      unat (ackcount k') \<le> unat (ackcount k) + 1)"
  proof (rule succeeds_mono [OF input_push_total [OF ok _ _ len(1)]])
    show "reliable ?k" using c by (simp add: calm_def)
    show "unat (ackcount ?k) < 2147483647" using assms(3) st(2) by simp
    fix k' assume k': "steady k' = steady ?k \<and> unat (ackcount k') \<le> unat (ackcount ?k) + 1"
    then show "calm k' \<and> current k' = current k \<and> conv k' = conv k \<and> unat (ackcount k') \<le> unat (ackcount k) + 1"
      using calm_steady [of k' ?k] c st by (simp add: steady_def)
  qed
  have ack: "ucast (h_cmd h) = IKCP_CMD_ACK \<Longrightarrow> succeeds (input_ack h ?k) (\<lambda>k'. calm k' \<and> current k' = current k \<and>
      conv k' = conv k \<and> unat (ackcount k') \<le> unat (ackcount k) + 1)"
    using input_ack_total [OF c, of h] assms(5) cur st(2)
    by (auto simp: round_trip_ok_def elim!: succeeds_mono)
  have other: "calm (?k\<lparr>probe := p\<rparr>) = calm ?k" for p by (simp add: calm_def reliable_def)
  have "succeeds (input_segment_body h (d @ r) mark k) (\<lambda>x. calm (snd x) \<and> current (snd x) = current k \<and>
      conv (snd x) = conv k \<and> unat (ackcount (snd x)) \<le> unat (ackcount k) + 1)"
    unfolding input_segment_body_def Let_def
    using ack push by (simp add: succeeds_if succeeds_bind c cur other st(2))
  from succeeds_ensures [OF this input_segment_body_ok [OF assms(1) len(2)]] show ?thesis
    by (rule succeeds_mono) auto
qed

section \<open>The packet\<close>

lemma input_loop_total:
  "kcp_ok k \<Longrightarrow> calm k \<Longrightarrow> \<forall>f \<in> set fs. frame_ok (conv k) f \<and> round_trip_ok (current k) f \<Longrightarrow>
   unat (ackcount k) + length fs < 2147483648 \<Longrightarrow>
   succeeds (input_loop (encode_frames fs) (int (length (encode_frames fs))) mark k)
     (\<lambda>x. \<exists>m k'. x = Inr (m, k') \<and> kcp_ok k')"
proof (induction fs arbitrary: mark k)
  case Nil
  then show ?case by (simp add: input_loop.simps [of "[]" 0] IKCP_OVERHEAD_def)
next
  case (Cons f fs)
  obtain h d where f: "f = (h, d)" by (cases f)
  have fr: "frame_ok (conv k) (h, d)" "round_trip_ok (current k) (h, d)" using Cons.prems(3) f by simp_all
  let ?n = "int (length (encode_frames (f # fs)))"
  have n: "?n = 24 + int (length d) + int (length (encode_frames fs))"
    by (simp add: f encode_frames_Cons length_encode_header)
  have loop: "input_loop (encode_frames (f # fs)) ?n mark k =
    do { (mark, k) \<leftarrow> input_segment_body h (d @ encode_frames fs) mark k;
         input_loop (encode_frames fs) (int (length (encode_frames fs))) mark k }"
    unfolding n unfolding f encode_frames_Cons by (subst input_loop_frame [OF fr(1)]) simp_all
  have "unat (ackcount k) < 2147483647" using Cons.prems(4) by simp
  from input_body_total [OF Cons.prems(1,2) this fr, of "encode_frames fs" mark] show ?case
    unfolding loop succeeds_bind
  proof (rule succeeds_mono)
    fix x :: "ack_mark \<times> ikcpcb"
    assume x: "case x of (m, k') \<Rightarrow> kcp_ok k' \<and> calm k' \<and> current k' = current k \<and> conv k' = conv k \<and>
      unat (ackcount k') \<le> unat (ackcount k) + 1"
    obtain m k' where k': "x = (m, k')" by (cases x)
    show "succeeds (case x of (mark, k) \<Rightarrow> input_loop (encode_frames fs) (int (length (encode_frames fs))) mark k)
      (\<lambda>x. \<exists>m k'. x = Inr (m, k') \<and> kcp_ok k')"
      unfolding k' prod.case by (rule Cons.IH) (use x k' Cons.prems(3,4) in auto)
  qed
qed

lemma input_cwnd_total:
  assumes "mss k \<noteq> 0"
  shows "\<exists>c i. input_cwnd u k = Some (k\<lparr>cwnd := c, incr := i\<rparr>)"
proof -
  have "(if incr k < mss k then mss k else incr k) \<noteq> 0"
    using assms by (auto simp: word_less_nat_alt unat_gt_0)
  then have q: "c_udiv (mss k * mss k) (if incr k < mss k then mss k else incr k) =
      Some (mss k * mss k div (if incr k < mss k then mss k else incr k))"
    unfolding c_udiv_def by (rule if_not_P)
  have same: "k = k\<lparr>cwnd := cwnd k, incr := incr k\<rparr>"
    "k\<lparr>incr := i, cwnd := c\<rparr> = k\<lparr>cwnd := c, incr := i\<rparr>" for c i by simp_all
  define P where "P = (\<lambda>k'. \<exists>c i. k' = k\<lparr>cwnd := c, incr := i\<rparr>)"
  have P: "P k" "P (k\<lparr>cwnd := c, incr := i\<rparr>)" "P (k\<lparr>incr := i, cwnd := c\<rparr>)" for c i
    unfolding P_def using same by blast+
  have "succeeds (input_cwnd u k) P"
    unfolding input_cwnd_def Let_def q by (simp add: succeeds_if succeeds_bind P)
  then show ?thesis by (auto simp: P_def succeeds_def)
qed

lemma mss_nonzero: "kcp_ok k \<Longrightarrow> mss k \<noteq> 0"
proof -
  assume "kcp_ok k"
  then have m: "50 \<le> mtu k" "mss k = mtu k - 24" by (simp_all add: kcp_ok_def layout_ok_def)
  then have "unat (mss k) = unat (mtu k) - 24" "50 \<le> unat (mtu k)"
    by (simp_all add: unat_sub_u32 word_le_nat_alt)
  then show ?thesis by (auto simp: unsigned_eq_0_iff)
qed

lemma input_tail_total:
  assumes "kcp_ok k"
  shows "\<exists>b c i. input_tail u m k = Some (0, k\<lparr>snd_buf := b, cwnd := c, incr := i\<rparr>)"
proof -
  have "\<exists>b. (case m of None \<Rightarrow> k | Some (maxack, latest_ts) \<Rightarrow> ikcp_parse_fastack maxack latest_ts k) =
      k\<lparr>snd_buf := b\<rparr>"
  proof (cases m)
    case None
    then show ?thesis by (auto intro!: exI [of _ "snd_buf k"])
  next
    case (Some x)
    obtain a t where "x = (a, t)" by (cases x)
    then have "(case m of None \<Rightarrow> k | Some (maxack, latest_ts) \<Rightarrow> ikcp_parse_fastack maxack latest_ts k) =
        k\<lparr>snd_buf := if itimediff a (snd_una k) < 0 \<or> 0 \<le> itimediff a (snd_nxt k) then snd_buf k
          else parse_fastack_loop a t (snd_buf k)\<rparr>"
      using Some by (simp add: ikcp_parse_fastack_def)
    then show ?thesis ..
  qed
  then obtain b where b: "(case m of None \<Rightarrow> k | Some (maxack, latest_ts) \<Rightarrow> ikcp_parse_fastack maxack latest_ts k) =
      k\<lparr>snd_buf := b\<rparr>" ..
  obtain c i where "input_cwnd u (k\<lparr>snd_buf := b\<rparr>) = Some (k\<lparr>snd_buf := b, cwnd := c, incr := i\<rparr>)"
    using input_cwnd_total [of "k\<lparr>snd_buf := b\<rparr>" u] mss_nonzero [OF assms] by auto
  then show ?thesis by (auto simp: input_tail_def Let_def b)
qed

text \<open>
   A genuine packet is accepted: \<open>ikcp_input\<close> returns 0 for any packet that is a non-empty sequence of
  frames of this connection (which every packet of the other endpoint is), as long as memory lasts,
  fewer than \<open>2 ^ 31\<close> acknowledgements are queued, and no round trip exceeds \<open>2 ^ 26\<close> ms.
\<close>

theorem genuine_packet_accepted:
  assumes "kcp_reachable E c kcp" "calm kcp" "fs \<noteq> []"
    and "\<forall>f \<in> set fs. frame_ok c f \<and> round_trip_ok (current kcp) f"
    and "unat (ackcount kcp) + length fs < 2147483648" "length (encode_frames fs) < 2147483648"
  shows "\<exists>kcp'. ikcp_input (Some (encode_frames fs)) (int (length (encode_frames fs))) kcp = Some (0, kcp')"
proof -
  have ok: "kcp_ok kcp" "conv kcp = c" using reachable_link_ok [OF assms(1)] by (simp_all add: link_ok_def)
  have "24 \<le> length (encode_frames fs)"
    using assms(3) by (cases fs) (auto simp: encode_frames_Cons length_encode_header)
  then have big: "\<not> narrow32 (int (length (encode_frames fs))) < to_int IKCP_OVERHEAD"
    using assms(6) by (simp add: IKCP_OVERHEAD_def)
  obtain m k' where "input_loop (encode_frames fs) (int (length (encode_frames fs))) None kcp = Some (Inr (m, k'))"
    "kcp_ok k'"
    using input_loop_total [OF ok(1) assms(2), of fs None] assms(4,5) ok(2) by (auto simp: succeeds_def)
  moreover obtain b c i where "input_tail (snd_una kcp) m k' = Some (0, k'\<lparr>snd_buf := b, cwnd := c, incr := i\<rparr>)"
    using input_tail_total [OF calculation(2)] by blast
  ultimately show ?thesis using big by (simp add: ikcp_input_def)
qed

end
