(* ===== verification/Kcp_Delivery.thy ===== *)
theory Kcp_Delivery
  imports Kcp_Accept
begin

text \<open>
  From one endpoint to the other: pushed segments that arrive in order go straight to the receive queue
  and are acknowledged; the first flush of a sender emits the fragments of its queue as such a sequence;
  together, a message that one side sends is what the other side receives.
\<close>

section \<open>A segment that is next in order\<close>

definition seg_part :: "IKCPSEG \<Rightarrow> u32 \<times> u32 \<times> byte list" where
  "seg_part s = (seg_frg s, seg_len s, seg_data s)"

definition frame_part :: "frame \<Rightarrow> u32 \<times> u32 \<times> byte list" where
  "frame_part f = (case f of (h, d) \<Rightarrow> (ucast (h_frg h), h_len h, d))"

definition frame_ack :: "frame \<Rightarrow> u32 \<times> u32" where
  "frame_ack f = (case f of (h, d) \<Rightarrow> (h_sn h, h_ts h))"

text \<open>The receiver between two segments that arrive in order.\<close>

definition ready :: "ikcpcb \<Rightarrow> bool" where
  "ready k \<longleftrightarrow> kcp_ok k \<and> reliable k \<and> rcv_buf k = []"

definition delivered :: "frame list \<Rightarrow> ikcpcb \<Rightarrow> ikcpcb \<Rightarrow> bool" where
  "delivered fs k k' \<longleftrightarrow> ready k' \<and> map seg_part (rcv_queue k') = map seg_part (rcv_queue k) @ map frame_part fs \<and>
     rcv_nxt k' = rcv_nxt k + of_nat (length fs) \<and> acks k' = acks k @ map frame_ack fs \<and>
     ackcount k' = ackcount k + of_nat (length fs) \<and> nrcv_que k' = nrcv_que k + of_nat (length fs) \<and>
     rcv_wnd k' = rcv_wnd k \<and> conv k' = conv k"

lemma delivered_Nil: "ready k \<Longrightarrow> delivered [] k k"
  by (simp add: delivered_def)

lemma delivered_Cons: "delivered [f] k k1 \<Longrightarrow> delivered fs k1 k2 \<Longrightarrow> delivered (f # fs) k k2"
  by (simp add: delivered_def add.assoc)

lemma reliable_kenv: "kenv k' = kenv k \<Longrightarrow> reliable k' = reliable k"
  by (simp add: reliable_def)

lemma rcv_move_one:
  assumes "rcv_buf k = [s]" "seg_sn s = rcv_nxt k" "nrcv_que k < rcv_wnd k"
  shows "rcv_move k = k\<lparr>rcv_buf := [], nrcv_buf := nrcv_buf k - 1, rcv_queue := rcv_queue k @ [s],
    nrcv_que := nrcv_que k + 1, rcv_nxt := rcv_nxt k + 1\<rparr>"
  using assms by (simp add: rcv_move.simps [of k] rcv_move.simps)

lemma next_in_window:
  assumes "recv_ok k"
  shows "itimediff (rcv_nxt k) (rcv_nxt k + rcv_wnd k) < 0" "itimediff (rcv_nxt k) (rcv_nxt k) = 0"
proof -
  have w: "128 \<le> unat (rcv_wnd k)" "unat (rcv_wnd k) < 2147483648"
    using assms by (simp_all add: recv_ok_def word_le_nat_alt word_less_nat_alt)
  then have "offset (rcv_nxt k) (rcv_nxt k + rcv_wnd k) = unat (rcv_wnd k)"
    using offset_add [of "rcv_nxt k" "rcv_nxt k" "rcv_wnd k"] by simp
  then show "itimediff (rcv_nxt k) (rcv_nxt k + rcv_wnd k) < 0"
    using itimediff_offset [of "rcv_nxt k" "rcv_nxt k" "rcv_nxt k + rcv_wnd k"] w by (simp del: of_nat_unat)
  show "itimediff (rcv_nxt k) (rcv_nxt k) = 0" by (simp add: itimediff_def)
qed

lemma acks_cong: "acklist k' = acklist k \<Longrightarrow> ackcount k' = ackcount k \<Longrightarrow> acks k' = acks k"
  by (auto simp: acks_def split: option.split)

lemma parse_data_next:
  assumes "recv_ok k" "rcv_buf k = []" "seg_sn s = rcv_nxt k" "nrcv_que k < rcv_wnd k"
  shows "ikcp_parse_data s k = k\<lparr>rcv_buf := [], rcv_queue := rcv_queue k @ [s],
    nrcv_que := nrcv_que k + 1, rcv_nxt := rcv_nxt k + 1\<rparr>"
proof -
  note w = next_in_window [OF assms(1)]
  have "ikcp_parse_data s k = rcv_move (k\<lparr>rcv_buf := [s], nrcv_buf := nrcv_buf k + 1\<rparr>)"
    using w by (simp add: ikcp_parse_data_def assms(2,3))
  then show ?thesis using assms(3,4) by (simp add: rcv_move_one)
qed

lemma push_next:
  assumes "ready k" "unat (ackcount k) < 2147483647" "h_sn h = rcv_nxt k" "nrcv_que k < rcv_wnd k"
    "length d = unat (h_len h)" "0 \<le> to_int (h_len h)"
  shows "succeeds (input_push h (d @ r) k) (delivered [(h, d)] k)"
proof -
  have k: "kcp_ok k" "reliable k" "rcv_buf k = []" using assms(1) by (simp_all add: ready_def)
  have ro: "recv_ok k" "ack_ok k" using k(1) by (simp_all add: kcp_ok_def)
  note w = next_in_window [OF ro(1)]
  obtain k1 where p: "ikcp_ack_push (h_sn h) (h_ts h) k = Some k1" "acks k1 = acks k @ [(h_sn h, h_ts h)]"
    using ack_push_total [OF ro(2) k(2)] assms(2) by force
  obtain l b q where k1: "k1 = k\<lparr>acklist := Some l, ackblock := b, requests := q, ackcount := ackcount k + 1\<rparr>"
    using ensuresD [OF ack_push_spec [OF ro(2)] p(1)] by blast
  have "reliable k1" using k(2) by (simp add: k1 reliable_def)
  from input_segment_total [OF this assms(5), of r] obtain seg k2 where
    s: "input_segment h (d @ r) k1 = Some (seg, k2)" "k2 = k1\<lparr>requests := requests k1 + 1\<rparr>"
      "seg_sn seg = h_sn h" "seg_part seg = frame_part (h, d)"
    by (auto simp: succeeds_def seg_part_def frame_part_def)
  have r2: "recv_ok k2" using ro(1) recv.carry [of k2 k] by (simp add: s(2) k1 recv_part_def)
  have pd: "ikcp_parse_data seg k2 = k2\<lparr>rcv_buf := [], rcv_queue := rcv_queue k2 @ [seg],
      nrcv_que := nrcv_que k2 + 1, rcv_nxt := rcv_nxt k2 + 1\<rparr>"
    by (rule parse_data_next [OF r2]) (use assms(3,4) k(3) s(3) in \<open>simp_all add: s(2) k1\<close>)
  have e: "input_push h (d @ r) k = Some (ikcp_parse_data seg k2)"
    using w p(1) s(1) k1 by (simp add: input_push_def assms(3))
  have "kcp_ok (ikcp_parse_data seg k2)"
    using ensuresD [OF input_push_ok [OF k(1) assms(6)] e] by simp
  moreover have "acks (ikcp_parse_data seg k2) = acks k1"
    unfolding pd by (rule acks_cong) (simp_all add: s(2))
  ultimately have "delivered [(h, d)] k (ikcp_parse_data seg k2)"
    using k(2,3) p(2) s(4) unfolding delivered_def ready_def pd
    by (simp add: s(2) k1 frame_ack_def reliable_def)
  then show ?thesis by (simp add: e)
qed

lemma body_next:
  assumes "ready k" "unat (ackcount k) < 2147483647" "h_sn h = rcv_nxt k" "nrcv_que k < rcv_wnd k"
    "frame_ok (conv k) (h, d)" "ucast (h_cmd h) = IKCP_CMD_PUSH"
  shows "succeeds (input_segment_body h (d @ r) mark k) (\<lambda>(m, k'). m = mark \<and> delivered [(h, d)] k k')"
proof -
  let ?k = "ikcp_shrink_buf (ikcp_parse_una (h_una h) (k\<lparr>rmt_wnd := ucast (h_wnd h)\<rparr>))"
  have k: "kcp_ok k" "reliable k" "rcv_buf k = []" using assms(1) by (simp_all add: ready_def)
  have len: "length d = unat (h_len h)" "0 \<le> to_int (h_len h)"
    using assms(5) by (auto simp: frame_ok_def sint_nonneg)
  have ok: "kcp_ok ?k" by (rule input_una_ok [OF k(1)])
  have f: "rcv_nxt ?k = rcv_nxt k" "rcv_wnd ?k = rcv_wnd k" "rcv_queue ?k = rcv_queue k" "rcv_buf ?k = rcv_buf k"
    "nrcv_que ?k = nrcv_que k" "ackcount ?k = ackcount k" "conv ?k = conv k" "kenv ?k = kenv k" "acklist ?k = acklist k"
    by (simp_all add: ikcp_shrink_buf_def ikcp_parse_una_def split: list.split prod.split)
  have a: "acks ?k = acks k" by (rule acks_cong) (rule f)+
  have rd: "ready ?k" using ok k(2,3) f by (simp add: ready_def reliable_kenv [of ?k k])
  have "succeeds (input_push h (d @ r) ?k) (delivered [(h, d)] ?k)"
    by (rule push_next [OF rd]) (use assms(2-4) f len in simp_all)
  moreover have "delivered fs ?k k' = delivered fs k k'" for fs k' by (simp add: delivered_def f a)
  ultimately show ?thesis
    using assms(6) by (auto simp: input_segment_body_def succeeds_bind Let_def IKCP_CMD_PUSH_def IKCP_CMD_ACK_def
        elim!: succeeds_mono)
qed

section \<open>A run of segments in order\<close>

fun push_run :: "u32 \<Rightarrow> u32 \<Rightarrow> frame list \<Rightarrow> bool" where
  "push_run c n [] \<longleftrightarrow> True"
| "push_run c n ((h, d) # fs) \<longleftrightarrow> frame_ok c (h, d) \<and> ucast (h_cmd h) = IKCP_CMD_PUSH \<and> h_sn h = n \<and>
     push_run c (n + 1) fs"

lemma push_run_append: "push_run c n (fs @ gs) \<longleftrightarrow> push_run c n fs \<and> push_run c (n + of_nat (length fs)) gs"
  by (induction fs arbitrary: n) (auto simp: add.assoc)

lemma input_loop_next:
  "ready k \<Longrightarrow> push_run (conv k) (rcv_nxt k) fs \<Longrightarrow> unat (ackcount k) + length fs < 2147483648 \<Longrightarrow>
   unat (nrcv_que k) + length fs \<le> unat (rcv_wnd k) \<Longrightarrow>
   succeeds (input_loop (encode_frames fs) (int (length (encode_frames fs))) None k)
     (\<lambda>x. \<exists>k'. x = Inr (None, k') \<and> delivered fs k k')"
proof (induction fs arbitrary: k)
  case Nil
  then show ?case by (simp add: input_loop.simps [of "[]" 0] IKCP_OVERHEAD_def delivered_Nil)
next
  case (Cons f fs)
  obtain h d where f: "f = (h, d)" by (cases f)
  have fr: "frame_ok (conv k) (h, d)" "ucast (h_cmd h) = IKCP_CMD_PUSH" "h_sn h = rcv_nxt k"
    "push_run (conv k) (rcv_nxt k + 1) fs" using Cons.prems(2) f by simp_all
  let ?n = "int (length (encode_frames (f # fs)))"
  have n: "?n = 24 + int (length d) + int (length (encode_frames fs))"
    by (simp add: f encode_frames_Cons length_encode_header)
  have loop: "input_loop (encode_frames (f # fs)) ?n None k =
    do { (mark, k) \<leftarrow> input_segment_body h (d @ encode_frames fs) None k;
         input_loop (encode_frames fs) (int (length (encode_frames fs))) mark k }"
    unfolding n unfolding f encode_frames_Cons by (subst input_loop_frame [OF fr(1)]) simp_all
  have q: "unat (ackcount k) < 2147483647" "nrcv_que k < rcv_wnd k"
    using Cons.prems(3,4) by (simp_all add: word_less_nat_alt)
  obtain k1 where k1: "input_segment_body h (d @ encode_frames fs) None k = Some (None, k1)" "delivered [f] k k1"
    using body_next [OF Cons.prems(1) q(1) fr(3) q(2) fr(1,2), of "encode_frames fs" None]
    by (auto simp: succeeds_def f)
  have u: "unat (ackcount k1) = unat (ackcount k) + 1" "unat (nrcv_que k1) = unat (nrcv_que k) + 1"
    using k1(2) Cons.prems(3,4) unat_less_max [of "rcv_wnd k"]
    by (simp_all only: delivered_def list.size of_nat_1 add_0 One_nat_def [symmetric] unat_add_u32 add_Suc)
      (simp_all add: unat_add_u32)
  have "succeeds (input_loop (encode_frames fs) (int (length (encode_frames fs))) None k1)
     (\<lambda>x. \<exists>k'. x = Inr (None, k') \<and> delivered fs k1 k')"
    by (rule Cons.IH) (use k1(2) fr(4) u Cons.prems(3,4) in \<open>auto simp: delivered_def\<close>)
  then show ?case unfolding loop using k1 delivered_Cons [OF k1(2)]
    by (auto simp: succeeds_bind elim!: succeeds_mono)
qed

lemma delivered_append: "delivered fs k k1 \<Longrightarrow> delivered gs k1 k2 \<Longrightarrow> delivered (fs @ gs) k k2"
  by (simp add: delivered_def add.assoc)

lemma input_next:
  assumes "ready k" "push_run (conv k) (rcv_nxt k) fs" "fs \<noteq> []" "unat (ackcount k) + length fs < 2147483648"
    "unat (nrcv_que k) + length fs \<le> unat (rcv_wnd k)" "length (encode_frames fs) < 2147483648"
  shows "\<exists>k'. ikcp_input (Some (encode_frames fs)) (int (length (encode_frames fs))) k = Some (0, k') \<and>
    delivered fs k k'"
proof -
  have "24 \<le> length (encode_frames fs)"
    using assms(3) by (cases fs) (auto simp: encode_frames_Cons length_encode_header)
  then have big: "\<not> narrow32 (int (length (encode_frames fs))) < to_int IKCP_OVERHEAD"
    using assms(6) by (simp add: IKCP_OVERHEAD_def)
  obtain k1 where k1: "input_loop (encode_frames fs) (int (length (encode_frames fs))) None k = Some (Inr (None, k1))"
    "delivered fs k k1"
    using input_loop_next [OF assms(1,2,4,5)] by (auto simp: succeeds_def)
  have ok: "kcp_ok k1" using k1(2) by (simp add: delivered_def ready_def)
  obtain b c i where t: "input_tail (snd_una k) None k1 = Some (0, k1\<lparr>snd_buf := b, cwnd := c, incr := i\<rparr>)"
    using input_tail_total [OF ok] by blast
  let ?k = "k1\<lparr>snd_buf := b, cwnd := c, incr := i\<rparr>"
  have "kcp_ok ?k" using ensuresD [OF ok_input.tail_keeps [OF ok] t] by simp
  moreover have "acks ?k = acks k1" by (rule acks_cong) simp_all
  ultimately have "delivered fs k ?k"
    using k1(2) by (simp add: delivered_def ready_def reliable_def)
  then show ?thesis using big k1(1) t by (simp add: ikcp_input_def)
qed

text \<open>
  C30.  Segments in order are delivered at once: when nothing that arrived early is waiting, a packet of pushed
  segments with the consecutive numbers from \<open>rcv_nxt\<close> on, no more than the window has room for, makes
  \<open>ikcp_input\<close> return 0 with exactly their payloads appended to the receive queue, \<open>rcv_nxt\<close> advanced
  past them and one acknowledgement queued for each, in order.
\<close>

theorem in_order_delivered:
  assumes "kcp_reachable E c kcp" "reliable kcp" "rcv_buf kcp = []" "push_run c (rcv_nxt kcp) fs" "fs \<noteq> []"
    and "unat (ackcount kcp) + length fs < 2147483648"
    and "unat (nrcv_que kcp) + length fs \<le> unat (rcv_wnd kcp)" "length (encode_frames fs) < 2147483648"
  shows "\<exists>kcp'. ikcp_input (Some (encode_frames fs)) (int (length (encode_frames fs))) kcp = Some (0, kcp') \<and>
    map seg_part (rcv_queue kcp') = map seg_part (rcv_queue kcp) @ map frame_part fs \<and>
    rcv_nxt kcp' = rcv_nxt kcp + of_nat (length fs) \<and> acks kcp' = acks kcp @ map frame_ack fs"
proof -
  have "kcp_ok kcp" "conv kcp = c" using reachable_link_ok [OF assms(1)] by (simp_all add: link_ok_def)
  with input_next [of kcp fs] assms show ?thesis by (auto simp: ready_def delivered_def)
qed

section \<open>What the first flush emits\<close>

definition frame_of :: "IKCPSEG \<Rightarrow> frame" where
  "frame_of s = (seg_header s, seg_data s)"

definition emitted :: "ikcpcb \<Rightarrow> frame list \<Rightarrow> byte list \<Rightarrow> ikcpcb \<Rightarrow> bool" where
  "emitted k0 fs out k \<longleftrightarrow> (\<exists>fss cur. packets k = packets k0 @ map encode_frames fss \<and> out = encode_frames cur \<and>
     fs = concat fss @ cur \<and> [] \<notin> set fss)"

lemma encode_frames_empty: "encode_frames fs = [] \<longleftrightarrow> fs = []"
proof (cases fs)
  case (Cons f fs')
  then have "24 \<le> length (encode_frames fs)" by (cases f) (simp add: encode_frames_Cons length_encode_header)
  then show ?thesis using Cons by auto
qed simp

lemma emitted_output:
  assumes "emitted k0 fs out k" "ikcp_output out k = Some (r, k')"
  shows "emitted k0 fs [] k'"
proof -
  obtain fss cur where e: "packets k = packets k0 @ map encode_frames fss" "out = encode_frames cur"
    "fs = concat fss @ cur" "[] \<notin> set fss" using assms(1) by (auto simp: emitted_def)
  show ?thesis
  proof (cases "cur = []")
    case True
    then have "packets k' = packets k"
      using assms(2) e(2) by (auto simp: ikcp_output_def Option.bind_eq_Some_conv)
    with True e show ?thesis
      unfolding emitted_def by (intro exI [of _ fss] exI [of _ "[]"]) simp
  next
    case False
    then have "out \<noteq> []" using e(2) encode_frames_empty by simp
    then have "packets k' = packets k @ [out]"
      using assms(2) by (auto simp: ikcp_output_def Option.bind_eq_Some_conv)
    with e False show ?thesis
      unfolding emitted_def by (intro exI [of _ "fss @ [cur]"] exI [of _ "[]"]) simp
  qed
qed

lemma emitted_room:
  assumes "emitted k0 fs out k" "flush_room need out k = Some (out', k')"
  shows "emitted k0 fs out' k'"
  using assms emitted_output [OF assms(1)]
  by (auto simp: flush_room_def Option.bind_eq_Some_conv split: if_splits)

lemma emitted_same: "packets k' = packets k \<Longrightarrow> emitted k0 fs out k' = emitted k0 fs out k"
  by (simp add: emitted_def)

lemma emitted_snoc: "emitted k0 fs out k \<Longrightarrow> emitted k0 (fs @ [(h, d)]) (out @ encode_header h @ d) k"
proof -
  assume "emitted k0 fs out k"
  then obtain fss cur where "packets k = packets k0 @ map encode_frames fss" "out = encode_frames cur"
    "fs = concat fss @ cur" "[] \<notin> set fss" by (auto simp: emitted_def)
  then show "emitted k0 (fs @ [(h, d)]) (out @ encode_header h @ d) k"
    by (auto simp: emitted_def encode_frames_def intro!: exI [of _ fss] exI [of _ "cur @ [(h, d)]"])
qed

lemma emitted_emit:
  assumes "emitted k0 fs out k" "seg_ok s" "flush_emit wnd s out k = Some (s', out', k')"
  shows "emitted k0 (fs @ [frame_of s']) out' k' \<and>
    s' = s\<lparr>seg_ts := current k, seg_wnd := wnd, seg_una := rcv_nxt k\<rparr>"
proof -
  let ?s = "s\<lparr>seg_ts := current k, seg_wnd := wnd, seg_una := rcv_nxt k\<rparr>"
  obtain out1 k1 where r: "flush_room (to_int (IKCP_OVERHEAD + seg_len s)) out k = Some (out1, k1)"
    and x: "s' = ?s" "out' = out1 @ ikcp_encode_seg ?s @ seg_data s" "packets k' = packets k1"
    using assms(2,3)
    by (auto simp: flush_emit_def Option.bind_eq_Some_conv Let_def buffer_write_def seg_payload_def seg_ok_def
        split: if_splits)
  from emitted_snoc [OF emitted_room [OF assms(1) r], of "seg_header ?s" "seg_data s"]
  show ?thesis by (simp add: x emitted_same [of k' k1] frame_of_def encode_seg_header)
qed

lemma flush_data_emits:
  "emitted k0 fs out k \<Longrightarrow> \<forall>s \<in> set p. seg_ok s \<and> seg_xmit s = 0 \<Longrightarrow>
   ensures (flush_data wnd resent rtomin p change lost out k) (\<lambda>(p', c, l, out', k').
     emitted k0 (fs @ map frame_of p') out' k' \<and> map seg_part p' = map seg_part p \<and>
     map seg_core p' = map seg_core p)"
proof (induction p arbitrary: fs change lost out k)
  case (Cons s p)
  have why: "why_send resent k s = First" using Cons.prems(2) by (simp add: why_send_def)
  let ?s = "retime First rtomin k s"
  have s: "seg_ok ?s" using Cons.prems(2) by simp
  show ?case
  proof (rule ensuresI)
    fix x assume "flush_data wnd resent rtomin (s # p) change lost out k = Some x"
    then obtain s' out1 k1 p' c l out2 k2 where e: "flush_emit wnd ?s out k = Some (s', out1, k1)"
      and r: "flush_data wnd resent rtomin p (change \<or> False) (lost \<or> False) out1 k1 = Some (p', c, l, out2, k2)"
      and x: "x = (s' # p', c, l, out2, k2)"
      by (auto simp: why Let_def Option.bind_eq_Some_conv)
    note em = emitted_emit [OF Cons.prems(1) s e]
    have "\<forall>s \<in> set p. seg_ok s \<and> seg_xmit s = 0" using Cons.prems(2) by simp
    have part: "seg_part s' = seg_part s" "seg_core s' = seg_core s"
      using em by (simp_all add: seg_part_def seg_core_def retime_def)
    from ensuresD [OF Cons.IH [OF conjunct1 [OF em] \<open>\<forall>s \<in> set p. seg_ok s \<and> seg_xmit s = 0\<close>] r]
    show "case x of (p', c, l, out', k') \<Rightarrow> emitted k0 (fs @ map frame_of p') out' k' \<and>
        map seg_part p' = map seg_part (s # p) \<and> map seg_core p' = map seg_core (s # p)"
      by (simp add: x part)
  qed
qed simp

fun numbered :: "u32 \<Rightarrow> u32 \<Rightarrow> IKCPSEG list \<Rightarrow> bool" where
  "numbered c n [] \<longleftrightarrow> True"
| "numbered c n (s # ss) \<longleftrightarrow> seg_sn s = n \<and> tagged c s \<and> numbered c (n + 1) ss"

lemma numbered_core: "map seg_core xs = map seg_core ys \<Longrightarrow> numbered c n xs = numbered c n ys"
proof (induction xs arbitrary: ys n)
  case (Cons x xs)
  then obtain y ys' where "ys = y # ys'" by (cases ys) auto
  with Cons show ?case by (auto simp: seg_core_def tagged_def)
qed simp

lemma numbered_run:
  "numbered c n ss \<Longrightarrow> \<forall>s \<in> set ss. seg_ok s \<Longrightarrow> push_run c n (map frame_of ss)"
  by (induction ss arbitrary: n)
    (auto simp: frame_of_def frame_ok_def seg_header_def tagged_def seg_ok_def word_less_nat_alt
      known_command_def kcp_constants)

lemma flush_move_all:
  "kcp_ok k \<Longrightarrow> unat w \<le> 65535 \<Longrightarrow> offset (snd_una k) (snd_nxt k) + length (snd_queue k) \<le> unat w \<Longrightarrow>
   \<exists>ns. snd_buf (flush_move wnd w k) = snd_buf k @ ns \<and> map seg_part ns = map seg_part (snd_queue k) \<and>
     numbered (conv k) (snd_nxt k) ns \<and> (\<forall>s \<in> set ns. seg_xmit s = 0)"
proof (induction wnd w k rule: flush_move.induct)
  case (1 wnd w kcp)
  let ?u = "snd_una kcp" let ?n = "snd_nxt kcp"
  show ?case
  proof (cases "snd_queue kcp")
    case Nil
    then have "flush_move wnd w kcp = kcp" by (simp add: flush_move.simps [of wnd w kcp])
    then show ?thesis by (auto simp: Nil intro!: exI [of _ "[]"])
  next
    case q: (Cons newseg p)
    let ?s = "number_segment wnd kcp newseg"
    let ?k = "kcp\<lparr>snd_queue := p, snd_buf := snd_buf kcp @ [?s],
      nsnd_que := nsnd_que kcp - 1, nsnd_buf := nsnd_buf kcp + 1, snd_nxt := ?n + 1\<rparr>"
    have lt: "offset ?u ?n < unat w" using 1(4) q by simp
    have "offset ?u (?u + w) = unat w" using 1(3) offset_add [of ?u ?u w] by simp
    then have due: "itimediff ?n (?u + w) < 0"
      using itimediff_offset [of ?u ?n "?u + w"] lt 1(3) by (simp del: of_nat_unat)
    have nxt: "offset ?u (?n + 1) = offset ?u ?n + 1" using offset_add [of ?u ?n 1] lt 1(3) by simp
    have "send_ok kcp" using 1(2) by (simp add: kcp_ok_def)
    from flush_move_step [OF this due 1(3) q] have "send_ok ?k" .
    then have "kcp_ok ?k" by (rule kcp_ok_send [OF 1(2)]) (simp_all add: part_defs)
    from 1(1) [OF due q this 1(3)] 1(4) nxt q obtain ns where
      "snd_buf (flush_move wnd w ?k) = snd_buf kcp @ ?s # ns" "map seg_part ns = map seg_part p"
      "numbered (conv kcp) (?n + 1) ns" "\<forall>s \<in> set ns. seg_xmit s = 0" by auto
    moreover have "seg_part ?s = seg_part newseg" by (simp add: number_segment_def seg_part_def)
    moreover have "seg_sn ?s = ?n" "tagged (conv kcp) ?s" "seg_xmit ?s = 0"
      by (simp_all add: number_segment_def tagged_def)
    ultimately show ?thesis using due q
      by (intro exI [of _ "?s # ns"]) (simp add: flush_move.simps [of wnd w kcp])
  qed
qed

text \<open>A sender with nothing in flight and nothing but data to say.\<close>

definition idle :: "ikcpcb \<Rightarrow> bool" where
  "idle k \<longleftrightarrow> updated k \<noteq> 0 \<and> ackcount k = 0 \<and> probe k = 0 \<and> snd_buf k = []"

lemma flush_control_idle:
  assumes "idle k" "rmt_wnd k \<noteq> 0"
  shows "flush_control k = Some (flush_seg k, [], probe_timer k\<lparr>ackcount := 0, probe := 0\<rparr>)"
proof -
  have k: "k\<lparr>ackcount := 0\<rparr> = k" using assms(1) by (simp add: idle_def)
  have p: "probe (probe_timer k) = 0" using assms by (simp add: probe_timer_def idle_def)
  have a: "ackcount (probe_timer k) = 0" using assms by (simp add: probe_timer_def idle_def)
  then have "probe_timer k\<lparr>ackcount := 0\<rparr> = probe_timer k" by simp
  then show ?thesis using assms p by (simp add: flush_control_def idle_def Let_def flush_probe_def k)
qed

lemma frame_part_of: "unat (seg_frg s) < 256 \<Longrightarrow> frame_part (frame_of s) = seg_part s"
proof -
  assume "unat (seg_frg s) < 256"
  then have "ucast (ucast (seg_frg s) :: byte) = seg_frg s"
    by (simp add: word_unat_eq_iff unsigned_ucast_eq unsigned_take_bit_eq take_bit_nat_eq_self)
  then show ?thesis by (simp add: frame_part_def frame_of_def seg_part_def seg_header_def)
qed

lemma flush_emits:
  assumes "kcp_ok k" "fits k" "idle k" "length (snd_queue k) \<le> window_limit k" "snd_queue k \<noteq> []"
    and "\<forall>s \<in> set (snd_queue k). unat (seg_frg s) < 256"
  shows "\<exists>k' fss. ikcp_flush k = Some k' \<and> packets k' = packets k @ map encode_frames fss \<and> [] \<notin> set fss \<and>
    push_run (conv k) (snd_nxt k) (concat fss) \<and> map frame_part (concat fss) = map seg_part (snd_queue k) \<and>
    (\<forall>fs \<in> set fss. length (encode_frames fs) \<le> unat (mtu k))"
proof -
  obtain k' where f: "ikcp_flush k = Some k'" "sent_within (unat (mtu k)) k k'"
    using flush_roomy [OF assms(1,2)] by (auto simp: succeeds_def)
  have "window_limit k \<noteq> 0" using assms(4,5) by (cases "snd_queue k") auto
  then have rw: "rmt_wnd k \<noteq> 0" by (auto simp: window_limit_def Let_def split: if_splits)
  have up: "updated k \<noteq> 0" using assms(3) by (simp add: idle_def)
  obtain seg out k1 buf change lost out2 k2 k3 resent rtomin w where
    c: "flush_control k = Some (seg, out, k1)" "w = flush_window k1"
    and d: "flush_data (seg_wnd seg) resent rtomin (snd_buf (flush_move (seg_wnd seg) w k1)) False False out
     (flush_move (seg_wnd seg) w k1) = Some (buf, change, lost, out2, k2)"
    and o: "(if 0 < length out2 then do { (_, k) \<leftarrow> ikcp_output out2 (k2\<lparr>snd_buf := buf\<rparr>); Some k }
    else Some (k2\<lparr>snd_buf := buf\<rparr>)) = Some k3"
    and e: "k' = flush_cwnd change lost resent w k3"
    by (rule flush_stages [OF f(1) up])
  have k1: "out = []" "k1 = probe_timer k\<lparr>ackcount := 0, probe := 0\<rparr>"
    using c(1) flush_control_idle [OF assms(3) rw] by simp_all
  have w1: "window_part k1 = window_part k" "conv k1 = conv k" "packets k1 = packets k"
    by (simp_all add: k1(2) probe_timer_def Let_def window_part_def)
  have ok: "kcp_ok k1" by (rule control_ok [OF assms(1) c(1)])
  have "rmt_wnd k1 \<le> 65535" using ok unfolding kcp_ok_def send_ok_def send_core_def by blast
  then have w: "unat w \<le> 65535" using flush_window_le [of k1] by (simp add: c(2) word_le_nat_alt)
  have wl: "unat w = window_limit k" unfolding c(2) unat_flush_window by (rule window_limit_part [OF w1(1)])
  have q: "snd_buf k1 = []" "snd_queue k1 = snd_queue k" "snd_nxt k1 = snd_nxt k" "snd_una k1 = snd_una k"
    using w1(1) assms(3) by (simp_all add: window_part_def idle_def)
  have "send_ok k1" using ok by (simp add: kcp_ok_def)
  then have "snd_una k1 = snd_nxt k1" by (simp add: send_ok_def q(1))
  then have "offset (snd_una k1) (snd_nxt k1) + length (snd_queue k1) \<le> unat w" using assms(4) wl q by simp
  from flush_move_all [OF ok w this, of "seg_wnd seg"] obtain ns where ns:
    "snd_buf (flush_move (seg_wnd seg) w k1) = ns" "map seg_part ns = map seg_part (snd_queue k)"
    "numbered (conv k) (snd_nxt k) ns" "\<forall>s \<in> set ns. seg_xmit s = 0"
    by (auto simp: q w1(2))
  let ?m = "flush_move (seg_wnd seg) w k1"
  have "kcp_ok ?m" by (rule flush_move_ok [OF ok w])
  then have so: "\<forall>s \<in> set ns. seg_ok s" by (simp add: kcp_ok_def send_ok_def send_core_def ns(1))
  have "emitted k [] out ?m"
    using flush_move_frame [of "seg_wnd seg" w k1] w1(3) k1(1)
    unfolding emitted_def by (intro exI [of _ "[]"]) simp
  from ensuresD [OF flush_data_emits [OF this] d] ns so
  have em: "emitted k (map frame_of buf) out2 k2" "map seg_part buf = map seg_part ns" "map seg_core buf = map seg_core ns"
    by auto
  have e3: "emitted k (map frame_of buf) [] k3"
  proof (cases "out2 = []")
    case True
    then show ?thesis using o em(1) emitted_same [of "k2\<lparr>snd_buf := buf\<rparr>" k2] by auto
  next
    case False
    then obtain r where "ikcp_output out2 (k2\<lparr>snd_buf := buf\<rparr>) = Some (r, k3)"
      using o by (auto simp: Option.bind_eq_Some_conv)
    from emitted_output [OF _ this] em(1) emitted_same [of "k2\<lparr>snd_buf := buf\<rparr>" k2] show ?thesis by simp
  qed
  then obtain fss where fss: "packets k3 = packets k @ map encode_frames fss" "concat fss = map frame_of buf" "[] \<notin> set fss"
    by (auto simp: emitted_def dest!: encode_frames_empty [THEN iffD1, OF sym])
  have pk: "packets k' = packets k3" by (simp add: e)
  have nb: "numbered (conv k) (snd_nxt k) buf" using ns(3) numbered_core [OF em(3)] by simp
  have ok_core: "(\<forall>s \<in> set ss. seg_ok s) = (\<forall>(n, l, d, c, m) \<in> set (map seg_core ss). length d = unat l \<and> l < 2147483648)" for ss
    by (auto simp: seg_core_def seg_ok_def)
  have "\<forall>s \<in> set buf. seg_ok s" using so unfolding ok_core em(3) .
  from numbered_run [OF nb this] have run: "push_run (conv k) (snd_nxt k) (concat fss)" by (simp add: fss(2))
  have "seg_frg ` set buf = fst ` set (map seg_part buf)" by (force simp: seg_part_def)
  also have "\<dots> = seg_frg ` set (snd_queue k)" unfolding em(2) ns(2) by (force simp: seg_part_def)
  finally have "\<forall>s \<in> set buf. unat (seg_frg s) < 256" using assms(6) by (metis (no_types, lifting) image_iff)
  then have parts: "map frame_part (concat fss) = map seg_part (snd_queue k)"
    by (simp add: fss(2) frame_part_of em(2) ns(2) flip: em(2) ns(2))
  have "\<forall>fs \<in> set fss. length (encode_frames fs) \<le> unat (mtu k)"
    using f(2) fss(1) pk by (auto simp: sent_within_def)
  with f(1) pk fss run parts show ?thesis by auto
qed

section \<open>A message from end to end\<close>

definition feed :: "byte list list \<Rightarrow> ikcpcb \<Rightarrow> ikcpcb option" where
  "feed ps = kcp_perform_all (map (\<lambda>p. Input (Some p) (int (length p))) ps)"

lemma feed_runs:
  "ready k \<Longrightarrow> push_run (conv k) (rcv_nxt k) (concat fss) \<Longrightarrow> [] \<notin> set fss \<Longrightarrow>
   unat (ackcount k) + length (concat fss) < 2147483648 \<Longrightarrow>
   unat (nrcv_que k) + length (concat fss) \<le> unat (rcv_wnd k) \<Longrightarrow>
   \<forall>fs \<in> set fss. length (encode_frames fs) < 2147483648 \<Longrightarrow>
   \<exists>k'. feed (map encode_frames fss) k = Some k' \<and> delivered (concat fss) k k'"
proof (induction fss arbitrary: k)
  case (Cons fs fss)
  have run: "push_run (conv k) (rcv_nxt k) fs" "push_run (conv k) (rcv_nxt k + of_nat (length fs)) (concat fss)"
    using Cons.prems(2) by (simp_all add: push_run_append)
  obtain k1 where k1: "ikcp_input (Some (encode_frames fs)) (int (length (encode_frames fs))) k = Some (0, k1)"
    "delivered fs k k1"
    using input_next [OF Cons.prems(1) run(1)] Cons.prems by auto
  have n: "unat (of_nat (length fs) :: u32) = length fs"
    by (rule unat_of_nat_small) (use Cons.prems(4) in simp)
  have u: "unat (ackcount k1) = unat (ackcount k) + length fs" "unat (nrcv_que k1) = unat (nrcv_que k) + length fs"
  proof -
    have a: "ackcount k1 = ackcount k + of_nat (length fs)" "nrcv_que k1 = nrcv_que k + of_nat (length fs)"
      using k1(2) by (simp_all add: delivered_def)
    show "unat (ackcount k1) = unat (ackcount k) + length fs"
      unfolding a unat_add_u32 n by (rule mod_less) (use Cons.prems(4) in simp)
    show "unat (nrcv_que k1) = unat (nrcv_que k) + length fs"
      unfolding a unat_add_u32 n by (rule mod_less) (use Cons.prems(5) unat_less_max [of "rcv_wnd k"] in simp)
  qed
  have "\<exists>k'. feed (map encode_frames fss) k1 = Some k' \<and> delivered (concat fss) k1 k'"
    by (rule Cons.IH) (use k1(2) run(2) u Cons.prems in \<open>auto simp: delivered_def\<close>)
  then obtain k2 where "feed (map encode_frames fss) k1 = Some k2" "delivered (concat fss) k1 k2" by blast
  with k1 delivered_append [OF k1(2)] show ?case
    by (auto simp: feed_def kcp_perform_def)
qed (simp add: feed_def delivered_Nil)

lemma fragments_of_parts:
  assumes "map seg_part xs = map seg_part ys" "fragments_of m msg ys"
  shows "fragments_of m msg xs"
proof -
  have frg: "map seg_frg xs = map seg_frg ys"
    using arg_cong [OF assms(1), of "map fst"] by (simp add: seg_part_def comp_def)
  have data: "map seg_data xs = map seg_data ys"
    using arg_cong [OF assms(1), of "map (snd \<circ> snd)"] by (simp add: seg_part_def comp_def)
  have l: "length xs = length ys" using arg_cong [OF assms(1), of length] by simp
  have ok: "(\<forall>s \<in> set ss. seg_ok s \<and> seg_len s \<le> m) \<longleftrightarrow>
      (\<forall>(f, l, d) \<in> set (map seg_part ss). length d = unat l \<and> l < 2147483648 \<and> l \<le> m)" for ss
    by (auto simp: seg_part_def seg_ok_def)
  have "\<forall>s \<in> set ys. seg_ok s \<and> seg_len s \<le> m" using assms(2) by (simp add: fragments_of_def)
  then have "\<forall>s \<in> set xs. seg_ok s \<and> seg_len s \<le> m" unfolding ok assms(1) .
  with assms(2) frg data l show ?thesis by (auto simp: fragments_of_def)
qed

lemma fragment_number_small:
  assumes "fragments_of m msg segs" "length segs < 128" "s \<in> set segs"
  shows "unat (seg_frg s) < 256"
proof -
  have m: "map seg_frg segs = rev (map of_nat [0..<length segs])" using assms(1) by (simp add: fragments_of_def)
  have "seg_frg s \<in> set (map seg_frg segs)" using assms(3) by simp
  then obtain i where "i < length segs" "seg_frg s = of_nat i" unfolding m by auto
  then show ?thesis using assms(2) unat_of_nat_small [of i] by simp
qed

lemma send_then_flush:
  assumes "kcp_ok k" "reliable k" "stream k = 0" "fits k" "idle k" "snd_queue k = []" "length msg < 2147483648"
    and "n = fragments_needed (length msg) (unat (mss k))" "n \<le> window_limit k" "n < 128"
  shows "\<exists>k' k'' segs fss. ikcp_send (Some msg) (int (length msg)) k = Some (int (length msg), k') \<and>
    ikcp_flush k' = Some k'' \<and> packets k'' = packets k @ map encode_frames fss \<and> [] \<notin> set fss \<and>
    push_run (conv k) (snd_nxt k) (concat fss) \<and> map frame_part (concat fss) = map seg_part segs \<and>
    length segs = n \<and> fragments_of (mss k) msg segs \<and>
    (\<forall>fs \<in> set fss. length (encode_frames fs) < 2147483648)"
proof -
  have l: "layout_ok k" "mtu k < 1073741824" using assms(1,4) by (simp_all add: kcp_ok_def fits_def)
  note m = layout_unat [OF l]
  have pos: "0 < to_int (mss k)" using sint_unat [of "mss k"] m(1,2,4) by (simp del: of_nat_unat)
  obtain segs where segs: "fragments_of (mss k) msg segs" "length segs = n"
    "ikcp_send (Some msg) (int (length msg)) k = Some (int (length msg),
        k\<lparr>requests := requests k + n, snd_queue := snd_queue k @ segs, nsnd_que := nsnd_que k + of_nat n\<rparr>)"
    using send_splits [OF assms(2,3) pos assms(7,8)] assms(10) by auto
  let ?k = "k\<lparr>requests := requests k + n, snd_queue := segs, nsnd_que := nsnd_que k + of_nat n\<rparr>"
  have send: "ikcp_send (Some msg) (int (length msg)) k = Some (int (length msg), ?k)"
    using segs(3) assms(6) by simp
  have ok: "kcp_ok ?k" using ensuresD [OF send_call_ok [OF assms(1)] send] by simp
  have fit: "fits ?k" using ensuresD [OF send_quiet [OF assms(1)] send] fits_linked [OF _ assms(4)] by (simp add: silent_def)
  have "\<exists>k'' fss. ikcp_flush ?k = Some k'' \<and> packets k'' = packets ?k @ map encode_frames fss \<and> [] \<notin> set fss \<and>
    push_run (conv ?k) (snd_nxt ?k) (concat fss) \<and> map frame_part (concat fss) = map seg_part (snd_queue ?k) \<and>
    (\<forall>fs \<in> set fss. length (encode_frames fs) \<le> unat (mtu ?k))"
  proof (rule flush_emits [OF ok fit])
    show "idle ?k" using assms(5) by (simp add: idle_def)
    show "length (snd_queue ?k) \<le> window_limit ?k"
      using assms(9) segs(2) by (simp add: window_limit_def Let_def split: if_splits)
    show "snd_queue ?k \<noteq> []" using segs(1) by (auto simp: fragments_of_def)
    show "\<forall>s \<in> set (snd_queue ?k). unat (seg_frg s) < 256"
      using fragment_number_small [OF segs(1)] segs(2) assms(10) by simp
  qed
  then obtain k'' fss where "ikcp_flush ?k = Some k''" "packets k'' = packets k @ map encode_frames fss"
    "[] \<notin> set fss" "push_run (conv k) (snd_nxt k) (concat fss)" "map frame_part (concat fss) = map seg_part segs"
    "\<forall>fs \<in> set fss. length (encode_frames fs) \<le> unat (mtu k)" by auto
  moreover have "\<forall>fs \<in> set fss. length (encode_frames fs) < 2147483648"
    using calculation(6) m(2) by fastforce
  ultimately show ?thesis using send segs(1,2) by blast
qed

text \<open>
  C11.  A message arrives: one endpoint has an output callback, nothing in flight and nothing else to say;
  the other expects its next sequence number and holds nothing back.  Then \<open>ikcp_send\<close> accepts a message
  that fits the window, \<open>ikcp_flush\<close> emits packets, \<open>ikcp_input\<close> on the other side accepts them in
  order, and \<open>ikcp_recv\<close> there returns the message: every call returns, and no byte is lost or changed.
\<close>

theorem message_arrives:
  assumes "kcp_reachable E1 c k1" "reliable k1" "stream k1 = 0" "fits k1" "idle k1" "snd_queue k1 = []"
    and "kcp_reachable E2 c k2" "reliable k2" "rcv_buf k2 = []" "rcv_queue k2 = []" "rcv_nxt k2 = snd_nxt k1"
    and "unat (ackcount k2) < 2147483520" "length msg < 2147483648"
    and "fragments_needed (length msg) (unat (mss k1)) \<le> window_limit k1"
    and "fragments_needed (length msg) (unat (mss k1)) < 128"
  shows "\<exists>k1' k1'' sent k2' k2''.
    ikcp_send (Some msg) (int (length msg)) k1 = Some (int (length msg), k1') \<and>
    ikcp_flush k1' = Some k1'' \<and> packets k1'' = packets k1 @ sent \<and>
    feed sent k2 = Some k2' \<and>
    ikcp_recv (Some (length msg)) (int (length msg)) k2' = Some (int (length msg), msg, k2'')"
proof -
  let ?n = "fragments_needed (length msg) (unat (mss k1))"
  have ok: "kcp_ok k1" "conv k1 = c" "kcp_ok k2" "conv k2 = c"
    using reachable_link_ok [OF assms(1)] reachable_link_ok [OF assms(7)] by (simp_all add: link_ok_def)
  obtain k1' k1'' segs fss where
    send: "ikcp_send (Some msg) (int (length msg)) k1 = Some (int (length msg), k1')"
      "ikcp_flush k1' = Some k1''" "packets k1'' = packets k1 @ map encode_frames fss"
    and fss: "[] \<notin> set fss" "push_run (conv k2) (rcv_nxt k2) (concat fss)"
      "map frame_part (concat fss) = map seg_part segs" "\<forall>fs \<in> set fss. length (encode_frames fs) < 2147483648"
    and segs: "length segs = ?n" "fragments_of (mss k1) msg segs"
    using send_then_flush [OF ok(1) assms(2-6,13) refl assms(14,15)] ok(2,4) assms(11) by auto
  have l: "length (concat fss) < 128"
    using arg_cong [OF fss(3), of length] segs(1) assms(15) by simp
  have ro: "recv_ok k2" using ok(3) by (simp add: kcp_ok_def)
  then have "128 \<le> unat (rcv_wnd k2)" "nrcv_que k2 = 0"
    using assms(10) by (simp_all add: recv_ok_def word_le_nat_alt)
  then obtain k2' where k2': "feed (map encode_frames fss) k2 = Some k2'" "delivered (concat fss) k2 k2'"
    using feed_runs [of k2 fss] ok(3) fss l assms(8,9,12) by (auto simp: ready_def)
  have "map seg_part (rcv_queue k2') = map seg_part segs" using k2'(2) fss(3) assms(10) by (simp add: delivered_def)
  then have f: "fragments_of (mss k1) msg (rcv_queue k2')" by (rule fragments_of_parts [OF _ segs(2)])
  have "counted k2'" using k2'(2) recv_ok_counted [of k2'] by (simp add: delivered_def ready_def kcp_ok_def)
  from recv_fragments [OF this _ f assms(13), of "[]" "int (length msg)" "length msg"]
  obtain k2'' where "ikcp_recv (Some (length msg)) (int (length msg)) k2' = Some (int (length msg), msg, k2'')"
    by auto
  with send k2'(1) show ?thesis by blast
qed

end
