(* ===== verification/Kcp_Examples.thy ===== *)
theory Kcp_Examples
  imports Kcp_Delivery
begin

text \<open>
  Concrete runs of KCP: the properties of the queues and of the acknowledge list applied to small states,
  and four runs in which the code does something undefined.
\<close>

section \<open>A new control block\<close>

definition demo_new :: ikcpcb where
  "demo_new = (case ikcp_create kcp_demo_env 7 of Some k \<Rightarrow> k | None \<Rightarrow> demo)"

lemma demo_new_fields:
  "kenv demo_new = kcp_demo_env" "stream demo_new = 0" "mss demo_new = 1376" "snd_queue demo_new = []"
  "acklist demo_new = None" "ackcount demo_new = 0" "ackblock demo_new = 0" "rcv_buf demo_new = []"
  "buffer demo_new = 4272" "requests demo_new = 2"
  by (simp_all add: demo_new_def ikcp_create_def kcp_demo_env_def Let_def kcp_constants)

lemma demo_new_reliable: "reliable demo_new"
  by (simp add: reliable_def demo_new_fields) (simp add: kcp_demo_env_def)

theorem send_splits_message_witness:
  "\<exists>segs. fragments_of 1376 (replicate 3000 1) segs \<and> length segs = 3 \<and>
     map_option fst (ikcp_send (Some (replicate 3000 1)) 3000 demo_new) = Some 3000"
proof -
  have n: "3 = fragments_needed (length (replicate 3000 (1 :: byte))) (unat (mss demo_new))"
    by (simp add: fragments_needed_def demo_new_fields)
  have "0 < to_int (mss demo_new)" by (simp add: demo_new_fields)
  from send_splits_message [OF demo_new_reliable demo_new_fields(2) this _ n] show ?thesis
    by (auto simp: demo_new_fields(3))
qed

definition demo_fragment :: "u32 \<Rightarrow> byte list \<Rightarrow> IKCPSEG" where
  "demo_fragment frg bs = fresh_segment kcp_demo_env 0 0\<lparr>seg_frg := frg, seg_len := of_nat (length bs), seg_data := bs\<rparr>"

definition demo_waiting :: ikcpcb where
  "demo_waiting = demo_new\<lparr>rcv_queue := [demo_fragment 1 [1, 2], demo_fragment 0 [3], demo_fragment 0 [4]],
     nrcv_que := 3\<rparr>"

theorem recv_reassembles_witness:
  "\<exists>kcp'. ikcp_recv (Some 8) 8 demo_waiting = Some (3, [1, 2, 3], kcp') \<and>
     rcv_queue kcp' = [demo_fragment 0 [4]]"
proof -
  have c: "counted demo_waiting" by (simp add: counted_def demo_waiting_def)
  have q: "rcv_queue demo_waiting = [demo_fragment 1 [1, 2], demo_fragment 0 [3]] @ [demo_fragment 0 [4]]"
    by (simp add: demo_waiting_def)
  have f: "fragments_of 1376 [1, 2, 3] [demo_fragment 1 [1, 2], demo_fragment 0 [3]]"
    by (simp add: fragments_of_def demo_fragment_def seg_ok_def)
  from recv_reassembles [OF c q f, of 8 8] show ?thesis
    by (auto simp: demo_waiting_def demo_new_fields)
qed

theorem ack_push_appends_witness:
  "\<exists>kcp'. ikcp_ack_push 5 17 demo_new = Some kcp' \<and> acks kcp' = [(5, 17)]"
proof -
  have "ack_ok demo_new" by (simp add: ack_ok_def demo_new_fields)
  from ack_push_appends [OF this demo_new_reliable, of 5 17] show ?thesis
    by (auto simp: demo_new_fields acks_def)
qed

section \<open>Packets between two endpoints\<close>

lemma demo_reliable: "reliable demo"
proof -
  have "kenv_alloc (kenv demo) n m" for n m by code_simp
  then show ?thesis by (simp add: reliable_def)
qed

definition demo_header :: "8 word \<Rightarrow> u32 \<Rightarrow> u32 \<Rightarrow> kcp_header" where
  "demo_header cmd sn n = \<lparr>h_conv = 7, h_cmd = cmd, h_frg = 0, h_wnd = 128, h_ts = 5, h_sn = sn, h_una = 0, h_len = n\<rparr>"

theorem genuine_packet_accepted_witness:
  "\<exists>kcp'. ikcp_input (Some (encode_frames [(demo_header 82 0 0, []), (demo_header 81 4 2, [8, 9])]))
     50 demo = Some (0, kcp')"
proof -
  let ?fs = "[(demo_header 82 0 0, []), (demo_header 81 4 2, [8, 9])]"
  have "rx_srtt demo = 0" "rx_rttval demo = 0" by code_simp+
  then have "calm demo" using demo_reliable by (simp add: calm_def)
  moreover have "current demo = 110" by code_simp
  then have "\<forall>f \<in> set ?fs. frame_ok 7 f \<and> round_trip_ok (current demo) f"
    by (simp add: frame_ok_def round_trip_ok_def demo_header_def known_command_def kcp_constants itimediff_def)
  moreover have "ackcount demo = 0" by code_simp
  moreover have "length (encode_frames ?fs) = 50" by (simp add: length_encode_frames)
  ultimately show ?thesis using genuine_packet_accepted [OF demo_reachable, of ?fs] by simp
qed

theorem in_order_delivered_witness:
  "\<exists>kcp'. ikcp_input (Some (encode_frames [(demo_header 81 0 1, [8]), (demo_header 81 1 1, [9])])) 50 demo =
     Some (0, kcp') \<and> map seg_data (rcv_queue kcp') = [[8], [9]]"
proof -
  let ?fs = "[(demo_header 81 0 1, [8]), (demo_header 81 1 1, [9])]"
  have r: "rcv_nxt demo = 0" "rcv_buf demo = []" "rcv_queue demo = []" by code_simp+
  have c: "ackcount demo = 0" "nrcv_que demo = 0" "rcv_wnd demo = 128" by code_simp+
  have "push_run 7 (rcv_nxt demo) ?fs"
    by (simp add: r frame_ok_def demo_header_def known_command_def kcp_constants)
  moreover have "length (encode_frames ?fs) = 50" by (simp add: length_encode_frames)
  ultimately obtain kcp' where k: "ikcp_input (Some (encode_frames ?fs)) 50 demo = Some (0, kcp')"
    "map seg_part (rcv_queue kcp') = map frame_part ?fs"
    using in_order_delivered [OF demo_reachable demo_reliable r(2), of ?fs] by (auto simp: c r(3))
  have "map seg_data (rcv_queue kcp') = map (snd \<circ> snd) (map seg_part (rcv_queue kcp'))"
    by (simp add: seg_part_def)
  then show ?thesis using k by (auto simp: frame_part_def)
qed

definition demo_sender :: ikcpcb where
  "demo_sender = (case kcp_perform_all [Create_output (Some (\<lambda>d. 0)), Set_nodelay 1 10 2 1, Update 100] demo_new of
     Some k \<Rightarrow> k | None \<Rightarrow> demo_new)"

lemma demo_new_reachable: "kcp_reachable kcp_demo_env 7 demo_new"
  by (rule created) (simp add: demo_new_def ikcp_create_def kcp_demo_env_def Let_def)

lemma demo_sender_reachable: "kcp_reachable kcp_demo_env 7 demo_sender"
proof -
  have "\<forall>call \<in> set [Create_output (Some (\<lambda>d. 0)), Set_nodelay 1 10 2 1, Update 100]. int_arguments call"
    by (simp add: int_arguments_def is_int_def)
  from kcp_calls_reachable [OF demo_new_reachable this] show ?thesis
    by (simp del: kcp_perform_all.simps add: demo_sender_def demo_new_reachable split: option.split)
qed

theorem message_arrives_witness:
  "\<exists>k1' k1'' sent k2' k2''.
    ikcp_send (Some (replicate 3000 7)) 3000 demo_sender = Some (3000, k1') \<and>
    ikcp_flush k1' = Some k1'' \<and> packets k1'' = packets demo_sender @ sent \<and> feed sent demo_new = Some k2' \<and>
    ikcp_recv (Some 3000) 3000 k2' = Some (3000, replicate 3000 7, k2'')"
proof -
  have "kenv_alloc (kenv demo_sender) n m" for n m by code_simp
  then have rel: "reliable demo_sender" by (simp add: reliable_def)
  have st: "stream demo_sender = 0" by code_simp
  have "\<not> Option.is_none (koutput demo_sender)" "mtu demo_sender < 1073741824" by code_simp+
  moreover have q: "snd_queue demo_sender = []" "snd_buf demo_sender = []" by code_simp+
  ultimately have fit: "fits demo_sender" by (simp add: fits_def Option.is_none_def)
  have "updated demo_sender \<noteq> 0" "ackcount demo_sender = 0" "probe demo_sender = 0" by code_simp+
  then have idle: "idle demo_sender" using q(2) by (simp add: idle_def)
  have new: "rcv_buf demo_new = []" "rcv_queue demo_new = []" "ackcount demo_new = 0" by code_simp+
  have nxt: "rcv_nxt demo_new = 0" "snd_nxt demo_sender = 0" by code_simp+
  have lim: "window_limit demo_sender = 32" "mss demo_sender = 1376" by code_simp+
  from message_arrives [OF demo_sender_reachable rel st fit idle q(1) demo_new_reachable demo_new_reliable new(1,2),
      of "replicate 3000 7"] nxt
  show ?thesis by (simp add: new(3) lim fragments_needed_def)
qed

section \<open>Undefined behaviour\<close>

text \<open>
  Segments that were queued under a large mtu do not fit the buffer of a smaller one: a message of 1000
  bytes, the mtu set to 50 (a buffer of 222 bytes), and the next flush writes past its end.
\<close>

lemma setmtu_after_send_overflows:
  "Option.is_none (kcp_perform_all [Create_output (Some (\<lambda>d. 0)), Set_nodelay 1 10 2 1,
     Send (Some (replicate 1000 1)) 1000, Set_mtu 50, Update 100] demo_new)"
  by code_simp

text \<open>The size of the buffer is computed in 32 bits: for an mtu of 1431655742 it is 2 bytes.\<close>

lemma setmtu_wraps:
  "fst (ikcp_setmtu 1431655742 demo_new) = 0 \<and> buffer (snd (ikcp_setmtu 1431655742 demo_new)) = 2"
  using demo_new_reliable
  by (simp add: ikcp_setmtu_def ikcp_malloc_def reliable_def IKCP_OVERHEAD_def)

text \<open>The loop that looks for a larger block of the acknowledge list never ends above \<open>2 ^ 31\<close> entries.\<close>

lemma ack_newblock_diverges:
  assumes "2147483648 < n"
  shows "ack_newblock n 8 = None"
proof (rule ccontr)
  assume "ack_newblock n 8 \<noteq> None"
  then obtain r where r: "ack_newblock n 8 = Some r" by auto
  have "doubling 8" by (auto simp: doubling_def intro!: exI [of _ 3])
  with ack_newblock_spec [OF r] have "n \<le> r" "unat r \<le> 2147483648" using doubling_le by auto
  then show False using assms by (simp add: word_le_nat_alt word_less_nat_alt)
qed

text \<open>
  An acknowledgement whose time stamp lies \<open>2 ^ 30\<close> ms back makes \<open>4 * rx_rttval\<close> overflow \<open>int\<close>: one
  forged packet of 24 bytes is enough.
\<close>

definition demo_forged_ack :: "byte list" where
  "demo_forged_ack = encode_header \<lparr>h_conv = 7, h_cmd = 82, h_frg = 0, h_wnd = 128, h_ts = 3221225582,
     h_sn = 0, h_una = 0, h_len = 0\<rparr>"

lemma forged_ack_overflows: "Option.is_none (kcp_perform (Input (Some demo_forged_ack) 24) demo)"
  by code_simp

end
