(* ===== verification/Pb_Wire.thy ===== *)
theory Pb_Wire
  imports Base
begin

unbundle bit_operations_syntax

text \<open>
  The protobuf wire format of \<open>pb/c/pb.h\<close>: the conversions of signed integers, the readers of a slice
  (varints, fixed-width integers, byte strings, groups), the skipping of unknown values and the tables
  of wire and field types.

  A \<open>pb_Slice\<close> holds three pointers into one block of memory.  The block is a list of bytes \<open>M\<close> and a
  pointer is an index into it.  A reader gives \<open>None\<close> when it reads outside the block (undefined
  behaviour in C), and otherwise the count it returns, the value it stores through its result pointer
  (\<open>None\<close> when it stores nothing) and the slice it leaves.
\<close>

type_synonym uint8 = "8 word"
type_synonym uint32 = "32 word"
type_synonym uint64 = "64 word"
type_synonym mem = "uint8 list"

section \<open>Wire types and field types\<close>

datatype pb_WireType = PB_TVARINT | PB_T64BIT | PB_TBYTES | PB_TGSTART | PB_TGEND | PB_T32BIT
  | PB_TWIRECOUNT

datatype pb_FieldType = PB_TNONE | PB_Tdouble | PB_Tfloat | PB_Tint64 | PB_Tuint64 | PB_Tint32
  | PB_Tfixed64 | PB_Tfixed32 | PB_Tbool | PB_Tstring | PB_Tgroup | PB_Tmessage | PB_Tbytes
  | PB_Tuint32 | PB_Tenum | PB_Tsfixed32 | PB_Tsfixed64 | PB_Tsint32 | PB_Tsint64 | PB_TYPECOUNT

text \<open>An enumerator is its position in the declaration.\<close>

definition wire_enum :: "pb_WireType list" where
  "wire_enum = [PB_TVARINT, PB_T64BIT, PB_TBYTES, PB_TGSTART, PB_TGEND, PB_T32BIT]"

definition field_enum :: "pb_FieldType list" where
  "field_enum = [PB_TNONE, PB_Tdouble, PB_Tfloat, PB_Tint64, PB_Tuint64, PB_Tint32, PB_Tfixed64,
     PB_Tfixed32, PB_Tbool, PB_Tstring, PB_Tgroup, PB_Tmessage, PB_Tbytes, PB_Tuint32, PB_Tenum,
     PB_Tsfixed32, PB_Tsfixed64, PB_Tsint32, PB_Tsint64]"

definition wire_of :: "int \<Rightarrow> pb_WireType" where
  "wire_of n = (if 0 \<le> n \<and> n < 6 then wire_enum ! nat n else PB_TWIRECOUNT)"

definition field_of :: "int \<Rightarrow> pb_FieldType" where
  "field_of n = (if 0 \<le> n \<and> n < 19 then field_enum ! nat n else PB_TYPECOUNT)"

fun wire_num :: "pb_WireType \<Rightarrow> uint32" where
  "wire_num PB_TVARINT = 0"
| "wire_num PB_T64BIT = 1"
| "wire_num PB_TBYTES = 2"
| "wire_num PB_TGSTART = 3"
| "wire_num PB_TGEND = 4"
| "wire_num PB_T32BIT = 5"
| "wire_num PB_TWIRECOUNT = 6"

definition pb_gettype :: "uint32 \<Rightarrow> uint32" where "pb_gettype v = v AND 7"
definition pb_gettag :: "uint32 \<Rightarrow> uint32" where "pb_gettag v = drop_bit 3 v"
definition pb_pair :: "uint32 \<Rightarrow> pb_WireType \<Rightarrow> uint32" where
  "pb_pair tag ty = push_bit 3 tag OR (wire_num ty AND 7)"

definition wiretype :: "uint32 \<Rightarrow> pb_WireType" where
  "wiretype tag = wire_of (uint (pb_gettype tag))"

definition pb_wtypebytype :: "int \<Rightarrow> pb_WireType" where
  "pb_wtypebytype ty = (case field_of ty of
       PB_Tdouble \<Rightarrow> PB_T64BIT | PB_Tfloat \<Rightarrow> PB_T32BIT | PB_Tint64 \<Rightarrow> PB_TVARINT
     | PB_Tuint64 \<Rightarrow> PB_TVARINT | PB_Tint32 \<Rightarrow> PB_TVARINT | PB_Tfixed64 \<Rightarrow> PB_T64BIT
     | PB_Tfixed32 \<Rightarrow> PB_T32BIT | PB_Tbool \<Rightarrow> PB_TVARINT | PB_Tstring \<Rightarrow> PB_TBYTES
     | PB_Tmessage \<Rightarrow> PB_TBYTES | PB_Tbytes \<Rightarrow> PB_TBYTES | PB_Tuint32 \<Rightarrow> PB_TVARINT
     | PB_Tenum \<Rightarrow> PB_TVARINT | PB_Tsfixed32 \<Rightarrow> PB_T32BIT | PB_Tsfixed64 \<Rightarrow> PB_T64BIT
     | PB_Tsint32 \<Rightarrow> PB_TVARINT | PB_Tsint64 \<Rightarrow> PB_TVARINT
     | _ \<Rightarrow> PB_TWIRECOUNT)"

definition wire_names :: "(string \<times> pb_WireType) list" where
  "wire_names = [(''varint'', PB_TVARINT), (''64bit'', PB_T64BIT), (''bytes'', PB_TBYTES),
     (''gstart'', PB_TGSTART), (''gend'', PB_TGEND), (''32bit'', PB_T32BIT)]"

definition field_names :: "(string \<times> pb_FieldType) list" where
  "field_names = [(''double'', PB_Tdouble), (''float'', PB_Tfloat), (''int64'', PB_Tint64),
     (''uint64'', PB_Tuint64), (''int32'', PB_Tint32), (''fixed64'', PB_Tfixed64),
     (''fixed32'', PB_Tfixed32), (''bool'', PB_Tbool), (''string'', PB_Tstring),
     (''group'', PB_Tgroup), (''message'', PB_Tmessage), (''bytes'', PB_Tbytes),
     (''uint32'', PB_Tuint32), (''enum'', PB_Tenum), (''sfixed32'', PB_Tsfixed32),
     (''sfixed64'', PB_Tsfixed64), (''sint32'', PB_Tsint32), (''sint64'', PB_Tsint64)]"

text \<open>The name of a type, or the default the caller passes, or a fixed text when that is null.\<close>

fun name_in :: "(string \<times> 'a) list \<Rightarrow> 'a \<Rightarrow> string option" where
  "name_in [] t = None"
| "name_in ((n, u) # tab) t = (if u = t then Some n else name_in tab t)"

fun find_name :: "(string \<times> 'a) list \<Rightarrow> string \<Rightarrow> 'a option" where
  "find_name [] s = None"
| "find_name ((n, u) # tab) s = (if n = s then Some u else find_name tab s)"

definition or_default :: "string option \<Rightarrow> string option \<Rightarrow> string" where
  "or_default r def = (case r of Some n \<Rightarrow> n | None \<Rightarrow> (case def of Some d \<Rightarrow> d | None \<Rightarrow> ''<unknown>''))"

definition pb_wtypename :: "int \<Rightarrow> string option \<Rightarrow> string" where
  "pb_wtypename ty def = or_default (name_in wire_names (wire_of ty)) def"

definition pb_typename :: "int \<Rightarrow> string option \<Rightarrow> string" where
  "pb_typename ty def = or_default (name_in field_names (field_of ty)) def"

definition pb_typebyname :: "string \<Rightarrow> pb_FieldType \<Rightarrow> pb_FieldType" where
  "pb_typebyname name def = (case find_name field_names name of Some t \<Rightarrow> t | None \<Rightarrow> def)"

definition pb_wtypebyname :: "string \<Rightarrow> pb_WireType \<Rightarrow> pb_WireType" where
  "pb_wtypebyname name def = (case find_name wire_names name of Some t \<Rightarrow> t | None \<Rightarrow> def)"

section \<open>Signed integers\<close>

text \<open>\<open>-(value < 0)\<close> is the \<open>int\<close> \<open>-1\<close> or \<open>0\<close>, extended to the width of the other operand.\<close>

definition pb_encode_sint32 :: "uint32 \<Rightarrow> uint32" where
  "pb_encode_sint32 v = push_bit 1 v XOR (if sint v < 0 then - 1 else 0)"

definition pb_decode_sint32 :: "uint32 \<Rightarrow> uint32" where
  "pb_decode_sint32 v = drop_bit 1 v XOR - (v AND 1)"

definition pb_encode_sint64 :: "uint64 \<Rightarrow> uint64" where
  "pb_encode_sint64 v = push_bit 1 v XOR (if sint v < 0 then - 1 else 0)"

definition pb_decode_sint64 :: "uint64 \<Rightarrow> uint64" where
  "pb_decode_sint64 v = drop_bit 1 v XOR - (v AND 1)"

definition pb_expandsig :: "uint32 \<Rightarrow> uint64" where
  "pb_expandsig v = (ucast v XOR push_bit 31 1) - push_bit 31 1"

section \<open>Slices\<close>

record pb_Slice =
  sl_p :: nat
  sl_start :: nat
  sl_end :: nat

definition pb_lslice :: "nat \<Rightarrow> nat \<Rightarrow> pb_Slice" where
  "pb_lslice s len = \<lparr>sl_p = s, sl_start = s, sl_end = s + len\<rparr>"

definition pb_pos :: "pb_Slice \<Rightarrow> nat" where "pb_pos s = sl_p s - sl_start s"
definition pb_len :: "pb_Slice \<Rightarrow> nat" where "pb_len s = sl_end s - sl_p s"

definition slice_bytes :: "mem \<Rightarrow> pb_Slice \<Rightarrow> uint8 list" where
  "slice_bytes M s = take (pb_len s) (drop (sl_p s) M)"

text \<open>A slice is well formed when its three pointers are in order inside the block.\<close>

definition slice_ok :: "mem \<Rightarrow> pb_Slice \<Rightarrow> bool" where
  "slice_ok M s \<longleftrightarrow> sl_start s \<le> sl_p s \<and> sl_p s \<le> sl_end s \<and> sl_end s \<le> length M"

definition has_more :: "uint8 \<Rightarrow> bool" where "has_more b \<longleftrightarrow> b AND 0x80 \<noteq> 0"

section \<open>Varints\<close>

text \<open>The byte loop: at most ten bytes, \<open>i\<close> of them read; the slice is restored when it fails.\<close>

function pb_readvarint_slow_from ::
    "mem \<Rightarrow> pb_Slice \<Rightarrow> nat \<Rightarrow> uint64 \<Rightarrow> nat \<Rightarrow> (nat \<times> uint64 option \<times> pb_Slice) option" where
  "pb_readvarint_slow_from M s0 p n i =
     (if p < sl_end s0 \<and> i < 10 then do {
        b \<leftarrow> array_get M p;
        let n = n OR push_bit (7 * i) (ucast (b AND 0x7F));
        if has_more b then pb_readvarint_slow_from M s0 (p + 1) n (i + 1)
        else Some (i + 1, Some n, s0\<lparr>sl_p := p + 1\<rparr>)
      }
      else Some (0, None, s0))"
  by pat_completeness auto

termination by (relation "measure (\<lambda>(M, s0, p, n, i). 10 - i)") auto

declare pb_readvarint_slow_from.simps [simp del]

definition pb_readvarint_slow :: "mem \<Rightarrow> pb_Slice \<Rightarrow> (nat \<times> uint64 option \<times> pb_Slice) option" where
  "pb_readvarint_slow M s = pb_readvarint_slow_from M s (sl_p s) 0 0"

text \<open>
  The fast readers are unrolled in C.  A line \<open>n -= 0x80 << u, n += (b = *p++) << v; if (!(b & 0x80))
  break;\<close> is one entry \<open>(u, v)\<close>; the last lines of the 32-bit reader only skip bytes.
\<close>

fun varint32_skip :: "mem \<Rightarrow> nat \<Rightarrow> nat \<Rightarrow> nat option option" where
  "varint32_skip M p 0 = Some None"
| "varint32_skip M p (Suc k) = do {
     b \<leftarrow> array_get M p;
     if has_more b then varint32_skip M (p + 1) k else Some (Some (p + 1))
   }"

fun varint32_lines :: "mem \<Rightarrow> nat \<Rightarrow> uint32 \<Rightarrow> (nat \<times> nat) list \<Rightarrow> (nat \<times> uint32) option option" where
  "varint32_lines M p n [] = do {
     q \<leftarrow> varint32_skip M p 5;
     Some (case q of None \<Rightarrow> None | Some p' \<Rightarrow> Some (p', n))
   }"
| "varint32_lines M p n ((u, v) # ls) = do {
     b \<leftarrow> array_get M p;
     let n = n - push_bit u 0x80 + push_bit v (ucast b);
     if has_more b then varint32_lines M (p + 1) n ls else Some (Some (p + 1, n))
   }"

definition pb_readvarint32_fallback :: "mem \<Rightarrow> pb_Slice \<Rightarrow> (nat \<times> uint32 option \<times> pb_Slice) option" where
  "pb_readvarint32_fallback M s = do {
     b \<leftarrow> array_get M (sl_p s);
     r \<leftarrow> varint32_lines M (sl_p s + 1) (ucast b) [(0, 7), (7, 14), (14, 21), (21, 28)];
     Some (case r of
         None \<Rightarrow> (0, None, s)
       | Some (p, n) \<Rightarrow> (p - sl_p s, Some n, s\<lparr>sl_p := p\<rparr>))
   }"

text \<open>The 64-bit reader collects four, four and two bytes in three 32-bit registers.\<close>

datatype varint_reg = N1 | N2 | N3

type_synonym varint_regs = "uint32 \<times> uint32 \<times> uint32"

fun reg_add :: "varint_reg \<Rightarrow> uint32 \<Rightarrow> varint_regs \<Rightarrow> varint_regs" where
  "reg_add N1 x (a, b, c) = (a + x, b, c)"
| "reg_add N2 x (a, b, c) = (a, b + x, c)"
| "reg_add N3 x (a, b, c) = (a, b, c + x)"

fun varint64_lines :: "mem \<Rightarrow> nat \<Rightarrow> varint_regs \<Rightarrow> ((varint_reg \<times> nat) \<times> (varint_reg \<times> nat)) list \<Rightarrow>
    (nat \<times> varint_regs) option option" where
  "varint64_lines M p n [] = Some None"
| "varint64_lines M p n (((r, u), (r', v)) # ls) = do {
     b \<leftarrow> array_get M p;
     let n = reg_add r' (push_bit v (ucast b)) (reg_add r (- push_bit u 0x80) n);
     if has_more b then varint64_lines M (p + 1) n ls else Some (Some (p + 1, n))
   }"

definition varint64_table :: "((varint_reg \<times> nat) \<times> (varint_reg \<times> nat)) list" where
  "varint64_table = [((N1, 0), (N1, 7)), ((N1, 7), (N1, 14)), ((N1, 14), (N1, 21)),
     ((N1, 21), (N2, 0)), ((N2, 0), (N2, 7)), ((N2, 7), (N2, 14)), ((N2, 14), (N2, 21)),
     ((N2, 21), (N3, 0)), ((N3, 0), (N3, 7))]"

definition pb_readvarint64_fallback :: "mem \<Rightarrow> pb_Slice \<Rightarrow> (nat \<times> uint64 option \<times> pb_Slice) option" where
  "pb_readvarint64_fallback M s = do {
     b \<leftarrow> array_get M (sl_p s);
     r \<leftarrow> varint64_lines M (sl_p s + 1) (ucast b, 0, 0) varint64_table;
     Some (case r of
         None \<Rightarrow> (0, None, s)
       | Some (p, n1, n2, n3) \<Rightarrow>
           (p - sl_p s, Some (ucast n1 OR push_bit 28 (ucast n2) OR push_bit 56 (ucast n3)),
            s\<lparr>sl_p := p\<rparr>))
   }"

definition pb_readvarint32 :: "mem \<Rightarrow> pb_Slice \<Rightarrow> (nat \<times> uint32 option \<times> pb_Slice) option" where
  "pb_readvarint32 M s =
     (if sl_p s \<ge> sl_end s then Some (0, None, s)
      else do {
        b \<leftarrow> array_get M (sl_p s);
        if \<not> has_more b then Some (1, Some (ucast b), s\<lparr>sl_p := sl_p s + 1\<rparr>)
        else do {
          last \<leftarrow> (if pb_len s \<ge> 10 then Some 0 else array_get M (sl_end s - 1));
          if pb_len s \<ge> 10 \<or> \<not> has_more last then pb_readvarint32_fallback M s
          else do {
            (ret, u64, s') \<leftarrow> pb_readvarint_slow M s;
            Some (ret, map_option ucast u64, s')
          }
        }
      })"

definition pb_readvarint64 :: "mem \<Rightarrow> pb_Slice \<Rightarrow> (nat \<times> uint64 option \<times> pb_Slice) option" where
  "pb_readvarint64 M s =
     (if sl_p s \<ge> sl_end s then Some (0, None, s)
      else do {
        b \<leftarrow> array_get M (sl_p s);
        if \<not> has_more b then Some (1, Some (ucast b), s\<lparr>sl_p := sl_p s + 1\<rparr>)
        else do {
          last \<leftarrow> (if pb_len s \<ge> 10 then Some 0 else array_get M (sl_end s - 1));
          if pb_len s \<ge> 10 \<or> \<not> has_more last then pb_readvarint64_fallback M s
          else pb_readvarint_slow M s
        }
      })"

section \<open>Fixed-width integers, byte strings and groups\<close>

text \<open>The most significant byte is the last one: the loops run downwards over the bytes.\<close>

definition be_word :: "uint8 list \<Rightarrow> 'a::len word" where
  "be_word bs = foldl (\<lambda>n b. push_bit 8 n OR ucast b) 0 bs"

definition load :: "mem \<Rightarrow> nat \<Rightarrow> nat \<Rightarrow> uint8 list option" where
  "load M p n = (if p + n \<le> length M then Some (take n (drop p M)) else None)"

definition pb_readfixed32 :: "mem \<Rightarrow> pb_Slice \<Rightarrow> (nat \<times> uint32 option \<times> pb_Slice) option" where
  "pb_readfixed32 M s =
     (if sl_p s + 4 > sl_end s then Some (0, None, s)
      else do {
        bs \<leftarrow> load M (sl_p s) 4;
        Some (4, Some (be_word (rev bs)), s\<lparr>sl_p := sl_p s + 4\<rparr>)
      })"

definition pb_readfixed64 :: "mem \<Rightarrow> pb_Slice \<Rightarrow> (nat \<times> uint64 option \<times> pb_Slice) option" where
  "pb_readfixed64 M s =
     (if sl_p s + 8 > sl_end s then Some (0, None, s)
      else do {
        bs \<leftarrow> load M (sl_p s) 8;
        Some (8, Some (be_word (rev bs)), s\<lparr>sl_p := sl_p s + 8\<rparr>)
      })"

definition pb_readslice :: "pb_Slice \<Rightarrow> nat \<Rightarrow> nat \<times> pb_Slice option \<times> pb_Slice" where
  "pb_readslice s len =
     (if pb_len s < len then (0, None, s)
      else (len, Some \<lparr>sl_p = sl_p s, sl_start = sl_start s, sl_end = sl_p s + len\<rparr>,
            s\<lparr>sl_p := sl_p s + len\<rparr>))"

definition pb_readbytes :: "mem \<Rightarrow> pb_Slice \<Rightarrow> (nat \<times> pb_Slice option \<times> pb_Slice) option" where
  "pb_readbytes M s = do {
     (n, len, s1) \<leftarrow> pb_readvarint64 M s;
     case len of
       None \<Rightarrow> Some (0, None, s)
     | Some len \<Rightarrow>
         if n = 0 \<or> pb_len s1 < unat len then Some (0, None, s)
         else (let q = sl_p s1 + unat len in
           Some (q - sl_p s, Some \<lparr>sl_p = sl_p s1, sl_start = sl_start s1, sl_end = q\<rparr>,
                 s1\<lparr>sl_p := q\<rparr>))
   }"

function varint_end :: "mem \<Rightarrow> nat \<Rightarrow> nat \<Rightarrow> nat option" where
  "varint_end M p e =
     (if p < e then do {
        b \<leftarrow> array_get M p;
        if has_more b then varint_end M (p + 1) e else Some p
      }
      else Some p)"
  by pat_completeness auto

termination by (relation "measure (\<lambda>(M, p, e). e - p)") auto

declare varint_end.simps [simp del]

definition pb_skipvarint :: "mem \<Rightarrow> pb_Slice \<Rightarrow> (nat \<times> pb_Slice) option" where
  "pb_skipvarint M s = do {
     p \<leftarrow> varint_end M (sl_p s) (sl_end s);
     Some (if p \<ge> sl_end s then (0, s) else (p + 1 - sl_p s, s\<lparr>sl_p := p + 1\<rparr>))
   }"

definition pb_skipbytes :: "mem \<Rightarrow> pb_Slice \<Rightarrow> (nat \<times> pb_Slice) option" where
  "pb_skipbytes M s = do {
     (n, var, s1) \<leftarrow> pb_readvarint64 M s;
     case var of
       None \<Rightarrow> Some (0, s1)
     | Some var \<Rightarrow>
         if n = 0 then Some (0, s1)
         else if pb_len s1 < unat var then Some (0, s1\<lparr>sl_p := sl_p s\<rparr>)
         else Some (sl_p s1 + unat var - sl_p s, s1\<lparr>sl_p := sl_p s1 + unat var\<rparr>)
   }"

definition pb_skipslice :: "pb_Slice \<Rightarrow> nat \<Rightarrow> nat \<times> pb_Slice" where
  "pb_skipslice s len =
     (if sl_p s + len > sl_end s then (0, s) else (len, s\<lparr>sl_p := sl_p s + len\<rparr>))"

text \<open>
  \<open>pb_readgroup\<close> and \<open>pb_skipvalue\<close> call each other.  \<open>pb_skipvalue_with rg\<close> is the body of the second
  over the first; \<open>pb_readgroup_fuel\<close> is the loop of the first, with a bound on the number of tags it
  reads, of which each takes at least one byte.
\<close>

definition pb_skipvalue_with ::
    "(pb_Slice \<Rightarrow> uint32 \<Rightarrow> (nat \<times> pb_Slice option \<times> pb_Slice) option) \<Rightarrow>
     mem \<Rightarrow> pb_Slice \<Rightarrow> uint32 \<Rightarrow> (nat \<times> pb_Slice) option" where
  "pb_skipvalue_with rg M s tag = do {
     (ret, s') \<leftarrow> (case wiretype tag of
         PB_TVARINT \<Rightarrow> pb_skipvarint M s
       | PB_T64BIT \<Rightarrow> Some (pb_skipslice s 8)
       | PB_TBYTES \<Rightarrow> pb_skipbytes M s
       | PB_T32BIT \<Rightarrow> Some (pb_skipslice s 4)
       | PB_TGSTART \<Rightarrow> do { (ret, data, s') \<leftarrow> rg s tag; Some (ret, s') }
       | _ \<Rightarrow> Some (0, s));
     Some (ret, if ret = 0 then s'\<lparr>sl_p := sl_p s\<rparr> else s')
   }"

primrec pb_readgroup_fuel ::
    "nat \<Rightarrow> mem \<Rightarrow> nat \<Rightarrow> pb_Slice \<Rightarrow> uint32 \<Rightarrow> (nat \<times> pb_Slice option \<times> pb_Slice) option" where
  "pb_readgroup_fuel 0 M p s tag = None"
| "pb_readgroup_fuel (Suc k) M p s tag = do {
     (count, newtag, s1) \<leftarrow> pb_readvarint32 M s;
     case newtag of
       None \<Rightarrow> Some (0, None, s1\<lparr>sl_p := p\<rparr>)
     | Some newtag \<Rightarrow>
         if count = 0 then Some (0, None, s1\<lparr>sl_p := p\<rparr>)
         else if wiretype newtag = PB_TGEND then
           (if pb_gettag newtag \<noteq> pb_gettag tag then Some (0, None, s1\<lparr>sl_p := p\<rparr>)
            else Some (sl_p s1 - p,
                   Some \<lparr>sl_p = p, sl_start = sl_start s1, sl_end = sl_p s1 - count\<rparr>, s1))
         else do {
           (n, s2) \<leftarrow> pb_skipvalue_with
              (\<lambda>s tag. do { C_assert (wiretype tag = PB_TGSTART);
                            pb_readgroup_fuel k M (sl_p s) s tag }) M s1 newtag;
           if n = 0 then Some (0, None, s2\<lparr>sl_p := p\<rparr>)
           else pb_readgroup_fuel k M p s2 tag
         }
   }"

definition pb_readgroup :: "mem \<Rightarrow> pb_Slice \<Rightarrow> uint32 \<Rightarrow> (nat \<times> pb_Slice option \<times> pb_Slice) option" where
  "pb_readgroup M s tag = do {
     C_assert (wiretype tag = PB_TGSTART);
     pb_readgroup_fuel (pb_len s + 1) M (sl_p s) s tag
   }"

definition pb_skipvalue :: "mem \<Rightarrow> pb_Slice \<Rightarrow> uint32 \<Rightarrow> (nat \<times> pb_Slice) option" where
  "pb_skipvalue M s tag = pb_skipvalue_with (pb_readgroup M) M s tag"

end
