(* ===== verification/Pb_Buffer.thy ===== *)
theory Pb_Buffer
  imports Pb_Wire
begin

unbundle bit_operations_syntax

text \<open>
  The output buffer of \<open>pb/c/pb.h\<close>: a block of 16 bytes inside the structure, replaced by a growing
  block on the heap.  \<open>bf_data\<close> is the block in use, \<open>bf_size\<close> the number of bytes written, a bit field
  of 31 bits.  An operation takes the answer \<open>r\<close> of \<open>realloc\<close> to a request, by size: nothing for a null
  pointer, or the bytes a new block happens to hold.  \<open>None\<close> as the result of an operation stands for a
  failed assertion, a store outside the block or a loop that does not end.
\<close>

definition PB_SSO_SIZE :: nat where "PB_SSO_SIZE = 16"
definition PB_MAX_SIZET :: nat where "PB_MAX_SIZET = 4294967195"

record pb_Buffer =
  bf_size :: "31 word"
  bf_heap :: bool
  bf_capacity :: uint32
  bf_data :: "uint8 list"

type_synonym answers = "nat \<Rightarrow> uint8 list option"

abbreviation size_of :: "pb_Buffer \<Rightarrow> nat" where "size_of b \<equiv> unat (bf_size b)"

section \<open>The block in use\<close>

definition store :: "uint8 list \<Rightarrow> nat \<Rightarrow> uint8 list \<Rightarrow> uint8 list option" where
  "store d off bs =
     (if off + length bs \<le> length d then Some (take off d @ bs @ drop (off + length bs) d) else None)"

text \<open>A new block of \<open>n\<close> bytes that starts with the bytes \<open>old\<close>; what follows them is arbitrary.\<close>

definition new_block :: "nat \<Rightarrow> uint8 list \<Rightarrow> uint8 list \<Rightarrow> uint8 list" where
  "new_block n old junk = take n (old @ drop (length old) (junk @ replicate n 0))"

definition pb_initbuffer :: pb_Buffer where
  "pb_initbuffer = \<lparr>bf_size = 0, bf_heap = False, bf_capacity = 0, bf_data = replicate PB_SSO_SIZE 0\<rparr>"

definition pb_resetbuffer :: "pb_Buffer \<Rightarrow> pb_Buffer" where
  "pb_resetbuffer b = pb_initbuffer"

definition pb_result :: "pb_Buffer \<Rightarrow> uint8 list" where
  "pb_result b = take (size_of b) (bf_data b)"

definition pb_addsize :: "nat \<Rightarrow> pb_Buffer \<Rightarrow> pb_Buffer" where
  "pb_addsize n b = b\<lparr>bf_size := bf_size b + of_nat n\<rparr>"

partial_function (option) grow_size :: "nat \<Rightarrow> nat \<Rightarrow> nat option" where
  "grow_size expected newsize =
     (if newsize < PB_MAX_SIZET div 2 \<and> newsize < expected
      then grow_size expected (newsize + newsize div 2) else Some newsize)"

definition pb_prepbuffsize :: "answers \<Rightarrow> pb_Buffer \<Rightarrow> nat \<Rightarrow> (bool \<times> pb_Buffer) option" where
  "pb_prepbuffsize r b len =
     (let capacity = (if bf_heap b then unat (bf_capacity b) else PB_SSO_SIZE) in
      if size_of b + len > capacity then do {
        newsize \<leftarrow> grow_size (size_of b + len) PB_SSO_SIZE;
        if newsize < size_of b + len then Some (False, b)
        else case r newsize of
          None \<Rightarrow> Some (False, b)
        | Some junk \<Rightarrow>
            (let old = (if bf_heap b then bf_data b else take (size_of b) (bf_data b)) in
             Some (True, b\<lparr>bf_heap := True, bf_capacity := of_nat newsize,
                           bf_data := new_block newsize old junk\<rparr>))
      }
      else Some (True, b))"

text \<open>Storing bytes at the pointer that \<open>pb_prepbuffsize\<close> returns, and advancing the size.\<close>

definition put :: "uint8 list \<Rightarrow> pb_Buffer \<Rightarrow> pb_Buffer option" where
  "put bs b = do {
     d \<leftarrow> store (bf_data b) (size_of b) bs;
     Some (pb_addsize (length bs) (b\<lparr>bf_data := d\<rparr>))
   }"

section \<open>Varints and fixed-width integers\<close>

text \<open>The rounds of the unrolled \<open>do .. while (0)\<close>; \<open>fin\<close> is what the final line keeps of \<open>n\<close>.\<close>

primrec write_rounds :: "nat \<Rightarrow> ('a::len word \<Rightarrow> 'a word) \<Rightarrow> 'a word \<Rightarrow> uint8 list" where
  "write_rounds 0 fin n = [ucast (fin n)]"
| "write_rounds (Suc k) fin n =
     (let p = n AND 0x7F; n' = drop_bit 7 n in
      if n' = 0 then [ucast p] else ucast (p OR 0x80) # write_rounds k fin n')"

definition pb_write32 :: "uint32 \<Rightarrow> uint8 list" where
  "pb_write32 n = write_rounds 4 (\<lambda>n. n) n"

definition pb_write64 :: "uint64 \<Rightarrow> uint8 list" where
  "pb_write64 n = write_rounds 9 (\<lambda>n. n AND 0x7F) n"

primrec le_bytes :: "nat \<Rightarrow> 'a::len word \<Rightarrow> uint8 list" where
  "le_bytes 0 n = []"
| "le_bytes (Suc k) n = ucast (n AND 0xFF) # le_bytes k (drop_bit 8 n)"

text \<open>The four operations reserve the space the widest value needs and then store what they have.\<close>

definition add_reserved :: "answers \<Rightarrow> nat \<Rightarrow> uint8 list \<Rightarrow> pb_Buffer \<Rightarrow> (nat \<times> pb_Buffer) option" where
  "add_reserved r room bs b = do {
     (ok, b) \<leftarrow> pb_prepbuffsize r b room;
     if \<not> ok then Some (0, b) else do { b \<leftarrow> put bs b; Some (length bs, b) }
   }"

definition pb_addvarint32 :: "answers \<Rightarrow> pb_Buffer \<Rightarrow> uint32 \<Rightarrow> (nat \<times> pb_Buffer) option" where
  "pb_addvarint32 r b n = add_reserved r 5 (pb_write32 n) b"

definition pb_addvarint64 :: "answers \<Rightarrow> pb_Buffer \<Rightarrow> uint64 \<Rightarrow> (nat \<times> pb_Buffer) option" where
  "pb_addvarint64 r b n = add_reserved r 10 (pb_write64 n) b"

definition pb_addfixed32 :: "answers \<Rightarrow> pb_Buffer \<Rightarrow> uint32 \<Rightarrow> (nat \<times> pb_Buffer) option" where
  "pb_addfixed32 r b n = add_reserved r 4 (le_bytes 4 n) b"

definition pb_addfixed64 :: "answers \<Rightarrow> pb_Buffer \<Rightarrow> uint64 \<Rightarrow> (nat \<times> pb_Buffer) option" where
  "pb_addfixed64 r b n = add_reserved r 8 (le_bytes 8 n) b"

section \<open>Byte strings\<close>

text \<open>The slice that is added is given by its bytes.\<close>

definition pb_addslice :: "answers \<Rightarrow> pb_Buffer \<Rightarrow> uint8 list \<Rightarrow> (nat \<times> pb_Buffer) option" where
  "pb_addslice r b bs = add_reserved r (length bs) bs b"

definition pb_addbytes :: "answers \<Rightarrow> pb_Buffer \<Rightarrow> uint8 list \<Rightarrow> (nat \<times> pb_Buffer) option" where
  "pb_addbytes r b bs = do {
     (ok, b) \<leftarrow> pb_prepbuffsize r b (length bs + 5);
     if \<not> ok then Some (0, b)
     else do {
       (ret, b) \<leftarrow> pb_addvarint32 r b (of_nat (length bs));
       (ret', b) \<leftarrow> pb_addslice r b bs;
       Some (ret + ret', b)
     }
   }"

text \<open>
  \<open>pb_addlength\<close> inserts the length of what was written after position \<open>len\<close> in front of it, over the
  \<open>prealloc\<close> bytes kept free there.
\<close>

definition pb_addlength :: "answers \<Rightarrow> pb_Buffer \<Rightarrow> nat \<Rightarrow> nat \<Rightarrow> (nat \<times> pb_Buffer) option" where
  "pb_addlength r b len prealloc =
     (let bl = size_of b in
      if bl < len then Some (0, b)
      else do {
        let buff = pb_write64 (of_nat (bl - len));
        let ml = length buff;
        C_assert (prealloc \<le> len);
        let s = len - prealloc;
        C_assert (ml \<ge> prealloc);
        let rl = ml - prealloc;
        (ok, b1) \<leftarrow> (if ml > prealloc then do {
            (ok, b) \<leftarrow> pb_prepbuffsize r b rl;
            if \<not> ok then Some (False, b)
            else do {
              d \<leftarrow> store (bf_data b) (s + ml) (take (bl - len) (drop (s + prealloc) (bf_data b)));
              Some (True, b\<lparr>bf_data := d\<rparr>)
            }
          }
          else Some (True, b));
        if \<not> ok then Some (0, b1)
        else do {
          d \<leftarrow> store (bf_data b1) s buff;
          Some (ml + (bl - len), pb_addsize rl (b1\<lparr>bf_data := d\<rparr>))
        }
      })"

end
