(* ===== verification/Pb_Varint.thy ===== *)
theory Pb_Varint
  imports Pb_Wire
begin

unbundle bit_operations_syntax

text \<open>
  What a varint is, as a function of the bytes of a slice, and the proof that the byte loop and the two
  unrolled readers of \<open>pb/c/pb.h\<close> all compute it, without reading outside the slice.
\<close>

section \<open>The reference decoder\<close>

text \<open>The bytes up to the first one without the flag, of at most \<open>k\<close>; their value in base 128.\<close>

fun varint_prefix :: "nat \<Rightarrow> uint8 list \<Rightarrow> uint8 list option" where
  "varint_prefix 0 bs = None"
| "varint_prefix (Suc k) [] = None"
| "varint_prefix (Suc k) (b # bs) =
     (if has_more b then map_option (Cons b) (varint_prefix k bs) else Some [b])"

definition low7 :: "uint8 \<Rightarrow> nat" where "low7 b = unat b mod 128"

fun varint_val :: "uint8 list \<Rightarrow> nat" where
  "varint_val [] = 0"
| "varint_val (b # bs) = low7 b + 128 * varint_val bs"

definition varint_read :: "mem \<Rightarrow> pb_Slice \<Rightarrow> nat \<times> 'a::len word option \<times> pb_Slice" where
  "varint_read M s = (case varint_prefix 10 (slice_bytes M s) of
       None \<Rightarrow> (0, None, s)
     | Some cs \<Rightarrow> (length cs, Some (of_nat (varint_val cs)), s\<lparr>sl_p := sl_p s + length cs\<rparr>))"

section \<open>Bytes\<close>

lemma byte_less: "unat (b :: uint8) < 256"
  using unsigned_less [where 'a = nat and w = b] by simp

lemma unat_and_127: "unat (b AND 0x7F :: uint8) = low7 b"
proof -
  have "unat (b AND 0x7F) = unat b AND 127" by (simp add: unsigned_and_eq)
  also have "\<dots> = unat b AND mask 7" by (simp add: mask_eq_exp_minus_1)
  also have "\<dots> = low7 b" by (simp only: low7_def flip: take_bit_eq_mask) (simp add: take_bit_eq_mod)
  finally show ?thesis .
qed

lemma ucast_and_127: "(ucast (b AND 0x7F :: uint8) :: 'a::len word) = of_nat (low7 b)"
  by (metis of_nat_unat unat_and_127)

lemma low7_less [simp]: "low7 b < 128"
  by (simp add: low7_def)

lemma low7_le [simp]: "low7 b \<le> 127"
  using low7_less [of b] by linarith

lemma byte_and_128: "unat (b AND 0x80 :: uint8) = unat b AND 2 ^ 7"
  by (simp add: unsigned_and_eq)

lemma more_iff: "has_more b \<longleftrightarrow> 128 \<le> unat b"
proof -
  have "has_more b \<longleftrightarrow> unat b AND 2 ^ 7 \<noteq> 0"
    unfolding has_more_def
    by (metis byte_and_128 unsigned_0 unsigned_word_eqI)
  also have "\<dots> \<longleftrightarrow> odd (unat b div 128)"
    by (simp only: and_exp_eq_0_iff_not_bit bit_iff_odd) simp
  also have "\<dots> \<longleftrightarrow> 128 \<le> unat b"
  proof -
    have "unat b div 128 < 2" using byte_less [of b] by simp
    then have "unat b div 128 = 0 \<or> unat b div 128 = 1" by linarith
    then show ?thesis using byte_less [of b] by (auto simp: div_eq_0_iff)
  qed
  finally show ?thesis .
qed

lemma ucast_byte: "(ucast (b :: uint8) :: 'a::len word) = of_nat (low7 b) + (if has_more b then 128 else 0)"
proof -
  have "unat b = low7 b + (if has_more b then 128 else 0)"
  proof (cases "has_more b")
    case True
    then have "unat b mod 128 = unat b - 128"
      using byte_less [of b] by (simp add: more_iff mod_if [of "unat b"])
    with True show ?thesis by (simp add: low7_def more_iff)
  qed (simp add: low7_def more_iff)
  then have "(of_nat (unat b) :: 'a word) = of_nat (low7 b + (if has_more b then 128 else 0))"
    by (rule arg_cong)
  then show ?thesis by (simp split: if_splits)
qed

section \<open>Prefixes and values\<close>

lemma varint_prefix_Nil [simp]: "varint_prefix k [] = None"
  by (cases k) simp_all

lemma varint_prefix_append: "varint_prefix k xs = Some cs \<Longrightarrow> varint_prefix k (xs @ ys) = Some cs"
  by (induction k xs arbitrary: cs rule: varint_prefix.induct) (auto split: if_splits)

lemma varint_prefix_enough: "k \<le> length xs \<Longrightarrow> varint_prefix k (xs @ ys) = varint_prefix k xs"
  by (induction k xs rule: varint_prefix.induct) auto

lemma varint_prefix_closed:
  "xs \<noteq> [] \<Longrightarrow> \<not> has_more (last xs) \<Longrightarrow> length xs \<le> k \<Longrightarrow> \<exists>cs. varint_prefix k xs = Some cs"
  by (induction k xs rule: varint_prefix.induct) (auto split: if_splits)

lemma varint_prefix_is_prefix: "varint_prefix k xs = Some cs \<Longrightarrow> cs = take (length cs) xs"
  by (induction k xs arbitrary: cs rule: varint_prefix.induct) (auto split: if_splits)

lemma varint_prefix_length: "varint_prefix k xs = Some cs \<Longrightarrow> 0 < length cs \<and> length cs \<le> k \<and> length cs \<le> length xs"
  by (induction k xs arbitrary: cs rule: varint_prefix.induct) (auto split: if_splits)

lemma varint_val_append: "varint_val (xs @ ys) = varint_val xs + 128 ^ length xs * varint_val ys"
  by (induction xs) (simp_all add: algebra_simps)

lemma digit_less: "a < (P :: nat) \<Longrightarrow> l < 128 \<Longrightarrow> a + P * l < 128 * P"
proof -
  assume "a < P" "l < 128"
  then have "P * (l + 1) \<le> P * 128" by (intro mult_left_mono) simp_all
  then have "P * l + P \<le> P * 128" by (simp only: distrib_left mult_1_right)
  with \<open>a < P\<close> show ?thesis by linarith
qed

lemma varint_val_less: "varint_val xs < 128 ^ length xs"
proof (induction xs)
  case (Cons b xs)
  define X where "X = (128 :: nat) ^ length xs"
  have "varint_val xs + 1 \<le> X" using Cons by (simp add: X_def)
  then have "low7 b + 128 * varint_val xs < 128 * X" using low7_less [of b] by linarith
  then show ?case by (simp add: X_def)
qed simp

section \<open>The byte loop\<close>

lemma word_or_disjoint: "a < 2 ^ k \<Longrightarrow> (of_nat a :: 'a::len word) OR push_bit k (of_nat c) = of_nat (a + 2 ^ k * c)"
proof -
  assume "a < 2 ^ k"
  then have a: "take_bit k a = a" by (simp add: take_bit_nat_eq_self)
  have "a AND push_bit k c = 0"
    by (rule bit_eqI) (metis a bit_and_iff bit_push_bit_iff bit_take_bit_iff bit_0_eq bot_apply linorder_not_less bot_bool_def)
  then have "a OR push_bit k c = a + push_bit k c" by (simp add: disjunctive_add_eq_or)
  moreover have "(of_nat a :: 'a word) OR push_bit k (of_nat c) = of_nat (a OR push_bit k c)"
    by (simp add: of_nat_or_eq flip: push_bit_of_nat)
  ultimately show ?thesis by (simp add: push_bit_eq_mult mult.commute)
qed

lemma readvarint_slow_from:
  assumes "sl_end s \<le> length M" "p \<le> sl_end s" "i \<le> 10" "a < 2 ^ (7 * i)"
  shows "pb_readvarint_slow_from M s p (of_nat a) i =
    Some (case varint_prefix (10 - i) (take (sl_end s - p) (drop p M)) of
        None \<Rightarrow> (0, None, s)
      | Some cs \<Rightarrow> (i + length cs, Some (of_nat (a + 2 ^ (7 * i) * varint_val cs)),
                    s\<lparr>sl_p := p + length cs\<rparr>))"
  using assms
proof (induction "10 - i" arbitrary: i p a)
  case 0
  then show ?case by (simp add: pb_readvarint_slow_from.simps)
next
  case (Suc k)
  show ?case
  proof (cases "p < sl_end s")
    case False
    with Suc show ?thesis by (simp add: pb_readvarint_slow_from.simps flip: Suc.hyps(2))
  next
    case True
    define b where "b = M ! p"
    define rest where "rest = take (sl_end s - Suc p) (drop (Suc p) M)"
    have d: "take (sl_end s - p) (drop p M) = b # rest"
      using True Suc.prems(1)
      by (simp add: b_def rest_def Cons_nth_drop_Suc [symmetric] take_Cons' diff_Suc split: nat.split)
    have or: "(of_nat a :: uint64) OR push_bit (7 * i) (ucast (b AND 0x7F)) = of_nat (a + 2 ^ (7 * i) * low7 b)"
      unfolding ucast_and_127 by (rule word_or_disjoint [OF Suc.prems(4)])
    have less: "a + 2 ^ (7 * i) * low7 b < 2 ^ (7 * (i + 1))"
      using digit_less [OF Suc.prems(4) low7_less, of b] by (simp add: power_add mult.commute)
    have arr: "array_get M p = Some b" using True Suc.prems(1) by (simp add: b_def)
    have k: "10 - i = Suc k" "k = 10 - (i + 1)" "i < 10" "i + 1 \<le> 10" using Suc.hyps(2) by simp_all
    have k9: "9 - i = k" using Suc.hyps(2) by simp
    show ?thesis
    proof (cases "has_more b")
      case False
      then show ?thesis
        using True by (subst pb_readvarint_slow_from.simps) (simp add: arr d or k(1,3) Let_def)
    next
      case more: True
      have "pb_readvarint_slow_from M s p (of_nat a) i =
          pb_readvarint_slow_from M s (p + 1) (of_nat (a + 2 ^ (7 * i) * low7 b)) (i + 1)"
        using True more by (subst pb_readvarint_slow_from.simps) (simp only: arr or k Let_def simp_thms if_True bind.bind_lunit)
      also have "\<dots> = Some (case varint_prefix (10 - (i + 1)) rest of
        None \<Rightarrow> (0, None, s)
      | Some cs \<Rightarrow> (i + 1 + length cs,
          Some (of_nat (a + 2 ^ (7 * i) * low7 b + 2 ^ (7 * (i + 1)) * varint_val cs)),
                    s\<lparr>sl_p := p + 1 + length cs\<rparr>))"
        using Suc.hyps(1) [OF k(2) Suc.prems(1) _ k(4) less, of "p + 1"] True by (simp add: rest_def)
      finally show ?thesis
        using more by (simp add: d k(1) k9 algebra_simps power_add split: option.split)
    qed
  qed
qed

section \<open>The unrolled 32-bit reader\<close>

lemma drop_Cons_nth: "drop p M = b # rest \<Longrightarrow> p < length M \<and> M ! p = b \<and> drop (Suc p) M = rest"
  by (metis drop_eq_Nil2 drop_Suc list.discI linorder_not_less list.sel(3) nth_via_drop tl_drop)

lemma array_get_drop_Cons: "drop p M = b # rest \<Longrightarrow> array_get M p = Some b"
  using drop_Cons_nth by (metis array_get_Some)

lemma varint32_skip:
  "varint32_skip M p k = (case varint_prefix k (drop p M) of
       None \<Rightarrow> if k \<le> length M - p then Some None else None
     | Some cs \<Rightarrow> Some (Some (p + length cs)))"
proof (induction k arbitrary: p)
  case (Suc k)
  show ?case
  proof (cases "drop p M")
    case Nil
    then show ?thesis by (simp add: array_get_def)
  next
    case (Cons b rest)
    note d = drop_Cons_nth [OF Cons]
    show ?thesis using d by (auto simp: Cons array_get_drop_Cons [OF Cons] Suc.IH split: option.split)
  qed
qed simp

fun lines32 :: "nat \<Rightarrow> nat \<Rightarrow> (nat \<times> nat) list" where
  "lines32 u 0 = []"
| "lines32 u (Suc k) = (u, u + 7) # lines32 (u + 7) k"

text \<open>
  Before a line the register holds the value of the bytes read so far and the flag of the last one.
\<close>

lemma word32_power_zero: "32 \<le> k \<Longrightarrow> (2 :: uint32) ^ k = 0"
  by (simp add: exp_eq_zero_iff)

lemma line32_step:
  "(of_nat (a + 2 ^ (u + 7)) :: uint32) - push_bit u 0x80 + push_bit (u + 7) (ucast (b :: uint8)) =
   of_nat (a + 2 ^ (u + 7) * low7 b + (if has_more b then 2 ^ (u + 7 + 7) else 0))"
  by (simp add: push_bit_eq_mult ucast_byte power_add algebra_simps)

lemma varint32_lines:
  assumes "32 \<le> u + 7 * (k + 1)"
  shows "varint32_lines M p (of_nat (a + 2 ^ (u + 7))) (lines32 u k) =
    (case varint_prefix (k + 5) (drop p M) of
       None \<Rightarrow> if k + 5 \<le> length M - p then Some None else None
     | Some cs \<Rightarrow> Some (Some (p + length cs, of_nat (a + 2 ^ (u + 7) * varint_val cs))))"
  using assms
proof (induction k arbitrary: p u a)
  case 0
  then show ?case by (simp add: varint32_skip word32_power_zero split: option.split)
next
  case (Suc k)
  show ?case
  proof (cases "drop p M")
    case Nil
    then show ?thesis by (simp add: array_get_def)
  next
    case (Cons b rest)
    note d = drop_Cons_nth [OF Cons]
    have vp: "varint_prefix (Suc k + 5) (b # rest) =
        (if has_more b then map_option (Cons b) (varint_prefix (k + 5) rest) else Some [b])"
      by (simp only: add_Suc varint_prefix.simps)
    have IH: "varint32_lines M (p + 1) (of_nat (a + 2 ^ (u + 7) * low7 b + 2 ^ (u + 7 + 7))) (lines32 (u + 7) k) =
      (case varint_prefix (k + 5) rest of
         None \<Rightarrow> if k + 5 \<le> length M - (p + 1) then Some None else None
       | Some cs \<Rightarrow> Some (Some (p + 1 + length cs,
           of_nat (a + 2 ^ (u + 7) * low7 b + 2 ^ (u + 7 + 7) * varint_val cs))))"
      using Suc.IH [of "u + 7" "p + 1" "a + 2 ^ (u + 7) * low7 b"] Suc.prems d by simp
    show ?thesis
    proof (cases "has_more b")
      case True
      have "varint32_lines M p (of_nat (a + 2 ^ (u + 7))) (lines32 u (Suc k)) =
         varint32_lines M (p + 1) (of_nat (a + 2 ^ (u + 7) * low7 b + 2 ^ (u + 7 + 7))) (lines32 (u + 7) k)"
        by (simp only: lines32.simps varint32_lines.simps array_get_drop_Cons [OF Cons] bind.bind_lunit
            Let_def line32_step True if_True)
      also note IH
      finally show ?thesis
        unfolding Cons vp using True d
        by (cases "varint_prefix (k + 5) rest") (auto simp: power_add algebra_simps)
    next
      case False
      have "varint32_lines M p (of_nat (a + 2 ^ (u + 7))) (lines32 u (Suc k)) =
         Some (Some (p + 1, of_nat (a + 2 ^ (u + 7) * low7 b + 0)))"
        using False by (simp only: lines32.simps varint32_lines.simps array_get_drop_Cons [OF Cons]
            bind.bind_lunit Let_def line32_step if_False)
      then show ?thesis unfolding Cons vp using False by simp
    qed
  qed
qed

lemma readvarint32_fallback:
  assumes "drop (sl_p s) M = b # rest" "has_more b"
  shows "pb_readvarint32_fallback M s =
    (case varint_prefix 10 (b # rest) of
       None \<Rightarrow> if 9 \<le> length rest then Some (0, None, s) else None
     | Some cs \<Rightarrow> Some (length cs, Some (of_nat (varint_val cs)), s\<lparr>sl_p := sl_p s + length cs\<rparr>))"
proof -
  have tab: "[(0, 7), (7, 14), (14, 21), (21, 28)] = lines32 0 4" by (simp add: eval_nat_numeral)
  note d = drop_Cons_nth [OF assms(1)]
  have b: "(ucast b :: uint32) = of_nat (low7 b + 2 ^ (0 + 7))" using assms(2) by (simp add: ucast_byte)
  have len: "length rest = length M - (sl_p s + 1)" using d by auto
  have lines: "varint32_lines M (sl_p s + 1) (ucast b) [(0, 7), (7, 14), (14, 21), (21, 28)] =
    (case varint_prefix 9 rest of
       None \<Rightarrow> if 9 \<le> length rest then Some None else None
     | Some cs \<Rightarrow> Some (Some (sl_p s + 1 + length cs, of_nat (low7 b + 128 * varint_val cs))))"
    unfolding tab b using varint32_lines [of 0 4 M "sl_p s + 1" "low7 b"] d
    by (cases "varint_prefix 9 rest") (simp_all add: len)
  have "varint_prefix 10 (b # rest) = map_option (Cons b) (varint_prefix 9 rest)"
    using assms(2) by (simp add: eval_nat_numeral)
  then show ?thesis
    unfolding pb_readvarint32_fallback_def array_get_drop_Cons [OF assms(1)] bind.bind_lunit lines
    by (simp split: option.split)
qed

section \<open>The unrolled 64-bit reader\<close>

text \<open>The registers after the bytes \<open>bs\<close>: four bytes, four bytes and the rest.\<close>

definition regs :: "uint8 list \<Rightarrow> varint_regs" where
  "regs bs = (of_nat (varint_val (take 4 bs)), of_nat (varint_val (take 4 (drop 4 bs))),
     of_nat (varint_val (drop 8 bs)))"

definition reg_at :: "nat \<Rightarrow> varint_reg" where
  "reg_at i = (if i < 4 then N1 else if i < 8 then N2 else N3)"

fun lines64 :: "nat \<Rightarrow> nat \<Rightarrow> ((varint_reg \<times> nat) \<times> (varint_reg \<times> nat)) list" where
  "lines64 i 0 = []"
| "lines64 i (Suc k) =
     ((reg_at i, 7 * (i mod 4)), (reg_at (i + 1), 7 * ((i + 1) mod 4))) # lines64 (i + 1) k"

lemma lines64_numeral: "lines64 i (numeral k) = ((reg_at i, 7 * (i mod 4)),
    (reg_at (i + 1), 7 * ((i + 1) mod 4))) # lines64 (i + 1) (pred_numeral k)"
  unfolding numeral_eq_Suc [of k] by (rule lines64.simps)

lemma reg_add_cancel: "reg_add r (- x) (reg_add r x n) = n"
  by (cases r; cases n) simp_all

lemma reg_add_add: "reg_add r (x + y) n = reg_add r y (reg_add r x n)"
  by (cases r; cases n) simp_all

lemma pow128: "(128 :: 'a::comm_semiring_1) ^ n = 2 ^ (7 * n)"
  by (simp add: power_mult)

lemma reg_add_0 [simp]: "reg_add r 0 n = n"
  by (cases r; cases n) simp_all

lemma regs_snoc:
  assumes "length bs \<le> 9"
  shows "reg_add (reg_at (length bs)) (push_bit (7 * (length bs mod 4)) (of_nat (low7 b))) (regs bs) =
    regs (bs @ [b])"
proof -
  consider "length bs < 4" | "4 \<le> length bs" "length bs < 8" | "8 \<le> length bs" by linarith
  then show ?thesis
  proof cases
    case 1
    then show ?thesis
      by (simp add: reg_at_def regs_def varint_val_append push_bit_eq_mult pow128)
  next
    case 2
    then have "length bs mod 4 = length bs - 4" by (simp add: mod_if)
    with 2 show ?thesis
      by (simp add: reg_at_def regs_def varint_val_append push_bit_eq_mult pow128)
  next
    case 3
    with assms have "length bs mod 4 = length bs - 8" by (auto simp: mod_if)
    with 3 show ?thesis
      by (simp add: reg_at_def regs_def varint_val_append push_bit_eq_mult pow128)
  qed
qed

lemma reg_step:
  assumes "length bs = i + 1" "i < 9"
  shows "reg_add (reg_at (i + 1)) (push_bit (7 * ((i + 1) mod 4)) (ucast b))
      (reg_add (reg_at i) (- push_bit (7 * (i mod 4)) 0x80)
        (reg_add (reg_at i) (push_bit (7 * (i mod 4)) 0x80) (regs bs))) =
    (if has_more b then reg_add (reg_at (i + 1)) (push_bit (7 * ((i + 1) mod 4)) 0x80) (regs (bs @ [b]))
     else regs (bs @ [b]))"
proof -
  have "reg_add (reg_at (i + 1)) (push_bit (7 * ((i + 1) mod 4)) (of_nat (low7 b))) (regs bs) = regs (bs @ [b])"
    using regs_snoc [of bs b] assms by simp
  then show ?thesis
    by (simp add: reg_add_cancel ucast_byte push_bit_add reg_add_add del: push_bit_numeral)
qed

lemma varint64_lines:
  assumes "length bs = i + 1" "i + k \<le> 9"
  shows "varint64_lines M p (reg_add (reg_at i) (push_bit (7 * (i mod 4)) 0x80) (regs bs)) (lines64 i k) =
    (case varint_prefix k (drop p M) of
       None \<Rightarrow> if k \<le> length M - p then Some None else None
     | Some cs \<Rightarrow> Some (Some (p + length cs, regs (bs @ cs))))"
  using assms
proof (induction k arbitrary: p i bs)
  case (Suc k)
  show ?case
  proof (cases "drop p M")
    case Nil
    then show ?thesis by (simp add: array_get_def)
  next
    case (Cons b rest)
    note d = drop_Cons_nth [OF Cons]
    have step: "varint64_lines M p (reg_add (reg_at i) (push_bit (7 * (i mod 4)) 0x80) (regs bs)) (lines64 i (Suc k)) =
      (if has_more b then varint64_lines M (p + 1)
         (reg_add (reg_at (i + 1)) (push_bit (7 * ((i + 1) mod 4)) 0x80) (regs (bs @ [b]))) (lines64 (i + 1) k)
       else Some (Some (p + 1, regs (bs @ [b]))))"
      using Suc.prems
      by (simp only: lines64.simps varint64_lines.simps array_get_drop_Cons [OF Cons] bind.bind_lunit
          Let_def reg_step split: if_split) simp
    show ?thesis
    proof (cases "has_more b")
      case True
      have "varint64_lines M (p + 1)
         (reg_add (reg_at (i + 1)) (push_bit (7 * ((i + 1) mod 4)) 0x80) (regs (bs @ [b]))) (lines64 (i + 1) k) =
        (case varint_prefix k (drop (p + 1) M) of
           None \<Rightarrow> if k \<le> length M - (p + 1) then Some None else None
         | Some cs \<Rightarrow> Some (Some (p + 1 + length cs, regs ((bs @ [b]) @ cs))))"
        using Suc.prems by (intro Suc.IH) simp_all
      with True d show ?thesis unfolding step by (auto simp: Cons split: option.split)
    next
      case False
      then show ?thesis unfolding step by (simp add: Cons)
    qed
  qed
qed simp

text \<open>Putting the registers together.\<close>

lemma regs_value:
  assumes "length bs \<le> 10" "regs bs = (n1, n2, n3)"
  shows "(ucast n1 OR push_bit 28 (ucast n2) OR push_bit 56 (ucast n3) :: uint64) = of_nat (varint_val bs)"
proof -
  define a1 a2 a3 where a: "a1 = varint_val (take 4 bs)" "a2 = varint_val (take 4 (drop 4 bs))"
    "a3 = varint_val (drop 8 bs)"
  have l: "a1 < 2 ^ 28" "a2 < 2 ^ 28" "a3 < 2 ^ 28"
  proof -
    have "varint_val xs < 2 ^ 28" if "length xs \<le> 4" for xs
    proof -
      have "varint_val xs < 128 ^ length xs" by (rule varint_val_less)
      also have "\<dots> \<le> 128 ^ 4" using that by (rule power_increasing) simp
      finally show ?thesis by simp
    qed
    then show "a1 < 2 ^ 28" "a2 < 2 ^ 28" "a3 < 2 ^ 28" using assms(1) by (simp_all add: a)
  qed
  have uc: "(ucast (of_nat x :: uint32) :: uint64) = of_nat x" if "x < 2 ^ 28" for x
    using that by (simp add: unsigned_of_nat take_bit_nat_eq_self)
  have n: "(ucast n1 :: uint64) = of_nat a1" "(ucast n2 :: uint64) = of_nat a2" "(ucast n3 :: uint64) = of_nat a3"
    using assms(2) l uc by (auto simp: regs_def a)
  have "(of_nat a1 OR push_bit 28 (of_nat a2) :: uint64) = of_nat (a1 + 2 ^ 28 * a2)"
    using l by (intro word_or_disjoint) simp
  moreover have "(of_nat (a1 + 2 ^ 28 * a2) OR push_bit 56 (of_nat a3) :: uint64) =
      of_nat (a1 + 2 ^ 28 * a2 + 2 ^ 56 * a3)"
    using l by (intro word_or_disjoint) simp
  moreover have "varint_val bs = a1 + 2 ^ 28 * a2 + 2 ^ 56 * a3"
  proof (cases "length bs \<le> 4")
    case True
    then show ?thesis by (simp add: a)
  next
    case False
    then have "varint_val bs = a1 + 2 ^ 28 * varint_val (drop 4 bs)"
      using varint_val_append [of "take 4 bs" "drop 4 bs"] by (simp add: a)
    moreover have "varint_val (drop 4 bs) = a2 + 2 ^ 28 * a3"
      using varint_val_append [of "take 4 (drop 4 bs)" "drop 4 (drop 4 bs)"] assms(1)
      unfolding append_take_drop_id by (cases "length bs \<le> 8") (simp_all add: a)
    ultimately show ?thesis by simp
  qed
  ultimately show ?thesis unfolding n by (simp flip: or.assoc)
qed

lemma readvarint64_fallback:
  assumes "drop (sl_p s) M = b # rest" "has_more b"
  shows "pb_readvarint64_fallback M s =
    (case varint_prefix 10 (b # rest) of
       None \<Rightarrow> if 9 \<le> length rest then Some (0, None, s) else None
     | Some cs \<Rightarrow> Some (length cs, Some (of_nat (varint_val cs)), s\<lparr>sl_p := sl_p s + length cs\<rparr>))"
proof -
  note d = drop_Cons_nth [OF assms(1)]
  have tab: "varint64_table = lines64 0 9" by (simp add: varint64_table_def reg_at_def lines64_numeral)
  have len: "length rest = length M - (sl_p s + 1)" using d by auto
  have start: "(ucast b, 0, 0) = reg_add (reg_at 0) (push_bit (7 * (0 mod 4)) 0x80) (regs [b])"
    using assms(2) by (simp add: reg_at_def regs_def ucast_byte)
  have lines: "varint64_lines M (sl_p s + 1) (ucast b, 0, 0) varint64_table =
    (case varint_prefix 9 rest of
       None \<Rightarrow> if 9 \<le> length rest then Some None else None
     | Some cs \<Rightarrow> Some (Some (sl_p s + 1 + length cs, regs (b # cs))))"
    unfolding tab start using varint64_lines [of "[b]" 0 9 M "sl_p s + 1"] d
    by (cases "varint_prefix 9 rest") (simp_all add: len)
  have vp: "varint_prefix 10 (b # rest) = map_option (Cons b) (varint_prefix 9 rest)"
    using assms(2) by (simp add: eval_nat_numeral)
  show ?thesis
  proof (cases "varint_prefix 9 rest")
    case None
    then show ?thesis
      unfolding pb_readvarint64_fallback_def array_get_drop_Cons [OF assms(1)] bind.bind_lunit lines vp
      by simp
  next
    case (Some cs)
    obtain n1 n2 n3 where r: "regs (b # cs) = (n1, n2, n3)" by (cases "regs (b # cs)") auto
    have "length (b # cs) \<le> 10" using varint_prefix_length [OF Some] by simp
    from regs_value [OF this r] show ?thesis
      unfolding pb_readvarint64_fallback_def array_get_drop_Cons [OF assms(1)] bind.bind_lunit lines vp Some
      by (simp add: r)
  qed
qed

section \<open>The readers compute the reference\<close>

lemma slice_bytes_Cons:
  assumes "slice_ok M s" "sl_p s < sl_end s"
  obtains b bs where "slice_bytes M s = b # bs" "array_get M (sl_p s) = Some b"
    "drop (sl_p s) M = b # drop (sl_p s + 1) M"
    "bs = take (pb_len s - 1) (drop (sl_p s + 1) M)" "length bs + 1 = pb_len s"
proof -
  have "drop (sl_p s) M = M ! sl_p s # drop (sl_p s + 1) M"
    using assms by (simp add: slice_ok_def Cons_nth_drop_Suc)
  then show ?thesis
    using assms that [of "M ! sl_p s" "take (pb_len s - 1) (drop (sl_p s + 1) M)"]
    by (auto simp: slice_bytes_def slice_ok_def pb_len_def take_Cons')
qed

lemma slice_bytes_length: "slice_ok M s \<Longrightarrow> length (slice_bytes M s) = pb_len s"
  by (auto simp: slice_bytes_def slice_ok_def pb_len_def min_def)

lemma slice_bytes_split: "drop (sl_p s) M = slice_bytes M s @ drop (sl_p s + pb_len s) M"
  unfolding slice_bytes_def by (metis append_take_drop_id drop_drop add.commute)

lemma slice_bytes_last:
  assumes "slice_ok M s" "sl_p s < sl_end s"
  shows "array_get M (sl_end s - 1) = Some (last (slice_bytes M s))"
  using assms by (auto simp: slice_ok_def slice_bytes_def pb_len_def last_conv_nth array_get_def)

lemma varint_read_short:
  assumes "slice_bytes M s = b # bs" "\<not> has_more b"
  shows "(varint_read M s :: nat \<times> 'a::len word option \<times> pb_Slice) =
    (1, Some (ucast b), s\<lparr>sl_p := sl_p s + 1\<rparr>)"
proof -
  have "varint_prefix 10 (b # bs) = Some [b]" using assms(2) by (simp add: eval_nat_numeral)
  with assms show ?thesis by (simp add: varint_read_def ucast_byte)
qed

text \<open>Where the dispatch picks the unrolled reader, the varint ends inside the slice or has ten bytes.\<close>

lemma varint_prefix_beyond:
  assumes "slice_ok M s" "sl_p s < sl_end s" "pb_len s \<ge> 10 \<or> \<not> has_more (last (slice_bytes M s))"
  shows "varint_prefix 10 (drop (sl_p s) M) = varint_prefix 10 (slice_bytes M s)"
    and "varint_prefix 10 (drop (sl_p s) M) = None \<Longrightarrow> 10 \<le> length M - sl_p s"
proof -
  note len = slice_bytes_length [OF assms(1)]
  have le: "pb_len s \<le> length M - sl_p s" using assms(1) by (auto simp: slice_ok_def pb_len_def)
  show *: "varint_prefix 10 (drop (sl_p s) M) = varint_prefix 10 (slice_bytes M s)"
  proof (cases "pb_len s \<ge> 10")
    case True
    then show ?thesis unfolding slice_bytes_split by (intro varint_prefix_enough) (simp add: len)
  next
    case False
    have "slice_bytes M s \<noteq> []" using len assms(2) by (auto simp: pb_len_def)
    with False assms(3) len obtain cs where "varint_prefix 10 (slice_bytes M s) = Some cs"
      using varint_prefix_closed [of "slice_bytes M s" 10] by auto
    then show ?thesis unfolding slice_bytes_split using varint_prefix_append by metis
  qed
  show "10 \<le> length M - sl_p s" if "varint_prefix 10 (drop (sl_p s) M) = None"
  proof (rule ccontr)
    assume "\<not> 10 \<le> length M - sl_p s"
    then have "pb_len s < 10" using le by simp
    moreover have "slice_bytes M s \<noteq> []" using len assms(2) by (auto simp: pb_len_def)
    ultimately show False
      using that assms(3) * len varint_prefix_closed [of "slice_bytes M s" 10] by auto
  qed
qed

lemma readvarint_slow_reference:
  assumes "slice_ok M s"
  shows "pb_readvarint_slow M s = Some (varint_read M s)"
  using readvarint_slow_from [of s M "sl_p s" 0 0] assms
  by (simp add: pb_readvarint_slow_def varint_read_def slice_ok_def slice_bytes_def pb_len_def
      split: option.split)

lemma readvarint64_reference:
  assumes "slice_ok M s"
  shows "pb_readvarint64 M s = Some (varint_read M s)"
proof (cases "sl_p s < sl_end s")
  case False
  then have "slice_bytes M s = []" by (simp add: slice_bytes_def pb_len_def)
  with False show ?thesis by (simp add: pb_readvarint64_def varint_read_def)
next
  case True
  obtain b bs where b: "slice_bytes M s = b # bs" "array_get M (sl_p s) = Some b"
    "drop (sl_p s) M = b # drop (sl_p s + 1) M" by (rule slice_bytes_Cons [OF assms True])
  note last = slice_bytes_last [OF assms True]
  show ?thesis
  proof (cases "has_more b")
    case False
    with True b show ?thesis by (simp add: pb_readvarint64_def varint_read_short)
  next
    case more: True
    have fall: "pb_readvarint64_fallback M s = Some (varint_read M s)"
      if c: "pb_len s \<ge> 10 \<or> \<not> has_more (last (slice_bytes M s))"
      using varint_prefix_beyond [OF assms True c] readvarint64_fallback [OF b(3) more] b(3)
      by (auto simp: varint_read_def split: option.split)
    show ?thesis
      using True more fall readvarint_slow_reference [OF assms]
      by (auto simp: pb_readvarint64_def b(2) last [simplified])
  qed
qed

lemma varint_read_ucast: "(varint_read M s :: nat \<times> uint32 option \<times> pb_Slice) =
    (case varint_read M s of (n, v, s') \<Rightarrow> (n, map_option (ucast :: uint64 \<Rightarrow> uint32) v, s'))"
  by (simp add: varint_read_def unsigned_of_nat word_of_nat_eq_iff split: option.split)

lemma readvarint32_reference:
  assumes "slice_ok M s"
  shows "pb_readvarint32 M s = Some (varint_read M s)"
proof (cases "sl_p s < sl_end s")
  case False
  then have "slice_bytes M s = []" by (simp add: slice_bytes_def pb_len_def)
  with False show ?thesis by (simp add: pb_readvarint32_def varint_read_def)
next
  case True
  obtain b bs where b: "slice_bytes M s = b # bs" "array_get M (sl_p s) = Some b"
    "drop (sl_p s) M = b # drop (sl_p s + 1) M" by (rule slice_bytes_Cons [OF assms True])
  note last = slice_bytes_last [OF assms True]
  show ?thesis
  proof (cases "has_more b")
    case False
    with True b show ?thesis by (simp add: pb_readvarint32_def varint_read_short)
  next
    case more: True
    have fall: "pb_readvarint32_fallback M s = Some (varint_read M s)"
      if c: "pb_len s \<ge> 10 \<or> \<not> has_more (last (slice_bytes M s))"
      using varint_prefix_beyond [OF assms True c] readvarint32_fallback [OF b(3) more] b(3)
      by (auto simp: varint_read_def split: option.split)
    show ?thesis
      using True more fall readvarint_slow_reference [OF assms] varint_read_ucast [of M s]
      by (auto simp: pb_readvarint32_def b(2) last [simplified] split: prod.splits)
  qed
qed

end
