(* ===== verification/Pb_Reader.thy ===== *)
theory Pb_Reader
  imports Pb_Varint
begin

unbundle bit_operations_syntax

text \<open>
  What the readers of a slice guarantee: inside a well-formed slice every one of them returns, and it
  leaves the slice where it was (count zero) or advanced by the count it returns, never past its end.
  The recursion of \<open>pb_skipvalue\<close> and \<open>pb_readgroup\<close> ends because every tag takes a byte.
\<close>

named_theorems reader_ok \<open>what a reader does on a well-formed slice\<close>

definition advance :: "nat \<Rightarrow> pb_Slice \<Rightarrow> pb_Slice" where
  "advance n s = s\<lparr>sl_p := sl_p s + n\<rparr>"

definition within :: "pb_Slice \<Rightarrow> nat \<Rightarrow> pb_Slice \<Rightarrow> bool" where
  "within s n s' \<longleftrightarrow> s' = advance n s \<and> n \<le> pb_len s"

lemma advance_simps [simp]:
  "sl_p (advance n s) = sl_p s + n" "sl_start (advance n s) = sl_start s" "sl_end (advance n s) = sl_end s"
  "advance 0 s = s" "advance m (advance n s) = advance (n + m) s" "pb_len (advance n s) = pb_len s - n"
  by (simp_all add: advance_def pb_len_def add.assoc)

lemma within_0 [simp]: "within s 0 s' \<longleftrightarrow> s' = s"
  by (auto simp: within_def)

lemma within_ok: "slice_ok M s \<Longrightarrow> within s n s' \<Longrightarrow> slice_ok M s'"
  by (auto simp: within_def slice_ok_def pb_len_def)

lemma within_trans: "within s m t \<Longrightarrow> within t n u \<Longrightarrow> within s (m + n) u"
  by (auto simp: within_def)

lemma advance_ok: "slice_ok M s \<Longrightarrow> n \<le> pb_len s \<Longrightarrow> slice_ok M (advance n s)"
  by (auto simp: slice_ok_def pb_len_def)

lemma slice_bytes_advance: "slice_bytes M (advance n s) = drop n (slice_bytes M s)"
  by (simp add: slice_bytes_def drop_take add.commute)

section \<open>One lemma per reader\<close>

lemma varint_read_within:
  assumes "slice_ok M s" "varint_read M s = (n, v, s')"
  shows "within s n s'" "v = None \<longleftrightarrow> n = 0"
  using assms slice_bytes_length [OF assms(1)]
  by (auto simp: varint_read_def within_def advance_def split: option.splits dest: varint_prefix_length)

lemma readvarint64_within [reader_ok]:
  "slice_ok M s \<Longrightarrow> succeeds (pb_readvarint64 M s) (\<lambda>(n, v, s'). within s n s' \<and> (v = None \<longleftrightarrow> n = 0))"
  by (auto simp: readvarint64_reference succeeds_def varint_read_within split: prod.splits)

lemma readvarint32_within [reader_ok]:
  "slice_ok M s \<Longrightarrow> succeeds (pb_readvarint32 M s) (\<lambda>(n, v, s'). within s n s' \<and> (v = None \<longleftrightarrow> n = 0))"
  by (auto simp: readvarint32_reference succeeds_def varint_read_within split: prod.splits)

lemma readfixed32_within [reader_ok]:
  "slice_ok M s \<Longrightarrow> succeeds (pb_readfixed32 M s) (\<lambda>(n, v, s'). within s n s' \<and> (v = None \<longleftrightarrow> n = 0))"
  by (auto simp: pb_readfixed32_def load_def slice_ok_def within_def advance_def pb_len_def)

lemma readfixed64_within [reader_ok]:
  "slice_ok M s \<Longrightarrow> succeeds (pb_readfixed64 M s) (\<lambda>(n, v, s'). within s n s' \<and> (v = None \<longleftrightarrow> n = 0))"
  by (auto simp: pb_readfixed64_def load_def slice_ok_def within_def advance_def pb_len_def)

lemma readslice_within [reader_ok]:
  "pb_readslice s len = (n, v, s') \<Longrightarrow> within s n s' \<and> (\<forall>d. v = Some d \<longrightarrow> slice_ok M s \<longrightarrow> slice_ok M d)"
  by (auto simp: pb_readslice_def within_def advance_def pb_len_def slice_ok_def split: if_splits)

text \<open>A byte string is a varint with its length and that many bytes; the data stay inside the slice.\<close>

lemma readbytes_within [reader_ok]:
  assumes "slice_ok M s"
  shows "succeeds (pb_readbytes M s) (\<lambda>(n, d, s'). within s n s' \<and> (d = None \<longleftrightarrow> n = 0) \<and>
    (\<forall>v. d = Some v \<longrightarrow> slice_ok M v \<and> sl_start v = sl_start s \<and> sl_end v = sl_p s' \<and> sl_p s < sl_p v))"
proof -
  obtain n v s1 where r: "pb_readvarint64 M s = Some (n, v, s1)" "within s n s1" "v = None \<longleftrightarrow> n = 0"
    using succeedsD [OF readvarint64_within [OF assms]] by auto
  show ?thesis
  proof (cases v)
    case None
    with r(3) show ?thesis by (simp add: pb_readbytes_def r(1))
  next
    case (Some len)
    then have n: "0 < n" using r(3) by simp
    show ?thesis
    proof (cases "pb_len s1 < unat len")
      case True
      with n show ?thesis by (simp add: pb_readbytes_def r(1) Some)
    next
      case False
      have s1: "s1 = advance n s" "n \<le> pb_len s" using r(2) by (simp_all add: within_def)
      with False n show ?thesis
        using assms
        by (simp add: pb_readbytes_def r(1) Some Let_def within_def advance_def slice_ok_def pb_len_def) linarith
    qed
  qed
qed

lemma varint_end:
  "e \<le> length M \<Longrightarrow> p \<le> e \<Longrightarrow> succeeds (varint_end M p e) (\<lambda>q. p \<le> q \<and> q \<le> e)"
proof (induction M p e rule: varint_end.induct)
  case (1 M p e)
  show ?case
  proof (cases "p < e")
    case True
    then have a: "array_get M p = Some (M ! p)" using 1(2) by simp
    show ?thesis
    proof (cases "has_more (M ! p)")
      case more: True
      have "succeeds (varint_end M (p + 1) e) (\<lambda>q. p + 1 \<le> q \<and> q \<le> e)"
        using 1(1) [OF True a more] 1(2) True by simp
      then show ?thesis
        using True more a by (subst varint_end.simps) (auto elim: succeeds_mono)
    next
      case False
      with True a show ?thesis by (subst varint_end.simps) simp
    qed
  next
    case False
    with 1(3) show ?thesis by (subst varint_end.simps) simp
  qed
qed

lemma skipvarint_within [reader_ok]:
  assumes "slice_ok M s"
  shows "succeeds (pb_skipvarint M s) (\<lambda>(n, s'). within s n s')"
proof -
  obtain q where "varint_end M (sl_p s) (sl_end s) = Some q" "sl_p s \<le> q" "q \<le> sl_end s"
    using succeedsD [OF varint_end [of "sl_end s" M "sl_p s"]] assms by (auto simp: slice_ok_def)
  then show ?thesis by (auto simp: pb_skipvarint_def within_def advance_def pb_len_def)
qed

lemma skipslice_within [reader_ok]:
  "slice_ok M s \<Longrightarrow> pb_skipslice s len = (n, s') \<Longrightarrow> within s n s'"
  by (auto simp: pb_skipslice_def within_def advance_def pb_len_def slice_ok_def split: if_splits)

lemma skipbytes_within [reader_ok]:
  assumes "slice_ok M s"
  shows "succeeds (pb_skipbytes M s) (\<lambda>(n, s'). within s n s')"
proof -
  obtain n v s1 where r: "pb_readvarint64 M s = Some (n, v, s1)" "within s n s1" "v = None \<longleftrightarrow> n = 0"
    using succeedsD [OF readvarint64_within [OF assms]] by auto
  then have s1: "s1 = advance n s" "n \<le> pb_len s" by (simp_all add: within_def)
  show ?thesis
  proof (cases v)
    case None
    with r show ?thesis by (simp add: pb_skipbytes_def)
  next
    case (Some len)
    have s: "s1\<lparr>sl_p := sl_p s\<rparr> = s" by (simp add: s1 advance_def)
    have "within s (sl_p s1 + unat len - sl_p s) (s1\<lparr>sl_p := sl_p s1 + unat len\<rparr>)"
      if "\<not> pb_len s1 < unat len"
      using that s1 by (simp add: within_def advance_def pb_len_def)
    with Some r s show ?thesis by (auto simp: pb_skipbytes_def)
  qed
qed

section \<open>Groups and values\<close>

lemma skipvalue_with_within:
  assumes "slice_ok M s"
    and "wiretype tag = PB_TGSTART \<Longrightarrow> succeeds (rg s tag) (\<lambda>(n, d, s'). within s n s')"
  shows "succeeds (pb_skipvalue_with rg M s tag) (\<lambda>(n, s'). within s n s')"
proof -
  have "succeeds (case wiretype tag of
         PB_TVARINT \<Rightarrow> pb_skipvarint M s
       | PB_T64BIT \<Rightarrow> Some (pb_skipslice s 8)
       | PB_TBYTES \<Rightarrow> pb_skipbytes M s
       | PB_T32BIT \<Rightarrow> Some (pb_skipslice s 4)
       | PB_TGSTART \<Rightarrow> do { (ret, data, s') \<leftarrow> rg s tag; Some (ret, s') }
       | _ \<Rightarrow> Some (0, s)) (\<lambda>(n, s'). within s n s')"
    using assms skipvarint_within [OF assms(1)] skipbytes_within [OF assms(1)] skipslice_within [OF assms(1)]
    by (cases "wiretype tag") (auto simp: succeeds_bind elim!: succeeds_mono split: prod.splits)
  then show ?thesis
    by (auto simp: pb_skipvalue_with_def succeeds_bind elim!: succeeds_mono split: prod.splits)
qed

lemma readgroup_fuel_within:
  "slice_ok M s \<Longrightarrow> p \<le> sl_p s \<Longrightarrow> pb_len s < k \<Longrightarrow>
     succeeds (pb_readgroup_fuel k M p s tag) (\<lambda>(n, d, s').
       s' = s\<lparr>sl_p := p + n\<rparr> \<and> p + n \<le> sl_end s \<and> (d = None \<longleftrightarrow> n = 0))"
proof (induction k arbitrary: p s tag)
  case (Suc k)
  obtain c v s1 where r: "pb_readvarint32 M s = Some (c, v, s1)" "within s c s1" "v = None \<longleftrightarrow> c = 0"
    using succeedsD [OF readvarint32_within [OF Suc.prems(1)]] by auto
  then have s1: "s1 = advance c s" "c \<le> pb_len s" by (simp_all add: within_def)
  have le: "p \<le> sl_end s" using Suc.prems by (simp add: slice_ok_def)
  show ?case
  proof (cases v)
    case None
    with r(3) le show ?thesis by (simp add: r(1) s1 advance_def)
  next
    case (Some newtag)
    with r(3) have c: "0 < c" by simp
    have ok1: "slice_ok M s1" using r(2) Suc.prems(1) by (rule within_ok [rotated])
    have len1: "pb_len s1 < k" using s1 c Suc.prems(3) by simp
    have skip: "succeeds (pb_skipvalue_with
        (\<lambda>s tag. do { C_assert (wiretype tag = PB_TGSTART); pb_readgroup_fuel k M (sl_p s) s tag }) M s1 newtag)
        (\<lambda>(n, s'). within s1 n s')"
    proof (rule skipvalue_with_within [OF ok1])
      assume g: "wiretype newtag = PB_TGSTART"
      show "succeeds (do { C_assert (wiretype newtag = PB_TGSTART); pb_readgroup_fuel k M (sl_p s1) s1 newtag })
        (\<lambda>(n, d, s'). within s1 n s')"
        using Suc.IH [OF ok1 order_refl len1, of newtag] ok1 g
        by (auto simp: C_assert_def within_def advance_def pb_len_def slice_ok_def elim!: succeeds_mono)
    qed
    then obtain n s2 where sk: "pb_skipvalue_with
        (\<lambda>s tag. do { C_assert (wiretype tag = PB_TGSTART); pb_readgroup_fuel k M (sl_p s) s tag }) M s1 newtag
          = Some (n, s2)" "within s1 n s2"
      by (auto simp: succeeds_def)
    have s2: "s2 = advance (c + n) s" "n \<le> pb_len s1" using sk(2) s1 by (auto simp: within_def)
    have end_tag: "sl_p s1 \<le> sl_end s" "p < sl_p s1" using s1 c Suc.prems by (auto simp: pb_len_def slice_ok_def)
    show ?thesis
    proof (cases "wiretype newtag = PB_TGEND")
      case True
      with Some c end_tag le show ?thesis
        by (simp add: r(1)) (auto simp: s1 advance_def)
    next
      case False
      show ?thesis
      proof (cases "n = 0")
        case True
        with False Some c le show ?thesis by (simp add: r(1) sk(1)) (simp add: s2 s1 advance_def)
      next
        case n: False
        have "succeeds (pb_readgroup_fuel k M p s2 tag) (\<lambda>(n, d, s').
            s' = s2\<lparr>sl_p := p + n\<rparr> \<and> p + n \<le> sl_end s2 \<and> (d = None \<longleftrightarrow> n = 0))"
          using Suc.prems s2 s1 c len1 within_ok [OF ok1 sk(2)] by (intro Suc.IH) auto
        with False Some c n show ?thesis
          by (simp add: r(1) sk(1)) (auto simp: s2 advance_def elim!: succeeds_mono)
      qed
    qed
  qed
qed simp

lemma readgroup_within [reader_ok]:
  assumes "slice_ok M s" "wiretype tag = PB_TGSTART"
  shows "succeeds (pb_readgroup M s tag) (\<lambda>(n, d, s'). within s n s' \<and> (d = None \<longleftrightarrow> n = 0))"
  using readgroup_fuel_within [OF assms(1) order_refl, of "pb_len s + 1" tag] assms
  by (auto simp: pb_readgroup_def C_assert_def within_def advance_def pb_len_def slice_ok_def
      elim!: succeeds_mono)

text \<open>
  Skipping a value returns for every input, reads only inside the slice, and moves by what it returns.
\<close>

theorem skipvalue_within:
  assumes "slice_ok M s"
  shows "succeeds (pb_skipvalue M s tag) (\<lambda>(n, s'). within s n s')"
  unfolding pb_skipvalue_def
proof (rule skipvalue_with_within [OF assms])
  assume "wiretype tag = PB_TGSTART"
  from readgroup_within [OF assms this]
  show "succeeds (pb_readgroup M s tag) (\<lambda>(n, d, s'). within s n s')" by (auto elim!: succeeds_mono)
qed

end
