(* ===== verification/Pb_Writer.thy ===== *)
theory Pb_Writer
  imports Pb_Buffer Pb_Reader
begin

unbundle bit_operations_syntax

text \<open>
  What the buffer operations guarantee: the bytes written so far are kept, what is added is appended
  after them, and nothing is stored outside the block in use.  An operation that gets no memory leaves
  the buffer as it was.
\<close>

section \<open>Varints\<close>

lemma and_127: "n AND 0x7F = take_bit 7 (n :: 'a::len word)"
  by (simp add: take_bit_eq_mask mask_eq_exp_minus_1)

lemma more_bit: "has_more b \<longleftrightarrow> bit b 7"
  unfolding has_more_def using and_exp_eq_0_iff_not_bit [of b 7] by simp

lemma low7_bits: "low7 b = unat (take_bit 7 b)"
  by (simp add: unat_and_127 flip: and_127)

lemma bit_128: "8 \<le> LENGTH('a) \<Longrightarrow> bit (0x80 :: 'a::len word) i \<longleftrightarrow> i = 7"
proof -
  assume len: "8 \<le> LENGTH('a)"
  have "bit (0x80 :: 'a word) i \<longleftrightarrow> bit (push_bit 7 1 :: 'a word) i" by simp
  also have "\<dots> \<longleftrightarrow> i = 7" unfolding bit_push_bit_iff bit_1_iff using len by auto
  finally show ?thesis .
qed

lemma varint_byte:
  assumes "8 \<le> LENGTH('a)"
  shows "low7 (ucast (take_bit 7 (n :: 'a::len word) OR 0x80)) = unat n mod 128"
    "has_more (ucast (take_bit 7 n OR 0x80))"
    "low7 (ucast (take_bit 7 n)) = unat n mod 128" "\<not> has_more (ucast (take_bit 7 n))"
proof -
  have "bit (push_bit 7 1 :: int) i \<longleftrightarrow> i = 7" for i unfolding bit_push_bit_iff bit_1_iff by auto
  then have "bit (0x80 :: int) i \<longleftrightarrow> i = 7" for i by simp
  note 80 = this bit_128 [OF assms]
  have low: "take_bit 7 (ucast (take_bit 7 n OR 0x80) :: uint8) = ucast (take_bit 7 n)"
    by (rule bit_word_eqI) (use assms in \<open>auto simp: bit_simps 80\<close>)
  have "unat (ucast (take_bit 7 n) :: uint8) = take_bit 7 (unat n)"
    using assms by (simp add: unsigned_ucast_eq unsigned_take_bit_eq)
  then have v: "unat (ucast (take_bit 7 n) :: uint8) = unat n mod 128" by (simp add: take_bit_eq_mod)
  then show "low7 (ucast (take_bit 7 n OR 0x80)) = unat n mod 128" by (simp add: low7_bits low)
  show "low7 (ucast (take_bit 7 n)) = unat n mod 128" by (simp add: low7_def v)
  show "has_more (ucast (take_bit 7 n OR 0x80))"
    unfolding more_bit using assms by (simp add: bit_simps 80)
  show "\<not> has_more (ucast (take_bit 7 n))" by (simp add: more_bit bit_simps)
qed

lemma write_rounds:
  assumes "8 \<le> LENGTH('a)" "unat (n :: 'a::len word) < 128 ^ (k + 1)"
    and "\<And>m. unat m < 128 \<Longrightarrow> fin m = take_bit 7 m"
  shows "varint_prefix (k + 1) (write_rounds k fin n @ rest) = Some (write_rounds k fin n) \<and>
    varint_val (write_rounds k fin n) = unat n"
  using assms(2)
proof (induction k arbitrary: n)
  case 0
  then have "fin n = take_bit 7 n" using assms(3) by simp
  with 0 show ?case using varint_byte [OF assms(1), of n] by simp
next
  case (Suc k)
  have d: "unat (drop_bit 7 n) = unat n div 128" unfolding unsigned_drop_bit_eq
    by (simp add: drop_bit_eq_div take_bit_nat_eq_self)
  show ?case
  proof (cases "drop_bit 7 n = 0")
    case True
    then have "unat n div 128 = 0" by (metis d unsigned_0)
    then have "unat n < 128" by (simp add: div_eq_0_iff)
    then show ?thesis using True varint_byte [OF assms(1), of n] by (simp add: Let_def and_127)
  next
    case False
    have "unat (drop_bit 7 n) < 128 ^ (k + 1)"
      using Suc.prems by (simp add: d less_mult_imp_div_less mult.commute)
    from Suc.IH [OF this] False show ?thesis
      using varint_byte [OF assms(1), of n] by (simp add: Let_def and_127 d)
  qed
qed

lemma varint_prefix_mono: "varint_prefix k xs = Some cs \<Longrightarrow> varint_prefix (k + d) xs = Some cs"
proof (induction k arbitrary: xs cs)
  case (Suc k)
  then obtain b bs where "xs = b # bs" by (cases xs) simp_all
  with Suc show ?case by (auto split: if_splits)
qed simp

lemma write64:
  shows "varint_prefix 10 (pb_write64 n @ rest) = Some (pb_write64 n)" "varint_val (pb_write64 n) = unat n"
proof -
  have len: "8 \<le> LENGTH(64)" and ten: "(9 :: nat) + 1 = 10" by simp_all
  have less: "unat n < 128 ^ (9 + 1)" using unsigned_less [where 'a = nat and w = n] by simp
  note rounds = write_rounds [OF len less, of "\<lambda>n. n AND 0x7F" rest, OF and_127]
  show "varint_prefix 10 (pb_write64 n @ rest) = Some (pb_write64 n)"
    unfolding pb_write64_def using rounds by (simp only: ten)
  show "varint_val (pb_write64 n) = unat n"
    unfolding pb_write64_def using rounds by blast
qed

lemma write32:
  shows "varint_prefix 5 (pb_write32 n @ rest) = Some (pb_write32 n)" "varint_val (pb_write32 n) = unat n"
proof -
  have "unat n < 128 ^ (4 + 1)" using unsigned_less [where 'a = nat and w = n] by simp
  moreover have "m = take_bit 7 m" if "unat m < 128" for m :: uint32
  proof -
    have "unat (take_bit 7 m) = unat m" using that by (simp add: unsigned_take_bit_eq take_bit_nat_eq_self)
    then show ?thesis by (metis unsigned_word_eqI)
  qed
  ultimately show "varint_prefix 5 (pb_write32 n @ rest) = Some (pb_write32 n)"
    "varint_val (pb_write32 n) = unat n"
    using write_rounds [of n 4 "\<lambda>n. n" rest] by (simp_all add: pb_write32_def)
qed

lemma write64_length: "0 < length (pb_write64 n) \<and> length (pb_write64 n) \<le> 10"
  using varint_prefix_length [OF write64(1) [of n "[]"]] by simp

lemma write32_length: "0 < length (pb_write32 n) \<and> length (pb_write32 n) \<le> 5"
  using varint_prefix_length [OF write32(1) [of n "[]"]] by simp

lemma varint_read_write64:
  "slice_bytes M s = pb_write64 n @ rest \<Longrightarrow>
    varint_read M s = (length (pb_write64 n), Some n, advance (length (pb_write64 n)) s)"
  by (simp add: varint_read_def write64 advance_def)

lemma varint_read_write32:
  "slice_bytes M s = pb_write32 n @ rest \<Longrightarrow>
    varint_read M s = (length (pb_write32 n), Some (of_nat (unat n)), advance (length (pb_write32 n)) s)"
  using varint_prefix_mono [OF write32(1), of 5] by (simp add: varint_read_def write32(2) advance_def)

section \<open>The block\<close>

definition buffer_ok :: "pb_Buffer \<Rightarrow> bool" where
  "buffer_ok b \<longleftrightarrow> length (bf_data b) = (if bf_heap b then unat (bf_capacity b) else PB_SSO_SIZE) \<and>
     size_of b \<le> length (bf_data b)"

lemma initbuffer_ok [simp]: "buffer_ok pb_initbuffer" "pb_result pb_initbuffer = []"
  by (simp_all add: buffer_ok_def pb_initbuffer_def pb_result_def PB_SSO_SIZE_def)

lemma result_length: "buffer_ok b \<Longrightarrow> length (pb_result b) = size_of b"
  by (simp add: buffer_ok_def pb_result_def)

lemma new_block_length [simp]: "length (new_block n old junk) = n"
  by (simp add: new_block_def)

lemma new_block_old: "k \<le> length old \<Longrightarrow> k \<le> n \<Longrightarrow> take k (new_block n old junk) = take k old"
  by (simp add: new_block_def min_def)

lemma grow_size:
  assumes "2 \<le> n" "n < 4294967296"
  shows "succeeds (grow_size e n) (\<lambda>m. n \<le> m \<and> m < 4294967296 \<and> (m < e \<longrightarrow> 2147483597 \<le> m))"
  using assms
proof (induction "2147483597 - n" arbitrary: n rule: less_induct)
  case less
  show ?case
  proof (cases "n < 2147483597 \<and> n < e")
    case True
    then have "succeeds (grow_size e (n + n div 2))
        (\<lambda>m. n + n div 2 \<le> m \<and> m < 4294967296 \<and> (m < e \<longrightarrow> 2147483597 \<le> m))"
      using less.prems by (intro less.hyps) auto
    with True show ?thesis
      by (subst grow_size.simps) (auto simp: PB_MAX_SIZET_def elim!: succeeds_mono)
  next
    case False
    with less.prems show ?thesis by (subst grow_size.simps) (auto simp: PB_MAX_SIZET_def)
  qed
qed

lemma prepbuffsize:
  assumes "buffer_ok b"
  shows "succeeds (pb_prepbuffsize r b len) (\<lambda>(ok, b'). buffer_ok b' \<and> bf_size b' = bf_size b \<and>
    pb_result b' = pb_result b \<and> take (size_of b) (bf_data b') = take (size_of b) (bf_data b) \<and>
    (ok \<longrightarrow> size_of b + len \<le> length (bf_data b')) \<and> (\<not> ok \<longrightarrow> b' = b) \<and>
    ((\<forall>n. r n \<noteq> None) \<and> size_of b + len \<le> 2147483597 \<longrightarrow> ok) \<and>
    (size_of b + len \<le> length (bf_data b) \<longrightarrow> ok \<and> b' = b))"
proof (cases "size_of b + len \<le> length (bf_data b)")
  case True
  with assms show ?thesis by (simp add: pb_prepbuffsize_def buffer_ok_def split: if_splits)
next
  case False
  obtain m where m: "grow_size (size_of b + len) PB_SSO_SIZE = Some m" "m < 4294967296"
    "m < size_of b + len \<longrightarrow> 2147483597 \<le> m"
    using succeedsD [OF grow_size [of PB_SSO_SIZE "size_of b + len"]] by (auto simp: PB_SSO_SIZE_def)
  have cap: "size_of b + len > (if bf_heap b then unat (bf_capacity b) else PB_SSO_SIZE)"
    using False assms by (simp add: buffer_ok_def)
  show ?thesis
  proof (cases "m < size_of b + len")
    case True
    with m cap assms False show ?thesis by (auto simp: pb_prepbuffsize_def Let_def)
  next
    case big: False
    show ?thesis
    proof (cases "r m")
      case None
      with m cap assms False big show ?thesis by (auto simp: pb_prepbuffsize_def Let_def)
    next
      case (Some junk)
      define old where "old = (if bf_heap b then bf_data b else take (size_of b) (bf_data b))"
      have old: "size_of b \<le> length old" "take (size_of b) old = take (size_of b) (bf_data b)"
        using assms by (auto simp: old_def buffer_ok_def)
      have run: "pb_prepbuffsize r b len = Some (True, b\<lparr>bf_heap := True, bf_capacity := of_nat m,
                           bf_data := new_block m old junk\<rparr>)"
        using m(1) cap big Some by (simp add: pb_prepbuffsize_def Let_def old_def)
      have u: "unat (of_nat m :: uint32) = m" using m(2) by (simp add: unsigned_of_nat take_bit_nat_eq_self)
      show ?thesis
        using big old False by (simp add: run u buffer_ok_def pb_result_def new_block_old)
    qed
  qed
qed

section \<open>Appending\<close>

definition appended :: "pb_Buffer \<Rightarrow> uint8 list \<Rightarrow> nat \<times> pb_Buffer \<Rightarrow> bool" where
  "appended b bs = (\<lambda>(n, b'). buffer_ok b' \<and>
     (n = length bs \<and> pb_result b' = pb_result b @ bs \<or> n = 0 \<and> b' = b))"

definition answers_all :: "answers \<Rightarrow> bool" where
  "answers_all r \<longleftrightarrow> (\<forall>n. r n \<noteq> None)"

lemma size_of_add: "size_of b + n < 2147483648 \<Longrightarrow> size_of (pb_addsize n b) = size_of b + n"
  by (simp add: pb_addsize_def unsigned_of_nat unat_word_ariths take_bit_nat_eq_self)

lemma put:
  assumes "size_of b + length bs \<le> length (bf_data b)" "buffer_ok b"
    and "size_of b + length bs < 2147483648"
  shows "succeeds (put bs b) (\<lambda>b'. buffer_ok b' \<and> pb_result b' = pb_result b @ bs \<and>
    size_of b' = size_of b + length bs \<and> length (bf_data b') = length (bf_data b))"
proof -
  define d where "d = take (size_of b) (bf_data b) @ bs @ drop (size_of b + length bs) (bf_data b)"
  have len: "length d = length (bf_data b)" using assms(1) by (simp add: d_def)
  define b' where "b' = pb_addsize (length bs) (b\<lparr>bf_data := d\<rparr>)"
  have run: "put bs b = Some b'" using assms(1) by (simp add: put_def store_def d_def b'_def)
  have size: "size_of b' = size_of b + length bs" unfolding b'_def using assms(3) by (subst size_of_add) simp_all
  have f: "bf_data b' = d" "bf_heap b' = bf_heap b" "bf_capacity b' = bf_capacity b"
    by (simp_all add: b'_def pb_addsize_def)
  have "take (size_of b + length bs) d = take (size_of b) (bf_data b) @ bs"
    using assms(1) by (simp add: d_def)
  with assms size f len show ?thesis
    unfolding run by (simp add: buffer_ok_def pb_result_def)
qed

lemma add_reserved:
  assumes "buffer_ok b" "length bs \<le> room" "size_of b + length bs < 2147483648"
  shows "succeeds (add_reserved r room bs b) (\<lambda>p. appended b bs p \<and>
    ((answers_all r \<and> size_of b + room \<le> 2147483597) \<or> size_of b + room \<le> length (bf_data b) \<longrightarrow>
       fst p = length bs \<and> pb_result (snd p) = pb_result b @ bs) \<and>
    (size_of b + room \<le> length (bf_data b) \<longrightarrow> length (bf_data (snd p)) = length (bf_data b)))"
proof -
  obtain ok b1 where p: "pb_prepbuffsize r b room = Some (ok, b1)" "buffer_ok b1" "bf_size b1 = bf_size b"
    "pb_result b1 = pb_result b" "ok \<longrightarrow> size_of b + room \<le> length (bf_data b1)" "\<not> ok \<longrightarrow> b1 = b"
    "answers_all r \<and> size_of b + room \<le> 2147483597 \<longrightarrow> ok"
    "size_of b + room \<le> length (bf_data b) \<longrightarrow> ok \<and> b1 = b"
    using succeedsD [OF prepbuffsize [OF assms(1), of r room]] by (auto simp: answers_all_def)
  show ?thesis
  proof (cases ok)
    case True
    have "succeeds (put bs b1) (\<lambda>b'. buffer_ok b' \<and> pb_result b' = pb_result b1 @ bs \<and>
        size_of b' = size_of b1 + length bs \<and> length (bf_data b') = length (bf_data b1))"
      using p True assms by (intro put) auto
    with True p show ?thesis
      by (auto simp: add_reserved_def appended_def succeeds_def)
  next
    case False
    with p show ?thesis by (auto simp: add_reserved_def appended_def)
  qed
qed

section \<open>Numbers: what is written is read back\<close>

text \<open>
  The contract of a number on the wire: an encoding, the operation that appends it to a buffer and the
  reader that takes it from a slice.
\<close>

locale wire_number =
  fixes enc :: "'v \<Rightarrow> uint8 list"
    and add :: "answers \<Rightarrow> pb_Buffer \<Rightarrow> 'v \<Rightarrow> (nat \<times> pb_Buffer) option"
    and room :: nat
    and read :: "mem \<Rightarrow> pb_Slice \<Rightarrow> (nat \<times> 'v option \<times> pb_Slice) option"
  assumes enc_room: "0 < length (enc v) \<and> length (enc v) \<le> room"
    and add_reserves: "add r b v = add_reserved r room (enc v) b"
    and read_enc: "slice_ok M s \<Longrightarrow> slice_bytes M s = enc v @ rest \<Longrightarrow>
      read M s = Some (length (enc v), Some v, advance (length (enc v)) s)"
begin

lemma add_appends:
  assumes "buffer_ok b" "size_of b + room < 2147483648"
  shows "succeeds (add r b v) (\<lambda>p. appended b (enc v) p \<and>
    ((answers_all r \<and> size_of b + room \<le> 2147483597) \<or> size_of b + room \<le> length (bf_data b) \<longrightarrow>
       fst p = length (enc v) \<and> pb_result (snd p) = pb_result b @ enc v) \<and>
    (size_of b + room \<le> length (bf_data b) \<longrightarrow> length (bf_data (snd p)) = length (bf_data b)))"
  unfolding add_reserves using assms enc_room [of v] by (intro add_reserved) auto

lemma read_back:
  assumes "buffer_ok b" "size_of b + room < 2147483648" "add r b v = Some (n, b')" "0 < n"
  shows "read (pb_result b') \<lparr>sl_p = size_of b, sl_start = 0, sl_end = size_of b'\<rparr> =
    Some (n, Some v, \<lparr>sl_p = size_of b', sl_start = 0, sl_end = size_of b'\<rparr>)"
proof -
  have a: "buffer_ok b'" "n = length (enc v)" "pb_result b' = pb_result b @ enc v"
    using add_appends [OF assms(1,2), of r v] assms(3,4) by (auto simp: appended_def)
  define s where "s = \<lparr>sl_p = size_of b, sl_start = 0, sl_end = size_of b'\<rparr>"
  have len: "size_of b' = size_of b + length (enc v)"
    using result_length [OF a(1)] result_length [OF assms(1)] a(3) by simp
  have bytes: "slice_bytes (pb_result b') s = enc v @ []"
    using result_length [OF assms(1)] by (simp add: slice_bytes_def s_def pb_len_def a(3) len)
  have "slice_ok (pb_result b') s"
    using result_length [OF a(1)] len by (simp add: slice_ok_def s_def)
  from read_enc [OF this bytes] show ?thesis
    by (simp add: a(2) s_def advance_def len)
qed

end

text \<open>The four number formats of the code keep the contract.\<close>

interpretation varint64: wire_number pb_write64 pb_addvarint64 10 pb_readvarint64
  by unfold_locales
    (use write64_length in \<open>simp_all add: pb_addvarint64_def readvarint64_reference varint_read_write64\<close>)

interpretation varint32: wire_number pb_write32 pb_addvarint32 5 pb_readvarint32
  by unfold_locales
    (use write32_length in \<open>simp_all add: pb_addvarint32_def readvarint32_reference varint_read_write32\<close>)

lemma low_byte: "ucast (ucast (n AND 0xFF :: 'a::len word) :: uint8) = take_bit 8 n"
proof -
  have "n AND 0xFF = take_bit 8 n" by (simp add: take_bit_eq_mask mask_eq_exp_minus_1)
  moreover have "ucast (ucast (take_bit 8 n) :: uint8) = take_bit 8 n"
    by (rule bit_word_eqI) (auto simp: bit_simps)
  ultimately show ?thesis by simp
qed

lemma be_word_rev_le_bytes: "unat n < 256 ^ k \<Longrightarrow> be_word (rev (le_bytes k (n :: 'a::len word))) = n"
proof (induction k arbitrary: n)
  case 0
  then have "n = 0" by (simp add: unat_eq_zero)
  then show ?case by (simp add: be_word_def)
next
  case (Suc k)
  have "unat (drop_bit 8 n) = unat n div 256"
    unfolding unsigned_drop_bit_eq by (simp add: drop_bit_eq_div take_bit_nat_eq_self)
  then have "unat (drop_bit 8 n) < 256 ^ k"
    using Suc.prems by (simp add: less_mult_imp_div_less mult.commute)
  from Suc.IH [OF this] have "be_word (rev (le_bytes (Suc k) n)) =
      push_bit 8 (drop_bit 8 n) OR ucast (ucast (n AND 0xFF) :: uint8)"
    by (simp add: be_word_def)
  moreover have "push_bit 8 (drop_bit 8 n) OR take_bit 8 n = n"
    by (rule bit_word_eqI) (auto simp: bit_simps)
  ultimately show ?case unfolding low_byte by simp
qed

lemma le_bytes_length [simp]: "length (le_bytes k n) = k"
  by (induction k arbitrary: n) simp_all

lemma load_slice:
  assumes "slice_ok M s" "slice_bytes M s = bs @ rest"
  shows "load M (sl_p s) (length bs) = Some bs" "length bs \<le> pb_len s"
proof -
  have len: "length bs \<le> pb_len s" using slice_bytes_length [OF assms(1)] assms(2) by simp
  have "take (length bs) (drop (sl_p s) M) = take (length bs) (slice_bytes M s)"
    using len by (simp add: slice_bytes_def)
  with assms len show "load M (sl_p s) (length bs) = Some bs"
    by (auto simp: load_def slice_ok_def pb_len_def)
  show "length bs \<le> pb_len s" by (rule len)
qed

lemma readfixed32_le:
  assumes "slice_ok M s" "slice_bytes M s = le_bytes 4 n @ rest"
  shows "pb_readfixed32 M s = Some (4, Some n, advance 4 s)"
proof -
  have "unat n < 256 ^ 4" using unsigned_less [where 'a = nat and w = n] by simp
  then show ?thesis
    using load_slice [OF assms] assms(1) be_word_rev_le_bytes [of n 4]
    by (auto simp: pb_readfixed32_def advance_def pb_len_def slice_ok_def)
qed

lemma readfixed64_le:
  assumes "slice_ok M s" "slice_bytes M s = le_bytes 8 n @ rest"
  shows "pb_readfixed64 M s = Some (8, Some n, advance 8 s)"
proof -
  have "unat n < 256 ^ 8" using unsigned_less [where 'a = nat and w = n] by simp
  then show ?thesis
    using load_slice [OF assms] assms(1) be_word_rev_le_bytes [of n 8]
    by (auto simp: pb_readfixed64_def advance_def pb_len_def slice_ok_def)
qed

interpretation fixed32: wire_number "le_bytes 4" pb_addfixed32 4 pb_readfixed32
  by unfold_locales (simp_all add: pb_addfixed32_def readfixed32_le)

interpretation fixed64: wire_number "le_bytes 8" pb_addfixed64 8 pb_readfixed64
  by unfold_locales (simp_all add: pb_addfixed64_def readfixed64_le)

section \<open>Byte strings and lengths\<close>

lemma addslice:
  assumes "buffer_ok b" "size_of b + length bs < 2147483648"
  shows "succeeds (pb_addslice r b bs) (\<lambda>p. appended b bs p \<and>
    ((answers_all r \<and> size_of b + length bs \<le> 2147483597) \<or> size_of b + length bs \<le> length (bf_data b) \<longrightarrow>
       fst p = length bs \<and> pb_result (snd p) = pb_result b @ bs) \<and>
    (size_of b + length bs \<le> length (bf_data b) \<longrightarrow> length (bf_data (snd p)) = length (bf_data b)))"
  unfolding pb_addslice_def using assms by (intro add_reserved) auto

text \<open>
  The room for the length and the bytes is reserved first, so that either both are appended or nothing.
\<close>

lemma addbytes:
  assumes "buffer_ok b" "size_of b + length bs + 5 < 2147483648"
  shows "succeeds (pb_addbytes r b bs) (\<lambda>p. appended b (pb_write32 (of_nat (length bs)) @ bs) p \<and>
    (answers_all r \<and> size_of b + length bs + 5 \<le> 2147483597 \<longrightarrow>
       fst p = length (pb_write32 (of_nat (length bs))) + length bs))"
proof -
  obtain ok b1 where p: "pb_prepbuffsize r b (length bs + 5) = Some (ok, b1)" "buffer_ok b1" "bf_size b1 = bf_size b"
    "pb_result b1 = pb_result b" "ok \<longrightarrow> size_of b + (length bs + 5) \<le> length (bf_data b1)" "\<not> ok \<longrightarrow> b1 = b"
    "answers_all r \<and> size_of b + (length bs + 5) \<le> 2147483597 \<longrightarrow> ok"
    using succeedsD [OF prepbuffsize [OF assms(1), of r "length bs + 5"]] by (auto simp: answers_all_def)
  show ?thesis
  proof (cases ok)
    case False
    with p show ?thesis by (auto simp: pb_addbytes_def appended_def)
  next
    case True
    define w where "w = pb_write32 (of_nat (length bs))"
    have room: "size_of b1 + 5 \<le> length (bf_data b1)" using p True by simp
    obtain n2 b2 where q: "pb_addvarint32 r b1 (of_nat (length bs)) = Some (n2, b2)" "buffer_ok b2"
      "n2 = length w" "pb_result b2 = pb_result b @ w" "length (bf_data b2) = length (bf_data b1)"
      using varint32.add_appends [OF p(2), of r "of_nat (length bs)"] room assms(2) p
      by (auto simp: succeeds_def appended_def w_def)
    have s2: "size_of b2 = size_of b + length w" "length w \<le> 5"
      using result_length [OF q(2)] result_length [OF assms(1)] q(4) write32_length by (simp_all add: w_def)
    obtain n3 b3 where t: "pb_addslice r b2 bs = Some (n3, b3)" "buffer_ok b3" "n3 = length bs"
      "pb_result b3 = pb_result b2 @ bs"
      using addslice [OF q(2), of bs r] s2 p True q(5) assms(2) by (auto simp: succeeds_def appended_def)
    show ?thesis
      using p(1) True q t by (simp add: pb_addbytes_def appended_def w_def)
  qed
qed

lemma take_drop_middle: "take a d @ take c (drop a d) @ drop (c + a) d = d"
  by (metis append_take_drop_id drop_drop)

lemma store_move:
  assumes "take n d = pre @ gap @ body" "n = length pre + length gap + length body" "n \<le> length d"
    and "length gap \<le> length w" "length pre + length w + length body \<le> length d"
  shows "\<exists>d1 d2. store d (length pre + length w) (take (length body) (drop (length pre + length gap) d)) = Some d1 \<and>
    store d1 (length pre) w = Some d2 \<and> length d2 = length d \<and>
    take (length pre + length w + length body) d2 = pre @ w @ body"
proof -
  define tl where "tl = drop n d"
  have d: "d = pre @ gap @ body @ tl" using assms(1) append_take_drop_id [of n d] by (simp add: tl_def)
  have body: "take (length body) (drop (length pre + length gap) d) = body" by (simp add: d)
  define d1 where "d1 = take (length pre + length w) d @ body @ drop (length pre + length w + length body) d"
  have d1: "store d (length pre + length w) body = Some d1"
    using assms(5) by (simp add: store_def d1_def)
  have len: "length d1 = length d" using assms(5) by (simp add: d1_def)
  have "take (length pre) d1 = take (length pre) d" using assms(5) by (simp add: d1_def)
  also have "\<dots> = pre" by (simp add: d)
  finally have pre: "take (length pre) d1 = pre" .
  have rest: "drop (length pre + length w) d1 = body @ drop (length pre + length w + length body) d"
    using assms(5) by (simp add: d1_def)
  have "store d1 (length pre) w = Some (pre @ w @ drop (length pre + length w) d1)"
    using assms(5) len by (simp add: store_def pre)
  with d1 show ?thesis using assms(5) by (simp add: body rest)
qed

text \<open>
  A length inserted in front of what was written after it: the bytes kept free are replaced by the
  varint of the length, and the bytes after them are moved up.
\<close>

lemma addlength:
  assumes "buffer_ok b" "size_of b + 10 < 2147483648" "pb_result b = pre @ gap @ body"
    and "w = pb_write64 (of_nat (length body))" "length gap \<le> length w"
  shows "succeeds (pb_addlength r b (length pre + length gap) (length gap)) (\<lambda>(n, b'). buffer_ok b' \<and>
    (n = length w + length body \<and> pb_result b' = pre @ w @ body \<or> n = 0 \<and> b' = b) \<and>
    (answers_all r \<and> size_of b + 10 \<le> 2147483597 \<longrightarrow> n = length w + length body))"
proof -
  have size: "size_of b = length pre + length gap + length body"
    using result_length [OF assms(1)] assms(3) by simp
  have w: "length w \<le> 10" "0 < length w" using write64_length assms(4) by simp_all
  define rl where "rl = length w - length gap"
  have finish: "succeeds (do { d \<leftarrow> store (bf_data c) (length pre) w;
        Some (length w + length body, pb_addsize rl (c\<lparr>bf_data := d\<rparr>)) })
      (\<lambda>(n, b'). buffer_ok b' \<and> n = length w + length body \<and> pb_result b' = pre @ w @ body)"
    if c: "bf_size c = bf_size b" "buffer_ok c0" "bf_heap c = bf_heap c0" "bf_capacity c = bf_capacity c0"
      "store (bf_data c) (length pre) w = Some d2" "length d2 = length (bf_data c0)"
      "size_of b + rl \<le> length (bf_data c0)"
      "take (length pre + length w + length body) d2 = pre @ w @ body" for c c0 d2
  proof -
    have s: "size_of b + rl = length pre + length w + length body" using size assms(5) by (simp add: rl_def)
    have "size_of (pb_addsize rl (c\<lparr>bf_data := d2\<rparr>)) = size_of b + rl"
      using c(1) assms(2) w by (subst size_of_add) (simp_all add: rl_def)
    with c s show ?thesis by (simp add: buffer_ok_def pb_result_def pb_addsize_def)
  qed
  show ?thesis
  proof (cases "length w > length gap")
    case False
    then have eq: "length gap = length w" using assms(5) by simp
    obtain d1 d2 where d: "store (bf_data b) (length pre + length w) (take (length body) (drop (length pre + length gap) (bf_data b))) = Some d1"
      "store d1 (length pre) w = Some d2" "length d2 = length (bf_data b)"
      "take (length pre + length w + length body) d2 = pre @ w @ body"
      using store_move [of "size_of b" "bf_data b" pre gap body w] assms(1,3) size eq
      by (auto simp: buffer_ok_def pb_result_def)
    have "d1 = bf_data b"
      using d(1) eq assms(1) size take_drop_middle [of "length pre + length w" "bf_data b" "length body"]
      by (simp add: store_def buffer_ok_def add.commute split: if_splits)
    then have "store (bf_data b) (length pre) w = Some d2" using d(2) by simp
    from finish [OF refl assms(1) refl refl this] d assms(1) eq size
    have "succeeds (do { d \<leftarrow> store (bf_data b) (length pre) w;
        Some (length w + length body, pb_addsize rl (b\<lparr>bf_data := d\<rparr>)) })
      (\<lambda>(n, b'). buffer_ok b' \<and> n = length w + length body \<and> pb_result b' = pre @ w @ body)"
      by (simp add: buffer_ok_def rl_def)
    then show ?thesis
      using eq size False by (auto simp: pb_addlength_def Let_def C_assert_def rl_def assms(4) [symmetric] elim!: succeeds_mono)
  next
    case True
    obtain ok b1 where p: "pb_prepbuffsize r b rl = Some (ok, b1)" "buffer_ok b1" "bf_size b1 = bf_size b"
      "take (size_of b) (bf_data b1) = take (size_of b) (bf_data b)"
      "ok \<longrightarrow> size_of b + rl \<le> length (bf_data b1)" "\<not> ok \<longrightarrow> b1 = b"
      "answers_all r \<and> size_of b + rl \<le> 2147483597 \<longrightarrow> ok"
      using succeedsD [OF prepbuffsize [OF assms(1), of r rl]] by (auto simp: answers_all_def)
    show ?thesis
    proof (cases ok)
      case False
      with p True size w show ?thesis
        by (auto simp: pb_addlength_def Let_def C_assert_def rl_def assms(4) [symmetric])
    next
      case ok: True
      obtain d1 d2 where d: "store (bf_data b1) (length pre + length w) (take (length body) (drop (length pre + length gap) (bf_data b1))) = Some d1"
        "store d1 (length pre) w = Some d2" "length d2 = length (bf_data b1)"
        "take (length pre + length w + length body) d2 = pre @ w @ body"
        using store_move [of "size_of b" "bf_data b1" pre gap body w] assms(1,3,5) size p ok
        by (auto simp: buffer_ok_def pb_result_def rl_def)
      have "succeeds (do { d \<leftarrow> store (bf_data (b1\<lparr>bf_data := d1\<rparr>)) (length pre) w;
          Some (length w + length body, pb_addsize rl (b1\<lparr>bf_data := d1, bf_data := d\<rparr>)) })
        (\<lambda>(n, b'). buffer_ok b' \<and> n = length w + length body \<and> pb_result b' = pre @ w @ body)"
        using finish [of "b1\<lparr>bf_data := d1\<rparr>" b1 d2] d p ok by simp
      then show ?thesis
        using True ok size p(1) d(1)
        by (auto simp: pb_addlength_def Let_def C_assert_def rl_def assms(4) [symmetric] elim!: succeeds_mono)
    qed
  qed
qed

end
