(* ===== verification/Pb_Message.thy ===== *)
theory Pb_Message
  imports Pb_Writer
begin

unbundle bit_operations_syntax

text \<open>
  Whole field values on the wire.  \<open>wire_value\<close> is the grammar of the values a message can hold, groups
  nested to any depth, and \<open>enc_payload\<close> their bytes, built with the writers of \<open>pb/c/pb.h\<close>.  Skipping
  an unknown field consumes exactly its bytes; the signed conversions and the byte strings come back.
\<close>

section \<open>Zigzag and sign extension\<close>

lemma bit_neg_and_1: "bit (- (v AND 1 :: 'a::len word)) i \<longleftrightarrow> i < LENGTH('a) \<and> bit v 0"
proof -
  have "v AND 1 = (if bit v 0 then 1 else 0)" by (simp add: bit_0 flip: and_one_eq) (simp add: and_one_eq mod_2_eq_odd)
  then show ?thesis by (simp add: bit_simps)
qed

lemma zigzag:
  fixes v :: "'a::len word"
  assumes "1 < LENGTH('a)"
  defines "e \<equiv> \<lambda>v :: 'a word. push_bit 1 v XOR (if sint v < 0 then - 1 else 0)"
    and "d \<equiv> \<lambda>v :: 'a word. drop_bit 1 v XOR - (v AND 1)"
  shows "d (e v) = v" "e (d v) = v"
proof -
  have neg: "sint w < 0 \<longleftrightarrow> bit w (LENGTH('a) - 1)" for w :: "'a word" by (simp add: bit_last_iff)
  have be: "bit (e w) i \<longleftrightarrow> i < LENGTH('a) \<and> (0 < i \<and> bit w (i - 1)) \<noteq> bit w (LENGTH('a) - 1)" for w i
    unfolding e_def neg bit_xor_iff bit_push_bit_iff by auto
  have bd: "bit (d w) i \<longleftrightarrow> i < LENGTH('a) \<and> bit w (i + 1) \<noteq> bit w 0" for w i
    unfolding d_def bit_xor_iff bit_neg_and_1 bit_drop_bit_eq by (auto simp: comp_def dest: bit_imp_le_length)
  show "d (e v) = v"
  proof (rule bit_word_eqI)
    fix n
    assume n: "n < LENGTH('a)"
    then consider "n = LENGTH('a) - 1" | "Suc n < LENGTH('a)" by linarith
    then show "bit (d (e v)) n \<longleftrightarrow> bit v n" using n assms(1) by cases (auto simp: bd be)
  qed
  show "e (d v) = v"
  proof (rule bit_word_eqI)
    fix n
    assume "n < LENGTH('a)"
    then show "bit (e (d v)) n \<longleftrightarrow> bit v n"
      using assms(1) by (cases n) (auto simp: bd be dest: bit_imp_le_length)
  qed
qed

section \<open>Tags\<close>

lemma and_7: "v AND 7 = take_bit 3 (v :: uint32)"
  by (simp add: take_bit_eq_mask mask_eq_exp_minus_1)

lemma pair_type: "pb_gettype (pb_pair k t) = wire_num t AND 7"
  unfolding pb_gettype_def pb_pair_def and_7 by (rule bit_word_eqI) (auto simp: bit_simps)

lemma wiretype_pair: "t \<noteq> PB_TWIRECOUNT \<Longrightarrow> wiretype (pb_pair k t) = t"
  unfolding wiretype_def pair_type by (cases t) (simp_all add: wire_of_def wire_enum_def)

lemma gettag_pair: "unat k < 536870912 \<Longrightarrow> pb_gettag (pb_pair k t) = k"
proof -
  assume "unat k < 536870912"
  then have "take_bit 29 k = k"
    by (intro unsigned_word_eqI [where 'a = nat]) (simp add: unsigned_take_bit_eq take_bit_nat_eq_self)
  then have k: "bit k n \<Longrightarrow> n < 29" for n by (metis bit_take_bit_iff)
  have t: "drop_bit 3 (wire_num t AND 7) = 0" by (cases t) simp_all
  have "drop_bit 3 (push_bit 3 k) = k"
    by (rule bit_word_eqI) (use k in \<open>force simp: bit_simps\<close>)
  with t show ?thesis by (simp add: pb_gettag_def pb_pair_def drop_bit_or)
qed

section \<open>Values\<close>

datatype wire_value = VVarint uint64 | V64 uint64 | VBytes "uint8 list"
  | VGroup "(uint32 \<times> wire_value) list" | V32 uint32

fun vtype :: "wire_value \<Rightarrow> pb_WireType" where
  "vtype (VVarint n) = PB_TVARINT"
| "vtype (V64 n) = PB_T64BIT"
| "vtype (VBytes bs) = PB_TBYTES"
| "vtype (VGroup fs) = PB_TGSTART"
| "vtype (V32 n) = PB_T32BIT"

fun enc_payload :: "uint32 \<Rightarrow> wire_value \<Rightarrow> uint8 list" where
  "enc_payload k (VVarint n) = pb_write64 n"
| "enc_payload k (V64 n) = le_bytes 8 n"
| "enc_payload k (VBytes bs) = pb_write32 (of_nat (length bs)) @ bs"
| "enc_payload k (VGroup fs) =
     concat (map (\<lambda>(j, v). pb_write32 (pb_pair j (vtype v)) @ enc_payload j v) fs) @
     pb_write32 (pb_pair k PB_TGEND)"
| "enc_payload k (V32 n) = le_bytes 4 n"

fun valid_value :: "uint32 \<Rightarrow> wire_value \<Rightarrow> bool" where
  "valid_value k (VBytes bs) \<longleftrightarrow> length bs < 4294967296"
| "valid_value k (VGroup fs) \<longleftrightarrow> unat k < 536870912 \<and> (\<forall>(j, v) \<in> set fs. valid_value j v)"
| "valid_value k _ \<longleftrightarrow> True"

definition enc_field :: "uint32 \<Rightarrow> wire_value \<Rightarrow> uint8 list" where
  "enc_field j v = pb_write32 (pb_pair j (vtype v)) @ enc_payload j v"

section \<open>Skipping\<close>

lemma varint_end_prefix:
  assumes "slice_ok M s" "varint_prefix k (slice_bytes M s) = Some cs"
  shows "varint_end M (sl_p s) (sl_end s) = Some (sl_p s + length cs - 1)"
  using assms
proof (induction k arbitrary: s cs)
  case (Suc k)
  have less: "sl_p s < sl_end s"
  proof (rule ccontr)
    assume "\<not> sl_p s < sl_end s"
    then have "slice_bytes M s = []" by (simp add: slice_bytes_def pb_len_def)
    with Suc.prems show False by simp
  qed
  obtain b bs where b: "slice_bytes M s = b # bs" "array_get M (sl_p s) = Some b"
    by (rule slice_bytes_Cons [OF Suc.prems(1) less])
  show ?case
  proof (cases "has_more b")
    case False
    with Suc.prems less b show ?thesis by (subst varint_end.simps) auto
  next
    case True
    then obtain cs' where cs': "cs = b # cs'" "varint_prefix k bs = Some cs'" using Suc.prems b by auto
    have "slice_ok M (advance 1 s)" using Suc.prems(1) less by (intro advance_ok) (simp_all add: pb_len_def)
    moreover have "slice_bytes M (advance 1 s) = bs" by (simp add: slice_bytes_advance b)
    ultimately have "varint_end M (sl_p (advance 1 s)) (sl_end (advance 1 s)) =
        Some (sl_p (advance 1 s) + length cs' - 1)" using cs' by (intro Suc.IH) simp_all
    moreover have "cs' \<noteq> []" using cs' by (metis varint_prefix_length length_greater_0_conv)
    ultimately show ?thesis using less b True cs' by (subst varint_end.simps) simp
  qed
qed simp

lemma skipvarint_write64:
  assumes "slice_ok M s" "slice_bytes M s = pb_write64 n @ rest"
  shows "pb_skipvarint M s = Some (length (pb_write64 n), advance (length (pb_write64 n)) s)"
proof -
  have "varint_end M (sl_p s) (sl_end s) = Some (sl_p s + length (pb_write64 n) - 1)"
    using varint_end_prefix [OF assms(1), of 10] assms(2) write64(1) by simp
  moreover have "length (pb_write64 n) \<le> pb_len s"
    using slice_bytes_length [OF assms(1)] assms(2) by simp
  moreover from this have "sl_p s + length (pb_write64 n) - 1 < sl_end s"
    using write64_length [of n] by (simp only: pb_len_def) linarith
  ultimately show ?thesis
    using write64_length [of n] by (simp add: pb_skipvarint_def advance_def pb_len_def)
qed

lemma varint_read_write32_64:
  "slice_bytes M s = pb_write32 n @ rest \<Longrightarrow>
    (varint_read M s :: nat \<times> uint64 option \<times> pb_Slice) =
      (length (pb_write32 n), Some (of_nat (unat n)), advance (length (pb_write32 n)) s)"
  by (rule varint_read_write32)

lemma length_word:
  assumes "length bs < 4294967296"
  shows "unat (of_nat (unat (of_nat (length bs) :: uint32)) :: uint64) = length bs"
  using assms by (simp add: unsigned_of_nat take_bit_nat_eq_self)

lemma skipbytes_enc:
  assumes "slice_ok M s" "slice_bytes M s = pb_write32 (of_nat (length bs)) @ bs @ rest"
    and "length bs < 4294967296"
  shows "pb_skipbytes M s = (let n = length (pb_write32 (of_nat (length bs))) + length bs in Some (n, advance n s))"
proof -
  define w where "w = pb_write32 (of_nat (length bs))"
  have len: "length w + length bs \<le> pb_len s" using slice_bytes_length [OF assms(1)] assms(2) by (simp add: w_def)
  have read: "pb_readvarint64 M s = Some (length w, Some (of_nat (unat (of_nat (length bs) :: uint32))), advance (length w) s)"
    unfolding w_def using assms(1,2) by (simp add: readvarint64_reference varint_read_write32_64 del: of_nat_unat)
  have "length w \<noteq> 0" using write32_length by (simp add: w_def)
  then show ?thesis
    using len read length_word [OF assms(3)]
    by (simp add: pb_skipbytes_def Let_def w_def [symmetric] advance_def pb_len_def del: of_nat_unat)
qed

text \<open>The reader of a group inside \<open>pb_skipvalue\<close>, with \<open>n\<close> tags at most.\<close>

definition skipvalue_fuel :: "nat \<Rightarrow> mem \<Rightarrow> pb_Slice \<Rightarrow> uint32 \<Rightarrow> (nat \<times> pb_Slice) option" where
  "skipvalue_fuel n M = pb_skipvalue_with
     (\<lambda>s tag. do { C_assert (wiretype tag = PB_TGSTART); pb_readgroup_fuel n M (sl_p s) s tag }) M"

lemma skipvalue_fuel: "pb_skipvalue M s tag = skipvalue_fuel (pb_len s + 1) M s tag"
  unfolding pb_skipvalue_def skipvalue_fuel_def pb_skipvalue_with_def pb_readgroup_def by (rule refl)

lemma readgroup_fuel_Suc:
  "pb_readgroup_fuel (Suc k) M p s tag = do {
     (count, newtag, s1) \<leftarrow> pb_readvarint32 M s;
     case newtag of
       None \<Rightarrow> Some (0, None, s1\<lparr>sl_p := p\<rparr>)
     | Some newtag \<Rightarrow>
         if count = 0 then Some (0, None, s1\<lparr>sl_p := p\<rparr>)
         else if wiretype newtag = PB_TGEND then
           (if pb_gettag newtag \<noteq> pb_gettag tag then Some (0, None, s1\<lparr>sl_p := p\<rparr>)
            else Some (sl_p s1 - p,
                   Some \<lparr>sl_p = p, sl_start = sl_start s1, sl_end = sl_p s1 - count\<rparr>, s1))
         else do {
           (n, s2) \<leftarrow> skipvalue_fuel k M s1 newtag;
           if n = 0 then Some (0, None, s2\<lparr>sl_p := p\<rparr>)
           else pb_readgroup_fuel k M p s2 tag
         }
   }"
  by (simp only: pb_readgroup_fuel.simps skipvalue_fuel_def)

declare pb_readgroup_fuel.simps(2) [simp del]

definition skips :: "wire_value \<Rightarrow> bool" where
  "skips v \<longleftrightarrow> (\<forall>M s k n rest. slice_ok M s \<longrightarrow> slice_bytes M s = enc_payload k v @ rest \<longrightarrow>
     valid_value k v \<longrightarrow> pb_len s < n \<longrightarrow>
     skipvalue_fuel n M s (pb_pair k (vtype v)) = Some (length (enc_payload k v), advance (length (enc_payload k v)) s))"

lemma skips_enc: "slice_ok M s \<Longrightarrow> slice_bytes M s = bs @ rest \<Longrightarrow> length bs \<le> pb_len s"
  using slice_bytes_length by fastforce

lemma write64_nonempty: "pb_write64 n \<noteq> []" and write32_nonempty: "pb_write32 m \<noteq> []"
  using write64_length [of n] write32_length [of m] by auto

lemma skips_group:
  assumes "\<And>j v. (j, v) \<in> set fs \<Longrightarrow> skips v \<and> valid_value j v"
    and "slice_ok M s" "slice_bytes M s = concat (map (\<lambda>(j, v). enc_field j v) fs) @ pb_write32 (pb_pair k PB_TGEND) @ rest"
    and "unat k < 536870912" "pb_len s < n" "p \<le> sl_p s" "pb_gettag tag = k"
  shows "\<exists>d. pb_readgroup_fuel n M p s tag =
    (let q = sl_p s + length (concat (map (\<lambda>(j, v). enc_field j v) fs) @ pb_write32 (pb_pair k PB_TGEND)) in
     Some (q - p, d, s\<lparr>sl_p := q\<rparr>))"
  using assms
proof (induction fs arbitrary: s n)
  case Nil
  define w where "w = pb_write32 (pb_pair k PB_TGEND)"
  obtain m where n: "n = Suc m" using Nil.prems by (cases n) auto
  have "pb_readvarint32 M s = Some (length w, Some (pb_pair k PB_TGEND), advance (length w) s)"
    using Nil.prems by (simp add: w_def readvarint32_reference varint_read_write32)
  moreover have "0 < length w" using write32_length by (simp add: w_def)
  ultimately show ?case
    using Nil.prems by (simp add: n readgroup_fuel_Suc wiretype_pair gettag_pair Let_def w_def [symmetric] advance_def)
next
  case (Cons f fs)
  obtain j v where f: "f = (j, v)" by (cases f)
  obtain m where n: "n = Suc m" using Cons.prems by (cases n) auto
  have v: "skips v" "valid_value j v" using Cons.prems(1) by (auto simp: f)
  define w where "w = pb_write32 (pb_pair j (vtype v))"
  define tl where "tl = concat (map (\<lambda>(j, v). enc_field j v) fs) @ pb_write32 (pb_pair k PB_TGEND)"
  have bytes: "slice_bytes M s = w @ enc_payload j v @ tl @ rest"
    using Cons.prems(3) by (simp add: f enc_field_def w_def tl_def)
  have w: "0 < length w" using write32_length by (simp add: w_def)
  have l1: "length w + length (enc_payload j v) + length tl \<le> pb_len s"
    using slice_bytes_length [OF Cons.prems(2)] bytes by simp
  define s1 s2 where "s1 = advance (length w) s" and "s2 = advance (length (enc_payload j v)) s1"
  have ok: "slice_ok M s1" "slice_ok M s2"
    using Cons.prems(2) l1 by (auto simp: s1_def s2_def intro!: advance_ok)
  have b1: "slice_bytes M s1 = enc_payload j v @ tl @ rest" by (simp add: s1_def slice_bytes_advance bytes)
  then have b2: "slice_bytes M s2 = tl @ rest" by (simp add: s2_def slice_bytes_advance)
  have read: "pb_readvarint32 M s = Some (length w, Some (pb_pair j (vtype v)), s1)"
    using Cons.prems(2) bytes by (simp add: readvarint32_reference varint_read_write32 w_def s1_def)
  have m: "pb_len s1 < m" "pb_len s2 < m" using Cons.prems(5) l1 w
    unfolding s1_def s2_def advance_simps n by linarith+
  have skip: "skipvalue_fuel m M s1 (pb_pair j (vtype v)) = Some (length (enc_payload j v), s2)"
    using v ok(1) b1 m(1) unfolding skips_def s2_def by blast
  have "vtype v \<noteq> PB_TWIRECOUNT" "vtype v \<noteq> PB_TGEND" by (cases v; simp)+
  then have vt: "vtype v \<noteq> PB_TGEND" "wiretype (pb_pair j (vtype v)) = vtype v"
    by (simp_all add: wiretype_pair)
  have ne: "enc_payload j v \<noteq> []"
    using write64_nonempty write32_nonempty by (cases v) (simp_all add: numeral_eq_Suc)
  obtain d where IH: "pb_readgroup_fuel m M p s2 tag = (let q = sl_p s2 + length tl in Some (q - p, d, s2\<lparr>sl_p := q\<rparr>))"
    using Cons.IH [OF Cons.prems(1) ok(2) _ Cons.prems(4) m(2) _ Cons.prems(7)] b2 Cons.prems(6)
    by (auto simp: tl_def s2_def s1_def Let_def)
  have "pb_readgroup_fuel n M p s tag = pb_readgroup_fuel m M p s2 tag"
    using w vt ne by (simp add: n readgroup_fuel_Suc read skip)
  then show ?case
    using IH by (simp add: Let_def f enc_field_def w_def [symmetric] tl_def s2_def s1_def advance_def add.assoc)
qed

lemma skips: "skips v"
proof (induction v)
  case (VVarint n)
  show ?case
    by (auto simp: skips_def skipvalue_fuel_def pb_skipvalue_with_def wiretype_pair skipvarint_write64)
next
  case (V64 n)
  show ?case
    by (auto simp: skips_def skipvalue_fuel_def pb_skipvalue_with_def wiretype_pair pb_skipslice_def
        advance_def pb_len_def dest: skips_enc)
next
  case (V32 n)
  show ?case
    by (auto simp: skips_def skipvalue_fuel_def pb_skipvalue_with_def wiretype_pair pb_skipslice_def
        advance_def pb_len_def dest: skips_enc)
next
  case (VBytes bs)
  show ?case
    using write32_length
    by (auto simp: skips_def skipvalue_fuel_def pb_skipvalue_with_def wiretype_pair skipbytes_enc Let_def)
next
  case (VGroup fs)
  have all: "skips v" if "(j, v) \<in> set fs" for j v
    using VGroup [OF that] by simp
  show ?case
    unfolding skips_def
  proof (intro allI impI)
    fix M s k n rest
    assume ok: "slice_ok M s" and bytes: "slice_bytes M s = enc_payload k (VGroup fs) @ rest"
      and valid: "valid_value k (VGroup fs)" and n: "pb_len s < n"
    define e where "e = concat (map (\<lambda>(j, v). enc_field j v) fs) @ pb_write32 (pb_pair k PB_TGEND)"
    have e: "enc_payload k (VGroup fs) = e" by (simp add: e_def enc_field_def)
    have k: "unat k < 536870912" and fs: "\<And>j v. (j, v) \<in> set fs \<Longrightarrow> skips v \<and> valid_value j v"
      using valid all by auto
    have g: "slice_bytes M s = concat (map (\<lambda>(j, v). enc_field j v) fs) @ pb_write32 (pb_pair k PB_TGEND) @ rest"
      using bytes unfolding e e_def by simp
    obtain d where "pb_readgroup_fuel n M (sl_p s) s (pb_pair k PB_TGSTART) =
        (let q = sl_p s + length e in Some (q - sl_p s, d, s\<lparr>sl_p := q\<rparr>))"
      using skips_group [OF fs ok g k n order_refl gettag_pair [OF k]] unfolding e_def by blast
    moreover have "e \<noteq> []" using write32_length [of "pb_pair k PB_TGEND"] by (auto simp: e_def)
    ultimately show "skipvalue_fuel n M s (pb_pair k (vtype (VGroup fs))) =
        Some (length (enc_payload k (VGroup fs)), advance (length (enc_payload k (VGroup fs))) s)"
      unfolding e by (simp add: skipvalue_fuel_def pb_skipvalue_with_def wiretype_pair C_assert_def Let_def advance_def)
  qed
qed

text \<open>A byte string that was added is read back from the bytes of the buffer.\<close>

lemma readbytes_enc:
  assumes "slice_ok M s" "slice_bytes M s = pb_write32 (of_nat (length bs)) @ bs @ rest"
    and "length bs < 4294967296"
  shows "\<exists>data. pb_readbytes M s = (let n = length (pb_write32 (of_nat (length bs))) + length bs in
      Some (n, Some data, advance n s)) \<and> slice_bytes M data = bs \<and> sl_start data = sl_start s"
proof -
  define w where "w = pb_write32 (of_nat (length bs))"
  have len: "length w + length bs \<le> pb_len s" using slice_bytes_length [OF assms(1)] assms(2) by (simp add: w_def)
  have read: "pb_readvarint64 M s = Some (length w, Some (of_nat (unat (of_nat (length bs) :: uint32))), advance (length w) s)"
    unfolding w_def using assms(1,2) by (simp add: readvarint64_reference varint_read_write32_64 del: of_nat_unat)
  have w: "w \<noteq> []" using write32_nonempty by (simp add: w_def)
  define data where "data = \<lparr>sl_p = sl_p s + length w, sl_start = sl_start s, sl_end = sl_p s + length w + length bs\<rparr>"
  have "pb_readbytes M s = Some (length w + length bs, Some data, advance (length w + length bs) s)"
    using len read length_word [OF assms(3)] w
    by (simp add: pb_readbytes_def Let_def data_def advance_def pb_len_def del: of_nat_unat)
  moreover have "slice_bytes M data = take (length bs) (drop (length w) (slice_bytes M s))"
    using len by (simp add: slice_bytes_def data_def pb_len_def drop_take add.commute)
  then have "slice_bytes M data = bs" by (simp add: assms(2) flip: w_def)
  ultimately show ?thesis by (auto simp: Let_def w_def data_def)
qed

section \<open>Properties\<close>

text \<open>
  C12. Every way to read a varint computes the same function of the bytes of the slice.  The short cut
  for one byte, the unrolled readers and the byte loop give the value of the first bytes up to one
  without the flag, at most ten, reduced to the width of the result; if there is no such byte the
  reader returns 0 and leaves the slice.  None of them reads outside the slice.
\<close>
theorem varint_readers_agree:
  assumes "slice_ok M s"
  shows "pb_readvarint64 M s = Some (varint_read M s) \<and> pb_readvarint32 M s = Some (varint_read M s)"
  using readvarint64_reference [OF assms] readvarint32_reference [OF assms] ..

text \<open>
  C14. Skipping a value ends on every input, however its groups are nested, reads nothing outside the
  slice, and leaves the slice where it was or advanced by the count it returns, not past its end.
\<close>
theorem skipvalue_stays_inside:
  assumes "slice_ok M s"
  shows "\<exists>n s'. pb_skipvalue M s tag = Some (n, s') \<and> s' = advance n s \<and> sl_p s' \<le> sl_end s'"
  using succeedsD [OF skipvalue_within [OF assms, of tag]] assms
  by (auto simp: within_def pb_len_def slice_ok_def)

text \<open>
  C13. Skipping a value that was written by the writers of the code consumes exactly its bytes, for
  every value of the grammar and whatever follows it.
\<close>
theorem skipvalue_exact:
  assumes "slice_ok M s" "slice_bytes M s = enc_payload k v @ rest" "valid_value k v"
  shows "pb_skipvalue M s (pb_pair k (vtype v)) =
    Some (length (enc_payload k v), advance (length (enc_payload k v)) s)"
  using skips [of v] assms unfolding skips_def skipvalue_fuel by auto

text \<open>
  C15. A byte string appended to a buffer is read back from its bytes, with the count that was returned.
\<close>
theorem bytes_roundtrip:
  assumes "buffer_ok b" "size_of b + length bs + 5 < 2147483648"
    and "pb_addbytes r b bs = Some (n, b')" "0 < n"
  shows "\<exists>data s'. pb_readbytes (pb_result b') \<lparr>sl_p = size_of b, sl_start = 0, sl_end = size_of b'\<rparr> =
    Some (n, Some data, s') \<and> slice_bytes (pb_result b') data = bs \<and> sl_p s' = size_of b'"
proof -
  define w where "w = pb_write32 (of_nat (length bs))"
  have a: "buffer_ok b'" "n = length w + length bs" "pb_result b' = pb_result b @ w @ bs"
    using addbytes [OF assms(1,2), of r] assms(3,4) by (auto simp: appended_def w_def)
  define s where "s = \<lparr>sl_p = size_of b, sl_start = 0, sl_end = size_of b'\<rparr>"
  have size: "size_of b' = size_of b + length w + length bs"
    using result_length [OF a(1)] result_length [OF assms(1)] a(3) by simp
  have "slice_ok (pb_result b') s" using result_length [OF a(1)] size by (simp add: slice_ok_def s_def)
  moreover have "slice_bytes (pb_result b') s = w @ bs @ []"
    using result_length [OF assms(1)] size by (simp add: slice_bytes_def s_def pb_len_def a(3))
  moreover have "length bs < 4294967296" using assms(2) by simp
  ultimately obtain data where
    "pb_readbytes (pb_result b') s = (let n = length w + length bs in Some (n, Some data, advance n s))"
    "slice_bytes (pb_result b') data = bs"
    using readbytes_enc [of "pb_result b'" s bs "[]"] unfolding w_def by blast
  then show ?thesis by (simp add: s_def Let_def a(2) size)
qed

text \<open>
  C16. \<open>pb_addlength\<close> puts the varint of the length of the last part in front of it: over the bytes kept
  free, and with the part moved up when the varint is longer.  When the allocator gives no memory it
  returns 0 and the buffer is as before.
\<close>
theorem addlength_inserts:
  assumes "buffer_ok b" "size_of b + 10 < 2147483648" "pb_result b = pre @ gap @ body"
    and "length gap \<le> length (pb_write64 (of_nat (length body)))"
  shows "\<exists>n b'. pb_addlength r b (length pre + length gap) (length gap) = Some (n, b') \<and> buffer_ok b' \<and>
    (n = length (pb_write64 (of_nat (length body))) + length body \<and>
       pb_result b' = pre @ pb_write64 (of_nat (length body)) @ body \<or>
     n = 0 \<and> b' = b \<and> \<not> (answers_all r \<and> size_of b + 10 \<le> 2147483597))"
  using succeedsD [OF addlength [OF assms(1-3) refl assms(4), of r]] write64_nonempty by fastforce

text \<open>
  Zigzag: encoding and decoding a signed integer are inverse to each other, at both widths.
\<close>
theorem zigzag_roundtrip:
  "pb_decode_sint64 (pb_encode_sint64 v) = v \<and> pb_encode_sint64 (pb_decode_sint64 w) = w \<and>
   pb_decode_sint32 (pb_encode_sint32 x) = x \<and> pb_encode_sint32 (pb_decode_sint32 y) = y"
  using zigzag [of v] zigzag [of w] zigzag [of x] zigzag [of y]
  by (simp add: pb_decode_sint64_def pb_encode_sint64_def pb_decode_sint32_def pb_encode_sint32_def)

end
