(* ===== verification/Pb_Table.thy ===== *)
theory Pb_Table
  imports Pb_Wire
begin

unbundle bit_operations_syntax

text \<open>
  The hash table of \<open>pb/c/pb.h\<close>: one array of entries; the entries whose keys collide are chained through
  relative offsets inside the array, and a free entry is looked for from the end of the array downwards.

  An entry is a key, the offset to the next entry of its chain and what the client keeps after it (a
  value of a type with a zero, since the code clears it with \<open>memset\<close>).  Offsets and \<open>lastfree\<close> count
  entries where the code counts bytes, all its byte offsets being multiples of \<open>entry_size\<close>.  A pointer
  to an entry is its index.  \<open>ok\<close> is the answer of \<open>malloc\<close> to a request, by size in bytes.  \<open>None\<close> is a
  run that fails an assertion, leaves the array or does not end.
\<close>

type_synonym pb_Key = uint64

definition PB_MAX_HASHSIZE :: nat where "PB_MAX_HASHSIZE = 4294967195"
definition PB_MIN_HASHTABLE_SIZE :: nat where "PB_MIN_HASHTABLE_SIZE = 8"

record 'v pb_Entry =
  en_next :: int
  en_key :: pb_Key
  en_val :: 'v

record 'v pb_Table =
  tb_size :: nat
  tb_lastfree :: nat
  tb_entry_size :: nat
  tb_has_zero :: bool
  tb_hash :: "'v pb_Entry list"

definition empty_entry :: "'v::zero pb_Entry" where
  "empty_entry = \<lparr>en_next = 0, en_key = 0, en_val = 0\<rparr>"

section \<open>Entries\<close>

definition pb_inittable :: "nat \<Rightarrow> 'v pb_Table" where
  "pb_inittable entrysize =
     \<lparr>tb_size = 0, tb_lastfree = 0, tb_entry_size = entrysize, tb_has_zero = False, tb_hash = []\<rparr>"

definition pb_freetable :: "'v pb_Table \<Rightarrow> 'v pb_Table" where
  "pb_freetable t = pb_inittable (tb_entry_size t)"

definition pbT_hash :: "'v pb_Table \<Rightarrow> pb_Key \<Rightarrow> nat" where
  "pbT_hash t key =
     (let h = unat ((key * 2654435761) AND (of_nat (tb_size t) - 1)) in
      if key \<noteq> 0 \<and> h = 0 then 1 else h)"

definition entry :: "'v pb_Table \<Rightarrow> nat \<Rightarrow> 'v pb_Entry option" where
  "entry t i = array_get (tb_hash t) i"

definition set_entry :: "nat \<Rightarrow> ('v pb_Entry \<Rightarrow> 'v pb_Entry) \<Rightarrow> 'v pb_Table \<Rightarrow> 'v pb_Table option" where
  "set_entry i f t = do {
     e \<leftarrow> entry t i;
     Some (t\<lparr>tb_hash := (tb_hash t)[i := f e]\<rparr>)
   }"

text \<open>The entry that the offset of an entry leads to.\<close>

definition follow :: "'v pb_Table \<Rightarrow> nat \<Rightarrow> nat option" where
  "follow t i = do {
     e \<leftarrow> entry t i;
     let j = int i + en_next e;
     if 0 \<le> j \<and> j < int (length (tb_hash t)) then Some (nat j) else None
   }"

text \<open>What the client does with an entry: store its value, or clear its key to delete it.\<close>

definition put_value :: "nat \<Rightarrow> 'v \<Rightarrow> 'v pb_Table \<Rightarrow> 'v pb_Table option" where
  "put_value i v t = set_entry i (\<lambda>e. e\<lparr>en_val := v\<rparr>) t"

definition clear_entry :: "nat \<Rightarrow> 'v::zero pb_Table \<Rightarrow> 'v pb_Table option" where
  "clear_entry i t = set_entry i (\<lambda>e. e\<lparr>en_key := 0, en_val := 0\<rparr>) t"

section \<open>Lookup\<close>

text \<open>A chain visits an entry at most once, so that \<open>size\<close> rounds are enough.\<close>

primrec get_from :: "nat \<Rightarrow> 'v pb_Table \<Rightarrow> pb_Key \<Rightarrow> nat \<Rightarrow> nat option option" where
  "get_from 0 t key i = None"
| "get_from (Suc n) t key i = do {
     e \<leftarrow> entry t i;
     if en_key e = key then Some (Some i)
     else if en_next e = 0 then Some None
     else do { j \<leftarrow> follow t i; get_from n t key j }
   }"

definition pb_gettable :: "'v pb_Table \<Rightarrow> pb_Key \<Rightarrow> nat option option" where
  "pb_gettable t key =
     (if tb_size t = 0 then Some None
      else if key = 0 then Some (if tb_has_zero t then Some 0 else None)
      else get_from (tb_size t) t key (pbT_hash t key))"

section \<open>Insertion\<close>

text \<open>The search for a free entry: \<open>lastfree\<close> goes down and never comes back.\<close>

fun find_free :: "'v pb_Table \<Rightarrow> nat \<Rightarrow> (nat option \<times> nat) option" where
  "find_free t lastfree =
     (if lastfree > 1 then do {
        e \<leftarrow> entry t (lastfree - 1);
        if en_key e = 0 \<and> en_next e = 0 then Some (Some (lastfree - 1), lastfree - 1)
        else find_free t (lastfree - 1)
      }
      else Some (None, lastfree))"

declare find_free.simps [simp del]

text \<open>The entry before \<open>mp\<close> in the chain that starts at \<open>on\<close>.\<close>

primrec find_prev :: "nat \<Rightarrow> 'v pb_Table \<Rightarrow> nat \<Rightarrow> nat \<Rightarrow> nat option" where
  "find_prev 0 t mp on = None"
| "find_prev (Suc n) t mp on = do {
     next \<leftarrow> follow t on;
     if next = mp then Some on else find_prev n t mp next
   }"

text \<open>The entry that is returned gets the key, and its value is cleared.\<close>

definition claim_entry :: "nat \<Rightarrow> pb_Key \<Rightarrow> 'v::zero pb_Table \<Rightarrow> (nat option \<times> 'v pb_Table) option" where
  "claim_entry mp key t = do {
     t \<leftarrow> set_entry mp (\<lambda>e. e\<lparr>en_key := key, en_val := 0\<rparr>) t;
     Some (Some mp, t)
   }"

text \<open>
  A collision with a free entry \<open>f\<close> at hand: the entry in the main position of \<open>key\<close> moves to \<open>f\<close> when it
  is not in its own main position; otherwise \<open>f\<close> takes the new key and comes second in the chain.
\<close>

definition insert_colliding ::
    "'v::zero pb_Table \<Rightarrow> pb_Key \<Rightarrow> nat \<Rightarrow> nat \<Rightarrow> (nat option \<times> 'v pb_Table) option" where
  "insert_colliding t key mp f = do {
     m \<leftarrow> entry t mp;
     let on = pbT_hash t (en_key m);
     if on \<noteq> mp then do {
       on \<leftarrow> find_prev (tb_size t) t mp on;
       t \<leftarrow> set_entry on (\<lambda>e. e\<lparr>en_next := int f - int on\<rparr>) t;
       m \<leftarrow> entry t mp;
       t \<leftarrow> set_entry f (\<lambda>e. m) t;
       t \<leftarrow> (if en_next m \<noteq> 0 then do {
               t \<leftarrow> set_entry f (\<lambda>e. e\<lparr>en_next := en_next e + (int mp - int f)\<rparr>) t;
               set_entry mp (\<lambda>e. e\<lparr>en_next := 0\<rparr>) t
             } else Some t);
       claim_entry mp key t
     }
     else do {
       fe \<leftarrow> entry t f;
       t \<leftarrow> (if en_next m \<noteq> 0 then set_entry f (\<lambda>e. e\<lparr>en_next := (int mp - int f) + en_next m\<rparr>) t
             else do { C_assert (en_next fe = 0); Some t });
       t \<leftarrow> set_entry mp (\<lambda>e. e\<lparr>en_next := int f - int mp\<rparr>) t;
       claim_entry f key t
     }
   }"

text \<open>The size of the new array: doubling from eight.\<close>

partial_function (option) grow_table :: "nat \<Rightarrow> nat \<Rightarrow> nat \<Rightarrow> nat option" where
  "grow_table limit n newsize =
     (if newsize < limit \<and> newsize < n then grow_table limit n (newsize * 2) else Some newsize)"

text \<open>
  \<open>pb_resizetable\<close> inserts the key of every old entry, empty ones included, and copies its value.  An
  array of \<open>2 ^ 32\<close> bytes or more has no run: the size in bytes wraps around and the code writes outside
  the block it gets.
\<close>

primrec reinsert :: "('v::zero pb_Table \<Rightarrow> pb_Key \<Rightarrow> (nat option \<times> 'v pb_Table) option) \<Rightarrow>
    'v pb_Entry list \<Rightarrow> 'v pb_Table \<Rightarrow> 'v pb_Table option" where
  "reinsert newkey [] nt = Some nt"
| "reinsert newkey (e # es) nt = do {
     (newe, nt) \<leftarrow> newkey nt (en_key e);
     i \<leftarrow> newe;
     nt \<leftarrow> put_value i (en_val e) nt;
     reinsert newkey es nt
   }"

definition resize_with :: "('v::zero pb_Table \<Rightarrow> pb_Key \<Rightarrow> (nat option \<times> 'v pb_Table) option) \<Rightarrow>
    (nat \<Rightarrow> bool) \<Rightarrow> 'v pb_Table \<Rightarrow> nat \<Rightarrow> (nat \<times> 'v pb_Table) option" where
  "resize_with newkey ok t n = do {
     C_assert (tb_entry_size t \<noteq> 0);
     newsize \<leftarrow> grow_table (PB_MAX_HASHSIZE div tb_entry_size t) n PB_MIN_HASHTABLE_SIZE;
     if newsize < n then Some (0, t)
     else if \<not> ok (tb_entry_size t * newsize) then Some (0, t)
     else do {
       C_assert (tb_entry_size t * newsize < 4294967296);
       nt \<leftarrow> reinsert newkey (tb_hash t)
         (t\<lparr>tb_size := newsize, tb_lastfree := newsize, tb_hash := replicate newsize empty_entry\<rparr>);
       Some (newsize, nt)
     }
   }"

text \<open>
  \<open>pbT_newkey\<close> and \<open>pb_resizetable\<close> call each other; \<open>d\<close> bounds the depth of these calls.
\<close>

primrec newkey_fuel :: "nat \<Rightarrow> (nat \<Rightarrow> bool) \<Rightarrow> 'v::zero pb_Table \<Rightarrow> pb_Key \<Rightarrow>
    (nat option \<times> 'v pb_Table) option" where
  "newkey_fuel 0 ok t key = None"
| "newkey_fuel (Suc d) ok t key = do {
     (r, t) \<leftarrow> (if tb_size t = 0 then resize_with (newkey_fuel d ok) ok t (tb_size t * 2) else Some (1, t));
     if r = 0 then Some (None, t)
     else if key = 0 then claim_entry 0 0 (t\<lparr>tb_has_zero := True\<rparr>)
     else do {
       let mp = pbT_hash t key;
       m \<leftarrow> entry t mp;
       if en_key m = 0 then claim_entry mp key t
       else do {
         (f, lastfree) \<leftarrow> find_free t (tb_lastfree t);
         let t = t\<lparr>tb_lastfree := lastfree\<rparr>;
         case f of
           None \<Rightarrow> do {
             (r, t) \<leftarrow> resize_with (newkey_fuel d ok) ok t (tb_size t * 2);
             if r \<noteq> 0 then newkey_fuel d ok t key else Some (None, t)
           }
         | Some f \<Rightarrow> insert_colliding t key mp f
       }
     }
   }"

definition pbT_newkey :: "(nat \<Rightarrow> bool) \<Rightarrow> 'v::zero pb_Table \<Rightarrow> pb_Key \<Rightarrow> (nat option \<times> 'v pb_Table) option" where
  "pbT_newkey = newkey_fuel 3"

definition pb_resizetable :: "(nat \<Rightarrow> bool) \<Rightarrow> 'v::zero pb_Table \<Rightarrow> nat \<Rightarrow> (nat \<times> 'v pb_Table) option" where
  "pb_resizetable ok = resize_with (pbT_newkey ok) ok"

definition pb_settable :: "(nat \<Rightarrow> bool) \<Rightarrow> 'v::zero pb_Table \<Rightarrow> pb_Key \<Rightarrow> (nat option \<times> 'v pb_Table) option" where
  "pb_settable ok t key = do {
     e \<leftarrow> pb_gettable t key;
     case e of Some i \<Rightarrow> Some (Some i, t) | None \<Rightarrow> pbT_newkey ok t key
   }"

section \<open>Iteration\<close>

text \<open>The first entry after \<open>i\<close> that has a key; the entry of key 0 comes first, if there is one.\<close>

function next_used :: "'v pb_Table \<Rightarrow> nat \<Rightarrow> nat option option" where
  "next_used t i =
     (if i < tb_size t then do {
        e \<leftarrow> entry t i;
        if en_key e \<noteq> 0 then Some (Some i) else next_used t (i + 1)
      }
      else Some None)"
  by pat_completeness auto

termination by (relation "measure (\<lambda>(t, i). tb_size t - i)") auto

declare next_used.simps [simp del]

definition pb_nextentry :: "'v pb_Table \<Rightarrow> nat option \<Rightarrow> nat option option" where
  "pb_nextentry t p =
     (if p = None \<and> tb_has_zero t then Some (Some 0)
      else next_used t ((case p of Some i \<Rightarrow> i | None \<Rightarrow> 0) + 1))"

end
