(* ===== verification/Pb_Chains.thy ===== *)
theory Pb_Chains
  imports Main
begin

text \<open>
  The shape of the chains in the hash table, apart from the array that holds them: \<open>s\<close> gives the entry
  that follows an entry, \<open>K\<close> its key (zero for none), \<open>h\<close> the main position of a key.  \<open>chains\<close> is the
  invariant, and one lemma per way the table changes says that it is kept.
\<close>

section \<open>Paths\<close>

fun path :: "(nat \<Rightarrow> nat option) \<Rightarrow> nat \<Rightarrow> nat list \<Rightarrow> bool" where
  "path s i [] \<longleftrightarrow> False"
| "path s i [x] \<longleftrightarrow> x = i \<and> s i = None"
| "path s i (x # y # ys) \<longleftrightarrow> x = i \<and> s i = Some y \<and> path s y (y # ys)"

fun seg :: "(nat \<Rightarrow> nat option) \<Rightarrow> nat \<Rightarrow> nat list \<Rightarrow> nat \<Rightarrow> bool" where
  "seg s i [] j \<longleftrightarrow> i = j"
| "seg s i (x # xs) j \<longleftrightarrow> x = i \<and> (\<exists>k. s i = Some k \<and> seg s k xs j)"

lemma path_head: "path s i (x # xs) \<Longrightarrow> x = i"
  by (cases xs) auto

lemma path_Cons: "path s i (x # xs) \<longleftrightarrow> x = i \<and> (case s i of None \<Rightarrow> xs = [] | Some j \<Rightarrow> path s j xs)"
  by (cases xs) (auto split: option.splits dest: path_head)

lemma path_hd: "path s i xs \<Longrightarrow> \<exists>ys. xs = i # ys"
  by (cases xs) (auto simp: path_Cons)

lemma path_seg: "path s i (xs @ m # ys) \<longleftrightarrow> seg s i xs m \<and> path s m (m # ys)"
  by (induction xs arbitrary: i) (auto simp: path_Cons split: option.splits)

lemma seg_append: "seg s i (xs @ ys) j \<longleftrightarrow> (\<exists>k. seg s i xs k \<and> seg s k ys j)"
  by (induction xs arbitrary: i) auto

lemma seg_snoc: "seg s i (xs @ [x]) j \<longleftrightarrow> seg s i xs x \<and> s x = Some j"
  by (auto simp: seg_append)

lemma path_det: "path s i xs \<Longrightarrow> path s i ys \<Longrightarrow> xs = ys"
proof (induction xs arbitrary: i ys)
  case (Cons x xs)
  then show ?case by (cases ys) (auto simp: path_Cons split: option.splits)
qed simp

lemma path_suffix: "path s i xs \<Longrightarrow> j \<in> set xs \<Longrightarrow> \<exists>as bs. xs = as @ j # bs \<and> path s j (j # bs)"
  by (metis path_seg split_list)

lemma path_distinct: "path s i xs \<Longrightarrow> distinct xs"
proof (induction xs arbitrary: i)
  case (Cons x xs)
  then have x: "x = i" by (simp add: path_Cons)
  have "i \<notin> set xs"
  proof
    assume "i \<in> set xs"
    then obtain as bs where "xs = as @ i # bs" by (metis split_list)
    then have "path s i (i # bs)" using Cons.prems path_seg [of s i "x # as" i bs] by simp
    from path_det [OF Cons.prems this] \<open>xs = as @ i # bs\<close> show False by simp
  qed
  moreover have "distinct xs"
    using Cons by (cases "s i") (auto simp: path_Cons)
  ultimately show ?case by (simp add: x)
qed simp

lemma path_cong: "path s i xs \<Longrightarrow> (\<And>x. x \<in> set xs \<Longrightarrow> s' x = s x) \<Longrightarrow> path s' i xs"
  by (induction xs arbitrary: i) (auto simp: path_Cons split: option.splits)

lemma seg_cong: "seg s i xs j \<Longrightarrow> (\<And>x. x \<in> set xs \<Longrightarrow> s' x = s x) \<Longrightarrow> seg s' i xs j"
  by (induction xs arbitrary: i) auto

section \<open>The invariant\<close>

text \<open>
  Links stay inside the table and lead to entries that \<open>lastfree\<close> has passed; no two of them lead to
  the same entry; every chain ends; a key lies on the chain of its main position; keys are not repeated;
  an entry that is the main position of a key is not held by a key from another chain.
\<close>

definition links_in :: "nat \<Rightarrow> nat \<Rightarrow> (nat \<Rightarrow> nat option) \<Rightarrow> bool" where
  "links_in n lf s \<longleftrightarrow> (\<forall>i j. i < n \<longrightarrow> s i = Some j \<longrightarrow> lf \<le> j \<and> j < n)"

definition links_inj :: "nat \<Rightarrow> (nat \<Rightarrow> nat option) \<Rightarrow> bool" where
  "links_inj n s \<longleftrightarrow> (\<forall>i i' j. i < n \<longrightarrow> i' < n \<longrightarrow> s i = Some j \<longrightarrow> s i' = Some j \<longrightarrow> i = i')"

definition chains_end :: "nat \<Rightarrow> (nat \<Rightarrow> nat option) \<Rightarrow> bool" where
  "chains_end n s \<longleftrightarrow> (\<forall>i < n. \<exists>xs. path s i xs)"

definition keys_reached :: "nat \<Rightarrow> (nat \<Rightarrow> nat option) \<Rightarrow> (nat \<Rightarrow> 'k::zero) \<Rightarrow> ('k \<Rightarrow> nat) \<Rightarrow> bool" where
  "keys_reached n s K h \<longleftrightarrow> (\<forall>i < n. K i \<noteq> 0 \<longrightarrow> (\<exists>xs. path s (h (K i)) xs \<and> i \<in> set xs))"

definition keys_distinct :: "nat \<Rightarrow> (nat \<Rightarrow> 'k::zero) \<Rightarrow> bool" where
  "keys_distinct n K \<longleftrightarrow> (\<forall>i j. i < n \<longrightarrow> j < n \<longrightarrow> K i \<noteq> 0 \<longrightarrow> K i = K j \<longrightarrow> i = j)"

definition heads_own :: "nat \<Rightarrow> (nat \<Rightarrow> 'k::zero) \<Rightarrow> ('k \<Rightarrow> nat) \<Rightarrow> bool" where
  "heads_own n K h \<longleftrightarrow>
     (\<forall>i j. i < n \<longrightarrow> j < n \<longrightarrow> K i \<noteq> 0 \<longrightarrow> K j \<noteq> 0 \<longrightarrow> h (K j) = i \<longrightarrow> h (K i) = i)"

definition hash_in :: "nat \<Rightarrow> ('k::zero \<Rightarrow> nat) \<Rightarrow> bool" where
  "hash_in n h \<longleftrightarrow> (\<forall>k. k \<noteq> 0 \<longrightarrow> 1 \<le> h k \<and> h k < n)"

definition chains :: "nat \<Rightarrow> nat \<Rightarrow> (nat \<Rightarrow> nat option) \<Rightarrow> (nat \<Rightarrow> 'k::zero) \<Rightarrow> ('k \<Rightarrow> nat) \<Rightarrow> bool" where
  "chains n lf s K h \<longleftrightarrow> 1 < n \<and> 1 \<le> lf \<and> lf \<le> n \<and> K 0 = 0 \<and> s 0 = None \<and> hash_in n h \<and>
     links_in n lf s \<and> links_inj n s \<and> chains_end n s \<and> keys_reached n s K h \<and>
     keys_distinct n K \<and> heads_own n K h"

lemma links_inD: "links_in n lf s \<Longrightarrow> i < n \<Longrightarrow> s i = Some j \<Longrightarrow> lf \<le> j \<and> j < n"
  by (simp add: links_in_def)

lemma links_injD: "links_inj n s \<Longrightarrow> i < n \<Longrightarrow> i' < n \<Longrightarrow> s i = Some j \<Longrightarrow> s i' = Some j \<Longrightarrow> i = i'"
  unfolding links_inj_def by blast

lemma keys_reachedD: "keys_reached n s K h \<Longrightarrow> i < n \<Longrightarrow> K i \<noteq> 0 \<Longrightarrow> \<exists>xs. path s (h (K i)) xs \<and> i \<in> set xs"
  unfolding keys_reached_def by blast

lemma keys_distinctD: "keys_distinct n K \<Longrightarrow> i < n \<Longrightarrow> j < n \<Longrightarrow> K i \<noteq> 0 \<Longrightarrow> K i = K j \<Longrightarrow> i = j"
  unfolding keys_distinct_def by blast

lemma heads_ownD:
  "heads_own n K h \<Longrightarrow> i < n \<Longrightarrow> j < n \<Longrightarrow> K i \<noteq> 0 \<Longrightarrow> K j \<noteq> 0 \<Longrightarrow> h (K j) = i \<Longrightarrow> h (K i) = i"
  unfolding heads_own_def by blast

lemma keys_distinctI:
  "(\<And>i j. i < n \<Longrightarrow> j < n \<Longrightarrow> K i \<noteq> 0 \<Longrightarrow> K i = K j \<Longrightarrow> i = j) \<Longrightarrow> keys_distinct n K"
  unfolding keys_distinct_def by blast

lemma heads_ownI:
  "(\<And>i j. i < n \<Longrightarrow> j < n \<Longrightarrow> K i \<noteq> 0 \<Longrightarrow> K j \<noteq> 0 \<Longrightarrow> h (K j) = i \<Longrightarrow> h (K i) = i) \<Longrightarrow> heads_own n K h"
  unfolding heads_own_def by blast

lemma keys_reachedI:
  "(\<And>i. i < n \<Longrightarrow> K i \<noteq> 0 \<Longrightarrow> \<exists>xs. path s (h (K i)) xs \<and> i \<in> set xs) \<Longrightarrow> keys_reached n s K h"
  unfolding keys_reached_def by blast

lemma path_in: "links_in n lf s \<Longrightarrow> path s i xs \<Longrightarrow> i < n \<Longrightarrow> set xs \<subseteq> {..<n}"
proof (induction xs arbitrary: i)
  case (Cons x xs)
  show ?case
  proof (cases "s i")
    case None
    with Cons show ?thesis by (simp add: path_Cons)
  next
    case (Some j)
    with Cons.prems have "path s j xs" "x = i" "j < n" using links_inD by (auto simp: path_Cons)
    with Cons.IH Cons.prems show ?thesis by auto
  qed
qed simp

lemma path_length:
  assumes "links_in n lf s" "path s i xs" "i < n"
  shows "length xs \<le> n"
  using path_in [OF assms] path_distinct [OF assms(2)]
  by (metis card_lessThan card_mono distinct_card finite_lessThan)

text \<open>An entry that \<open>lastfree\<close> has not passed is reached from itself only.\<close>

lemma path_below:
  "links_in n lf s \<Longrightarrow> path s i xs \<Longrightarrow> i < n \<Longrightarrow> f \<in> set xs \<Longrightarrow> f < lf \<Longrightarrow> f = i"
proof (induction xs arbitrary: i)
  case (Cons x xs)
  show ?case
  proof (cases "s i")
    case None
    with Cons show ?thesis by (simp add: path_Cons)
  next
    case (Some j)
    with Cons.prems have *: "path s j xs" "x = i" "j < n" "lf \<le> j" using links_inD by (auto simp: path_Cons)
    show ?thesis
    proof (cases "f = x")
      case False
      then have "f = j" using Cons.IH [OF Cons.prems(1) *(1,3)] Cons.prems by simp
      with *(4) Cons.prems(5) show ?thesis by simp
    qed (simp add: *)
  qed
qed simp

section \<open>Lookup\<close>

text \<open>Searching a chain from its main position finds a key exactly when the table holds it.\<close>

lemma find_on_path:
  assumes "keys_reached n s K h" "keys_distinct n K" "links_in n lf s" "hash_in n h"
    and "k \<noteq> 0" "path s (h k) xs"
  shows "find (\<lambda>i. K i = k) xs = Some i \<longleftrightarrow> i < n \<and> K i = k"
    and "find (\<lambda>i. K i = k) xs = None \<longleftrightarrow> (\<forall>i < n. K i \<noteq> k)"
proof -
  have hk: "h k < n" using assms(4,5) by (simp add: hash_in_def)
  have sub: "set xs \<subseteq> {..<n}" by (rule path_in [OF assms(3,6) hk])
  have mem: "i \<in> set xs" if a: "i < n" "K i = k" for i
  proof -
    obtain ys where "path s (h k) ys" "i \<in> set ys"
      using keys_reachedD [OF assms(1) a(1)] a(2) assms(5) by blast
    with path_det [OF assms(6)] show ?thesis by simp
  qed
  show none: "find (\<lambda>i. K i = k) xs = None \<longleftrightarrow> (\<forall>i < n. K i \<noteq> k)"
    using sub mem by (auto simp: find_None_iff)
  show "find (\<lambda>i. K i = k) xs = Some i \<longleftrightarrow> i < n \<and> K i = k"
  proof
    assume "find (\<lambda>i. K i = k) xs = Some i"
    then have "i \<in> set xs" "K i = k" by (auto simp: find_Some_iff)
    with sub show "i < n \<and> K i = k" by auto
  next
    assume i: "i < n \<and> K i = k"
    then obtain j where j: "find (\<lambda>i. K i = k) xs = Some j" using none by (cases "find (\<lambda>i. K i = k) xs") auto
    then have "j \<in> set xs" "K j = k" by (auto simp: find_Some_iff)
    with sub i assms(5) keys_distinctD [OF assms(2), of j i] have "j = i" by auto
    with j show "find (\<lambda>i. K i = k) xs = Some i" by simp
  qed
qed

section \<open>The ways a table changes\<close>

text \<open>\<open>lastfree\<close> goes down over entries in use.\<close>

lemma links_in_lower: "links_in n lf s \<Longrightarrow> lf' \<le> lf \<Longrightarrow> links_in n lf' s"
  unfolding links_in_def by (meson order_trans)

lemma chains_lower: "chains n lf s K h \<Longrightarrow> 1 \<le> lf' \<Longrightarrow> lf' \<le> lf \<Longrightarrow> chains n lf' s K h"
  unfolding chains_def using links_in_lower [of n lf s lf'] by simp

text \<open>A key is cleared: its entry stays in its chain.\<close>

lemma chains_clear:
  assumes "chains n lf s K h"
  shows "chains n lf s (K(i := 0)) h"
proof -
  have "keys_reached n s (K(i := 0)) h" using assms by (simp add: chains_def keys_reached_def)
  moreover have "keys_distinct n (K(i := 0))"
  proof (rule keys_distinctI)
    fix a b
    assume "a < n" "b < n" "(K(i := 0)) a \<noteq> 0" "(K(i := 0)) a = (K(i := 0)) b"
    moreover have "keys_distinct n K" using assms by (simp add: chains_def)
    ultimately show "a = b" using keys_distinctD [of n K a b] by (simp split: if_splits)
  qed
  moreover have "heads_own n (K(i := 0)) h"
  proof (rule heads_ownI)
    fix a b
    assume "a < n" "b < n" "(K(i := 0)) a \<noteq> 0" "(K(i := 0)) b \<noteq> 0" "h ((K(i := 0)) b) = a"
    moreover have "heads_own n K h" using assms by (simp add: chains_def)
    ultimately show "h ((K(i := 0)) a) = a" using heads_ownD [of n K h a b] by (simp split: if_splits)
  qed
  ultimately show ?thesis using assms by (simp add: chains_def)
qed

text \<open>A key is put into its empty main position.\<close>

lemma chains_place:
  assumes "chains n lf s K h" "k \<noteq> 0" "K (h k) = 0" "\<And>i. i < n \<Longrightarrow> K i \<noteq> k"
  shows "chains n lf s (K(h k := k)) h"
proof -
  have hk: "1 \<le> h k" "h k < n" using assms(1,2) by (simp_all add: chains_def hash_in_def)
  have c: "keys_reached n s K h" "keys_distinct n K" "heads_own n K h" "chains_end n s"
    using assms(1) by (simp_all add: chains_def)
  have "keys_reached n s (K(h k := k)) h"
  proof (rule keys_reachedI)
    fix i
    assume i: "i < n" "(K(h k := k)) i \<noteq> 0"
    show "\<exists>xs. path s (h ((K(h k := k)) i)) xs \<and> i \<in> set xs"
    proof (cases "i = h k")
      case True
      obtain xs where xs: "path s (h k) xs" using c(4) hk unfolding chains_end_def by blast
      then have "h k \<in> set xs" using path_hd by fastforce
      with xs True show ?thesis by auto
    next
      case False
      with i c(1) show ?thesis using keys_reachedD [OF c(1), of i] by simp
    qed
  qed
  moreover have "keys_distinct n (K(h k := k))"
  proof (rule keys_distinctI)
    fix a b
    assume "a < n" "b < n" "(K(h k := k)) a \<noteq> 0" "(K(h k := k)) a = (K(h k := k)) b"
    then show "a = b" using keys_distinctD [OF c(2), of a b] assms(4) [of a] assms(4) [of b]
      by (simp split: if_splits)
  qed
  moreover have "heads_own n (K(h k := k)) h"
  proof (rule heads_ownI)
    fix a b
    assume "a < n" "b < n" "(K(h k := k)) a \<noteq> 0" "(K(h k := k)) b \<noteq> 0" "h ((K(h k := k)) b) = a"
    then show "h ((K(h k := k)) a) = a" using heads_ownD [OF c(3), of a b] by (simp split: if_splits)
  qed
  ultimately show ?thesis using assms(1) hk by (simp add: chains_def)
qed

text \<open>A free entry: nothing leads to it and no key has it as its main position.\<close>

lemma free_entry:
  assumes "chains n lf s K h" "f < lf" "K f = 0" "s f = None"
  shows "i < n \<Longrightarrow> s i \<noteq> Some f" and "i < n \<Longrightarrow> K i \<noteq> 0 \<Longrightarrow> h (K i) \<noteq> f"
proof -
  have c: "keys_reached n s K h" "links_in n lf s" using assms(1) by (simp_all add: chains_def)
  show "s i \<noteq> Some f" if "i < n"
    using links_inD [OF c(2) that, of f] assms(2) by auto
  show "h (K i) \<noteq> f" if i: "i < n" "K i \<noteq> 0"
  proof
    assume "h (K i) = f"
    with keys_reachedD [OF c(1) i] obtain xs where "path s f xs" "i \<in> set xs" by auto
    then have "i = f" using assms(4) by (cases xs) (auto simp: path_Cons)
    with i assms(3) show False by simp
  qed
qed

text \<open>Second in a chain: the first entry \<open>m\<close> holds a key of the chain, and \<open>f\<close> is linked in after it.\<close>

lemma path_second_tail:
  assumes l: "links_in n lf s" and f: "f < lf" "m \<noteq> f" "m < n" and p: "path s m (m # b)"
  shows "path (s(f := s m, m := Some f)) f (f # b)"
proof -
  have nf: "f \<notin> set b" using path_below [OF l p f(3), of f] f(1,2) by auto
  have nm: "m \<notin> set b" using path_distinct [OF p] by simp
  show ?thesis
  proof (cases "s m")
    case None
    with p f(2) show ?thesis by (simp add: path_Cons)
  next
    case (Some j)
    with p have "path s j b" by (simp add: path_Cons)
    then have "path (s(f := s m, m := Some f)) j b" using nf nm by (elim path_cong) auto
    then show ?thesis using f(2) Some by (simp add: path_Cons)
  qed
qed

lemma path_second:
  assumes c: "chains n lf s K h" and f: "f < lf" "m \<noteq> f" "m < n"
    and i: "i < n" "i \<noteq> f" "path s i xs"
  shows "\<exists>xs'. path (s(f := s m, m := Some f)) i xs' \<and> set xs \<subseteq> set xs' \<and> (m \<in> set xs \<longrightarrow> f \<in> set xs')"
proof -
  have l: "links_in n lf s" using c by (simp add: chains_def)
  have nf: "f \<notin> set xs" using path_below [OF l i(3,1), of f] f(1) i(2) by auto
  show ?thesis
  proof (cases "m \<in> set xs")
    case False
    with nf have "path (s(f := s m, m := Some f)) i xs" by (intro path_cong [OF i(3)]) auto
    with False show ?thesis by blast
  next
    case True
    then obtain a b where ab: "xs = a @ m # b" by (metis split_list)
    have d: "m \<notin> set a" "m \<notin> set b" using path_distinct [OF i(3)] by (simp_all add: ab)
    have p: "seg s i a m" "path s m (m # b)" using i(3) by (simp_all only: ab path_seg)
    from p(1) have "seg (s(f := s m, m := Some f)) i a m"
      using d nf by (elim seg_cong) (auto simp: ab)
    moreover have "path (s(f := s m, m := Some f)) m (m # f # b)"
      using path_second_tail [OF l f p(2)] by (simp add: path_Cons)
    ultimately have "path (s(f := s m, m := Some f)) i (a @ m # f # b)" by (simp only: path_seg simp_thms)
    then show ?thesis by (intro exI [of _ "a @ m # f # b"]) (auto simp: ab)
  qed
qed

lemma chains_second:
  assumes c: "chains n lf s K h" and k: "k \<noteq> 0" "\<And>i. i < n \<Longrightarrow> K i \<noteq> k"
    and m: "K (h k) \<noteq> 0" "h (K (h k)) = h k"
    and f: "1 \<le> f" "f < lf" "K f = 0" "s f = None"
  shows "chains n f (s(f := s (h k), h k := Some f)) (K(f := k)) h"
proof -
  define s' where s': "s' = s(f := s (h k), h k := Some f)"
  have hk: "1 \<le> h k" "h k < n" using c k(1) by (simp_all add: chains_def hash_in_def)
  have d: "keys_reached n s K h" "keys_distinct n K" "heads_own n K h" "links_in n lf s" "links_inj n s"
    "chains_end n s" "lf \<le> n"
    using c by (simp_all add: chains_def)
  have fn: "f < n" "h k \<noteq> f" using f d(7) m(1) by auto
  note free = free_entry [OF c f(2-4)]
  note second = path_second [OF c f(2) fn(2) hk(2), folded s']
  obtain b where b: "path s (h k) (h k # b)"
    using d(6) hk(2) path_hd unfolding chains_end_def by blast
  have tail: "path s' f (f # b)" unfolding s' by (rule path_second_tail [OF d(4) f(2) fn(2) hk(2) b])
  have "links_in n f s'"
    unfolding links_in_def
  proof (intro allI impI)
    fix i j
    assume "i < n" "s' i = Some j"
    then show "f \<le> j \<and> j < n"
      using links_inD [OF d(4), of i j] links_inD [OF d(4) hk(2), of j] f(2) fn
      by (auto simp: s' split: if_splits)
  qed
  moreover have "links_inj n s'"
    unfolding links_inj_def
  proof (intro allI impI)
    fix x y j
    assume "x < n" "y < n" "s' x = Some j" "s' y = Some j"
    then show "x = y"
      using links_injD [OF d(5), of x y j] links_injD [OF d(5), of "h k" y j] links_injD [OF d(5), of x "h k" j]
        free(1) [of x] free(1) [of y] free(1) [OF hk(2)] hk(2)
      by (simp add: s' split: if_splits)
  qed
  moreover have "chains_end n s'"
    unfolding chains_end_def
  proof (intro allI impI)
    fix i
    assume "i < n"
    then show "\<exists>xs. path s' i xs"
      using tail second [of i] d(6) unfolding chains_end_def by (cases "i = f") blast+
  qed
  moreover have "keys_reached n s' (K(f := k)) h"
  proof (rule keys_reachedI)
    fix i
    assume i: "i < n" "(K(f := k)) i \<noteq> 0"
    show "\<exists>xs. path s' (h ((K(f := k)) i)) xs \<and> i \<in> set xs"
    proof (cases "i = f")
      case True
      with second [OF hk(2) fn(2) b] show ?thesis by auto
    next
      case False
      then have K: "K i \<noteq> 0" using i(2) by simp
      obtain xs where xs: "path s (h (K i)) xs" "i \<in> set xs" using keys_reachedD [OF d(1) i(1) K] by blast
      moreover have "h (K i) < n" using c K by (simp add: chains_def hash_in_def)
      ultimately obtain xs' where "path s' (h (K i)) xs'" "set xs \<subseteq> set xs'"
        using second [OF _ free(2) [OF i(1) K]] by blast
      with xs(2) False show ?thesis by auto
    qed
  qed
  moreover have "keys_distinct n (K(f := k))"
  proof (rule keys_distinctI)
    fix a b
    assume "a < n" "b < n" "(K(f := k)) a \<noteq> 0" "(K(f := k)) a = (K(f := k)) b"
    then show "a = b" using keys_distinctD [OF d(2), of a b] k(2) [of a] k(2) [of b]
      by (simp split: if_splits)
  qed
  moreover have "heads_own n (K(f := k)) h"
  proof (rule heads_ownI)
    fix a b
    assume ab: "a < n" "b < n" "(K(f := k)) a \<noteq> 0" "(K(f := k)) b \<noteq> 0" "h ((K(f := k)) b) = a"
    then have "a \<noteq> f" using free(2) [of b] fn(2) by (auto split: if_splits)
    then show "h ((K(f := k)) a) = a"
      using ab heads_ownD [OF d(3), of a b] m by (cases "b = f") auto
  qed
  ultimately show ?thesis using c f(1) fn hk unfolding s' by (simp add: chains_def)
qed

text \<open>The entry \<open>m\<close>, second or later in another chain, moves to \<open>f\<close>; \<open>p\<close> is the entry before it.\<close>

lemma path_move:
  assumes c: "chains n lf s K h" and f: "f < lf" "m \<noteq> f" "m < n" "s f = None"
    and p: "p < n" "s p = Some m" and i: "i < n" "i \<noteq> f" "i \<noteq> m" "path s i xs"
  shows "\<exists>xs'. path (s(p := Some f, f := s m, m := None)) i xs' \<and> set xs - {m} \<subseteq> set xs' \<and>
    (m \<in> set xs \<longrightarrow> f \<in> set xs')"
proof -
  have l: "links_in n lf s" "links_inj n s" using c by (simp_all add: chains_def)
  have nf: "f \<notin> set xs" using path_below [OF l(1) i(4,1), of f] f(1) i(2) by auto
  show ?thesis
  proof (cases "m \<in> set xs")
    case False
    have "p \<notin> set xs"
    proof
      assume "p \<in> set xs"
      then obtain a b where ab: "xs = a @ p # b" by (metis split_list)
      then have "path s p (p # b)" using i(4) path_seg by simp
      then have "path s m b" using p(2) by (simp add: path_Cons)
      with False ab show False using path_hd by fastforce
    qed
    with False nf have "path (s(p := Some f, f := s m, m := None)) i xs"
      by (intro path_cong [OF i(4)]) auto
    with False show ?thesis by blast
  next
    case True
    then obtain a b where ab: "xs = a @ m # b" by (metis split_list)
    have "a \<noteq> []" using i(3,4) by (auto simp: ab path_Cons)
    then obtain a0 x where a0: "a = a0 @ [x]" by (metis rev_exhaust)
    have pm: "seg s i a m" "path s m (m # b)" using i(4) by (simp_all only: ab path_seg)
    then have "s x = Some m" "x \<in> set xs" by (simp_all add: a0 ab seg_snoc)
    with path_in [OF l(1) i(4,1)] have "x = p" using links_injD [OF l(2) _ p(1) _ p(2)] by auto
    with pm(1) a0 have s1: "seg s i a0 p" by (simp add: seg_snoc)
    have d: "distinct (a0 @ p # m # b)" using path_distinct [OF i(4)] by (simp add: ab a0 \<open>x = p\<close>)
    have nf': "f \<notin> set (a0 @ p # m # b)" using nf by (simp add: ab a0 \<open>x = p\<close>)
    have "seg (s(p := Some f, f := s m, m := None)) i a0 p"
      by (rule seg_cong [OF s1]) (use d nf' in auto)
    moreover have "path (s(p := Some f, f := s m, m := None)) p (p # f # b)"
    proof (cases "s m")
      case None
      with pm(2) have "b = []" by (simp add: path_Cons)
      with None d nf' f(2) show ?thesis by (simp add: path_Cons)
    next
      case (Some j)
      with pm(2) have "path s j b" by (simp add: path_Cons)
      then have "path (s(p := Some f, f := s m, m := None)) j b" by (rule path_cong) (use d nf' in auto)
      with Some d nf' f(2) show ?thesis by (simp add: path_Cons)
    qed
    ultimately have "path (s(p := Some f, f := s m, m := None)) i (a0 @ p # f # b)"
      by (simp only: path_seg simp_thms)
    then show ?thesis by (intro exI [of _ "a0 @ p # f # b"]) (auto simp: ab a0 \<open>x = p\<close>)
  qed
qed

lemma chains_move:
  assumes c: "chains n lf s K h" and k: "k \<noteq> 0" "\<And>i. i < n \<Longrightarrow> K i \<noteq> k"
    and m: "m = h k" "K m \<noteq> 0" "h (K m) \<noteq> m" and p: "p < n" "s p = Some m"
    and f: "1 \<le> f" "f < lf" "K f = 0" "s f = None"
  shows "chains n f (s(p := Some f, f := s m, m := None)) (K(f := K m, m := k)) h"
proof -
  define s' where s': "s' = s(p := Some f, f := s m, m := None)"
  define K' where K': "K' = K(f := K m, m := k)"
  have hm: "1 \<le> m" "m < n" using c k(1) by (simp_all add: m(1) chains_def hash_in_def)
  have d: "keys_reached n s K h" "keys_distinct n K" "heads_own n K h" "links_in n lf s" "links_inj n s"
    "chains_end n s" "lf \<le> n" "s 0 = None" "hash_in n h"
    using c by (simp_all add: chains_def)
  have fn: "f < n" "m \<noteq> f" using f d(7) m(2) by auto
  have pf: "p \<noteq> f" "p \<noteq> 0" using p(2) f(4) d(8) by (metis option.distinct(1))+
  note free = free_entry [OF c f(2-4)]
  note move = path_move [OF c f(2) fn(2) hm(2) f(4) p, folded s']
  have "links_in n f s'"
    unfolding links_in_def
  proof (intro allI impI)
    fix i j
    assume "i < n" "s' i = Some j"
    then show "f \<le> j \<and> j < n"
      using links_inD [OF d(4), of i j] links_inD [OF d(4) hm(2), of j] f(2) fn
      by (auto simp: s' split: if_splits)
  qed
  moreover have "links_inj n s'"
    unfolding links_inj_def
  proof (intro allI impI)
    fix x y j
    assume "x < n" "y < n" "s' x = Some j" "s' y = Some j"
    then show "x = y"
      using links_injD [OF d(5), of x y j] links_injD [OF d(5), of m y j] links_injD [OF d(5), of x m j]
        free(1) [of x] free(1) [of y] free(1) [OF hm(2)] hm(2)
      by (simp add: s' split: if_splits)
  qed
  moreover have "chains_end n s'"
    unfolding chains_end_def
  proof (intro allI impI)
    fix i
    assume i: "i < n"
    consider "i = m" | "i = f" | "i \<noteq> m" "i \<noteq> f" by blast
    then show "\<exists>xs. path s' i xs"
    proof cases
      case 1
      then show ?thesis by (intro exI [of _ "[m]"]) (simp add: s')
    next
      case 2
      obtain xs where xs: "path s p xs" using d(6) p(1) unfolding chains_end_def by blast
      obtain ys where ys: "xs = p # ys" using path_hd [OF xs] by blast
      have pm: "path s m ys" using xs p(2) by (simp add: ys path_Cons)
      have "p \<noteq> m"
      proof
        assume "p = m"
        with path_det [OF xs] pm have "xs = ys" by simp
        with ys show False by simp
      qed
      moreover have "m \<in> set xs" using path_hd [OF pm] ys by auto
      ultimately obtain xs' where "path s' p xs'" "f \<in> set xs'" using move [OF p(1) pf(1) _ xs] by blast
      then show ?thesis using path_suffix 2 by blast
    next
      case 3
      obtain xs where "path s i xs" using d(6) i unfolding chains_end_def by blast
      then show ?thesis using move [OF i 3(2,1)] by blast
    qed
  qed
  moreover have "keys_reached n s' K' h"
  proof (rule keys_reachedI)
    fix i
    assume i: "i < n" "K' i \<noteq> 0"
    have other: "\<exists>xs'. path s' (h (K j)) xs' \<and> set xs - {m} \<subseteq> set xs' \<and> (m \<in> set xs \<longrightarrow> f \<in> set xs')"
      if "j < n" "K j \<noteq> 0" "path s (h (K j)) xs" for j xs
    proof -
      have "h (K j) < n" "h (K j) \<noteq> f" using d(9) that free(2) by (auto simp: hash_in_def)
      moreover have "h (K j) \<noteq> m" using heads_ownD [OF d(3) hm(2) that(1) m(2) that(2)] m(3) by auto
      ultimately show ?thesis using move that(3) by blast
    qed
    show "\<exists>xs. path s' (h (K' i)) xs \<and> i \<in> set xs"
    proof (cases "i = m")
      case True
      then show ?thesis by (intro exI [of _ "[m]"]) (simp add: s' K' m(1))
    next
      case False
      define j where "j = (if i = f then m else i)"
      have j: "j < n" "K j \<noteq> 0" "K' i = K j" using i False hm m(2) by (auto simp: j_def K')
      obtain xs where "path s (h (K j)) xs" "j \<in> set xs" using keys_reachedD [OF d(1) j(1,2)] by blast
      with other [OF j(1,2)] False show ?thesis unfolding j(3) j_def by (cases "i = f") auto
    qed
  qed
  moreover have "keys_distinct n K'"
  proof (rule keys_distinctI)
    fix a b
    assume ab: "a < n" "b < n" "K' a \<noteq> 0" "K' a = K' b"
    define r where "r z = (if z = f then m else z)" for z
    have r: "K' z = K (r z)" "r z < n" "K' z \<noteq> k" if "z < n" "z \<noteq> m" for z
      using that hm(2) k(2) fn(2) by (auto simp: K' r_def)
    have m: "K' m = k" by (simp add: K')
    show "a = b"
    proof (cases "a = m \<or> b = m")
      case True
      then show ?thesis using ab r(3) m by metis
    next
      case False
      then have "r a = r b" using ab r by (intro keys_distinctD [OF d(2)]) auto
      with False show ?thesis by (simp add: r_def split: if_splits)
    qed
  qed
  moreover have "heads_own n K' h"
  proof (rule heads_ownI)
    fix a b
    assume ab: "a < n" "b < n" "K' a \<noteq> 0" "K' b \<noteq> 0" "h (K' b) = a"
    have "h (K' b) \<noteq> f"
      using ab(2,4) free(2) [of b] free(2) [OF hm(2) m(2)] fn(2) m(1) by (simp add: K' split: if_splits)
    with ab(5) have "a \<noteq> f" by simp
    consider "a = m" | "a \<noteq> m" "b = f" | "a \<noteq> m" "b \<noteq> f" "b \<noteq> m" | "a \<noteq> m" "b = m" by blast
    then show "h (K' a) = a"
    proof cases
      case 1
      then show ?thesis using m(1) by (simp add: K')
    next
      case 2
      with ab \<open>a \<noteq> f\<close> fn(2) show ?thesis
        using heads_ownD [OF d(3) ab(1) hm(2) _ m(2)] by (simp add: K')
    next
      case 3
      with ab \<open>a \<noteq> f\<close> show ?thesis using heads_ownD [OF d(3) ab(1,2)] by (simp add: K')
    next
      case 4
      with ab m(1) show ?thesis by (simp add: K')
    qed
  qed
  ultimately show ?thesis using c f(1) fn hm pf unfolding s' K' by (simp add: chains_def)
qed

end
