(* ===== verification/Pb_Table_Ops.thy ===== *)
theory Pb_Table_Ops
  imports Pb_Table Pb_Chains
begin

unbundle bit_operations_syntax

text \<open>
  The operations of the hash table on a well-formed table: what lookup finds, and that an insertion that
  needs no larger array adds exactly its key and keeps the chains.
\<close>

section \<open>The table as a map\<close>

definition key_of :: "'v pb_Table \<Rightarrow> nat \<Rightarrow> pb_Key" where
  "key_of t i = en_key (tb_hash t ! i)"

definition succ_of :: "'v pb_Table \<Rightarrow> nat \<Rightarrow> nat option" where
  "succ_of t i = (let d = en_next (tb_hash t ! i) in if d = 0 then None else Some (nat (int i + d)))"

definition slot :: "'v pb_Table \<Rightarrow> pb_Key \<Rightarrow> nat option" where
  "slot t k =
     (if tb_size t = 0 then None
      else if k = 0 then (if tb_has_zero t then Some 0 else None)
      else find (\<lambda>i. key_of t i = k) [0..<tb_size t])"

definition tmap :: "'v pb_Table \<Rightarrow> pb_Key \<Rightarrow> 'v option" where
  "tmap t k = map_option (\<lambda>i. en_val (tb_hash t ! i)) (slot t k)"

definition table_chains :: "'v pb_Table \<Rightarrow> bool" where
  "table_chains t \<longleftrightarrow> (\<exists>e. 3 \<le> e \<and> e < 32 \<and> tb_size t = 2 ^ e) \<and>
     (\<forall>i < tb_size t. 0 \<le> int i + en_next (tb_hash t ! i)) \<and>
     chains (tb_size t) (tb_lastfree t) (succ_of t) (key_of t) (pbT_hash t)"

definition table_ok :: "'v pb_Table \<Rightarrow> bool" where
  "table_ok t \<longleftrightarrow> tb_entry_size t \<noteq> 0 \<and> tb_size t = length (tb_hash t) \<and>
     (tb_size t = 0 \<and> \<not> tb_has_zero t \<or> table_chains t)"

lemma inittable_ok: "entrysize \<noteq> 0 \<Longrightarrow> table_ok (pb_inittable entrysize)"
  and inittable_empty: "tmap (pb_inittable entrysize) = Map.empty"
  by (simp_all add: table_ok_def pb_inittable_def tmap_def slot_def fun_eq_iff)

lemma find_eq_Some:
  assumes "\<And>a b. a \<in> set xs \<Longrightarrow> b \<in> set xs \<Longrightarrow> P a \<Longrightarrow> P b \<Longrightarrow> a = b"
  shows "find P xs = Some x \<longleftrightarrow> x \<in> set xs \<and> P x"
  using assms
proof (induction xs)
  case (Cons y ys)
  have "find P ys = Some x \<longleftrightarrow> x \<in> set ys \<and> P x" using Cons.prems by (intro Cons.IH) auto
  with Cons.prems [of x y] show ?case by auto
qed simp

lemma table_chainsD:
  assumes "table_chains t"
  shows "links_in (tb_size t) (tb_lastfree t) (succ_of t)" "links_inj (tb_size t) (succ_of t)"
    "chains_end (tb_size t) (succ_of t)" "keys_reached (tb_size t) (succ_of t) (key_of t) (pbT_hash t)"
    "keys_distinct (tb_size t) (key_of t)" "heads_own (tb_size t) (key_of t) (pbT_hash t)"
    "hash_in (tb_size t) (pbT_hash t)" "key_of t 0 = 0" "succ_of t 0 = None" "1 < tb_size t"
    "1 \<le> tb_lastfree t" "tb_lastfree t \<le> tb_size t"
  using assms by (simp_all add: table_chains_def chains_def)

lemma slot_nonzero:
  assumes "table_chains t" "k \<noteq> 0"
  shows "slot t k = Some i \<longleftrightarrow> i < tb_size t \<and> key_of t i = k"
    and "slot t k = None \<longleftrightarrow> (\<forall>i < tb_size t. key_of t i \<noteq> k)"
proof -
  have "find (\<lambda>i. key_of t i = k) [0..<tb_size t] = Some i \<longleftrightarrow> i \<in> set [0..<tb_size t] \<and> key_of t i = k"
    using keys_distinctD [OF table_chainsD(5) [OF assms(1)]] assms(2)
    by (intro find_eq_Some) auto
  then show "slot t k = Some i \<longleftrightarrow> i < tb_size t \<and> key_of t i = k"
    using assms(2) table_chainsD(10) [OF assms(1)] by (simp add: slot_def)
  show "slot t k = None \<longleftrightarrow> (\<forall>i < tb_size t. key_of t i \<noteq> k)"
    using assms(2) table_chainsD(10) [OF assms(1)] by (auto simp: slot_def find_None_iff)
qed

lemma slot_less:
  assumes "table_ok t" "slot t k = Some i"
  shows "i < tb_size t"
proof (cases "k = 0")
  case True
  with assms(2) show ?thesis by (auto simp: slot_def split: if_splits)
next
  case False
  have "table_chains t" using assms by (auto simp: table_ok_def slot_def)
  with assms(2) False show ?thesis by (simp add: slot_nonzero(1))
qed

section \<open>Hashing\<close>

lemma hash_bound:
  assumes "tb_size t = 2 ^ e" "1 \<le> e" "e < 32"
  shows "hash_in (tb_size t) (pbT_hash t)"
proof -
  have m: "(of_nat (tb_size t) - 1 :: uint64) = mask e" by (simp add: assms(1) mask_eq_exp_minus_1)
  have "unat (take_bit e w :: uint64) < 2 ^ e" for w by (simp add: unsigned_take_bit_eq)
  moreover have "(1 :: nat) < 2 ^ e" by (rule one_less_power) (use assms(2) in auto)
  ultimately show ?thesis
    unfolding hash_in_def pbT_hash_def m by (auto simp: assms(1) Let_def simp flip: take_bit_eq_mask)
qed

lemma hash_zero [simp]: "pbT_hash t 0 = 0"
  by (simp add: pbT_hash_def)

lemma hash_cong: "tb_size t' = tb_size t \<Longrightarrow> pbT_hash t' = pbT_hash t"
  by (simp add: pbT_hash_def fun_eq_iff)

section \<open>Lookup\<close>

lemma entry_get: "i < length (tb_hash t) \<Longrightarrow> entry t i = Some (tb_hash t ! i)"
  by (simp add: entry_def)

lemma follow_succ:
  assumes "i < length (tb_hash t)" "succ_of t i = Some j" "0 \<le> int i + en_next (tb_hash t ! i)" "j < length (tb_hash t)"
  shows "follow t i = Some j"
  using assms by (auto simp: follow_def entry_get succ_of_def Let_def nat_less_iff split: if_splits)

lemma get_from_path:
  assumes "table_ok t" "table_chains t"
  shows "path (succ_of t) i xs \<Longrightarrow> i < tb_size t \<Longrightarrow> length xs \<le> n \<Longrightarrow>
    get_from n t k i = Some (find (\<lambda>j. key_of t j = k) xs)"
proof (induction n arbitrary: i xs)
  case 0
  then show ?case by (cases xs) auto
next
  case (Suc n)
  have len: "tb_size t = length (tb_hash t)" using assms(1) by (simp add: table_ok_def)
  obtain ys where xs: "xs = i # ys" using path_hd [OF Suc.prems(1)] by blast
  show ?case
  proof (cases "succ_of t i")
    case None
    then have "en_next (tb_hash t ! i) = 0" "ys = []"
      using Suc.prems(1) by (auto simp: succ_of_def Let_def xs path_Cons split: if_splits)
    with Suc.prems(2) show ?thesis by (simp add: len entry_get xs key_of_def)
  next
    case (Some j)
    then have d: "en_next (tb_hash t ! i) \<noteq> 0" by (auto simp: succ_of_def Let_def)
    have j: "j < tb_size t" using links_inD [OF table_chainsD(1) [OF assms(2)] Suc.prems(2) Some] by simp
    have "0 \<le> int i + en_next (tb_hash t ! i)" using assms(2) Suc.prems(2) by (simp add: table_chains_def)
    then have f: "follow t i = Some j" using Suc.prems(2) Some j by (intro follow_succ) (simp_all add: len)
    have "path (succ_of t) j ys" using Suc.prems(1) Some by (simp add: xs path_Cons)
    from Suc.IH [OF this j] Suc.prems(2,3) show ?thesis
      by (simp add: len entry_get xs key_of_def d f)
  qed
qed

text \<open>Lookup ends on every well-formed table and finds the entry of the key.\<close>

lemma gettable_slot: "table_ok t \<Longrightarrow> pb_gettable t k = Some (slot t k)"
proof -
  assume ok: "table_ok t"
  show ?thesis
  proof (cases "tb_size t = 0 \<or> k = 0")
    case True
    then show ?thesis by (auto simp: pb_gettable_def slot_def)
  next
    case False
    then have ch: "table_chains t" using ok by (simp add: table_ok_def)
    note c = table_chainsD [OF ch]
    have h: "pbT_hash t k < tb_size t" using c(7) False by (simp add: hash_in_def)
    obtain xs where xs: "path (succ_of t) (pbT_hash t k) xs" using c(3) h unfolding chains_end_def by blast
    have g: "pb_gettable t k = Some (find (\<lambda>j. key_of t j = k) xs)"
      using False get_from_path [OF ok ch xs h path_length [OF c(1) xs h]] by (simp add: pb_gettable_def)
    have "find (\<lambda>j. key_of t j = k) xs = slot t k"
    proof (cases "slot t k")
      case None
      with slot_nonzero(2) [OF ch, of k] find_on_path(2) [OF c(4,5,1,7) _ xs] False show ?thesis by auto
    next
      case (Some i)
      with slot_nonzero(1) [OF ch, of k] find_on_path(1) [OF c(4,5,1,7) _ xs] False show ?thesis by auto
    qed
    with g show ?thesis by simp
  qed
qed

section \<open>Changing entries\<close>

lemma set_entry_run: "i < length (tb_hash t) \<Longrightarrow>
    set_entry i f t = Some (t\<lparr>tb_hash := (tb_hash t)[i := f (tb_hash t ! i)]\<rparr>)"
  by (simp add: set_entry_def entry_get)

definition used :: "'v pb_Table \<Rightarrow> pb_Key set" where
  "used t = key_of t ` {..<tb_size t} - {0}"

lemma used_slot: "table_chains t \<Longrightarrow> k \<in> used t \<longleftrightarrow> k \<noteq> 0 \<and> slot t k \<noteq> None"
  by (cases "k = 0") (auto simp: used_def slot_nonzero(2))

text \<open>
  A table that has never lost a key: the entries \<open>lastfree\<close> has passed hold keys, and an entry without
  a key has no successor.  This is so for the array that a resize builds.
\<close>

definition compact :: "'v pb_Table \<Rightarrow> bool" where
  "compact t \<longleftrightarrow> (\<forall>i < tb_size t. tb_lastfree t \<le> i \<longrightarrow> key_of t i \<noteq> 0) \<and>
     (\<forall>i < tb_size t. key_of t i = 0 \<longrightarrow> en_next (tb_hash t ! i) = 0)"

text \<open>What the insertion of a new key does when the array is large enough.\<close>

definition extends :: "'v::zero pb_Table \<Rightarrow> pb_Key \<Rightarrow> nat \<Rightarrow> 'v pb_Table \<Rightarrow> bool" where
  "extends t k i t' \<longleftrightarrow> table_ok t' \<and> table_chains t' \<and> tb_size t' = tb_size t \<and>
     tb_entry_size t' = tb_entry_size t \<and> tb_has_zero t' = tb_has_zero t \<and>
     slot t' k = Some i \<and> tmap t' = (tmap t)(k \<mapsto> 0) \<and> (compact t \<longrightarrow> compact t')"

text \<open>
  Two tables of the same size, where the entries of the second hold those of the first, moved along
  \<open>r\<close>, and one new key with a cleared value.
\<close>

lemma extendsI:
  fixes t t' :: "'v::zero pb_Table"
  assumes ok: "table_ok t" "table_chains t" and k: "k \<noteq> 0" "slot t k = None"
    and same: "tb_size t' = tb_size t" "tb_entry_size t' = tb_entry_size t" "tb_has_zero t' = tb_has_zero t"
      "length (tb_hash t') = length (tb_hash t)"
    and ch: "table_chains t'"
    and i: "i < tb_size t" "key_of t' i = k" "en_val (tb_hash t' ! i) = 0"
    and r: "\<And>j. j < tb_size t \<Longrightarrow> key_of t j \<noteq> 0 \<Longrightarrow>
      \<exists>j' < tb_size t. key_of t' j' = key_of t j \<and> en_val (tb_hash t' ! j') = en_val (tb_hash t ! j)"
    and keys: "\<And>j. j < tb_size t \<Longrightarrow> key_of t' j = k \<or> key_of t' j \<in> insert 0 (used t)"
    and zero: "en_val (tb_hash t' ! 0) = en_val (tb_hash t ! 0)"
    and compact: "compact t \<Longrightarrow> compact t'"
  shows "extends t k i t'"
proof -
  have ok': "table_ok t'" using ok(1) same ch by (simp add: table_ok_def)
  have sk: "slot t' k = Some i" using slot_nonzero(1) [OF ch k(1)] i same(1) by simp
  have "tmap t' x = ((tmap t)(k \<mapsto> 0)) x" for x
  proof (cases "x = k")
    case True
    then show ?thesis by (simp add: tmap_def sk i(3))
  next
    case xk: False
    show ?thesis
    proof (cases "x = 0")
      case True
      then show ?thesis using k(1) by (simp add: tmap_def slot_def same zero)
    next
      case False
      show ?thesis
      proof (cases "slot t x")
        case None
        then have "x \<notin> used t" using used_slot [OF ok(2)] by simp
        then have "slot t' x = None"
          using slot_nonzero(2) [OF ch False] keys xk False same(1) by force
        with None xk show ?thesis by (simp add: tmap_def)
      next
        case (Some j)
        then have j: "j < tb_size t" "key_of t j = x" using slot_nonzero(1) [OF ok(2) False] by auto
        with r [of j] False obtain j' where "j' < tb_size t" "key_of t' j' = x"
          "en_val (tb_hash t' ! j') = en_val (tb_hash t ! j)" by auto
        moreover from this have "slot t' x = Some j'" using slot_nonzero(1) [OF ch False] same(1) by simp
        ultimately show ?thesis using Some xk by (simp add: tmap_def)
      qed
    qed
  qed
  with ok' ch same sk compact show ?thesis by (auto simp: extends_def)
qed

text \<open>The search for a free entry.\<close>

lemma find_free:
  assumes "lf \<le> length (tb_hash t)" "1 \<le> lf"
  shows "\<exists>f lf'. find_free t lf = Some (f, lf') \<and> 1 \<le> lf' \<and> lf' \<le> lf \<and>
    (\<forall>i. lf' \<le> i \<longrightarrow> i < lf \<longrightarrow> f \<noteq> Some i \<longrightarrow> key_of t i \<noteq> 0 \<or> en_next (tb_hash t ! i) \<noteq> 0) \<and>
    (case f of None \<Rightarrow> lf' = 1
     | Some f \<Rightarrow> f = lf' \<and> lf' < lf \<and> key_of t f = 0 \<and> en_next (tb_hash t ! f) = 0)"
  using assms
proof (induction lf)
  case (Suc lf)
  show ?case
  proof (cases "lf = 0")
    case True
    then show ?thesis by (subst find_free.simps) auto
  next
    case False
    then have e: "entry t lf = Some (tb_hash t ! lf)" using Suc.prems by (simp add: entry_get)
    show ?thesis
    proof (cases "key_of t lf = 0 \<and> en_next (tb_hash t ! lf) = 0")
      case True
      then have "find_free t (Suc lf) = Some (Some lf, lf)"
        using False e by (subst find_free.simps) (simp add: key_of_def)
      with True False show ?thesis by auto
    next
      case occ: False
      then have run: "find_free t (Suc lf) = find_free t lf"
        using False e by (subst find_free.simps) (auto simp: key_of_def)
      obtain f lf' where IH: "find_free t lf = Some (f, lf')" "1 \<le> lf'" "lf' \<le> lf"
        "\<And>i. lf' \<le> i \<Longrightarrow> i < lf \<Longrightarrow> f \<noteq> Some i \<Longrightarrow> key_of t i \<noteq> 0 \<or> en_next (tb_hash t ! i) \<noteq> 0"
        "case f of None \<Rightarrow> lf' = 1
         | Some f \<Rightarrow> f = lf' \<and> lf' < lf \<and> key_of t f = 0 \<and> en_next (tb_hash t ! f) = 0"
        using Suc.IH Suc.prems False by auto
      show ?thesis
        unfolding run IH(1) using IH(2-5) occ by (intro exI conjI) (auto simp: less_Suc_eq split: option.splits)
    qed
  qed
qed simp

text \<open>Finding the entry before another one on a chain.\<close>

lemma find_prev:
  assumes "table_ok t" "table_chains t"
  shows "path (succ_of t) i xs \<Longrightarrow> i < tb_size t \<Longrightarrow> i \<noteq> m \<Longrightarrow> m \<in> set xs \<Longrightarrow> length xs \<le> n \<Longrightarrow>
    \<exists>p. find_prev n t m i = Some p \<and> p < tb_size t \<and> succ_of t p = Some m"
proof (induction n arbitrary: i xs)
  case (Suc n)
  have len: "tb_size t = length (tb_hash t)" using assms(1) by (simp add: table_ok_def)
  obtain ys where xs: "xs = i # ys" using path_hd [OF Suc.prems(1)] by blast
  with Suc.prems obtain j where j: "succ_of t i = Some j" "path (succ_of t) j ys"
    by (auto simp: path_Cons split: option.splits)
  have jn: "j < tb_size t" using links_inD [OF table_chainsD(1) [OF assms(2)] Suc.prems(2) j(1)] by simp
  have "0 \<le> int i + en_next (tb_hash t ! i)" using assms(2) Suc.prems(2) by (simp add: table_chains_def)
  then have f: "follow t i = Some j" using Suc.prems(2) j(1) jn by (intro follow_succ) (simp_all add: len)
  show ?case
  proof (cases "j = m")
    case True
    with f j Suc.prems(2) show ?thesis by simp
  next
    case False
    then show ?thesis using Suc.IH [OF j(2) jn False] Suc.prems by (simp add: xs f)
  qed
qed auto

section \<open>Inserting without a larger array\<close>

definition link_of :: "nat \<Rightarrow> 'v pb_Entry \<Rightarrow> nat option" where
  "link_of i e = (if en_next e = 0 then None else Some (nat (int i + en_next e)))"

lemma succ_link: "succ_of t i = link_of i (tb_hash t ! i)"
  by (simp add: succ_of_def link_of_def Let_def)

lemma key_of_update: "i < length (tb_hash t) \<Longrightarrow>
    key_of (t\<lparr>tb_hash := (tb_hash t)[i := e]\<rparr>) = (key_of t)(i := en_key e)"
  by (auto simp: key_of_def fun_eq_iff nth_list_update)

lemma succ_of_update: "i < length (tb_hash t) \<Longrightarrow>
    succ_of (t\<lparr>tb_hash := (tb_hash t)[i := e]\<rparr>) = (succ_of t)(i := link_of i e)"
  by (auto simp: succ_link fun_eq_iff nth_list_update)

lemma succ_of_lastfree [simp]: "succ_of (t\<lparr>tb_lastfree := l\<rparr>) = succ_of t"
  and key_of_lastfree [simp]: "key_of (t\<lparr>tb_lastfree := l\<rparr>) = key_of t"
  and slot_lastfree [simp]: "slot (t\<lparr>tb_lastfree := l\<rparr>) = slot t"
  and tmap_lastfree [simp]: "tmap (t\<lparr>tb_lastfree := l\<rparr>) = tmap t"
  by (simp_all add: succ_of_def key_of_def slot_def tmap_def fun_eq_iff)

text \<open>The new key goes into its empty main position.\<close>

lemma claim_place:
  assumes ok: "table_ok t" "table_chains t" and k: "k \<noteq> 0" "slot t k = None"
    and m: "key_of t (pbT_hash t k) = 0"
  shows "\<exists>t'. claim_entry (pbT_hash t k) k t = Some (Some (pbT_hash t k), t') \<and> extends t k (pbT_hash t k) t'"
proof -
  define m where "m = pbT_hash t k"
  note c = table_chainsD [OF ok(2)]
  have len: "tb_size t = length (tb_hash t)" using ok(1) by (simp add: table_ok_def)
  have mn: "1 \<le> m" "m < tb_size t" using c(7) k(1) by (simp_all add: hash_in_def m_def)
  define e where "e = tb_hash t ! m"
  define t' where "t' = t\<lparr>tb_hash := (tb_hash t)[m := e\<lparr>en_key := k, en_val := 0\<rparr>]\<rparr>"
  have run: "claim_entry m k t = Some (Some m, t')"
    using mn(2) by (simp add: claim_entry_def set_entry_run len t'_def e_def)
  have K: "key_of t' = (key_of t)(m := k)" unfolding t'_def using mn(2) len by (subst key_of_update) simp_all
  have S: "succ_of t' = succ_of t"
    unfolding t'_def using mn(2) len by (subst succ_of_update) (simp_all add: succ_link link_of_def e_def fun_eq_iff)
  have same: "tb_size t' = tb_size t" "tb_entry_size t' = tb_entry_size t" "tb_has_zero t' = tb_has_zero t"
    "length (tb_hash t') = length (tb_hash t)" "tb_lastfree t' = tb_lastfree t"
    by (simp_all add: t'_def)
  have vals: "en_val (tb_hash t' ! j) = (if j = m then 0 else en_val (tb_hash t ! j))"
    "en_next (tb_hash t' ! j) = en_next (tb_hash t ! j)" if "j < tb_size t" for j
    using that len mn(2) by (auto simp: t'_def nth_list_update e_def)
  have fresh: "\<And>i. i < tb_size t \<Longrightarrow> key_of t i \<noteq> k" using slot_nonzero(2) [OF ok(2) k(1)] k(2) by simp
  have "chains (tb_size t) (tb_lastfree t) (succ_of t) ((key_of t)(m := k)) (pbT_hash t)"
    unfolding m_def using ok(2) k(1) m fresh by (intro chains_place) (simp_all add: table_chains_def)
  then have ch: "table_chains t'"
    using ok(2) vals(2) by (simp add: table_chains_def same K S hash_cong [OF same(1)])
  have "extends t k m t'"
  proof (rule extendsI [OF ok k same(1-4) ch mn(2)])
    show "key_of t' m = k" "en_val (tb_hash t' ! m) = 0" using mn by (simp_all add: K vals)
    show "\<exists>j' < tb_size t. key_of t' j' = key_of t j \<and> en_val (tb_hash t' ! j') = en_val (tb_hash t ! j)"
      if "j < tb_size t" "key_of t j \<noteq> 0" for j
    proof -
      have "j \<noteq> m" using that(2) m by (auto simp: m_def)
      with that show ?thesis by (intro exI [of _ j]) (simp add: K vals)
    qed
    show "key_of t' j = k \<or> key_of t' j \<in> insert 0 (used t)" if "j < tb_size t" for j
      using that by (auto simp: K used_def)
    show "en_val (tb_hash t' ! 0) = en_val (tb_hash t ! 0)" using mn c(10) by (simp add: vals)
    show "compact t'" if "compact t"
      using that k(1) by (auto simp: compact_def same K vals(2))
  qed
  with run show ?thesis by (auto simp: m_def)
qed

text \<open>A free entry \<open>f\<close> as the search leaves it.\<close>

definition free_at :: "'v pb_Table \<Rightarrow> nat \<Rightarrow> bool" where
  "free_at t f \<longleftrightarrow> 1 \<le> f \<and> f < tb_lastfree t \<and> key_of t f = 0 \<and> en_next (tb_hash t ! f) = 0 \<and>
     (\<forall>i. f < i \<longrightarrow> i < tb_lastfree t \<longrightarrow> key_of t i \<noteq> 0 \<or> en_next (tb_hash t ! i) \<noteq> 0)"

lemma insert_second:
  assumes ok: "table_ok t" "table_chains t" and k: "k \<noteq> 0" "slot t k = None"
    and m: "key_of t (pbT_hash t k) \<noteq> 0" "pbT_hash t (key_of t (pbT_hash t k)) = pbT_hash t k"
    and f: "free_at t f"
  shows "\<exists>t'. insert_colliding (t\<lparr>tb_lastfree := f\<rparr>) k (pbT_hash t k) f = Some (Some f, t') \<and> extends t k f t'"
proof -
  define m where "m = pbT_hash t k"
  note c = table_chainsD [OF ok(2)]
  have len: "tb_size t = length (tb_hash t)" using ok(1) by (simp add: table_ok_def)
  have mn: "1 \<le> m" "m < tb_size t" using c(7) k(1) by (simp_all add: hash_in_def m_def)
  have ff: "1 \<le> f" "f < tb_lastfree t" "key_of t f = 0" "succ_of t f = None" "f < tb_size t" "f \<noteq> m"
    using f c(12) m(1) by (auto simp: free_at_def succ_of_def m_def)
  define e where "e = tb_hash t ! m"
  define fe where "fe = tb_hash t ! f"
  have fe0: "en_next fe = 0" using f by (simp add: free_at_def fe_def)
  define d where "d = (if en_next e \<noteq> 0 then int m - int f + en_next e else 0)"
  define H where "H = (tb_hash t)[f := \<lparr>en_next = d, en_key = k, en_val = 0\<rparr>, m := e\<lparr>en_next := int f - int m\<rparr>]"
  define t' where "t' = t\<lparr>tb_lastfree := f, tb_hash := H\<rparr>"
  have fe: "fe\<lparr>en_key := k, en_val := 0\<rparr> = \<lparr>en_next = 0, en_key = k, en_val = 0\<rparr>"
    "fe\<lparr>en_next := x, en_key := k, en_val := 0\<rparr> = \<lparr>en_next = x, en_key = k, en_val = 0\<rparr>" for x
    using fe0 by (auto intro: pb_Entry.equality)
  have run: "insert_colliding (t\<lparr>tb_lastfree := f\<rparr>) k m f = Some (Some f, t')"
  proof -
    have h: "pbT_hash (t\<lparr>tb_lastfree := f\<rparr>) (en_key e) = m"
      using m(2) hash_cong [of "t\<lparr>tb_lastfree := f\<rparr>" t] by (simp add: key_of_def m_def e_def)
    show ?thesis
      using mn(2) ff(5,6) fe0
      by (cases "en_next e = 0")
        (simp_all add: insert_colliding_def entry_get len h C_assert_def set_entry_run claim_entry_def
          nth_list_update t'_def H_def d_def fe_def [symmetric] e_def [symmetric] list_update_swap fe)
  qed
  have nth: "tb_hash t' ! j = (if j = f then \<lparr>en_next = d, en_key = k, en_val = 0\<rparr>
      else if j = m then e\<lparr>en_next := int f - int m\<rparr> else tb_hash t ! j)" for j
    using mn(2) ff(5,6) len by (simp add: t'_def H_def nth_list_update)
  have K: "key_of t' = (key_of t)(f := k)" using ff(6) by (auto simp: key_of_def nth fun_eq_iff e_def)
  have S: "succ_of t' = (succ_of t)(f := succ_of t m, m := Some f)"
  proof
    fix j
    have "d \<noteq> 0" if "en_next e \<noteq> 0"
    proof -
      have "succ_of t m = Some (nat (int m + en_next e))" using that by (simp add: succ_link link_of_def e_def)
      with links_inD [OF c(1) mn(2)] ff(2) have "f < nat (int m + en_next e)" by force
      with that show ?thesis by (simp add: d_def)
    qed
    then show "succ_of t' j = ((succ_of t)(f := succ_of t m, m := Some f)) j"
      using ff(6) by (auto simp: succ_link link_of_def nth d_def e_def)
  qed
  have same: "tb_size t' = tb_size t" "tb_entry_size t' = tb_entry_size t" "tb_has_zero t' = tb_has_zero t"
    "length (tb_hash t') = length (tb_hash t)" "tb_lastfree t' = f"
    by (simp_all add: t'_def H_def)
  have fresh: "\<And>i. i < tb_size t \<Longrightarrow> key_of t i \<noteq> k" using slot_nonzero(2) [OF ok(2) k(1)] k(2) by simp
  have "chains (tb_size t) f ((succ_of t)(f := succ_of t m, m := Some f)) ((key_of t)(f := k)) (pbT_hash t)"
    unfolding m_def using ok(2) k(1) m fresh ff
    by (intro chains_second [where lf = "tb_lastfree t"]) (simp_all add: table_chains_def)
  moreover have "0 \<le> int j + en_next (tb_hash t' ! j)" if "j < tb_size t" for j
  proof -
    have "0 \<le> int m + en_next e" "0 \<le> int j + en_next (tb_hash t ! j)"
      using ok(2) mn(2) that by (simp_all add: table_chains_def e_def)
    then show ?thesis by (auto simp: nth d_def)
  qed
  ultimately have ch: "table_chains t'"
    using ok(2) by (simp add: table_chains_def same K S hash_cong [OF same(1)])
  have "extends t k f t'"
  proof (rule extendsI [OF ok k same(1-4) ch ff(5)])
    show "key_of t' f = k" "en_val (tb_hash t' ! f) = 0" by (simp_all add: K nth)
    show "\<exists>j' < tb_size t. key_of t' j' = key_of t j \<and> en_val (tb_hash t' ! j') = en_val (tb_hash t ! j)"
      if "j < tb_size t" "key_of t j \<noteq> 0" for j
    proof -
      have "j \<noteq> f" using that(2) ff(3) by auto
      with that show ?thesis by (intro exI [of _ j]) (simp add: K nth e_def)
    qed
    show "key_of t' j = k \<or> key_of t' j \<in> insert 0 (used t)" if "j < tb_size t" for j
      using that by (auto simp: K used_def)
    show "en_val (tb_hash t' ! 0) = en_val (tb_hash t ! 0)" using mn ff(1) by (simp add: nth)
    show "compact t'" if "compact t"
      using that k(1) f m(1) unfolding compact_def same K free_at_def nth
      by (auto simp: m_def not_le dest: le_neq_trans)
  qed
  with run show ?thesis by (auto simp: m_def)
qed

lemma insert_move:
  assumes ok: "table_ok t" "table_chains t" and k: "k \<noteq> 0" "slot t k = None"
    and m: "key_of t (pbT_hash t k) \<noteq> 0" "pbT_hash t (key_of t (pbT_hash t k)) \<noteq> pbT_hash t k"
    and f: "free_at t f"
  shows "\<exists>t'. insert_colliding (t\<lparr>tb_lastfree := f\<rparr>) k (pbT_hash t k) f = Some (Some (pbT_hash t k), t') \<and>
    extends t k (pbT_hash t k) t'"
proof -
  define m where "m = pbT_hash t k"
  note c = table_chainsD [OF ok(2)]
  have len: "tb_size t = length (tb_hash t)" using ok(1) by (simp add: table_ok_def)
  have mn: "1 \<le> m" "m < tb_size t" using c(7) k(1) by (simp_all add: hash_in_def m_def)
  have ff: "1 \<le> f" "f < tb_lastfree t" "key_of t f = 0" "succ_of t f = None" "f < tb_size t" "f \<noteq> m"
    using f c(12) m(1) by (auto simp: free_at_def succ_of_def m_def)
  define on where "on = pbT_hash t (key_of t m)"
  have on: "on \<noteq> m" "on < tb_size t" using m c(7) by (simp_all add: on_def m_def hash_in_def)
  define tl where "tl = t\<lparr>tb_lastfree := f\<rparr>"
  have tl: "table_chains tl"
    using ok(2) ff(1,2) chains_lower [of "tb_size t" "tb_lastfree t" "succ_of t" "key_of t" "pbT_hash t" f]
      hash_cong [of tl t] by (simp add: table_chains_def tl_def)
  then have tlok: "table_ok tl" using ok(1) by (simp add: table_ok_def tl_def)
  obtain xs where xs: "path (succ_of t) on xs" "m \<in> set xs"
    using keys_reachedD [OF c(4) mn(2)] m(1) by (auto simp: on_def m_def)
  obtain p where p: "find_prev (tb_size t) tl m on = Some p" "p < tb_size t" "succ_of t p = Some m"
    using find_prev [OF tlok tl, of on xs m "tb_size t"] xs on path_length [OF c(1) xs(1) on(2)]
    by (auto simp: tl_def)
  have pf: "p \<noteq> f" "p \<noteq> m"
  proof -
    show "p \<noteq> f" using p(3) ff(4) by auto
    show "p \<noteq> m"
    proof
      assume "p = m"
      obtain ys where "path (succ_of t) m ys" using c(3) mn(2) unfolding chains_end_def by blast
      moreover from this path_hd [OF this] obtain zs where "ys = m # zs" by blast
      ultimately have "path (succ_of t) m zs" "ys = m # zs" using p(3) \<open>p = m\<close> by (auto simp: path_Cons)
      with path_det [OF \<open>path (succ_of t) m ys\<close>] show False by fastforce
    qed
  qed
  define e where "e = tb_hash t ! m"
  define d where "d = (if en_next e \<noteq> 0 then en_next e + (int m - int f) else 0)"
  define H where "H = (tb_hash t)[p := (tb_hash t ! p)\<lparr>en_next := int f - int p\<rparr>, f := e\<lparr>en_next := d\<rparr>,
    m := e\<lparr>en_next := 0, en_key := k, en_val := 0\<rparr>]"
  define t' where "t' = t\<lparr>tb_lastfree := f, tb_hash := H\<rparr>"
  have run: "insert_colliding tl k m f = Some (Some m, t')"
  proof -
    have h: "pbT_hash tl (en_key e) = on"
      using hash_cong [of tl t] by (simp add: key_of_def on_def e_def tl_def)
    have e0: "en_next e = 0 \<Longrightarrow> e\<lparr>en_next := 0\<rparr> = e" "en_next e = 0 \<Longrightarrow>
        e\<lparr>en_next := 0, en_key := k, en_val := 0\<rparr> = e\<lparr>en_key := k, en_val := 0\<rparr>"
      by (auto intro: pb_Entry.equality)
    have fields: "tb_hash tl = tb_hash t" "tb_size tl = tb_size t" by (simp_all add: tl_def)
    show ?thesis
      using mn(2) ff(5,6) p(1,2) pf on(1)
      by (cases "en_next e = 0")
        (simp_all add: insert_colliding_def entry_get len h set_entry_run claim_entry_def fields
          nth_list_update t'_def H_def d_def e_def [symmetric] e0, simp_all add: tl_def)
  qed
  have nth: "tb_hash t' ! j = (if j = m then e\<lparr>en_next := 0, en_key := k, en_val := 0\<rparr>
      else if j = f then e\<lparr>en_next := d\<rparr>
      else if j = p then (tb_hash t ! p)\<lparr>en_next := int f - int p\<rparr> else tb_hash t ! j)" for j
    using mn(2) ff(5,6) p(2) pf len by (simp add: t'_def H_def nth_list_update)
  have K: "key_of t' = (key_of t)(f := key_of t m, m := k)"
    using ff(6) pf by (auto simp: key_of_def nth fun_eq_iff e_def)
  have S: "succ_of t' = (succ_of t)(p := Some f, f := succ_of t m, m := None)"
  proof
    fix j
    have "d \<noteq> 0" if "en_next e \<noteq> 0"
    proof -
      have "succ_of t m = Some (nat (int m + en_next e))" using that by (simp add: succ_link link_of_def e_def)
      with links_inD [OF c(1) mn(2)] ff(2) have "f < nat (int m + en_next e)" by force
      with that show ?thesis by (simp add: d_def)
    qed
    then show "succ_of t' j = ((succ_of t)(p := Some f, f := succ_of t m, m := None)) j"
      using ff(6) pf by (auto simp: succ_link link_of_def nth d_def e_def add.commute)
  qed
  have same: "tb_size t' = tb_size t" "tb_entry_size t' = tb_entry_size t" "tb_has_zero t' = tb_has_zero t"
    "length (tb_hash t') = length (tb_hash t)" "tb_lastfree t' = f"
    by (simp_all add: t'_def H_def)
  have fresh: "\<And>i. i < tb_size t \<Longrightarrow> key_of t i \<noteq> k" using slot_nonzero(2) [OF ok(2) k(1)] k(2) by simp
  have "chains (tb_size t) f ((succ_of t)(p := Some f, f := succ_of t m, m := None))
      ((key_of t)(f := key_of t m, m := k)) (pbT_hash t)"
    using ok(2) k(1) m fresh ff p(2,3)
    by (intro chains_move [where lf = "tb_lastfree t"]) (simp_all add: table_chains_def m_def)
  moreover have "0 \<le> int j + en_next (tb_hash t' ! j)" if "j < tb_size t" for j
  proof -
    have "0 \<le> int m + en_next e" "0 \<le> int j + en_next (tb_hash t ! j)"
      using ok(2) mn(2) that by (simp_all add: table_chains_def e_def)
    then show ?thesis by (auto simp: nth d_def)
  qed
  ultimately have ch: "table_chains t'"
    using ok(2) by (simp add: table_chains_def same K S hash_cong [OF same(1)])
  have "extends t k m t'"
  proof (rule extendsI [OF ok k same(1-4) ch mn(2)])
    show "key_of t' m = k" "en_val (tb_hash t' ! m) = 0" by (simp_all add: K nth)
    show "\<exists>j' < tb_size t. key_of t' j' = key_of t j \<and> en_val (tb_hash t' ! j') = en_val (tb_hash t ! j)"
      if j: "j < tb_size t" "key_of t j \<noteq> 0" for j
    proof (cases "j = m")
      case True
      with ff show ?thesis by (intro exI [of _ f]) (simp add: K nth e_def)
    next
      case False
      have "j \<noteq> f" using j(2) ff(3) by auto
      with False j show ?thesis by (intro exI [of _ j]) (simp add: K nth)
    qed
    show "key_of t' j = k \<or> key_of t' j \<in> insert 0 (used t)" if "j < tb_size t" for j
      using that mn(2) by (auto simp: K used_def)
    show "en_val (tb_hash t' ! 0) = en_val (tb_hash t ! 0)" using mn ff(1) by (simp add: nth)
    show "compact t'" if cp: "compact t"
    proof -
      have "en_next (tb_hash t ! p) \<noteq> 0" using p(3) by (auto simp: succ_link link_of_def)
      then have "key_of t p \<noteq> 0" using cp p(2) by (auto simp: compact_def)
      then show ?thesis
        using cp k(1) f m(1) unfolding compact_def same K free_at_def nth
        by (auto simp: m_def not_le dest: le_neq_trans)
    qed
  qed
  with run show ?thesis by (auto simp: m_def tl_def)
qed

end
