(* ===== verification/Pb_Table_Correct.thy ===== *)
theory Pb_Table_Correct
  imports Pb_Table_Ops
begin

text \<open>
  Correctness of the hash table of \<open>pb/c/pb.h\<close> with its growth: insertion and lookup behave as a map for
  every key but zero, the mutual recursion of insertion and resizing is two calls deep, and iteration
  visits every key once.  For key zero the theorems say what the code does: after the array has grown,
  key zero is present with the value of the last empty entry of the old array.
\<close>

lemma used_dom: "table_chains t \<Longrightarrow> used t = dom (tmap t) - {0}"
  using used_slot by (fastforce simp: tmap_def)

lemma slot_size: "slot t x = Some i \<Longrightarrow> tb_size t \<noteq> 0"
  by (cases "tb_size t = 0") (simp_all add: slot_def)

lemma keys_map: "tb_size t = length (tb_hash t) \<Longrightarrow> map (key_of t) [0..<tb_size t] = map en_key (tb_hash t)"
  by (rule nth_equalityI) (simp_all add: key_of_def)

lemma used_finite [simp]: "finite (used t)"
  by (simp add: used_def)

lemma extends_used: "extends t k i t' \<Longrightarrow> table_chains t \<Longrightarrow> k \<noteq> 0 \<Longrightarrow> used t' = insert k (used t)"
  by (auto simp: extends_def used_dom)

lemma compact_full:
  assumes "table_ok t" "table_chains t" "compact t"
    and "\<And>i. 1 \<le> i \<Longrightarrow> i < tb_lastfree t \<Longrightarrow> key_of t i \<noteq> 0 \<or> en_next (tb_hash t ! i) \<noteq> 0"
  shows "card (used t) = tb_size t - 1"
proof -
  note c = table_chainsD [OF assms(2)]
  have nz: "key_of t i \<noteq> 0" if "1 \<le> i" "i < tb_size t" for i
    using assms(3) assms(4) [of i] that by (cases "tb_lastfree t \<le> i") (auto simp: compact_def)
  have "{..<tb_size t} = insert 0 {1..<tb_size t}" using c(10) by auto
  then have "used t = key_of t ` {1..<tb_size t}" using nz c(8) by (auto simp: used_def)
  moreover have "inj_on (key_of t) {1..<tb_size t}"
    using keys_distinctD [OF c(5)] nz by (auto simp: inj_on_def)
  ultimately show ?thesis by (simp add: card_image)
qed

section \<open>One insertion\<close>

lemma newkey_insert:
  assumes ok: "table_ok t" "table_chains t" and k: "k \<noteq> 0" "slot t k = None"
  shows "(\<exists>i t'. newkey_fuel (Suc d) al t k = Some (Some i, t') \<and> extends t k i t') \<or>
    (compact t \<longrightarrow> card (used t) = tb_size t - 1) \<and>
    newkey_fuel (Suc d) al t k = do {
      (r, t) \<leftarrow> resize_with (newkey_fuel d al) al (t\<lparr>tb_lastfree := 1\<rparr>) (tb_size t * 2);
      if r \<noteq> 0 then newkey_fuel d al t k else Some (None, t)
    }"
proof -
  note c = table_chainsD [OF ok(2)]
  have len: "tb_size t = length (tb_hash t)" using ok(1) by (simp add: table_ok_def)
  define m where "m = pbT_hash t k"
  have mn: "m < tb_size t" using c(7) k(1) by (simp_all add: hash_in_def m_def)
  have e: "entry t m = Some (tb_hash t ! m)" using mn len by (simp add: entry_get)
  have s0: "tb_size t \<noteq> 0" using c(10) by simp
  show ?thesis
  proof (cases "key_of t m = 0")
    case True
    then have "newkey_fuel (Suc d) al t k = claim_entry m k t"
      using k(1) s0 e by (simp add: m_def [symmetric] Let_def key_of_def)
    with claim_place [OF ok k] True show ?thesis by (auto simp: m_def)
  next
    case False
    obtain f lf where ff: "find_free t (tb_lastfree t) = Some (f, lf)" "1 \<le> lf" "lf \<le> tb_lastfree t"
      "\<And>i. lf \<le> i \<Longrightarrow> i < tb_lastfree t \<Longrightarrow> f \<noteq> Some i \<Longrightarrow> key_of t i \<noteq> 0 \<or> en_next (tb_hash t ! i) \<noteq> 0"
      "case f of None \<Rightarrow> lf = 1
       | Some f \<Rightarrow> f = lf \<and> lf < tb_lastfree t \<and> key_of t f = 0 \<and> en_next (tb_hash t ! f) = 0"
      using find_free [of "tb_lastfree t" t] c(11,12) len by auto
    have run: "newkey_fuel (Suc d) al t k = (case f of
          None \<Rightarrow> do {
            (r, t) \<leftarrow> resize_with (newkey_fuel d al) al (t\<lparr>tb_lastfree := lf\<rparr>) (tb_size t * 2);
            if r \<noteq> 0 then newkey_fuel d al t k else Some (None, t)
          }
        | Some f \<Rightarrow> insert_colliding (t\<lparr>tb_lastfree := lf\<rparr>) k m f)"
      using k(1) s0 e False by (cases f) (simp_all add: m_def [symmetric] Let_def key_of_def ff(1))
    show ?thesis
    proof (cases f)
      case None
      with ff(5) have "lf = 1" by simp
      moreover have "compact t \<longrightarrow> card (used t) = tb_size t - 1"
        using compact_full [OF ok] ff(4) None \<open>lf = 1\<close> by auto
      ultimately show ?thesis using run None by simp
    next
      case (Some f')
      have "free_at t f'" unfolding free_at_def using ff(2,4,5) Some by auto
      with insert_second [OF ok k] insert_move [OF ok k] False Some ff(5) run
      show ?thesis by (cases "pbT_hash t (key_of t m) = m") (auto simp: m_def)
    qed
  qed
qed

text \<open>Key zero has the first entry, which no other key uses.\<close>

lemma update_zero_entry:
  assumes ok: "table_ok t" "table_chains t"
    and t': "t' = t\<lparr>tb_has_zero := True, tb_hash := (tb_hash t)[0 := (tb_hash t ! 0)\<lparr>en_key := 0, en_val := v\<rparr>]\<rparr>"
  shows "table_ok t'" "table_chains t'" "slot t' 0 = Some 0" "tmap t' = (tmap t)(0 \<mapsto> v)"
    "compact t \<Longrightarrow> compact t'" "used t' = used t"
proof -
  note c = table_chainsD [OF ok(2)]
  have len: "tb_size t = length (tb_hash t)" using ok(1) by (simp add: table_ok_def)
  have l0: "0 < length (tb_hash t)" using c(10) unfolding len by linarith
  have same: "tb_size t' = tb_size t" "tb_lastfree t' = tb_lastfree t" by (simp_all add: t')
  have nth: "en_key (tb_hash t' ! j) = en_key (tb_hash t ! j)" "en_next (tb_hash t' ! j) = en_next (tb_hash t ! j)"
    "en_val (tb_hash t' ! j) = (if j = 0 then v else en_val (tb_hash t ! j))" for j
    using c(8) l0 by (auto simp: t' nth_list_update key_of_def)
  have K: "key_of t' = key_of t" "succ_of t' = succ_of t" by (auto simp: key_of_def succ_of_def nth fun_eq_iff)
  show ch: "table_chains t'"
    using ok(2) by (simp add: table_chains_def same K hash_cong [OF same(1)] nth(2))
  then show "table_ok t'" using ok(1) by (simp add: table_ok_def t')
  show s: "slot t' 0 = Some 0" using c(10) by (simp add: slot_def same) (simp add: t')
  have other: "slot t' k = slot t k" if "k \<noteq> 0" for k using that by (simp add: slot_def same K)
  have pos: "0 < i" if "slot t k = Some i" "k \<noteq> 0" for i k
    using slot_nonzero(1) [OF ok(2) that(2), of i] that c(8) by (cases i) auto
  show "tmap t' = (tmap t)(0 \<mapsto> v)"
  proof
    fix x
    show "tmap t' x = ((tmap t)(0 \<mapsto> v)) x"
    proof (cases "x = 0")
      case True
      then show ?thesis by (simp add: tmap_def s nth(3))
    next
      case False
      then show ?thesis using pos [of x] by (cases "slot t x") (simp_all add: tmap_def other nth(3))
    qed
  qed
  show "compact t'" if "compact t" using that by (simp add: compact_def same K nth(2))
  show "used t' = used t" by (simp add: used_def same K)
qed

lemma newkey_zero:
  assumes ok: "table_ok t" "table_chains t"
  shows "\<exists>t'. newkey_fuel (Suc d) al t 0 = Some (Some 0, t') \<and> table_ok t' \<and> table_chains t' \<and>
    tb_size t' = tb_size t \<and> tb_entry_size t' = tb_entry_size t \<and> tb_has_zero t' \<and> slot t' 0 = Some 0 \<and>
    tmap t' = (tmap t)(0 \<mapsto> 0) \<and> (compact t \<longrightarrow> compact t') \<and> used t' = used t"
proof -
  have c: "0 < length (tb_hash t)" using table_chainsD(10) [OF ok(2)] ok(1) by (auto simp: table_ok_def)
  then have s0: "tb_size t \<noteq> 0" using ok(1) by (simp add: table_ok_def)
  define t' where "t' = t\<lparr>tb_has_zero := True, tb_hash := (tb_hash t)[0 := (tb_hash t ! 0)\<lparr>en_key := 0, en_val := 0\<rparr>]\<rparr>"
  have "newkey_fuel (Suc d) al t 0 = Some (Some 0, t')"
    using s0 c by (simp add: claim_entry_def set_entry_run t'_def)
  with update_zero_entry [OF ok t'_def] show ?thesis by (auto simp: t'_def)
qed

text \<open>The client stores a value in the entry it got.\<close>

lemma put_value_slot:
  assumes ok: "table_ok t" and k: "slot t k = Some i"
  shows "\<exists>t'. put_value i v t = Some t' \<and> table_ok t' \<and> (table_chains t \<longrightarrow> table_chains t') \<and>
    tb_size t' = tb_size t \<and> tb_entry_size t' = tb_entry_size t \<and> tb_has_zero t' = tb_has_zero t \<and>
    slot t' = slot t \<and> tmap t' = (tmap t)(k \<mapsto> v) \<and> (compact t \<longrightarrow> compact t') \<and> used t' = used t"
proof -
  have len: "tb_size t = length (tb_hash t)" using ok(1) by (simp add: table_ok_def)
  have i: "i < tb_size t" by (rule slot_less [OF ok k])
  have ch: "table_chains t" using ok i by (simp add: table_ok_def)
  define t' where "t' = t\<lparr>tb_hash := (tb_hash t)[i := (tb_hash t ! i)\<lparr>en_val := v\<rparr>]\<rparr>"
  have run: "put_value i v t = Some t'" using i len by (simp add: put_value_def set_entry_run t'_def)
  have same: "tb_size t' = tb_size t" "tb_lastfree t' = tb_lastfree t" "tb_has_zero t' = tb_has_zero t"
    by (simp_all add: t'_def)
  have nth: "en_key (tb_hash t' ! j) = en_key (tb_hash t ! j)" "en_next (tb_hash t' ! j) = en_next (tb_hash t ! j)"
    "en_val (tb_hash t' ! j) = (if j = i then v else en_val (tb_hash t ! j))" for j
    using i len by (auto simp: t'_def nth_list_update)
  have K: "key_of t' = key_of t" "succ_of t' = succ_of t" by (auto simp: key_of_def succ_of_def nth fun_eq_iff)
  have ch': "table_chains t'" using ch by (simp add: table_chains_def same K hash_cong [OF same(1)] nth(2))
  then have "table_ok t'" using ok(1) by (simp add: table_ok_def t'_def)
  moreover have s: "slot t' = slot t" by (simp add: slot_def same K fun_eq_iff)
  moreover have "tmap t' = (tmap t)(k \<mapsto> v)"
  proof
    fix x
    have "x = k" if "slot t x = Some i"
    proof (cases "x = 0 \<or> k = 0")
      case True
      then show ?thesis
        using that k slot_nonzero(1) [OF ch, of x] slot_nonzero(1) [OF ch, of k] table_chainsD(8) [OF ch]
        by (cases "x = 0"; cases "k = 0") (auto simp: slot_def split: if_splits)
    next
      case False
      then show ?thesis using that k slot_nonzero(1) [OF ch, of x] slot_nonzero(1) [OF ch, of k] by auto
    qed
    then show "tmap t' x = ((tmap t)(k \<mapsto> v)) x"
      using k by (cases "slot t x") (auto simp: tmap_def s nth)
  qed
  moreover have "compact t \<longrightarrow> compact t'" "used t' = used t"
    by (simp_all add: compact_def used_def same K nth(2))
  ultimately show ?thesis using run ch' by (auto simp: t'_def)
qed

declare newkey_fuel.simps(2) [simp del]

section \<open>Resizing\<close>

definition pairs :: "'v pb_Entry list \<Rightarrow> (pb_Key \<times> 'v) list" where
  "pairs es = map (\<lambda>e. (en_key e, en_val e)) es"

lemma pairs_Cons:
  "m ++ map_of (rev (pairs (e # es))) = m(en_key e \<mapsto> en_val e) ++ map_of (rev (pairs es))"
  by (simp add: pairs_def map_of_append)

text \<open>The old entries go into the new array one by one; a later value for the same key wins.\<close>

lemma reinsert:
  fixes nt :: "'v::zero pb_Table"
  assumes "table_ok nt" "table_chains nt" "compact nt"
    and "distinct (filter (\<lambda>k. k \<noteq> 0) (map en_key es))"
    and "set (filter (\<lambda>k. k \<noteq> 0) (map en_key es)) \<inter> used nt = {}"
    and "card (used nt) + length (filter (\<lambda>k. k \<noteq> 0) (map en_key es)) < tb_size nt"
  shows "\<exists>nt'. reinsert (newkey_fuel (Suc d) al) es nt = Some nt' \<and> table_ok nt' \<and> table_chains nt' \<and>
    compact nt' \<and> tb_size nt' = tb_size nt \<and> tb_entry_size nt' = tb_entry_size nt \<and>
    tb_has_zero nt' = (tb_has_zero nt \<or> 0 \<in> set (map en_key es)) \<and>
    tmap nt' = tmap nt ++ map_of (rev (pairs es)) \<and>
    used nt' = used nt \<union> (set (map en_key es) - {0})"
  using assms
proof (induction es arbitrary: nt)
  case (Cons e es)
  define k where "k = en_key e"
  have put: "\<exists>nt2. put_value i (en_val e) nt1 = Some nt2 \<and> reinsert (newkey_fuel (Suc d) al) (e # es) nt =
      reinsert (newkey_fuel (Suc d) al) es nt2 \<and> table_ok nt2 \<and> table_chains nt2 \<and> tb_size nt2 = tb_size nt1 \<and>
      tb_entry_size nt2 = tb_entry_size nt1 \<and> tb_has_zero nt2 = tb_has_zero nt1 \<and> compact nt2 \<and>
      tmap nt2 = (tmap nt1)(k \<mapsto> en_val e) \<and> used nt2 = used nt1"
    if "newkey_fuel (Suc d) al nt k = Some (Some i, nt1)" "table_ok nt1" "table_chains nt1" "compact nt1"
      "slot nt1 k = Some i" for i nt1
    using put_value_slot [OF that(2,5), of "en_val e"] that
    by (auto simp: k_def)
  show ?case
  proof (cases "k = 0")
    case True
    obtain nt1 where n1: "newkey_fuel (Suc d) al nt 0 = Some (Some 0, nt1)" "table_ok nt1" "table_chains nt1"
      "tb_size nt1 = tb_size nt" "tb_entry_size nt1 = tb_entry_size nt" "tb_has_zero nt1" "slot nt1 0 = Some 0"
      "tmap nt1 = (tmap nt)(0 \<mapsto> 0)" "compact nt1" "used nt1 = used nt"
      using newkey_zero [OF Cons.prems(1,2)] Cons.prems(3) by blast
    obtain nt2 where n2: "reinsert (newkey_fuel (Suc d) al) (e # es) nt = reinsert (newkey_fuel (Suc d) al) es nt2"
      "table_ok nt2" "table_chains nt2" "tb_size nt2 = tb_size nt1" "tb_entry_size nt2 = tb_entry_size nt1"
      "tb_has_zero nt2 = tb_has_zero nt1" "compact nt2" "tmap nt2 = (tmap nt1)(k \<mapsto> en_val e)" "used nt2 = used nt1"
      using put [of 0 nt1] n1 True by auto
    have "\<exists>nt'. reinsert (newkey_fuel (Suc d) al) es nt2 = Some nt' \<and> table_ok nt' \<and> table_chains nt' \<and>
      compact nt' \<and> tb_size nt' = tb_size nt2 \<and> tb_entry_size nt' = tb_entry_size nt2 \<and>
      tb_has_zero nt' = (tb_has_zero nt2 \<or> 0 \<in> set (map en_key es)) \<and>
      tmap nt' = tmap nt2 ++ map_of (rev (pairs es)) \<and> used nt' = used nt2 \<union> (set (map en_key es) - {0})"
      using Cons.prems n1 n2 True by (intro Cons.IH) (auto simp: k_def)
    then show ?thesis
      using n1 n2 True unfolding pairs_Cons by (auto simp: k_def)
  next
    case False
    have k: "k \<notin> used nt" using Cons.prems(5) False by (simp add: k_def)
    then have s: "slot nt k = None" using used_slot [OF Cons.prems(2)] False by auto
    have less: "card (used nt) \<noteq> tb_size nt - 1" using Cons.prems(6) False by (simp add: k_def)
    obtain i nt1 where n1: "newkey_fuel (Suc d) al nt k = Some (Some i, nt1)" "extends nt k i nt1"
      using newkey_insert [OF Cons.prems(1,2) False s, of d al] less Cons.prems(3) by auto
    then have x: "table_ok nt1" "table_chains nt1" "compact nt1" "slot nt1 k = Some i" "tb_size nt1 = tb_size nt"
      "tb_entry_size nt1 = tb_entry_size nt" "tb_has_zero nt1 = tb_has_zero nt" "tmap nt1 = (tmap nt)(k \<mapsto> 0)"
      using Cons.prems(3) by (simp_all add: extends_def)
    have u: "used nt1 = insert k (used nt)" by (rule extends_used [OF n1(2) Cons.prems(2) False])
    obtain nt2 where n2: "reinsert (newkey_fuel (Suc d) al) (e # es) nt = reinsert (newkey_fuel (Suc d) al) es nt2"
      "table_ok nt2" "table_chains nt2" "tb_size nt2 = tb_size nt1" "tb_entry_size nt2 = tb_entry_size nt1"
      "tb_has_zero nt2 = tb_has_zero nt1" "compact nt2" "tmap nt2 = (tmap nt1)(k \<mapsto> en_val e)" "used nt2 = used nt1"
      using put [OF n1(1) x(1-4)] by auto
    have "\<exists>nt'. reinsert (newkey_fuel (Suc d) al) es nt2 = Some nt' \<and> table_ok nt' \<and> table_chains nt' \<and>
      compact nt' \<and> tb_size nt' = tb_size nt2 \<and> tb_entry_size nt' = tb_entry_size nt2 \<and>
      tb_has_zero nt' = (tb_has_zero nt2 \<or> 0 \<in> set (map en_key es)) \<and>
      tmap nt' = tmap nt2 ++ map_of (rev (pairs es)) \<and> used nt' = used nt2 \<union> (set (map en_key es) - {0})"
      using Cons.prems n2 x u k False by (intro Cons.IH) (auto simp: k_def)
    then show ?thesis
      using n2 x u False unfolding pairs_Cons by (auto simp: k_def)
  qed
qed (simp add: pairs_def)

lemma power_below: "(2 :: nat) ^ a < 2 ^ b \<Longrightarrow> 2 * 2 ^ a \<le> (2 :: nat) ^ b"
  using power_increasing [of "Suc a" b "2 :: nat"] by (simp add: power_strict_increasing_iff)

lemma grow_table:
  assumes "l \<le> a" "n = 0 \<or> n = 2 ^ b" "2 ^ a \<le> max (2 ^ l) n" "a = l \<or> 2 ^ a < 2 * limit"
  shows "succeeds (grow_table limit n (2 ^ a))
    (\<lambda>m. (\<exists>c. l \<le> c \<and> m = 2 ^ c) \<and> (m = 2 ^ l \<or> m < 2 * limit) \<and>
      (m < n \<and> limit \<le> m \<and> 2 * m \<le> n \<or> m = max (2 ^ l) n))"
  using assms
proof (induction "n - 2 ^ a" arbitrary: a rule: less_induct)
  case less
  have small: "(2 :: nat) ^ l \<le> 2 ^ a" using power_increasing [OF less.prems(1), of "2 :: nat"] by simp
  have double: "2 * 2 ^ a \<le> n" if "2 ^ a < n"
    using that less.prems(2) power_below [of a b] by auto
  show ?case
  proof (cases "2 ^ a < limit \<and> 2 ^ a < n")
    case True
    moreover have "(2 :: nat) ^ a < 2 ^ (a + 1)" by simp
    ultimately have "succeeds (grow_table limit n (2 ^ (a + 1)))
      (\<lambda>m. (\<exists>c. l \<le> c \<and> m = 2 ^ c) \<and> (m = 2 ^ l \<or> m < 2 * limit) \<and>
        (m < n \<and> limit \<le> m \<and> 2 * m \<le> n \<or> m = max (2 ^ l) n))"
      using less.prems double by (intro less.hyps) (auto intro: diff_less_mono2)
    with True show ?thesis by (subst grow_table.simps) (simp add: mult.commute)
  next
    case False
    have "2 ^ a < n \<or> 2 ^ a = max (2 ^ l) n" using less.prems(3) small by linarith
    with False double less.prems(1,4) show ?thesis by (subst grow_table.simps) auto
  qed
qed

text \<open>The array a resize starts from.\<close>

lemma empty_table:
  fixes t :: "'v::zero pb_Table"
  assumes "tb_entry_size t \<noteq> 0" "3 \<le> e" "e < 32"
    and nt: "nt = t\<lparr>tb_size := 2 ^ e, tb_lastfree := 2 ^ e, tb_hash := replicate (2 ^ e) empty_entry\<rparr>"
  shows "table_ok nt" "table_chains nt" "compact nt" "used nt = {}"
    "tmap nt = (if tb_has_zero t then [0 \<mapsto> 0] else Map.empty)"
proof -
  have p: "(8 :: nat) \<le> 2 ^ e" using power_increasing [OF assms(2), of "2 :: nat"] by simp
  then have p1: "1 < (2 :: nat) ^ e" "0 < (2 :: nat) ^ e" by auto
  have same: "tb_size nt = 2 ^ e" "tb_lastfree nt = 2 ^ e" "length (tb_hash nt) = 2 ^ e"
    "tb_has_zero nt = tb_has_zero t" by (simp_all add: nt)
  have nth: "tb_hash nt ! i = empty_entry" if "i < 2 ^ e" for i using that by (simp add: nt)
  have K: "key_of nt i = 0" "succ_of nt i = None" if "i < 2 ^ e" for i
    using nth [OF that] by (simp_all add: key_of_def succ_of_def empty_entry_def)
  have "hash_in (2 ^ e) (pbT_hash nt)" using hash_bound [OF same(1)] assms(2,3) same(1) by simp
  then have "chains (2 ^ e) (2 ^ e) (succ_of nt) (key_of nt) (pbT_hash nt)"
    using p1 K by (auto simp: chains_def links_in_def links_inj_def chains_end_def keys_reached_def
        keys_distinct_def heads_own_def path_Cons intro!: exI [where x = "[i]" for i])
  then show ch: "table_chains nt"
    using assms(2,3) nth unfolding table_chains_def same by (auto simp: empty_entry_def)
  then show "table_ok nt" using assms(1) by (simp add: table_ok_def nt)
  show "compact nt" using nth K by (simp add: compact_def same) (simp add: empty_entry_def)
  show "used nt = {}" using K by (auto simp: used_def same)
  have "slot nt k = (if k = 0 \<and> tb_has_zero t then Some 0 else None)" for k
    using p1 K slot_nonzero(2) [OF ch, of k] same by (cases "k = 0") (auto simp: slot_def same)
  then show "tmap nt = (if tb_has_zero t then [0 \<mapsto> 0] else Map.empty)"
    using nth [OF p1(2)] by (auto simp: tmap_def fun_eq_iff empty_entry_def)
qed

lemma map_of_unique: "(k, v) \<in> set xs \<Longrightarrow> (\<And>v'. (k, v') \<in> set xs \<Longrightarrow> v' = v) \<Longrightarrow> map_of xs k = Some v"
  by (metis domD dom_map_of_conv_image_fst fst_conv image_eqI map_of_SomeD)

lemma pairs_nonzero:
  assumes ok: "table_ok t" "table_chains t" and k: "k \<noteq> 0"
  shows "map_of (rev (pairs (tb_hash t))) k = tmap t k"
proof -
  have len: "tb_size t = length (tb_hash t)" using ok(1) by (simp add: table_ok_def)
  have mem: "(k, v) \<in> set (rev (pairs (tb_hash t))) \<longleftrightarrow> tmap t k = Some v" for v
  proof -
    have "(k, v) \<in> set (rev (pairs (tb_hash t))) \<longleftrightarrow>
        (\<exists>i < tb_size t. key_of t i = k \<and> en_val (tb_hash t ! i) = v)"
      unfolding pairs_def set_rev in_set_conv_nth by (auto simp: len key_of_def)
    also have "\<dots> \<longleftrightarrow> (\<exists>i. slot t k = Some i \<and> en_val (tb_hash t ! i) = v)"
      by (auto simp: slot_nonzero(1) [OF ok(2) k])
    finally show ?thesis by (auto simp: tmap_def)
  qed
  show ?thesis
  proof (cases "tmap t k")
    case None
    then have "map_of (rev (pairs (tb_hash t))) k = None"
      using mem by (metis map_of_SomeD not_Some_eq)
    with None show ?thesis by simp
  next
    case (Some v)
    have "map_of (rev (pairs (tb_hash t))) k = Some v"
      using mem Some by (intro map_of_unique) auto
    with Some show ?thesis by simp
  qed
qed

lemma nonzero_keys:
  assumes ok: "table_ok t"
  shows "set (filter (\<lambda>k. k \<noteq> 0) (map en_key (tb_hash t))) = used t"
    and "distinct (filter (\<lambda>k. k \<noteq> 0) (map en_key (tb_hash t)))"
proof -
  have m: "map en_key (tb_hash t) = map (key_of t) [0..<tb_size t]"
    using ok by (intro keys_map [symmetric]) (simp add: table_ok_def)
  show "set (filter (\<lambda>k. k \<noteq> 0) (map en_key (tb_hash t))) = used t"
    unfolding m used_def by auto
  show "distinct (filter (\<lambda>k. k \<noteq> 0) (map en_key (tb_hash t)))"
  proof (cases "tb_size t = 0")
    case False
    then have ch: "table_chains t" using ok by (simp add: table_ok_def)
    have *: "distinct (filter (\<lambda>k. k \<noteq> 0) (map (key_of t) xs))" if "distinct xs" "set xs \<subseteq> {..<tb_size t}" for xs
      using that
    proof (induction xs)
      case (Cons x xs)
      have "key_of t x \<noteq> key_of t y" if "key_of t x \<noteq> 0" "y \<in> set xs" for y
        using keys_distinctD [OF table_chainsD(5) [OF ch], of x y] Cons.prems that by auto
      with Cons show ?case by auto
    qed simp
    show ?thesis unfolding m by (rule *) auto
  qed (simp add: m)
qed

definition last_empty :: "'v pb_Entry list \<Rightarrow> 'v option" where
  "last_empty es = (case filter (\<lambda>e. en_key e = 0) es of [] \<Rightarrow> None | xs \<Rightarrow> Some (en_val (last xs)))"

lemma pairs_zero: "map_of (rev (pairs es)) 0 = last_empty es"
proof (induction es rule: rev_induct)
  case (snoc e es)
  then show ?case by (auto simp: pairs_def last_empty_def split: list.splits)
qed (simp add: pairs_def last_empty_def)

lemma large_enough:
  assumes "e * max 8 n < 4294967296" "e \<noteq> 0" "PB_MAX_HASHSIZE div e \<le> m" "2 * m \<le> n"
  shows False
proof -
  have "PB_MAX_HASHSIZE < e * (PB_MAX_HASHSIZE div e) + e"
    using dividend_less_div_times [of e PB_MAX_HASHSIZE] assms(2) by (simp add: algebra_simps)
  moreover have "e * (PB_MAX_HASHSIZE div e) \<le> e * m" by (rule mult_le_mono2 [OF assms(3)])
  moreover have "e * (2 * m) \<le> e * max 8 n" "e * 8 \<le> e * max 8 n" using assms(4) by (auto intro!: mult_le_mono2)
  ultimately show False using assms(1) unfolding PB_MAX_HASHSIZE_def by linarith
qed

text \<open>
  A resize gives an array of the size asked for, or none if the block is refused; every key but zero keeps
  its value, and zero gets the value of the last empty entry of the old array, if there was an array.
\<close>

lemma resize:
  fixes t :: "'v::zero pb_Table"
  assumes ok: "table_ok t" and n: "n = 2 * tb_size t" and room: "tb_entry_size t * max 8 n < 4294967296"
  shows "resize_with (newkey_fuel (Suc d) al) al t n = Some (0, t) \<and> \<not> al (tb_entry_size t * max 8 n) \<or>
    (\<exists>nt. resize_with (newkey_fuel (Suc d) al) al t n = Some (max 8 n, nt) \<and> table_ok nt \<and> table_chains nt \<and>
      compact nt \<and> tb_size nt = max 8 n \<and> tb_entry_size nt = tb_entry_size t \<and> used nt = used t \<and>
      (\<forall>k. k \<noteq> 0 \<longrightarrow> tmap nt k = tmap t k) \<and> tmap nt 0 = last_empty (tb_hash t))"
proof -
  have es: "tb_entry_size t \<noteq> 0" and len: "tb_size t = length (tb_hash t)" using ok by (simp_all add: table_ok_def)
  have "n = 0 \<or> (\<exists>b. n = 2 ^ b)"
  proof (cases "tb_size t = 0")
    case False
    then have "table_chains t" using ok by (simp add: table_ok_def)
    then obtain e where "tb_size t = 2 ^ e" unfolding table_chains_def by blast
    then have "n = 2 ^ Suc e" by (simp add: n)
    then show ?thesis by blast
  qed (simp add: n)
  then obtain b where b: "n = 0 \<or> n = 2 ^ b" by blast
  obtain m c where m: "grow_table (PB_MAX_HASHSIZE div tb_entry_size t) n PB_MIN_HASHTABLE_SIZE = Some m"
    "3 \<le> c" "m = 2 ^ c" "m < n \<and> PB_MAX_HASHSIZE div tb_entry_size t \<le> m \<and> 2 * m \<le> n \<or> m = max 8 n"
    using succeedsD [OF grow_table [of 3 3 n b "PB_MAX_HASHSIZE div tb_entry_size t"]] b
    by (auto simp: PB_MIN_HASHTABLE_SIZE_def)
  have mm: "m = max 8 n" using m(4) large_enough [OF room] es by auto
  show ?thesis
  proof (cases "al (tb_entry_size t * m)")
    case False
    then show ?thesis using es m(1) mm by (auto simp: resize_with_def C_assert_def)
  next
    case True
    have "m < 4294967296"
    proof -
      have "1 * m \<le> tb_entry_size t * m" using es by (intro mult_right_mono) auto
      with room mm show ?thesis by simp
    qed
    then have "(2 :: nat) ^ c < 2 ^ 32" by (simp add: m(3))
    then have c: "c < 32" by (rule power_less_imp_less_exp [rotated]) simp
    define nt0 where "nt0 = t\<lparr>tb_size := m, tb_lastfree := m, tb_hash := replicate m empty_entry\<rparr>"
    note e = empty_table [OF es m(2) c nt0_def [unfolded m(3)]]
    note nz = nonzero_keys(1) [OF ok]
    have "distinct (filter (\<lambda>k. k \<noteq> 0) (map en_key (tb_hash t)))" by (rule nonzero_keys(2) [OF ok])
    moreover have "length (filter (\<lambda>k. k \<noteq> 0) (map en_key (tb_hash t))) < m"
    proof -
      have "length (filter (\<lambda>k. k \<noteq> 0) (map en_key (tb_hash t))) \<le> tb_size t"
        using length_filter_le [of "\<lambda>k. k \<noteq> 0" "map en_key (tb_hash t)"] by (simp only: len length_map)
      then show ?thesis using mm n by (auto simp: max_def split: if_splits)
    qed
    moreover have "tb_size nt0 = m" by (simp add: nt0_def)
    ultimately obtain nt where nt: "reinsert (newkey_fuel (Suc d) al) (tb_hash t) nt0 = Some nt"
      "table_ok nt" "table_chains nt" "compact nt" "tb_size nt = m" "tb_entry_size nt = tb_entry_size nt0"
      "tmap nt = tmap nt0 ++ map_of (rev (pairs (tb_hash t)))"
      "used nt = used nt0 \<union> (set (map en_key (tb_hash t)) - {0})"
      using reinsert [OF e(1-3), of "tb_hash t" d al] by (auto simp: e(4))
    have "resize_with (newkey_fuel (Suc d) al) al t n = Some (max 8 n, nt)"
      using es m(1) True room nt(1) mm by (simp add: resize_with_def C_assert_def nt0_def)
    moreover have "used nt = used t" using nt(8) nz by (auto simp: e(4))
    moreover have "tmap nt k = tmap t k" if k: "k \<noteq> 0" for k
    proof (cases "tb_size t = 0")
      case True
      then show ?thesis using k by (simp add: nt(7) e(5) len pairs_def tmap_def slot_def)
    next
      case size: False
      then have "table_chains t" using ok by (simp add: table_ok_def)
      from pairs_nonzero [OF ok this k] k show ?thesis
        by (cases "tmap t k") (simp_all add: nt(7) e(5) map_add_def)
    qed
    moreover have "tmap nt 0 = last_empty (tb_hash t)"
    proof (cases "tb_size t = 0")
      case True
      then have "\<not> tb_has_zero t" using ok table_chainsD(10) by (fastforce simp: table_ok_def)
      with True show ?thesis by (simp add: nt(7) e(5) len pairs_def last_empty_def)
    next
      case False
      then have ch: "table_chains t" using ok by (simp add: table_ok_def)
      have "tb_hash t ! 0 \<in> set (tb_hash t)" using False len by simp
      moreover have "en_key (tb_hash t ! 0) = 0" using table_chainsD(8) [OF ch] by (simp add: key_of_def)
      ultimately have "filter (\<lambda>e. en_key e = 0) (tb_hash t) \<noteq> []" by (auto simp: filter_empty_conv)
      then obtain e xs where "filter (\<lambda>e. en_key e = 0) (tb_hash t) = e # xs"
        by (cases "filter (\<lambda>e. en_key e = 0) (tb_hash t)") simp_all
      then have "last_empty (tb_hash t) = Some (en_val (last (e # xs)))" by (simp add: last_empty_def)
      then show ?thesis by (simp add: nt(7) pairs_zero map_add_def)
    qed
    ultimately show ?thesis using nt mm by (auto simp: nt0_def)
  qed
qed

section \<open>Insertion with growth\<close>

lemma lower_lastfree:
  assumes "table_ok t" "table_chains t"
  shows "table_ok (t\<lparr>tb_lastfree := 1\<rparr>)" "used (t\<lparr>tb_lastfree := 1\<rparr>) = used t"
proof -
  define t1 where "t1 = t\<lparr>tb_lastfree := 1\<rparr>"
  have t1: "tb_size t1 = tb_size t" "tb_hash t1 = tb_hash t" "tb_lastfree t1 = 1" "succ_of t1 = succ_of t"
    "key_of t1 = key_of t" "tb_entry_size t1 = tb_entry_size t" by (simp_all add: t1_def)
  have "chains (tb_size t) (tb_lastfree t) (succ_of t) (key_of t) (pbT_hash t)"
    using assms(2) by (simp add: table_chains_def)
  then have "chains (tb_size t) 1 (succ_of t) (key_of t) (pbT_hash t)"
    using table_chainsD(11) [OF assms(2)] by (rule chains_lower [OF _ order_refl])
  then have "table_chains t1"
    using assms(2) unfolding table_chains_def t1 hash_cong [OF t1(1)] by blast
  then show "table_ok (t\<lparr>tb_lastfree := 1\<rparr>)"
    using assms(1) t1 unfolding table_ok_def t1_def [symmetric] by simp
  show "used (t\<lparr>tb_lastfree := 1\<rparr>) = used t" by (simp add: used_def)
qed

text \<open>
  What the insertion of a new key gives: nothing, because the allocator refuses the larger array, and
  the table keeps its keys; or its entry.
\<close>

definition refused :: "(nat \<Rightarrow> bool) \<Rightarrow> 'v pb_Table \<Rightarrow> bool" where
  "refused al t \<longleftrightarrow> \<not> al (tb_entry_size t * max 8 (2 * tb_size t))"

definition inserted :: "(nat \<Rightarrow> bool) \<Rightarrow> 'v::zero pb_Table \<Rightarrow> pb_Key \<Rightarrow> nat option \<times> 'v pb_Table \<Rightarrow> bool" where
  "inserted al t k = (\<lambda>(r, t'). table_ok t' \<and> tb_entry_size t' = tb_entry_size t \<and>
     (case r of
        None \<Rightarrow> tmap t' = tmap t \<and> refused al t
      | Some i \<Rightarrow> slot t' k = Some i \<and> tmap t' k = Some 0 \<and>
          (\<forall>x. x \<noteq> k \<longrightarrow> x \<noteq> 0 \<longrightarrow> tmap t' x = tmap t x) \<and>
          (tb_size t' = tb_size t \<longrightarrow> tmap t' = (tmap t)(k \<mapsto> 0))))"

lemma newkey_nonempty:
  fixes t :: "'v::zero pb_Table"
  assumes ok: "table_ok t" "table_chains t" and k: "slot t k = None"
    and room: "tb_entry_size t * (2 * tb_size t) < 4294967296"
  shows "succeeds (newkey_fuel (Suc (Suc (Suc d))) al t k) (inserted al t k)"
proof (cases "k = 0")
  case True
  then show ?thesis using newkey_zero [OF ok, of "Suc (Suc d)" al] by (auto simp: succeeds_def inserted_def)
next
  case False
  note c = table_chainsD [OF ok(2)]
  have big: "8 \<le> tb_size t"
  proof -
    obtain e where "3 \<le> e" "tb_size t = 2 ^ e" using ok(2) unfolding table_chains_def by blast
    then show ?thesis using power_increasing [of 3 e "2 :: nat"] by simp
  qed
  then have mx: "max 8 (2 * tb_size t) = 2 * tb_size t" by simp
  from newkey_insert [OF ok False k, of "Suc (Suc d)" al] show ?thesis
  proof (elim disjE exE conjE)
    fix i t'
    assume "newkey_fuel (Suc (Suc (Suc d))) al t k = Some (Some i, t')" "extends t k i t'"
    then show ?thesis by (auto simp: succeeds_def inserted_def extends_def)
  next
    define t1 where "t1 = t\<lparr>tb_lastfree := 1\<rparr>"
    assume run: "newkey_fuel (Suc (Suc (Suc d))) al t k = do {
      (r, t) \<leftarrow> resize_with (newkey_fuel (Suc (Suc d)) al) al (t\<lparr>tb_lastfree := 1\<rparr>) (tb_size t * 2);
      if r \<noteq> 0 then newkey_fuel (Suc (Suc d)) al t k else Some (None, t)
    }"
    have t1: "table_ok t1" "used t1 = used t" "tmap t1 = tmap t" "tb_size t1 = tb_size t"
      "tb_entry_size t1 = tb_entry_size t"
      using lower_lastfree [OF ok] by (simp_all add: t1_def)
    have "resize_with (newkey_fuel (Suc (Suc d)) al) al t1 (2 * tb_size t) = Some (0, t1) \<and> refused al t \<or>
    (\<exists>nt. resize_with (newkey_fuel (Suc (Suc d)) al) al t1 (2 * tb_size t) = Some (max 8 (2 * tb_size t), nt) \<and>
      table_ok nt \<and> table_chains nt \<and>
      compact nt \<and> tb_size nt = max 8 (2 * tb_size t) \<and> tb_entry_size nt = tb_entry_size t1 \<and> used nt = used t1 \<and>
      (\<forall>k. k \<noteq> 0 \<longrightarrow> tmap nt k = tmap t1 k) \<and> tmap nt 0 = last_empty (tb_hash t1))"
      using resize [OF t1(1) t1(4) [symmetric, THEN arg_cong [of _ _ "\<lambda>n. 2 * n"]], of "Suc d" al] room
      by (simp add: t1 mx refused_def)
    then show ?thesis
    proof (elim disjE exE conjE)
      assume "resize_with (newkey_fuel (Suc (Suc d)) al) al t1 (2 * tb_size t) = Some (0, t1)" "refused al t"
      then show ?thesis using t1 unfolding run [folded t1_def] by (simp add: inserted_def mult.commute)
    next
      fix nt
      assume r: "resize_with (newkey_fuel (Suc (Suc d)) al) al t1 (2 * tb_size t) = Some (max 8 (2 * tb_size t), nt)"
        and nt: "table_ok nt" "table_chains nt" "compact nt" "tb_size nt = max 8 (2 * tb_size t)"
          "tb_entry_size nt = tb_entry_size t1" "used nt = used t1"
          "\<forall>k. k \<noteq> 0 \<longrightarrow> tmap nt k = tmap t1 k"
      have s: "slot nt k = None"
        using nt(6) t1(2) used_slot [OF nt(2), of k] used_slot [OF ok(2), of k] k False by auto
      have "card (used t) \<le> tb_size t"
        using card_mono [of "key_of t ` {..<tb_size t}" "used t"] card_image_le [of "{..<tb_size t}" "key_of t"]
        by (force simp: used_def)
      then have "card (used nt) \<noteq> tb_size nt - 1" using nt(4,6) t1(2) mx big by simp
      then obtain i t' where "newkey_fuel (Suc (Suc d)) al nt k = Some (Some i, t')" "extends nt k i t'"
        using newkey_insert [OF nt(1,2) False s, of "Suc d" al] nt(3) by auto
      then show ?thesis
        using r nt(5,7) t1 mx big nt(4) unfolding run [folded t1_def]
        by (simp add: mult.commute inserted_def extends_def)
    qed
  qed
qed

text \<open>In an array that never lost an entry the insertion of one more key below the size cannot fail.\<close>

lemma newkey_compact:
  fixes t :: "'v::zero pb_Table"
  assumes ok: "table_ok t" "table_chains t" "compact t" and k: "slot t k = None"
    and card: "card (used t) < tb_size t - 1"
  shows "\<exists>i t'. newkey_fuel (Suc d) al t k = Some (Some i, t') \<and> table_ok t' \<and> tb_size t' = tb_size t \<and>
    tb_entry_size t' = tb_entry_size t \<and> slot t' k = Some i \<and> tmap t' = (tmap t)(k \<mapsto> 0)"
proof (cases "k = 0")
  case True
  then show ?thesis using newkey_zero [OF ok(1,2), of d al] by auto
next
  case False
  from newkey_insert [OF ok(1,2) False k, of d al] ok(3) card show ?thesis by (auto simp: extends_def)
qed

lemma newkey_first:
  fixes t :: "'v::zero pb_Table"
  assumes ok: "table_ok t" and size: "tb_size t = 0" and room: "tb_entry_size t * 8 < 4294967296"
  shows "succeeds (newkey_fuel (Suc (Suc (Suc d))) al t k) (inserted al t k)"
proof -
  have hz: "\<not> tb_has_zero t" "tb_hash t = []"
    using ok size table_chainsD(10) by (fastforce simp: table_ok_def)+
  have e: "tmap t = Map.empty" using size by (simp add: tmap_def slot_def fun_eq_iff)
  have "resize_with (newkey_fuel (Suc (Suc d)) al) al t (tb_size t * 2) = Some (0, t) \<and> refused al t \<or>
    (\<exists>nt. resize_with (newkey_fuel (Suc (Suc d)) al) al t (tb_size t * 2) = Some (max 8 (tb_size t * 2), nt) \<and>
      table_ok nt \<and> table_chains nt \<and>
      compact nt \<and> tb_size nt = max 8 (tb_size t * 2) \<and> tb_entry_size nt = tb_entry_size t \<and> used nt = used t \<and>
      (\<forall>k. k \<noteq> 0 \<longrightarrow> tmap nt k = tmap t k) \<and> tmap nt 0 = last_empty (tb_hash t))"
    using resize [OF ok refl, of "Suc d" al] room size by (simp add: refused_def)
  then show ?thesis
  proof (elim disjE exE conjE)
    assume "resize_with (newkey_fuel (Suc (Suc d)) al) al t (tb_size t * 2) = Some (0, t)" "refused al t"
    then show ?thesis
      using ok size by (subst newkey_fuel.simps) (simp add: inserted_def)
  next
    fix nt
    assume r: "resize_with (newkey_fuel (Suc (Suc d)) al) al t (tb_size t * 2) = Some (max 8 (tb_size t * 2), nt)"
      and nt: "table_ok nt" "table_chains nt" "compact nt" "tb_size nt = max 8 (tb_size t * 2)" "used nt = used t"
        "tb_entry_size nt = tb_entry_size t" "\<forall>k. k \<noteq> 0 \<longrightarrow> tmap nt k = tmap t k"
        "tmap nt 0 = last_empty (tb_hash t)"
    have empty: "tmap nt x = None" for x
      using nt(7,8) by (cases "x = 0") (simp_all add: e hz last_empty_def)
    then have s: "slot nt x = None" for x by (metis tmap_def option.map_disc_iff)
    have "used t = {}" using size by (simp add: used_def)
    then have u: "card (used nt) < tb_size nt - 1" using nt(4,5) size by simp
    have "newkey_fuel (Suc (Suc (Suc d))) al t k = newkey_fuel (Suc (Suc (Suc d))) al nt k"
      using size nt(4) r by (simp add: newkey_fuel.simps(2) [of _ al t] newkey_fuel.simps(2) [of _ al nt])
    with newkey_compact [OF nt(1-3) s [of k] u, of "Suc (Suc d)" al] show ?thesis
      using nt(4,6) size by (auto simp: inserted_def e empty)
  qed
qed

lemma newkey_inserted:
  fixes t :: "'v::zero pb_Table"
  assumes "table_ok t" "slot t k = None" "tb_entry_size t * max 16 (2 * tb_size t) < 4294967296"
  shows "succeeds (pbT_newkey al t k) (inserted al t k)"
proof -
  have three: "(3 :: nat) = Suc (Suc (Suc 0))" by simp
  have le: "tb_entry_size t * n < 4294967296" if "n \<le> max 16 (2 * tb_size t)" for n
    using mult_le_mono2 [OF that, of "tb_entry_size t"] assms(3) by (rule le_less_trans)
  show ?thesis
  proof (cases "tb_size t = 0")
    case True
    then show ?thesis
      unfolding pbT_newkey_def three using assms(1) le [of 8] by (intro newkey_first) auto
  next
    case False
    then show ?thesis
      unfolding pbT_newkey_def three using assms(1,2) le [of "2 * tb_size t"]
      by (intro newkey_nonempty) (auto simp: table_ok_def)
  qed
qed

section \<open>Deletion and iteration\<close>

lemma clear_entry_slot:
  fixes t :: "'v::zero pb_Table"
  assumes ok: "table_ok t" and k: "slot t k = Some i" "k \<noteq> 0"
  shows "\<exists>t'. clear_entry i t = Some t' \<and> table_ok t' \<and> tb_size t' = tb_size t \<and>
    tb_entry_size t' = tb_entry_size t \<and> tmap t' = (tmap t)(k := None)"
proof -
  have len: "tb_size t = length (tb_hash t)" using ok(1) by (simp add: table_ok_def)
  have i: "i < tb_size t" by (rule slot_less [OF ok k(1)])
  have ch: "table_chains t" using ok i by (simp add: table_ok_def)
  note c = table_chainsD [OF ch]
  have ki: "key_of t i = k" using slot_nonzero(1) [OF ch k(2), of i] k(1) by simp
  then have i0: "i \<noteq> 0" using c(8) k(2) by metis
  define t' where "t' = t\<lparr>tb_hash := (tb_hash t)[i := (tb_hash t ! i)\<lparr>en_key := 0, en_val := 0\<rparr>]\<rparr>"
  have run: "clear_entry i t = Some t'" using i len by (simp add: clear_entry_def set_entry_run t'_def)
  have same: "tb_size t' = tb_size t" "tb_lastfree t' = tb_lastfree t" "tb_has_zero t' = tb_has_zero t"
    by (simp_all add: t'_def)
  have nth: "en_next (tb_hash t' ! j) = en_next (tb_hash t ! j)"
    "en_val (tb_hash t' ! j) = (if j = i then 0 else en_val (tb_hash t ! j))" for j
    using i len by (auto simp: t'_def nth_list_update)
  have K: "key_of t' = (key_of t)(i := 0)" "succ_of t' = succ_of t"
    using i len by (auto simp: key_of_def succ_of_def nth fun_eq_iff t'_def nth_list_update)
  have "chains (tb_size t) (tb_lastfree t) (succ_of t) ((key_of t)(i := 0)) (pbT_hash t)"
    using ch by (intro chains_clear) (simp add: table_chains_def)
  then have ch': "table_chains t'"
    using ch by (simp add: table_chains_def same K hash_cong [OF same(1)] nth(1))
  then have ok': "table_ok t'" using ok(1) by (simp add: table_ok_def t'_def)
  have "tmap t' x = ((tmap t)(k := None)) x" for x
  proof (cases "x = 0")
    case True
    then show ?thesis using k(2) i0 by (simp add: tmap_def slot_def same nth)
  next
    case x: False
    show ?thesis
    proof (cases "x = k")
      case True
      have "slot t' k = None"
        using slot_nonzero(2) [OF ch' k(2)] keys_distinctD [OF c(5) _ i, of _] ki k(2) by (auto simp: K same)
      with True show ?thesis by (simp add: tmap_def)
    next
      case False
      have "slot t' x = Some j \<longleftrightarrow> slot t x = Some j" for j
        using slot_nonzero(1) [OF ch' x] slot_nonzero(1) [OF ch x] x False ki by (auto simp: K same)
      then have s: "slot t' x = slot t x" by (metis option.exhaust)
      have "j \<noteq> i" if "slot t x = Some j" for j
        using slot_nonzero(1) [OF ch x] that False ki by auto
      with s False show ?thesis by (cases "slot t x") (simp_all add: tmap_def nth)
    qed
  qed
  with run ok' same show ?thesis by (auto simp: t'_def)
qed

text \<open>Iterating from null until null is returned again; \<open>n\<close> bounds the number of steps.\<close>

primrec iterate :: "nat \<Rightarrow> 'v pb_Table \<Rightarrow> nat option \<Rightarrow> nat list option" where
  "iterate 0 t p = None"
| "iterate (Suc n) t p = do {
     q \<leftarrow> pb_nextentry t p;
     case q of None \<Rightarrow> Some [] | Some i \<Rightarrow> do { is \<leftarrow> iterate n t (Some i); Some (i # is) }
   }"

lemma next_used: "tb_size t = length (tb_hash t) \<Longrightarrow>
    next_used t i = Some (find (\<lambda>j. key_of t j \<noteq> 0) [i..<tb_size t])"
proof (induction t i rule: next_used.induct)
  case (1 t i)
  show ?case
  proof (cases "i < tb_size t")
    case True
    then have "[i..<tb_size t] = i # [Suc i..<tb_size t]" by (simp add: upt_conv_Cons)
    with True 1 show ?thesis by (subst next_used.simps) (auto simp: entry_get key_of_def)
  qed (subst next_used.simps, simp)
qed

lemma iterate_from:
  assumes "tb_size t = length (tb_hash t)"
  shows "tb_size t \<le> i + n \<Longrightarrow>
    iterate (Suc n) t (Some i) = Some (filter (\<lambda>j. key_of t j \<noteq> 0) [Suc i..<tb_size t])"
proof (induction n arbitrary: i)
  case 0
  then show ?case by (simp add: pb_nextentry_def next_used [OF assms])
next
  case (Suc n)
  show ?case
  proof (cases "find (\<lambda>j. key_of t j \<noteq> 0) [Suc i..<tb_size t]")
    case None
    then have "filter (\<lambda>j. key_of t j \<noteq> 0) [Suc i..<tb_size t] = []"
      by (auto simp: find_None_iff filter_empty_conv)
    with None show ?thesis by (simp add: pb_nextentry_def next_used [OF assms])
  next
    case (Some j)
    then obtain l where l: "l < length [Suc i..<tb_size t]" "[Suc i..<tb_size t] ! l = j"
      "key_of t j \<noteq> 0" "\<And>m. m < l \<Longrightarrow> key_of t ([Suc i..<tb_size t] ! m) = 0"
      unfolding find_Some_iff by (metis nth_mem)
    then have j: "j = Suc i + l" "j < tb_size t" by auto
    have "[Suc i..<tb_size t] = [Suc i..<j] @ j # [Suc j..<tb_size t]"
      using j upt_add_eq_append [of "Suc i" j "tb_size t - j"] upt_conv_Cons [OF j(2)] by simp
    moreover have "filter (\<lambda>j. key_of t j \<noteq> 0) [Suc i..<j] = []"
    proof -
      have "key_of t x = 0" if "x \<in> set [Suc i..<j]" for x
        using that l(4) [of "x - Suc i"] j by auto
      then show ?thesis by (simp add: filter_empty_conv)
    qed
    ultimately have "filter (\<lambda>j. key_of t j \<noteq> 0) [Suc i..<tb_size t] =
        j # filter (\<lambda>j. key_of t j \<noteq> 0) [Suc j..<tb_size t]"
      using l(3) by simp
    moreover have "iterate (Suc n) t (Some j) = Some (filter (\<lambda>j. key_of t j \<noteq> 0) [Suc j..<tb_size t])"
      using Suc.prems j by (intro Suc.IH) simp
    moreover have "pb_nextentry t (Some i) = Some (Some j)"
      using Some by (simp add: pb_nextentry_def next_used [OF assms])
    ultimately show ?thesis unfolding iterate.simps(2) [of "Suc n" t "Some i"] by (simp del: iterate.simps)
  qed
qed

section \<open>Properties\<close>

text \<open>
  C17. Asking the table for the entry of a key ends and leaves a well-formed table.  It returns an entry
  that lookup finds from then on, with the value the key had or a cleared one.  It returns nothing only
  when the key was not present and the allocator refuses the block of the larger array, and then every
  key keeps its value.  The keys asked for apart, every key but zero keeps its value whether entries were
  moved or the array was replaced, and key zero keeps it as long as the array is not replaced.
\<close>
theorem settable_updates_map:
  fixes t :: "'v::zero pb_Table"
  assumes "table_ok t" "tb_entry_size t * max 16 (2 * tb_size t) < 4294967296"
  shows "\<exists>r t'. pb_settable al t k = Some (r, t') \<and> table_ok t' \<and>
    (\<forall>x. x \<noteq> k \<longrightarrow> x \<noteq> 0 \<or> tb_size t' = tb_size t \<longrightarrow> tmap t' x = tmap t x) \<and>
    (case r of
       None \<Rightarrow> tmap t k = None \<and> tmap t' = tmap t \<and> \<not> al (tb_entry_size t * max 8 (2 * tb_size t))
     | Some i \<Rightarrow> pb_gettable t' k = Some (Some i) \<and>
         tmap t' k = Some (case tmap t k of None \<Rightarrow> 0 | Some v \<Rightarrow> v))"
proof (cases "slot t k")
  case (Some i)
  with assms(1) show ?thesis by (simp add: pb_settable_def gettable_slot tmap_def)
next
  case None
  obtain r t' where n: "pbT_newkey al t k = Some (r, t')" "inserted al t k (r, t')"
    using succeedsD [OF newkey_inserted [OF assms(1) None assms(2), of al]] by auto
  have "tmap t k = None" by (simp add: tmap_def None)
  with None n show ?thesis
    using assms(1) by (cases r) (auto simp: pb_settable_def gettable_slot inserted_def refused_def)
qed

text \<open>
  C40. After the array has been replaced by one of twice the size, every key but zero has the value it
  had.  Key zero, if there was an array before, is present, even if it was never inserted, with the value of the last entry of the old
  array that held no key: its own value is kept only if that entry is its own, the first of the array.
  The code inserts the empty entries of the old array too.
\<close>
theorem resize_keeps_all_but_zero:
  fixes t :: "'v::zero pb_Table"
  assumes "table_ok t" "tb_entry_size t * max 8 (2 * tb_size t) < 4294967296"
    and "pb_resizetable al t (2 * tb_size t) = Some (n, t')" "n \<noteq> 0"
  shows "(\<forall>k. k \<noteq> 0 \<longrightarrow> tmap t' k = tmap t k) \<and> tmap t' 0 = last_empty (tb_hash t)"
proof -
  have three: "(3 :: nat) = Suc 2" by simp
  from resize [OF assms(1) refl assms(2), of 2 al] assms(3,4)
  show ?thesis
    unfolding pb_resizetable_def pbT_newkey_def three by auto
qed

text \<open>
  Clearing the entry of a key other than zero removes that key and no other.
\<close>
theorem clear_entry_removes_key:
  fixes t :: "'v::zero pb_Table"
  assumes "table_ok t" "pb_gettable t k = Some (Some i)" "k \<noteq> 0"
  shows "\<exists>t'. clear_entry i t = Some t' \<and> table_ok t' \<and> tmap t' = (tmap t)(k := None)"
  using clear_entry_slot [OF assms(1) _ assms(3)] assms(1,2) by (auto simp: gettable_slot)

text \<open>
  C39. Iterating with \<open>pb_nextentry\<close> from null ends, and visits the entry of every key present, that of
  key zero included, exactly once and no other entry.
\<close>
theorem iteration_visits_each_key:
  fixes t :: "'v::zero pb_Table"
  assumes "table_ok t"
  shows "\<exists>is. iterate (tb_size t + 2) t None = Some is \<and> distinct is \<and> set is = {i. \<exists>k. slot t k = Some i}"
proof (cases "tb_size t = 0")
  case True
  then have "\<not> tb_has_zero t" using assms table_chainsD(10) by (fastforce simp: table_ok_def)
  moreover have "slot t k = None" for k using True by (simp add: slot_def)
  moreover have "next_used t 1 = Some None" using True by (subst next_used.simps) simp
  ultimately show ?thesis by (simp add: pb_nextentry_def)
next
  case False
  then have ch: "table_chains t" using assms by (simp add: table_ok_def)
  have len: "tb_size t = length (tb_hash t)" using assms by (simp add: table_ok_def)
  note c = table_chainsD [OF ch]
  define us where "us = filter (\<lambda>j. key_of t j \<noteq> 0) [1..<tb_size t]"
  have all: "filter (\<lambda>j. key_of t j \<noteq> 0) [0..<tb_size t] = us"
    using c(8,10) by (simp add: us_def upt_conv_Cons)
  have from0: "iterate (Suc n) t (Some 0) = Some us" if "tb_size t \<le> n" for n
    using iterate_from [OF len, of 0 n] that by (simp add: us_def del: iterate.simps)
  have run: "iterate (tb_size t + 2) t None = Some ((if tb_has_zero t then [0] else []) @ us)"
  proof (cases "tb_has_zero t")
    case True
    then show ?thesis
      using from0 [of "tb_size t"] by (simp add: pb_nextentry_def)
  next
    case hz: False
    then have same: "pb_nextentry t None = pb_nextentry t (Some 0)" by (simp add: pb_nextentry_def)
    have "iterate (Suc (Suc (tb_size t))) t None = iterate (Suc (Suc (tb_size t))) t (Some 0)"
      unfolding iterate.simps(2) [of "Suc (tb_size t)"] same ..
    also have "\<dots> = Some us" by (rule from0) simp
    finally show ?thesis using hz by (simp del: iterate.simps)
  qed
  have nz: "slot t k = Some i \<longleftrightarrow> i < tb_size t \<and> key_of t i = k" if "k \<noteq> 0" for k i
    by (rule slot_nonzero(1) [OF ch that])
  have z: "slot t 0 = (if tb_has_zero t then Some 0 else None)" using c(10) by (simp add: slot_def)
  have "set ((if tb_has_zero t then [0] else []) @ us) = {i. \<exists>k. slot t k = Some i}"
  proof (intro equalityI subsetI)
    fix i
    assume "i \<in> set ((if tb_has_zero t then [0] else []) @ us)"
    then consider "tb_has_zero t" "i = 0" | "i < tb_size t" "key_of t i \<noteq> 0"
      unfolding us_def by (auto split: if_splits)
    then show "i \<in> {i. \<exists>k. slot t k = Some i}" using z nz by cases auto
  next
    fix i
    assume "i \<in> {i. \<exists>k. slot t k = Some i}"
    then obtain k where k: "slot t k = Some i" by auto
    show "i \<in> set ((if tb_has_zero t then [0] else []) @ us)"
    proof (cases "k = 0")
      case True
      with k z show ?thesis by (simp split: if_splits)
    next
      case False
      with k nz have "i < tb_size t" "key_of t i \<noteq> 0" by auto
      then have "i \<in> set us" unfolding all [symmetric] by simp
      then show ?thesis by simp
    qed
  qed
  moreover have "distinct ((if tb_has_zero t then [0] else []) @ us)" by (simp add: us_def)
  ultimately show ?thesis using run by blast
qed

end
