(* ===== verification/Pb_Examples.thy ===== *)
theory Pb_Examples
  imports Pb_Message Pb_Table_Correct
begin

unbundle bit_operations_syntax

text \<open>
  The properties of the protobuf theories at concrete inputs, and the behaviours of the code that
  \<open>PROJECT.json\<close> lists as findings.
\<close>

section \<open>Wire format\<close>

lemma varint_readers_agree_witness:
  "pb_readvarint64 [0x96, 0x01, 0x07] \<lparr>sl_p = 0, sl_start = 0, sl_end = 3\<rparr> =
     Some (2, Some 150, \<lparr>sl_p = 2, sl_start = 0, sl_end = 3\<rparr>)"
proof -
  have "slice_ok [0x96, 0x01, 0x07] \<lparr>sl_p = 0, sl_start = 0, sl_end = 3\<rparr>" by (simp add: slice_ok_def)
  from varint_readers_agree [OF this]
  have "pb_readvarint64 [0x96, 0x01, 0x07] \<lparr>sl_p = 0, sl_start = 0, sl_end = 3\<rparr> =
    Some (varint_read [0x96, 0x01, 0x07] \<lparr>sl_p = 0, sl_start = 0, sl_end = 3\<rparr>)" ..
  also have "varint_read [0x96, 0x01, 0x07] \<lparr>sl_p = 0, sl_start = 0, sl_end = 3\<rparr> =
     (2, Some (150 :: uint64), \<lparr>sl_p = 2, sl_start = 0, sl_end = 3\<rparr>)" by code_simp
  finally show ?thesis .
qed

lemma skipvalue_stays_inside_witness:
  "\<exists>n s'. pb_skipvalue [0x0b, 0x0c] \<lparr>sl_p = 0, sl_start = 0, sl_end = 2\<rparr> 0x0b = Some (n, s') \<and>
     s' = advance n \<lparr>sl_p = 0, sl_start = 0, sl_end = 2\<rparr> \<and> sl_p s' \<le> sl_end s'"
  by (rule skipvalue_stays_inside) (simp add: slice_ok_def)

definition demo_group :: wire_value where
  "demo_group = VGroup [(1, VVarint 300), (2, VBytes [7, 8]), (3, VGroup [(4, V32 9)])]"

lemma demo_group_bytes: "enc_payload 5 demo_group =
    [8, 172, 2, 18, 2, 7, 8, 27, 37, 9, 0, 0, 0, 28, 44]"
  by code_simp

lemma skipvalue_exact_witness:
  "pb_skipvalue [8, 172, 2, 18, 2, 7, 8, 27, 37, 9, 0, 0, 0, 28, 44, 99]
     \<lparr>sl_p = 0, sl_start = 0, sl_end = 16\<rparr> (pb_pair 5 PB_TGSTART) =
   Some (15, \<lparr>sl_p = 15, sl_start = 0, sl_end = 16\<rparr>)"
proof -
  define M :: mem where "M = [8, 172, 2, 18, 2, 7, 8, 27, 37, 9, 0, 0, 0, 28, 44, 99]"
  define s where "s = \<lparr>sl_p = 0, sl_start = 0, sl_end = 16\<rparr>"
  have ok: "slice_ok M s" by (simp add: slice_ok_def s_def M_def)
  have bytes: "slice_bytes M s = enc_payload 5 demo_group @ [99]"
    unfolding demo_group_bytes by (simp add: slice_bytes_def M_def s_def pb_len_def)
  have valid: "valid_value 5 demo_group" by (simp add: demo_group_def)
  have "vtype demo_group = PB_TGSTART" by (simp add: demo_group_def)
  with skipvalue_exact [OF ok bytes valid] show ?thesis
    unfolding demo_group_bytes by (simp add: M_def s_def advance_def)
qed

lemma bytes_roundtrip_witness:
  "\<exists>b' data s'. pb_addbytes (\<lambda>_. None) pb_initbuffer [1, 2, 3] = Some (4, b') \<and>
     pb_readbytes (pb_result b') \<lparr>sl_p = 0, sl_start = 0, sl_end = size_of b'\<rparr> = Some (4, Some data, s') \<and>
     slice_bytes (pb_result b') data = [1, 2, 3]"
proof -
  define b' where "b' = \<lparr>bf_size = 4, bf_heap = False, bf_capacity = 0,
    bf_data = [3, 1, 2, 3, 0, 0, 0, 0, 0, 0, 0, 0, 0, 0, 0, 0]\<rparr>"
  have run: "pb_addbytes (\<lambda>_. None) pb_initbuffer [1, 2, 3] = Some (4, b')"
    unfolding b'_def by code_simp
  have size: "size_of pb_initbuffer = 0" by (simp add: pb_initbuffer_def)
  have "\<exists>data s'. pb_readbytes (pb_result b') \<lparr>sl_p = size_of pb_initbuffer, sl_start = 0, sl_end = size_of b'\<rparr> =
    Some (4, Some data, s') \<and> slice_bytes (pb_result b') data = [1, 2, 3] \<and> sl_p s' = size_of b'"
    by (rule bytes_roundtrip [OF _ _ run]) (simp_all add: size)
  with run show ?thesis unfolding size by blast
qed

lemma addlength_inserts_witness:
  "\<exists>n b'. pb_addlength (\<lambda>_. None) \<lparr>bf_size = 5, bf_heap = False, bf_capacity = 0,
      bf_data = [10, 0, 1, 2, 3, 0, 0, 0, 0, 0, 0, 0, 0, 0, 0, 0]\<rparr> 2 1 = Some (n, b') \<and>
    (n = 4 \<and> pb_result b' = [10, 3, 1, 2, 3] \<or> n = 0)"
proof -
  define b where "b = \<lparr>bf_size = 5, bf_heap = False, bf_capacity = 0,
      bf_data = [10, 0, 1, 2, 3, 0, 0, 0, 0, 0, 0, 0, 0, 0, 0, 0]\<rparr>"
  have w: "pb_write64 (of_nat (length [1 :: uint8, 2, 3])) = [3]" by code_simp
  have "\<exists>n b'. pb_addlength (\<lambda>_. None) b (length [10 :: uint8] + length [0 :: uint8]) (length [0 :: uint8]) =
      Some (n, b') \<and> buffer_ok b' \<and>
    (n = length (pb_write64 (of_nat (length [1 :: uint8, 2, 3]))) + length [1 :: uint8, 2, 3] \<and>
       pb_result b' = [10] @ pb_write64 (of_nat (length [1 :: uint8, 2, 3])) @ [1, 2, 3] \<or>
     n = 0 \<and> b' = b \<and> \<not> (answers_all (\<lambda>_. None) \<and> size_of b + 10 \<le> 2147483597))"
    by (rule addlength_inserts, simp_all only: w) (simp_all add: b_def buffer_ok_def pb_result_def PB_SSO_SIZE_def)
  then show ?thesis unfolding w b_def [symmetric] by (auto simp: numeral_2_eq_2)
qed

text \<open>
  The size of a buffer is a bit field of 31 bits, and the reservation allows more: when the size reaches
  \<open>2 ^ 31\<close> it is zero again and what was written is lost.
\<close>

lemma size_wraps:
  "size_of b + n = 2147483648 \<Longrightarrow> size_of (pb_addsize n b) = 0"
  by (simp add: pb_addsize_def unsigned_of_nat unat_word_ariths take_bit_eq_mod mod_add_right_eq)

lemma reservation_past_31_bits: "\<exists>m. grow_size 2147483648 PB_SSO_SIZE = Some m \<and> 2147483648 \<le> m"
  by (simp add: grow_size.simps PB_SSO_SIZE_def PB_MAX_SIZET_def)

section \<open>Hash table\<close>

lemma settable_updates_map_witness:
  "\<exists>i t'. pb_settable (\<lambda>_. True) (pb_inittable 24 :: nat pb_Table) 5 = Some (Some i, t') \<and> table_ok t' \<and>
    pb_gettable t' 5 = Some (Some i) \<and> tmap t' 5 = Some 0"
proof -
  have ok: "table_ok (pb_inittable 24 :: nat pb_Table)" by (rule inittable_ok) simp
  have room: "tb_entry_size (pb_inittable 24 :: nat pb_Table) * max 16 (2 * tb_size (pb_inittable 24 :: nat pb_Table)) < 4294967296"
    by (simp add: pb_inittable_def)
  have "tmap (pb_inittable 24 :: nat pb_Table) 5 = None" by (simp add: pb_inittable_def tmap_def slot_def)
  with settable_updates_map [OF ok room, of "\<lambda>_. True" 5] show ?thesis by (fastforce split: option.splits)
qed

definition zero_table :: "nat pb_Table" where
  "zero_table = \<lparr>tb_size = 8, tb_lastfree = 8, tb_entry_size = 24, tb_has_zero = True,
     tb_hash = \<lparr>en_next = 0, en_key = 0, en_val = 7\<rparr> # replicate 7 empty_entry\<rparr>"

lemma zero_table_ok: "table_ok zero_table"
proof -
  define nt :: "nat pb_Table" where "nt = (pb_inittable 24)\<lparr>tb_size := 2 ^ 3, tb_lastfree := 2 ^ 3,
    tb_hash := replicate (2 ^ 3) empty_entry\<rparr>"
  have e: "table_ok nt" "table_chains nt"
    using empty_table(1,2) [of "pb_inittable 24" 3 nt] by (simp_all add: nt_def pb_inittable_def)
  have "replicate 8 (empty_entry :: nat pb_Entry) = empty_entry # replicate 7 empty_entry"
    by (simp add: eval_nat_numeral)
  then have "zero_table = nt\<lparr>tb_has_zero := True,
      tb_hash := (tb_hash nt)[0 := (tb_hash nt ! 0)\<lparr>en_key := 0, en_val := 7\<rparr>]\<rparr>"
    by (simp add: zero_table_def nt_def pb_inittable_def empty_entry_def)
  from update_zero_entry(1) [OF e this] show ?thesis .
qed

lemma resize_with_size:
  "grow_table (PB_MAX_HASHSIZE div tb_entry_size t) n PB_MIN_HASHTABLE_SIZE = Some m \<Longrightarrow> \<not> m < n \<Longrightarrow>
   al (tb_entry_size t * m) \<Longrightarrow> resize_with newkey al t n = Some (r, t') \<Longrightarrow> r = m"
  by (auto simp: resize_with_def bind_eq_Some_conv)

text \<open>A value stored under key zero is lost when the array is replaced.\<close>

lemma resize_keeps_all_but_zero_witness:
  "\<exists>t'. pb_resizetable (\<lambda>_. True) zero_table 16 = Some (16, t') \<and> tmap zero_table 0 = Some 7 \<and> tmap t' 0 = Some 0"
proof -
  have room: "tb_entry_size zero_table * max 8 (2 * tb_size zero_table) < 4294967296"
    and sixteen: "max 8 (2 * tb_size zero_table) = 16"
    by (simp_all add: zero_table_def)
  have three: "(3 :: nat) = Suc 2" by simp
  have g: "grow_table (PB_MAX_HASHSIZE div tb_entry_size zero_table) (2 * tb_size zero_table) PB_MIN_HASHTABLE_SIZE = Some 16"
    by (simp add: grow_table.simps zero_table_def PB_MAX_HASHSIZE_def PB_MIN_HASHTABLE_SIZE_def)
  have "pb_resizetable (\<lambda>_. True) zero_table (2 * tb_size zero_table) \<noteq> Some (0, zero_table)"
    using resize_with_size [OF g, of "\<lambda>_. True" "pbT_newkey (\<lambda>_. True)" 0] by (auto simp: pb_resizetable_def zero_table_def)
  then obtain t' where r: "pb_resizetable (\<lambda>_. True) zero_table (2 * tb_size zero_table) = Some (16, t')"
    using resize [OF zero_table_ok refl room, of 2 "\<lambda>_. True"]
    unfolding pb_resizetable_def pbT_newkey_def sixteen three by blast
  have "last_empty (tb_hash zero_table) = Some 0" by code_simp
  moreover have "tmap zero_table 0 = Some 7" by code_simp
  moreover from resize_keeps_all_but_zero [OF zero_table_ok room r] have "tmap t' 0 = last_empty (tb_hash zero_table)"
    by simp
  moreover have "2 * tb_size zero_table = 16" by (simp add: zero_table_def)
  ultimately show ?thesis using r by simp
qed

lemma iteration_visits_each_key_witness:
  "\<exists>is. iterate (tb_size zero_table + 2) zero_table None = Some is \<and> distinct is \<and>
     set is = {i. \<exists>k. slot zero_table k = Some i}"
  by (rule iteration_visits_each_key) (rule zero_table_ok)

definition one_key_table :: "nat pb_Table" where
  "one_key_table = (case pbT_newkey (\<lambda>_. True) zero_table 5 of Some (_, t) \<Rightarrow> t | None \<Rightarrow> zero_table)"

lemma one_key_table_ok: "table_ok one_key_table"
proof -
  have "slot zero_table 5 = None" by code_simp
  from newkey_inserted [OF zero_table_ok this, of "\<lambda>_. True"]
  obtain p where "pbT_newkey (\<lambda>_. True) zero_table 5 = Some p" "inserted (\<lambda>_. True) zero_table 5 p"
    by (auto simp: succeeds_def zero_table_def)
  then show ?thesis by (cases p) (simp add: one_key_table_def inserted_def)
qed

lemma clear_entry_removes_key_witness:
  "\<exists>i t'. clear_entry i one_key_table = Some t' \<and> table_ok t' \<and> tmap t' = (tmap one_key_table)(5 := None)"
proof -
  have "(case pb_gettable one_key_table 5 of Some (Some i) \<Rightarrow> True | _ \<Rightarrow> False)" by code_simp
  then obtain i where "pb_gettable one_key_table 5 = Some (Some i)" by (auto split: option.splits)
  from clear_entry_removes_key [OF one_key_table_ok this] show ?thesis by auto
qed

end
