(* ===== verification/Pb_Pool.thy ===== *)
theory Pb_Pool
  imports Base
begin

text \<open>
  The memory pool of \<open>pb/c/pb.h\<close>: objects of one size are cut from pages of 4096 bytes.

  Addresses are natural numbers, 0 is the null pointer.  The two intrusive lists, of the pages (linked
  through the last word of a page) and of the free objects (linked through their first word), are lists
  of addresses.  The answer of \<open>malloc\<close> to the request for a page is an argument, 0 for no memory.
\<close>

definition PB_POOLSIZE :: nat where "PB_POOLSIZE = 4096"

text \<open>The size of a pointer.\<close>

definition ptr_size :: nat where "ptr_size = 8"

record pb_Pool =
  pl_pages :: "nat list"
  pl_freed :: "nat list"
  pl_obj_size :: nat

definition pb_initpool :: "nat \<Rightarrow> pb_Pool option" where
  "pb_initpool obj_size = do {
     C_assert (obj_size > ptr_size \<and> obj_size < PB_POOLSIZE div 4);
     Some \<lparr>pl_pages = [], pl_freed = [], pl_obj_size = obj_size\<rparr>
   }"

text \<open>The pages are released in the order of the list.\<close>

primrec free_pages :: "nat list \<Rightarrow> nat list \<Rightarrow> nat list" where
  "free_pages [] released = released"
| "free_pages (page # pages) released = free_pages pages (released @ [page])"

definition pb_freepool :: "pb_Pool \<Rightarrow> (nat list \<times> pb_Pool) option" where
  "pb_freepool pool = do {
     let released = free_pages (pl_pages pool) [];
     pool \<leftarrow> pb_initpool (pl_obj_size pool);
     Some (released, pool)
   }"

text \<open>
  All objects of a new page but the first go to the free list, the last one first.  An offset is a
  multiple of the object size, so that the subtraction does not wrap.
\<close>

partial_function (option) push_objects :: "nat \<Rightarrow> nat \<Rightarrow> nat \<Rightarrow> nat list \<Rightarrow> nat list option" where
  "push_objects newpage objsize offset freed =
     (if offset > 0 then push_objects newpage objsize (offset - objsize) ((newpage + offset) # freed)
      else Some freed)"

definition pb_poolalloc :: "nat \<Rightarrow> pb_Pool \<Rightarrow> (nat \<times> pb_Pool) option" where
  "pb_poolalloc newpage pool =
     (case pl_freed pool of
        [] \<Rightarrow>
          if newpage = 0 then Some (0, pool)
          else do {
            let objsize = pl_obj_size pool;
            C_assert (objsize \<noteq> 0);
            freed \<leftarrow> push_objects newpage objsize (((PB_POOLSIZE - ptr_size) div objsize - 1) * objsize) [];
            Some (newpage, pool\<lparr>pl_pages := newpage # pl_pages pool, pl_freed := freed\<rparr>)
          }
      | obj # rest \<Rightarrow> Some (obj, pool\<lparr>pl_freed := rest\<rparr>))"

definition pb_poolfree :: "nat \<Rightarrow> pb_Pool \<Rightarrow> pb_Pool" where
  "pb_poolfree obj pool = pool\<lparr>pl_freed := obj # pl_freed pool\<rparr>"

section \<open>Objects, free and in use\<close>

text \<open>
  A page begins with its objects and ends with the link to the next page.
\<close>

definition page_objects :: "nat \<Rightarrow> nat \<Rightarrow> nat list" where
  "page_objects objsize page = map (\<lambda>k. page + k * objsize) [0..<(PB_POOLSIZE - ptr_size) div objsize]"

definition pool_objects :: "pb_Pool \<Rightarrow> nat set" where
  "pool_objects pool = (\<Union>page \<in> set (pl_pages pool). set (page_objects (pl_obj_size pool) page))"

definition in_use :: "pb_Pool \<Rightarrow> nat set" where
  "in_use pool = pool_objects pool - set (pl_freed pool)"

text \<open>\<open>page\<close> is a block of the allocator that overlaps none of the pages.\<close>

definition page_fresh :: "nat \<Rightarrow> nat list \<Rightarrow> bool" where
  "page_fresh page pages \<longleftrightarrow> 0 < page \<and> page + PB_POOLSIZE \<le> 18446744073709551616 \<and>
     (\<forall>q \<in> set pages. page + PB_POOLSIZE \<le> q \<or> q + PB_POOLSIZE \<le> page)"

fun pages_ok :: "nat list \<Rightarrow> bool" where
  "pages_ok [] \<longleftrightarrow> True"
| "pages_ok (p # ps) \<longleftrightarrow> page_fresh p ps \<and> pages_ok ps"

definition pool_ok :: "pb_Pool \<Rightarrow> bool" where
  "pool_ok pool \<longleftrightarrow> ptr_size < pl_obj_size pool \<and> pl_obj_size pool < PB_POOLSIZE div 4 \<and>
     pages_ok (pl_pages pool) \<and> distinct (pl_freed pool) \<and> set (pl_freed pool) \<subseteq> pool_objects pool"

lemma push_objects:
  "0 < objsize \<Longrightarrow> push_objects page objsize (n * objsize) freed =
     Some (map (\<lambda>k. page + k * objsize) [1..<Suc n] @ freed)"
proof (induction n arbitrary: freed)
  case 0
  then show ?case by (simp add: push_objects.simps)
next
  case (Suc n)
  have "push_objects page objsize (Suc n * objsize) freed =
      push_objects page objsize (n * objsize) ((page + Suc n * objsize) # freed)"
    using Suc.prems by (subst push_objects.simps) simp
  with Suc show ?case by simp
qed

lemma page_objects_nonempty:
  assumes "ptr_size < objsize" "objsize < PB_POOLSIZE div 4"
  shows "page_objects objsize page =
    page # map (\<lambda>k. page + k * objsize) [1..<(PB_POOLSIZE - ptr_size) div objsize]"
proof -
  have "1 \<le> (PB_POOLSIZE - ptr_size) div objsize"
    using assms by (simp add: PB_POOLSIZE_def ptr_size_def div_greater_zero_iff Suc_le_eq)
  then show ?thesis by (simp add: page_objects_def upt_conv_Cons del: upt_Suc)
qed

text \<open>The objects of a page lie inside it, before the link, and do not overlap.\<close>

lemma page_objects_inside:
  assumes "a \<in> set (page_objects objsize page)" "0 < objsize"
  shows "page \<le> a" "a + objsize \<le> page + (PB_POOLSIZE - ptr_size)"
proof -
  obtain k where k: "k < (PB_POOLSIZE - ptr_size) div objsize" "a = page + k * objsize"
    using assms(1) by (auto simp: page_objects_def)
  have "Suc k * objsize \<le> (PB_POOLSIZE - ptr_size) div objsize * objsize"
    using k(1) by (intro mult_le_mono1) simp
  also have "\<dots> \<le> PB_POOLSIZE - ptr_size" by simp
  finally show "a + objsize \<le> page + (PB_POOLSIZE - ptr_size)" by (simp add: k(2))
  show "page \<le> a" by (simp add: k(2))
qed

lemma page_objects_apart:
  assumes "a \<in> set (page_objects objsize page)" "b \<in> set (page_objects objsize page)" "a \<noteq> b"
  shows "a + objsize \<le> b \<or> b + objsize \<le> a"
proof -
  obtain k j where k: "a = page + k * objsize" "b = page + j * objsize"
    using assms(1,2) by (auto simp: page_objects_def)
  then consider "k < j" | "j < k" using assms(3) by (metis linorder_neqE_nat)
  then show ?thesis
  proof cases
    case 1
    then have "Suc k * objsize \<le> j * objsize" by (intro mult_le_mono1) simp
    then show ?thesis by (simp add: k)
  next
    case 2
    then have "Suc j * objsize \<le> k * objsize" by (intro mult_le_mono1) simp
    then show ?thesis by (simp add: k)
  qed
qed

lemma page_objects_distinct: "0 < objsize \<Longrightarrow> distinct (page_objects objsize page)"
  by (auto simp: page_objects_def distinct_map inj_on_def)

lemma pages_apart:
  "pages_ok ps \<Longrightarrow> p \<in> set ps \<Longrightarrow> q \<in> set ps \<Longrightarrow> p \<noteq> q \<Longrightarrow> p + PB_POOLSIZE \<le> q \<or> q + PB_POOLSIZE \<le> p"
  by (induction ps) (auto simp: page_fresh_def)

lemma pages_range:
  "pages_ok ps \<Longrightarrow> p \<in> set ps \<Longrightarrow> 0 < p \<and> p + PB_POOLSIZE \<le> 18446744073709551616"
  by (induction ps) (auto simp: page_fresh_def)

lemma pool_object_range:
  assumes "pool_ok pool" "a \<in> pool_objects pool"
  shows "0 < a \<and> a + pl_obj_size pool \<le> 18446744073709551616"
proof -
  obtain p where p: "p \<in> set (pl_pages pool)" "a \<in> set (page_objects (pl_obj_size pool) p)"
    using assms(2) by (auto simp: pool_objects_def)
  have "0 < pl_obj_size pool" "pages_ok (pl_pages pool)" using assms(1) by (simp_all add: pool_ok_def)
  from page_objects_inside [OF p(2) this(1)] pages_range [OF this(2) p(1)] show ?thesis
    by (simp add: PB_POOLSIZE_def ptr_size_def)
qed

lemma pool_object_page:
  assumes "pool_ok pool" "a \<in> pool_objects pool"
  shows "\<exists>p \<in> set (pl_pages pool). p \<le> a \<and> a + pl_obj_size pool \<le> p + (PB_POOLSIZE - ptr_size)"
proof -
  have "0 < pl_obj_size pool" using assms(1) by (simp add: pool_ok_def)
  with assms(2) page_objects_inside show ?thesis by (fastforce simp: pool_objects_def)
qed

lemma pool_objects_apart:
  assumes ok: "pool_ok pool" and a: "a \<in> pool_objects pool" and b: "b \<in> pool_objects pool" and ab: "a \<noteq> b"
  shows "a + pl_obj_size pool \<le> b \<or> b + pl_obj_size pool \<le> a"
proof -
  let ?n = "pl_obj_size pool"
  obtain p where p: "p \<in> set (pl_pages pool)" "a \<in> set (page_objects ?n p)" using a by (auto simp: pool_objects_def)
  obtain q where q: "q \<in> set (pl_pages pool)" "b \<in> set (page_objects ?n q)" using b by (auto simp: pool_objects_def)
  have n: "0 < ?n" and pages: "pages_ok (pl_pages pool)" using ok by (simp_all add: pool_ok_def)
  show ?thesis
  proof (cases "p = q")
    case True
    with page_objects_apart [OF p(2), of b] q(2) ab show ?thesis by simp
  next
    case False
    from pages_apart [OF pages p(1) q(1) False] page_objects_inside [OF p(2) n] page_objects_inside [OF q(2) n]
    show ?thesis by auto
  qed
qed

lemma initpool:
  assumes "ptr_size < obj_size" "obj_size < PB_POOLSIZE div 4"
  shows "succeeds (pb_initpool obj_size) (\<lambda>p. pool_ok p \<and> in_use p = {} \<and> pl_obj_size p = obj_size \<and> pl_pages p = [])"
  using assms by (simp add: pb_initpool_def C_assert_def pool_ok_def in_use_def pool_objects_def)

lemma poolalloc_new:
  assumes ok: "pool_ok pool" and empty: "pl_freed pool = []" and new: "page_fresh page (pl_pages pool)"
  shows "\<exists>pool'. pb_poolalloc page pool = Some (page, pool') \<and> pool_ok pool' \<and>
    pl_pages pool' = page # pl_pages pool \<and> pl_obj_size pool' = pl_obj_size pool \<and>
    page \<notin> pool_objects pool \<and> in_use pool' = insert page (in_use pool)"
proof -
  let ?n = "pl_obj_size pool"
  have size: "ptr_size < ?n" "?n < PB_POOLSIZE div 4" using ok by (simp_all add: pool_ok_def)
  then have n: "0 < ?n" by simp
  have count: "(PB_POOLSIZE - ptr_size) div ?n \<noteq> 0"
    using size by (auto simp: PB_POOLSIZE_def ptr_size_def div_eq_0_iff)
  define others where "others = map (\<lambda>k. page + k * ?n) [1..<(PB_POOLSIZE - ptr_size) div ?n]"
  define pool' where "pool' = pool\<lparr>pl_pages := page # pl_pages pool, pl_freed := others\<rparr>"
  have objs: "page_objects ?n page = page # others"
    unfolding others_def by (rule page_objects_nonempty [OF size])
  have run: "pb_poolalloc page pool = Some (page, pool')"
    using n new push_objects [OF n, of page "(PB_POOLSIZE - ptr_size) div ?n - 1" "[]"] count empty
    by (simp add: pb_poolalloc_def C_assert_def Let_def page_fresh_def pool'_def others_def del: upt_Suc)
  have dist: "distinct (page # others)" using page_objects_distinct [OF n, of page] by (simp only: objs)
  have away: "a \<notin> pool_objects pool" if "a \<in> set (page_objects ?n page)" for a
  proof
    assume "a \<in> pool_objects pool"
    then obtain q where q: "q \<in> set (pl_pages pool)" "a \<in> set (page_objects ?n q)" by (auto simp: pool_objects_def)
    have "page + PB_POOLSIZE \<le> q \<or> q + PB_POOLSIZE \<le> page" using new q(1) by (simp add: page_fresh_def)
    with page_objects_inside [OF that n] page_objects_inside [OF q(2) n] n show False by auto
  qed
  have "pool_objects pool' = set (page_objects ?n page) \<union> pool_objects pool"
    by (simp add: pool_objects_def pool'_def)
  moreover have "pool_ok pool'"
    using ok new dist by (auto simp: pool_ok_def pool'_def pool_objects_def objs)
  ultimately show ?thesis
    using run away dist empty by (auto simp: in_use_def pool'_def objs)
qed

lemma poolalloc:
  assumes ok: "pool_ok pool" and page: "page = 0 \<or> page_fresh page (pl_pages pool)"
  shows "\<exists>obj pool'. pb_poolalloc page pool = Some (obj, pool') \<and> pool_ok pool' \<and>
    pl_obj_size pool' = pl_obj_size pool \<and>
    (obj = 0 \<and> pool' = pool \<and> page = 0 \<and> pl_freed pool = [] \<or>
     obj \<noteq> 0 \<and> obj \<notin> in_use pool \<and> in_use pool' = insert obj (in_use pool))"
proof (cases "pl_freed pool")
  case Nil
  show ?thesis
  proof (cases "page = 0")
    case True
    with ok Nil show ?thesis by (simp add: pb_poolalloc_def)
  next
    case False
    with page have "page_fresh page (pl_pages pool)" by simp
    from poolalloc_new [OF ok Nil this] False show ?thesis by (auto simp: in_use_def)
  qed
next
  case (Cons obj rest)
  have "obj \<in> pool_objects pool" "obj \<notin> set rest" using ok Cons by (auto simp: pool_ok_def)
  moreover from this have "obj \<noteq> 0" using pool_object_range [OF ok] by auto
  moreover have "pool_objects (pool\<lparr>pl_freed := rest\<rparr>) = pool_objects pool" by (simp add: pool_objects_def)
  ultimately show ?thesis
    using ok Cons by (auto simp: pb_poolalloc_def pool_ok_def in_use_def)
qed

lemma poolfree:
  assumes "pool_ok pool" "obj \<in> in_use pool"
  shows "pool_ok (pb_poolfree obj pool)" "in_use (pb_poolfree obj pool) = in_use pool - {obj}"
    "pl_obj_size (pb_poolfree obj pool) = pl_obj_size pool"
  using assms by (auto simp: pool_ok_def pb_poolfree_def in_use_def pool_objects_def)

lemma free_pages: "free_pages pages released = released @ pages"
  by (induction pages arbitrary: released) simp_all

section \<open>Property\<close>

text \<open>
  C25. An allocation returns null only when the free list is empty and there is no memory; otherwise an
  object that is not in use, that lies in a page before its link, and whose bytes overlap no other object
  in use.  Exactly this object is in use in addition.
\<close>
theorem poolalloc_returns_unused:
  assumes "pool_ok pool" "page = 0 \<or> page_fresh page (pl_pages pool)"
  shows "\<exists>obj pool'. pb_poolalloc page pool = Some (obj, pool') \<and> pool_ok pool' \<and>
    (if obj = 0 then pool' = pool \<and> page = 0 \<and> pl_freed pool = []
     else obj \<notin> in_use pool \<and> in_use pool' = insert obj (in_use pool) \<and>
       (\<exists>p \<in> set (pl_pages pool'). p \<le> obj \<and> obj + pl_obj_size pool \<le> p + (PB_POOLSIZE - ptr_size)) \<and>
       (\<forall>a \<in> in_use pool. a + pl_obj_size pool \<le> obj \<or> obj + pl_obj_size pool \<le> a))"
proof -
  from poolalloc [OF assms] obtain obj pool' where p: "pb_poolalloc page pool = Some (obj, pool')"
    "pool_ok pool'" "pl_obj_size pool' = pl_obj_size pool"
    "obj = 0 \<and> pool' = pool \<and> page = 0 \<and> pl_freed pool = [] \<or>
     obj \<noteq> 0 \<and> obj \<notin> in_use pool \<and> in_use pool' = insert obj (in_use pool)"
    by blast
  show ?thesis
  proof (cases "obj = 0")
    case False
    with p have new: "obj \<notin> in_use pool" "in_use pool' = insert obj (in_use pool)" by auto
    have mem: "a \<in> pool_objects pool'" if "a \<in> insert obj (in_use pool)" for a
      using that new(2) by (auto simp: in_use_def)
    have "a + pl_obj_size pool \<le> obj \<or> obj + pl_obj_size pool \<le> a" if "a \<in> in_use pool" for a
      using pool_objects_apart [OF p(2) mem mem, of a obj] that new(1) p(3) by auto
    with p False new pool_object_page [OF p(2) mem, of obj] show ?thesis by auto
  qed (use p in auto)
qed

lemma poolalloc_returns_unused_witness:
  "\<exists>obj pool'. pb_poolalloc 8192 \<lparr>pl_pages = [], pl_freed = [], pl_obj_size = 128\<rparr> = Some (obj, pool') \<and>
     obj \<noteq> 0 \<and> in_use pool' = {obj}"
proof -
  define pool where "pool = \<lparr>pl_pages = [], pl_freed = [], pl_obj_size = 128\<rparr>"
  have ok: "pool_ok pool" "page_fresh 8192 (pl_pages pool)" "in_use pool = {}"
    by (simp_all add: pool_def pool_ok_def page_fresh_def in_use_def pool_objects_def ptr_size_def PB_POOLSIZE_def)
  from poolalloc_returns_unused [OF ok(1), of 8192] ok(2,3) show ?thesis
    unfolding pool_def by (auto split: if_splits)
qed

end
