(* ===== verification/Pb_Names.thy ===== *)
theory Pb_Names
  imports Pb_Table Pb_Pool
begin

unbundle bit_operations_syntax

text \<open>
  The name table of \<open>pb/c/pb.h\<close>: strings are kept once, with a reference count, in a table of chains.

  A name is a pointer, here the address of its entry in a heap; 0 is the null pointer.  The chain of a
  bucket is the list of the addresses linked through \<open>next\<close>.  A string given to an operation is a list of
  bytes, \<open>None\<close> for a slice whose pointer is null.
\<close>

definition PB_MIN_STRTABLE_SIZE :: nat where "PB_MIN_STRTABLE_SIZE = 16"
definition PB_HASHLIMIT :: nat where "PB_HASHLIMIT = 5"
definition PB_CACHE_SIZE :: nat where "PB_CACHE_SIZE = 53"
definition sizeof_NameEntry :: nat where "sizeof_NameEntry = 16"

record pb_NameEntry =
  ne_hash :: uint32
  ne_length :: "16 word"
  ne_refcount :: "16 word"
  ne_name :: "uint8 list"

type_synonym name_heap = "nat \<rightharpoonup> pb_NameEntry"

record pb_NameTable =
  nt_size :: nat
  nt_count :: nat
  nt_hash :: "nat list list"
  nt_heap :: name_heap

text \<open>
  The answers of the allocator: whether there is memory for an array of some size, the address of a new
  name (given the names there are) and of a new page (given the pages of the pool), 0 for no memory.
\<close>

record pb_alloc =
  al_block :: "nat \<Rightarrow> bool"
  al_name :: "name_heap \<Rightarrow> nat \<Rightarrow> nat"
  al_page :: "nat list \<Rightarrow> nat"

section \<open>The table\<close>

definition pbN_init :: "name_heap \<Rightarrow> pb_NameTable" where
  "pbN_init H = \<lparr>nt_size = 0, nt_count = 0, nt_hash = [], nt_heap = H\<rparr>"

text \<open>The hash takes every \<open>step\<close>-th byte from the end, \<open>step\<close> being \<open>d + 1\<close>.\<close>

function calchash_from :: "uint8 list \<Rightarrow> nat \<Rightarrow> nat \<Rightarrow> uint32 \<Rightarrow> uint32" where
  "calchash_from s d len h =
     (if len \<ge> d + 1
      then calchash_from s d (len - (d + 1)) (h XOR (push_bit 5 h + drop_bit 2 h + ucast (s ! (len - 1))))
      else h)"
  by pat_completeness auto

termination by (relation "measure (\<lambda>(s, d, len, h). len)") auto

declare calchash_from.simps [simp del]

definition pbN_calchash :: "uint8 list \<Rightarrow> uint32" where
  "pbN_calchash s = calchash_from s (drop_bit PB_HASHLIMIT (length s)) (length s) (of_nat (length s))"

text \<open>The bucket of a hash value in a table of \<open>n\<close> buckets.\<close>

definition bucket :: "nat \<Rightarrow> uint32 \<Rightarrow> nat" where
  "bucket n hash = unat ((ucast hash :: uint64) AND (of_nat n - 1))"

text \<open>Every entry is pushed to the front of its new chain.\<close>

primrec rehash_chain :: "name_heap \<Rightarrow> nat \<Rightarrow> nat list \<Rightarrow> nat list list \<Rightarrow> nat list list option" where
  "rehash_chain H newsize [] hash = Some hash"
| "rehash_chain H newsize (ent # rest) hash = do {
     e \<leftarrow> H ent;
     newh \<leftarrow> array_get hash (bucket newsize (ne_hash e));
     hash \<leftarrow> array_set hash (bucket newsize (ne_hash e)) (ent # newh);
     rehash_chain H newsize rest hash
   }"

primrec rehash :: "name_heap \<Rightarrow> nat \<Rightarrow> nat list list \<Rightarrow> nat list list \<Rightarrow> nat list list option" where
  "rehash H newsize [] hash = Some hash"
| "rehash H newsize (chain # heads) hash = do {
     hash \<leftarrow> rehash_chain H newsize chain hash;
     rehash H newsize heads hash
   }"

definition pbN_resize :: "pb_alloc \<Rightarrow> pb_NameTable \<Rightarrow> nat \<Rightarrow> (nat \<times> pb_NameTable) option" where
  "pbN_resize al nt n = do {
     newsize \<leftarrow> grow_table (PB_MAX_HASHSIZE div ptr_size) n PB_MIN_STRTABLE_SIZE;
     if newsize < n then Some (0, nt)
     else if \<not> al_block al (newsize * ptr_size) then Some (0, nt)
     else do {
       hash \<leftarrow> rehash (nt_heap nt) newsize (nt_hash nt) (replicate newsize []);
       Some (newsize, nt\<lparr>nt_hash := hash, nt_size := newsize\<rparr>)
     }
   }"

definition pbN_newname :: "pb_alloc \<Rightarrow> pb_NameTable \<Rightarrow> uint8 list \<Rightarrow> uint32 \<Rightarrow> (nat \<times> pb_NameTable) option" where
  "pbN_newname al nt s hash = do {
     (r, nt) \<leftarrow> (if nt_count nt \<ge> nt_size nt then pbN_resize al nt (nt_size nt * 2) else Some (1, nt));
     if r = 0 then Some (0, nt)
     else do {
       let list = bucket (nt_size nt) hash;
       let newobj = al_name al (nt_heap nt) (sizeof_NameEntry + length s + 1);
       if newobj = 0 then Some (0, nt)
       else do {
         chain \<leftarrow> array_get (nt_hash nt) list;
         heads \<leftarrow> array_set (nt_hash nt) list (newobj # chain);
         let e = \<lparr>ne_hash = hash, ne_length = of_nat (length s), ne_refcount = 0, ne_name = s\<rparr>;
         Some (newobj, nt\<lparr>nt_heap := (nt_heap nt)(newobj \<mapsto> e), nt_hash := heads, nt_count := nt_count nt + 1\<rparr>)
       }
     }
   }"

text \<open>The chain without the first occurrence of a name, if it occurs.\<close>

primrec unlink_name :: "nat \<Rightarrow> nat list \<Rightarrow> nat list option" where
  "unlink_name name [] = None"
| "unlink_name name (a # as) =
     (if a \<noteq> name then map_option ((#) a) (unlink_name name as) else Some as)"

definition pbN_delname :: "pb_NameTable \<Rightarrow> nat \<Rightarrow> pb_NameTable option" where
  "pbN_delname nt name = do {
     e \<leftarrow> nt_heap nt name;
     let list = bucket (nt_size nt) (ne_hash e);
     chain \<leftarrow> array_get (nt_hash nt) list;
     case unlink_name name chain of
       None \<Rightarrow> Some nt
     | Some chain \<Rightarrow> do {
         heads \<leftarrow> array_set (nt_hash nt) list chain;
         Some (nt\<lparr>nt_hash := heads, nt_count := nt_count nt - 1, nt_heap := (nt_heap nt)(name := None)\<rparr>)
       }
   }"

text \<open>The comparison of the lengths sees the 16 bits that the entry keeps.\<close>

primrec find_name_in :: "name_heap \<Rightarrow> uint8 list \<Rightarrow> uint32 \<Rightarrow> nat list \<Rightarrow> nat option" where
  "find_name_in H s hash [] = Some 0"
| "find_name_in H s hash (ent # rest) = do {
     e \<leftarrow> H ent;
     if ne_hash e = hash \<and> unat (ne_length e) = length s \<and> take (length s) (ne_name e) = s then Some ent
     else find_name_in H s hash rest
   }"

definition pbN_getname :: "pb_NameTable \<Rightarrow> uint8 list \<Rightarrow> uint32 \<Rightarrow> nat option" where
  "pbN_getname nt s hash =
     (if nt_hash nt = [] then Some 0
      else do {
        chain \<leftarrow> array_get (nt_hash nt) (bucket (nt_size nt) hash);
        find_name_in (nt_heap nt) s hash chain
      })"

primrec free_chain :: "nat list \<Rightarrow> name_heap \<Rightarrow> name_heap option" where
  "free_chain [] H = Some H"
| "free_chain (ne # rest) H = do { e \<leftarrow> H ne; free_chain rest (H(ne := None)) }"

primrec free_chains :: "nat list list \<Rightarrow> name_heap \<Rightarrow> name_heap option" where
  "free_chains [] H = Some H"
| "free_chains (chain # heads) H = do { H \<leftarrow> free_chain chain H; free_chains heads H }"

definition pbN_free :: "pb_NameTable \<Rightarrow> pb_NameTable option" where
  "pbN_free nt = do {
     H \<leftarrow> free_chains (nt_hash nt) (nt_heap nt);
     Some (pbN_init H)
   }"

section \<open>Names with reference counts\<close>

definition pb_usename :: "nat \<Rightarrow> pb_NameTable \<Rightarrow> pb_NameTable option" where
  "pb_usename name nt =
     (if name \<noteq> 0 then do {
        e \<leftarrow> nt_heap nt name;
        Some (nt\<lparr>nt_heap := (nt_heap nt)(name \<mapsto> e\<lparr>ne_refcount := ne_refcount e + 1\<rparr>)\<rparr>)
      }
      else Some nt)"

definition pb_delname :: "nat \<Rightarrow> pb_NameTable \<Rightarrow> pb_NameTable option" where
  "pb_delname name nt =
     (if name \<noteq> 0 then do {
        e \<leftarrow> nt_heap nt name;
        if ne_refcount e \<le> 1 then pbN_delname nt name
        else Some (nt\<lparr>nt_heap := (nt_heap nt)(name \<mapsto> e\<lparr>ne_refcount := ne_refcount e - 1\<rparr>)\<rparr>)
      }
      else Some nt)"

definition pb_newname :: "pb_alloc \<Rightarrow> uint8 list option \<Rightarrow> pb_NameTable \<Rightarrow> (nat \<times> pb_NameTable) option" where
  "pb_newname al str nt =
     (case str of
        None \<Rightarrow> Some (0, nt)
      | Some s \<Rightarrow> do {
          let hash = pbN_calchash s;
          ent \<leftarrow> pbN_getname nt s hash;
          (ent, nt) \<leftarrow> (if ent = 0 then pbN_newname al nt s hash else Some (ent, nt));
          if ent \<noteq> 0 then do { nt \<leftarrow> pb_usename ent nt; Some (ent, nt) } else Some (0, nt)
        })"

text \<open>
  The cache remembers hash values by the address of the string: two slots for each of 53 residues.
\<close>

record pb_CacheSlot =
  cs_name :: nat
  cs_hash :: uint32

record pb_Cache =
  ca_slots :: "(pb_CacheSlot \<times> pb_CacheSlot) list"
  ca_hash :: uint32

definition cache_index :: "nat \<Rightarrow> nat" where
  "cache_index p = unat ((of_nat p :: uint64) * 2654435761) mod PB_CACHE_SIZE"

text \<open>
  What the cache yields for the address \<open>p\<close>: the name found with a remembered hash, which of the two
  slots is used from here on, and the cache.
\<close>

definition cache_probe :: "pb_NameTable \<Rightarrow> nat \<Rightarrow> uint8 list \<Rightarrow> pb_Cache \<Rightarrow>
    (nat \<times> bool \<times> pb_Cache) option" where
  "cache_probe nt p s c = do {
     (slot0, slot1) \<leftarrow> array_get (ca_slots c) (cache_index p);
     if cs_name slot0 = p then do {
       ent \<leftarrow> pbN_getname nt s (cs_hash slot0);
       Some (ent, False, c\<lparr>ca_hash := cs_hash slot0\<rparr>)
     }
     else if cs_name slot1 = p then do {
       ent \<leftarrow> pbN_getname nt s (cs_hash slot1);
       Some (ent, True, c\<lparr>ca_hash := cs_hash slot1\<rparr>)
     }
     else Some (0, False, c\<lparr>ca_slots := (ca_slots c)[cache_index p := (slot0\<lparr>cs_name := p\<rparr>, slot0)]\<rparr>)
   }"

definition cache_store :: "nat \<Rightarrow> bool \<Rightarrow> uint32 \<Rightarrow> pb_Cache \<Rightarrow> pb_Cache option" where
  "cache_store p second h c = do {
     (slot0, slot1) \<leftarrow> array_get (ca_slots c) (cache_index p);
     let slots = (if second then (slot0, slot1\<lparr>cs_hash := h\<rparr>) else (slot0\<lparr>cs_hash := h\<rparr>, slot1));
     Some (c\<lparr>ca_hash := h, ca_slots := (ca_slots c)[cache_index p := slots]\<rparr>)
   }"

definition pb_name :: "pb_NameTable \<Rightarrow> nat \<Rightarrow> uint8 list \<Rightarrow> pb_Cache option \<Rightarrow> (nat \<times> pb_Cache option) option" where
  "pb_name nt p s cache =
     (if p = 0 then Some (0, cache)
      else case cache of
        None \<Rightarrow> do { ent \<leftarrow> pbN_getname nt s (pbN_calchash s); Some (ent, None) }
      | Some c \<Rightarrow> do {
          (ent, second, c) \<leftarrow> cache_probe nt p s c;
          if ent = 0 then do {
            c \<leftarrow> cache_store p second (pbN_calchash s) c;
            ent \<leftarrow> pbN_getname nt s (pbN_calchash s);
            Some (ent, Some c)
          }
          else Some (ent, Some c)
        })"

end
