(* ===== verification/Pb_Types.thy ===== *)
theory Pb_Types
  imports Pb_Names
begin

unbundle bit_operations_syntax

text \<open>
  The database of message types of \<open>pb/c/pb.h\<close>: the state, types and their fields.

  Types and fields are objects of two pools, addressed by natural numbers (0 is the null pointer); what
  the objects hold is in two heaps, where a released or never initialised object is absent.  The tables
  of a type map the address of a name and the number of a field to the address of the field.
\<close>

definition sizeof_Type :: nat where "sizeof_Type = 112"
definition sizeof_Field :: nat where "sizeof_Field = 40"
definition sizeof_TypeEntry :: nat where "sizeof_TypeEntry = 24"
definition sizeof_OneofEntry :: nat where "sizeof_OneofEntry = 32"

record pb_Field =
  fd_name :: nat
  fd_type :: nat
  fd_default :: nat
  fd_number :: uint32
  fd_sort_index :: uint32
  fd_oneof_idx :: "24 word"
  fd_type_id :: "5 word"
  fd_repeated :: bool
  fd_packed :: bool
  fd_scalar :: bool

datatype pb_OneofEntry = OneofEntry (oo_name: nat) (oo_index: uint32)

instantiation pb_OneofEntry :: zero
begin
definition zero_pb_OneofEntry :: pb_OneofEntry where "zero_pb_OneofEntry = OneofEntry 0 0"
instance ..
end

record pb_Type =
  ty_name :: nat
  ty_basename :: nat
  ty_field_sort :: "nat list option"
  ty_field_tags :: "nat pb_Table"
  ty_field_names :: "nat pb_Table"
  ty_oneof_index :: "pb_OneofEntry pb_Table"
  ty_oneof_count :: uint32
  ty_oneof_field :: uint32
  ty_field_count :: "28 word"
  ty_is_enum :: bool
  ty_is_map :: bool
  ty_is_proto3 :: bool
  ty_is_dead :: bool

record pb_State =
  nametable :: pb_NameTable
  types :: "nat pb_Table"
  typepool :: pb_Pool
  fieldpool :: pb_Pool
  type_heap :: "nat \<rightharpoonup> pb_Type"
  field_heap :: "nat \<rightharpoonup> pb_Field"

text \<open>Keys of tables: pointers, and signed numbers widened to 64 bits.\<close>

definition ptr_key :: "nat \<Rightarrow> pb_Key" where "ptr_key p = of_nat p"
definition num_key :: "uint32 \<Rightarrow> pb_Key" where "num_key n = scast n"

definition update_type :: "nat \<Rightarrow> (pb_Type \<Rightarrow> pb_Type) \<Rightarrow> pb_State \<Rightarrow> pb_State option" where
  "update_type t f S = do {
     ty \<leftarrow> type_heap S t;
     Some (S\<lparr>type_heap := (type_heap S)(t \<mapsto> f ty)\<rparr>)
   }"

definition update_field :: "nat \<Rightarrow> (pb_Field \<Rightarrow> pb_Field) \<Rightarrow> pb_State \<Rightarrow> pb_State option" where
  "update_field f g S = do {
     fd \<leftarrow> field_heap S f;
     Some (S\<lparr>field_heap := (field_heap S)(f \<mapsto> g fd)\<rparr>)
   }"

text \<open>\<open>pb_delname\<close> on the name table of the state.\<close>

definition release_name :: "nat \<Rightarrow> pb_State \<Rightarrow> pb_State option" where
  "release_name name S = do {
     nt \<leftarrow> pb_delname name (nametable S);
     Some (S\<lparr>nametable := nt\<rparr>)
   }"

section \<open>State and lookup\<close>

definition pb_init :: "pb_State option" where
  "pb_init = do {
     tp \<leftarrow> pb_initpool sizeof_Type;
     fp \<leftarrow> pb_initpool sizeof_Field;
     Some \<lparr>nametable = pbN_init Map.empty, types = pb_inittable sizeof_TypeEntry, typepool = tp, fieldpool = fp,
       type_heap = Map.empty, field_heap = Map.empty\<rparr>
   }"

definition pb_type :: "pb_State \<Rightarrow> nat \<Rightarrow> nat option" where
  "pb_type S tname =
     (if tname = 0 then Some 0
      else do {
        te \<leftarrow> pb_gettable (types S) (ptr_key tname);
        case te of None \<Rightarrow> Some 0
        | Some i \<Rightarrow> do {
            e \<leftarrow> entry (types S) i;
            t \<leftarrow> type_heap S (en_val e);
            Some (if ty_is_dead t then 0 else en_val e)
          }
      })"

definition pb_fname :: "pb_State \<Rightarrow> nat \<Rightarrow> nat \<Rightarrow> nat option" where
  "pb_fname S t name =
     (if t = 0 \<or> name = 0 then Some 0
      else do {
        ty \<leftarrow> type_heap S t;
        fe \<leftarrow> pb_gettable (ty_field_names ty) (ptr_key name);
        case fe of None \<Rightarrow> Some 0 | Some i \<Rightarrow> map_option en_val (entry (ty_field_names ty) i)
      })"

definition pb_field :: "pb_State \<Rightarrow> nat \<Rightarrow> uint32 \<Rightarrow> nat option" where
  "pb_field S t number =
     (if t = 0 then Some 0
      else do {
        ty \<leftarrow> type_heap S t;
        fe \<leftarrow> pb_gettable (ty_field_tags ty) (num_key number);
        case fe of None \<Rightarrow> Some 0 | Some i \<Rightarrow> map_option en_val (entry (ty_field_tags ty) i)
      })"

definition pb_oneofname :: "pb_State \<Rightarrow> nat \<Rightarrow> uint32 \<Rightarrow> nat option" where
  "pb_oneofname S t idx =
     (if t = 0 then Some 0
      else do {
        ty \<leftarrow> type_heap S t;
        oe \<leftarrow> pb_gettable (ty_oneof_index ty) (num_key idx);
        case oe of None \<Rightarrow> Some 0 | Some i \<Rightarrow> map_option (\<lambda>e. oo_name (en_val e)) (entry (ty_oneof_index ty) i)
      })"

text \<open>The loops of the iterations; entries without a value and dead types are passed over.\<close>

partial_function (option) next_type :: "pb_State \<Rightarrow> nat option \<Rightarrow> nat option" where
  "next_type S e = do {
     e \<leftarrow> pb_nextentry (types S) e;
     case e of None \<Rightarrow> Some 0
     | Some i \<Rightarrow> do {
         te \<leftarrow> entry (types S) i;
         dead \<leftarrow> (if en_val te = 0 then Some True else map_option ty_is_dead (type_heap S (en_val te)));
         if \<not> dead then Some (en_val te) else next_type S (Some i)
       }
   }"

definition pb_nexttype :: "pb_State \<Rightarrow> nat \<Rightarrow> nat option" where
  "pb_nexttype S t = do {
     e \<leftarrow> (if t \<noteq> 0 then do { ty \<leftarrow> type_heap S t; pb_gettable (types S) (ptr_key (ty_name ty)) } else Some None);
     next_type S e
   }"

partial_function (option) next_field :: "nat pb_Table \<Rightarrow> nat option \<Rightarrow> nat option" where
  "next_field tags e = do {
     e \<leftarrow> pb_nextentry tags e;
     case e of None \<Rightarrow> Some 0
     | Some i \<Rightarrow> do {
         fe \<leftarrow> entry tags i;
         if en_val fe \<noteq> 0 then Some (en_val fe) else next_field tags (Some i)
       }
   }"

definition pb_nextfield :: "pb_State \<Rightarrow> nat \<Rightarrow> nat \<Rightarrow> nat option" where
  "pb_nextfield S t f =
     (if t = 0 then Some 0
      else do {
        ty \<leftarrow> type_heap S t;
        e \<leftarrow> (if f \<noteq> 0 then do { fd \<leftarrow> field_heap S f; pb_gettable (ty_field_tags ty) (num_key (fd_number fd)) }
              else Some None);
        next_field (ty_field_tags ty) e
      })"

section \<open>Sorting the fields of a type\<close>

text \<open>
  The fields by number.  The comparison subtracts two \<open>int\<close> values; it has no result when the difference
  does not fit.  The array has room for \<open>field_count\<close> fields; a store behind it has no result, and
  neither has the loop over \<open>field_count\<close> fields when fewer were stored.
\<close>

definition comp_field :: "pb_Field \<Rightarrow> pb_Field \<Rightarrow> int option" where
  "comp_field a b =
     (let d = sint (fd_number a) - sint (fd_number b) in
      if - 2147483648 \<le> d \<and> d < 2147483648 then Some d else None)"

text \<open>\<open>qsort\<close> has a result if every comparison has one; it compares fields that have different numbers.\<close>

definition qsort_fields :: "(nat \<rightharpoonup> pb_Field) \<Rightarrow> nat list \<Rightarrow> nat list option" where
  "qsort_fields H fs =
     (if list_all (\<lambda>f. list_all (\<lambda>g.
           case (H f, H g) of (Some a, Some b) \<Rightarrow> comp_field a b \<noteq> None | _ \<Rightarrow> False) fs) fs
      then Some (sort_key (\<lambda>f. sint (fd_number (the (H f)))) fs) else None)"

partial_function (option) collect_fields :: "pb_State \<Rightarrow> nat \<Rightarrow> nat \<Rightarrow> nat \<Rightarrow> nat list \<Rightarrow> nat list option" where
  "collect_fields S t count f fs = do {
     f \<leftarrow> pb_nextfield S t f;
     if f = 0 then Some fs
     else if length fs < count then collect_fields S t count f (fs @ [f]) else None
   }"

primrec number_fields :: "nat \<Rightarrow> nat \<Rightarrow> nat list \<Rightarrow> pb_State \<Rightarrow> pb_State option" where
  "number_fields 0 i fs S = Some S"
| "number_fields (Suc n) i fs S = do {
     f \<leftarrow> array_get fs i;
     S \<leftarrow> update_field f (\<lambda>fd. fd\<lparr>fd_sort_index := of_nat i + 1\<rparr>) S;
     number_fields n (i + 1) fs S
   }"

definition pb_sortfield :: "pb_alloc \<Rightarrow> nat \<Rightarrow> pb_State \<Rightarrow> (nat list option \<times> pb_State) option" where
  "pb_sortfield al t S = do {
     ty \<leftarrow> type_heap S t;
     if ty_field_sort ty = None \<and> ty_field_count ty \<noteq> 0 then do {
       let count = unat (ty_field_count ty);
       C_assert (al_block al (ptr_size * count));
       fs \<leftarrow> collect_fields S t count 0 [];
       fs \<leftarrow> qsort_fields (field_heap S) fs;
       S \<leftarrow> number_fields count 0 fs S;
       S \<leftarrow> update_type t (\<lambda>ty. ty\<lparr>ty_field_sort := Some fs\<rparr>) S;
       Some (Some fs, S)
     }
     else Some (ty_field_sort ty, S)
   }"

definition pb_delsort :: "pb_Type \<Rightarrow> pb_Type" where
  "pb_delsort ty = ty\<lparr>ty_field_sort := None\<rparr>"

section \<open>New types\<close>

text \<open>The base name is given by its position in the name, a C string.\<close>

definition c_strlen :: "uint8 list \<Rightarrow> nat" where
  "c_strlen s = length (takeWhile (\<lambda>b. b \<noteq> 0) s)"

primrec last_dot :: "uint8 list \<Rightarrow> nat \<Rightarrow> nat" where
  "last_dot s 0 = 0"
| "last_dot s (Suc n) = (if s ! n \<noteq> 46 then last_dot s n else n)"

definition pbT_basename :: "uint8 list \<Rightarrow> nat" where
  "pbT_basename s = (let e = last_dot s (c_strlen s) in if (s @ [0]) ! e \<noteq> 46 then e else e + 1)"

definition pbT_inittype :: pb_Type where
  "pbT_inittype = \<lparr>ty_name = 0, ty_basename = 0, ty_field_sort = None,
     ty_field_tags = pb_inittable sizeof_TypeEntry, ty_field_names = pb_inittable sizeof_TypeEntry,
     ty_oneof_index = pb_inittable sizeof_OneofEntry, ty_oneof_count = 0, ty_oneof_field = 0, ty_field_count = 0,
     ty_is_enum = False, ty_is_map = False, ty_is_proto3 = False, ty_is_dead = False\<rparr>"

definition pb_newtype :: "pb_alloc \<Rightarrow> nat \<Rightarrow> pb_State \<Rightarrow> (nat \<times> pb_State) option" where
  "pb_newtype al tname S =
     (if tname = 0 then Some (0, S)
      else do {
        (te, tab) \<leftarrow> pb_settable (al_block al) (types S) (ptr_key tname);
        let S = S\<lparr>types := tab\<rparr>;
        case te of None \<Rightarrow> Some (0, S)
        | Some te \<Rightarrow> do {
            e \<leftarrow> entry tab te;
            if en_val e \<noteq> 0 then do {
              S \<leftarrow> update_type (en_val e) (\<lambda>ty. ty\<lparr>ty_is_dead := False\<rparr>) S;
              Some (en_val e, S)
            }
            else do {
              (t, pool) \<leftarrow> pb_poolalloc (al_page al (pl_pages (typepool S))) (typepool S);
              let S = S\<lparr>typepool := pool\<rparr>;
              if t = 0 then Some (0, S)
              else do {
                name \<leftarrow> nt_heap (nametable S) tname;
                tab \<leftarrow> put_value te t tab;
                let ty = pbT_inittype\<lparr>ty_name := tname, ty_basename := pbT_basename (ne_name name)\<rparr>;
                Some (t, S\<lparr>types := tab, type_heap := (type_heap S)(t \<mapsto> ty)\<rparr>)
              }
            }
          }
      })"

section \<open>Deleting\<close>

definition pbT_freefield :: "nat \<Rightarrow> pb_State \<Rightarrow> pb_State option" where
  "pbT_freefield f S = do {
     fd \<leftarrow> field_heap S f;
     S \<leftarrow> release_name (fd_default fd) S;
     S \<leftarrow> release_name (fd_name fd) S;
     Some (S\<lparr>fieldpool := pb_poolfree f (fieldpool S), field_heap := (field_heap S)(f := None)\<rparr>)
   }"

text \<open>
  Deleting a type: the fields found by name leave the table of numbers and are released, then the fields
  that only have a number, then the names of the groups of alternatives.
\<close>

definition del_named :: "nat \<Rightarrow> nat \<Rightarrow> pb_State \<Rightarrow> pb_State option" where
  "del_named t f S = do {
     ty \<leftarrow> type_heap S t;
     fd \<leftarrow> field_heap S f;
     oi \<leftarrow> pb_gettable (ty_field_tags ty) (num_key (fd_number fd));
     S \<leftarrow> (case oi of None \<Rightarrow> Some S
       | Some i \<Rightarrow> do {
           e \<leftarrow> entry (ty_field_tags ty) i;
           if en_val e = f then do {
             tags \<leftarrow> clear_entry i (ty_field_tags ty);
             update_type t (\<lambda>ty. ty\<lparr>ty_field_tags := tags\<rparr>) S
           }
           else Some S
         });
     pbT_freefield f S
   }"

partial_function (option) del_names :: "nat \<Rightarrow> nat option \<Rightarrow> pb_State \<Rightarrow> pb_State option" where
  "del_names t e S = do {
     ty \<leftarrow> type_heap S t;
     e \<leftarrow> pb_nextentry (ty_field_names ty) e;
     case e of None \<Rightarrow> Some S
     | Some i \<Rightarrow> do {
         nf \<leftarrow> entry (ty_field_names ty) i;
         S \<leftarrow> (if en_val nf \<noteq> 0 then del_named t (en_val nf) S else Some S);
         del_names t (Some i) S
       }
   }"

partial_function (option) del_tags :: "nat pb_Table \<Rightarrow> nat option \<Rightarrow> pb_State \<Rightarrow> pb_State option" where
  "del_tags tags e S = do {
     e \<leftarrow> pb_nextentry tags e;
     case e of None \<Rightarrow> Some S
     | Some i \<Rightarrow> do {
         nf \<leftarrow> entry tags i;
         S \<leftarrow> (if en_val nf \<noteq> 0 then pbT_freefield (en_val nf) S else Some S);
         del_tags tags (Some i) S
       }
   }"

partial_function (option) del_oneofs :: "pb_OneofEntry pb_Table \<Rightarrow> nat option \<Rightarrow> pb_State \<Rightarrow> pb_State option" where
  "del_oneofs tab e S = do {
     e \<leftarrow> pb_nextentry tab e;
     case e of None \<Rightarrow> Some S
     | Some i \<Rightarrow> do {
         oe \<leftarrow> entry tab i;
         S \<leftarrow> release_name (oo_name (en_val oe)) S;
         del_oneofs tab (Some i) S
       }
   }"

definition pb_deltype :: "nat \<Rightarrow> pb_State \<Rightarrow> pb_State option" where
  "pb_deltype t S =
     (if t = 0 then Some S
      else do {
        S \<leftarrow> del_names t None S;
        ty \<leftarrow> type_heap S t;
        S \<leftarrow> del_tags (ty_field_tags ty) None S;
        S \<leftarrow> del_oneofs (ty_oneof_index ty) None S;
        update_type t (\<lambda>ty. pb_delsort (ty\<lparr>
            ty_field_tags := pb_freetable (ty_field_tags ty),
            ty_field_names := pb_freetable (ty_field_names ty),
            ty_oneof_index := pb_freetable (ty_oneof_index ty),
            ty_oneof_field := 0, ty_field_count := 0, ty_is_dead := True\<rparr>)) S
      })"

text \<open>Releasing the whole state: the types one after the other, then the tables, pages and names.\<close>

partial_function (option) del_types :: "nat option \<Rightarrow> pb_State \<Rightarrow> pb_State option" where
  "del_types e S = do {
     e \<leftarrow> pb_nextentry (types S) e;
     case e of None \<Rightarrow> Some S
     | Some i \<Rightarrow> do {
         te \<leftarrow> entry (types S) i;
         S \<leftarrow> (if en_val te \<noteq> 0 then pb_deltype (en_val te) S else Some S);
         del_types (Some i) S
       }
   }"

definition pb_free :: "pb_State \<Rightarrow> pb_State option" where
  "pb_free S = do {
     S \<leftarrow> del_types None S;
     let S = S\<lparr>types := pb_freetable (types S)\<rparr>;
     (released, tp) \<leftarrow> pb_freepool (typepool S);
     (released, fp) \<leftarrow> pb_freepool (fieldpool S);
     nt \<leftarrow> pbN_free (nametable S);
     Some (S\<lparr>typepool := tp, type_heap := type_heap S |` (- pool_objects (typepool S)),
       fieldpool := fp, field_heap := field_heap S |` (- pool_objects (fieldpool S)), nametable := nt\<rparr>)
   }"

section \<open>Fields\<close>

text \<open>
  A field that gets the name or the number of another one takes its place in the table.  The other one
  is released (\<open>drop_field\<close>) when the other table does not lead to it any more: \<open>found\<close> is what it
  leads to.
\<close>

definition drop_field :: "nat \<Rightarrow> nat \<Rightarrow> nat \<Rightarrow> pb_State \<Rightarrow> pb_State option" where
  "drop_field t old found S =
     (if found \<noteq> old then do {
        S \<leftarrow> pbT_freefield old S;
        update_type t (\<lambda>ty. ty\<lparr>ty_field_count := ty_field_count ty - 1\<rparr>) S
      }
      else Some S)"

definition new_field :: "nat \<Rightarrow> nat \<Rightarrow> uint32 \<Rightarrow> pb_Field" where
  "new_field fname t number = \<lparr>fd_name = fname, fd_type = t, fd_default = 0, fd_number = number, fd_sort_index = 0,
     fd_oneof_idx = 0, fd_type_id = 0, fd_repeated = False, fd_packed = False, fd_scalar = False\<rparr>"

definition replace_fields :: "nat \<Rightarrow> nat \<Rightarrow> nat \<Rightarrow> pb_State \<Rightarrow> pb_State option" where
  "replace_fields t byname bynum S = do {
     S \<leftarrow> (if byname \<noteq> 0 then do {
         fd \<leftarrow> field_heap S byname;
         found \<leftarrow> pb_field S t (fd_number fd);
         drop_field t byname found S
       } else Some S);
     if bynum \<noteq> 0 then do {
       fd \<leftarrow> field_heap S bynum;
       found \<leftarrow> pb_fname S t (fd_name fd);
       drop_field t bynum found S
     }
     else Some S
   }"

definition pb_newfield :: "pb_alloc \<Rightarrow> nat \<Rightarrow> nat \<Rightarrow> uint32 \<Rightarrow> pb_State \<Rightarrow> (nat \<times> pb_State) option" where
  "pb_newfield al t fname number S =
     (if fname = 0 then Some (0, S)
      else do {
        ty \<leftarrow> type_heap S t;
        (nf, names) \<leftarrow> pb_settable (al_block al) (ty_field_names ty) (ptr_key fname);
        (tf, tags) \<leftarrow> pb_settable (al_block al) (ty_field_tags ty) (num_key number);
        S \<leftarrow> update_type t (\<lambda>ty. ty\<lparr>ty_field_names := names, ty_field_tags := tags\<rparr>) S;
        case (nf, tf) of
          (Some nf, Some tf) \<Rightarrow> do {
            ne \<leftarrow> entry names nf;
            te \<leftarrow> entry tags tf;
            if en_val ne \<noteq> 0 \<and> en_val te = en_val ne then do {
              fd \<leftarrow> field_heap S (en_val ne);
              S \<leftarrow> release_name (fd_default fd) S;
              S \<leftarrow> update_field (en_val ne) (\<lambda>fd. fd\<lparr>fd_default := 0\<rparr>) S;
              Some (en_val ne, S)
            }
            else do {
              (f, pool) \<leftarrow> pb_poolalloc (al_page al (pl_pages (fieldpool S))) (fieldpool S);
              let S = S\<lparr>fieldpool := pool\<rparr>;
              if f = 0 then Some (0, S)
              else do {
                let S = S\<lparr>field_heap := (field_heap S)(f \<mapsto> new_field fname t number)\<rparr>;
                S \<leftarrow> replace_fields t (en_val ne) (en_val te) S;
                names \<leftarrow> put_value nf f names;
                tags \<leftarrow> put_value tf f tags;
                S \<leftarrow> update_type t (\<lambda>ty. pb_delsort (ty\<lparr>ty_field_count := ty_field_count ty + 1,
                    ty_field_names := names, ty_field_tags := tags\<rparr>)) S;
                Some (f, S)
              }
            }
          }
        | _ \<Rightarrow> Some (0, S)
      })"

text \<open>Removing a field from a table if it is the one found there; the count of removals goes up.\<close>

definition del_from :: "nat pb_Table \<Rightarrow> pb_Key \<Rightarrow> nat \<Rightarrow> nat \<Rightarrow> (nat \<times> nat pb_Table) option" where
  "del_from tab key f count = do {
     i \<leftarrow> pb_gettable tab key;
     case i of None \<Rightarrow> Some (count, tab)
     | Some i \<Rightarrow> do {
         e \<leftarrow> entry tab i;
         if en_val e = f then do { tab \<leftarrow> clear_entry i tab; Some (count + 1, tab) } else Some (count, tab)
       }
   }"

definition pb_delfield :: "nat \<Rightarrow> nat \<Rightarrow> pb_State \<Rightarrow> pb_State option" where
  "pb_delfield t f S =
     (if t = 0 \<or> f = 0 then Some S
      else do {
        fd \<leftarrow> field_heap S f;
        ty \<leftarrow> type_heap S t;
        (count, names) \<leftarrow> del_from (ty_field_names ty) (ptr_key (fd_name fd)) f 0;
        (count, tags) \<leftarrow> del_from (ty_field_tags ty) (num_key (fd_number fd)) f count;
        S \<leftarrow> update_type t (\<lambda>ty. ty\<lparr>ty_field_names := names, ty_field_tags := tags\<rparr>) S;
        S \<leftarrow> (if count \<noteq> 0 then do {
            S \<leftarrow> (if fd_oneof_idx fd \<noteq> 0 then update_type t (\<lambda>ty. ty\<lparr>ty_oneof_field := ty_oneof_field ty - 1\<rparr>) S
                  else Some S);
            S \<leftarrow> pbT_freefield f S;
            update_type t (\<lambda>ty. ty\<lparr>ty_field_count := ty_field_count ty - 1\<rparr>) S
          } else Some S);
        update_type t pb_delsort S
      })"

end
