(* ===== verification/Pb_Names_Correct.thy ===== *)
theory Pb_Names_Correct
  imports Pb_Names Pb_Table_Correct
begin

unbundle bit_operations_syntax

text \<open>
  The name table keeps every string once: its invariant \<open>names_ok\<close>, what the operations do to the
  relation \<open>named\<close> between addresses and strings, and that the cache of \<open>pb_name\<close> changes no answer.
\<close>

section \<open>The invariant\<close>

definition named :: "pb_NameTable \<Rightarrow> nat \<Rightarrow> uint8 list \<Rightarrow> bool" where
  "named nt a s \<longleftrightarrow> (\<exists>e. nt_heap nt a = Some e \<and> ne_name e = s)"

definition buckets_ok :: "nat \<Rightarrow> name_heap \<Rightarrow> nat list list \<Rightarrow> bool" where
  "buckets_ok n H hash \<longleftrightarrow> length hash = n \<and>
     (\<forall>i < n. distinct (hash ! i) \<and> set (hash ! i) = {a. \<exists>e. H a = Some e \<and> bucket n (ne_hash e) = i})"

definition entry_ok :: "pb_NameEntry \<Rightarrow> bool" where
  "entry_ok e \<longleftrightarrow> ne_hash e = pbN_calchash (ne_name e) \<and> length (ne_name e) < 65536 \<and>
     unat (ne_length e) = length (ne_name e)"

definition heap_ok :: "name_heap \<Rightarrow> bool" where
  "heap_ok H \<longleftrightarrow> finite (dom H) \<and> (\<forall>a e. H a = Some e \<longrightarrow> 0 < a \<and> a < 18446744073709551616 \<and> entry_ok e) \<and>
     (\<forall>a b d e. H a = Some d \<longrightarrow> H b = Some e \<longrightarrow> ne_name d = ne_name e \<longrightarrow> a = b)"

definition size_ok :: "nat \<Rightarrow> bool" where
  "size_ok n \<longleftrightarrow> (\<exists>k. 4 \<le> k \<and> k < 32 \<and> n = 2 ^ k)"

definition names_ok :: "pb_NameTable \<Rightarrow> bool" where
  "names_ok nt \<longleftrightarrow> heap_ok (nt_heap nt) \<and> nt_count nt = card (dom (nt_heap nt)) \<and>
     (nt_size nt = 0 \<and> nt_hash nt = [] \<and> nt_heap nt = Map.empty \<or>
      size_ok (nt_size nt) \<and> buckets_ok (nt_size nt) (nt_heap nt) (nt_hash nt))"

lemma heap_okD:
  assumes "heap_ok H" "H a = Some e"
  shows "0 < a" "a < 18446744073709551616" "entry_ok e"
  using assms by (auto simp: heap_ok_def)

lemma heap_ok_inj: "heap_ok H \<Longrightarrow> H a = Some d \<Longrightarrow> H b = Some e \<Longrightarrow> ne_name d = ne_name e \<Longrightarrow> a = b"
  unfolding heap_ok_def by blast

lemma names_init: "names_ok (pbN_init Map.empty)"
  by (simp add: names_ok_def pbN_init_def heap_ok_def)

lemma named_inj:
  assumes "names_ok nt" "named nt a s" "named nt b s"
  shows "a = b"
proof -
  obtain d e where "nt_heap nt a = Some d" "nt_heap nt b = Some e" "ne_name d = ne_name e"
    using assms(2,3) by (auto simp: named_def)
  moreover have "heap_ok (nt_heap nt)" using assms(1) by (simp add: names_ok_def)
  ultimately show ?thesis using heap_ok_inj by blast
qed

lemma bucket_less:
  assumes "size_ok n"
  shows "bucket n h < n"
proof -
  obtain k where k: "k < 32" "n = 2 ^ k" using assms by (auto simp: size_ok_def)
  have m: "(of_nat n - 1 :: uint64) = mask k" by (simp add: k(2) mask_eq_exp_minus_1)
  have "bucket n h = unat (take_bit k (ucast h :: uint64))" by (simp only: bucket_def m take_bit_eq_mask)
  also have "\<dots> < 2 ^ k" by (simp add: unsigned_take_bit_eq)
  finally show ?thesis by (simp only: k(2))
qed

lemma buckets_okD:
  assumes "buckets_ok n H hash" "i < n"
  shows "i < length hash" "distinct (hash ! i)" "set (hash ! i) = {a. \<exists>e. H a = Some e \<and> bucket n (ne_hash e) = i}"
  using assms by (simp_all add: buckets_ok_def)

section \<open>Lookup\<close>

lemma find_name_in:
  assumes "\<forall>a \<in> set chain. H a \<noteq> None" "heap_ok H"
  shows "\<exists>r. find_name_in H s h chain = Some r \<and>
    (if r = 0 then \<not> (\<exists>a \<in> set chain. \<exists>e. H a = Some e \<and> ne_hash e = h \<and> ne_name e = s)
     else r \<in> set chain \<and> (\<exists>e. H r = Some e \<and> ne_hash e = h \<and> ne_name e = s))"
  using assms(1)
proof (induction chain)
  case (Cons a chain)
  then obtain e where e: "H a = Some e" by auto
  have *: "unat (ne_length e) = length s \<and> take (length s) (ne_name e) = s \<longleftrightarrow> ne_name e = s"
    using heap_okD(3) [OF assms(2) e] by (auto simp: entry_ok_def)
  show ?case
  proof (cases "ne_hash e = h \<and> ne_name e = s")
    case True
    with e heap_okD(1) [OF assms(2) e] heap_okD(3) [OF assms(2) e] show ?thesis by (simp add: entry_ok_def)
  next
    case False
    have "\<not> (ne_hash e = h \<and> unat (ne_length e) = length s \<and> take (length s) (ne_name e) = s)" using False * by blast
    then have run: "find_name_in H s h (a # chain) = find_name_in H s h chain" by (simp only: find_name_in.simps e) auto
    obtain r where r: "find_name_in H s h chain = Some r"
      "if r = 0 then \<not> (\<exists>a \<in> set chain. \<exists>e. H a = Some e \<and> ne_hash e = h \<and> ne_name e = s)
       else r \<in> set chain \<and> (\<exists>e. H r = Some e \<and> ne_hash e = h \<and> ne_name e = s)"
      using Cons by auto
    with run False e show ?thesis by (cases "r = 0") auto
  qed
qed simp

lemma getname:
  assumes "names_ok nt"
  shows "\<exists>r. pbN_getname nt s h = Some r \<and>
    (if r = 0 then h = pbN_calchash s \<longrightarrow> (\<forall>a. \<not> named nt a s) else named nt r s \<and> h = pbN_calchash s)"
proof (cases "nt_hash nt = []")
  case True
  have "\<not> size_ok 0" by (simp add: size_ok_def)
  with True assms have "nt_heap nt = Map.empty" by (auto simp: names_ok_def buckets_ok_def)
  with True show ?thesis by (simp add: pbN_getname_def named_def)
next
  case False
  with assms have ok: "size_ok (nt_size nt)" "buckets_ok (nt_size nt) (nt_heap nt) (nt_hash nt)" "heap_ok (nt_heap nt)"
    by (auto simp: names_ok_def)
  let ?i = "bucket (nt_size nt) h" and ?H = "nt_heap nt"
  note b = buckets_okD [OF ok(2) bucket_less [OF ok(1), of h]]
  obtain r where r: "find_name_in ?H s h (nt_hash nt ! ?i) = Some r"
    "if r = 0 then \<not> (\<exists>a \<in> set (nt_hash nt ! ?i). \<exists>e. ?H a = Some e \<and> ne_hash e = h \<and> ne_name e = s)
     else r \<in> set (nt_hash nt ! ?i) \<and> (\<exists>e. ?H r = Some e \<and> ne_hash e = h \<and> ne_name e = s)"
    using find_name_in [of "nt_hash nt ! ?i" ?H s h] b(3) ok(3) by auto
  have run: "pbN_getname nt s h = Some r" using False b(1) r(1) by (simp add: pbN_getname_def)
  show ?thesis
  proof (cases "r = 0")
    case True
    have "\<not> named nt a s" if "h = pbN_calchash s" for a
    proof
      assume "named nt a s"
      then obtain e where e: "?H a = Some e" "ne_name e = s" by (auto simp: named_def)
      then have "ne_hash e = h" using heap_okD(3) [OF ok(3) e(1)] that by (simp add: entry_ok_def)
      moreover from this e have "a \<in> set (nt_hash nt ! ?i)" by (simp add: b(3))
      ultimately show False using r(2) True e by auto
    qed
    with run True show ?thesis by simp
  next
    case False
    with r(2) obtain e where e: "?H r = Some e" "ne_hash e = h" "ne_name e = s" by auto
    with heap_okD(3) [OF ok(3) e(1)] have "h = pbN_calchash s" by (simp add: entry_ok_def)
    with run False e show ?thesis by (auto simp: named_def)
  qed
qed

section \<open>Growth\<close>

lemma rehash_chain:
  assumes "size_ok n" "\<forall>a \<in> set chain. H a \<noteq> None" "length hash = n"
  shows "\<exists>hash'. rehash_chain H n chain hash = Some hash' \<and> length hash' = n \<and>
    (\<forall>i < n. hash' ! i = rev (filter (\<lambda>a. bucket n (ne_hash (the (H a))) = i) chain) @ hash ! i)"
  using assms(2,3)
proof (induction chain arbitrary: hash)
  case (Cons a chain)
  then obtain e where e: "H a = Some e" by auto
  let ?b = "bucket n (ne_hash e)"
  have b: "?b < length hash" using bucket_less [OF assms(1)] Cons.prems(2) by simp
  obtain hash' where "rehash_chain H n chain (hash[?b := a # hash ! ?b]) = Some hash'" "length hash' = n"
    "\<forall>i < n. hash' ! i = rev (filter (\<lambda>a. bucket n (ne_hash (the (H a))) = i) chain) @ hash[?b := a # hash ! ?b] ! i"
    using Cons.IH [of "hash[?b := a # hash ! ?b]"] Cons.prems by auto
  with e b Cons.prems(2) show ?case by (auto simp: nth_list_update)
qed simp

lemma rehash:
  assumes "size_ok n" "\<forall>a \<in> set (concat old). H a \<noteq> None" "length hash = n"
  shows "\<exists>hash'. rehash H n old hash = Some hash' \<and> length hash' = n \<and>
    (\<forall>i < n. hash' ! i = rev (filter (\<lambda>a. bucket n (ne_hash (the (H a))) = i) (concat old)) @ hash ! i)"
  using assms(2,3)
proof (induction old arbitrary: hash)
  case (Cons chain old)
  obtain hash1 where 1: "rehash_chain H n chain hash = Some hash1" "length hash1 = n"
    "\<forall>i < n. hash1 ! i = rev (filter (\<lambda>a. bucket n (ne_hash (the (H a))) = i) chain) @ hash ! i"
    using rehash_chain [OF assms(1), of chain H hash] Cons.prems by auto
  moreover obtain hash2 where "rehash H n old hash1 = Some hash2" "length hash2 = n"
    "\<forall>i < n. hash2 ! i = rev (filter (\<lambda>a. bucket n (ne_hash (the (H a))) = i) (concat old)) @ hash1 ! i"
    using Cons.IH [of hash1] Cons.prems 1(2) by auto
  ultimately show ?case by auto
qed simp

lemma in_concat_nth: "x \<in> set (concat xs) \<longleftrightarrow> (\<exists>i < length xs. x \<in> set (xs ! i))"
  unfolding set_concat by (metis UN_iff in_set_conv_nth)

lemma distinct_concat_nth:
  "(\<And>i. i < length xs \<Longrightarrow> distinct (xs ! i)) \<Longrightarrow>
   (\<And>i j x. i < length xs \<Longrightarrow> j < length xs \<Longrightarrow> x \<in> set (xs ! i) \<Longrightarrow> x \<in> set (xs ! j) \<Longrightarrow> i = j) \<Longrightarrow>
   distinct (concat xs)"
proof (induction xs)
  case (Cons x xs)
  have "distinct (concat xs)"
  proof (rule Cons.IH)
    show "distinct (xs ! i)" if "i < length xs" for i using Cons.prems(1) [of "Suc i"] that by simp
    show "i = j" if "i < length xs" "j < length xs" "y \<in> set (xs ! i)" "y \<in> set (xs ! j)" for i j y
      using Cons.prems(2) [of "Suc i" "Suc j" y] that by simp
  qed
  moreover have "y \<notin> set (concat xs)" if "y \<in> set x" for y
  proof
    assume "y \<in> set (concat xs)"
    then obtain j where "j < length xs" "y \<in> set (xs ! j)" unfolding in_concat_nth by blast
    with Cons.prems(2) [of 0 "Suc j" y] that show False by simp
  qed
  ultimately show ?case using Cons.prems(1) [of 0] by auto
qed simp

lemma buckets_concat:
  assumes "buckets_ok n H hash" "size_ok n"
  shows "distinct (concat hash)" "set (concat hash) = dom H"
proof -
  show "distinct (concat hash)"
    using assms(1) by (intro distinct_concat_nth) (auto simp: buckets_ok_def)
  show "set (concat hash) = dom H"
  proof (intro equalityI subsetI)
    fix a assume "a \<in> set (concat hash)"
    then obtain i where "i < length hash" "a \<in> set (hash ! i)" unfolding in_concat_nth by blast
    with assms(1) show "a \<in> dom H" by (auto simp: buckets_ok_def)
  next
    fix a assume "a \<in> dom H"
    then obtain e where e: "H a = Some e" by auto
    have "bucket n (ne_hash e) < n" by (rule bucket_less [OF assms(2)])
    with buckets_okD [OF assms(1) this] e show "a \<in> set (concat hash)" unfolding in_concat_nth by blast
  qed
qed

text \<open>The limit of the size: \<open>PB_MAX_HASHSIZE\<close> over the size of a pointer.\<close>

lemma grow_names:
  assumes "n = 0 \<or> size_ok n"
  shows "\<exists>m. grow_table (PB_MAX_HASHSIZE div ptr_size) (n * 2) PB_MIN_STRTABLE_SIZE = Some m \<and>
    (if n * 2 \<le> m then size_ok m \<and> n < m \<and> m = max 16 (2 * n) else PB_MAX_HASHSIZE div ptr_size \<le> n)"
proof -
  have "n * 2 = 0 \<or> (\<exists>b. n * 2 = 2 ^ b)"
    using assms by (auto simp: size_ok_def) (metis power_Suc2)
  then obtain b where b: "n * 2 = 0 \<or> n * 2 = 2 ^ b" by blast
  obtain m c where m: "grow_table (PB_MAX_HASHSIZE div ptr_size) (n * 2) 16 = Some m" "4 \<le> c" "m = 2 ^ c"
    "m = 16 \<or> m < 2 * (PB_MAX_HASHSIZE div ptr_size)"
    "m < n * 2 \<and> PB_MAX_HASHSIZE div ptr_size \<le> m \<and> 2 * m \<le> n * 2 \<or> m = max 16 (n * 2)"
    using succeedsD [OF grow_table [of 4 4 "n * 2" b "PB_MAX_HASHSIZE div ptr_size"]] b by auto
  have "m < 2 ^ 32" using m(4) by (auto simp: PB_MAX_HASHSIZE_def ptr_size_def)
  then have "(2 :: nat) ^ c < 2 ^ 32" by (simp add: m(3))
  then have "c < 32" by (rule power_less_imp_less_exp [rotated]) simp
  with m(2,3) have "size_ok m" by (auto simp: size_ok_def)
  with m(1,5) show ?thesis by (auto simp: PB_MIN_STRTABLE_SIZE_def mult.commute)
qed

text \<open>The table of names cannot grow: its size is at the limit, or the allocator refuses the array.\<close>

definition no_growth :: "pb_alloc \<Rightarrow> pb_NameTable \<Rightarrow> bool" where
  "no_growth al nt \<longleftrightarrow> PB_MAX_HASHSIZE div ptr_size \<le> nt_size nt \<or> \<not> al_block al (ptr_size * max 16 (2 * nt_size nt))"

lemma names_resize:
  assumes ok: "names_ok nt"
  shows "\<exists>r nt'. pbN_resize al nt (nt_size nt * 2) = Some (r, nt') \<and> names_ok nt' \<and>
    nt_heap nt' = nt_heap nt \<and> nt_count nt' = nt_count nt \<and>
    (if r = 0 then nt' = nt \<and> no_growth al nt else size_ok (nt_size nt') \<and> nt_size nt < nt_size nt')"
proof -
  have "nt_size nt = 0 \<or> size_ok (nt_size nt)" using ok by (auto simp: names_ok_def)
  then obtain m where m: "grow_table (PB_MAX_HASHSIZE div ptr_size) (nt_size nt * 2) PB_MIN_STRTABLE_SIZE = Some m"
    "if nt_size nt * 2 \<le> m then size_ok m \<and> nt_size nt < m \<and> m = max 16 (2 * nt_size nt)
     else PB_MAX_HASHSIZE div ptr_size \<le> nt_size nt"
    using grow_names by blast
  show ?thesis
  proof (cases "m < nt_size nt * 2 \<or> \<not> al_block al (m * ptr_size)")
    case True
    then have "no_growth al nt" using m(2) by (auto simp: no_growth_def mult.commute split: if_splits)
    with True m(1) ok show ?thesis by (auto simp: pbN_resize_def)
  next
    case False
    with m(2) have big: "size_ok m" "nt_size nt < m" by (auto split: if_splits)
    have old: "distinct (concat (nt_hash nt)) \<and> set (concat (nt_hash nt)) = dom (nt_heap nt)"
      using ok buckets_concat by (fastforce simp: names_ok_def)
    have "\<forall>a \<in> set (concat (nt_hash nt)). nt_heap nt a \<noteq> None" using old by (metis domIff)
    then obtain hash where hash: "rehash (nt_heap nt) m (nt_hash nt) (replicate m []) = Some hash" "length hash = m"
      "\<forall>i < m. hash ! i = rev (filter (\<lambda>a. bucket m (ne_hash (the (nt_heap nt a))) = i) (concat (nt_hash nt)))"
      using rehash [OF big(1), of "nt_hash nt" "nt_heap nt" "replicate m []"] by auto
    have "buckets_ok m (nt_heap nt) hash"
      using hash(2,3) old by (auto simp: buckets_ok_def)
    with False m(1) hash(1) big ok show ?thesis
      by (auto simp: pbN_resize_def names_ok_def)
  qed
qed

section \<open>New names\<close>

definition names_fresh :: "pb_alloc \<Rightarrow> bool" where
  "names_fresh al \<longleftrightarrow> (\<forall>H n. al_name al H n = 0 \<or> H (al_name al H n) = None \<and> al_name al H n < 18446744073709551616)"

lemma insert_name:
  assumes ok: "names_ok nt" and size: "size_ok (nt_size nt)" and new: "\<forall>b. \<not> named nt b s"
    and a: "nt_heap nt a = None" "0 < a" "a < 18446744073709551616" and len: "length s < 65536"
    and h: "h = pbN_calchash s" and i: "i = bucket (nt_size nt) h" and e: "entry_ok e" "ne_hash e = h" "ne_name e = s"
  shows "names_ok (nt\<lparr>nt_heap := (nt_heap nt)(a \<mapsto> e), nt_hash := (nt_hash nt)[i := a # nt_hash nt ! i],
    nt_count := nt_count nt + 1\<rparr>)"
proof -
  have b: "buckets_ok (nt_size nt) (nt_heap nt) (nt_hash nt)" and H: "heap_ok (nt_heap nt)"
    and c: "nt_count nt = card (dom (nt_heap nt))"
    using ok size by (auto simp: names_ok_def size_ok_def)
  have "buckets_ok (nt_size nt) ((nt_heap nt)(a \<mapsto> e)) ((nt_hash nt)[i := a # nt_hash nt ! i])"
    using b a(1) e(2) bucket_less [OF size, of h] unfolding buckets_ok_def
    by (auto simp: nth_list_update i)
  moreover have "heap_ok ((nt_heap nt)(a \<mapsto> e))"
  proof -
    have "ne_name d \<noteq> ne_name e" if "nt_heap nt b = Some d" for b d using new that e(3) by (auto simp: named_def)
    with H a e(1) show ?thesis unfolding heap_ok_def by (fastforce split: if_splits)
  qed
  moreover have "card (dom ((nt_heap nt)(a \<mapsto> e))) = nt_count nt + 1"
    using H a(1) c by (auto simp: heap_ok_def card_insert_if)
  ultimately show ?thesis using size by (simp add: names_ok_def)
qed

text \<open>There is no memory for a new name: the table is full and cannot grow, or the name gets no block.\<close>

definition no_name_memory :: "pb_alloc \<Rightarrow> pb_NameTable \<Rightarrow> uint8 list \<Rightarrow> bool" where
  "no_name_memory al nt s \<longleftrightarrow> nt_size nt \<le> nt_count nt \<and> no_growth al nt \<or>
     al_name al (nt_heap nt) (sizeof_NameEntry + length s + 1) = 0"

lemma newname_insert:
  assumes ok: "names_ok nt" and new: "\<forall>b. \<not> named nt b s" and len: "length s < 65536" and al: "names_fresh al"
  shows "\<exists>a nt'. pbN_newname al nt s (pbN_calchash s) = Some (a, nt') \<and> names_ok nt' \<and>
    (if a = 0 then nt_heap nt' = nt_heap nt \<and> no_name_memory al nt s
     else nt_heap nt a = None \<and> a < 18446744073709551616 \<and>
       (\<exists>e. nt_heap nt' = (nt_heap nt)(a \<mapsto> e) \<and> ne_name e = s \<and> ne_refcount e = 0))"
proof -
  obtain r nt1 where r: "(if nt_size nt \<le> nt_count nt then pbN_resize al nt (nt_size nt * 2) else Some (1, nt)) = Some (r, nt1)"
    "names_ok nt1" "nt_heap nt1 = nt_heap nt" "r \<noteq> 0 \<longrightarrow> size_ok (nt_size nt1)"
    "r = 0 \<longrightarrow> nt_size nt \<le> nt_count nt \<and> no_growth al nt"
  proof (cases "nt_size nt \<le> nt_count nt")
    case True
    with names_resize [OF ok, of al] that show ?thesis by (auto split: if_splits)
  next
    case False
    with ok have "size_ok (nt_size nt)" by (auto simp: names_ok_def)
    with False ok that [of 1 nt] show ?thesis by auto
  qed
  show ?thesis
  proof (cases "r = 0 \<or> al_name al (nt_heap nt) (sizeof_NameEntry + length s + 1) = 0")
    case True
    then have "no_name_memory al nt s" using r(5) by (auto simp: no_name_memory_def)
    with True r(1-3) show ?thesis by (auto simp: pbN_newname_def)
  next
    case False
    define a where "a = al_name al (nt_heap nt) (sizeof_NameEntry + length s + 1)"
    define i where "i = bucket (nt_size nt1) (pbN_calchash s)"
    define e where "e = \<lparr>ne_hash = pbN_calchash s, ne_length = of_nat (length s), ne_refcount = 0, ne_name = s\<rparr>"
    have size: "size_ok (nt_size nt1)" using False r(4) by simp
    have b: "buckets_ok (nt_size nt1) (nt_heap nt1) (nt_hash nt1)" using r(2) size by (auto simp: names_ok_def size_ok_def)
    have a: "nt_heap nt a = None" "0 < a" "a < 18446744073709551616"
      using al [unfolded names_fresh_def, rule_format, of "nt_heap nt" "sizeof_NameEntry + length s + 1"] False
      by (auto simp: a_def)
    have e: "entry_ok e" using len by (simp add: entry_ok_def e_def unat_of_nat)
    have i: "i < length (nt_hash nt1)" using buckets_okD(1) [OF b bucket_less [OF size]] by (simp add: i_def)
    define nt' where "nt' = nt1\<lparr>nt_heap := (nt_heap nt1)(a \<mapsto> e), nt_hash := (nt_hash nt1)[i := a # nt_hash nt1 ! i],
        nt_count := nt_count nt1 + 1\<rparr>"
    have ok': "names_ok nt'"
      unfolding nt'_def
      by (rule insert_name [OF r(2) size _ _ a(2,3) len refl i_def e])
        (use new a(1) r(3) in \<open>simp_all add: e_def named_def\<close>)
    have "pbN_newname al nt s (pbN_calchash s) = Some (a, nt')"
      using r(1) False i
      by (simp add: pbN_newname_def r(3) Let_def i_def [symmetric] e_def [symmetric] nt'_def a_def)
    moreover have "nt_heap nt' = (nt_heap nt)(a \<mapsto> e)" by (simp add: nt'_def r(3))
    ultimately show ?thesis using ok' a by (auto simp: e_def)
  qed
qed

lemma update_refcount:
  assumes "names_ok nt" "nt_heap nt a = Some e"
  shows "names_ok (nt\<lparr>nt_heap := (nt_heap nt)(a \<mapsto> e\<lparr>ne_refcount := c\<rparr>)\<rparr>)"
proof -
  have dom: "dom ((nt_heap nt)(a \<mapsto> e\<lparr>ne_refcount := c\<rparr>)) = dom (nt_heap nt)" using assms(2) by auto
  have "heap_ok ((nt_heap nt)(a \<mapsto> e\<lparr>ne_refcount := c\<rparr>))"
  proof -
    have H: "heap_ok (nt_heap nt)" using assms(1) by (simp add: names_ok_def)
    have "ne_name e = ne_name d \<Longrightarrow> nt_heap nt b = Some d \<Longrightarrow> b = a" for b d
      using heap_ok_inj [OF H assms(2), of b d] by simp
    moreover have "entry_ok (e\<lparr>ne_refcount := c\<rparr>)" using heap_okD(3) [OF H assms(2)] by (simp add: entry_ok_def)
    ultimately show ?thesis using H assms(2) unfolding heap_ok_def dom by (fastforce split: if_splits)
  qed
  moreover have "buckets_ok n ((nt_heap nt)(a \<mapsto> e\<lparr>ne_refcount := c\<rparr>)) hash \<longleftrightarrow> buckets_ok n (nt_heap nt) hash" for n hash
  proof -
    have "{b. \<exists>d. ((nt_heap nt)(a \<mapsto> e\<lparr>ne_refcount := c\<rparr>)) b = Some d \<and> bucket n (ne_hash d) = i} =
        {b. \<exists>d. nt_heap nt b = Some d \<and> bucket n (ne_hash d) = i}" for i
      using assms(2) by auto
    then show ?thesis by (simp only: buckets_ok_def)
  qed
  moreover have "insert a (dom (nt_heap nt)) = dom (nt_heap nt)" using assms(2) by auto
  ultimately show ?thesis using assms by (auto simp: names_ok_def)
qed

section \<open>Deletion\<close>

lemma unlink_name: "distinct chain \<Longrightarrow>
    unlink_name a chain = (if a \<in> set chain then Some (removeAll a chain) else None)"
  by (induction chain) auto

lemma delname_removes:
  assumes ok: "names_ok nt" and a: "nt_heap nt a = Some e"
  shows "\<exists>nt'. pbN_delname nt a = Some nt' \<and> names_ok nt' \<and> nt_heap nt' = (nt_heap nt)(a := None)"
proof -
  have size: "size_ok (nt_size nt)" and b: "buckets_ok (nt_size nt) (nt_heap nt) (nt_hash nt)"
    and H: "heap_ok (nt_heap nt)" and c: "nt_count nt = card (dom (nt_heap nt))"
    using ok a by (auto simp: names_ok_def)
  define i where "i = bucket (nt_size nt) (ne_hash e)"
  have i: "i < nt_size nt" by (simp add: i_def bucket_less [OF size])
  note bi = buckets_okD [OF b i]
  have mem: "a \<in> set (nt_hash nt ! i)" using a by (simp only: bi(3)) (auto simp: i_def)
  define nt' where "nt' = nt\<lparr>nt_hash := (nt_hash nt)[i := removeAll a (nt_hash nt ! i)], nt_count := nt_count nt - 1,
      nt_heap := (nt_heap nt)(a := None)\<rparr>"
  have run: "pbN_delname nt a = Some nt'"
    using a bi(1) mem unlink_name [OF bi(2), of a] unfolding pbN_delname_def
    by (simp add: i_def [symmetric] nt'_def)
  have "buckets_ok (nt_size nt) ((nt_heap nt)(a := None)) ((nt_hash nt)[i := removeAll a (nt_hash nt ! i)])"
    using b a i unfolding buckets_ok_def by (auto simp: nth_list_update i_def distinct_removeAll)
  moreover have "heap_ok ((nt_heap nt)(a := None))"
    using H unfolding heap_ok_def by (auto split: if_splits)
  moreover have "nt_count nt - 1 = card (dom ((nt_heap nt)(a := None)))"
    using H a c by (auto simp: heap_ok_def card_Diff_singleton_if)
  ultimately have "names_ok nt'" using size by (simp add: names_ok_def nt'_def)
  with run show ?thesis by (auto simp: nt'_def)
qed

section \<open>Names with reference counts\<close>

definition refs :: "pb_NameTable \<Rightarrow> nat \<Rightarrow> 16 word" where
  "refs nt a = (case nt_heap nt a of None \<Rightarrow> 0 | Some e \<Rightarrow> ne_refcount e)"

lemma usename:
  assumes "names_ok nt" "nt_heap nt a = Some e" "a \<noteq> 0"
  shows "pb_usename a nt = Some (nt\<lparr>nt_heap := (nt_heap nt)(a \<mapsto> e\<lparr>ne_refcount := ne_refcount e + 1\<rparr>)\<rparr>)"
    "names_ok (nt\<lparr>nt_heap := (nt_heap nt)(a \<mapsto> e\<lparr>ne_refcount := ne_refcount e + 1\<rparr>)\<rparr>)"
  using assms update_refcount by (simp_all add: pb_usename_def)

text \<open>What \<open>pb_newname\<close> does, with the heap of names as the state.\<close>

definition interned :: "pb_alloc \<Rightarrow> pb_NameTable \<Rightarrow> uint8 list \<Rightarrow> nat \<Rightarrow> pb_NameTable \<Rightarrow> bool" where
  "interned al nt s a nt' \<longleftrightarrow> names_ok nt' \<and>
     (if a = 0 then nt_heap nt' = nt_heap nt \<and> (\<forall>b. \<not> named nt b s) \<and> no_name_memory al nt s
      else (\<exists>e. nt_heap nt' = (nt_heap nt)(a \<mapsto> e) \<and> ne_name e = s \<and> ne_refcount e = refs nt a + 1) \<and>
        a < 18446744073709551616 \<and> (nt_heap nt a = None \<or> named nt a s))"

lemma newname:
  assumes ok: "names_ok nt" and len: "length s < 65536" and al: "names_fresh al"
  shows "\<exists>a nt'. pb_newname al (Some s) nt = Some (a, nt') \<and> interned al nt s a nt'"
proof -
  obtain r where r: "pbN_getname nt s (pbN_calchash s) = Some r"
    "if r = 0 then \<forall>a. \<not> named nt a s else named nt r s"
    using getname [OF ok, of s "pbN_calchash s"] by auto
  show ?thesis
  proof (cases "r = 0")
    case False
    then obtain e where e: "nt_heap nt r = Some e" "ne_name e = s" using r(2) by (auto simp: named_def)
    with False r have "pb_newname al (Some s) nt =
        Some (r, nt\<lparr>nt_heap := (nt_heap nt)(r \<mapsto> e\<lparr>ne_refcount := ne_refcount e + 1\<rparr>)\<rparr>)"
      by (simp add: pb_newname_def usename [OF ok e(1) False])
    moreover have "r < 18446744073709551616" using ok heap_okD(2) [of "nt_heap nt", OF _ e(1)] by (simp add: names_ok_def)
    ultimately show ?thesis
      using False e r(2) usename(2) [OF ok e(1) False] by (auto simp: interned_def refs_def)
  next
    case True
    with r(2) have "\<forall>a. \<not> named nt a s" by simp
    from newname_insert [OF ok this len al] obtain a nt1 where
      a: "pbN_newname al nt s (pbN_calchash s) = Some (a, nt1)" "names_ok nt1"
        "if a = 0 then nt_heap nt1 = nt_heap nt \<and> no_name_memory al nt s
         else nt_heap nt a = None \<and> a < 18446744073709551616 \<and>
           (\<exists>e. nt_heap nt1 = (nt_heap nt)(a \<mapsto> e) \<and> ne_name e = s \<and> ne_refcount e = 0)"
      by blast
    show ?thesis
    proof (cases "a = 0")
      case True
      with a \<open>r = 0\<close> r show ?thesis by (auto simp: pb_newname_def interned_def)
    next
      case False
      with a obtain e where e: "nt_heap nt a = None" "nt_heap nt1 = (nt_heap nt)(a \<mapsto> e)" "ne_name e = s"
        "ne_refcount e = 0" "a < 18446744073709551616" by auto
      then have e1: "nt_heap nt1 a = Some e" by simp
      have "pb_newname al (Some s) nt =
          Some (a, nt1\<lparr>nt_heap := (nt_heap nt1)(a \<mapsto> e\<lparr>ne_refcount := ne_refcount e + 1\<rparr>)\<rparr>)"
        using a(1) \<open>r = 0\<close> r(1) False by (simp add: pb_newname_def usename [OF a(2) e1 False])
      with usename(2) [OF a(2) e1 False] e False show ?thesis
        by (auto simp: interned_def refs_def)
    qed
  qed
qed

lemma interned_named:
  assumes "interned al nt s a nt'" "a \<noteq> 0"
  shows "named nt' b x \<longleftrightarrow> named nt b x \<or> b = a \<and> x = s"
  using assms by (auto simp: interned_def named_def split: if_splits)

lemma delname:
  assumes ok: "names_ok nt" and e: "nt_heap nt a = Some e"
  shows "\<exists>nt'. pb_delname a nt = Some nt' \<and> names_ok nt' \<and>
    nt_heap nt' = (nt_heap nt)(a := if ne_refcount e \<le> 1 then None else Some (e\<lparr>ne_refcount := ne_refcount e - 1\<rparr>))"
proof -
  have "a \<noteq> 0" using ok heap_okD(1) [of "nt_heap nt", OF _ e] by (auto simp: names_ok_def)
  with delname_removes [OF ok e] update_refcount [OF ok e] e show ?thesis
    by (cases "ne_refcount e \<le> 1") (simp_all add: pb_delname_def)
qed

lemma free_chain:
  "distinct chain \<Longrightarrow> set chain \<subseteq> dom H \<Longrightarrow> free_chain chain H = Some (H |` (- set chain))"
proof (induction chain arbitrary: H)
  case (Cons a chain)
  then obtain e where "H a = Some e" by auto
  moreover have "set chain \<subseteq> dom (H(a := None))" using Cons.prems by auto
  moreover have "(H(a := None)) |` (- set chain) = H |` (- set (a # chain))"
    by (auto simp: restrict_map_def fun_eq_iff)
  ultimately show ?case using Cons by simp
qed (simp add: restrict_map_def)

lemma free_chains:
  "distinct (concat heads) \<Longrightarrow> set (concat heads) \<subseteq> dom H \<Longrightarrow>
   free_chains heads H = Some (H |` (- set (concat heads)))"
proof (induction heads arbitrary: H)
  case (Cons chain heads)
  have "free_chain chain H = Some (H |` (- set chain))" using Cons.prems by (intro free_chain) auto
  moreover have "set (concat heads) \<subseteq> dom (H |` (- set chain))" using Cons.prems by auto
  moreover have "(H |` (- set chain)) |` (- set (concat heads)) = H |` (- set (concat (chain # heads)))"
    by (auto simp: restrict_map_def fun_eq_iff)
  ultimately show ?case using Cons by simp
qed (simp add: restrict_map_def)

lemma names_free: "names_ok nt \<Longrightarrow> pbN_free nt = Some (pbN_init Map.empty)"
proof -
  assume ok: "names_ok nt"
  then have "distinct (concat (nt_hash nt)) \<and> set (concat (nt_hash nt)) = dom (nt_heap nt)"
    using buckets_concat by (fastforce simp: names_ok_def)
  moreover have "nt_heap nt |` (- dom (nt_heap nt)) = Map.empty"
    by (auto simp: restrict_map_def fun_eq_iff domIff)
  ultimately show ?thesis using free_chains [of "nt_hash nt" "nt_heap nt"] by (simp add: pbN_free_def)
qed

section \<open>Properties\<close>

text \<open>
  C23. Asking for the name of a string below 65536 bytes returns the one address that stands for it: the
  address it had, or a new one.  Its reference count goes up by one (in 16 bits), no other name changes,
  and afterwards exactly one address stands for the string.  It returns null, and no name changes, only
  if the string had no address and there is no memory for one: the allocator refuses the block of the
  entry, or the table is full and its array cannot be replaced by a larger one.
\<close>
theorem newname_interns:
  assumes "names_ok nt" "length s < 65536" "names_fresh al"
  shows "\<exists>a nt'. pb_newname al (Some s) nt = Some (a, nt') \<and> names_ok nt' \<and>
    (if a = 0 then nt_heap nt' = nt_heap nt \<and> (\<forall>b. \<not> named nt b s) \<and>
       (al_name al (nt_heap nt) (sizeof_NameEntry + length s + 1) = 0 \<or>
        nt_size nt \<le> nt_count nt \<and>
          (PB_MAX_HASHSIZE div ptr_size \<le> nt_size nt \<or> \<not> al_block al (ptr_size * max 16 (2 * nt_size nt))))
     else (\<forall>b. named nt' b s \<longleftrightarrow> b = a) \<and> refs nt' a = refs nt a + 1 \<and>
       (\<forall>b. named nt b s \<longrightarrow> b = a) \<and> (\<forall>b. b \<noteq> a \<longrightarrow> nt_heap nt' b = nt_heap nt b))"
proof -
  obtain a nt' where a: "pb_newname al (Some s) nt = Some (a, nt')" "interned al nt s a nt'"
    using newname [OF assms] by blast
  have ok: "names_ok nt'" using a(2) by (simp add: interned_def)
  show ?thesis
  proof (cases "a = 0")
    case True
    with a show ?thesis by (auto simp: interned_def no_name_memory_def no_growth_def)
  next
    case False
    note n = interned_named [OF a(2) False]
    then have "named nt' a s" by blast
    with named_inj [OF ok, of _ s] n have "(named nt' b s \<longleftrightarrow> b = a) \<and> (named nt b s \<longrightarrow> b = a)" for b by blast
    moreover have "refs nt' a = refs nt a + 1 \<and> (\<forall>b. b \<noteq> a \<longrightarrow> nt_heap nt' b = nt_heap nt b)"
      using a(2) False by (auto simp: interned_def refs_def [of nt'])
    ultimately show ?thesis using a(1) ok False by auto
  qed
qed

text \<open>
  C24. The cache of \<open>pb_name\<close> is transparent: whatever it holds (hash values of other strings that were
  at the same address, or garbage), the answer is the one given without a cache.
\<close>
theorem name_cache_transparent:
  assumes "names_ok nt" "length (ca_slots c) = PB_CACHE_SIZE"
  shows "\<exists>r c'. pb_name nt p s None = Some (r, None) \<and> pb_name nt p s (Some c) = Some (r, Some c') \<and>
    length (ca_slots c') = PB_CACHE_SIZE"
proof (cases "p = 0")
  case False
  have i: "cache_index p < length (ca_slots c)" by (simp add: cache_index_def assms(2) PB_CACHE_SIZE_def)
  obtain r where r: "pbN_getname nt s (pbN_calchash s) = Some r"
    "if r = 0 then \<forall>a. \<not> named nt a s else named nt r s"
    using getname [OF assms(1), of s "pbN_calchash s"] by auto
  have cached: "\<exists>q. pbN_getname nt s h = Some q \<and> (q \<noteq> 0 \<longrightarrow> q = r)" for h
  proof -
    obtain q where q: "pbN_getname nt s h = Some q" "q \<noteq> 0 \<longrightarrow> h = pbN_calchash s"
      using getname [OF assms(1), of s h] by (auto split: if_splits)
    with r(1) show ?thesis by auto
  qed
  have "\<exists>q second c1. cache_probe nt p s c = Some (q, second, c1) \<and> (q \<noteq> 0 \<longrightarrow> q = r) \<and>
      length (ca_slots c1) = PB_CACHE_SIZE"
  proof -
    obtain slot0 slot1 where s: "ca_slots c ! cache_index p = (slot0, slot1)" by fastforce
    from cached [of "cs_hash slot0"] cached [of "cs_hash slot1"] show ?thesis
      using i assms(2) by (auto simp: cache_probe_def s)
  qed
  then obtain q second c1 where q: "cache_probe nt p s c = Some (q, second, c1)" "q \<noteq> 0 \<longrightarrow> q = r"
    "length (ca_slots c1) = PB_CACHE_SIZE" by blast
  have "\<exists>c2. cache_store p second h c1 = Some c2 \<and> length (ca_slots c2) = PB_CACHE_SIZE" for h
    using i assms(2) q(3) by (cases "ca_slots c1 ! cache_index p") (simp add: cache_store_def)
  then obtain c2 where c2: "cache_store p second (pbN_calchash s) c1 = Some c2" "length (ca_slots c2) = PB_CACHE_SIZE"
    by blast
  show ?thesis
    using False q r(1) c2 by (cases "q = 0") (auto simp: pb_name_def)
qed (use assms(2) in \<open>simp add: pb_name_def\<close>)

text \<open>
  C35. Giving a name back takes one reference; with the last one the entry is released and no address
  stands for the string any more.  No other name changes.
\<close>
theorem delname_releases:
  assumes "names_ok nt" "named nt a s"
  shows "\<exists>nt'. pb_delname a nt = Some nt' \<and> names_ok nt' \<and>
    (\<forall>b. b \<noteq> a \<longrightarrow> nt_heap nt' b = nt_heap nt b) \<and>
    (if refs nt a \<le> 1 then nt_heap nt' a = None \<and> (\<forall>b. \<not> named nt' b s)
     else named nt' a s \<and> refs nt' a = refs nt a - 1)"
proof -
  obtain e where e: "nt_heap nt a = Some e" "ne_name e = s" using assms(2) by (auto simp: named_def)
  obtain nt' where d: "pb_delname a nt = Some nt'" "names_ok nt'"
    "nt_heap nt' = (nt_heap nt)(a := if ne_refcount e \<le> 1 then None else Some (e\<lparr>ne_refcount := ne_refcount e - 1\<rparr>))"
    using delname [OF assms(1) e(1)] by blast
  have "\<not> named nt' b s" if "refs nt a \<le> 1" for b
  proof
    assume "named nt' b s"
    then have "named nt b s" "b \<noteq> a" using d(3) that e by (auto simp: named_def refs_def split: if_splits)
    with named_inj [OF assms(1) _ assms(2)] show False by blast
  qed
  with d e show ?thesis by (auto simp: refs_def named_def)
qed

section \<open>Limits of the representation\<close>

text \<open>
  The length of a name is kept in 16 bits: a string of 65536 bytes or more is never found again, so that
  every request for it makes another entry.
\<close>

lemma long_name_not_found:
  assumes "65536 \<le> length s"
  shows "ensures (pbN_getname nt s h) (\<lambda>r. r = 0)"
proof -
  have "ensures (find_name_in H s h chain) (\<lambda>r. r = 0)" for H chain
  proof (induction chain)
    case (Cons a chain)
    have "unat (ne_length e) \<noteq> length s" for e :: pb_NameEntry using unsigned_less [of "ne_length e", where ?'a = nat] assms by auto
    with Cons show ?case by (cases "H a") simp_all
  qed simp
  then show ?thesis by (auto simp: pbN_getname_def ensures_def bind_eq_Some_conv)
qed

text \<open>
  The reference count has 16 bits too: one more use of a name with 65535 references leaves none, and the
  next release frees the name while it is in use.
\<close>

lemma refcount_wraps:
  assumes "names_ok nt" "nt_heap nt a = Some e" "ne_refcount e = 65535"
  shows "\<exists>nt' nt''. pb_usename a nt = Some nt' \<and> refs nt' a = 0 \<and> pb_delname a nt' = Some nt'' \<and> nt_heap nt'' a = None"
proof -
  have "a \<noteq> 0" using assms(1) heap_okD(1) [of "nt_heap nt", OF _ assms(2)] by (auto simp: names_ok_def)
  note u = usename [OF assms(1,2) this]
  define nt1 where "nt1 = nt\<lparr>nt_heap := (nt_heap nt)(a \<mapsto> e\<lparr>ne_refcount := ne_refcount e + 1\<rparr>)\<rparr>"
  have zero: "ne_refcount e + 1 = 0" by (simp add: assms(3))
  have "nt_heap nt1 a = Some (e\<lparr>ne_refcount := 0\<rparr>)" by (simp add: nt1_def zero)
  from delname [OF u(2) [folded nt1_def] this] u(1) [folded nt1_def] this show ?thesis
    by (auto simp: refs_def)
qed

end
