(* ===== verification/Pb_Table_Values.thy ===== *)
theory Pb_Table_Values
  imports Pb_Table_Correct
begin

unbundle bit_operations_syntax

text \<open>
  What the clients of the hash table rely on beyond the map it stands for: entries without a key have a
  cleared value, the array is one the allocator granted, and an iteration sees the present keys one
  after the other.
\<close>

section \<open>Entries without a key are cleared\<close>

text \<open>
  The first entry belongs to key zero; \<open>z\<close> is its value if it is in use.
\<close>

definition clean :: "'v::zero \<Rightarrow> bool \<Rightarrow> 'v pb_Entry list \<Rightarrow> bool" where
  "clean z hz es \<longleftrightarrow> (\<forall>i < length es. en_key (es ! i) = 0 \<longrightarrow>
     en_val (es ! i) = 0 \<or> i = 0 \<and> hz \<and> en_val (es ! i) = z)"

definition sane :: "(nat \<Rightarrow> bool) \<Rightarrow> 'v::zero \<Rightarrow> 'v pb_Table \<Rightarrow> bool" where
  "sane al z t \<longleftrightarrow> clean z (tb_has_zero t) (tb_hash t) \<and> tb_size t = length (tb_hash t) \<and>
     (tb_hash t = [] \<or> al (tb_entry_size t * length (tb_hash t)))"

text \<open>An entry of the key \<open>k\<close> at hand, as the insertion returns it.\<close>

definition at_key :: "pb_Key \<Rightarrow> nat option \<Rightarrow> 'v pb_Table \<Rightarrow> bool" where
  "at_key k r t \<longleftrightarrow> (\<forall>i. r = Some i \<longrightarrow> i < length (tb_hash t) \<and> en_key (tb_hash t ! i) = k \<and>
     (k = 0 \<longrightarrow> i = 0 \<and> tb_has_zero t))"

lemma clean_update:
  assumes "clean z hz es" "en_key e = 0 \<Longrightarrow> en_val e = 0 \<or> i = 0 \<and> hz \<and> en_val e = z"
  shows "clean z hz (es[i := e])"
  using assms by (cases "i < length es") (auto simp: clean_def nth_list_update)

lemma clean_link: "clean z hz es \<Longrightarrow> clean z hz (es[i := (es ! i)\<lparr>en_next := d\<rparr>])"
  by (cases "i < length es") (auto simp: clean_def nth_list_update)

lemma clean_zero: "clean z hz es \<Longrightarrow> clean z True es"
  by (auto simp: clean_def)

lemma sane_fields [simp]:
  "sane al z (t\<lparr>tb_lastfree := l\<rparr>) = sane al z t"
  "sane al z t \<Longrightarrow> sane al z (t\<lparr>tb_has_zero := True\<rparr>)"
  by (auto simp: sane_def clean_def)

lemma sane_hash:
  "sane al z t \<Longrightarrow> length es = length (tb_hash t) \<Longrightarrow>
    sane al z (t\<lparr>tb_hash := es\<rparr>) \<longleftrightarrow> clean z (tb_has_zero t) es"
  by (auto simp: sane_def)

lemma ensures_set_entry [run_simps]:
  "ensures (set_entry i f t) Q \<longleftrightarrow>
     (i < length (tb_hash t) \<longrightarrow> Q (t\<lparr>tb_hash := (tb_hash t)[i := f (tb_hash t ! i)]\<rparr>))"
  by (auto simp: set_entry_def entry_def array_get_def)

lemma ensures_entry [run_simps]: "ensures (entry t i) Q \<longleftrightarrow> (i < length (tb_hash t) \<longrightarrow> Q (tb_hash t ! i))"
  by (auto simp: entry_def array_get_def)

lemma ensures_find_prev: "(\<And>x. Q x) \<Longrightarrow> ensures (find_prev n t mp on) Q"
  by (simp add: ensures_def)

definition gives_entry :: "(nat \<Rightarrow> bool) \<Rightarrow> 'v::zero \<Rightarrow> nat \<Rightarrow> pb_Key \<Rightarrow> nat option \<times> 'v pb_Table \<Rightarrow> bool" where
  "gives_entry al z n key = (\<lambda>(r, t). sane al z t \<and> at_key key r t \<and> tb_entry_size t = n)"

lemma claim_gives:
  assumes "sane al z t" "mp = 0 \<Longrightarrow> key = 0 \<and> tb_has_zero t" "key = 0 \<Longrightarrow> mp = 0" "tb_entry_size t = n"
  shows "ensures (claim_entry mp key t) (gives_entry al z n key)"
  using assms unfolding claim_entry_def run_simps gives_entry_def
  by (auto simp: at_key_def sane_hash intro!: clean_update) (auto simp: sane_def)

lemma insert_colliding_gives:
  assumes "sane al z t" "mp < length (tb_hash t)" "en_key (tb_hash t ! mp) \<noteq> 0" "mp \<noteq> 0" "f \<noteq> 0" "key \<noteq> 0"
  shows "ensures (insert_colliding t key mp f) (gives_entry al z (tb_entry_size t) key)"
proof -
  have claim: "ensures (claim_entry m key (t\<lparr>tb_hash := es\<rparr>)) (gives_entry al z (tb_entry_size t) key)"
    if "clean z (tb_has_zero t) es" "m \<noteq> 0" "length es = length (tb_hash t)" for m es
    using that assms(1,6) by (intro claim_gives) (auto simp: sane_hash)
  have c: "clean z (tb_has_zero t) (tb_hash t)" using assms(1) by (simp add: sane_def)
  show ?thesis
  proof (cases "pbT_hash t (en_key (tb_hash t ! mp)) = mp")
    case True
    with assms c show ?thesis
      by (auto simp: insert_colliding_def run_simps Let_def intro!: claim clean_link)
  next
    case False
    have copy: "clean z (tb_has_zero t) (es[i := e])"
      if "clean z (tb_has_zero t) es" "en_key e \<noteq> 0" for es e i
      using that by (auto intro: clean_update)
    from assms False c show ?thesis
      by (auto simp: insert_colliding_def run_simps Let_def nth_list_update
          intro!: ensures_find_prev claim clean_link copy)
  qed
qed

lemma find_free_nonzero: "ensures (find_free t l) (\<lambda>(f, l'). f \<noteq> Some 0)"
proof (induction t l rule: find_free.induct)
  case (1 t l)
  then show ?case by (subst find_free.simps) (auto simp: run_simps entry_get)
qed

lemma reinsert_gives:
  assumes "\<And>nt k. sane al z nt \<Longrightarrow> tb_entry_size nt = n \<Longrightarrow> ensures (newkey nt k) (gives_entry al z n k)"
  shows "sane al z nt \<Longrightarrow> tb_entry_size nt = n \<Longrightarrow>
    (\<forall>e \<in> set es. en_key e = 0 \<longrightarrow> en_val e = 0 \<or> en_val e = z) \<Longrightarrow>
    ensures (reinsert newkey es nt) (\<lambda>nt'. sane al z nt' \<and> tb_entry_size nt' = n)"
proof (induction es arbitrary: nt)
  case (Cons e es)
  have step: "ensures (put_value i (en_val e) nt1) (\<lambda>nt2. ensures (reinsert newkey es nt2)
      (\<lambda>nt'. sane al z nt' \<and> tb_entry_size nt' = n))"
    if g: "gives_entry al z n (en_key e) (Some i, nt1)" for i nt1
    unfolding put_value_def run_simps
  proof
    assume i: "i < length (tb_hash nt1)"
    let ?nt2 = "nt1\<lparr>tb_hash := (tb_hash nt1)[i := (tb_hash nt1 ! i)\<lparr>en_val := en_val e\<rparr>]\<rparr>"
    have "sane al z ?nt2"
      using g Cons.prems(3)
      by (auto simp: gives_entry_def at_key_def sane_hash intro!: clean_update) (auto simp: sane_def)
    moreover have "tb_entry_size ?nt2 = n" using g by (simp add: gives_entry_def)
    ultimately show "ensures (reinsert newkey es ?nt2) (\<lambda>nt'. sane al z nt' \<and> tb_entry_size nt' = n)"
      using Cons by simp
  qed
  show ?case
    unfolding reinsert.simps run_simps
    by (rule ensures_mono [OF assms [OF Cons.prems(1,2)]]) (auto simp: run_simps ensures_def [of "x :: nat option" for x] step)
qed simp

lemma clean_empty: "clean z hz (replicate n empty_entry)"
  by (simp add: clean_def empty_entry_def)

lemma resize_gives:
  assumes new: "\<And>nt k. sane al z nt \<Longrightarrow> tb_entry_size nt = tb_entry_size t \<Longrightarrow>
      ensures (newkey nt k) (gives_entry al z (tb_entry_size t) k)"
    and t: "sane al z t"
  shows "ensures (resize_with newkey al t n) (\<lambda>(r, t'). sane al z t' \<and> tb_entry_size t' = tb_entry_size t)"
proof -
  have "ensures (reinsert newkey (tb_hash t) (t\<lparr>tb_size := m, tb_lastfree := m, tb_hash := replicate m empty_entry\<rparr>))
      (\<lambda>nt'. sane al z nt' \<and> tb_entry_size nt' = tb_entry_size t)" if "al (tb_entry_size t * m)" for m
    using t that
    by (intro reinsert_gives [OF new]) (auto simp: sane_def clean_empty, auto simp: clean_def in_set_conv_nth)
  then show ?thesis
    using t by (auto simp: resize_with_def run_simps intro!: ensuresI)
qed

lemma hash_nonzero: "k \<noteq> 0 \<Longrightarrow> pbT_hash t k \<noteq> 0"
  by (simp add: pbT_hash_def Let_def)

lemma newkey_gives: "sane al z t \<Longrightarrow> ensures (newkey_fuel d al t k) (gives_entry al z (tb_entry_size t) k)"
proof (induction d arbitrary: t k)
  case (Suc d)
  define E where "E = tb_entry_size t"
  have R: "ensures (resize_with (newkey_fuel d al) al u n) (\<lambda>(r, t'). sane al z t' \<and> tb_entry_size t' = E)"
    if u: "sane al z u" "tb_entry_size u = E" for u n
  proof -
    have "ensures (newkey_fuel d al nt k) (gives_entry al z (tb_entry_size u) k)"
      if "sane al z nt" "tb_entry_size nt = tb_entry_size u" for nt k
      using Suc.IH [OF that(1), of k] that(2) by simp
    from resize_gives [OF this u(1)] u(2) show ?thesis by simp
  qed
  have grow: "ensures (do { (r, t) \<leftarrow> resize_with (newkey_fuel d al) al u n;
        if r \<noteq> 0 then newkey_fuel d al t k else Some (None, t) }) (gives_entry al z E k)"
    if u: "sane al z u" "tb_entry_size u = E" for u n
    unfolding run_simps
  proof (rule ensures_mono [OF R [OF u]], clarsimp simp: run_simps)
    fix r t'
    assume t': "sane al z t'" "E = tb_entry_size t'"
    from Suc.IH [OF t'(1), of k]
    show "(0 < r \<longrightarrow> ensures (newkey_fuel d al t' k) (gives_entry al z (tb_entry_size t') k)) \<and>
        (r = 0 \<longrightarrow> gives_entry al z (tb_entry_size t') k (None, t'))"
      using t' by (simp add: gives_entry_def at_key_def)
  qed
  have coll: "ensures (do { (f, lastfree) \<leftarrow> find_free u (tb_lastfree u);
        let u = u\<lparr>tb_lastfree := lastfree\<rparr>;
        case f of
          None \<Rightarrow> do { (r, t) \<leftarrow> resize_with (newkey_fuel d al) al u (tb_size u * 2);
            if r \<noteq> 0 then newkey_fuel d al t k else Some (None, t) }
        | Some f \<Rightarrow> insert_colliding u k (pbT_hash u' k) f }) (gives_entry al z E k)"
    if u: "sane al z u" "tb_entry_size u = E" and k: "k \<noteq> 0" and mp: "pbT_hash u' k < length (tb_hash u)"
      "en_key (tb_hash u ! pbT_hash u' k) \<noteq> 0" for u u'
    unfolding ensures_bind
  proof (rule ensures_mono [OF find_free_nonzero])
    fix x :: "nat option \<times> nat"
    assume f: "case x of (f, l') \<Rightarrow> f \<noteq> Some 0"
    obtain f l where x: "x = (f, l)" by fastforce
    let ?u = "u\<lparr>tb_lastfree := l\<rparr>"
    have "ensures (insert_colliding ?u k (pbT_hash u' k) j) (gives_entry al z E k)" if "f = Some j" for j
      using insert_colliding_gives [of al z ?u "pbT_hash u' k" j k] u k mp hash_nonzero [OF k, of u'] f that
      by (auto simp: x)
    moreover note grow [of ?u "tb_size ?u * 2"]
    ultimately show "ensures (case x of (f, lastfree) \<Rightarrow> let u = u\<lparr>tb_lastfree := lastfree\<rparr> in
        case f of
          None \<Rightarrow> do { (r, t) \<leftarrow> resize_with (newkey_fuel d al) al u (tb_size u * 2);
            if r \<noteq> 0 then newkey_fuel d al t k else Some (None, t) }
        | Some f \<Rightarrow> insert_colliding u k (pbT_hash u' k) f) (gives_entry al z E k)"
      using u by (cases f) (simp_all add: x)
  qed
  have body: "ensures (if r = 0 then Some (None, u)
      else if k = 0 then claim_entry 0 0 (u\<lparr>tb_has_zero := True\<rparr>)
      else do {
        let mp = pbT_hash u k;
        m \<leftarrow> entry u mp;
        if en_key m = 0 then claim_entry mp k u
        else do {
          (f, lastfree) \<leftarrow> find_free u (tb_lastfree u);
          let u = u\<lparr>tb_lastfree := lastfree\<rparr>;
          case f of
            None \<Rightarrow> do { (r, t) \<leftarrow> resize_with (newkey_fuel d al) al u (tb_size u * 2);
              if r \<noteq> 0 then newkey_fuel d al t k else Some (None, t) }
          | Some f \<Rightarrow> insert_colliding u k mp f }
      }) (gives_entry al z E k)" if u: "sane al z u" "tb_entry_size u = E" for u r
  proof (cases "r = 0")
    case True
    with u show ?thesis by (simp add: gives_entry_def at_key_def)
  next
    case r: False
    show ?thesis
    proof (cases "k = 0")
      case True
      with r u show ?thesis by (auto intro!: claim_gives)
    next
      case False
      have "ensures (claim_entry (pbT_hash u k) k u) (gives_entry al z E k)"
        using u False hash_nonzero [OF False, of u] by (intro claim_gives) auto
      with coll [OF u False, of u] r False show ?thesis
        unfolding Let_def by (simp add: ensures_bind ensures_if ensures_entry)
    qed
  qed
  have "ensures (if tb_size t = 0 then resize_with (newkey_fuel d al) al t (tb_size t * 2) else Some (1, t))
      (\<lambda>(r, t'). sane al z t' \<and> tb_entry_size t' = E)"
    using R [OF Suc.prems E_def [symmetric]] Suc.prems by (simp add: E_def)
  then have "ensures (newkey_fuel (Suc d) al t k) (gives_entry al z E k)"
    unfolding newkey_fuel.simps(2) ensures_bind
    by (rule ensures_mono) (use body in \<open>auto simp only: prod.case\<close>)
  then show ?case by (simp add: E_def)
qed simp

section \<open>The table for its clients\<close>

definition tval :: "'v::zero pb_Table \<Rightarrow> pb_Key \<Rightarrow> 'v" where
  "tval t k = (case tmap t k of None \<Rightarrow> 0 | Some v \<Rightarrow> v)"

text \<open>The allocator refuses arrays of \<open>2 ^ 31\<close> bytes and more.\<close>

definition bounded_blocks :: "(nat \<Rightarrow> bool) \<Rightarrow> bool" where
  "bounded_blocks al \<longleftrightarrow> (\<forall>n. al n \<longrightarrow> n < 2147483648)"

definition good :: "(nat \<Rightarrow> bool) \<Rightarrow> nat \<Rightarrow> 'v::zero pb_Table \<Rightarrow> bool" where
  "good al n t \<longleftrightarrow> table_ok t \<and> tb_entry_size t = n \<and> sane al (tval t 0) t"

lemma goodI:
  assumes ok: "table_ok t" and z: "sane al z t" and n: "tb_entry_size t = n"
  shows "good al n t \<and> (tval t 0 = 0 \<or> tval t 0 = z)"
proof (cases "tb_size t = 0")
  case True
  with ok z n show ?thesis by (auto simp: good_def tval_def tmap_def slot_def sane_def clean_def)
next
  case False
  then have ch: "table_chains t" using ok by (simp add: table_ok_def)
  have l: "0 < length (tb_hash t)" using False z by (simp add: sane_def)
  have k0: "en_key (tb_hash t ! 0) = 0" using table_chainsD(8) [OF ch] by (simp add: key_of_def)
  have v: "tval t 0 = (if tb_has_zero t then en_val (tb_hash t ! 0) else 0)"
    using False by (simp add: tval_def tmap_def slot_def)
  have "clean (tval t 0) (tb_has_zero t) (tb_hash t)"
    using z k0 v by (auto simp: sane_def clean_def)
  moreover have "tval t 0 = 0 \<or> tval t 0 = z" using z k0 l by (auto simp: sane_def clean_def v)
  ultimately show ?thesis using ok z n by (simp add: good_def sane_def)
qed

lemma good_init: "n \<noteq> 0 \<Longrightarrow> good al n (pb_inittable n)" "tval (pb_inittable n) k = 0" "tmap (pb_inittable n) k = None"
  by (simp_all add: good_def inittable_ok inittable_empty tval_def sane_def clean_def)
    (simp_all add: pb_inittable_def)

lemma good_free: "good al n t \<Longrightarrow> pb_freetable t = pb_inittable n"
  by (simp add: pb_freetable_def good_def)

lemma slot_entry:
  assumes "good al n t" "slot t k = Some i"
  shows "entry t i = Some (tb_hash t ! i)" "en_val (tb_hash t ! i) = tval t k" "tmap t k = Some (tval t k)"
    "en_key (tb_hash t ! i) = k"
proof -
  have ok: "table_ok t" using assms(1) by (simp add: good_def)
  have i: "i < tb_size t" by (rule slot_less [OF ok assms(2)])
  with ok show "entry t i = Some (tb_hash t ! i)" by (simp add: entry_get table_ok_def)
  show "en_val (tb_hash t ! i) = tval t k" "tmap t k = Some (tval t k)"
    by (simp_all add: tval_def tmap_def assms(2))
  have ch: "table_chains t" using ok i by (simp add: table_ok_def)
  show "en_key (tb_hash t ! i) = k"
  proof (cases "k = 0")
    case True
    with assms(2) table_chainsD(8) [OF ch] show ?thesis by (auto simp: slot_def key_of_def split: if_splits)
  next
    case False
    with assms(2) slot_nonzero(1) [OF ch False] show ?thesis by (simp add: key_of_def)
  qed
qed

lemma gettable_good: "good al n t \<Longrightarrow> pb_gettable t k = Some (slot t k)"
  by (simp add: good_def gettable_slot)

lemma slot_None: "slot t k = None \<longleftrightarrow> tmap t k = None" "slot t k = None \<Longrightarrow> tval t k = 0"
  by (simp_all add: tmap_def tval_def)

text \<open>
  Asking for the entry of a key keeps the values, except that growth clears the value of key zero when
  there is an entry without a key.
\<close>

lemma settable_good:
  assumes g: "good al n t" and al: "bounded_blocks al" and n: "n < 134217728"
  shows "\<exists>r t'. pb_settable al t k = Some (r, t') \<and> good al n t' \<and>
    (\<forall>x. x \<noteq> 0 \<longrightarrow> tval t' x = tval t x) \<and> (tval t' 0 = tval t 0 \<or> tval t' 0 = 0 \<and> k \<noteq> 0) \<and>
    (\<forall>x. x \<noteq> 0 \<longrightarrow> x \<noteq> k \<longrightarrow> tmap t' x = tmap t x) \<and>
    (r = None \<longrightarrow> tmap t k = None \<and> tmap t' = tmap t \<and> refused al t) \<and> (\<forall>i. r = Some i \<longrightarrow> slot t' k = Some i)"
proof -
  have ok: "table_ok t" and es: "tb_entry_size t = n" and s: "sane al (tval t 0) t" using g by (simp_all add: good_def)
  show ?thesis
  proof (cases "slot t k")
    case (Some i)
    then have "pb_settable al t k = Some (Some i, t)" by (simp add: pb_settable_def gettable_slot [OF ok])
    with g Some show ?thesis by auto
  next
    case None
    have room: "tb_entry_size t * max 16 (2 * tb_size t) < 4294967296"
    proof (cases "tb_size t \<le> 8")
      case True
      then show ?thesis using n es by (simp add: max_def)
    next
      case False
      then have "tb_hash t \<noteq> []" using s by (auto simp: sane_def)
      then have "n * tb_size t < 2147483648" using s al es by (auto simp: sane_def bounded_blocks_def)
      with False show ?thesis by (simp add: es max_def)
    qed
    obtain r t' where nk: "pbT_newkey al t k = Some (r, t')" "inserted al t k (r, t')"
      using succeedsD [OF newkey_inserted [OF ok None room, of al]] by auto
    have "gives_entry al (tval t 0) n k (r, t')"
      using ensuresD [OF newkey_gives [OF s] nk(1) [unfolded pbT_newkey_def]] by (simp add: es)
    then have "good al n t' \<and> (tval t' 0 = 0 \<or> tval t' 0 = tval t 0)"
      using nk(2) by (intro goodI) (auto simp: gives_entry_def inserted_def)
    moreover have "pb_settable al t k = Some (r, t')" by (simp add: pb_settable_def gettable_slot [OF ok] None nk(1))
    moreover have "tmap t k = None" by (simp add: tmap_def None)
    moreover have "tval t' x = tval t x" if "x \<noteq> 0" for x
      using nk(2) that \<open>tmap t k = None\<close> by (cases r; cases "x = k") (auto simp: inserted_def tval_def)
    ultimately show ?thesis
      using nk(2) by (cases r; cases "k = 0") (auto simp: inserted_def, auto simp: tval_def)
  qed
qed

lemma put_value_good:
  assumes g: "good al n t" and k: "slot t k = Some i"
  shows "\<exists>t'. put_value i v t = Some t' \<and> good al n t' \<and> tmap t' = (tmap t)(k \<mapsto> v) \<and> slot t' = slot t"
proof -
  have ok: "table_ok t" and s: "sane al (tval t 0) t" using g by (simp_all add: good_def)
  obtain t' where t': "put_value i v t = Some t'" "table_ok t'" "tb_entry_size t' = tb_entry_size t"
    "slot t' = slot t" "tmap t' = (tmap t)(k \<mapsto> v)" using put_value_slot [OF ok k] by blast
  have hz: "k = 0 \<Longrightarrow> i = 0 \<and> tb_has_zero t" using k by (auto simp: slot_def split: if_splits)
  have eq: "t' = t\<lparr>tb_hash := (tb_hash t)[i := (tb_hash t ! i)\<lparr>en_val := v\<rparr>]\<rparr>"
    using t'(1) slot_entry(1) [OF g k] by (simp add: put_value_def set_entry_def)
  define z where "z = (if k = 0 then v else tval t 0)"
  have "clean z (tb_has_zero t) ((tb_hash t)[i := (tb_hash t ! i)\<lparr>en_val := v\<rparr>])"
  proof (cases "k = 0")
    case True
    then show ?thesis
      using s hz by (cases "0 < length (tb_hash t)") (auto simp: sane_def clean_def z_def nth_list_update)
  next
    case False
    then show ?thesis
      using s slot_entry(4) [OF g k] by (auto simp: z_def sane_def intro!: clean_update)
  qed
  then have "sane al z t'" using s by (auto simp: eq sane_def)
  from goodI [OF t'(2) this] t' g show ?thesis by (auto simp: good_def)
qed

lemma clear_entry_good:
  fixes t :: "'v::zero pb_Table"
  assumes g: "good al n t" and k: "slot t k = Some i"
  shows "\<exists>t'. clear_entry i t = Some t' \<and> good al n t' \<and> tval t' = (tval t)(k := 0) \<and> (\<forall>x. x \<noteq> k \<longrightarrow> tmap t' x = tmap t x)"
proof -
  have ok: "table_ok t" and s: "sane al (tval t 0) t" and es: "tb_entry_size t = n" using g by (simp_all add: good_def)
  have i: "i < length (tb_hash t)" using slot_less [OF ok k] s by (simp add: sane_def)
  then have ch: "table_chains t" using ok by (auto simp: table_ok_def)
  define t' where "t' = t\<lparr>tb_hash := (tb_hash t)[i := (tb_hash t ! i)\<lparr>en_key := 0, en_val := 0\<rparr>]\<rparr>"
  have run: "clear_entry i t = Some t'" using i by (simp add: clear_entry_def set_entry_run t'_def)
  have "clean (tval t 0) (tb_has_zero t) ((tb_hash t)[i := (tb_hash t ! i)\<lparr>en_key := 0, en_val := 0\<rparr>])"
    using s by (intro clean_update) (auto simp: sane_def)
  then have s': "sane al (tval t 0) t'" using s by (simp add: sane_def t'_def)
  show ?thesis
  proof (cases "k = 0")
    case False
    from clear_entry_slot [OF ok k False] run have t': "table_ok t'" "tb_entry_size t' = n" "tmap t' = (tmap t)(k := None)"
      by (auto simp: es)
    with run goodI [OF t'(1) s' t'(2)] show ?thesis by (auto simp: tval_def fun_eq_iff)
  next
    case True
    then have "i = 0" "tb_has_zero t" using k by (auto simp: slot_def split: if_splits)
    then have eq: "t' = t\<lparr>tb_has_zero := True, tb_hash := (tb_hash t)[0 := (tb_hash t ! 0)\<lparr>en_key := 0, en_val := 0\<rparr>]\<rparr>"
      by (simp add: t'_def)
    from update_zero_entry(1,4) [OF ok ch eq] have t': "table_ok t'" "tmap t' = (tmap t)(0 \<mapsto> 0)" by auto
    have "tb_entry_size t' = n" by (simp add: t'_def es)
    with run goodI [OF t'(1) s'] t'(2) True show ?thesis by (auto simp: tval_def fun_eq_iff)
  qed
qed

section \<open>Iteration\<close>

text \<open>The entries that an iteration visits after \<open>p\<close>.\<close>

definition after :: "'v pb_Table \<Rightarrow> nat option \<Rightarrow> nat list" where
  "after t p = (case p of
      None \<Rightarrow> (if tb_has_zero t then [0] else []) @ filter (\<lambda>j. key_of t j \<noteq> 0) [1..<tb_size t]
    | Some i \<Rightarrow> filter (\<lambda>j. key_of t j \<noteq> 0) [Suc i..<tb_size t])"

lemma find_filter: "find P xs = (case filter P xs of [] \<Rightarrow> None | x # _ \<Rightarrow> Some x)"
  by (induction xs) simp_all

lemma filter_upt_tail:
  assumes "filter P [a..<n] = i # is"
  shows "filter P [Suc i..<n] = is"
proof -
  have i: "i \<in> set (filter P [a..<n])" by (simp add: assms)
  then have "[a..<n] = [a..<i] @ i # [Suc i..<n]"
    using upt_add_eq_append [of a i "n - i"] upt_conv_Cons [of i n] by simp
  then have e: "filter P [a..<i] @ i # filter P [Suc i..<n] = i # is" using assms i
    by (metis filter.simps(2) filter_append mem_Collect_eq set_filter)
  have "filter P [a..<i] = []"
  proof (cases "filter P [a..<i]")
    case (Cons j js)
    with e have "i \<in> set (filter P [a..<i])" by simp
    then show ?thesis by simp
  qed
  with e show ?thesis by simp
qed

lemma nextentry_after:
  assumes "tb_size t = length (tb_hash t)"
  shows "pb_nextentry t p = Some (case after t p of [] \<Rightarrow> None | i # _ \<Rightarrow> Some i)"
    and "after t p = i # is \<Longrightarrow> after t (Some i) = is"
proof -
  show "pb_nextentry t p = Some (case after t p of [] \<Rightarrow> None | i # _ \<Rightarrow> Some i)"
    by (cases p) (simp_all add: pb_nextentry_def after_def next_used [OF assms] find_filter)
  show "after t (Some i) = is" if "after t p = i # is"
    using that filter_upt_tail by (auto simp: after_def split: option.splits if_splits)
qed

definition entries :: "'v pb_Table \<Rightarrow> nat list" where
  "entries t = after t None"

lemma entries_keys:
  assumes g: "good al n t"
  shows "i \<in> set (entries t) \<longleftrightarrow> slot t (key_of t i) = Some i"
    and "distinct (map (key_of t) (entries t))" "key_of t ` set (entries t) = dom (tmap t)"
proof -
  have ok: "table_ok t" and l: "tb_size t = length (tb_hash t)" using g by (simp_all add: good_def sane_def)
  have *: "i \<in> set (entries t) \<longleftrightarrow> slot t (key_of t i) = Some i" for i
  proof (cases "tb_size t = 0")
    case True
    then have "\<not> tb_has_zero t" using ok table_chainsD(10) by (fastforce simp: table_ok_def)
    with True show ?thesis by (simp add: entries_def after_def slot_def)
  next
    case False
    then have ch: "table_chains t" using ok by (simp add: table_ok_def)
    show ?thesis
    proof (cases "key_of t i = 0")
      case True
      with False show ?thesis by (auto simp: entries_def after_def slot_def)
    next
      case nz: False
      have "i \<noteq> 0" using table_chainsD(8) [OF ch] nz by metis
      with nz show ?thesis by (auto simp: entries_def after_def slot_nonzero(1) [OF ch nz])
    qed
  qed
  then show "i \<in> set (entries t) \<longleftrightarrow> slot t (key_of t i) = Some i" .
  have "distinct (entries t)" by (simp add: entries_def after_def)
  moreover have "inj_on (key_of t) (set (entries t))"
    using * by (metis inj_onI option.inject)
  ultimately show "distinct (map (key_of t) (entries t))" by (simp add: distinct_map)
  show "key_of t ` set (entries t) = dom (tmap t)"
  proof (intro equalityI subsetI)
    fix k assume "k \<in> key_of t ` set (entries t)"
    with * show "k \<in> dom (tmap t)" by (auto simp: tmap_def)
  next
    fix k assume "k \<in> dom (tmap t)"
    then obtain i where i: "slot t k = Some i" by (auto simp: tmap_def)
    then have "key_of t i = k" using slot_entry(4) [OF g i] by (simp add: key_of_def)
    with i * [of i] show "k \<in> key_of t ` set (entries t)" by (metis image_eqI)
  qed
qed

end
