(* ===== verification/Pb_Types_Invariant.thy ===== *)
theory Pb_Types_Invariant
  imports Pb_Types Pb_Names_Correct Pb_Table_Values
begin

unbundle bit_operations_syntax

text \<open>
  The invariant of the type database: tables, heaps and pools fit together, and every name in use has at
  least as many references as there are objects that use it.
\<close>

section \<open>Sums over a heap\<close>

definition heap_sum :: "('a \<Rightarrow> nat) \<Rightarrow> (nat \<rightharpoonup> 'a) \<Rightarrow> nat" where
  "heap_sum w h = (\<Sum>x \<in> dom h. w (the (h x)))"

lemma heap_sum_new: "finite (dom h) \<Longrightarrow> h x = None \<Longrightarrow> heap_sum w (h(x \<mapsto> y)) = heap_sum w h + w y"
  by (auto simp: heap_sum_def domIff intro!: sum.cong)

lemma heap_sum_split: "finite (dom h) \<Longrightarrow> h x = Some y \<Longrightarrow> heap_sum w h = w y + heap_sum w (h(x := None))"
proof -
  assume *: "finite (dom h)" "h x = Some y"
  then have "heap_sum w h = w y + (\<Sum>z \<in> dom h - {x}. w (the (h z)))"
    by (simp add: heap_sum_def domI sum.remove [of "dom h" x])
  then show ?thesis by (auto simp: heap_sum_def intro!: sum.cong)
qed

lemma heap_sum_update: "finite (dom h) \<Longrightarrow> h x = Some y \<Longrightarrow> heap_sum w (h(x \<mapsto> z)) + w y = heap_sum w h + w z"
  using heap_sum_split [of h x y w] heap_sum_new [of "h(x := None)" x w z] by simp

lemma heap_sum_member: "finite (dom h) \<Longrightarrow> h x = Some y \<Longrightarrow> w y \<le> heap_sum w h"
  using heap_sum_split [of h x y w] by simp

section \<open>The invariant\<close>

definition oneof_uses :: "nat \<Rightarrow> pb_OneofEntry pb_Table \<Rightarrow> nat" where
  "oneof_uses a tab = card {k. \<exists>e. tmap tab k = Some e \<and> oo_name e = a}"

definition type_uses :: "nat \<Rightarrow> pb_Type \<Rightarrow> nat" where
  "type_uses a ty = (if ty_name ty = a then 1 else 0) + oneof_uses a (ty_oneof_index ty)"

definition field_uses :: "nat \<Rightarrow> pb_Field \<Rightarrow> nat" where
  "field_uses a fd = (if fd_name fd = a then 1 else 0) + (if fd_default fd = a then 1 else 0)"

text \<open>How often a name occurs in the database.\<close>

definition uses :: "pb_State \<Rightarrow> nat \<Rightarrow> nat" where
  "uses S a = heap_sum (type_uses a) (type_heap S) + heap_sum (field_uses a) (field_heap S)"

text \<open>\<open>X a\<close> is the number of references to \<open>a\<close> that the caller holds.\<close>

definition refs_ok :: "(nat \<Rightarrow> nat) \<Rightarrow> pb_State \<Rightarrow> bool" where
  "refs_ok X S \<longleftrightarrow> (\<forall>a. a \<noteq> 0 \<longrightarrow> uses S a + X a \<le> unat (refs (nametable S) a))"

definition mem_ok :: "pb_State \<Rightarrow> bool" where
  "mem_ok S \<longleftrightarrow> pool_ok (typepool S) \<and> dom (type_heap S) = in_use (typepool S) \<and>
     pool_ok (fieldpool S) \<and> dom (field_heap S) = in_use (fieldpool S)"

definition types_ok :: "(nat \<Rightarrow> bool) \<Rightarrow> pb_State \<Rightarrow> bool" where
  "types_ok al S \<longleftrightarrow> good al sizeof_TypeEntry (types S) \<and>
     (\<forall>k. tval (types S) k \<noteq> 0 \<longrightarrow>
        (\<exists>ty. type_heap S (tval (types S) k) = Some ty \<and> ptr_key (ty_name ty) = k)) \<and>
     (\<forall>t ty. type_heap S t = Some ty \<longrightarrow> ty_name ty \<noteq> 0 \<and> tval (types S) (ptr_key (ty_name ty)) = t)"

text \<open>The fields in a table have the key they are found under; those in \<open>D\<close> have been released.\<close>

definition keyed :: "(pb_Field \<Rightarrow> pb_Key) \<Rightarrow> nat set \<Rightarrow> (nat \<rightharpoonup> pb_Field) \<Rightarrow> nat pb_Table \<Rightarrow> bool" where
  "keyed kf D H tab \<longleftrightarrow> (\<forall>k. tval tab k \<noteq> 0 \<longrightarrow> tval tab k \<notin> D \<longrightarrow> (\<exists>fd. H (tval tab k) = Some fd \<and> kf fd = k))"

abbreviation name_key :: "pb_Field \<Rightarrow> pb_Key" where "name_key fd \<equiv> ptr_key (fd_name fd)"
abbreviation number_key :: "pb_Field \<Rightarrow> pb_Key" where "number_key fd \<equiv> num_key (fd_number fd)"

definition type_ok :: "(nat \<Rightarrow> bool) \<Rightarrow> nat set \<Rightarrow> (nat \<rightharpoonup> pb_Field) \<Rightarrow> pb_Type \<Rightarrow> bool" where
  "type_ok al D H ty \<longleftrightarrow> good al sizeof_TypeEntry (ty_field_names ty) \<and> good al sizeof_TypeEntry (ty_field_tags ty) \<and>
     good al sizeof_OneofEntry (ty_oneof_index ty) \<and>
     keyed name_key D H (ty_field_names ty) \<and> keyed number_key D H (ty_field_tags ty)"

definition fields_of :: "pb_Type \<Rightarrow> nat set" where
  "fields_of ty = (range (tval (ty_field_names ty)) \<union> range (tval (ty_field_tags ty))) - {0}"

definition fields_ok :: "(nat \<Rightarrow> bool) \<Rightarrow> nat set \<Rightarrow> pb_State \<Rightarrow> bool" where
  "fields_ok al D S \<longleftrightarrow> (\<forall>t ty. type_heap S t = Some ty \<longrightarrow> type_ok al D (field_heap S) ty) \<and>
     (\<forall>t u ty uy. type_heap S t = Some ty \<longrightarrow> type_heap S u = Some uy \<longrightarrow> t \<noteq> u \<longrightarrow> fields_of ty \<inter> fields_of uy = {}) \<and>
     (\<forall>f fd. field_heap S f = Some fd \<longrightarrow> fd_name fd \<noteq> 0) \<and> D \<inter> dom (field_heap S) = {}"

definition state_ok :: "(nat \<Rightarrow> bool) \<Rightarrow> (nat \<Rightarrow> nat) \<Rightarrow> nat set \<Rightarrow> pb_State \<Rightarrow> bool" where
  "state_ok al X D S \<longleftrightarrow> names_ok (nametable S) \<and> refs_ok X S \<and> mem_ok S \<and> types_ok al S \<and> fields_ok al D S"

lemma state_okD:
  assumes "state_ok al X D S"
  shows "names_ok (nametable S)" "refs_ok X S" "mem_ok S" "types_ok al S" "fields_ok al D S"
  using assms by (simp_all add: state_ok_def)

lemma finite_heaps:
  assumes "mem_ok S"
  shows "finite (dom (type_heap S))" "finite (dom (field_heap S))"
proof -
  have "finite (in_use p)" for p by (simp add: in_use_def pool_objects_def)
  with assms show "finite (dom (type_heap S))" "finite (dom (field_heap S))" by (simp_all add: mem_ok_def)
qed

lemma heap_addr:
  assumes "mem_ok S"
  shows "type_heap S t = Some ty \<Longrightarrow> t \<noteq> 0" "field_heap S f = Some fd \<Longrightarrow> f \<noteq> 0"
proof -
  have "x \<noteq> 0" if "pool_ok p" "x \<in> in_use p" for p x
    using pool_object_range [OF that(1), of x] that(2) by (auto simp: in_use_def)
  with assms show "type_heap S t = Some ty \<Longrightarrow> t \<noteq> 0" "field_heap S f = Some fd \<Longrightarrow> f \<noteq> 0"
    unfolding mem_ok_def by (metis domI)+
qed

text \<open>A name with a reference is in the name table, and different names have different keys.\<close>

lemma live_name:
  assumes "state_ok al X D S" "a \<noteq> 0" "0 < uses S a + X a"
  shows "\<exists>e. nt_heap (nametable S) a = Some e" "a < 18446744073709551616"
proof -
  have "0 < unat (refs (nametable S) a)" using assms by (auto simp: state_ok_def refs_ok_def dest: spec [of _ a])
  then show *: "\<exists>e. nt_heap (nametable S) a = Some e" by (auto simp: refs_def split: option.splits)
  with state_okD(1) [OF assms(1)] heap_okD(2) [of "nt_heap (nametable S)"] show "a < 18446744073709551616"
    by (auto simp: names_ok_def)
qed

lemma ptr_key_inj: "ptr_key a = ptr_key b \<Longrightarrow> a < 18446744073709551616 \<Longrightarrow> b < 18446744073709551616 \<Longrightarrow> a = b"
  by (drule arg_cong [of _ _ unat]) (simp add: ptr_key_def unat_of_nat)

lemma num_key_inj: "num_key m = num_key n \<longleftrightarrow> m = n"
proof
  assume "num_key m = num_key n"
  then have "(scast (scast m :: uint64) :: uint32) = scast (scast n :: uint64)" by (simp add: num_key_def)
  then show "m = n" by (simp add: scast_up_scast_id is_up)
qed simp

section \<open>Releasing a name and a field\<close>

lemma state_ok_weaken:
  assumes "state_ok al X D S" "\<And>a. a \<noteq> 0 \<Longrightarrow> Y a \<le> X a"
  shows "state_ok al Y D S"
proof -
  have "uses S a + Y a \<le> unat (refs (nametable S) a)" if "a \<noteq> 0" for a
  proof -
    have "uses S a + X a \<le> unat (refs (nametable S) a)"
      using assms(1) that by (simp add: state_ok_def refs_ok_def)
    with assms(2) [OF that] show ?thesis by simp
  qed
  with assms(1) show ?thesis by (simp add: state_ok_def refs_ok_def)
qed

lemma keyed_mono:
  "keyed kf D H tab \<Longrightarrow> D \<subseteq> D' \<Longrightarrow> (\<And>f fd. H f = Some fd \<Longrightarrow> f \<notin> D' \<Longrightarrow> \<exists>fd'. H' f = Some fd' \<and> kf fd' = kf fd) \<Longrightarrow>
    keyed kf D' H' tab"
  unfolding keyed_def by (metis subsetD)

lemma delname_refs:
  assumes ok: "names_ok nt" and r: "refs nt a \<noteq> 0"
  shows "\<exists>nt'. pb_delname a nt = Some nt' \<and> names_ok nt' \<and>
    (\<forall>b. unat (refs nt' b) = unat (refs nt b) - (if b = a then 1 else 0))"
proof -
  obtain e where e: "nt_heap nt a = Some e" "ne_refcount e \<noteq> 0"
    using r by (auto simp: refs_def split: option.splits)
  obtain nt' where n: "pb_delname a nt = Some nt'" "names_ok nt'"
    "nt_heap nt' = (nt_heap nt)(a := if ne_refcount e \<le> 1 then None else Some (e\<lparr>ne_refcount := ne_refcount e - 1\<rparr>))"
    using delname [OF ok e(1)] by blast
  have "unat (ne_refcount e) = 1" if "ne_refcount e \<le> 1"
    using that e(2) by (simp add: word_le_nat_alt unat_eq_zero [symmetric])
  then have "unat (refs nt' b) = unat (refs nt b) - (if b = a then 1 else 0)" for b
    using n(3) e by (auto simp: refs_def unat_minus_one)
  with n show ?thesis by blast
qed

lemma state_ok_nametable:
  "state_ok al X D (S\<lparr>nametable := nt\<rparr>) \<longleftrightarrow> names_ok nt \<and>
    (\<forall>a. a \<noteq> 0 \<longrightarrow> uses S a + X a \<le> unat (refs nt a)) \<and> mem_ok S \<and> types_ok al S \<and> fields_ok al D S"
  by (simp add: state_ok_def refs_ok_def uses_def mem_ok_def types_ok_def fields_ok_def)

lemma release_name:
  assumes ok: "state_ok al X D S" and a: "a = 0 \<or> 0 < X a"
  shows "\<exists>nt. release_name a S = Some (S\<lparr>nametable := nt\<rparr>) \<and>
    state_ok al (\<lambda>b. X b - (if b = a then 1 else 0)) D (S\<lparr>nametable := nt\<rparr>)"
proof (cases "a = 0")
  case True
  then have "release_name a S = Some (S\<lparr>nametable := nametable S\<rparr>)" by (simp add: release_name_def pb_delname_def)
  moreover have "state_ok al (\<lambda>b. X b - (if b = a then 1 else 0)) D S"
    using ok True by (rule_tac state_ok_weaken) auto
  ultimately show ?thesis by (metis (no_types, lifting) pb_State.surjective pb_State.update_convs(1))
next
  case False
  have r: "uses S b + X b \<le> unat (refs (nametable S) b)" if "b \<noteq> 0" for b
    using ok that by (simp add: state_ok_def refs_ok_def)
  have "refs (nametable S) a \<noteq> 0" using r [OF False] a False by auto
  with delname_refs [OF state_okD(1) [OF ok]] obtain nt where
    n: "pb_delname a (nametable S) = Some nt" "names_ok nt"
      "\<forall>b. unat (refs nt b) = unat (refs (nametable S) b) - (if b = a then 1 else 0)" by blast
  have "uses S b + (X b - (if b = a then 1 else 0)) \<le> unat (refs nt b)" if "b \<noteq> 0" for b
    using r [OF that] n(3) a False by auto
  then have "state_ok al (\<lambda>b. X b - (if b = a then 1 else 0)) D (S\<lparr>nametable := nt\<rparr>)"
    using n(2) state_okD [OF ok] by (simp add: state_ok_nametable)
  with n(1) show ?thesis by (auto simp: release_name_def)
qed

lemma freefield:
  assumes ok: "state_ok al X D S" and f: "field_heap S f = Some fd"
  shows "\<exists>nt. pbT_freefield f S = Some (S\<lparr>nametable := nt, fieldpool := pb_poolfree f (fieldpool S),
      field_heap := (field_heap S)(f := None)\<rparr>) \<and>
    state_ok al X (insert f D) (S\<lparr>nametable := nt, fieldpool := pb_poolfree f (fieldpool S),
      field_heap := (field_heap S)(f := None)\<rparr>)"
proof -
  let ?S = "S\<lparr>fieldpool := pb_poolfree f (fieldpool S), field_heap := (field_heap S)(f := None)\<rparr>"
  let ?X = "\<lambda>a. X a + field_uses a fd"
  note fin = finite_heaps [OF state_okD(3) [OF ok]]
  have u: "uses ?S a + field_uses a fd = uses S a" for a
    using heap_sum_split [OF fin(2) f, of "field_uses a"] by (simp add: uses_def)
  have ok0: "state_ok al ?X (insert f D) ?S"
    unfolding state_ok_def
  proof (intro conjI)
    show "names_ok (nametable ?S)" using ok by (simp add: state_ok_def)
    show "refs_ok ?X ?S"
      unfolding refs_ok_def
    proof (intro allI impI)
      fix a :: nat assume "a \<noteq> 0"
      then have "uses S a + X a \<le> unat (refs (nametable S) a)" using ok by (simp add: state_ok_def refs_ok_def)
      with u [of a] show "uses ?S a + ?X a \<le> unat (refs (nametable ?S) a)" by simp
    qed
    have "f \<in> in_use (fieldpool S)" using ok f by (auto simp: state_ok_def mem_ok_def)
    with ok poolfree [of "fieldpool S" f] show "mem_ok ?S"
      by (auto simp: state_ok_def mem_ok_def)
    show "types_ok al ?S" using ok by (simp add: state_ok_def types_ok_def)
    have "keyed kf (insert f D) ((field_heap S)(f := None)) tab" if "keyed kf D (field_heap S) tab" for kf tab
      using that by (rule keyed_mono) auto
    with ok show "fields_ok al (insert f D) ?S"
      by (auto simp: state_ok_def fields_ok_def type_ok_def)
  qed
  obtain nt1 where r1: "release_name (fd_default fd) ?S = Some (?S\<lparr>nametable := nt1\<rparr>)"
    "state_ok al (\<lambda>b. ?X b - (if b = fd_default fd then 1 else 0)) (insert f D) (?S\<lparr>nametable := nt1\<rparr>)"
    using release_name [OF ok0, of "fd_default fd"] by (auto simp: field_uses_def)
  have "fd_name fd = 0 \<or> 0 < ?X (fd_name fd) - (if fd_name fd = fd_default fd then 1 else 0)"
    by (auto simp: field_uses_def)
  from release_name [OF r1(2) this] obtain nt2 where
    r2: "release_name (fd_name fd) (?S\<lparr>nametable := nt1\<rparr>) = Some (?S\<lparr>nametable := nt1, nametable := nt2\<rparr>)"
    "state_ok al (\<lambda>b. ?X b - (if b = fd_default fd then 1 else 0) - (if b = fd_name fd then 1 else 0)) (insert f D)
      (?S\<lparr>nametable := nt1, nametable := nt2\<rparr>)" by blast
  have n: "pb_delname (fd_default fd) (nametable S) = Some nt1" "pb_delname (fd_name fd) nt1 = Some nt2"
    using r1(1) r2(1) by (auto simp: release_name_def bind_eq_Some_conv dest!: arg_cong [where f = nametable])
  have run: "pbT_freefield f S = Some (S\<lparr>nametable := nt2, fieldpool := pb_poolfree f (fieldpool S),
      field_heap := (field_heap S)(f := None)\<rparr>)"
    using f n by (simp add: pbT_freefield_def release_name_def)
  have "state_ok al X (insert f D) (?S\<lparr>nametable := nt1, nametable := nt2\<rparr>)"
    using r2(2) by (rule state_ok_weaken) (simp add: field_uses_def)
  moreover have "?S\<lparr>nametable := nt1, nametable := nt2\<rparr> = S\<lparr>nametable := nt2, fieldpool := pb_poolfree f (fieldpool S),
      field_heap := (field_heap S)(f := None)\<rparr>" by (rule pb_State.equality) simp_all
  ultimately show ?thesis using run by auto
qed

text \<open>A released field that no table leads to is forgotten.\<close>

lemma forget_dangling:
  assumes ok: "state_ok al X D S" and sub: "D' \<subseteq> D"
    and only: "\<And>t ty. type_heap S t = Some ty \<Longrightarrow> fields_of ty \<inter> D \<subseteq> D'"
  shows "state_ok al X D' S"
proof -
  have keyed: "keyed kf D' H tab" if "keyed kf D H tab" "(range (tval tab) - {0}) \<inter> D \<subseteq> D'" for kf H tab
    unfolding keyed_def
  proof (intro allI impI)
    fix k
    assume k: "tval tab k \<noteq> 0" "tval tab k \<notin> D'"
    then have "tval tab k \<in> range (tval tab) - {0}" by simp
    with that(2) k(2) have "tval tab k \<notin> D" by blast
    with that(1) k(1) show "\<exists>fd. H (tval tab k) = Some fd \<and> kf fd = k" by (simp add: keyed_def)
  qed
  have F: "fields_ok al D S" by (rule state_okD(5) [OF ok])
  have "fields_ok al D' S"
    unfolding fields_ok_def
  proof (intro conjI allI impI)
    fix t ty
    assume t: "type_heap S t = Some ty"
    then have "type_ok al D (field_heap S) ty" using F by (simp add: fields_ok_def)
    moreover have "(range (tval (ty_field_names ty)) - {0}) \<inter> D \<subseteq> D'" "(range (tval (ty_field_tags ty)) - {0}) \<inter> D \<subseteq> D'"
      using only [OF t] by (auto simp: fields_of_def)
    ultimately show "type_ok al D' (field_heap S) ty" by (simp add: type_ok_def keyed)
  next
    fix t u ty uy
    assume "type_heap S t = Some ty" "type_heap S u = Some uy" "t \<noteq> u"
    with F show "fields_of ty \<inter> fields_of uy = {}" by (simp add: fields_ok_def)
  next
    fix f fd
    assume "field_heap S f = Some fd"
    with F show "fd_name fd \<noteq> 0" by (simp add: fields_ok_def)
  next
    show "D' \<inter> dom (field_heap S) = {}" using F sub by (auto simp: fields_ok_def)
  qed
  with ok show ?thesis by (simp add: state_ok_def)
qed

end
