(* ===== verification/Pb_Types_Correct.thy ===== *)
theory Pb_Types_Correct
  imports Pb_Types_Invariant
begin

unbundle bit_operations_syntax

text \<open>
  What the operations on types and fields do to the database: they return, keep the invariant and change
  the lookups as their names say.
\<close>

text \<open>The allocator returns fresh addresses or none, and refuses very large arrays.\<close>

definition alloc_ok :: "pb_alloc \<Rightarrow> bool" where
  "alloc_ok al \<longleftrightarrow> bounded_blocks (al_block al) \<and> names_fresh al \<and>
     (\<forall>pages. al_page al pages = 0 \<or> page_fresh (al_page al pages) pages)"

section \<open>New types\<close>

lemma types_okD:
  assumes "types_ok al S"
  shows "good al sizeof_TypeEntry (types S)"
    "tval (types S) k \<noteq> 0 \<Longrightarrow> \<exists>ty. type_heap S (tval (types S) k) = Some ty \<and> ptr_key (ty_name ty) = k"
    "type_heap S t = Some ty \<Longrightarrow> ty_name ty \<noteq> 0"
    "type_heap S t = Some ty \<Longrightarrow> tval (types S) (ptr_key (ty_name ty)) = t"
  using assms unfolding types_ok_def by blast+

lemma type_name_live:
  assumes ok: "state_ok al X D S" and ty: "type_heap S t = Some ty"
  shows "0 < uses S (ty_name ty)" "ty_name ty < 18446744073709551616"
proof -
  have "type_uses (ty_name ty) ty \<le> uses S (ty_name ty)"
    using heap_sum_member [OF finite_heaps(1) [OF state_okD(3) [OF ok]] ty, of "type_uses (ty_name ty)"]
    by (simp add: uses_def)
  then show u: "0 < uses S (ty_name ty)" by (simp add: type_uses_def)
  have "ty_name ty \<noteq> 0" by (rule types_okD(3) [OF state_okD(4) [OF ok] ty])
  from live_name(2) [OF ok this] u show "ty_name ty < 18446744073709551616" by simp
qed

lemma no_zero_type:
  assumes ok: "state_ok al X D S"
  shows "tval (types S) 0 = 0"
proof (rule ccontr)
  assume "tval (types S) 0 \<noteq> 0"
  then obtain ty where ty: "type_heap S (tval (types S) 0) = Some ty" "ptr_key (ty_name ty) = 0"
    using types_okD(2) [OF state_okD(4) [OF ok]] by blast
  have "ty_name ty = 0"
    using ptr_key_inj [of "ty_name ty" 0] ty(2) type_name_live(2) [OF ok ty(1)] by (simp add: ptr_key_def)
  with types_okD(3) [OF state_okD(4) [OF ok] ty(1)] show False by simp
qed

lemma oneof_uses_init [simp]: "oneof_uses a (pb_inittable n) = 0"
  by (simp add: oneof_uses_def inittable_empty)

text \<open>Changing a type: its name stays, and what its alternatives use more is taken from the caller.\<close>

lemma fields_okD:
  assumes "fields_ok al D S"
  shows "type_heap S t = Some ty \<Longrightarrow> type_ok al D (field_heap S) ty"
    "type_heap S t = Some ty \<Longrightarrow> type_heap S u = Some uy \<Longrightarrow> t \<noteq> u \<Longrightarrow> fields_of ty \<inter> fields_of uy = {}"
    "field_heap S f = Some fd \<Longrightarrow> fd_name fd \<noteq> 0" "D \<inter> dom (field_heap S) = {}"
  using assms unfolding fields_ok_def by blast+

lemma fields_ok_update:
  assumes F: "fields_ok al D S" and ty': "type_ok al D (field_heap S) ty'"
    and own: "\<And>u uy. type_heap S u = Some uy \<Longrightarrow> u \<noteq> t \<Longrightarrow> fields_of ty' \<inter> fields_of uy = {}"
  shows "fields_ok al D (S\<lparr>type_heap := (type_heap S)(t \<mapsto> ty')\<rparr>)"
  unfolding fields_ok_def
proof (intro conjI allI impI)
  let ?S = "S\<lparr>type_heap := (type_heap S)(t \<mapsto> ty')\<rparr>"
  fix u uy
  assume u: "type_heap ?S u = Some uy"
  then show "type_ok al D (field_heap ?S) uy" using ty' fields_okD(1) [OF F] by (auto split: if_splits)
  fix v vy
  assume v: "type_heap ?S v = Some vy" "u \<noteq> v"
  show "fields_of uy \<inter> fields_of vy = {}"
  proof (cases "u = t \<or> v = t")
    case True
    then show ?thesis using u v own by (auto split: if_splits)
  next
    case False
    with u v fields_okD(2) [OF F, of u uy v vy] show ?thesis by simp
  qed
next
  fix f fd
  assume "field_heap (S\<lparr>type_heap := (type_heap S)(t \<mapsto> ty')\<rparr>) f = Some fd"
  with fields_okD(3) [OF F] show "fd_name fd \<noteq> 0" by simp
next
  show "D \<inter> dom (field_heap (S\<lparr>type_heap := (type_heap S)(t \<mapsto> ty')\<rparr>)) = {}" using fields_okD(4) [OF F] by simp
qed

lemma update_type_own:
  assumes ok: "state_ok al X D S" and t: "type_heap S t = Some ty"
    and name: "ty_name ty' = ty_name ty"
    and refs: "\<And>a. a \<noteq> 0 \<Longrightarrow> oneof_uses a (ty_oneof_index ty') + Y a \<le> oneof_uses a (ty_oneof_index ty) + X a"
    and ty': "type_ok al D (field_heap S) ty'"
    and own: "\<And>u uy. type_heap S u = Some uy \<Longrightarrow> u \<noteq> t \<Longrightarrow> fields_of ty' \<inter> fields_of uy = {}"
  shows "state_ok al Y D (S\<lparr>type_heap := (type_heap S)(t \<mapsto> ty')\<rparr>)"
  unfolding state_ok_def
proof (intro conjI)
  let ?S = "S\<lparr>type_heap := (type_heap S)(t \<mapsto> ty')\<rparr>"
  show "names_ok (nametable ?S)" using state_okD(1) [OF ok] by simp
  show "refs_ok Y ?S"
    unfolding refs_ok_def
  proof (intro allI impI)
    fix a :: nat assume a: "a \<noteq> 0"
    have "uses ?S a + type_uses a ty = uses S a + type_uses a ty'"
      using heap_sum_update [OF finite_heaps(1) [OF state_okD(3) [OF ok]] t, of "type_uses a" ty'] by (simp add: uses_def)
    moreover have "uses S a + X a \<le> unat (refs (nametable S) a)" using ok a by (simp add: state_ok_def refs_ok_def)
    ultimately show "uses ?S a + Y a \<le> unat (refs (nametable ?S) a)"
      using refs [OF a] by (simp add: type_uses_def name)
  qed
  show "mem_ok ?S" using state_okD(3) [OF ok] t by (auto simp: mem_ok_def)
  have "(\<exists>uy. ((type_heap S)(t \<mapsto> ty')) v = Some uy \<and> ptr_key (ty_name uy) = k)"
    if "\<exists>uy. type_heap S v = Some uy \<and> ptr_key (ty_name uy) = k" for v k
    using that t name by auto
  then show "types_ok al ?S"
    using state_okD(4) [OF ok] name t unfolding types_ok_def by (auto split: if_splits)
  show "fields_ok al D ?S" by (rule fields_ok_update [OF state_okD(5) [OF ok] ty' own])
qed

lemma update_type_ok:
  assumes ok: "state_ok al X D S" and t: "type_heap S t = Some ty"
    and name: "ty_name ty' = ty_name ty"
    and refs: "\<And>a. a \<noteq> 0 \<Longrightarrow> oneof_uses a (ty_oneof_index ty') + Y a \<le> oneof_uses a (ty_oneof_index ty) + X a"
    and ty': "type_ok al D (field_heap S) ty'"
    and own: "fields_of ty' \<subseteq> fields_of ty"
  shows "state_ok al Y D (S\<lparr>type_heap := (type_heap S)(t \<mapsto> ty')\<rparr>)"
  using ok t name refs ty'
proof (rule update_type_own)
  fix u uy
  assume "type_heap S u = Some uy" "u \<noteq> t"
  with fields_okD(2) [OF state_okD(5) [OF ok] t this(1)] own show "fields_of ty' \<inter> fields_of uy = {}" by blast
qed

lemma types_table_frame [simp]:
  "uses (S\<lparr>types := tab\<rparr>) = uses S" "refs_ok X (S\<lparr>types := tab\<rparr>) = refs_ok X S" "mem_ok (S\<lparr>types := tab\<rparr>) = mem_ok S"
  "fields_ok al D (S\<lparr>types := tab\<rparr>) = fields_ok al D S"
  by (simp_all add: uses_def refs_ok_def mem_ok_def fields_ok_def fun_eq_iff)

text \<open>Giving the database another table of types with the same content.\<close>

lemma types_table_ok:
  assumes ok: "state_ok al X D S" and tab: "good al sizeof_TypeEntry tab" "tval tab = tval (types S)"
  shows "state_ok al X D (S\<lparr>types := tab\<rparr>)"
proof -
  have "types_ok al (S\<lparr>types := tab\<rparr>)" using state_okD(4) [OF ok] tab by (simp add: types_ok_def)
  with ok show ?thesis by (simp add: state_ok_def)
qed

lemma type_ok_fields: "type_ok al D H (ty\<lparr>ty_is_dead := b\<rparr>) = type_ok al D H ty" "fields_of (ty\<lparr>ty_is_dead := b\<rparr>) = fields_of ty"
  by (simp_all add: type_ok_def fields_of_def)

lemma new_type_ok:
  assumes ok: "state_ok al X D S" and n: "tname \<noteq> 0" "0 < X tname"
    and t: "type_heap S t = None" "pool_ok pool" "in_use pool = insert t (in_use (typepool S))" "t \<noteq> 0"
    and tab: "good al sizeof_TypeEntry tab" "tval tab = (tval (types S))(ptr_key tname := t)" "tval (types S) (ptr_key tname) = 0"
    and ty: "ty = pbT_inittype\<lparr>ty_name := tname, ty_basename := b\<rparr>"
  shows "state_ok al (\<lambda>a. X a - (if a = tname then 1 else 0)) D
    (S\<lparr>types := tab, typepool := pool, type_heap := (type_heap S)(t \<mapsto> ty)\<rparr>)"
  unfolding state_ok_def
proof (intro conjI)
  let ?S = "S\<lparr>types := tab, typepool := pool, type_heap := (type_heap S)(t \<mapsto> ty)\<rparr>"
  have T: "types_ok al S" by (rule state_okD(4) [OF ok])
  show "names_ok (nametable ?S)" using state_okD(1) [OF ok] by simp
  show "refs_ok (\<lambda>a. X a - (if a = tname then 1 else 0)) ?S"
    unfolding refs_ok_def
  proof (intro allI impI)
    fix a :: nat assume a: "a \<noteq> 0"
    have "type_uses a ty = (if tname = a then 1 else 0)" by (simp add: type_uses_def ty pbT_inittype_def)
    then have "uses ?S a = uses S a + (if tname = a then 1 else 0)"
      using heap_sum_new [OF finite_heaps(1) [OF state_okD(3) [OF ok]] t(1), of "type_uses a" ty] by (simp add: uses_def)
    moreover have "uses S a + X a \<le> unat (refs (nametable S) a)" using ok a by (simp add: state_ok_def refs_ok_def)
    ultimately show "uses ?S a + (X a - (if a = tname then 1 else 0)) \<le> unat (refs (nametable ?S) a)"
      using n(2) by auto
  qed
  show "mem_ok ?S" using state_okD(3) [OF ok] t by (auto simp: mem_ok_def)
  show "types_ok al ?S"
    unfolding types_ok_def
  proof (intro conjI allI impI)
    show "good al sizeof_TypeEntry (types ?S)" using tab(1) by simp
    fix k assume k: "tval (types ?S) k \<noteq> 0"
    show "\<exists>uy. type_heap ?S (tval (types ?S) k) = Some uy \<and> ptr_key (ty_name uy) = k"
    proof (cases "k = ptr_key tname")
      case True
      then show ?thesis by (simp add: tab(2) ty)
    next
      case False
      with k have "tval (types S) k \<noteq> 0" by (simp add: tab(2))
      from types_okD(2) [OF T this] t(1) False show ?thesis by (auto simp: tab(2))
    qed
  next
    fix u uy assume u: "type_heap ?S u = Some uy"
    have "u \<noteq> t \<Longrightarrow> u \<noteq> 0" using u heap_addr(1) [OF state_okD(3) [OF ok], of u uy] by simp
    then show "ty_name uy \<noteq> 0" "tval (types ?S) (ptr_key (ty_name uy)) = u"
      using u n(1) types_okD(3,4) [OF T, of u uy] tab(3) by (auto simp: tab(2) ty split: if_splits)
  qed
  have z: "type_ok al D H ty" "fields_of ty = {}" for H
    by (simp_all add: type_ok_def fields_of_def ty pbT_inittype_def good_init keyed_def sizeof_TypeEntry_def sizeof_OneofEntry_def image_def)
  have "fields_ok al D (S\<lparr>type_heap := (type_heap S)(t \<mapsto> ty)\<rparr>)"
    by (rule fields_ok_update [OF state_okD(5) [OF ok] z(1)]) (simp add: z(2))
  then show "fields_ok al D ?S" by (simp add: fields_ok_def)
qed

lemma newtype:
  assumes ok: "state_ok (al_block al) X D S" and al: "alloc_ok al"
    and n: "tname \<noteq> 0" "0 < X tname"
  shows "\<exists>t S'. pb_newtype al tname S = Some (t, S') \<and>
    state_ok (al_block al) (\<lambda>a. X a - (if a = tname then 1 else 0)) D S' \<and>
    nametable S' = nametable S \<and> field_heap S' = field_heap S \<and>
    (\<forall>x. x \<noteq> 0 \<longrightarrow> x \<noteq> ptr_key tname \<longrightarrow> tmap (types S') x = tmap (types S) x) \<and>
    tval (types S') = (tval (types S))(ptr_key tname := if t = 0 then tval (types S) (ptr_key tname) else t) \<and>
    (if t = 0 then type_heap S' = type_heap S \<and>
       (refused (al_block al) (types S) \<and> tmap (types S) (ptr_key tname) = None \<and> tmap (types S') = tmap (types S) \<or>
        pl_freed (typepool S) = [] \<and> al_page al (pl_pages (typepool S)) = 0 \<and> tmap (types S') (ptr_key tname) = Some 0)
     else \<exists>ty. type_heap S' = (type_heap S)(t \<mapsto> ty) \<and> \<not> ty_is_dead ty \<and> ty_name ty = tname \<and>
       (case type_heap S t of None \<Rightarrow> fields_of ty = {} | Some ty0 \<Rightarrow> ty = ty0\<lparr>ty_is_dead := False\<rparr>))"
proof -
  let ?X = "\<lambda>a. X a - (if a = tname then 1 else 0)"
  let ?k = "ptr_key tname"
  have T: "types_ok (al_block al) S" by (rule state_okD(4) [OF ok])
  have bb: "bounded_blocks (al_block al)" using al by (simp add: alloc_ok_def)
  have small: "sizeof_TypeEntry < 134217728" by (simp add: sizeof_TypeEntry_def)
  obtain r tab where s: "pb_settable (al_block al) (types S) ?k = Some (r, tab)" "good (al_block al) sizeof_TypeEntry tab"
    "\<And>x. x \<noteq> 0 \<Longrightarrow> tval tab x = tval (types S) x" "tval tab 0 = tval (types S) 0 \<or> tval tab 0 = 0"
    "\<And>i. r = Some i \<Longrightarrow> slot tab ?k = Some i" "\<forall>x. x \<noteq> 0 \<longrightarrow> x \<noteq> ?k \<longrightarrow> tmap tab x = tmap (types S) x"
    "r = None \<longrightarrow> tmap (types S) ?k = None \<and> tmap tab = tmap (types S) \<and> refused (al_block al) (types S)"
    using settable_good [OF types_okD(1) [OF T] bb small, of ?k] by blast
  have same: "tval tab = tval (types S)" using s(3,4) no_zero_type [OF ok] by (metis ext)
  have ok1: "state_ok (al_block al) X D (S\<lparr>types := tab\<rparr>)" by (rule types_table_ok [OF ok s(2) same])
  have weak: "state_ok (al_block al) ?X D S'" if "state_ok (al_block al) X D S'" for S'
    using that by (rule state_ok_weaken) simp
  show ?thesis
  proof (cases r)
    case None
    with s(1,6,7) n(1) weak [OF ok1] same show ?thesis by (simp add: pb_newtype_def)
  next
    case (Some i)
    note e = slot_entry [OF s(2) s(5) [OF Some]]
    show ?thesis
    proof (cases "tval (types S) ?k = 0")
      case False
      define t where "t = tval (types S) ?k"
      obtain ty where ty: "type_heap S t = Some ty" "ptr_key (ty_name ty) = ?k"
        using types_okD(2) [OF T False] by (auto simp: t_def)
      have nm: "ty_name ty = tname"
        using ptr_key_inj [OF ty(2) type_name_live(2) [OF ok ty(1)]] live_name(2) [OF ok n(1)] n(2) by simp
      define ty' where "ty' = ty\<lparr>ty_is_dead := False\<rparr>"
      define S' where "S' = (S\<lparr>types := tab\<rparr>)\<lparr>type_heap := (type_heap S)(t \<mapsto> ty')\<rparr>"
      have "state_ok (al_block al) X D ((S\<lparr>types := tab\<rparr>)\<lparr>type_heap := (type_heap (S\<lparr>types := tab\<rparr>))(t \<mapsto> ty')\<rparr>)"
        using ty(1) fields_okD(1) [OF state_okD(5) [OF ok] ty(1)]
        by (intro update_type_ok [OF ok1, of t ty]) (simp_all add: ty'_def type_ok_fields)
      then have ok': "state_ok (al_block al) ?X D S'" by (intro weak) (simp add: S'_def)
      have run: "pb_newtype al tname S = Some (t, S')"
        using n(1) s(1) Some e(1,2) False ty(1)
        by (simp add: pb_newtype_def same update_type_def ty'_def S'_def t_def)
      have "tval (types S') = (tval (types S))(?k := t)" by (simp add: S'_def same t_def)
      with run ok' show ?thesis using False ty(1) nm s(6)
        by (auto simp: S'_def ty'_def t_def)
    next
      case True
      let ?page = "al_page al (pl_pages (typepool S))"
      have "pool_ok (typepool S)" "?page = 0 \<or> page_fresh ?page (pl_pages (typepool S))"
        using state_okD(3) [OF ok] al by (simp_all add: mem_ok_def alloc_ok_def)
      from poolalloc [OF this] obtain t pool where p: "pb_poolalloc ?page (typepool S) = Some (t, pool)" "pool_ok pool"
        "t = 0 \<and> pool = typepool S \<and> ?page = 0 \<and> pl_freed (typepool S) = [] \<or> t \<noteq> 0 \<and> t \<notin> in_use (typepool S) \<and> in_use pool = insert t (in_use (typepool S))"
        by blast
      show ?thesis
      proof (cases "t = 0")
        case zero: True
        then have pool: "pool = typepool S" "?page = 0" "pl_freed (typepool S) = []" using p(3) by simp_all
        then have "pb_newtype al tname S = Some (0, S\<lparr>types := tab\<rparr>)"
          using n(1) s(1) Some e(1,2) True p(1) zero by (simp add: pb_newtype_def same)
        moreover have "tmap tab ?k = Some 0"
        proof -
          have "tval tab ?k = 0" using True same by simp
          with s(5) [OF Some] slot_None(1) [of tab ?k] show ?thesis
            by (cases "tmap tab ?k") (simp_all add: tval_def)
        qed
        ultimately show ?thesis using weak [OF ok1] same s(6) pool by auto
      next
        case False
        obtain nm where nm: "nt_heap (nametable S) tname = Some nm" using live_name(1) [OF ok n(1)] n(2) by auto
        obtain tab' where t': "put_value i t tab = Some tab'" "good (al_block al) sizeof_TypeEntry tab'"
          "tmap tab' = (tmap tab)(?k \<mapsto> t)" using put_value_good [OF s(2) s(5) [OF Some], of t] by blast
        have v': "tval tab' = (tval (types S))(?k := t)" using t'(3) same by (auto simp: tval_def fun_eq_iff)
        have new: "type_heap S t = None" using p(3) False state_okD(3) [OF ok] by (auto simp: mem_ok_def)
        define ty where "ty = pbT_inittype\<lparr>ty_name := tname, ty_basename := pbT_basename (ne_name nm)\<rparr>"
        define S' where "S' = S\<lparr>types := tab', typepool := pool, type_heap := (type_heap S)(t \<mapsto> ty)\<rparr>"
        have "state_ok (al_block al) ?X D S'"
          unfolding S'_def using p(3) False
          by (intro new_type_ok [OF ok n new p(2) _ False t'(2) v' True ty_def]) simp
        moreover have "pb_newtype al tname S = Some (t, S')"
        proof -
          have "S\<lparr>types := tab, typepool := pool, types := tab', type_heap := (type_heap S)(t \<mapsto> ty)\<rparr> = S'"
            unfolding S'_def by (rule pb_State.equality) simp_all
          then show ?thesis
            using n(1) s(1) Some e(1,2) True p(1) False nm t'(1)
            by (simp add: pb_newtype_def same ty_def [symmetric])
        qed
        moreover have "fields_of ty = {}"
          by (simp add: fields_of_def ty_def pbT_inittype_def good_init image_def)
        moreover have "\<forall>x. x \<noteq> 0 \<longrightarrow> x \<noteq> ?k \<longrightarrow> tmap tab' x = tmap (types S) x" using t'(3) s(6) by simp
        ultimately show ?thesis using False v' new by (auto simp: S'_def ty_def pbT_inittype_def)
      qed
    qed
  qed
qed

section \<open>New fields\<close>

lemma keyedD: "keyed kf D H tab \<Longrightarrow> tval tab k \<noteq> 0 \<Longrightarrow> tval tab k \<notin> D \<Longrightarrow> \<exists>fd. H (tval tab k) = Some fd \<and> kf fd = k"
  by (simp add: keyed_def)

lemma type_okD:
  assumes "type_ok al D H ty"
  shows "good al sizeof_TypeEntry (ty_field_names ty)" "good al sizeof_TypeEntry (ty_field_tags ty)"
    "good al sizeof_OneofEntry (ty_oneof_index ty)" "keyed name_key D H (ty_field_names ty)"
    "keyed number_key D H (ty_field_tags ty)"
  using assms by (simp_all add: type_ok_def)

lemma fields_in_heap:
  assumes "type_ok al D H ty" "f \<in> fields_of ty" "f \<notin> D"
  shows "\<exists>fd. H f = Some fd"
proof -
  obtain k where "f = tval (ty_field_names ty) k \<or> f = tval (ty_field_tags ty) k" "f \<noteq> 0"
    using assms(2) by (auto simp: fields_of_def)
  with keyedD [OF type_okD(4) [OF assms(1)], of k] keyedD [OF type_okD(5) [OF assms(1)], of k] assms(3)
  show ?thesis by auto
qed

lemma field_name_live:
  assumes ok: "state_ok al X D S" and f: "field_heap S f = Some fd"
  shows "fd_name fd \<noteq> 0" "fd_name fd < 18446744073709551616"
proof -
  show nz: "fd_name fd \<noteq> 0" by (rule fields_okD(3) [OF state_okD(5) [OF ok] f])
  have "field_uses (fd_name fd) fd \<le> uses S (fd_name fd)"
    using heap_sum_member [OF finite_heaps(2) [OF state_okD(3) [OF ok]] f, of "field_uses (fd_name fd)"]
    by (simp add: uses_def)
  then have "0 < uses S (fd_name fd)" by (simp add: field_uses_def)
  with live_name(2) [OF ok nz] show "fd_name fd < 18446744073709551616" by simp
qed

lemma no_zero_name:
  assumes ok: "state_ok al X {} S" and t: "type_heap S t = Some ty"
  shows "tval (ty_field_names ty) 0 = 0"
proof (rule ccontr)
  assume nz: "tval (ty_field_names ty) 0 \<noteq> 0"
  have "type_ok al {} (field_heap S) ty" by (rule fields_okD(1) [OF state_okD(5) [OF ok] t])
  from keyedD [OF type_okD(4) [OF this] nz] obtain fd where
    fd: "field_heap S (tval (ty_field_names ty) 0) = Some fd" "name_key fd = 0" by auto
  have "fd_name fd = 0"
    using ptr_key_inj [of "fd_name fd" 0] fd(2) field_name_live(2) [OF ok fd(1)] by (simp add: ptr_key_def)
  with field_name_live(1) [OF ok fd(1)] show False by simp
qed

lemma update_field_ok:
  assumes ok: "state_ok al X D S" and f: "field_heap S f = Some fd"
    and same: "fd_name fd' = fd_name fd" "fd_number fd' = fd_number fd"
    and refs: "\<And>a. a \<noteq> 0 \<Longrightarrow> field_uses a fd' + Y a \<le> field_uses a fd + X a"
  shows "state_ok al Y D (S\<lparr>field_heap := (field_heap S)(f \<mapsto> fd')\<rparr>)"
  unfolding state_ok_def
proof (intro conjI)
  let ?S = "S\<lparr>field_heap := (field_heap S)(f \<mapsto> fd')\<rparr>"
  show "names_ok (nametable ?S)" using state_okD(1) [OF ok] by simp
  show "refs_ok Y ?S"
    unfolding refs_ok_def
  proof (intro allI impI)
    fix a :: nat assume a: "a \<noteq> 0"
    have "uses ?S a + field_uses a fd = uses S a + field_uses a fd'"
      using heap_sum_update [OF finite_heaps(2) [OF state_okD(3) [OF ok]] f, of "field_uses a" fd'] by (simp add: uses_def)
    moreover have "uses S a + X a \<le> unat (refs (nametable S) a)" using ok a by (simp add: state_ok_def refs_ok_def)
    ultimately show "uses ?S a + Y a \<le> unat (refs (nametable ?S) a)" using refs [OF a] by simp
  qed
  show "mem_ok ?S" using state_okD(3) [OF ok] f by (auto simp: mem_ok_def)
  show "types_ok al ?S" using state_okD(4) [OF ok] by (simp add: types_ok_def)
  have k: "keyed kf D ((field_heap S)(f \<mapsto> fd')) tab" if "keyed kf D (field_heap S) tab" "kf fd' = kf fd" for kf tab
    using that(1) by (rule keyed_mono) (use f that(2) in auto)
  note F = fields_okD [OF state_okD(5) [OF ok]]
  show "fields_ok al D ?S"
    unfolding fields_ok_def
  proof (intro conjI allI impI)
    fix t ty assume "type_heap ?S t = Some ty"
    with F(1) [of t ty] show "type_ok al D (field_heap ?S) ty" by (auto simp: type_ok_def same intro!: k)
  next
    fix t u ty uy assume "type_heap ?S t = Some ty" "type_heap ?S u = Some uy" "t \<noteq> u"
    with F(2) [of t ty u uy] show "fields_of ty \<inter> fields_of uy = {}" by simp
  next
    fix g gd assume "field_heap ?S g = Some gd"
    with F(3) [of g gd] F(3) [OF f] same(1) show "fd_name gd \<noteq> 0" by (cases "g = f") auto
  next
    show "D \<inter> dom (field_heap ?S) = {}" using F(4) f by auto
  qed
qed

lemma new_field_ok:
  assumes ok: "state_ok al X D S" and n: "fname \<noteq> 0" "0 < X fname"
    and f: "field_heap S f = None" "f \<notin> D" "pool_ok pool" "in_use pool = insert f (in_use (fieldpool S))"
  shows "state_ok al (\<lambda>a. X a - (if a = fname then 1 else 0)) D
    (S\<lparr>fieldpool := pool, field_heap := (field_heap S)(f \<mapsto> new_field fname t number)\<rparr>)"
  unfolding state_ok_def
proof (intro conjI)
  let ?fd = "new_field fname t number"
  let ?S = "S\<lparr>fieldpool := pool, field_heap := (field_heap S)(f \<mapsto> ?fd)\<rparr>"
  show "names_ok (nametable ?S)" using state_okD(1) [OF ok] by simp
  show "refs_ok (\<lambda>a. X a - (if a = fname then 1 else 0)) ?S"
    unfolding refs_ok_def
  proof (intro allI impI)
    fix a :: nat assume a: "a \<noteq> 0"
    have "uses ?S a = uses S a + field_uses a ?fd"
      using heap_sum_new [OF finite_heaps(2) [OF state_okD(3) [OF ok]] f(1), of "field_uses a" ?fd] by (simp add: uses_def)
    moreover have "field_uses a ?fd = (if a = fname then 1 else 0)" using a by (simp add: field_uses_def new_field_def)
    moreover have "uses S a + X a \<le> unat (refs (nametable S) a)" using ok a by (simp add: state_ok_def refs_ok_def)
    ultimately show "uses ?S a + (X a - (if a = fname then 1 else 0)) \<le> unat (refs (nametable ?S) a)"
      using n(2) by auto
  qed
  show "mem_ok ?S" using state_okD(3) [OF ok] f by (auto simp: mem_ok_def)
  show "types_ok al ?S" using state_okD(4) [OF ok] by (simp add: types_ok_def)
  have k: "keyed kf D ((field_heap S)(f \<mapsto> ?fd)) tab" if "keyed kf D (field_heap S) tab" for kf tab
    using that by (rule keyed_mono) (use f in auto)
  note F = fields_okD [OF state_okD(5) [OF ok]]
  show "fields_ok al D ?S"
    unfolding fields_ok_def
  proof (intro conjI allI impI)
    fix t ty assume "type_heap ?S t = Some ty"
    with F(1) [of t ty] show "type_ok al D (field_heap ?S) ty" by (auto simp: type_ok_def intro!: k)
  next
    fix t u ty uy assume "type_heap ?S t = Some ty" "type_heap ?S u = Some uy" "t \<noteq> u"
    with F(2) [of t ty u uy] show "fields_of ty \<inter> fields_of uy = {}" by simp
  next
    fix g gd assume "field_heap ?S g = Some gd"
    with F(3) [of g gd] n(1) show "fd_name gd \<noteq> 0" by (auto simp: new_field_def split: if_splits)
  next
    show "D \<inter> dom (field_heap ?S) = {}" using F(4) f by auto
  qed
qed

text \<open>What the lookups give, for a type in the heap.\<close>

lemma lookup_value:
  assumes "good al n tab"
  shows "(do { fe \<leftarrow> pb_gettable tab k; case fe of None \<Rightarrow> Some 0 | Some i \<Rightarrow> map_option en_val (entry tab i) }) =
    Some (tval tab k)"
  using assms slot_entry [OF assms, of k] by (cases "slot tab k") (simp_all add: gettable_good slot_None(2))

lemma fname_value:
  assumes "type_heap S t = Some ty" "good al n (ty_field_names ty)" "t \<noteq> 0" "name \<noteq> 0"
  shows "pb_fname S t name = Some (tval (ty_field_names ty) (ptr_key name))"
  using assms lookup_value [OF assms(2)] by (simp add: pb_fname_def)

lemma field_value:
  assumes "type_heap S t = Some ty" "good al n (ty_field_tags ty)" "t \<noteq> 0"
  shows "pb_field S t number = Some (tval (ty_field_tags ty) (num_key number))"
  using assms lookup_value [OF assms(2)] by (simp add: pb_field_def)

text \<open>Dropping a field that is not found by its other key.\<close>

lemma type_count_ok:
  assumes "state_ok al X D S" "type_heap S t = Some ty"
  shows "state_ok al X D (S\<lparr>type_heap := (type_heap S)(t \<mapsto> ty\<lparr>ty_field_count := c\<rparr>)\<rparr>)"
  using fields_okD(1) [OF state_okD(5) [OF assms(1)] assms(2)]
  by (intro update_type_ok [OF assms]) (simp_all add: type_ok_def fields_of_def)

lemma drop_field:
  assumes ok: "state_ok al X D S" and t: "type_heap S t = Some ty" and old: "found \<noteq> old \<Longrightarrow> field_heap S old = Some fd"
  shows "\<exists>S' c. drop_field t old found S = Some S' \<and>
    state_ok al X (if found \<noteq> old then insert old D else D) S' \<and>
    field_heap S' = (if found \<noteq> old then (field_heap S)(old := None) else field_heap S) \<and>
    type_heap S' = (type_heap S)(t \<mapsto> ty\<lparr>ty_field_count := c\<rparr>) \<and> types S' = types S"
proof (cases "found = old")
  case True
  have "ty\<lparr>ty_field_count := ty_field_count ty\<rparr> = ty" by simp
  with True ok t show ?thesis by (auto simp: drop_field_def intro!: exI [of _ S] exI [of _ "ty_field_count ty"])
next
  case False
  obtain nt where nt: "pbT_freefield old S = Some (S\<lparr>nametable := nt, fieldpool := pb_poolfree old (fieldpool S),
      field_heap := (field_heap S)(old := None)\<rparr>)"
    "state_ok al X (insert old D) (S\<lparr>nametable := nt, fieldpool := pb_poolfree old (fieldpool S),
      field_heap := (field_heap S)(old := None)\<rparr>)"
    using freefield [OF ok old [OF False]] by blast
  with False t type_count_ok [OF nt(2), of t ty "ty_field_count ty - 1"] show ?thesis
    by (auto simp: drop_field_def update_type_def intro!: exI [of _ "ty_field_count ty - 1"])
qed

end
