(* ===== verification/Pb_Fields_Correct.thy ===== *)
theory Pb_Fields_Correct
  imports Pb_Types_Correct
begin

unbundle bit_operations_syntax

text \<open>
  Adding and removing the fields of a type.
\<close>

section \<open>Replacing fields\<close>

lemma keyed_unique:
  assumes "keyed kf {} H tab" "tval tab k \<noteq> 0" "tval tab j = tval tab k"
  shows "j = k"
proof -
  have "tval tab j \<noteq> 0" using assms(2,3) by simp
  then obtain fd where fd: "H (tval tab j) = Some fd" "kf fd = j" using keyedD [OF assms(1)] by blast
  obtain fd' where "H (tval tab k) = Some fd'" "kf fd' = k" using keyedD [OF assms(1,2)] by blast
  with fd assms(3) show ?thesis by simp
qed

lemma keyed_found:
  assumes "keyed kf D H tab" "f \<noteq> 0" "f \<notin> D" "H f = Some fd" "tval tab (kf fd) \<noteq> f"
  shows "f \<notin> range (tval tab)"
proof
  assume "f \<in> range (tval tab)"
  then obtain k where k: "f = tval tab k" by auto
  with assms(2) have "tval tab k \<noteq> 0" by simp
  from keyedD [OF assms(1) this] k assms(3-5) show False by auto
qed

lemma replace_fields:
  assumes ok: "state_ok al X {} S" and t: "type_heap S t = Some ty"
    and old: "byname = tval (ty_field_names ty) k" "bynum = tval (ty_field_tags ty) n" "byname = 0 \<or> bynum \<noteq> byname"
  shows "\<exists>S' c D'. replace_fields t byname bynum S = Some S' \<and> state_ok al X D' S' \<and>
    type_heap S' = (type_heap S)(t \<mapsto> ty\<lparr>ty_field_count := c\<rparr>) \<and> types S' = types S \<and>
    field_heap S' = field_heap S |` (- D') \<and>
    D' = {x. x \<noteq> 0 \<and> (x = byname \<and> x \<notin> range (tval (ty_field_tags ty)) \<or>
      x = bynum \<and> x \<notin> range (tval (ty_field_names ty)))}"
proof -
  have T: "type_ok al {} (field_heap S) ty" by (rule fields_okD(1) [OF state_okD(5) [OF ok] t])
  have t0: "t \<noteq> 0" by (rule heap_addr(1) [OF state_okD(3) [OF ok] t])
  define R where "R = {x. x \<noteq> 0 \<and> x = byname \<and> x \<notin> range (tval (ty_field_tags ty))}"
  obtain S1 c1 D1 where 1: "(if byname \<noteq> 0 then do {
         fd \<leftarrow> field_heap S byname;
         found \<leftarrow> pb_field S t (fd_number fd);
         drop_field t byname found S
       } else Some S) = Some S1" "state_ok al X D1 S1" "type_heap S1 = (type_heap S)(t \<mapsto> ty\<lparr>ty_field_count := c1\<rparr>)"
    "types S1 = types S" "field_heap S1 = field_heap S |` (- D1)"
    "D1 = R"
  proof (cases "byname = 0")
    case True
    have "field_heap S |` (- {}) = field_heap S" "ty\<lparr>ty_field_count := ty_field_count ty\<rparr> = ty"
      "(type_heap S)(t \<mapsto> ty) = type_heap S" using t by (auto simp: restrict_map_def)
    moreover have "R = {}" using True by (auto simp: R_def)
    ultimately show ?thesis using True ok that [of S "{}" "ty_field_count ty"] by simp
  next
    case False
    then obtain fd where fd: "field_heap S byname = Some fd" "name_key fd = k"
      using keyedD [OF type_okD(4) [OF T], of k] by (auto simp: old(1))
    define found where "found = tval (ty_field_tags ty) (number_key fd)"
    have lk: "pb_field S t (fd_number fd) = Some found"
      unfolding found_def by (rule field_value [OF t type_okD(2) [OF T] t0])
    obtain S1 c where d: "drop_field t byname found S = Some S1"
      "state_ok al X (if found \<noteq> byname then insert byname {} else {}) S1"
      "field_heap S1 = (if found \<noteq> byname then (field_heap S)(byname := None) else field_heap S)"
      "type_heap S1 = (type_heap S)(t \<mapsto> ty\<lparr>ty_field_count := c\<rparr>)" "types S1 = types S"
      using drop_field [OF ok t fd(1)] by blast
    have r: "found \<noteq> byname \<longleftrightarrow> byname \<notin> range (tval (ty_field_tags ty))"
      using keyed_found [OF type_okD(5) [OF T] False _ fd(1)] by (auto simp: found_def)
    have h: "field_heap S |` UNIV = field_heap S"
      by (auto simp: restrict_map_def fun_eq_iff)
    show ?thesis
    proof (cases "found = byname")
      case True
      with r have "R = {}" by (auto simp: R_def)
      with True False fd(1) lk d that [of S1 "{}" c] show ?thesis by (simp add: h)
    next
      case nf: False
      with r False have R: "R = {byname}" by (auto simp: R_def)
      show ?thesis
      proof (rule that [of S1 "{byname}" c])
        show "field_heap S1 = field_heap S |` (- {byname})" using nf d(3) by (simp add: restrict_complement_singleton_eq)
        show "{byname} = R" by (rule R [symmetric])
      qed (use nf False fd(1) lk d(1,2,4,5) in simp_all)
    qed
  qed
  show ?thesis
  proof (cases "bynum = 0")
    case True
    then have "replace_fields t byname bynum S = Some S1" using 1(1) by (simp add: replace_fields_def)
    moreover have "D1 = {x. x \<noteq> 0 \<and> (x = byname \<and> x \<notin> range (tval (ty_field_tags ty)) \<or>
        x = bynum \<and> x \<notin> range (tval (ty_field_names ty)))}"
      using True by (auto simp: 1(6) R_def)
    ultimately show ?thesis using 1(2-5) by blast
  next
    case False
    obtain fd where fd0: "field_heap S bynum = Some fd" "number_key fd = n"
      using keyedD [OF type_okD(5) [OF T], of n] False by (auto simp: old(2))
    have "bynum \<notin> D1" using old(3) by (auto simp: 1(6) R_def)
    then have fd: "field_heap S1 bynum = Some fd" using fd0(1) by (simp add: 1(5))
    have t1: "type_heap S1 t = Some (ty\<lparr>ty_field_count := c1\<rparr>)" by (simp add: 1(3))
    define found where "found = tval (ty_field_names ty) (name_key fd)"
    have lk: "pb_fname S1 t (fd_name fd) = Some found"
      unfolding found_def using fname_value [OF t1 _ t0, of al sizeof_TypeEntry "fd_name fd"]
        field_name_live(1) [OF 1(2) fd] type_okD(1) [OF T] by simp
    obtain S2 c where d: "drop_field t bynum found S1 = Some S2"
      "state_ok al X (if found \<noteq> bynum then insert bynum D1 else D1) S2"
      "field_heap S2 = (if found \<noteq> bynum then (field_heap S1)(bynum := None) else field_heap S1)"
      "type_heap S2 = (type_heap S1)(t \<mapsto> (ty\<lparr>ty_field_count := c1\<rparr>)\<lparr>ty_field_count := c\<rparr>)" "types S2 = types S1"
      using drop_field [OF 1(2) t1 fd] by blast
    have r: "found \<noteq> bynum \<longleftrightarrow> bynum \<notin> range (tval (ty_field_names ty))"
      using keyed_found [OF type_okD(4) [OF T] False _ fd0(1)] by (auto simp: found_def)
    define D' where "D' = (if found \<noteq> bynum then insert bynum D1 else D1)"
    have run: "replace_fields t byname bynum S = Some S2"
      using 1(1) False fd lk d(1) by (simp add: replace_fields_def)
    have th: "type_heap S2 = (type_heap S)(t \<mapsto> ty\<lparr>ty_field_count := c\<rparr>)" by (simp add: d(4) 1(3))
    have fh: "field_heap S2 = field_heap S |` (- D')"
      by (auto simp: d(3) 1(5) D'_def restrict_map_def fun_eq_iff)
    have "D' = {x. x \<noteq> 0 \<and> (x = byname \<and> x \<notin> range (tval (ty_field_tags ty)) \<or>
        x = bynum \<and> x \<notin> range (tval (ty_field_names ty)))}"
      using False r by (auto simp: D'_def 1(6) R_def)
    with run th fh d(2,5) 1(4) show ?thesis unfolding D'_def [symmetric] by auto
  qed
qed

section \<open>Adding a field\<close>

text \<open>Only the tables of fields, their count and the sorted list differ.\<close>

definition same_type :: "pb_Type \<Rightarrow> pb_Type \<Rightarrow> bool" where
  "same_type ty ty' \<longleftrightarrow> ty_name ty' = ty_name ty \<and> ty_oneof_index ty' = ty_oneof_index ty \<and>
     ty_is_dead ty' = ty_is_dead ty \<and> ty_is_enum ty' = ty_is_enum ty \<and> ty_is_map ty' = ty_is_map ty \<and>
     ty_is_proto3 ty' = ty_is_proto3 ty"

text \<open>
  Two tables of fields that give the same values, except at the keys of the field \<open>f\<close> in the second.  The
  value of number zero may be lost.
\<close>

definition tables_updated :: "nat \<Rightarrow> pb_Key \<Rightarrow> pb_Key \<Rightarrow> pb_Type \<Rightarrow> pb_Type \<Rightarrow> bool" where
  "tables_updated f k n ty ty' \<longleftrightarrow>
     tval (ty_field_names ty') = (tval (ty_field_names ty))(k := f) \<and>
     tval (ty_field_tags ty') n = f \<and>
     (\<forall>x. x \<noteq> n \<longrightarrow> x \<noteq> 0 \<longrightarrow> tval (ty_field_tags ty') x = tval (ty_field_tags ty) x) \<and>
     (n \<noteq> 0 \<longrightarrow> tval (ty_field_tags ty') 0 \<in> {0, tval (ty_field_tags ty) 0})"

text \<open>The tables after the two entries have been asked for.\<close>

lemma asked_type_ok:
  assumes ok: "state_ok al X {} S" and t: "type_heap S t = Some ty"
    and nm: "good al sizeof_TypeEntry nm" "tval nm = tval (ty_field_names ty)"
    and tg: "good al sizeof_TypeEntry tg" "\<And>x. x \<noteq> 0 \<Longrightarrow> tval tg x = tval (ty_field_tags ty) x"
      "tval tg 0 = tval (ty_field_tags ty) 0 \<or> tval tg 0 = 0"
  shows "state_ok al X {} (S\<lparr>type_heap := (type_heap S)(t \<mapsto> ty\<lparr>ty_field_names := nm, ty_field_tags := tg\<rparr>)\<rparr>)"
proof (rule update_type_ok [OF ok t])
  let ?ty = "ty\<lparr>ty_field_names := nm, ty_field_tags := tg\<rparr>"
  have T: "type_ok al {} (field_heap S) ty" by (rule fields_okD(1) [OF state_okD(5) [OF ok] t])
  have v: "tval tg x = 0 \<or> tval tg x = tval (ty_field_tags ty) x" for x
    using tg(2) [of x] tg(3) by (cases "x = 0") auto
  have "keyed number_key {} (field_heap S) tg"
    unfolding keyed_def
  proof (intro allI impI)
    fix x assume "tval tg x \<noteq> 0"
    with v [of x] keyedD [OF type_okD(5) [OF T], of x]
    show "\<exists>fd. field_heap S (tval tg x) = Some fd \<and> number_key fd = x" by auto
  qed
  with T nm tg(1) show "type_ok al {} (field_heap S) ?ty" by (simp add: type_ok_def keyed_def)
  show "fields_of ?ty \<subseteq> fields_of ty"
  proof
    fix f assume f: "f \<in> fields_of ?ty"
    then obtain x where "f = tval nm x \<or> f = tval tg x" "f \<noteq> 0" by (auto simp: fields_of_def)
    with v [of x] show "f \<in> fields_of ty" by (auto simp: fields_of_def nm(2))
  qed
qed simp_all

text \<open>The new field enters both tables; fields that were released are not found any more.\<close>

lemma enter_field:
  assumes ok: "state_ok al X D S" and t: "type_heap S t = Some ty"
    and before: "keyed name_key {} H (ty_field_names ty)" "keyed number_key {} H (ty_field_tags ty)"
    and D: "\<And>x. x \<in> D \<Longrightarrow> x \<noteq> 0 \<and> (x = tval (ty_field_names ty) k \<and> x \<notin> range (tval (ty_field_tags ty)) \<or>
        x = tval (ty_field_tags ty) n \<and> x \<notin> range (tval (ty_field_names ty)))"
    and f: "field_heap S f = Some fd" "name_key fd = k" "number_key fd = n"
      "\<And>u uy. type_heap S u = Some uy \<Longrightarrow> f \<notin> fields_of uy"
    and nm: "good al sizeof_TypeEntry nm" "tval nm = (tval (ty_field_names ty))(k := f)"
    and tg: "good al sizeof_TypeEntry tg" "tval tg = (tval (ty_field_tags ty))(n := f)"
    and ty': "ty' = pb_delsort (ty\<lparr>ty_field_count := c, ty_field_names := nm, ty_field_tags := tg\<rparr>)"
  shows "state_ok al X {} (S\<lparr>type_heap := (type_heap S)(t \<mapsto> ty')\<rparr>)"
proof -
  let ?S = "S\<lparr>type_heap := (type_heap S)(t \<mapsto> ty')\<rparr>"
  note F = fields_okD [OF state_okD(5) [OF ok]]
  have T: "type_ok al D (field_heap S) ty" by (rule F(1) [OF t])
  have new: "keyed kf D (field_heap S) tab'"
    if "keyed kf D (field_heap S) tab" "tval tab' = (tval tab)(j := f)" "kf fd = j" for kf tab tab' j
    using that f(1) by (auto simp: keyed_def)
  have fo: "fields_of ty' \<subseteq> insert f (fields_of ty)"
  proof
    fix x assume "x \<in> fields_of ty'"
    then obtain j where "x = tval nm j \<or> x = tval tg j" "x \<noteq> 0"
      by (auto simp: fields_of_def ty' pb_delsort_def)
    then show "x \<in> insert f (fields_of ty)" by (auto simp: fields_of_def nm(2) tg(2) split: if_splits)
  qed
  have "state_ok al X D ?S"
    using T nm(1) tg(1)
  proof (intro update_type_own [OF ok t])
    show "type_ok al D (field_heap S) ty'"
      using T nm(1) tg(1) new [OF type_okD(4) [OF T] nm(2) f(2)] new [OF type_okD(5) [OF T] tg(2) f(3)]
      by (simp add: type_ok_def ty' pb_delsort_def)
    fix u uy assume "type_heap S u = Some uy" "u \<noteq> t"
    with F(2) [OF t this(1)] f(4) [OF this(1)] fo show "fields_of ty' \<inter> fields_of uy = {}" by blast
  qed (simp_all add: ty' pb_delsort_def)
  then show ?thesis
  proof (rule forget_dangling)
    fix u uy
    assume u: "type_heap ?S u = Some uy"
    have gone: "x \<notin> fields_of ty'" if x: "x \<in> D" for x
    proof
      assume "x \<in> fields_of ty'"
      then obtain j where j: "x = tval nm j \<or> x = tval tg j" "x \<noteq> 0" by (auto simp: fields_of_def ty' pb_delsort_def)
      have xf: "x \<noteq> f" using x f(1) F(4) by auto
      from D [OF x] consider "x = tval (ty_field_names ty) k" "x \<notin> range (tval (ty_field_tags ty))"
        | "x = tval (ty_field_tags ty) n" "x \<notin> range (tval (ty_field_names ty))" by blast
      then show False
      proof cases
        case 1
        then have "tval (ty_field_names ty) j = tval (ty_field_names ty) k" "j \<noteq> k"
          using j xf by (auto simp: nm(2) tg(2) split: if_splits)
        with keyed_unique [OF before(1)] 1(1) j(2) show False by metis
      next
        case 2
        then have "tval (ty_field_tags ty) j = tval (ty_field_tags ty) n" "j \<noteq> n"
          using j xf by (auto simp: nm(2) tg(2) split: if_splits)
        with keyed_unique [OF before(2)] 2(1) j(2) show False by metis
      qed
    qed
    show "fields_of uy \<inter> D \<subseteq> {}"
    proof (cases "u = t")
      case True
      with u gone show ?thesis by auto
    next
      case False
      have "x \<in> fields_of ty" if "x \<in> D" for x
        using D [OF that] by (auto simp: fields_of_def)
      with F(2) [OF t, of u uy] u False show ?thesis by auto
    qed
  qed simp
qed

text \<open>
  The effect of \<open>pb_newfield\<close>, which returns \<open>f\<close>.  Without memory (\<open>f\<close> null) the tables keep their values,
  except possibly that of number zero.
\<close>

definition field_added :: "nat \<Rightarrow> pb_Key \<Rightarrow> pb_Key \<Rightarrow> pb_Type \<Rightarrow> pb_Type \<Rightarrow> bool" where
  "field_added f k n ty ty' \<longleftrightarrow> same_type ty ty' \<and>
     (if f = 0
      then tval (ty_field_names ty') = tval (ty_field_names ty) \<and>
        (\<forall>x. x \<noteq> 0 \<longrightarrow> tval (ty_field_tags ty') x = tval (ty_field_tags ty) x) \<and>
        tval (ty_field_tags ty') 0 \<in> {0, tval (ty_field_tags ty) 0}
      else tables_updated f k n ty ty')"

lemma newfield_existing:
  assumes ok: "state_ok al X {} S" and f: "field_heap S f = Some fd"
  shows "\<exists>nt. release_name (fd_default fd) S = Some (S\<lparr>nametable := nt\<rparr>) \<and>
    state_ok al X {} (S\<lparr>nametable := nt, field_heap := (field_heap S)(f \<mapsto> fd\<lparr>fd_default := 0\<rparr>)\<rparr>)"
proof -
  let ?S = "S\<lparr>field_heap := (field_heap S)(f \<mapsto> fd\<lparr>fd_default := 0\<rparr>)\<rparr>"
  let ?X = "\<lambda>a. X a + (if a = fd_default fd then 1 else 0)"
  have "state_ok al ?X {} ?S"
    by (rule update_field_ok [OF ok f]) (simp_all add: field_uses_def)
  from release_name [OF this, of "fd_default fd"] obtain nt where
    r: "release_name (fd_default fd) ?S = Some (?S\<lparr>nametable := nt\<rparr>)"
      "state_ok al (\<lambda>b. ?X b - (if b = fd_default fd then 1 else 0)) {} (?S\<lparr>nametable := nt\<rparr>)" by auto
  have "pb_delname (fd_default fd) (nametable S) = Some nt"
    using r(1) by (auto simp: release_name_def bind_eq_Some_conv dest!: arg_cong [where f = nametable])
  then have "release_name (fd_default fd) S = Some (S\<lparr>nametable := nt\<rparr>)" by (simp add: release_name_def)
  moreover have "state_ok al X {} (?S\<lparr>nametable := nt\<rparr>)" using r(2) by (rule state_ok_weaken) simp
  moreover have "?S\<lparr>nametable := nt\<rparr> = S\<lparr>nametable := nt, field_heap := (field_heap S)(f \<mapsto> fd\<lparr>fd_default := 0\<rparr>)\<rparr>"
    by (rule pb_State.equality) simp_all
  ultimately show ?thesis by auto
qed

text \<open>
  There is no memory for a new field: a table of the type needs a larger block that the allocator refuses,
  or the pool is empty and gets no page.
\<close>

definition no_field_memory :: "pb_alloc \<Rightarrow> pb_State \<Rightarrow> pb_Type \<Rightarrow> bool" where
  "no_field_memory al S ty \<longleftrightarrow> refused (al_block al) (ty_field_names ty) \<or> refused (al_block al) (ty_field_tags ty) \<or>
     pl_freed (fieldpool S) = [] \<and> al_page al (pl_pages (fieldpool S)) = 0"

text \<open>A field that one of the keys led to before, and that nothing leads to any more.\<close>

definition replaced :: "pb_Key \<Rightarrow> pb_Key \<Rightarrow> pb_Type \<Rightarrow> pb_Type \<Rightarrow> nat \<Rightarrow> bool" where
  "replaced k n ty ty' x \<longleftrightarrow> x \<noteq> 0 \<and> (x = tval (ty_field_names ty) k \<or> x = tval (ty_field_tags ty) n) \<and> x \<notin> fields_of ty'"

lemma lost_both:
  assumes x: "x \<noteq> f" and nv: "names k \<noteq> 0 \<Longrightarrow> tags n \<noteq> names k"
    and names: "\<And>y. names k \<noteq> 0 \<Longrightarrow> names y = names k \<Longrightarrow> y = k"
    and tags: "\<And>y. tags n \<noteq> 0 \<Longrightarrow> tags y = tags n \<Longrightarrow> y = n"
  shows "x \<noteq> 0 \<and> (x = names k \<or> x = tags n) \<and> x \<notin> range (names(k := f)) \<and> x \<notin> range (tags(n := f)) \<longleftrightarrow>
    x \<in> {x :: nat. x \<noteq> 0 \<and> (x = names k \<and> x \<notin> range tags \<or> x = tags n \<and> x \<notin> range names)}"
proof -
  have other: "x \<in> range (g(j := f)) \<longleftrightarrow> (\<exists>y. y \<noteq> j \<and> g y = x)" for g :: "'c \<Rightarrow> nat" and j
    using x by (auto simp: image_iff)
  have range: "x \<in> range g \<longleftrightarrow> (\<exists>y. g y = x)" for g :: "'c \<Rightarrow> nat" by auto
  consider "x = 0" | "x \<noteq> 0" "x = names k" | "x \<noteq> 0" "x = tags n" | "x \<noteq> names k" "x \<noteq> tags n" by blast
  then show ?thesis
  proof cases
    case 2
    then have "x \<noteq> tags n" "\<And>y. names y = x \<Longrightarrow> y = k" using nv names by metis+
    with 2 show ?thesis unfolding other unfolding mem_Collect_eq range by metis
  next
    case 3
    then have "x \<noteq> names k" "\<And>y. tags y = x \<Longrightarrow> y = n" using nv tags by metis+
    with 3 show ?thesis unfolding other unfolding mem_Collect_eq range by metis
  qed simp_all
qed

lemma newfield:
  assumes ok: "state_ok (al_block al) X {} S" and al: "alloc_ok al"
    and n: "fname \<noteq> 0" "0 < X fname" and t: "type_heap S t = Some ty"
  shows "\<exists>f S' ty'. pb_newfield al t fname number S = Some (f, S') \<and>
    state_ok (al_block al) (\<lambda>a. X a - (if a = fname then 1 else 0)) {} S' \<and> types S' = types S \<and>
    type_heap S' = (type_heap S)(t \<mapsto> ty') \<and> field_added f (ptr_key fname) (num_key number) ty ty' \<and>
    (if f = 0 then field_heap S' = field_heap S \<and> no_field_memory al S ty
     else (\<exists>fd. field_heap S' f = Some fd \<and> fd_name fd = fname \<and> fd_number fd = number \<and> fd_default fd = 0) \<and>
       (\<forall>x. x \<noteq> f \<longrightarrow> field_heap S' x = (if replaced (ptr_key fname) (num_key number) ty ty' x then None else field_heap S x)))"
proof -
  let ?ok = "state_ok (al_block al)"
  let ?X = "\<lambda>a. X a - (if a = fname then 1 else 0)"
  let ?k = "ptr_key fname" and ?n = "num_key number"
  note F = fields_okD [OF state_okD(5) [OF ok]]
  have T: "type_ok (al_block al) {} (field_heap S) ty" by (rule F(1) [OF t])
  have bb: "bounded_blocks (al_block al)" using al by (simp add: alloc_ok_def)
  have small: "sizeof_TypeEntry < 134217728" by (simp add: sizeof_TypeEntry_def)
  have fname: "fname < 18446744073709551616" by (rule live_name(2) [OF ok n(1)]) (use n(2) in simp)
  have k0: "?k \<noteq> 0" using ptr_key_inj [of fname 0] fname n(1) by (auto simp: ptr_key_def)
  obtain nf nm where nm: "pb_settable (al_block al) (ty_field_names ty) ?k = Some (nf, nm)" "good (al_block al) sizeof_TypeEntry nm"
    "\<And>x. x \<noteq> 0 \<Longrightarrow> tval nm x = tval (ty_field_names ty) x" "tval nm 0 = tval (ty_field_names ty) 0 \<or> tval nm 0 = 0"
    "\<And>i. nf = Some i \<Longrightarrow> slot nm ?k = Some i" "nf = None \<longrightarrow> refused (al_block al) (ty_field_names ty)"
    using settable_good [OF type_okD(1) [OF T] bb small, of ?k] by blast
  have nmv: "tval nm = tval (ty_field_names ty)" using nm(3,4) no_zero_name [OF ok t] by (metis ext)
  obtain tf tg where tg: "pb_settable (al_block al) (ty_field_tags ty) ?n = Some (tf, tg)" "good (al_block al) sizeof_TypeEntry tg"
    "\<And>x. x \<noteq> 0 \<Longrightarrow> tval tg x = tval (ty_field_tags ty) x"
    "tval tg 0 = tval (ty_field_tags ty) 0 \<or> tval tg 0 = 0 \<and> ?n \<noteq> 0"
    "\<And>i. tf = Some i \<Longrightarrow> slot tg ?n = Some i" "tf = None \<longrightarrow> refused (al_block al) (ty_field_tags ty)"
    using settable_good [OF type_okD(2) [OF T] bb small, of ?n] by blast
  define ty1 where "ty1 = ty\<lparr>ty_field_names := nm, ty_field_tags := tg\<rparr>"
  define S1 where "S1 = S\<lparr>type_heap := (type_heap S)(t \<mapsto> ty1)\<rparr>"
  have ok1: "?ok X {} S1"
    unfolding S1_def ty1_def using tg(4) by (intro asked_type_ok [OF ok t nm(2) nmv tg(2,3)]) auto
  have weak: "?ok ?X {} S'" if "?ok X {} S'" for S' using that by (rule state_ok_weaken) simp
  have same1: "same_type ty ty1" by (simp add: same_type_def ty1_def)
  have up: "update_type t (\<lambda>ty. ty\<lparr>ty_field_names := nm, ty_field_tags := tg\<rparr>) S = Some S1"
    by (simp add: update_type_def t S1_def ty1_def)
  have t1: "type_heap S1 t = Some ty1" "types S1 = types S" "field_heap S1 = field_heap S" "fieldpool S1 = fieldpool S"
    by (simp_all add: S1_def)
  have fail: "field_added 0 ?k ?n ty ty1"
    using same1 tg(3,4) by (auto simp: field_added_def ty1_def nmv)
  show ?thesis
  proof (cases "nf = None \<or> tf = None")
    case True
    then have "pb_newfield al t fname number S = Some (0, S1)"
      using n(1) t nm(1) tg(1) up by (cases nf; cases tf) (auto simp: pb_newfield_def)
    moreover have "no_field_memory al S ty" using True nm(6) tg(6) by (auto simp: no_field_memory_def)
    ultimately show ?thesis using weak [OF ok1] fail by (auto simp: S1_def)
  next
    case False
    then obtain i j where ij: "nf = Some i" "tf = Some j" by auto
    note ni = slot_entry [OF nm(2) nm(5) [OF ij(1)]] and tj = slot_entry [OF tg(2) tg(5) [OF ij(2)]]
    define vn where "vn = tval nm ?k"
    define vt where "vt = tval tg ?n"
    have vt: "vt = tval (ty_field_tags ty) ?n" using tg(3) [of ?n] tg(4) by (cases "?n = 0") (auto simp: vt_def)
    have T1: "type_ok (al_block al) {} (field_heap S) ty1"
      using fields_okD(1) [OF state_okD(5) [OF ok1] t1(1)] by (simp add: t1(3))
    show ?thesis
    proof (cases "vn \<noteq> 0 \<and> vt = vn")
      case True
      then have v: "vn \<noteq> 0" "vt = vn" by simp_all
      obtain fd where fd: "field_heap S vn = Some fd" "name_key fd = ?k"
        using keyedD [OF type_okD(4) [OF T1], of ?k] v(1) by (auto simp: vn_def ty1_def)
      have "number_key fd = ?n"
        using keyedD [OF type_okD(5) [OF T1], of ?n] v fd(1) by (auto simp: vt_def ty1_def)
      then have number: "fd_number fd = number" by (simp add: num_key_inj)
      have name: "fd_name fd = fname"
        using ptr_key_inj [OF fd(2) field_name_live(2) [OF ok fd(1)] fname] .
      obtain nt where nt: "release_name (fd_default fd) S1 = Some (S1\<lparr>nametable := nt\<rparr>)"
        "?ok X {} (S1\<lparr>nametable := nt, field_heap := (field_heap S1)(vn \<mapsto> fd\<lparr>fd_default := 0\<rparr>)\<rparr>)"
        using newfield_existing [OF ok1, of vn fd] fd(1) by (auto simp: t1(3))
      define S' where "S' = S1\<lparr>nametable := nt, field_heap := (field_heap S1)(vn \<mapsto> fd\<lparr>fd_default := 0\<rparr>)\<rparr>"
      have "pb_newfield al t fname number S = Some (vn, S')"
        using n(1) t nm(1) tg(1) up ij ni(1,2) tj(1,2) v fd(1) nt(1)
        by (simp add: pb_newfield_def vn_def [symmetric] vt_def [symmetric] t1(3) update_field_def S'_def)
      moreover have "tables_updated vn ?k ?n ty ty1"
        using tg(3,4) v vt by (auto simp: tables_updated_def ty1_def nmv vn_def vt_def)
      then have "field_added vn ?k ?n ty ty1" using same1 v(1) by (simp add: field_added_def)
      moreover have "\<not> replaced ?k ?n ty ty1 x" if "x \<noteq> vn" for x
        using that v vt by (simp add: replaced_def vn_def nmv)
      ultimately show ?thesis
        using weak [OF nt(2)] name number v(1) by (auto simp: S'_def S1_def)
    next
      case nv: False
      let ?page = "al_page al (pl_pages (fieldpool S))"
      have "pool_ok (fieldpool S)" "?page = 0 \<or> page_fresh ?page (pl_pages (fieldpool S))"
        using state_okD(3) [OF ok] al by (simp_all add: mem_ok_def alloc_ok_def)
      from poolalloc [OF this] obtain f pool where p: "pb_poolalloc ?page (fieldpool S) = Some (f, pool)" "pool_ok pool"
        "f = 0 \<and> pool = fieldpool S \<and> ?page = 0 \<and> pl_freed (fieldpool S) = [] \<or> f \<noteq> 0 \<and> f \<notin> in_use (fieldpool S) \<and> in_use pool = insert f (in_use (fieldpool S))"
        by blast
      show ?thesis
      proof (cases "f = 0")
        case True
        then have "pool = fieldpool S1" using p(3) t1(4) by simp
        then have "pb_newfield al t fname number S = Some (0, S1)"
          using n(1) t nm(1) tg(1) up ij ni(1,2) tj(1,2) nv p(1) True
          by (cases "vn = 0") (simp_all add: pb_newfield_def vn_def [symmetric] vt_def [symmetric] t1(4))
        moreover have "no_field_memory al S ty" using p(3) True by (auto simp: no_field_memory_def)
        ultimately show ?thesis using weak [OF ok1] fail by (auto simp: S1_def)
      next
        case False
        have fresh: "field_heap S1 f = None" "in_use pool = insert f (in_use (fieldpool S1))"
          using p(3) False state_okD(3) [OF ok] by (auto simp: mem_ok_def t1(3,4))
        define S2 where "S2 = S1\<lparr>fieldpool := pool, field_heap := (field_heap S1)(f \<mapsto> new_field fname t number)\<rparr>"
        have ok2: "?ok ?X {} S2"
          unfolding S2_def using new_field_ok [OF ok1 n fresh(1) _ p(2) fresh(2)] by simp
        have t2: "type_heap S2 t = Some ty1" "types S2 = types S" by (simp_all add: S2_def t1)
        obtain S3 c D' where 3: "replace_fields t vn vt S2 = Some S3" "?ok ?X D' S3"
          "type_heap S3 = (type_heap S2)(t \<mapsto> ty1\<lparr>ty_field_count := c\<rparr>)" "types S3 = types S2"
          "field_heap S3 = field_heap S2 |` (- D')"
          "D' = {x. x \<noteq> 0 \<and> (x = vn \<and> x \<notin> range (tval (ty_field_tags ty1)) \<or>
            x = vt \<and> x \<notin> range (tval (ty_field_names ty1)))}"
          using replace_fields [OF ok2 t2(1), of vn ?k vt ?n] nv by (auto simp: vn_def vt_def ty1_def)
        obtain nm' where nm': "put_value i f nm = Some nm'" "good (al_block al) sizeof_TypeEntry nm'" "tmap nm' = (tmap nm)(?k \<mapsto> f)"
          using put_value_good [OF nm(2) nm(5) [OF ij(1)], of f] by blast
        obtain tg' where tg': "put_value j f tg = Some tg'" "good (al_block al) sizeof_TypeEntry tg'" "tmap tg' = (tmap tg)(?n \<mapsto> f)"
          using put_value_good [OF tg(2) tg(5) [OF ij(2)], of f] by blast
        have v': "tval nm' = (tval nm)(?k := f)" "tval tg' = (tval tg)(?n := f)"
          using nm'(3) tg'(3) by (auto simp: tval_def fun_eq_iff)
        define ty' where "ty' = pb_delsort ((ty1\<lparr>ty_field_count := c\<rparr>)\<lparr>ty_field_count := c + 1, ty_field_names := nm', ty_field_tags := tg'\<rparr>)"
        define S' where "S' = S3\<lparr>type_heap := (type_heap S3)(t \<mapsto> ty')\<rparr>"
        have fields1: "ty_field_names ty1 = nm" "ty_field_tags ty1 = tg" by (simp_all add: ty1_def)
        have own: "f \<notin> fields_of uy" if "type_heap S1 u = Some uy" for u uy
        proof
          assume "f \<in> fields_of uy"
          from fields_in_heap [OF fields_okD(1) [OF state_okD(5) [OF ok1] that] this] fresh(1) show False by simp
        qed
        have f3: "field_heap S3 f = Some (new_field fname t number)"
        proof -
          have "vn \<noteq> f" if "vn \<noteq> 0" using own [OF t1(1)] that by (auto simp: vn_def fields_of_def ty1_def)
          moreover have "vt \<noteq> f" if "vt \<noteq> 0" using own [OF t1(1)] that by (auto simp: vt_def fields_of_def ty1_def)
          ultimately have "f \<notin> D'" by (auto simp: 3(6))
          then show ?thesis by (simp add: 3(5) S2_def)
        qed
        have kd: "keyed name_key {} (field_heap S2) (ty_field_names ty1)" "keyed number_key {} (field_heap S2) (ty_field_tags ty1)"
          using type_okD(4,5) [OF fields_okD(1) [OF state_okD(5) [OF ok2] t2(1)]] by simp_all
        have "?ok ?X {} S'"
          unfolding S'_def
        proof (rule enter_field [OF 3(2) _ _ _ _ f3])
          show "type_heap S3 t = Some (ty1\<lparr>ty_field_count := c\<rparr>)" by (simp add: 3(3))
          show "keyed name_key {} (field_heap S2) (ty_field_names (ty1\<lparr>ty_field_count := c\<rparr>))" using kd(1) by simp
          show "keyed number_key {} (field_heap S2) (ty_field_tags (ty1\<lparr>ty_field_count := c\<rparr>))" using kd(2) by simp
          show "x \<noteq> 0 \<and> (x = tval (ty_field_names (ty1\<lparr>ty_field_count := c\<rparr>)) ?k \<and> x \<notin> range (tval (ty_field_tags (ty1\<lparr>ty_field_count := c\<rparr>))) \<or>
              x = tval (ty_field_tags (ty1\<lparr>ty_field_count := c\<rparr>)) ?n \<and> x \<notin> range (tval (ty_field_names (ty1\<lparr>ty_field_count := c\<rparr>))))"
            if "x \<in> D'" for x using that by (auto simp: 3(6) vn_def vt_def ty1_def)
          show "name_key (new_field fname t number) = ?k" "number_key (new_field fname t number) = ?n"
            by (simp_all add: new_field_def)
          show "f \<notin> fields_of uy" if u: "type_heap S3 u = Some uy" for u uy
          proof (cases "u = t")
            case True
            with u have "fields_of uy = fields_of ty1" by (auto simp: 3(3) fields_of_def)
            with own [OF t1(1)] show ?thesis by simp
          next
            case False
            with u own [of u uy] show ?thesis by (simp add: 3(3) S2_def)
          qed
          show "good (al_block al) sizeof_TypeEntry nm'" "good (al_block al) sizeof_TypeEntry tg'" by fact+
          show "tval nm' = (tval (ty_field_names (ty1\<lparr>ty_field_count := c\<rparr>)))(?k := f)"
            "tval tg' = (tval (ty_field_tags (ty1\<lparr>ty_field_count := c\<rparr>)))(?n := f)" by (simp_all add: ty1_def v')
          show "ty' = pb_delsort ((ty1\<lparr>ty_field_count := c\<rparr>)\<lparr>ty_field_count := c + 1, ty_field_names := nm', ty_field_tags := tg'\<rparr>)"
            by (rule ty'_def)
        qed
        moreover have "pb_newfield al t fname number S = Some (f, S')"
        proof -
          have s2: "S1\<lparr>fieldpool := pool, field_heap := (field_heap S1)(f \<mapsto> new_field fname t number)\<rparr> = S2" by (simp add: S2_def)
          have up3: "update_type t (\<lambda>ty. pb_delsort (ty\<lparr>ty_field_count := ty_field_count ty + 1,
              ty_field_names := nm', ty_field_tags := tg'\<rparr>)) S3 = Some S'"
            by (simp add: update_type_def 3(3) S'_def ty'_def)
          show ?thesis
            using n(1) t nm(1) tg(1) up ij ni(1,2) tj(1,2) nv p(1) False 3(1) nm'(1) tg'(1) up3
            by (cases "vn = 0") (simp_all add: pb_newfield_def vn_def [symmetric] vt_def [symmetric] t1(4) s2)
        qed
        moreover have "type_heap S' = (type_heap S)(t \<mapsto> ty')" by (simp add: S'_def 3(3) S2_def S1_def)
        moreover have "types S' = types S" by (simp add: S'_def 3(4) t2(2))
        moreover have "field_heap S' f = Some (new_field fname t number)" by (simp add: S'_def f3)
        moreover have "field_added f ?k ?n ty ty'"
          using False same1 tg(3,4) v' by (auto simp: field_added_def same_type_def tables_updated_def ty'_def ty1_def pb_delsort_def nmv)
        moreover have "field_heap S' x = (if replaced ?k ?n ty ty' x then None else field_heap S x)" if x: "x \<noteq> f" for x
        proof -
          have "x \<in> D' \<longleftrightarrow> replaced ?k ?n ty ty' x"
          proof -
            have "replaced ?k ?n ty ty' x \<longleftrightarrow> x \<noteq> 0 \<and> (x = vn \<or> x = vt) \<and> x \<notin> range (tval nm') \<and> x \<notin> range (tval tg')"
              by (auto simp: replaced_def fields_of_def ty'_def pb_delsort_def vt vn_def nmv)
            also have "\<dots> \<longleftrightarrow> x \<in> D'"
              unfolding v' 3(6) vn_def vt_def fields1
            proof (rule lost_both [OF x])
              show "tval nm ?k \<noteq> 0 \<Longrightarrow> tval tg ?n \<noteq> tval nm ?k" using nv by (simp add: vn_def vt_def)
              show "y = ?k" if "tval nm ?k \<noteq> 0" "tval nm y = tval nm ?k" for y
                using keyed_unique [OF type_okD(4) [OF T1], of ?k y] that by (simp add: ty1_def)
              show "y = ?n" if "tval tg ?n \<noteq> 0" "tval tg y = tval tg ?n" for y
                using keyed_unique [OF type_okD(5) [OF T1], of ?n y] that by (simp add: ty1_def)
            qed
            finally show ?thesis by simp
          qed
          moreover have "field_heap S' x = (if x \<in> D' then None else field_heap S x)"
            using x by (simp add: S'_def 3(5) S2_def S1_def)
          ultimately show ?thesis by simp
        qed
        ultimately show ?thesis using False by (auto simp: new_field_def)
      qed
    qed
  qed
qed

end
