(* ===== verification/Pb_Delete_Correct.thy ===== *)
theory Pb_Delete_Correct
  imports Pb_Fields_Correct
begin

unbundle bit_operations_syntax

text \<open>
  Deleting a field, a type and the whole database: every object is released once, and what is released is
  not found any more.
\<close>

section \<open>Deleting a field\<close>

text \<open>The table without the values \<open>f\<close>.\<close>

definition without :: "nat \<Rightarrow> (pb_Key \<Rightarrow> nat) \<Rightarrow> pb_Key \<Rightarrow> nat" where
  "without f m k = (if m k = f then 0 else m k)"

lemma without_notin: "f \<notin> range m \<Longrightarrow> without f m = m"
  by (auto simp: without_def fun_eq_iff)

lemma del_from:
  assumes g: "good al n tab" and key: "keyed kf {} H tab" and f: "f \<noteq> 0" "H f = Some fd"
  shows "\<exists>tab'. del_from tab (kf fd) f c = Some (if f \<in> range (tval tab) then c + 1 else c, tab') \<and> good al n tab' \<and>
    tval tab' = without f (tval tab)"
proof (cases "f \<in> range (tval tab)")
  case True
  then obtain k where k: "tval tab k = f" by auto
  then have "tval tab k \<noteq> 0" using f(1) by simp
  from keyedD [OF key this] have kf: "k = kf fd" using k f(2) by auto
  then obtain i where i: "slot tab (kf fd) = Some i" using k f(1) slot_None(2) [of tab] by (cases "slot tab (kf fd)") auto
  obtain tab' where t': "clear_entry i tab = Some tab'" "good al n tab'" "tval tab' = (tval tab)(kf fd := 0)"
    using clear_entry_good [OF g i] by blast
  have v: "tval tab (kf fd) = f" using k kf by simp
  have "(tval tab)(kf fd := 0) = without f (tval tab)"
  proof
    fix j
    have "tval tab j \<noteq> f" if "j \<noteq> kf fd"
      using keyed_unique [OF key, of "kf fd" j] that v f(1) by auto
    then show "((tval tab)(kf fd := 0)) j = without f (tval tab) j"
      using v by (cases "j = kf fd") (simp_all add: without_def)
  qed
  with t'(2,3) have "good al n tab' \<and> tval tab' = without f (tval tab)" by simp
  moreover have "del_from tab (kf fd) f c = Some (c + 1, tab')"
    using slot_entry(1,2) [OF g i] v t'(1) by (simp add: del_from_def gettable_good [OF g] i)
  ultimately show ?thesis using True by simp
next
  case False
  then have v: "tval tab (kf fd) \<noteq> f" by auto
  have "del_from tab (kf fd) f c = Some (c, tab)"
  proof (cases "slot tab (kf fd)")
    case None
    then show ?thesis by (simp add: del_from_def gettable_good [OF g])
  next
    case (Some i)
    with slot_entry(1,2) [OF g Some] v show ?thesis by (simp add: del_from_def gettable_good [OF g])
  qed
  with False g without_notin [OF False] show ?thesis by simp
qed

lemma without_keyed: "keyed kf D H tab \<Longrightarrow> tval tab' = without f (tval tab) \<Longrightarrow> keyed kf D H tab'"
  by (auto simp: keyed_def without_def)

definition field_removed :: "nat \<Rightarrow> pb_Type \<Rightarrow> pb_Type \<Rightarrow> bool" where
  "field_removed f ty ty' \<longleftrightarrow> same_type ty ty' \<and>
     tval (ty_field_names ty') = without f (tval (ty_field_names ty)) \<and>
     tval (ty_field_tags ty') = without f (tval (ty_field_tags ty))"

lemma delfield:
  assumes ok: "state_ok al X {} S" and t: "type_heap S t = Some ty" and f: "field_heap S f = Some fd"
  shows "\<exists>S' ty'. pb_delfield t f S = Some S' \<and> state_ok al X {} S' \<and> types S' = types S \<and>
    type_heap S' = (type_heap S)(t \<mapsto> ty') \<and> field_removed f ty ty' \<and>
    field_heap S' = (if f \<in> fields_of ty then (field_heap S)(f := None) else field_heap S)"
proof -
  note F = fields_okD [OF state_okD(5) [OF ok]]
  have T: "type_ok al {} (field_heap S) ty" by (rule F(1) [OF t])
  have nz: "t \<noteq> 0" "f \<noteq> 0" using heap_addr [OF state_okD(3) [OF ok]] t f by auto
  obtain nm where nm: "good al sizeof_TypeEntry nm" "tval nm = without f (tval (ty_field_names ty))"
    "del_from (ty_field_names ty) (name_key fd) f 0 = Some (if f \<in> range (tval (ty_field_names ty)) then 1 else 0, nm)"
    using del_from [OF type_okD(1,4) [OF T] nz(2) f, of 0] by auto
  define c where "c = (if f \<in> range (tval (ty_field_names ty)) then 1 else 0 :: nat)"
  obtain tg where tg: "good al sizeof_TypeEntry tg" "tval tg = without f (tval (ty_field_tags ty))"
    "del_from (ty_field_tags ty) (number_key fd) f c = Some (if f \<in> range (tval (ty_field_tags ty)) then c + 1 else c, tg)"
    using del_from [OF type_okD(2,5) [OF T] nz(2) f, of c] by auto
  define c2 where "c2 = (if f \<in> range (tval (ty_field_tags ty)) then c + 1 else c)"
  have c2: "c2 \<noteq> 0 \<longleftrightarrow> f \<in> fields_of ty" using nz(2) by (auto simp: c2_def c_def fields_of_def)
  define g where "g = (\<lambda>n l m. ty\<lparr>ty_field_names := nm, ty_field_tags := tg, ty_oneof_field := n,
      ty_field_count := l, ty_field_sort := m\<rparr>)"
  have gone: "f \<notin> fields_of (g n l m)" "fields_of (g n l m) \<subseteq> fields_of ty" for n l m
    using nz(2) by (auto simp: fields_of_def g_def nm(2) tg(2) without_def split: if_splits)
  have T': "type_ok al {} (field_heap S) (g n l m)" for n l m
    using T nm(1) tg(1) without_keyed [OF type_okD(4) [OF T] nm(2)] without_keyed [OF type_okD(5) [OF T] tg(2)]
    by (simp add: type_ok_def g_def)
  have ok1: "state_ok al X {} (S\<lparr>type_heap := (type_heap S)(t \<mapsto> g n l m)\<rparr>)" for n l m
    by (rule update_type_ok [OF ok t]) (use T' gone in \<open>auto simp: g_def\<close>)
  have rm: "field_removed f ty (g n l m)" for n l m
    by (simp add: field_removed_def same_type_def g_def nm(2) tg(2))
  have up: "update_type t (\<lambda>ty. ty\<lparr>ty_field_names := nm, ty_field_tags := tg\<rparr>) S =
      Some (S\<lparr>type_heap := (type_heap S)(t \<mapsto> g (ty_oneof_field ty) (ty_field_count ty) (ty_field_sort ty))\<rparr>)"
    by (simp add: update_type_def t g_def)
  have start: "pb_delfield t f S = do {
      S \<leftarrow> (if c2 \<noteq> 0 then do {
          S \<leftarrow> (if fd_oneof_idx fd \<noteq> 0 then update_type t (\<lambda>ty. ty\<lparr>ty_oneof_field := ty_oneof_field ty - 1\<rparr>)
                  (S\<lparr>type_heap := (type_heap S)(t \<mapsto> g (ty_oneof_field ty) (ty_field_count ty) (ty_field_sort ty))\<rparr>)
                else Some (S\<lparr>type_heap := (type_heap S)(t \<mapsto> g (ty_oneof_field ty) (ty_field_count ty) (ty_field_sort ty))\<rparr>));
          S \<leftarrow> pbT_freefield f S;
          update_type t (\<lambda>ty. ty\<lparr>ty_field_count := ty_field_count ty - 1\<rparr>) S
        } else Some (S\<lparr>type_heap := (type_heap S)(t \<mapsto> g (ty_oneof_field ty) (ty_field_count ty) (ty_field_sort ty))\<rparr>));
      update_type t pb_delsort S }"
    using nz f t nm(3) tg(3) by (simp add: pb_delfield_def up c_def [symmetric] c2_def [symmetric])
  show ?thesis
  proof (cases "c2 = 0")
    case True
    then have "pb_delfield t f S = Some (S\<lparr>type_heap := (type_heap S)(t \<mapsto> g (ty_oneof_field ty) (ty_field_count ty) None)\<rparr>)"
      by (simp add: start update_type_def g_def pb_delsort_def)
    with ok1 rm c2 True show ?thesis by auto
  next
    case False
    define n where "n = (if fd_oneof_idx fd \<noteq> 0 then ty_oneof_field ty - 1 else ty_oneof_field ty)"
    define S1 where "S1 = S\<lparr>type_heap := (type_heap S)(t \<mapsto> g n (ty_field_count ty) (ty_field_sort ty))\<rparr>"
    have n: "(if fd_oneof_idx fd \<noteq> 0 then update_type t (\<lambda>ty. ty\<lparr>ty_oneof_field := ty_oneof_field ty - 1\<rparr>)
          (S\<lparr>type_heap := (type_heap S)(t \<mapsto> g (ty_oneof_field ty) (ty_field_count ty) (ty_field_sort ty))\<rparr>)
        else Some (S\<lparr>type_heap := (type_heap S)(t \<mapsto> g (ty_oneof_field ty) (ty_field_count ty) (ty_field_sort ty))\<rparr>)) = Some S1"
      by (simp add: update_type_def g_def S1_def n_def)
    have "field_heap S1 f = Some fd" using f by (simp add: S1_def)
    from freefield [OF ok1 [of n "ty_field_count ty" "ty_field_sort ty", folded S1_def] this] obtain nt where
      ff: "pbT_freefield f S1 = Some (S1\<lparr>nametable := nt, fieldpool := pb_poolfree f (fieldpool S1), field_heap := (field_heap S1)(f := None)\<rparr>)"
        "state_ok al X {f} (S1\<lparr>nametable := nt, fieldpool := pb_poolfree f (fieldpool S1), field_heap := (field_heap S1)(f := None)\<rparr>)"
      by auto
    define S2 where "S2 = S1\<lparr>nametable := nt, fieldpool := pb_poolfree f (fieldpool S1), field_heap := (field_heap S1)(f := None)\<rparr>"
    define ty' where "ty' = g n (ty_field_count ty - 1) None"
    define S3 where "S3 = S2\<lparr>type_heap := (type_heap S2)(t \<mapsto> ty')\<rparr>"
    have t2: "type_heap S2 t = Some (g n (ty_field_count ty) (ty_field_sort ty))" by (simp add: S2_def S1_def)
    have run: "pb_delfield t f S = Some S3"
      using False ff(1) t2 unfolding start n
      by (simp add: S2_def [symmetric] update_type_def g_def ty'_def S3_def pb_delsort_def)
    have "type_ok al {f} (field_heap S2) (g n (ty_field_count ty) (ty_field_sort ty))"
      using fields_okD(1) [OF state_okD(5) [OF ff(2) [folded S2_def]] t2] .
    then have "state_ok al X {f} S3"
      unfolding S3_def
      by (intro update_type_ok [OF ff(2) [folded S2_def] t2]) (simp_all add: ty'_def g_def type_ok_def fields_of_def)
    then have "state_ok al X {} S3"
    proof (rule forget_dangling)
      fix u uy assume u: "type_heap S3 u = Some uy"
      show "fields_of uy \<inter> {f} \<subseteq> {}"
      proof (cases "u = t")
        case True
        with u gone(1) show ?thesis by (auto simp: S3_def ty'_def)
      next
        case other: False
        with u have "type_heap S u = Some uy" by (simp add: S3_def S2_def S1_def)
        from F(2) [OF t this] other False c2 show ?thesis by auto
      qed
    qed simp
    moreover have "type_heap S3 = (type_heap S)(t \<mapsto> ty')" "types S3 = types S" "field_heap S3 = (field_heap S)(f := None)"
      by (simp_all add: S3_def S2_def S1_def)
    ultimately show ?thesis using run rm c2 False by (auto simp: ty'_def)
  qed
qed

section \<open>Deleting a type\<close>

text \<open>
  The state in the first loop: the table of names is the one at the start, \<open>D\<close> is what has been released,
  and the table of numbers leads to nothing in \<open>D\<close>.
\<close>

definition deleting :: "(nat \<Rightarrow> bool) \<Rightarrow> (nat \<Rightarrow> nat) \<Rightarrow> nat set \<Rightarrow> pb_State \<Rightarrow> nat \<Rightarrow> pb_Type \<Rightarrow> pb_State \<Rightarrow> bool" where
  "deleting al X D S0 t ty S \<longleftrightarrow> state_ok al X D S \<and> types S = types S0 \<and> field_heap S = field_heap S0 |` (- D) \<and>
     type_heap S = (type_heap S0)(t \<mapsto> ty) \<and> D \<inter> range (tval (ty_field_tags ty)) = {} \<and> 0 \<notin> D"

lemma freefield_deleting:
  assumes d: "deleting al X D S0 t ty S" and f: "field_heap S f = Some fd" "f \<notin> range (tval (ty_field_tags ty))"
  shows "\<exists>S'. pbT_freefield f S = Some S' \<and> deleting al X (insert f D) S0 t ty S'"
proof -
  have ok: "state_ok al X D S" using d by (simp add: deleting_def)
  obtain nt where nt: "pbT_freefield f S = Some (S\<lparr>nametable := nt, fieldpool := pb_poolfree f (fieldpool S), field_heap := (field_heap S)(f := None)\<rparr>)"
    "state_ok al X (insert f D) (S\<lparr>nametable := nt, fieldpool := pb_poolfree f (fieldpool S), field_heap := (field_heap S)(f := None)\<rparr>)"
    using freefield [OF ok f(1)] by blast
  have "(field_heap S0 |` (- D))(f := None) = field_heap S0 |` (- insert f D)"
    by (auto simp: restrict_map_def fun_eq_iff)
  moreover have "f \<noteq> 0" using heap_addr(2) [OF state_okD(3) [OF ok] f(1)] .
  ultimately show ?thesis using d nt f(2) by (simp add: deleting_def)
qed

lemma del_named:
  assumes d: "deleting al X D S0 t ty S" and f: "field_heap S f = Some fd"
  shows "\<exists>S' tags. del_named t f S = Some S' \<and> deleting al X (insert f D) S0 t (ty\<lparr>ty_field_tags := tags\<rparr>) S' \<and>
    tval tags = without f (tval (ty_field_tags ty))"
proof -
  have ok: "state_ok al X D S" and t: "type_heap S t = Some ty" and disj: "D \<inter> range (tval (ty_field_tags ty)) = {}"
    using d by (simp_all add: deleting_def)
  have T: "type_ok al D (field_heap S) ty" by (rule fields_okD(1) [OF state_okD(5) [OF ok] t])
  have key: "keyed number_key {} (field_heap S) (ty_field_tags ty)"
    unfolding keyed_def
  proof (intro allI impI)
    fix k assume nz: "tval (ty_field_tags ty) k \<noteq> 0"
    have "tval (ty_field_tags ty) k \<notin> D" using disj by blast
    with keyedD [OF type_okD(5) [OF T] nz] show "\<exists>fd. field_heap S (tval (ty_field_tags ty) k) = Some fd \<and> number_key fd = k" .
  qed
  have f0: "f \<noteq> 0" by (rule heap_addr(2) [OF state_okD(3) [OF ok] f])
  have "f \<notin> D" using fields_okD(4) [OF state_okD(5) [OF ok]] f by auto
  obtain r tags where r: "del_from (ty_field_tags ty) (number_key fd) f 0 = Some (r, tags)"
    "good al sizeof_TypeEntry tags" "tval tags = without f (tval (ty_field_tags ty))"
    using del_from [OF type_okD(2) [OF T] key f0 f, of 0] by auto
  define S1 where "S1 = S\<lparr>type_heap := (type_heap S)(t \<mapsto> ty\<lparr>ty_field_tags := tags\<rparr>)\<rparr>"
  have "state_ok al X D S1"
    unfolding S1_def
  proof (rule update_type_ok [OF ok t])
    show "type_ok al D (field_heap S) (ty\<lparr>ty_field_tags := tags\<rparr>)"
      using T r(2) without_keyed [OF type_okD(5) [OF T] r(3)] by (simp add: type_ok_def)
    show "fields_of (ty\<lparr>ty_field_tags := tags\<rparr>) \<subseteq> fields_of ty"
      by (auto simp: fields_of_def r(3) without_def split: if_splits)
  qed simp_all
  moreover have "D \<inter> range (tval tags) = {}"
    using disj d by (auto simp: r(3) without_def deleting_def split: if_splits)
  ultimately have d1: "deleting al X D S0 t (ty\<lparr>ty_field_tags := tags\<rparr>) S1"
    using d by (simp add: deleting_def S1_def)
  have "f \<notin> range (tval (ty_field_tags (ty\<lparr>ty_field_tags := tags\<rparr>)))"
    using f0 by (auto simp: r(3) without_def split: if_splits)
  moreover have "field_heap S1 f = Some fd" using f by (simp add: S1_def)
  ultimately obtain S' where S': "pbT_freefield f S1 = Some S'"
    "deleting al X (insert f D) S0 t (ty\<lparr>ty_field_tags := tags\<rparr>) S'" using freefield_deleting [OF d1] by blast
  have g: "good al sizeof_TypeEntry (ty_field_tags ty)" by (rule type_okD(2) [OF T])
  have same: "S = S1" if "tags = ty_field_tags ty"
  proof -
    have "(type_heap S)(t \<mapsto> ty) = type_heap S" using t by auto
    then show ?thesis by (simp add: S1_def that)
  qed
  have "del_named t f S = Some S'"
  proof (cases "slot (ty_field_tags ty) (number_key fd)")
    case None
    then have "tags = ty_field_tags ty" using r(1) by (simp add: del_from_def gettable_good [OF g])
    with None t f S'(1) same show ?thesis by (simp add: del_named_def gettable_good [OF g])
  next
    case (Some i)
    note e = slot_entry(1,2) [OF g Some]
    show ?thesis
    proof (cases "tval (ty_field_tags ty) (number_key fd) = f")
      case True
      then have "clear_entry i (ty_field_tags ty) = Some tags"
        using r(1) e Some by (auto simp: del_from_def gettable_good [OF g] bind_eq_Some_conv)
      with True Some e t f S'(1) show ?thesis
        by (simp add: del_named_def gettable_good [OF g] update_type_def S1_def)
    next
      case False
      then have "tags = ty_field_tags ty" using r(1) e Some by (simp add: del_from_def gettable_good [OF g])
      with False Some e t f S'(1) same show ?thesis by (simp add: del_named_def gettable_good [OF g])
    qed
  qed
  with S'(2) r(3) show ?thesis by blast
qed

text \<open>The values of some entries of a table.\<close>

definition vals :: "nat pb_Table \<Rightarrow> nat list \<Rightarrow> nat set" where
  "vals tab is = (\<lambda>i. en_val (tb_hash tab ! i)) ` set is - {0}"

lemma vals_Cons: "vals tab (i # is) = (if en_val (tb_hash tab ! i) = 0 then {} else {en_val (tb_hash tab ! i)}) \<union> vals tab is"
  by (auto simp: vals_def)

lemma entry_of:
  assumes g: "good al n tab" and i: "i \<in> set (entries tab)"
  shows "slot tab (key_of tab i) = Some i" "en_val (tb_hash tab ! i) = tval tab (key_of tab i)"
    "entry tab i = Some (tb_hash tab ! i)"
proof -
  show s: "slot tab (key_of tab i) = Some i" using i entries_keys(1) [OF g] by simp
  show "en_val (tb_hash tab ! i) = tval tab (key_of tab i)" "entry tab i = Some (tb_hash tab ! i)"
    using slot_entry [OF g s] by simp_all
qed

lemma vals_entries:
  assumes g: "good al n tab"
  shows "vals tab (entries tab) = range (tval tab) - {0}"
proof (intro equalityI subsetI)
  fix v assume "v \<in> vals tab (entries tab)"
  with entry_of(2) [OF g] show "v \<in> range (tval tab) - {0}" by (auto simp: vals_def)
next
  fix v assume "v \<in> range (tval tab) - {0}"
  then obtain k where k: "v = tval tab k" "v \<noteq> 0" by auto
  then obtain i where i: "slot tab k = Some i" using slot_None(2) [of tab k] by (cases "slot tab k") auto
  have "key_of tab i = k" using slot_entry(4) [OF g i] by (simp add: key_of_def)
  then have "i \<in> set (entries tab)" using entries_keys(1) [OF g] i by simp
  moreover have "v = en_val (tb_hash tab ! i)" using slot_entry(2) [OF g i] k(1) by simp
  ultimately have "v \<in> (\<lambda>i. en_val (tb_hash tab ! i)) ` set (entries tab)" by (rule image_eqI [rotated])
  with k(2) show "v \<in> vals tab (entries tab)" by (simp add: vals_def)
qed

text \<open>Values of different entries are different fields.\<close>

lemma distinct_values:
  assumes g: "good al n tab" and key: "keyed kf {} H tab" and i: "i \<in> set (entries tab)" "j \<in> set (entries tab)"
    and eq: "en_val (tb_hash tab ! i) = en_val (tb_hash tab ! j)" "en_val (tb_hash tab ! j) \<noteq> 0"
  shows "i = j"
proof -
  have "tval tab (key_of tab i) = tval tab (key_of tab j)" "tval tab (key_of tab j) \<noteq> 0"
    using entry_of(2) [OF g] i eq by simp_all
  with keyed_unique [OF key] have "key_of tab i = key_of tab j" by blast
  with entry_of(1) [OF g] i show ?thesis by (metis option.inject)
qed

lemma del_names:
  assumes g: "good al sizeof_TypeEntry nm" and key: "keyed name_key {} (field_heap S0) nm"
  shows "after nm e = is \<Longrightarrow> set is \<subseteq> set (entries nm) \<Longrightarrow> distinct is \<Longrightarrow> deleting al X D S0 t ty S \<Longrightarrow>
    ty_field_names ty = nm \<Longrightarrow> vals nm is \<inter> D = {} \<Longrightarrow>
    \<exists>S' tags. del_names t e S = Some S' \<and> deleting al X (vals nm is \<union> D) S0 t (ty\<lparr>ty_field_tags := tags\<rparr>) S' \<and>
      range (tval tags) \<subseteq> insert 0 (range (tval (ty_field_tags ty))) \<and>
      range (tval (ty_field_tags ty)) \<subseteq> range (tval tags) \<union> vals nm is"
proof (induction "is" arbitrary: e S D ty)
  case Nil
  have l: "tb_size nm = length (tb_hash nm)" using g by (simp add: good_def sane_def)
  have t: "type_heap S t = Some ty" using Nil.prems(4) by (simp add: deleting_def)
  have "del_names t e S = Some S"
    using nextentry_after(1) [OF l, of e] Nil.prems(1,5) t by (subst del_names.simps) simp
  moreover have "ty\<lparr>ty_field_tags := ty_field_tags ty\<rparr> = ty" by simp
  ultimately show ?case using Nil.prems(4) by (auto simp: vals_def intro!: exI [of _ S] exI [of _ "ty_field_tags ty"])
next
  case (Cons i "is")
  have l: "tb_size nm = length (tb_hash nm)" using g by (simp add: good_def sane_def)
  have t: "type_heap S t = Some ty" using Cons.prems(4) by (simp add: deleting_def)
  have i: "i \<in> set (entries nm)" using Cons.prems(2) by simp
  note ie = entry_of [OF g i]
  have ai: "after nm (Some i) = is" by (rule nextentry_after(2) [OF l Cons.prems(1)])
  have step: "del_names t e S = do {
      S \<leftarrow> (if en_val (tb_hash nm ! i) \<noteq> 0 then del_named t (en_val (tb_hash nm ! i)) S else Some S);
      del_names t (Some i) S }"
    using nextentry_after(1) [OF l, of e] Cons.prems(1,5) t ie(3) by (subst del_names.simps) simp
  define v where "v = en_val (tb_hash nm ! i)"
  show ?case
  proof (cases "v = 0")
    case True
    then have run: "del_names t e S = del_names t (Some i) S" "vals nm (i # is) = vals nm is"
      using step by (simp_all add: v_def vals_Cons)
    from Cons.IH [OF ai _ _ Cons.prems(4,5)] Cons.prems(2,3,6) show ?thesis by (simp add: run)
  next
    case False
    have "v \<notin> D" using Cons.prems(6) False by (auto simp: vals_Cons v_def)
    obtain fd where "field_heap S0 v = Some fd"
      using keyedD [OF key, of "key_of nm i"] False ie(2) by (auto simp: v_def)
    with \<open>v \<notin> D\<close> Cons.prems(4) have fd: "field_heap S v = Some fd" by (simp add: deleting_def)
    obtain S1 tags where 1: "del_named t v S = Some S1"
      "deleting al X (insert v D) S0 t (ty\<lparr>ty_field_tags := tags\<rparr>) S1" "tval tags = without v (tval (ty_field_tags ty))"
      using del_named [OF Cons.prems(4) fd] by blast
    have vn: "v \<notin> vals nm is"
    proof
      assume "v \<in> vals nm is"
      then obtain j where "j \<in> set is" "v = en_val (tb_hash nm ! j)" by (auto simp: vals_def)
      with distinct_values [OF g key i, of j] Cons.prems(2,3) False show False by (auto simp: v_def)
    qed
    have vc: "vals nm (i # is) = insert v (vals nm is)" using False by (simp add: vals_Cons v_def)
    obtain S' tags' where 2: "del_names t (Some i) S1 = Some S'"
      "deleting al X (vals nm is \<union> insert v D) S0 t (ty\<lparr>ty_field_tags := tags, ty_field_tags := tags'\<rparr>) S'"
      "range (tval tags') \<subseteq> insert 0 (range (tval tags))" "range (tval tags) \<subseteq> range (tval tags') \<union> vals nm is"
      using Cons.IH [OF ai _ _ 1(2)] Cons.prems(2,3,5,6) vn by (auto simp: vc)
    have "del_names t e S = Some S'" using step False 1(1) 2(1) by (simp add: v_def)
    moreover have "deleting al X (vals nm (i # is) \<union> D) S0 t (ty\<lparr>ty_field_tags := tags'\<rparr>) S'"
      using 2(2) by (simp add: vc Un_commute)
    moreover have "range (tval tags') \<subseteq> insert 0 (range (tval (ty_field_tags ty)))"
      using 2(3) by (auto simp: 1(3) without_def split: if_splits)
    moreover have "range (tval (ty_field_tags ty)) \<subseteq> range (tval tags') \<union> vals nm (i # is)"
    proof
      fix x assume "x \<in> range (tval (ty_field_tags ty))"
      then obtain k where k: "x = tval (ty_field_tags ty) k" by auto
      show "x \<in> range (tval tags') \<union> vals nm (i # is)"
      proof (cases "x = v")
        case False
        then have "x = tval tags k" by (simp add: 1(3) without_def k)
        with 2(4) show ?thesis by (auto simp: vc)
      qed (simp add: vc)
    qed
    ultimately show ?thesis by blast
  qed
qed

lemma del_tags:
  assumes g: "good al n tab" and key: "keyed kf {} H tab"
  shows "after tab e = is \<Longrightarrow> set is \<subseteq> set (entries tab) \<Longrightarrow> distinct is \<Longrightarrow> state_ok al X D S \<Longrightarrow>
    vals tab is \<subseteq> dom (field_heap S) \<Longrightarrow>
    \<exists>S'. del_tags tab e S = Some S' \<and> state_ok al X (vals tab is \<union> D) S' \<and> types S' = types S \<and>
      type_heap S' = type_heap S \<and> field_heap S' = field_heap S |` (- vals tab is)"
proof (induction "is" arbitrary: e S D)
  case Nil
  have l: "tb_size tab = length (tb_hash tab)" using g by (simp add: good_def sane_def)
  have "del_tags tab e S = Some S"
    using nextentry_after(1) [OF l, of e] Nil.prems(1) by (subst del_tags.simps) simp
  moreover have "field_heap S |` UNIV = field_heap S" by (auto simp: restrict_map_def fun_eq_iff)
  ultimately show ?case using Nil.prems(4) by (auto simp: vals_def)
next
  case (Cons i "is")
  have l: "tb_size tab = length (tb_hash tab)" using g by (simp add: good_def sane_def)
  have i: "i \<in> set (entries tab)" using Cons.prems(2) by simp
  have ai: "after tab (Some i) = is" by (rule nextentry_after(2) [OF l Cons.prems(1)])
  define v where "v = en_val (tb_hash tab ! i)"
  have step: "del_tags tab e S = do {
      S \<leftarrow> (if v \<noteq> 0 then pbT_freefield v S else Some S);
      del_tags tab (Some i) S }"
    using nextentry_after(1) [OF l, of e] Cons.prems(1) entry_of(3) [OF g i] by (subst del_tags.simps) (simp add: v_def)
  have rest: "set is \<subseteq> set (entries tab)" "distinct is" using Cons.prems(2,3) by auto
  show ?case
  proof (cases "v = 0")
    case True
    then have run: "del_tags tab e S = del_tags tab (Some i) S" "vals tab (i # is) = vals tab is"
      using step by (simp_all add: v_def vals_Cons)
    have "vals tab is \<subseteq> dom (field_heap S)" using Cons.prems(5) run(2) by simp
    from Cons.IH [OF ai rest Cons.prems(4) this] show ?thesis by (simp add: run)
  next
    case False
    have vc: "vals tab (i # is) = insert v (vals tab is)" using False by (simp add: vals_Cons v_def)
    obtain fd where fd: "field_heap S v = Some fd" using Cons.prems(5) vc by auto
    from freefield [OF Cons.prems(4) fd] obtain nt where
      1: "pbT_freefield v S = Some (S\<lparr>nametable := nt, fieldpool := pb_poolfree v (fieldpool S), field_heap := (field_heap S)(v := None)\<rparr>)"
        "state_ok al X (insert v D) (S\<lparr>nametable := nt, fieldpool := pb_poolfree v (fieldpool S), field_heap := (field_heap S)(v := None)\<rparr>)"
      by blast
    define S1 where "S1 = S\<lparr>nametable := nt, fieldpool := pb_poolfree v (fieldpool S), field_heap := (field_heap S)(v := None)\<rparr>"
    have vn: "v \<notin> vals tab is"
    proof
      assume "v \<in> vals tab is"
      then obtain j where "j \<in> set is" "v = en_val (tb_hash tab ! j)" by (auto simp: vals_def)
      with distinct_values [OF g key i, of j] Cons.prems(2,3) False show False by (auto simp: v_def)
    qed
    have "vals tab is \<subseteq> dom (field_heap S1)" using Cons.prems(5) vc vn by (auto simp: S1_def)
    from Cons.IH [OF ai rest 1(2) [folded S1_def] this] obtain S' where
      2: "del_tags tab (Some i) S1 = Some S'" "state_ok al X (vals tab is \<union> insert v D) S'" "types S' = types S1"
        "type_heap S' = type_heap S1" "field_heap S' = field_heap S1 |` (- vals tab is)" by blast
    have "del_tags tab e S = Some S'" using step False 1(1) 2(1) by (simp add: S1_def)
    moreover have "field_heap S' = field_heap S |` (- vals tab (i # is))"
      by (auto simp: 2(5) S1_def vc restrict_map_def fun_eq_iff)
    ultimately show ?thesis using 2(2-4) by (simp add: vc S1_def)
  qed
qed

text \<open>Releasing the names of the groups needs nothing of the state but the name table.\<close>

lemma del_oneofs:
  assumes g: "good al n tab"
  shows "after tab e = is \<Longrightarrow> set is \<subseteq> set (entries tab) \<Longrightarrow> nametable S = nametable Q \<Longrightarrow>
    state_ok al (\<lambda>a. X a + length (filter (\<lambda>i. oo_name (en_val (tb_hash tab ! i)) = a) is)) D Q \<Longrightarrow>
    \<exists>nt. del_oneofs tab e S = Some (S\<lparr>nametable := nt\<rparr>) \<and> state_ok al X D (Q\<lparr>nametable := nt\<rparr>)"
proof (induction "is" arbitrary: e S Q)
  case Nil
  have l: "tb_size tab = length (tb_hash tab)" using g by (simp add: good_def sane_def)
  have "del_oneofs tab e S = Some S"
    using nextentry_after(1) [OF l, of e] Nil.prems(1) by (subst del_oneofs.simps) simp
  moreover have "S\<lparr>nametable := nametable Q\<rparr> = S" using Nil.prems(3) by simp
  moreover have "Q\<lparr>nametable := nametable Q\<rparr> = Q" by simp
  moreover have "state_ok al X D Q" using Nil.prems(4) by simp
  ultimately show ?case by metis
next
  case (Cons i "is")
  have l: "tb_size tab = length (tb_hash tab)" using g by (simp add: good_def sane_def)
  have i: "i \<in> set (entries tab)" using Cons.prems(2) by simp
  have ai: "after tab (Some i) = is" by (rule nextentry_after(2) [OF l Cons.prems(1)])
  define a where "a = oo_name (en_val (tb_hash tab ! i))"
  define Y where "Y = (\<lambda>b. X b + length (filter (\<lambda>i. oo_name (en_val (tb_hash tab ! i)) = b) (i # is)))"
  have "0 < Y a" by (simp add: Y_def a_def)
  with release_name [OF Cons.prems(4), of a] obtain nt where
    nt: "release_name a Q = Some (Q\<lparr>nametable := nt\<rparr>)"
      "state_ok al (\<lambda>b. Y b - (if b = a then 1 else 0)) D (Q\<lparr>nametable := nt\<rparr>)" by (auto simp: Y_def)
  have r: "release_name a S = Some (S\<lparr>nametable := nt\<rparr>)"
    using nt(1) Cons.prems(3) by (auto simp: release_name_def bind_eq_Some_conv dest!: arg_cong [where f = nametable])
  have "state_ok al (\<lambda>b. X b + length (filter (\<lambda>i. oo_name (en_val (tb_hash tab ! i)) = b) is)) D (Q\<lparr>nametable := nt\<rparr>)"
    using nt(2) by (rule state_ok_weaken) (simp add: Y_def a_def)
  from Cons.IH [OF ai _ _ this, of "S\<lparr>nametable := nt\<rparr>"] Cons.prems(2) obtain nt' where
    2: "del_oneofs tab (Some i) (S\<lparr>nametable := nt\<rparr>) = Some (S\<lparr>nametable := nt\<rparr>\<lparr>nametable := nt'\<rparr>)"
      "state_ok al X D (Q\<lparr>nametable := nt\<rparr>\<lparr>nametable := nt'\<rparr>)" by auto
  have "del_oneofs tab e S = del_oneofs tab (Some i) (S\<lparr>nametable := nt\<rparr>)"
    using nextentry_after(1) [OF l, of e] Cons.prems(1) entry_of(3) [OF g i] r
    by (subst del_oneofs.simps) (simp add: a_def)
  with 2 show ?case by auto
qed

lemma oneof_entries:
  assumes g: "good al n tab"
  shows "length (filter (\<lambda>i. oo_name (en_val (tb_hash tab ! i)) = a) (entries tab)) = oneof_uses a tab"
proof -
  let ?is = "filter (\<lambda>i. oo_name (en_val (tb_hash tab ! i)) = a) (entries tab)"
  have inj: "inj_on (key_of tab) (set (entries tab))"
    by (rule inj_onI) (metis entry_of(1) [OF g] option.inject)
  have v: "tmap tab (key_of tab i) = Some (en_val (tb_hash tab ! i))" if "i \<in> set (entries tab)" for i
    using slot_None(1) [of tab "key_of tab i"] entry_of(1,2) [OF g that] by (auto simp: tval_def split: option.splits)
  have "{k. \<exists>e. tmap tab k = Some e \<and> oo_name e = a} = key_of tab ` set ?is"
  proof (intro equalityI subsetI)
    fix k assume "k \<in> {k. \<exists>e. tmap tab k = Some e \<and> oo_name e = a}"
    then obtain e where e: "tmap tab k = Some e" "oo_name e = a" by auto
    then obtain i where i: "slot tab k = Some i" using slot_None(1) [of tab k] by (cases "slot tab k") auto
    have k: "key_of tab i = k" using slot_entry(4) [OF g i] by (simp add: key_of_def)
    then have "i \<in> set (entries tab)" using entries_keys(1) [OF g] i by simp
    with v [OF this] e k have "i \<in> set ?is" by simp
    then have "key_of tab i \<in> key_of tab ` set ?is" by (rule imageI)
    then show "k \<in> key_of tab ` set ?is" by (simp only: k)
  qed (use v in auto)
  moreover have "distinct ?is" using entries_keys(2) [OF g] by (simp add: distinct_map)
  moreover have "inj_on (key_of tab) (set ?is)" by (rule inj_on_subset [OF inj]) auto
  ultimately show ?thesis unfolding oneof_uses_def by (simp only: card_image distinct_card)
qed

text \<open>A deleted type: without fields and groups, marked dead.\<close>

definition dead_type :: "pb_Type \<Rightarrow> pb_Type" where
  "dead_type ty = pb_delsort (ty\<lparr>ty_field_tags := pb_inittable sizeof_TypeEntry, ty_field_names := pb_inittable sizeof_TypeEntry,
     ty_oneof_index := pb_inittable sizeof_OneofEntry, ty_oneof_field := 0, ty_field_count := 0, ty_is_dead := True\<rparr>)"

lemma dead_type:
  "fields_of (dead_type ty) = {}" "type_ok al D H (dead_type ty)" "ty_name (dead_type ty) = ty_name ty"
  "oneof_uses a (ty_oneof_index (dead_type ty)) = 0" "ty_is_dead (dead_type ty)"
  by (simp_all add: dead_type_def pb_delsort_def fields_of_def image_def good_init type_ok_def keyed_def
      sizeof_TypeEntry_def sizeof_OneofEntry_def)

lemma restrict_twice: "h |` A |` B = h |` (A \<inter> B)"
  by (auto simp: restrict_map_def fun_eq_iff)

lemma del_fields:
  assumes ok: "state_ok al X {} S" and t: "type_heap S t = Some ty"
  shows "\<exists>S1 S2 tags. del_names t None S = Some S1 \<and> type_heap S1 t = Some (ty\<lparr>ty_field_tags := tags\<rparr>) \<and>
    del_tags tags None S1 = Some S2 \<and> state_ok al X (fields_of ty) S2 \<and> types S2 = types S \<and>
    type_heap S2 = (type_heap S)(t \<mapsto> ty\<lparr>ty_field_tags := tags\<rparr>) \<and> field_heap S2 = field_heap S |` (- fields_of ty)"
proof -
  let ?nm = "ty_field_names ty"
  let ?N = "range (tval ?nm) - {0}"
  have T: "type_ok al {} (field_heap S) ty" by (rule fields_okD(1) [OF state_okD(5) [OF ok] t])
  note g = type_okD(1,2) [OF T]
  have "(type_heap S)(t \<mapsto> ty) = type_heap S" using t by auto
  moreover have "field_heap S |` UNIV = field_heap S" by (auto simp: restrict_map_def fun_eq_iff)
  ultimately have d0: "deleting al X {} S t ty S" using ok by (simp add: deleting_def)
  have e: "after ?nm None = entries ?nm" "distinct (entries ?nm)"
    using entries_keys(2) [OF g(1)] by (simp_all add: entries_def distinct_map)
  from del_names [OF g(1) type_okD(4) [OF T] e(1) subset_refl e(2) d0 refl] obtain S1 tags where
    1: "del_names t None S = Some S1" "deleting al X ?N S t (ty\<lparr>ty_field_tags := tags\<rparr>) S1"
      "range (tval tags) \<subseteq> insert 0 (range (tval (ty_field_tags ty)))"
      "range (tval (ty_field_tags ty)) \<subseteq> range (tval tags) \<union> ?N" by (auto simp: vals_entries [OF g(1)])
  have ok1: "state_ok al X ?N S1" and t1: "type_heap S1 = (type_heap S)(t \<mapsto> ty\<lparr>ty_field_tags := tags\<rparr>)"
    and f1: "field_heap S1 = field_heap S |` (- ?N)" and disj: "?N \<inter> range (tval tags) = {}" and y1: "types S1 = types S"
    using 1(2) by (simp_all add: deleting_def)
  have T1: "type_ok al ?N (field_heap S1) (ty\<lparr>ty_field_tags := tags\<rparr>)"
    by (rule fields_okD(1) [OF state_okD(5) [OF ok1], of t]) (simp add: t1)
  have gt: "good al sizeof_TypeEntry tags" using type_okD(2) [OF T1] by simp
  have key: "keyed number_key {} (field_heap S1) tags"
    unfolding keyed_def
  proof (intro allI impI)
    fix k assume nz: "tval tags k \<noteq> 0"
    have "tval tags k \<notin> ?N" using disj by blast
    with keyedD [of number_key ?N "field_heap S1" tags k] type_okD(5) [OF T1] nz
    show "\<exists>fd. field_heap S1 (tval tags k) = Some fd \<and> number_key fd = k" by simp
  qed
  have e1: "after tags None = entries tags" "distinct (entries tags)"
    using entries_keys(2) [OF gt] by (simp_all add: entries_def distinct_map)
  have "vals tags (entries tags) \<subseteq> dom (field_heap S1)"
  proof
    fix v assume "v \<in> vals tags (entries tags)"
    then obtain k where "v = tval tags k" "v \<noteq> 0" by (auto simp: vals_entries [OF gt])
    with keyedD [OF key, of k] show "v \<in> dom (field_heap S1)" by auto
  qed
  from del_tags [OF gt key e1(1) subset_refl e1(2) ok1 this] obtain S2 where
    2: "del_tags tags None S1 = Some S2" "state_ok al X (range (tval tags) - {0} \<union> ?N) S2" "types S2 = types S1"
      "type_heap S2 = type_heap S1" "field_heap S2 = field_heap S1 |` (- (range (tval tags) - {0}))"
    by (auto simp: vals_entries [OF gt])
  have all: "range (tval tags) - {0} \<union> ?N = fields_of ty" using 1(3,4) by (auto simp: fields_of_def)
  have "- ?N \<inter> - (range (tval tags) - {0}) = - fields_of ty" using all by blast
  then have "field_heap S2 = field_heap S |` (- fields_of ty)" by (simp add: 2(5) f1 restrict_twice)
  with 1(1) 2 y1 t1 all show ?thesis by auto
qed

lemma deltype:
  assumes ok: "state_ok al X {} S" and t: "type_heap S t = Some ty"
  shows "\<exists>S'. pb_deltype t S = Some S' \<and> state_ok al X {} S' \<and> types S' = types S \<and>
    type_heap S' = (type_heap S)(t \<mapsto> dead_type ty) \<and> field_heap S' = field_heap S |` (- fields_of ty)"
proof -
  have T: "type_ok al {} (field_heap S) ty" by (rule fields_okD(1) [OF state_okD(5) [OF ok] t])
  have t0: "t \<noteq> 0" by (rule heap_addr(1) [OF state_okD(3) [OF ok] t])
  obtain S1 S2 tags where 2: "del_names t None S = Some S1" "type_heap S1 t = Some (ty\<lparr>ty_field_tags := tags\<rparr>)"
    "del_tags tags None S1 = Some S2" "state_ok al X (fields_of ty) S2" "types S2 = types S"
    "type_heap S2 = (type_heap S)(t \<mapsto> ty\<lparr>ty_field_tags := tags\<rparr>)" "field_heap S2 = field_heap S |` (- fields_of ty)"
    using del_fields [OF ok t] by blast
  have t2: "type_heap S2 t = Some (ty\<lparr>ty_field_tags := tags\<rparr>)" by (simp add: 2(6))
  have T2: "type_ok al (fields_of ty) (field_heap S2) (ty\<lparr>ty_field_tags := tags\<rparr>)"
    by (rule fields_okD(1) [OF state_okD(5) [OF 2(4)] t2])
  define Q where "Q = S2\<lparr>type_heap := (type_heap S2)(t \<mapsto> dead_type ty)\<rparr>"
  have okq: "state_ok al (\<lambda>a. X a + oneof_uses a (ty_oneof_index ty)) (fields_of ty) Q"
    unfolding Q_def by (rule update_type_ok [OF 2(4) t2]) (simp_all add: dead_type)
  have go: "good al sizeof_OneofEntry (ty_oneof_index ty)" by (rule type_okD(3) [OF T])
  have "\<exists>nt. del_oneofs (ty_oneof_index ty) None S2 = Some (S2\<lparr>nametable := nt\<rparr>) \<and>
      state_ok al X (fields_of ty) (Q\<lparr>nametable := nt\<rparr>)"
    using okq by (intro del_oneofs [OF go, where ?is = "entries (ty_oneof_index ty)"])
      (simp_all add: entries_def [symmetric] Q_def oneof_entries [OF go])
  then obtain nt where nt: "del_oneofs (ty_oneof_index ty) None S2 = Some (S2\<lparr>nametable := nt\<rparr>)"
    "state_ok al X (fields_of ty) (Q\<lparr>nametable := nt\<rparr>)" by blast
  define S' where "S' = Q\<lparr>nametable := nt\<rparr>"
  have free: "pb_freetable tags = pb_inittable sizeof_TypeEntry"
    "pb_freetable (ty_field_names ty) = pb_inittable sizeof_TypeEntry"
    "pb_freetable (ty_oneof_index ty) = pb_inittable sizeof_OneofEntry"
    using type_okD(1-3) [OF T2] good_free by fastforce+
  have dead: "pb_delsort (ty\<lparr>ty_field_tags := pb_inittable sizeof_TypeEntry, ty_field_names := pb_inittable sizeof_TypeEntry,
      ty_oneof_index := pb_inittable sizeof_OneofEntry, ty_oneof_field := 0, ty_field_count := 0, ty_is_dead := True\<rparr>) = dead_type ty"
    by (simp add: dead_type_def)
  have "S2\<lparr>nametable := nt, type_heap := (type_heap S2)(t \<mapsto> dead_type ty)\<rparr> = S'"
    unfolding S'_def Q_def by (rule pb_State.equality) simp_all
  then have "pb_deltype t S = Some S'"
    using t0 2(1-3) t2 nt(1) by (simp add: pb_deltype_def update_type_def free dead)
  moreover have "state_ok al X {} S'"
  proof (rule forget_dangling [OF nt(2) [folded S'_def]])
    fix u uy assume u: "type_heap S' u = Some uy"
    show "fields_of uy \<inter> fields_of ty \<subseteq> {}"
    proof (cases "u = t")
      case True
      with u have "uy = dead_type ty" by (simp add: S'_def Q_def)
      then show ?thesis by (simp add: dead_type)
    next
      case False
      with u have "type_heap S u = Some uy" by (simp add: S'_def Q_def 2(6))
      with fields_okD(2) [OF state_okD(5) [OF ok] t this] False show ?thesis by auto
    qed
  qed simp
  moreover have "type_heap S' = (type_heap S)(t \<mapsto> dead_type ty)" by (simp add: S'_def Q_def 2(6))
  ultimately show ?thesis using 2(5,7) by (simp add: S'_def Q_def)
qed

section \<open>Releasing the database\<close>

text \<open>The types that have been deleted are dead and own nothing; the others are as they were.\<close>

lemma del_types:
  assumes ok0: "types_ok al S0"
  shows "after (types S0) e = is \<Longrightarrow> set is \<subseteq> set (entries (types S0)) \<Longrightarrow> state_ok al X {} S \<Longrightarrow> types S = types S0 \<Longrightarrow>
    dom (type_heap S) = dom (type_heap S0) \<Longrightarrow>
    \<exists>S'. del_types e S = Some S' \<and> state_ok al X {} S' \<and> types S' = types S0"
proof (induction "is" arbitrary: e S)
  case Nil
  have l: "tb_size (types S0) = length (tb_hash (types S0))" using types_okD(1) [OF ok0] by (simp add: good_def sane_def)
  have "del_types e S = Some S"
    using nextentry_after(1) [OF l, of e] Nil.prems(1,4) by (subst del_types.simps) simp
  with Nil.prems show ?case by simp
next
  case (Cons i "is")
  note g = types_okD(1) [OF ok0]
  have l: "tb_size (types S0) = length (tb_hash (types S0))" using g by (simp add: good_def sane_def)
  have i: "i \<in> set (entries (types S0))" using Cons.prems(2) by simp
  have ai: "after (types S0) (Some i) = is" by (rule nextentry_after(2) [OF l Cons.prems(1)])
  define v where "v = en_val (tb_hash (types S0) ! i)"
  have step: "del_types e S = do {
      S \<leftarrow> (if v \<noteq> 0 then pb_deltype v S else Some S);
      del_types (Some i) S }"
    using nextentry_after(1) [OF l, of e] Cons.prems(1,4) entry_of(3) [OF g i]
    by (subst del_types.simps) (simp add: v_def)
  have rest: "set is \<subseteq> set (entries (types S0))" using Cons.prems(2) by simp
  show ?case
  proof (cases "v = 0")
    case True
    with step Cons.IH [OF ai rest Cons.prems(3-5)] show ?thesis by simp
  next
    case False
    then have "v \<in> dom (type_heap S)"
      using types_okD(2) [OF ok0, of "key_of (types S0) i"] entry_of(2) [OF g i] Cons.prems(5) by (auto simp: v_def)
    then obtain ty where ty: "type_heap S v = Some ty" by auto
    from deltype [OF Cons.prems(3) ty] obtain S1 where 1: "pb_deltype v S = Some S1" "state_ok al X {} S1"
      "types S1 = types S" "type_heap S1 = (type_heap S)(v \<mapsto> dead_type ty)" by blast
    have "types S1 = types S0" "dom (type_heap S1) = dom (type_heap S0)" using 1(3,4) ty Cons.prems(4,5) by auto
    from Cons.IH [OF ai rest 1(2) this] step False 1(1) show ?thesis by simp
  qed
qed

lemma freepool:
  assumes "pool_ok p"
  shows "\<exists>p'. pb_freepool p = Some (pl_pages p, p') \<and> in_use p' = {}"
  using assms by (auto simp: pb_freepool_def free_pages pb_initpool_def C_assert_def pool_ok_def in_use_def pool_objects_def)

lemma database_free:
  assumes ok: "state_ok al X {} S"
  shows "\<exists>S'. pb_free S = Some S' \<and> nametable S' = pbN_init Map.empty \<and> types S' = pb_inittable sizeof_TypeEntry \<and>
    type_heap S' = Map.empty \<and> field_heap S' = Map.empty \<and> in_use (typepool S') = {} \<and> in_use (fieldpool S') = {}"
proof -
  note g = types_okD(1) [OF state_okD(4) [OF ok]]
  have "\<exists>S1. del_types None S = Some S1 \<and> state_ok al X {} S1 \<and> types S1 = types S"
    by (rule del_types [OF state_okD(4) [OF ok] _ subset_refl ok]) (simp_all add: entries_def)
  then obtain S1 where 1: "del_types None S = Some S1" "state_ok al X {} S1" "types S1 = types S" by blast
  obtain tp where tp: "pb_freepool (typepool S1) = Some (pl_pages (typepool S1), tp)" "in_use tp = {}"
    using freepool [of "typepool S1"] state_okD(3) [OF 1(2)] unfolding mem_ok_def by blast
  obtain fp where fp: "pb_freepool (fieldpool S1) = Some (pl_pages (fieldpool S1), fp)" "in_use fp = {}"
    using freepool [of "fieldpool S1"] state_okD(3) [OF 1(2)] unfolding mem_ok_def by blast
  have "type_heap S1 |` (- pool_objects (typepool S1)) = Map.empty" "field_heap S1 |` (- pool_objects (fieldpool S1)) = Map.empty"
    using state_okD(3) [OF 1(2)] unfolding mem_ok_def in_use_def by (fastforce simp: restrict_map_def fun_eq_iff)+
  moreover have "pbN_free (nametable S1) = Some (pbN_init Map.empty)" by (rule names_free [OF state_okD(1) [OF 1(2)]])
  ultimately show ?thesis using 1 tp fp good_free [OF g] by (simp add: pb_free_def)
qed

end
