(* ===== verification/Pb_Database.thy ===== *)
theory Pb_Database
  imports Pb_Delete_Correct
begin

unbundle bit_operations_syntax

text \<open>
  What the type database promises its user, in terms of the lookups \<open>pb_type\<close>, \<open>pb_fname\<close> and \<open>pb_field\<close>.
  Every operation also returns: it follows no pointer to a released object and no null pointer.
\<close>

section \<open>Lookups\<close>

text \<open>No name leads to an entry without a type.\<close>

definition no_null_type :: "pb_State \<Rightarrow> bool" where
  "no_null_type S \<longleftrightarrow> (\<forall>k. k \<noteq> 0 \<longrightarrow> tmap (types S) k \<noteq> Some 0)"

lemma ptr_key_zero: "a < 18446744073709551616 \<Longrightarrow> ptr_key a = 0 \<longleftrightarrow> a = 0"
  using ptr_key_inj [of a 0] by (auto simp: ptr_key_def)

lemma type_value:
  assumes "types_ok al S"
  shows "tmap (types S) (ptr_key a) = None \<Longrightarrow> pb_type S a = Some 0"
    "a \<noteq> 0 \<Longrightarrow> tval (types S) (ptr_key a) = t \<Longrightarrow> type_heap S t = Some ty \<Longrightarrow> t \<noteq> 0 \<Longrightarrow>
      pb_type S a = Some (if ty_is_dead ty then 0 else t)"
proof -
  have g: "good al sizeof_TypeEntry (types S)" by (rule types_okD(1) [OF assms])
  show "pb_type S a = Some 0" if "tmap (types S) (ptr_key a) = None"
    using that slot_None(1) [of "types S" "ptr_key a"] by (simp add: pb_type_def gettable_good [OF g])
  show "pb_type S a = Some (if ty_is_dead ty then 0 else t)"
    if "a \<noteq> 0" "tval (types S) (ptr_key a) = t" "type_heap S t = Some ty" "t \<noteq> 0"
  proof -
    note h = that
    obtain i where i: "slot (types S) (ptr_key a) = Some i"
      using h(2,4) slot_None(2) [of "types S" "ptr_key a"] by (cases "slot (types S) (ptr_key a)") auto
    from slot_entry(1,2) [OF g i] h i show ?thesis by (simp add: pb_type_def gettable_good [OF g])
  qed
qed

lemma null_type:
  assumes "state_ok al X D S" "a \<noteq> 0" "tmap (types S) (ptr_key a) = Some 0"
  shows "pb_type S a = None"
proof -
  note g = types_okD(1) [OF state_okD(4) [OF assms(1)]]
  obtain i where i: "slot (types S) (ptr_key a) = Some i"
    using assms(3) slot_None(1) [of "types S" "ptr_key a"] by fastforce
  have "tval (types S) (ptr_key a) = 0" using assms(3) by (simp add: tval_def)
  moreover have "type_heap S 0 = None" using heap_addr(1) [OF state_okD(3) [OF assms(1)], of 0] by (cases "type_heap S 0") auto
  ultimately show ?thesis using slot_entry(1,2) [OF g i] assms(2) i by (simp add: pb_type_def gettable_good [OF g])
qed

lemma found_type:
  assumes ok: "state_ok al X D S" and a: "a \<noteq> 0" and t: "pb_type S a = Some t" "t \<noteq> 0"
  shows "tval (types S) (ptr_key a) = t" "\<exists>ty. type_heap S t = Some ty \<and> ptr_key (ty_name ty) = ptr_key a"
proof -
  note T = state_okD(4) [OF ok]
  show v: "tval (types S) (ptr_key a) = t"
  proof (cases "tmap (types S) (ptr_key a)")
    case None
    with type_value(1) [OF T] t show ?thesis by simp
  next
    case (Some u)
    show ?thesis
    proof (cases "u = 0")
      case True
      with null_type [OF ok a] Some t(1) show ?thesis by simp
    next
      case False
      have u: "tval (types S) (ptr_key a) = u" using Some by (simp add: tval_def)
      with types_okD(2) [OF T, of "ptr_key a"] False obtain ty where "type_heap S u = Some ty" by auto
      from type_value(2) [OF T a u this False] t u show ?thesis by (simp split: if_splits)
    qed
  qed
  with types_okD(2) [OF T, of "ptr_key a"] t(2)
  show "\<exists>ty. type_heap S t = Some ty \<and> ptr_key (ty_name ty) = ptr_key a" by auto
qed

text \<open>A lookup by name depends on what the table gives and on the type found.\<close>

lemma type_same:
  assumes ok: "types_ok al S" "types_ok al' S'" and nn: "no_null_type S" and a: "ptr_key a \<noteq> 0"
    and same: "tmap (types S') (ptr_key a) = tmap (types S) (ptr_key a)"
    and ty: "\<And>ty. type_heap S (tval (types S) (ptr_key a)) = Some ty \<Longrightarrow>
      \<exists>ty'. type_heap S' (tval (types S) (ptr_key a)) = Some ty' \<and> ty_is_dead ty' = ty_is_dead ty"
  shows "pb_type S' a = pb_type S a"
proof (cases "tmap (types S) (ptr_key a)")
  case None
  with type_value(1) [OF ok(1)] type_value(1) [OF ok(2)] same show ?thesis by simp
next
  case (Some t)
  then have v: "tval (types S) (ptr_key a) = t" "tval (types S') (ptr_key a) = t" using same by (simp_all add: tval_def)
  have t: "t \<noteq> 0" using nn a Some by (auto simp: no_null_type_def)
  have "a \<noteq> 0" using a by (cases "a = 0") (simp_all add: ptr_key_def)
  obtain ty where 1: "type_heap S t = Some ty" using types_okD(2) [OF ok(1), of "ptr_key a"] t v(1) by auto
  obtain ty' where 2: "type_heap S' t = Some ty'" "ty_is_dead ty' = ty_is_dead ty" using ty [unfolded v(1), OF 1] by blast
  from type_value(2) [OF ok(1) \<open>a \<noteq> 0\<close> v(1) 1 t] type_value(2) [OF ok(2) \<open>a \<noteq> 0\<close> v(2) 2(1) t] 2(2) show ?thesis by simp
qed

lemma other_lookups:
  assumes "type_heap S' u = type_heap S u"
  shows "pb_fname S' u = pb_fname S u" "pb_field S' u = pb_field S u"
  using assms by (simp_all add: pb_fname_def pb_field_def fun_eq_iff)

lemma types_same:
  assumes "types S' = types S" "\<And>x. map_option ty_is_dead (type_heap S' x) = map_option ty_is_dead (type_heap S x)"
  shows "pb_type S' a = pb_type S a"
proof -
  have "(type_heap S' x \<bind> (\<lambda>ty. Some (if ty_is_dead ty then 0 else v))) =
      (type_heap S x \<bind> (\<lambda>ty. Some (if ty_is_dead ty then 0 else v)))" for x and v :: nat
    using assms(2) [of x] by (cases "type_heap S' x"; cases "type_heap S x") simp_all
  then show ?thesis by (simp add: pb_type_def assms(1) cong: option.case_cong)
qed

text \<open>The lookups in a type.\<close>

lemma fields_found:
  assumes ok: "state_ok al X {} S" and t: "type_heap S t = Some ty"
  shows "a < 18446744073709551616 \<Longrightarrow> pb_fname S t a = Some (tval (ty_field_names ty) (ptr_key a))"
    "pb_field S t m = Some (tval (ty_field_tags ty) (num_key m))"
proof -
  have T: "type_ok al {} (field_heap S) ty" by (rule fields_okD(1) [OF state_okD(5) [OF ok] t])
  have t0: "t \<noteq> 0" by (rule heap_addr(1) [OF state_okD(3) [OF ok] t])
  show "pb_field S t m = Some (tval (ty_field_tags ty) (num_key m))" by (rule field_value [OF t type_okD(2) [OF T] t0])
  show "pb_fname S t a = Some (tval (ty_field_names ty) (ptr_key a))" if "a < 18446744073709551616"
  proof (cases "a = 0")
    case True
    then show ?thesis using no_zero_name [OF ok t] by (simp add: pb_fname_def ptr_key_def)
  next
    case False
    show ?thesis by (rule fname_value [OF t type_okD(1) [OF T] t0 False])
  qed
qed

section \<open>The empty database\<close>

lemma database_init:
  "\<exists>S. pb_init = Some S \<and> state_ok al (\<lambda>_. 0) {} S \<and> no_null_type S \<and> (\<forall>a. pb_type S a = Some 0)"
proof -
  let ?p = "\<lambda>n. \<lparr>pl_pages = [], pl_freed = [], pl_obj_size = n\<rparr>"
  define S where "S = \<lparr>nametable = pbN_init Map.empty, types = pb_inittable sizeof_TypeEntry, typepool = ?p sizeof_Type,
    fieldpool = ?p sizeof_Field, type_heap = Map.empty, field_heap = Map.empty\<rparr>"
  have p: "pb_initpool n = Some (?p n)" if "n \<in> {sizeof_Type, sizeof_Field}" for n
    using that by (auto simp: pb_initpool_def C_assert_def sizeof_Type_def sizeof_Field_def ptr_size_def PB_POOLSIZE_def)
  have pk: "pool_ok (?p n)" "in_use (?p n) = {}" if "n \<in> {sizeof_Type, sizeof_Field}" for n
    using that by (auto simp: pool_ok_def in_use_def pool_objects_def sizeof_Type_def sizeof_Field_def ptr_size_def PB_POOLSIZE_def)
  have g: "good al sizeof_TypeEntry (types S)" "tval (types S) = (\<lambda>_. 0)"
    by (simp_all add: S_def good_init sizeof_TypeEntry_def fun_eq_iff)
  have "refs_ok (\<lambda>_. 0) S" by (simp add: refs_ok_def uses_def S_def heap_sum_def)
  moreover have "mem_ok S" using pk by (simp add: mem_ok_def S_def)
  moreover have t: "types_ok al S" using g by (simp add: types_ok_def S_def)
  moreover have "fields_ok al {} S" by (simp add: fields_ok_def S_def)
  moreover have "names_ok (nametable S)" by (simp add: S_def names_init)
  ultimately have "state_ok al (\<lambda>_. 0) {} S" by (simp add: state_ok_def)
  moreover have nn: "tmap (types S) k = None" for k by (simp add: S_def good_init sizeof_TypeEntry_def)
  moreover have "pb_init = Some S" by (simp add: pb_init_def p S_def)
  ultimately show ?thesis using type_value(1) [OF t] by (auto simp: no_null_type_def)
qed

text \<open>A name that the caller asks for.\<close>

lemma database_newname:
  assumes ok: "state_ok al X D S" and s: "length s < 65536" and fresh: "names_fresh A"
    and room: "\<And>e. named (nametable S) e s \<Longrightarrow> unat (refs (nametable S) e) < 65535"
  shows "\<exists>a nt. pb_newname A (Some s) (nametable S) = Some (a, nt) \<and>
    state_ok al (if a = 0 then X else X(a := X a + 1)) D (S\<lparr>nametable := nt\<rparr>)"
proof -
  obtain a nt where a: "pb_newname A (Some s) (nametable S) = Some (a, nt)" "interned A (nametable S) s a nt"
    using newname [OF state_okD(1) [OF ok] s fresh] by blast
  have "uses S b + (if a = 0 then X else X(a := X a + 1)) b \<le> unat (refs nt b)" if "b \<noteq> 0" for b
  proof -
    have u: "uses S b + X b \<le> unat (refs (nametable S) b)" using ok that by (simp add: state_ok_def refs_ok_def)
    show ?thesis
    proof (cases "a = 0")
      case True
      with a(2) u show ?thesis by (simp add: interned_def refs_def)
    next
      case False
      with a(2) have r: "refs nt c = (if c = a then refs (nametable S) a + 1 else refs (nametable S) c)" for c
        by (auto simp: interned_def refs_def)
      have "nt_heap (nametable S) a = None \<or> named (nametable S) a s" using a(2) False by (simp add: interned_def)
      then have "unat (refs (nametable S) a) < 65535" using room [of a] by (auto simp: refs_def)
      then have "unat (refs (nametable S) a + 1) = unat (refs (nametable S) a) + 1" by (simp add: unat_word_ariths)
      with u False show ?thesis by (auto simp: r)
    qed
  qed
  then have "state_ok al (if a = 0 then X else X(a := X a + 1)) D (S\<lparr>nametable := nt\<rparr>)"
    using a(2) state_okD [OF ok] by (simp add: state_ok_nametable interned_def)
  with a(1) show ?thesis by blast
qed

section \<open>Properties\<close>

lemma newtype_no_null:
  assumes "\<forall>x. x \<noteq> 0 \<longrightarrow> x \<noteq> ptr_key n \<longrightarrow> tmap (types S') x = tmap (types S) x" "no_null_type S"
    "tval (types S') (ptr_key n) \<noteq> 0"
  shows "no_null_type S'"
  unfolding no_null_type_def
proof (intro allI impI)
  fix k :: pb_Key assume "k \<noteq> 0"
  then show "tmap (types S') k \<noteq> Some 0"
    using assms by (cases "k = ptr_key n") (auto simp: no_null_type_def tval_def split: option.splits)
qed

lemma refused_block:
  "good al sizeof_TypeEntry tab \<Longrightarrow> refused al tab \<longleftrightarrow> \<not> al (sizeof_TypeEntry * max 8 (2 * tb_size tab))"
  by (simp add: refused_def good_def)

lemma no_fields_found:
  assumes ok: "state_ok al X {} S" and t: "type_heap S t = Some ty" and none: "fields_of ty = {}"
  shows "pb_fname S t a = Some 0" "pb_field S t m = Some 0"
proof -
  have t0: "t \<noteq> 0" by (rule heap_addr(1) [OF state_okD(3) [OF ok] t])
  note g = type_okD(1,2) [OF fields_okD(1) [OF state_okD(5) [OF ok] t]]
  have z: "tval (ty_field_names ty) k = 0" "tval (ty_field_tags ty) k = 0" for k
    using none by (auto simp: fields_of_def)
  show "pb_fname S t a = Some 0"
    using fname_value [OF t g(1) t0, of a] z(1) by (cases "a = 0") (simp_all add: pb_fname_def)
  show "pb_field S t m = Some 0" using field_value [OF t g(2) t0, of m] z(2) by simp
qed

text \<open>
  C18. Creating a type for a name of which the caller holds a reference returns the type that is found
  under this name from then on: the one that was found before, if there was one, and a new one has no
  fields.  It returns null only for lack of memory and if no type was found under the name.  If the block
  of a larger table was refused, none is found afterwards either; if the pool was empty and got no page,
  an entry without a type is left behind, and looking the name up follows a null pointer.  In all cases
  other names are looked up as before, and the database stays well-formed.
\<close>
theorem newtype_registers:
  assumes ok: "state_ok (al_block al) X {} S" and nn: "no_null_type S" and al: "alloc_ok al"
    and n: "tname \<noteq> 0" "0 < X tname"
  shows "\<exists>t S'. pb_newtype al tname S = Some (t, S') \<and> state_ok (al_block al) (X(tname := X tname - 1)) {} S' \<and>
    (if t = 0 then pb_type S tname = Some 0 \<and>
       (\<not> al_block al (sizeof_TypeEntry * max 8 (2 * tb_size (types S))) \<and> pb_type S' tname = Some 0 \<and> no_null_type S' \<or>
        pl_freed (typepool S) = [] \<and> al_page al (pl_pages (typepool S)) = 0 \<and> pb_type S' tname = None)
     else pb_type S' tname = Some t \<and> no_null_type S' \<and>
       (\<forall>t0. pb_type S tname = Some t0 \<longrightarrow> t0 \<noteq> 0 \<longrightarrow> t0 = t) \<and>
       (type_heap S t = None \<longrightarrow> (\<forall>a m. pb_fname S' t a = Some 0 \<and> pb_field S' t m = Some 0))) \<and>
    (\<forall>a < 18446744073709551616. a \<noteq> tname \<longrightarrow> pb_type S' a = pb_type S a) \<and>
    (\<forall>u name number. u \<noteq> t \<or> type_heap S t \<noteq> None \<longrightarrow>
       pb_fname S' u name = pb_fname S u name \<and> pb_field S' u number = pb_field S u number)"
proof -
  from newtype [OF ok al n] obtain t S' where 1: "pb_newtype al tname S = Some (t, S')"
    "state_ok (al_block al) (\<lambda>a. X a - (if a = tname then 1 else 0)) {} S'"
    "\<forall>x. x \<noteq> 0 \<longrightarrow> x \<noteq> ptr_key tname \<longrightarrow> tmap (types S') x = tmap (types S) x"
    "tval (types S') = (tval (types S))(ptr_key tname := if t = 0 then tval (types S) (ptr_key tname) else t)"
    "if t = 0 then type_heap S' = type_heap S \<and>
       (refused (al_block al) (types S) \<and> tmap (types S) (ptr_key tname) = None \<and> tmap (types S') = tmap (types S) \<or>
        pl_freed (typepool S) = [] \<and> al_page al (pl_pages (typepool S)) = 0 \<and> tmap (types S') (ptr_key tname) = Some 0)
     else \<exists>ty. type_heap S' = (type_heap S)(t \<mapsto> ty) \<and> \<not> ty_is_dead ty \<and> ty_name ty = tname \<and>
       (case type_heap S t of None \<Rightarrow> fields_of ty = {} | Some ty0 \<Rightarrow> ty = ty0\<lparr>ty_is_dead := False\<rparr>)" by blast
  have x: "(\<lambda>a. X a - (if a = tname then 1 else 0)) = X(tname := X tname - 1)" by (simp add: fun_eq_iff)
  note T = state_okD(4) [OF ok] and T' = state_okD(4) [OF 1(2)]
  have live: "tname < 18446744073709551616" by (rule live_name(2) [OF ok n(1)]) (use n(2) in simp)
  have k0: "ptr_key tname \<noteq> 0" using ptr_key_zero [OF live] n(1) by simp
  have none: "tmap (types S) (ptr_key tname) = None" if "t = 0"
  proof (cases "tmap (types S') (ptr_key tname) = Some 0")
    case True
    then have "tval (types S) (ptr_key tname) = 0" using 1(4) that by (metis fun_upd_same tval_def option.simps(5))
    with nn k0 show ?thesis by (cases "tmap (types S) (ptr_key tname)") (auto simp: no_null_type_def tval_def)
  next
    case False
    with 1(5) that show ?thesis by auto
  qed
  have failed: "pb_type S tname = Some 0 \<and>
       (\<not> al_block al (sizeof_TypeEntry * max 8 (2 * tb_size (types S))) \<and> pb_type S' tname = Some 0 \<and> no_null_type S' \<or>
        pl_freed (typepool S) = [] \<and> al_page al (pl_pages (typepool S)) = 0 \<and> pb_type S' tname = None)" if t: "t = 0"
  proof -
    have before: "pb_type S tname = Some 0" by (rule type_value(1) [OF T none [OF t]])
    from 1(5) t consider (refused) "refused (al_block al) (types S)" "tmap (types S') = tmap (types S)"
      | (empty) "pl_freed (typepool S) = []" "al_page al (pl_pages (typepool S)) = 0" "tmap (types S') (ptr_key tname) = Some 0"
      by auto
    then show ?thesis
    proof cases
      case refused
      then have "pb_type S' tname = Some 0" "no_null_type S'"
        using type_value(1) [OF T'] none [OF t] nn by (simp_all add: no_null_type_def)
      with refused before show ?thesis by (simp add: refused_block [OF types_okD(1) [OF T]])
    next
      case empty
      with null_type [OF 1(2) n(1) empty(3)] before show ?thesis by simp
    qed
  qed
  have found: "pb_type S' tname = Some t \<and> no_null_type S' \<and> (\<forall>t0. pb_type S tname = Some t0 \<longrightarrow> t0 \<noteq> 0 \<longrightarrow> t0 = t) \<and>
       (type_heap S t = None \<longrightarrow> (\<forall>a m. pb_fname S' t a = Some 0 \<and> pb_field S' t m = Some 0))" if t: "t \<noteq> 0"
  proof -
    obtain ty where ty: "type_heap S' t = Some ty" "\<not> ty_is_dead ty" "type_heap S t = None \<longrightarrow> fields_of ty = {}"
      using 1(5) t by (auto split: option.splits)
    have v: "tval (types S') (ptr_key tname) = t" by (simp add: 1(4) t)
    have "no_null_type S'" using newtype_no_null [OF 1(3) nn] v t by simp
    moreover have "t0 = t" if h: "pb_type S tname = Some t0" "t0 \<noteq> 0" for t0
    proof -
      obtain ty0 where ty0: "type_heap S t0 = Some ty0" "ptr_key (ty_name ty0) = ptr_key tname"
        using found_type(2) [OF ok n(1) h] by blast
      show ?thesis
      proof (rule ccontr)
        assume "t0 \<noteq> t"
        with 1(5) t ty0(1) have "type_heap S' t0 = Some ty0" by auto
        from types_okD(4) [OF T' this] v ty0(2) \<open>t0 \<noteq> t\<close> show False by simp
      qed
    qed
    moreover have "pb_type S' tname = Some t" using type_value(2) [OF T' n(1) v ty(1) t] ty(2) by simp
    moreover have "pb_fname S' t a = Some 0 \<and> pb_field S' t m = Some 0" if "type_heap S t = None" for a m
      using that ty(3) no_fields_found [OF 1(2) ty(1)] by simp
    ultimately show ?thesis by blast
  qed
  have others: "pb_type S' a = pb_type S a" if a: "a < 18446744073709551616" "a \<noteq> tname" for a
  proof (cases "a = 0")
    case False
    have k: "ptr_key a \<noteq> 0" "ptr_key a \<noteq> ptr_key tname"
      using ptr_key_zero [OF a(1)] ptr_key_inj [OF _ a(1) live] False a(2) by auto
    show ?thesis
    proof (rule type_same [OF T T' nn k(1)])
      show "tmap (types S') (ptr_key a) = tmap (types S) (ptr_key a)" using 1(3) k by simp
      show "\<exists>ty'. type_heap S' (tval (types S) (ptr_key a)) = Some ty' \<and> ty_is_dead ty' = ty_is_dead ty"
        if ty: "type_heap S (tval (types S) (ptr_key a)) = Some ty" for ty
      proof (cases "t \<noteq> 0 \<and> tval (types S) (ptr_key a) = t")
        case True
        then have "tval (types S') (ptr_key a) = t" "t \<noteq> 0" using k(2) by (simp_all add: 1(4))
        with types_okD(2) [OF T', of "ptr_key a"] obtain uy where "type_heap S' t = Some uy" "ptr_key (ty_name uy) = ptr_key a" by auto
        with 1(5) True k(2) show ?thesis by auto
      next
        case False
        with 1(5) ty show ?thesis by (cases "t = 0") auto
      qed
    qed
  qed (simp add: pb_type_def)
  have "pb_fname S' u name = pb_fname S u name \<and> pb_field S' u number = pb_field S u number"
    if "u \<noteq> t \<or> type_heap S t \<noteq> None" for u name number
  proof (cases "t \<noteq> 0 \<and> u = t")
    case True
    with that 1(5) obtain ty0 where "type_heap S u = Some ty0" "type_heap S' u = Some (ty0\<lparr>ty_is_dead := False\<rparr>)"
      by (auto split: option.splits)
    then show ?thesis by (simp add: pb_fname_def pb_field_def)
  next
    case False
    with 1(5) have "type_heap S' u = type_heap S u" by (auto split: if_splits)
    from other_lookups [OF this] show ?thesis by simp
  qed
  with 1(1,2) failed found others show ?thesis unfolding x by (intro exI [of _ t] exI [of _ S']) simp
qed

text \<open>The fields of a type are those that its names and numbers lead to.\<close>

lemma reached_fields:
  assumes ok: "state_ok al X {} S" and t: "type_heap S t = Some ty" and x: "x \<noteq> 0"
  shows "x \<in> fields_of ty \<longleftrightarrow>
    \<not> ((\<forall>a < 18446744073709551616. pb_fname S t a \<noteq> Some x) \<and> (\<forall>m. pb_field S t m \<noteq> Some x))"
proof -
  have T: "type_ok al {} (field_heap S) ty" by (rule fields_okD(1) [OF state_okD(5) [OF ok] t])
  note found = fields_found [OF ok t]
  have "\<exists>a < 18446744073709551616. pb_fname S t a = Some x" if "x = tval (ty_field_names ty) k" for k
  proof -
    from keyedD [OF type_okD(4) [OF T], of k] that x obtain fd where "field_heap S x = Some fd" "name_key fd = k" by auto
    with field_name_live(2) [OF ok, of x fd] that found(1) show ?thesis by (intro exI [of _ "fd_name fd"]) auto
  qed
  moreover have "\<exists>m. pb_field S t m = Some x" if "x = tval (ty_field_tags ty) k" for k
  proof -
    from keyedD [OF type_okD(5) [OF T], of k] that x obtain fd where "field_heap S x = Some fd" "number_key fd = k" by auto
    with that found(2) show ?thesis by (intro exI [of _ "fd_number fd"]) auto
  qed
  moreover have "x \<in> fields_of ty" if "a < 18446744073709551616" "pb_fname S t a = Some x" for a
    using that x found(1) by (auto simp: fields_of_def)
  moreover have "x \<in> fields_of ty" if "pb_field S t m = Some x" for m
    using that x found(2) by (auto simp: fields_of_def)
  ultimately show ?thesis unfolding fields_of_def by blast
qed

text \<open>
  C19. Adding a field to a type returns a field with this name and number that is found by both.  A field
  that had the name or the number before is released if neither a name nor a number of the type leads to
  it any more, and no other field is.  It returns null, and no field is released, only for lack of memory:
  the table of names or that of numbers had to grow and the block was refused, or the pool was empty and
  got no page.  In all cases other names, other numbers but zero, and other types are looked up as before;
  number zero is found as before or not at all.
\<close>
theorem newfield_registers:
  assumes ok: "state_ok (al_block al) X {} S" and al: "alloc_ok al"
    and n: "fname \<noteq> 0" "0 < X fname" and t: "type_heap S t = Some ty"
  shows "\<exists>f S'. pb_newfield al t fname number S = Some (f, S') \<and> state_ok (al_block al) (X(fname := X fname - 1)) {} S' \<and>
    (if f = 0 then field_heap S' = field_heap S \<and>
       (\<not> al_block al (sizeof_TypeEntry * max 8 (2 * tb_size (ty_field_names ty))) \<or>
        \<not> al_block al (sizeof_TypeEntry * max 8 (2 * tb_size (ty_field_tags ty))) \<or>
        pl_freed (fieldpool S) = [] \<and> al_page al (pl_pages (fieldpool S)) = 0)
     else pb_fname S' t fname = Some f \<and> pb_field S' t number = Some f \<and>
       (\<exists>fd. field_heap S' f = Some fd \<and> fd_name fd = fname \<and> fd_number fd = number \<and> fd_default fd = 0) \<and>
       (\<forall>x. x \<noteq> f \<longrightarrow> x \<noteq> 0 \<longrightarrow> field_heap S' x =
          (if (pb_fname S t fname = Some x \<or> pb_field S t number = Some x) \<and>
              (\<forall>a < 18446744073709551616. pb_fname S' t a \<noteq> Some x) \<and> (\<forall>m. pb_field S' t m \<noteq> Some x)
           then None else field_heap S x))) \<and>
    (\<forall>a < 18446744073709551616. a \<noteq> fname \<or> f = 0 \<longrightarrow> pb_fname S' t a = pb_fname S t a) \<and>
    (\<forall>m. m \<noteq> number \<or> f = 0 \<longrightarrow> m \<noteq> 0 \<longrightarrow> pb_field S' t m = pb_field S t m) \<and>
    (number \<noteq> 0 \<or> f = 0 \<longrightarrow> pb_field S' t 0 = pb_field S t 0 \<or> pb_field S' t 0 = Some 0) \<and>
    (\<forall>u a m. u \<noteq> t \<longrightarrow> pb_fname S' u a = pb_fname S u a \<and> pb_field S' u m = pb_field S u m) \<and>
    (\<forall>a. pb_type S' a = pb_type S a)"
proof -
  from newfield [OF ok al n t] obtain f S' ty' where 1: "pb_newfield al t fname number S = Some (f, S')"
    "state_ok (al_block al) (\<lambda>a. X a - (if a = fname then 1 else 0)) {} S'" "types S' = types S"
    "type_heap S' = (type_heap S)(t \<mapsto> ty')" "field_added f (ptr_key fname) (num_key number) ty ty'"
    "if f = 0 then field_heap S' = field_heap S \<and> no_field_memory al S ty
     else (\<exists>fd. field_heap S' f = Some fd \<and> fd_name fd = fname \<and> fd_number fd = number \<and> fd_default fd = 0) \<and>
       (\<forall>x. x \<noteq> f \<longrightarrow> field_heap S' x = (if replaced (ptr_key fname) (num_key number) ty ty' x then None else field_heap S x))"
    by blast
  have x: "(\<lambda>a. X a - (if a = fname then 1 else 0)) = X(fname := X fname - 1)" by (simp add: fun_eq_iff)
  have t': "type_heap S' t = Some ty'" by (simp add: 1(4))
  note old = fields_found [OF ok t] and new = fields_found [OF 1(2) t']
  have live: "fname < 18446744073709551616" by (rule live_name(2) [OF ok n(1)]) (use n(2) in simp)
  have m0: "num_key 0 = 0" by (simp add: num_key_def)
  have T: "type_ok (al_block al) {} (field_heap S) ty" and T': "type_ok (al_block al) {} (field_heap S') ty'"
    using fields_okD(1) [OF state_okD(5) [OF ok] t] fields_okD(1) [OF state_okD(5) [OF 1(2)] t'] by simp_all
  have added: "pb_fname S' t fname = Some f \<and> pb_field S' t number = Some f \<and>
      (\<exists>fd. field_heap S' f = Some fd \<and> fd_name fd = fname \<and> fd_number fd = number \<and> fd_default fd = 0) \<and>
      (\<forall>x. x \<noteq> f \<longrightarrow> x \<noteq> 0 \<longrightarrow> field_heap S' x =
          (if (pb_fname S t fname = Some x \<or> pb_field S t number = Some x) \<and>
              (\<forall>a < 18446744073709551616. pb_fname S' t a \<noteq> Some x) \<and> (\<forall>m. pb_field S' t m \<noteq> Some x)
           then None else field_heap S x))" if "f \<noteq> 0"
  proof -
    have "replaced (ptr_key fname) (num_key number) ty ty' x \<longleftrightarrow>
        (pb_fname S t fname = Some x \<or> pb_field S t number = Some x) \<and>
        (\<forall>a < 18446744073709551616. pb_fname S' t a \<noteq> Some x) \<and> (\<forall>m. pb_field S' t m \<noteq> Some x)" if "x \<noteq> 0" for x
      unfolding replaced_def reached_fields [OF 1(2) t' that] using that by (auto simp: old live)
    with 1(5,6) that show ?thesis by (simp add: new live field_added_def tables_updated_def)
  qed
  have failed: "field_heap S' = field_heap S \<and>
       (\<not> al_block al (sizeof_TypeEntry * max 8 (2 * tb_size (ty_field_names ty))) \<or>
        \<not> al_block al (sizeof_TypeEntry * max 8 (2 * tb_size (ty_field_tags ty))) \<or>
        pl_freed (fieldpool S) = [] \<and> al_page al (pl_pages (fieldpool S)) = 0)" if "f = 0"
    using 1(6) that refused_block [OF type_okD(1) [OF T]] refused_block [OF type_okD(2) [OF T]]
    by (auto simp: no_field_memory_def)
  have names: "pb_fname S' t a = pb_fname S t a" if a: "a < 18446744073709551616" "a \<noteq> fname \<or> f = 0" for a
    using 1(5) ptr_key_inj [OF _ a(1) live] a by (auto simp: new old field_added_def tables_updated_def split: if_splits)
  have numbers: "pb_field S' t m = pb_field S t m" if m: "m \<noteq> number \<or> f = 0" "m \<noteq> 0" for m
    using 1(5) m num_key_inj [of m 0] num_key_inj [of m number] m0
    by (auto simp: new old field_added_def tables_updated_def split: if_splits)
  have zero: "pb_field S' t 0 = pb_field S t 0 \<or> pb_field S' t 0 = Some 0" if "number \<noteq> 0 \<or> f = 0"
    using 1(5) that num_key_inj [of number 0] m0
    by (auto simp: new old field_added_def tables_updated_def split: if_splits)
  have "pb_fname S' u a = pb_fname S u a \<and> pb_field S' u m = pb_field S u m" if "u \<noteq> t" for u a m
    using other_lookups [of S' u S] that by (simp add: 1(4))
  moreover have "pb_type S' a = pb_type S a" for a
    by (rule types_same [OF 1(3)]) (use t 1(4,5) in \<open>auto simp: field_added_def same_type_def\<close>)
  ultimately show ?thesis
    using 1(1,2) added failed names numbers zero unfolding x by (intro exI [of _ f] exI [of _ S']) simp
qed

text \<open>
  C21. Deleting a field of a well-formed database succeeds: whatever name or number of the type led to the
  field leads nowhere any more, and every other lookup is as before.  The field is released if its name or
  its number led to it, exactly once, and no other field is; the database stays well-formed.
\<close>
theorem delfield_removes:
  assumes ok: "state_ok al X {} S" and t: "type_heap S t = Some ty" and f: "field_heap S f = Some fd"
  shows "\<exists>S'. pb_delfield t f S = Some S' \<and> state_ok al X {} S' \<and>
    (\<forall>a < 18446744073709551616. pb_fname S' t a = (if pb_fname S t a = Some f then Some 0 else pb_fname S t a)) \<and>
    (\<forall>m. pb_field S' t m = (if pb_field S t m = Some f then Some 0 else pb_field S t m)) \<and>
    field_heap S' = (if pb_fname S t (fd_name fd) = Some f \<or> pb_field S t (fd_number fd) = Some f
      then (field_heap S)(f := None) else field_heap S) \<and>
    (\<forall>u a m. u \<noteq> t \<longrightarrow> pb_fname S' u a = pb_fname S u a \<and> pb_field S' u m = pb_field S u m) \<and>
    (\<forall>a. pb_type S' a = pb_type S a)"
proof -
  from delfield [OF ok t f] obtain S' ty' where 1: "pb_delfield t f S = Some S'" "state_ok al X {} S'" "types S' = types S"
    "type_heap S' = (type_heap S)(t \<mapsto> ty')" "field_removed f ty ty'"
    "field_heap S' = (if f \<in> fields_of ty then (field_heap S)(f := None) else field_heap S)" by blast
  have t': "type_heap S' t = Some ty'" by (simp add: 1(4))
  note old = fields_found [OF ok t] and new = fields_found [OF 1(2) t']
  have T: "type_ok al {} (field_heap S) ty" by (rule fields_okD(1) [OF state_okD(5) [OF ok] t])
  have f0: "f \<noteq> 0" by (rule heap_addr(2) [OF state_okD(3) [OF ok] f])
  have "(f \<in> fields_of ty) = (pb_fname S t (fd_name fd) = Some f \<or> pb_field S t (fd_number fd) = Some f)"
  proof -
    have "f \<in> range (tval (ty_field_names ty)) \<longleftrightarrow> tval (ty_field_names ty) (name_key fd) = f"
      using keyed_found [OF type_okD(4) [OF T] f0 _ f] by auto
    moreover have "f \<in> range (tval (ty_field_tags ty)) \<longleftrightarrow> tval (ty_field_tags ty) (number_key fd) = f"
      using keyed_found [OF type_okD(5) [OF T] f0 _ f] by auto
    ultimately show ?thesis using f0 by (simp add: old fields_of_def field_name_live(2) [OF ok f])
  qed
  moreover have "pb_fname S' t a = (if pb_fname S t a = Some f then Some 0 else pb_fname S t a)"
    if "a < 18446744073709551616" for a
    using 1(5) that by (simp add: new old field_removed_def without_def)
  moreover have "pb_field S' t m = (if pb_field S t m = Some f then Some 0 else pb_field S t m)" for m
    using 1(5) by (simp add: new old field_removed_def without_def)
  moreover have "pb_fname S' u a = pb_fname S u a \<and> pb_field S' u m = pb_field S u m" if "u \<noteq> t" for u a m
    using other_lookups [of S' u S] that by (simp add: 1(4))
  moreover have "pb_type S' a = pb_type S a" for a
    by (rule types_same [OF 1(3)]) (use t 1(4,5) in \<open>auto simp: field_removed_def same_type_def\<close>)
  ultimately show ?thesis using 1(1,2,6) by auto
qed

text \<open>
  C20. Deleting a type releases each of its fields exactly once and every name they use; the type is not
  found any more and has no fields, and other types and their fields are as before.
\<close>
theorem deltype_releases:
  assumes ok: "state_ok al X {} S" and nn: "no_null_type S" and t: "type_heap S t = Some ty"
  shows "\<exists>S'. pb_deltype t S = Some S' \<and> state_ok al X {} S' \<and> no_null_type S' \<and>
    field_heap S' = field_heap S |` (- fields_of ty) \<and>
    (\<forall>a < 18446744073709551616. pb_type S' a = (if a = ty_name ty then Some 0 else pb_type S a)) \<and>
    (\<forall>a m. pb_fname S' t a = Some 0 \<and> pb_field S' t m = Some 0) \<and>
    (\<forall>u a m. u \<noteq> t \<longrightarrow> pb_fname S' u a = pb_fname S u a \<and> pb_field S' u m = pb_field S u m)"
proof -
  from deltype [OF ok t] obtain S' where 1: "pb_deltype t S = Some S'" "state_ok al X {} S'" "types S' = types S"
    "type_heap S' = (type_heap S)(t \<mapsto> dead_type ty)" "field_heap S' = field_heap S |` (- fields_of ty)" by blast
  note T = state_okD(4) [OF ok] and T' = state_okD(4) [OF 1(2)]
  have t': "type_heap S' t = Some (dead_type ty)" by (simp add: 1(4))
  have t0: "t \<noteq> 0" by (rule heap_addr(1) [OF state_okD(3) [OF ok] t])
  have v: "tval (types S) (ptr_key (ty_name ty)) = t" by (rule types_okD(4) [OF T t])
  have "pb_type S' (ty_name ty) = Some 0"
    using type_value(2) [OF T' types_okD(3) [OF T t] _ t' t0] v by (simp add: 1(3) dead_type)
  moreover have "pb_type S' a = pb_type S a" if a: "a < 18446744073709551616" "a \<noteq> ty_name ty" for a
  proof (cases "a = 0")
    case False
    have k: "ptr_key a \<noteq> 0" using ptr_key_zero [OF a(1)] False by simp
    show ?thesis
    proof (rule type_same [OF T T' nn k])
      fix uy assume u: "type_heap S (tval (types S) (ptr_key a)) = Some uy"
      have "tval (types S) (ptr_key a) \<noteq> t"
      proof
        assume e: "tval (types S) (ptr_key a) = t"
        with types_okD(2) [OF T, of "ptr_key a"] t t0 have "ptr_key (ty_name ty) = ptr_key a" by auto
        from ptr_key_inj [OF this type_name_live(2) [OF ok t] a(1)] a(2) show False by simp
      qed
      with u show "\<exists>ty'. type_heap S' (tval (types S) (ptr_key a)) = Some ty' \<and> ty_is_dead ty' = ty_is_dead uy"
        by (simp add: 1(4))
    qed (simp add: 1(3))
  qed (simp add: pb_type_def)
  moreover have "pb_fname S' t a = Some 0 \<and> pb_field S' t m = Some 0" for a m
  proof -
    have "fields_of (dead_type ty) = {}" by (rule dead_type(1))
    from no_fields_found [OF 1(2) t' this] show ?thesis by simp
  qed
  moreover have "pb_fname S' u a = pb_fname S u a \<and> pb_field S' u m = pb_field S u m" if "u \<noteq> t" for u a m
    using other_lookups [of S' u S] that by (simp add: 1(4))
  moreover have "no_null_type S'" using nn by (simp add: no_null_type_def 1(3))
  ultimately show ?thesis using 1(1,2,5) by auto
qed

text \<open>
  Releasing a well-formed database succeeds, whatever it holds: no object is released twice and no released
  object is read.  The objects go with the pages of their pool; none lies outside.
\<close>
theorem database_released:
  assumes "state_ok al X {} S"
  shows "\<exists>S'. pb_free S = Some S' \<and> type_heap S' = Map.empty \<and> field_heap S' = Map.empty \<and>
    nt_heap (nametable S') = Map.empty \<and> in_use (typepool S') = {} \<and> in_use (fieldpool S') = {} \<and>
    types S' = pb_inittable sizeof_TypeEntry"
  using database_free [OF assms] by (auto simp: pbN_init_def)

end
