(* ===== verification/Pb_Sort.thy ===== *)
theory Pb_Sort
  imports Pb_Database
begin

unbundle bit_operations_syntax

text \<open>
  The list of the fields of a type in the order of their numbers: it is complete when the count of the
  fields is right, and the numbering follows it.
\<close>

section \<open>Iteration over fields\<close>

definition used :: "nat pb_Table \<Rightarrow> nat list \<Rightarrow> nat list" where
  "used tab is = filter (\<lambda>v. v \<noteq> 0) (map (\<lambda>i. en_val (tb_hash tab ! i)) is)"

lemma used_set: "set (used tab is) = vals tab is"
  by (auto simp: used_def vals_def)

lemma after_skip:
  assumes "tb_size tab = length (tb_hash tab)"
  shows "after tab e = zs @ i # is \<Longrightarrow> after tab (Some i) = is"
proof (induction zs arbitrary: e)
  case Nil
  then show ?case using nextentry_after(2) [OF assms, of e] by simp
next
  case (Cons z zs)
  then have "after tab (Some z) = zs @ i # is" using nextentry_after(2) [OF assms, of e] by simp
  with Cons.IH show ?case by simp
qed

lemma after_entries: "after tab e = is \<Longrightarrow> set is \<subseteq> set (entries tab)"
  by (auto simp: after_def entries_def split: option.splits if_splits)

lemma next_field:
  assumes g: "good al n tab"
  shows "after tab e = is \<Longrightarrow>
    next_field tab e = Some (case used tab is of [] \<Rightarrow> 0 | v # _ \<Rightarrow> v) \<and>
    (\<forall>v vs. used tab is = v # vs \<longrightarrow>
      (\<exists>i. i \<in> set (entries tab) \<and> en_val (tb_hash tab ! i) = v \<and> v \<noteq> 0 \<and> used tab (after tab (Some i)) = vs))"
proof (induction "is" arbitrary: e)
  case Nil
  have l: "tb_size tab = length (tb_hash tab)" using g by (simp add: good_def sane_def)
  show ?case using nextentry_after(1) [OF l, of e] Nil by (subst next_field.simps) (simp add: used_def)
next
  case (Cons i "is")
  have l: "tb_size tab = length (tb_hash tab)" using g by (simp add: good_def sane_def)
  have i: "i \<in> set (entries tab)" using after_entries [OF Cons.prems] by simp
  have ai: "after tab (Some i) = is" by (rule nextentry_after(2) [OF l Cons.prems])
  have step: "next_field tab e = (if en_val (tb_hash tab ! i) \<noteq> 0 then Some (en_val (tb_hash tab ! i)) else next_field tab (Some i))"
    using nextentry_after(1) [OF l, of e] Cons.prems entry_of(3) [OF g i] by (subst next_field.simps) simp
  show ?case
  proof (cases "en_val (tb_hash tab ! i) = 0")
    case True
    with step Cons.IH [OF ai] show ?thesis by (simp add: used_def)
  next
    case False
    with step ai i show ?thesis by (auto simp: used_def)
  qed
qed

lemma nextfield:
  assumes ok: "state_ok al X {} S" and t: "type_heap S t = Some ty"
    and e: "f = 0 \<and> e = None \<or> (\<exists>i \<in> set (entries (ty_field_tags ty)). e = Some i \<and> f = en_val (tb_hash (ty_field_tags ty) ! i) \<and> f \<noteq> 0)"
  shows "pb_nextfield S t f = next_field (ty_field_tags ty) e"
proof -
  have T: "type_ok al {} (field_heap S) ty" by (rule fields_okD(1) [OF state_okD(5) [OF ok] t])
  have t0: "t \<noteq> 0" by (rule heap_addr(1) [OF state_okD(3) [OF ok] t])
  note g = type_okD(2) [OF T]
  show ?thesis
  proof (cases "f = 0")
    case True
    with e t t0 show ?thesis by (auto simp: pb_nextfield_def)
  next
    case False
    with e obtain i where i: "i \<in> set (entries (ty_field_tags ty))" "e = Some i" "f = en_val (tb_hash (ty_field_tags ty) ! i)" by auto
    note ie = entry_of [OF g i(1)]
    have "tval (ty_field_tags ty) (key_of (ty_field_tags ty) i) = f" using i(3) ie(2) by simp
    with keyedD [OF type_okD(5) [OF T], of "key_of (ty_field_tags ty) i"] False obtain fd where
      "field_heap S f = Some fd" "number_key fd = key_of (ty_field_tags ty) i" by auto
    with False t t0 ie(1) i(2) show ?thesis by (simp add: pb_nextfield_def gettable_good [OF g])
  qed
qed

lemma collect_fields:
  assumes ok: "state_ok al X {} S" and t: "type_heap S t = Some ty"
  shows "used (ty_field_tags ty) (after (ty_field_tags ty) e) = vs \<Longrightarrow>
    f = 0 \<and> e = None \<or> (\<exists>i \<in> set (entries (ty_field_tags ty)). e = Some i \<and> f = en_val (tb_hash (ty_field_tags ty) ! i) \<and> f \<noteq> 0) \<Longrightarrow>
    length fs + length vs \<le> count \<Longrightarrow> collect_fields S t count f fs = Some (fs @ vs)"
proof (induction vs arbitrary: e f fs)
  case Nil
  have T: "type_ok al {} (field_heap S) ty" by (rule fields_okD(1) [OF state_okD(5) [OF ok] t])
  from next_field [OF type_okD(2) [OF T] refl, of e] nextfield [OF ok t Nil.prems(2)] Nil.prems(1)
  show ?case by (subst collect_fields.simps) simp
next
  case (Cons v vs)
  have T: "type_ok al {} (field_heap S) ty" by (rule fields_okD(1) [OF state_okD(5) [OF ok] t])
  from next_field [OF type_okD(2) [OF T] refl, of e] Cons.prems(1) obtain i where
    i: "next_field (ty_field_tags ty) e = Some v" "i \<in> set (entries (ty_field_tags ty))"
      "en_val (tb_hash (ty_field_tags ty) ! i) = v" "v \<noteq> 0" "used (ty_field_tags ty) (after (ty_field_tags ty) (Some i)) = vs" by auto
  have "collect_fields S t count f fs = collect_fields S t count v (fs @ [v])"
    using i(1,4) nextfield [OF ok t Cons.prems(2)] Cons.prems(3) by (subst collect_fields.simps) simp
  also have "\<dots> = Some ((fs @ [v]) @ vs)"
    by (rule Cons.IH [OF i(5)]) (use i(2-4) Cons.prems(3) in auto)
  finally show ?case by simp
qed

section \<open>Numbering\<close>

lemma number_fields:
  "distinct fs \<Longrightarrow> i + n = length fs \<Longrightarrow> set fs \<subseteq> dom (field_heap S) \<Longrightarrow>
   \<exists>S'. number_fields n i fs S = Some S' \<and> type_heap S' = type_heap S \<and>
     (\<forall>x. x \<notin> set (drop i fs) \<longrightarrow> field_heap S' x = field_heap S x) \<and>
     (\<forall>j. i \<le> j \<longrightarrow> j < length fs \<longrightarrow>
       field_heap S' (fs ! j) = map_option (\<lambda>fd. fd\<lparr>fd_sort_index := of_nat j + 1\<rparr>) (field_heap S (fs ! j)))"
proof (induction n arbitrary: i S)
  case (Suc n)
  then have i: "i < length fs" by simp
  have "fs ! i \<in> dom (field_heap S)" by (rule subsetD [OF Suc.prems(3) nth_mem [OF i]])
  then obtain fd where fd: "field_heap S (fs ! i) = Some fd" by auto
  define S1 where "S1 = S\<lparr>field_heap := (field_heap S)(fs ! i \<mapsto> fd\<lparr>fd_sort_index := of_nat i + 1\<rparr>)\<rparr>"
  have "set fs \<subseteq> dom (field_heap S1)" using Suc.prems(3) by (auto simp: S1_def)
  from Suc.IH [OF Suc.prems(1) _ this, of "Suc i"] Suc.prems(2) obtain S' where
    1: "number_fields n (Suc i) fs S1 = Some S'" "type_heap S' = type_heap S1"
      "\<forall>x. x \<notin> set (drop (Suc i) fs) \<longrightarrow> field_heap S' x = field_heap S1 x"
      "\<forall>j. Suc i \<le> j \<longrightarrow> j < length fs \<longrightarrow>
        field_heap S' (fs ! j) = map_option (\<lambda>fd. fd\<lparr>fd_sort_index := of_nat j + 1\<rparr>) (field_heap S1 (fs ! j))" by auto
  have "number_fields (Suc n) i fs S = Some S'"
    using i fd 1(1) by (simp add: update_field_def S1_def)
  moreover have d: "drop i fs = fs ! i # drop (Suc i) fs" using i by (rule Cons_nth_drop_Suc [symmetric])
  have "field_heap S' x = field_heap S x" if "x \<notin> set (drop i fs)" for x
    using that 1(3) by (simp add: d S1_def)
  moreover have "field_heap S' (fs ! j) = map_option (\<lambda>fd. fd\<lparr>fd_sort_index := of_nat j + 1\<rparr>) (field_heap S (fs ! j))"
    if j: "i \<le> j" "j < length fs" for j
  proof (cases "j = i")
    case True
    have "distinct (drop i fs)" using Suc.prems(1) by simp
    then have "fs ! i \<notin> set (drop (Suc i) fs)" by (simp add: d)
    with 1(3) fd True show ?thesis by (simp add: S1_def)
  next
    case False
    then have "fs ! j \<noteq> fs ! i" using Suc.prems(1) j i by (simp add: nth_eq_iff_index_eq)
    with 1(4) j False show ?thesis by (simp add: S1_def)
  qed
  ultimately show ?case using 1(2) by (auto simp: S1_def)
qed simp

section \<open>Property\<close>

lemma used_entries_distinct:
  assumes g: "good al n tab" and key: "keyed kf {} H tab"
  shows "distinct (used tab (entries tab))"
proof -
  have "distinct (filter (\<lambda>i. en_val (tb_hash tab ! i) \<noteq> 0) (entries tab))"
    using entries_keys(2) [OF g] by (simp add: distinct_map)
  moreover have "inj_on (\<lambda>i. en_val (tb_hash tab ! i)) (set (filter (\<lambda>i. en_val (tb_hash tab ! i) \<noteq> 0) (entries tab)))"
    by (rule inj_onI) (use distinct_values [OF g key] in auto)
  ultimately show ?thesis by (simp add: used_def filter_map comp_def distinct_map)
qed

text \<open>The list that the loop collects.\<close>

lemma collected:
  assumes ok: "state_ok ab X {} S" and t: "type_heap S t = Some ty"
  shows "\<exists>vs. distinct vs \<and> set vs = {f. f \<noteq> 0 \<and> (\<exists>m. pb_field S t m = Some f)} \<and>
    (\<forall>f \<in> set vs. \<exists>fd. field_heap S f = Some fd \<and> tval (ty_field_tags ty) (number_key fd) = f) \<and>
    (\<forall>count. length vs \<le> count \<longrightarrow> collect_fields S t count 0 [] = Some vs)"
proof -
  let ?tab = "ty_field_tags ty"
  have T: "type_ok ab {} (field_heap S) ty" by (rule fields_okD(1) [OF state_okD(5) [OF ok] t])
  note g = type_okD(2) [OF T] and key = type_okD(5) [OF T]
  define vs where "vs = used ?tab (entries ?tab)"
  have v: "set vs = range (tval ?tab) - {0}" by (simp add: vs_def used_set vals_entries [OF g])
  have inh: "\<exists>fd. field_heap S f = Some fd \<and> tval ?tab (number_key fd) = f" if "f \<in> set vs" for f
  proof -
    from that obtain k where k: "f = tval ?tab k" "f \<noteq> 0" by (auto simp: v)
    with keyedD [OF key, of k] show ?thesis by auto
  qed
  have "set vs = {f. f \<noteq> 0 \<and> (\<exists>m. pb_field S t m = Some f)}"
  proof (intro equalityI subsetI)
    fix f assume "f \<in> {f. f \<noteq> 0 \<and> (\<exists>m. pb_field S t m = Some f)}"
    then show "f \<in> set vs" by (auto simp: v fields_found(2) [OF ok t])
  next
    fix f assume f: "f \<in> set vs"
    from inh [OF f] obtain fd where "tval ?tab (number_key fd) = f" by blast
    with f fields_found(2) [OF ok t, of "fd_number fd"] show "f \<in> {f. f \<noteq> 0 \<and> (\<exists>m. pb_field S t m = Some f)}"
      by (auto simp: v)
  qed
  moreover have "distinct vs" unfolding vs_def by (rule used_entries_distinct [OF g key])
  moreover have "collect_fields S t count 0 [] = Some vs" if "length vs \<le> count" for count
    using collect_fields [OF ok t, of None vs 0 "[]" count] that by (simp add: vs_def entries_def)
  ultimately show ?thesis using inh by blast
qed

text \<open>
  C22. When a type with fields has no list yet, its count is the number of its fields, the difference of
  any two of their numbers fits an int and the block for the list is granted, \<open>pb_sortfield\<close> lists exactly
  the fields of the type in the strict order of their numbers, remembers the list and gives each field its
  position (from 1) in it.
\<close>
theorem sortfield_sorts:
  assumes ok: "state_ok ab X {} S" and t: "type_heap S t = Some ty" "ty_field_sort ty = None" "ty_field_count ty \<noteq> 0"
    and count: "card {f. f \<noteq> 0 \<and> (\<exists>m. pb_field S t m = Some f)} = unat (ty_field_count ty)"
    and room: "al_block al (ptr_size * unat (ty_field_count ty))"
    and numbers: "\<forall>m n f g. pb_field S t m = Some f \<and> f \<noteq> 0 \<and> pb_field S t n = Some g \<and> g \<noteq> 0 \<longrightarrow>
      sint m - sint n < 2147483648"
  shows "\<exists>fs S'. pb_sortfield al t S = Some (Some fs, S') \<and> set fs = {f. f \<noteq> 0 \<and> (\<exists>m. pb_field S t m = Some f)} \<and>
    sorted_wrt (\<lambda>f g. sint (fd_number (the (field_heap S f))) < sint (fd_number (the (field_heap S g)))) fs \<and>
    (\<forall>i < length fs. \<exists>fd. field_heap S' (fs ! i) = Some fd \<and> fd_sort_index fd = of_nat i + 1) \<and>
    type_heap S' = (type_heap S)(t \<mapsto> ty\<lparr>ty_field_sort := Some fs\<rparr>)"
proof -
  let ?tab = "ty_field_tags ty"
  let ?number = "\<lambda>f. sint (fd_number (the (field_heap S f)))"
  obtain vs where vs: "distinct vs" "set vs = {f. f \<noteq> 0 \<and> (\<exists>m. pb_field S t m = Some f)}"
    "\<forall>f \<in> set vs. \<exists>fd. field_heap S f = Some fd \<and> tval ?tab (number_key fd) = f"
    "\<forall>count. length vs \<le> count \<longrightarrow> collect_fields S t count 0 [] = Some vs"
    using collected [OF ok t(1)] by blast
  have inh: "\<exists>fd. field_heap S f = Some fd \<and> tval ?tab (number_key fd) = f" if "f \<in> set vs" for f
    using vs(3) that by blast
  have len: "length vs = unat (ty_field_count ty)" using count vs(2) distinct_card [OF vs(1)] by simp
  with vs(4) have collect: "collect_fields S t (unat (ty_field_count ty)) 0 [] = Some vs" by simp
  define fs where "fs = sort_key ?number vs"
  have sort: "qsort_fields (field_heap S) vs = Some fs"
  proof -
    have number: "pb_field S t (fd_number a) = Some f \<and> f \<noteq> 0" if "f \<in> set vs" "field_heap S f = Some a" for f a
      using inh [OF that(1)] that vs(2) by (auto simp: fields_found(2) [OF ok t(1)])
    have comp: "comp_field a b \<noteq> None" if "f \<in> set vs" "h \<in> set vs" "field_heap S f = Some a" "field_heap S h = Some b" for f h a b
    proof -
      have "sint (fd_number a) - sint (fd_number b) < 2147483648" "sint (fd_number b) - sint (fd_number a) < 2147483648"
        using numbers number [OF that(1,3)] number [OF that(2,4)] by blast+
      then show ?thesis by (simp add: comp_field_def Let_def)
    qed
    have "case (field_heap S f, field_heap S h) of (Some a, Some b) \<Rightarrow> comp_field a b \<noteq> None | _ \<Rightarrow> False"
      if fh: "f \<in> set vs" "h \<in> set vs" for f h
    proof -
      obtain a b where "field_heap S f = Some a" "field_heap S h = Some b" using inh [OF fh(1)] inh [OF fh(2)] by blast
      with comp [OF fh] show ?thesis by (simp del: not_None_eq)
    qed
    then have "list_all (\<lambda>f. list_all (\<lambda>h. case (field_heap S f, field_heap S h) of
        (Some a, Some b) \<Rightarrow> comp_field a b \<noteq> None | _ \<Rightarrow> False) vs) vs" by (simp only: list_all_iff) blast
    then show ?thesis by (simp add: qsort_fields_def fs_def)
  qed
  have fs: "set fs = set vs" "distinct fs" "length fs = unat (ty_field_count ty)"
    using vs(1) len by (simp_all add: fs_def)
  have strict: "sorted_wrt (\<lambda>f h. ?number f < ?number h) fs"
  proof -
    have "inj_on ?number (set fs)"
    proof (rule inj_onI)
      fix f h assume fh: "f \<in> set fs" "h \<in> set fs" "?number f = ?number h"
      from inh [of f] inh [of h] fh(1,2) fs(1) obtain fd hd where
        o: "field_heap S f = Some fd" "tval ?tab (number_key fd) = f"
          "field_heap S h = Some hd" "tval ?tab (number_key hd) = h" by blast
      with fh(3) have "fd_number fd = fd_number hd" by (intro signed_word_eqI) simp
      with o show "f = h" by simp
    qed
    then have "distinct (map ?number fs)" using fs(2) by (simp add: distinct_map)
    moreover have "sorted (map ?number fs)" by (simp add: fs_def)
    ultimately have "sorted_wrt (<) (map ?number fs)" by (simp only: strict_sorted_iff)
    then show ?thesis by (simp only: sorted_wrt_map)
  qed
  have "set fs \<subseteq> dom (field_heap S)" using inh fs(1) by auto
  from number_fields [OF fs(2) _ this, of 0 "unat (ty_field_count ty)"] fs(3) obtain S1 where
    1: "number_fields (unat (ty_field_count ty)) 0 fs S = Some S1" "type_heap S1 = type_heap S"
      "\<forall>j < length fs. field_heap S1 (fs ! j) = map_option (\<lambda>fd. fd\<lparr>fd_sort_index := of_nat j + 1\<rparr>) (field_heap S (fs ! j))"
    by auto
  define S' where "S' = S1\<lparr>type_heap := (type_heap S)(t \<mapsto> ty\<lparr>ty_field_sort := Some fs\<rparr>)\<rparr>"
  have "pb_sortfield al t S = Some (Some fs, S')"
    using t room collect sort 1(1) by (simp add: pb_sortfield_def C_assert_def update_type_def 1(2) S'_def)
  moreover have "\<exists>fd. field_heap S' (fs ! i) = Some fd \<and> fd_sort_index fd = of_nat i + 1" if i: "i < length fs" for i
  proof -
    from inh [of "fs ! i"] i fs(1) obtain fd where "field_heap S (fs ! i) = Some fd" by (metis nth_mem)
    with 1(3) i show ?thesis by (simp add: S'_def)
  qed
  moreover have "type_heap S' = (type_heap S)(t \<mapsto> ty\<lparr>ty_field_sort := Some fs\<rparr>)" by (simp add: S'_def)
  ultimately show ?thesis using vs(2) fs(1) strict by auto
qed

section \<open>A count that is too large\<close>

text \<open>
  When the count of a type is more than the number of its fields, the loop that numbers them reads an entry
  of the array that was never written.  A type gets there when a field takes the name of one field and the
  number of another: both stay, each under its other key, and only one of them can be found by number.
\<close>

lemma number_fields_short: "i \<le> length fs \<Longrightarrow> length fs < i + n \<Longrightarrow> number_fields n i fs S = None"
proof (induction n arbitrary: i S)
  case (Suc n)
  show ?case
  proof (cases "i = length fs")
    case False
    with Suc have "number_fields n (i + 1) fs S' = None" for S' by simp
    then show ?thesis by (simp add: bind_eq_None_conv)
  qed (simp add: array_get_def)
qed simp

lemma sort_incomplete:
  assumes ok: "state_ok ab X {} S" and t: "type_heap S t = Some ty" "ty_field_sort ty = None"
    and count: "card {f. f \<noteq> 0 \<and> (\<exists>m. pb_field S t m = Some f)} < unat (ty_field_count ty)"
  shows "pb_sortfield al t S = None"
proof -
  obtain vs where vs: "distinct vs" "set vs = {f. f \<noteq> 0 \<and> (\<exists>m. pb_field S t m = Some f)}"
    "\<forall>count. length vs \<le> count \<longrightarrow> collect_fields S t count 0 [] = Some vs"
    using collected [OF ok t(1)] by blast
  have len: "length vs < unat (ty_field_count ty)" using count vs(2) distinct_card [OF vs(1)] by simp
  then have "ty_field_count ty \<noteq> 0" by (cases "ty_field_count ty = 0") simp_all
  moreover have "length fs < unat (ty_field_count ty)" if "qsort_fields (field_heap S) vs = Some fs" for fs
    using that len by (auto simp: qsort_fields_def split: if_splits)
  moreover have "collect_fields S t (unat (ty_field_count ty)) 0 [] = Some vs" using vs(3) len by simp
  moreover have "number_fields (unat (ty_field_count ty)) 0 fs S' = None" if "length fs < unat (ty_field_count ty)" for fs S'
    using number_fields_short [of 0 fs] that by simp
  ultimately show ?thesis
    using t by (cases "qsort_fields (field_heap S) vs") (simp_all add: pb_sortfield_def Let_def bind_eq_None_conv)
qed

end
