(* ===== verification/Pb_Database_Examples.thy ===== *)
theory Pb_Database_Examples
  imports Pb_Sort
begin

unbundle bit_operations_syntax

text \<open>
  The properties of the name table and the type database at concrete inputs, and the behaviours of this
  code that \<open>PROJECT.json\<close> lists as findings.
\<close>

section \<open>An allocator and a small database\<close>

definition demo_al :: pb_alloc where
  "demo_al = \<lparr>al_block = (\<lambda>n. n < 1048576),
     al_name = (\<lambda>H n. if H 1000 = None then 1000 else if H 2000 = None then 2000 else if H 3000 = None then 3000 else 0),
     al_page = (\<lambda>pages. if pages = [] then 8192 else 0)\<rparr>"

lemma demo_al: "alloc_ok demo_al" "names_fresh demo_al"
proof -
  show "names_fresh demo_al" by (simp add: names_fresh_def demo_al_def)
  then show "alloc_ok demo_al"
    by (simp add: alloc_ok_def demo_al_def bounded_blocks_def page_fresh_def PB_POOLSIZE_def)
qed

text \<open>One type named \<open>A\<close>; then its field \<open>x\<close> with the number 1.\<close>

definition demo_S0 :: pb_State where "demo_S0 = the pb_init"
definition demo_S1 :: pb_State where
  "demo_S1 = demo_S0\<lparr>nametable := snd (the (pb_newname demo_al (Some [65]) (nametable demo_S0)))\<rparr>"
definition demo_S2 :: pb_State where "demo_S2 = snd (the (pb_newtype demo_al 1000 demo_S1))"
definition demo_S3 :: pb_State where
  "demo_S3 = demo_S2\<lparr>nametable := snd (the (pb_newname demo_al (Some [120]) (nametable demo_S2)))\<rparr>"
definition demo_S4 :: pb_State where "demo_S4 = snd (the (pb_newfield demo_al 8192 2000 1 demo_S3))"

text \<open>The equations that evaluate these runs.\<close>

lemma grow_start: "grow_table l 0 n = Some n"
  by (simp add: grow_table.simps)

lemma push_page:
  "push_objects 8192 112 3920 [] = Some (map (\<lambda>k. 8192 + k * 112) [1..<36])"
  "push_objects 8192 40 4040 [] = Some (map (\<lambda>k. 8192 + k * 40) [1..<102])"
  using push_objects [of 112 8192 35 "[]"] push_objects [of 40 8192 101 "[]"] by simp_all

lemmas run_alloc = demo_al_def ptr_size_def array_get_def array_set_def grow_start C_assert_def

lemmas run_names = run_alloc pb_newname_def pbN_getname_def pbN_newname_def pbN_resize_def
  pbN_calchash_def calchash_from.simps bucket_def pb_usename_def PB_HASHLIMIT_def PB_MIN_STRTABLE_SIZE_def

lemmas run_table = run_alloc pb_settable_def pb_gettable_def pbT_newkey_def numeral_3_eq_3 resize_with_def
  pb_inittable_def claim_entry_def set_entry_def entry_def empty_entry_def pbT_hash_def PB_MIN_HASHTABLE_SIZE_def
  put_value_def ptr_key_def num_key_def sizeof_TypeEntry_def sizeof_OneofEntry_def

lemmas run_pool = run_alloc pb_poolalloc_def PB_POOLSIZE_def push_page sizeof_Type_def sizeof_Field_def

lemma demo_S0: "pb_init = Some demo_S0"
  "demo_S0 = \<lparr>nametable = pbN_init Map.empty, types = pb_inittable sizeof_TypeEntry,
     typepool = \<lparr>pl_pages = [], pl_freed = [], pl_obj_size = sizeof_Type\<rparr>,
     fieldpool = \<lparr>pl_pages = [], pl_freed = [], pl_obj_size = sizeof_Field\<rparr>,
     type_heap = Map.empty, field_heap = Map.empty\<rparr>"
  by (simp_all add: demo_S0_def pb_init_def pb_initpool_def run_pool)

definition demo_nt1 :: pb_NameTable where
  "demo_nt1 = \<lparr>nt_size = 16, nt_count = 1,
     nt_hash = (replicate 16 [])[bucket 16 (pbN_calchash [65]) := [1000]],
     nt_heap = [1000 \<mapsto> \<lparr>ne_hash = pbN_calchash [65], ne_length = 1, ne_refcount = 1, ne_name = [65]\<rparr>]\<rparr>"

lemma demo_S1: "pb_newname demo_al (Some [65]) (nametable demo_S0) = Some (1000, demo_nt1)"
  "demo_S1 = demo_S0\<lparr>nametable := demo_nt1\<rparr>"
proof -
  show "pb_newname demo_al (Some [65]) (nametable demo_S0) = Some (1000, demo_nt1)"
    by (simp add: run_names demo_S0(2) pbN_init_def demo_nt1_def)
  then show "demo_S1 = demo_S0\<lparr>nametable := demo_nt1\<rparr>" by (simp add: demo_S1_def)
qed

definition demo_type :: pb_Type where
  "demo_type = pbT_inittype\<lparr>ty_name := 1000, ty_basename := 0\<rparr>"

lemma demo_S2:
  "\<exists>tab pool. pb_newtype demo_al 1000 demo_S1 =
     Some (8192, demo_S1\<lparr>types := tab, typepool := pool, type_heap := [8192 \<mapsto> demo_type]\<rparr>)"
proof -
  have b: "pbT_basename [65] = 0" by (simp add: pbT_basename_def c_strlen_def)
  have n: "nt_heap demo_nt1 1000 = Some \<lparr>ne_hash = pbN_calchash [65], ne_length = 1, ne_refcount = 1, ne_name = [65]\<rparr>"
    by (simp add: demo_nt1_def)
  show ?thesis
    by (simp add: pb_newtype_def demo_S1(2) demo_S0(2) run_table run_pool n demo_type_def b Let_def)
qed

lemma demo_S2_fields: "pb_newtype demo_al 1000 demo_S1 = Some (8192, demo_S2)"
  "nametable demo_S2 = demo_nt1" "type_heap demo_S2 = [8192 \<mapsto> demo_type]" "field_heap demo_S2 = Map.empty"
  "fieldpool demo_S2 = \<lparr>pl_pages = [], pl_freed = [], pl_obj_size = sizeof_Field\<rparr>"
  using demo_S2 by (auto simp: demo_S2_def demo_S1(2) demo_S0(2))

definition demo_nt3 :: pb_NameTable where
  "demo_nt3 = snd (the (pb_newname demo_al (Some [120]) demo_nt1))"

lemma demo_S3: "pb_newname demo_al (Some [120]) (nametable demo_S2) = Some (2000, demo_nt3)"
  "demo_S3 = demo_S2\<lparr>nametable := demo_nt3\<rparr>"
proof -
  have "map_option fst (pb_newname demo_al (Some [120]) demo_nt1) = Some 2000"
    by (simp add: run_names demo_nt1_def)
  then show *: "pb_newname demo_al (Some [120]) (nametable demo_S2) = Some (2000, demo_nt3)"
    by (auto simp: demo_nt3_def demo_S2_fields(2))
  show "demo_S3 = demo_S2\<lparr>nametable := demo_nt3\<rparr>" by (simp add: demo_S3_def *)
qed

lemma demo_S4:
  "\<exists>ty pool. pb_newfield demo_al 8192 2000 1 demo_S3 = Some (8192, demo_S3\<lparr>fieldpool := pool,
     field_heap := [8192 \<mapsto> new_field 2000 8192 1], type_heap := [8192 \<mapsto> ty]\<rparr>) \<and>
     ty_field_count ty = 1 \<and> ty_field_sort ty = None"
proof -
  have ty: "type_heap demo_S3 8192 = Some demo_type" by (simp add: demo_S3(2) demo_S2_fields(3))
  have h: "type_heap demo_S3 = [8192 \<mapsto> demo_type]" "field_heap demo_S3 = Map.empty"
    "fieldpool demo_S3 = \<lparr>pl_pages = [], pl_freed = [], pl_obj_size = sizeof_Field\<rparr>"
    by (simp_all add: demo_S3(2) demo_S2_fields)
  show ?thesis
    by (simp add: pb_newfield_def h ty demo_type_def pbT_inittype_def run_table run_pool Let_def update_type_def
        replace_fields_def pb_delsort_def) (intro exI conjI, rule refl, simp_all)
qed

section \<open>The invariant along the run\<close>

abbreviation demo_ok :: "(nat \<Rightarrow> nat) \<Rightarrow> pb_State \<Rightarrow> bool" where
  "demo_ok X S \<equiv> state_ok (al_block demo_al) X {} S"

lemma demo_ok1: "demo_ok ((\<lambda>_. 0)(1000 := 1)) demo_S1" "no_null_type demo_S1" "names_ok demo_nt1"
proof -
  have ok: "demo_ok (\<lambda>_. 0) demo_S0" "no_null_type demo_S0"
    using database_init [of "al_block demo_al"] demo_S0(1) by (metis option.inject)+
  have "unat (refs (nametable demo_S0) e) < 65535" for e
    by (simp add: demo_S0(2) pbN_init_def refs_def)
  with database_newname [OF ok(1) _ demo_al(2), of "[65]"] demo_S1
  show *: "demo_ok ((\<lambda>_. 0)(1000 := 1)) demo_S1" by simp
  show "no_null_type demo_S1" using ok(2) by (simp add: demo_S1(2) no_null_type_def)
  show "names_ok demo_nt1" using state_okD(1) [OF *] by (simp add: demo_S1(2))
qed

lemma demo_ok2: "demo_ok (\<lambda>_. 0) demo_S2" "no_null_type demo_S2"
proof -
  from newtype [OF demo_ok1(1) demo_al(1), of 1000] obtain t S' where
    1: "pb_newtype demo_al 1000 demo_S1 = Some (t, S')"
      "demo_ok (\<lambda>a. ((\<lambda>_. 0)(1000 := 1)) a - (if a = 1000 then 1 else 0)) S'"
      "\<forall>x. x \<noteq> 0 \<longrightarrow> x \<noteq> ptr_key 1000 \<longrightarrow> tmap (types S') x = tmap (types demo_S1) x"
      "tval (types S') = (tval (types demo_S1))(ptr_key 1000 := if t = 0 then tval (types demo_S1) (ptr_key 1000) else t)"
    by auto
  have e: "t = 8192" "S' = demo_S2" using 1(1) by (simp_all add: demo_S2_fields(1))
  show "demo_ok (\<lambda>_. 0) demo_S2" using 1(2) unfolding e(2) by (rule state_ok_weaken) simp
  show "no_null_type demo_S2"
    by (rule newtype_no_null [OF 1(3) [unfolded e(2)] demo_ok1(2)]) (use 1(4) in \<open>simp add: e\<close>)
qed

lemma demo_ok3: "demo_ok ((\<lambda>_. 0)(2000 := 1)) demo_S3"
proof -
  have "\<not> named (nametable demo_S2) e [120]" for e by (simp add: demo_S2_fields(2) demo_nt1_def named_def)
  with database_newname [OF demo_ok2(1) _ demo_al(2), of "[120]"] demo_S3 show ?thesis by simp
qed

lemma demo_type3: "type_heap demo_S3 8192 = Some demo_type"
  by (simp add: demo_S3(2) demo_S2_fields(3))

lemma demo_ok4:
  "demo_ok (\<lambda>_. 0) demo_S4" "no_null_type demo_S4"
  "\<exists>ty. type_heap demo_S4 8192 = Some ty \<and> ty_field_count ty = 1 \<and> ty_field_sort ty = None \<and> ty_name ty = 1000"
  "field_heap demo_S4 = [8192 \<mapsto> new_field 2000 8192 1]"
  "pb_fname demo_S4 8192 2000 = Some 8192" "pb_field demo_S4 8192 m = Some (if m = 1 then 8192 else 0)"
proof -
  from newfield [OF demo_ok3 demo_al(1) _ _ demo_type3, of 2000 1] obtain f S' ty' where
    1: "pb_newfield demo_al 8192 2000 1 demo_S3 = Some (f, S')"
      "demo_ok (\<lambda>a. ((\<lambda>_. 0)(2000 := 1)) a - (if a = 2000 then 1 else 0)) S'" "types S' = types demo_S3"
      "type_heap S' = (type_heap demo_S3)(8192 \<mapsto> ty')" "field_added f (ptr_key 2000) (num_key 1) demo_type ty'" by auto
  obtain ty pool where 2: "pb_newfield demo_al 8192 2000 1 demo_S3 = Some (8192, demo_S3\<lparr>fieldpool := pool,
     field_heap := [8192 \<mapsto> new_field 2000 8192 1], type_heap := [8192 \<mapsto> ty]\<rparr>)" "ty_field_count ty = 1" "ty_field_sort ty = None"
    using demo_S4 by blast
  have e: "f = 8192" "S' = demo_S4"
    "demo_S4 = demo_S3\<lparr>fieldpool := pool, field_heap := [8192 \<mapsto> new_field 2000 8192 1], type_heap := [8192 \<mapsto> ty]\<rparr>"
    using 1(1) 2(1) by (simp_all add: demo_S4_def)
  show ok: "demo_ok (\<lambda>_. 0) demo_S4" using 1(2) unfolding e(2) by (rule state_ok_weaken) simp
  have "types demo_S4 = types demo_S2" using 1(3) by (simp add: e(2) demo_S3(2))
  with demo_ok2(2) show "no_null_type demo_S4" by (simp add: no_null_type_def)
  have t: "type_heap demo_S4 8192 = Some ty'" using 1(4) by (simp add: e(2))
  have "ty = ty'" using t by (simp add: e(3))
  with 1(5) 2(2,3) t show "\<exists>ty. type_heap demo_S4 8192 = Some ty \<and> ty_field_count ty = 1 \<and> ty_field_sort ty = None \<and> ty_name ty = 1000"
    by (simp add: field_added_def same_type_def demo_type_def)
  show "field_heap demo_S4 = [8192 \<mapsto> new_field 2000 8192 1]" by (simp add: e(3))
  have u: "tables_updated 8192 (ptr_key 2000) (num_key 1) demo_type ty'" using 1(5) e(1) by (simp add: field_added_def)
  note found = fields_found [OF ok t]
  show "pb_fname demo_S4 8192 2000 = Some 8192" using found(1) [of 2000] u by (simp add: tables_updated_def)
  have z: "tval (ty_field_tags demo_type) k = 0" for k
    by (simp add: demo_type_def pbT_inittype_def good_init sizeof_TypeEntry_def)
  have "num_key 1 \<noteq> 0" by (simp add: num_key_def)
  with u have "tval (ty_field_tags ty') k = (if k = num_key 1 then 8192 else 0)" for k
    using z by (cases "k = 0") (auto simp: tables_updated_def)
  with found(2) [of m] show "pb_field demo_S4 8192 m = Some (if m = 1 then 8192 else 0)" by (simp add: num_key_inj)
qed

section \<open>Names\<close>

lemma newname_interns_witness:
  "\<exists>nt. pb_newname demo_al (Some [65]) (pbN_init Map.empty) = Some (1000, nt) \<and> refs nt 1000 = 1 \<and>
     (\<forall>b. named nt b [65] \<longleftrightarrow> b = 1000)"
proof -
  have run: "pb_newname demo_al (Some [65]) (pbN_init Map.empty) = Some (1000, demo_nt1)"
    using demo_S1(1) by (simp add: demo_S0(2))
  have "refs (pbN_init Map.empty) 1000 = 0" by (simp add: refs_def pbN_init_def)
  with newname_interns [OF names_init _ demo_al(2), of "[65]"] run show ?thesis by auto
qed

lemma name_cache_transparent_witness:
  "\<exists>r c'. pb_name demo_nt1 7 [65] None = Some (r, None) \<and>
     pb_name demo_nt1 7 [65] (Some \<lparr>ca_slots = replicate 53 (\<lparr>cs_name = 7, cs_hash = 3\<rparr>, \<lparr>cs_name = 8, cs_hash = 4\<rparr>), ca_hash = 0\<rparr>) =
       Some (r, Some c') \<and> length (ca_slots c') = PB_CACHE_SIZE"
  by (rule name_cache_transparent [OF demo_ok1(3)]) (simp add: PB_CACHE_SIZE_def)

lemma delname_releases_witness:
  "\<exists>nt. pb_delname 1000 demo_nt1 = Some nt \<and> nt_heap nt 1000 = None \<and> (\<forall>b. \<not> named nt b [65])"
proof -
  have "named demo_nt1 1000 [65]" "refs demo_nt1 1000 \<le> 1" by (simp_all add: named_def refs_def demo_nt1_def)
  with delname_releases [OF demo_ok1(3), of 1000 "[65]"] show ?thesis by auto
qed

section \<open>Types and fields\<close>

lemma newtype_registers_witness:
  "\<exists>S'. pb_newtype demo_al 1000 demo_S1 = Some (8192, S') \<and> pb_type S' 1000 = Some 8192 \<and> no_null_type S'"
  using newtype_registers [OF demo_ok1(1,2) demo_al(1), of 1000] by (simp add: demo_S2_fields(1))

lemma newfield_registers_witness:
  "\<exists>S'. pb_newfield demo_al 8192 2000 1 demo_S3 = Some (8192, S') \<and> pb_fname S' 8192 2000 = Some 8192 \<and>
     pb_field S' 8192 1 = Some 8192"
proof -
  obtain S' where run: "pb_newfield demo_al 8192 2000 1 demo_S3 = Some (8192, S')" using demo_S4 by blast
  from newfield_registers [OF demo_ok3 demo_al(1) _ _ demo_type3, of 2000 1] show ?thesis by (simp add: run)
qed

lemma delfield_removes_witness:
  "\<exists>S'. pb_delfield 8192 8192 demo_S4 = Some S' \<and> pb_fname S' 8192 2000 = Some 0 \<and> pb_field S' 8192 1 = Some 0 \<and>
     field_heap S' = Map.empty"
proof -
  obtain ty where ty: "type_heap demo_S4 8192 = Some ty" using demo_ok4(3) by blast
  have fd: "field_heap demo_S4 8192 = Some (new_field 2000 8192 1)" by (simp add: demo_ok4(4))
  have name: "fd_name (new_field 2000 8192 1) = 2000" by (simp add: new_field_def)
  from delfield_removes [OF demo_ok4(1) ty fd] obtain S' where
    1: "pb_delfield 8192 8192 demo_S4 = Some S'"
      "\<forall>a < 18446744073709551616. pb_fname S' 8192 a = (if pb_fname demo_S4 8192 a = Some 8192 then Some 0 else pb_fname demo_S4 8192 a)"
      "\<forall>m. pb_field S' 8192 m = (if pb_field demo_S4 8192 m = Some 8192 then Some 0 else pb_field demo_S4 8192 m)"
      "field_heap S' = (field_heap demo_S4)(8192 := None)"
    by (auto simp: name demo_ok4(5))
  have "pb_fname S' 8192 2000 = Some 0" using 1(2) demo_ok4(5) by simp
  with 1 show ?thesis by (simp add: demo_ok4(4,6))
qed

lemma deltype_releases_witness:
  "\<exists>S'. pb_deltype 8192 demo_S4 = Some S' \<and> pb_type S' 1000 = Some 0 \<and> pb_fname S' 8192 2000 = Some 0"
proof -
  obtain ty where ty: "type_heap demo_S4 8192 = Some ty" "ty_name ty = 1000" using demo_ok4(3) by blast
  from deltype_releases [OF demo_ok4(1,2) ty(1)] ty(2) show ?thesis by auto
qed

lemma sortfield_sorts_witness:
  "\<exists>S'. pb_sortfield demo_al 8192 demo_S4 = Some (Some [8192], S')"
proof -
  obtain ty where ty: "type_heap demo_S4 8192 = Some ty" "ty_field_count ty = 1" "ty_field_sort ty = None"
    using demo_ok4(3) by blast
  have fields: "{f. f \<noteq> 0 \<and> (\<exists>m. pb_field demo_S4 8192 m = Some f)} = {8192}"
    by (auto simp: demo_ok4(6))
  have "\<exists>fs S'. pb_sortfield demo_al 8192 demo_S4 = Some (Some fs, S') \<and>
      set fs = {f. f \<noteq> 0 \<and> (\<exists>m. pb_field demo_S4 8192 m = Some f)} \<and>
    sorted_wrt (\<lambda>f g. sint (fd_number (the (field_heap demo_S4 f))) < sint (fd_number (the (field_heap demo_S4 g)))) fs \<and>
    (\<forall>i < length fs. \<exists>fd. field_heap S' (fs ! i) = Some fd \<and> fd_sort_index fd = of_nat i + 1) \<and>
    type_heap S' = (type_heap demo_S4)(8192 \<mapsto> ty\<lparr>ty_field_sort := Some fs\<rparr>)"
    by (rule sortfield_sorts [OF demo_ok4(1) ty(1,3)])
      (simp_all only: fields, simp_all add: ty(2) demo_ok4(6) demo_al_def ptr_size_def)
  then obtain fs S' where 1: "pb_sortfield demo_al 8192 demo_S4 = Some (Some fs, S')" "set fs = {8192}"
    "sorted_wrt (\<lambda>f g. sint (fd_number (the (field_heap demo_S4 f))) < sint (fd_number (the (field_heap demo_S4 g)))) fs"
    unfolding fields by blast
  have "fs = [8192]"
  proof (cases fs rule: remdups_adj.cases)
    case (3 x y xs)
    with 1(2,3) have "x = 8192" "y = 8192" by auto
    with 1(3) 3 show ?thesis by simp
  qed (use 1(2) in auto)
  with 1(1) show ?thesis by blast
qed

section \<open>Limits\<close>

text \<open>
  A type for which the pool has no memory leaves an entry with a null pointer, which the next lookup of the
  name follows.
\<close>

lemma null_type_followed:
  "\<exists>S'. pb_newtype (demo_al\<lparr>al_page := (\<lambda>_. 0)\<rparr>) 1000 demo_S1 = Some (0, S') \<and> pb_type S' 1000 = None"
  by (simp add: pb_newtype_def pb_type_def demo_S1(2) demo_S0(2) run_table run_pool Let_def
      get_from.simps(2) [of 7, simplified])

text \<open>The comparison of field numbers overflows for the numbers of an enumeration, which may be negative.\<close>

lemma comparison_overflows: "comp_field (new_field a t 0x80000000) (new_field b t 1) = None"
  by (simp add: comp_field_def new_field_def)

end
