(* ===== verification/Spec2Isabelle.thy ===== *)
theory Spec2Isabelle
  imports Raft_Snapshot_Correct Kcp_Examples Pb_Examples Pb_Database_Examples
begin

text \<open>
  Verification library of the C code of the repository: the Raft consensus library under
  \<open>src/raft/raft\<close>, the KCP transport protocol under \<open>src/kcp/cc\<close> and the protobuf library
  \<open>src/pb/c/pb.h\<close>.

  \<^bold>\<open>The program.\<close>  The repository collects C and C++ components with Lua bindings.  The consensus library
  is a state machine driven by its user: the user hands it messages of peers, clock ticks and client
  entries, and it answers through callbacks (send a message, store the term or the vote, apply an entry).
  A server (\<open>raft_server_private_t\<close>) owns a log, a ring buffer of entries (\<open>raft_log.c\<close>), and a set of
  peer nodes (\<open>raft_node.c\<close>); the protocol is in \<open>raft_server.c\<close>.  Log and server call each other: adding
  or deleting an entry calls \<open>raft_offer_log\<close> or \<open>raft_pop_log\<close> of the server, which change the nodes.

  KCP (\<open>ikcp.c\<close>) is a reliable transport over datagrams.  The user sends and receives messages
  (\<open>ikcp_send\<close>, \<open>ikcp_recv\<close>), hands in the peer's packets (\<open>ikcp_input\<close>) and the time (\<open>ikcp_update\<close>), and
  packets leave through an output callback (\<open>ikcp_flush\<close>).  Its control block holds four queues of
  segments, the acknowledgements to send, round-trip timers, windows and a send buffer.

  The protobuf library (\<open>pb.h\<close>) reads and writes the wire format (slices and buffers) and keeps the
  descriptors of the message types in a database built from hash tables.  Its user is the Lua binding.

  \<^bold>\<open>Conventions\<close> (\<open>Base\<close>).  A function of the code is a definition of the same name from the state to an
  \<open>option\<close> of the result and the new state; \<open>None\<close> is undefined behaviour or a failed \<open>assert\<close>: a null
  or dangling pointer followed, an array accessed out of range.  Error codes are the integers of the
  code.  \<open>ensures x R\<close> says that \<open>x\<close>, if it is defined, satisfies \<open>R\<close>; where a definition loops its
  recursion is total, and that a call returns is stated separately (\<open>\<exists>s'. f s = Some s'\<close>).  Indices and
  terms (\<open>long int\<close>) are \<open>int\<close>; the narrowing to \<open>int\<close> that the code does in \<open>mod\<close>, \<open>log_get_from_idx\<close>
  and \<open>__should_grant_vote\<close> is written out (\<open>narrow32\<close>); the flags of a node are a \<open>32 word\<close>.  Pointers
  to nodes are addresses of a store in the server record.  Callbacks, the allocator and \<open>rand\<close> are
  parameters: functions of the history of calls, so that nothing is assumed of them; every call is
  recorded in the history \<open>hist\<close>.

  \<^bold>\<open>Theories.\<close>
  \<open>Raft_Types\<close>: enums, entries, messages, callbacks (\<open>raft_types.h\<close>, \<open>raft.h\<close>).
  \<open>Raft_Log_Buffer\<close>: the ring buffer without the server (\<open>raft_log.c\<close>), its invariant \<open>wf_log\<close> and its
  meaning \<open>log_list\<close>; the interface \<open>indexed_log\<close> is interpreted on it.
  \<open>Raft_Node\<close>: nodes and packed flags (\<open>raft_node.c\<close>), with the interfaces \<open>flag_field\<close>, \<open>flag_pair\<close>.
  \<open>Raft_State\<close>: the server record and its accessors (\<open>raft_private.h\<close>, \<open>raft_server_properties.c\<close>).
  \<open>Raft_Membership\<close>: adding and removing nodes, the hooks of the log (\<open>raft_server.c\<close>).
  \<open>Raft_Log\<close>: the log operations that call the server or the user (\<open>raft_log.c\<close>); \<open>Raft_Log_Correct\<close>:
  they refine appending to and truncating a list.
  \<open>Raft_Election\<close>: votes, becoming candidate, leader and follower; sending append-entries messages.
  \<open>Raft_Replication\<close>: append-entries messages and responses, client entries, applying entries.
  \<open>Raft_Snapshot\<close>: \<open>raft_periodic\<close>, \<open>raft_apply_all\<close>, taking and loading snapshots.
  \<open>Raft_Frames\<close>, \<open>Raft_Guarantee\<close>, \<open>Raft_Steps\<close>: what each operation leaves alone; the guarantee \<open>guar\<close>
  (a state invariant \<open>server_ok\<close> and a relation \<open>keeps\<close> between the states before and after), with the
  interface \<open>preorder_guarantee\<close>, and the proof that every operation keeps it.
  \<open>Raft_Safety\<close>: states reachable by any sequence of calls (\<open>raft_reachable\<close>) and the properties of all of
  them: votes are final and durable, indices ordered, committed entries stay, entries are applied in order.
  \<open>Raft_Functional\<close>, \<open>Raft_Replication_Correct\<close>, \<open>Raft_Snapshot_Correct\<close>: what the single operations
  do: lookups after log updates, the voting rule, majorities, the commit rule, the append-entries answer,
  messages sent, client entries, applying, snapshots, and three runs that show defects.

  \<open>Kcp_Codec\<close>: the wire format and the interface \<open>codec\<close>, interpreted on the integers and on the header.
  \<open>Kcp_State\<close>: segments, the control block, creation and configuration.  \<open>Kcp_Queues\<close>: \<open>ikcp_send\<close>,
  \<open>ikcp_recv\<close>, \<open>ikcp_peeksize\<close>.  \<open>Kcp_Input\<close>: \<open>ikcp_input\<close> and the static functions it calls.
  \<open>Kcp_Flush\<close>: \<open>ikcp_flush\<close>, \<open>ikcp_update\<close>, \<open>ikcp_check\<close>.
  \<open>Kcp_Words\<close>: 32-bit arithmetic and offsets of sequence numbers.  \<open>Kcp_Queues_Correct\<close>: fragmenting and
  reassembling.  \<open>Kcp_Sender\<close>, \<open>Kcp_Receiver\<close>, \<open>Kcp_Acks\<close>: the invariants of the queues, of the
  acknowledge list and of the timers, and what the operations do to them.
  \<open>Kcp_Steps\<close>, \<open>Kcp_Input_Steps\<close>, \<open>Kcp_Flush_Steps\<close>: every operation keeps the invariant \<open>kcp_ok\<close>; the
  interface \<open>depends_on\<close> (an invariant that reads one group of fields) is interpreted on its five parts,
  the interface \<open>input_invariant\<close> (what \<open>ikcp_input\<close> keeps) on \<open>kcp_ok\<close> and on the link.
  \<open>Kcp_Packets\<close>: what is sent is a sequence of frames.  \<open>Kcp_Fits\<close>: a flush stays inside its buffer.
  \<open>Kcp_Links\<close>: what the calls leave alone.  \<open>Kcp_Runs\<close>, \<open>Kcp_Runs_Correct\<close>: sequences of calls
  (\<open>kcp_reachable\<close>) and the properties of all of them.  \<open>Kcp_Flow\<close>: windows and schedule.
  \<open>Kcp_Accept\<close>, \<open>Kcp_Delivery\<close>: two endpoints; a packet of one is accepted by the other, and a message
  that one sends and flushes arrives at the other.
  \<open>Kcp_Examples\<close>: concrete runs, among them four with undefined behaviour.

  \<open>Pb_Wire\<close>: slices of memory, the varint readers, fixed-width integers, byte strings, groups, skipping,
  zigzag conversions and type names.  \<open>Pb_Varint\<close>: a reference decoder of base-128 numbers, which every
  reader equals.  \<open>Pb_Reader\<close>: no reader leaves its slice, and skipping returns.
  \<open>Pb_Buffer\<close>: the output buffer.  \<open>Pb_Writer\<close>: its invariant \<open>buffer_ok\<close>; every writer appends, with the
  interface \<open>wire_number\<close> (what is written is read back) interpreted on the four number formats.
  \<open>Pb_Message\<close>: values with nested groups, skipped exactly; round trips.
  \<open>Pb_Table\<close>: the hash table.  \<open>Pb_Chains\<close>: chains of entries without the table.  \<open>Pb_Table_Ops\<close>,
  \<open>Pb_Table_Correct\<close>: the invariant \<open>table_ok\<close>, the finite map \<open>tmap\<close> a table stands for, and what
  lookup, insertion, growth, deletion and iteration do to it.  \<open>Pb_Examples\<close>: concrete runs.
  \<open>Pb_Pool\<close>: the pools that types and fields are allocated from; objects in use never overlap.
  \<open>Pb_Names\<close>: the table of strings with reference counts and its cache; \<open>Pb_Names_Correct\<close>: its invariant
  \<open>names_ok\<close>, one address for each string.  \<open>Pb_Types\<close>: the database of types and fields.
  \<open>Pb_Table_Values\<close>: hash tables by the values they give (\<open>tval\<close>, \<open>good\<close>).  \<open>Pb_Types_Invariant\<close>: the
  invariant \<open>state_ok\<close> of the database (tables, heaps and pools agree, every use of a name has a
  reference).  \<open>Pb_Types_Correct\<close>, \<open>Pb_Fields_Correct\<close>, \<open>Pb_Delete_Correct\<close>: new types, new fields,
  deletion and release keep it.  \<open>Pb_Database\<close>, \<open>Pb_Sort\<close>: the same in terms of the lookups, and the sorted
  list of fields.  \<open>Pb_Database_Examples\<close>: a small database and the behaviours at the limits.

  \<^bold>\<open>Bounds.\<close>  The allocator is assumed, where a property says \<open>bounded_allocator\<close>, to refuse requests of
  \<open>2 ^ 31\<close> entries or more, since \<open>mod\<close> computes with \<open>int\<close>.  No definition of Raft uses fuel: the loops end by
  measures (entries left, nodes left, entries to apply).

  Sequence numbers, times and counters of KCP are \<open>32 word\<close> and wrap around; its \<open>int\<close> fields are
  \<open>int\<close>, and arithmetic on them that overflows is undefined.  \<open>flush_within_mtu\<close> asks for an mtu below
  \<open>2 ^ 30\<close>, so that sums of sizes fit an \<open>int\<close>.  The only loop that may not end, the doubling in
  \<open>ikcp_ack_push\<close>, is a \<open>partial_function\<close>; it is shown to end for up to \<open>2 ^ 31\<close> acknowledgements.

  Of protobuf, reading a group has as fuel the number of bytes of its slice plus one, looking up a key the
  size of the table, and inserting a key a depth of three (it may grow the table, which inserts keys);
  \<open>skipvalue_stays_inside\<close> and \<open>settable_updates_map\<close> show that this is enough.  The loops over the
  entries of a table and over the objects of a page are \<open>partial_function\<close>s; the properties of the database
  show that they end.  Addresses of names, types and fields are natural numbers below \<open>2 ^ 64\<close> that the
  allocator gives (\<open>alloc_ok\<close>: fresh, or 0 for no memory).

  \<^bold>\<open>Not modelled.\<close>  Of KCP the text log, \<open>ikcp_allocator\<close> (the allocator is a parameter) and the \<open>user\<close>
  pointer are left out, and the byte order variants of the codecs other than the portable one.
  Of Raft, the runs of \<open>raft_reachable\<close> do not contain \<open>raft_begin_load_snapshot\<close>, \<open>raft_end_load_snapshot\<close>,
  \<open>raft_clear\<close> and \<open>raft_vote_for_nodeid\<close> called from outside, which set the term, the vote or the applied
  index on purpose or by mistake; they are modelled, and \<open>Raft_Snapshot_Correct\<close> has lemmas about loading a
  snapshot.  The text log, \<open>udata\<close>, \<open>raft_free\<close> and \<open>log_free\<close> are left out.  Of protobuf, the loader of
  descriptor files (\<open>pbL_\<close> functions, \<open>pb_load\<close>) is left out; hash arrays and lists of fields are values, so
  that the release of their blocks is not tracked.  The Lua bindings and the other
  components of the repository (C++ prototypes over the standard library, bindings of third-party
  libraries, vendored headers) are not modelled.
\<close>

end
